(* ===== verification/Lorie_Prelude.thy ===== *)
theory Lorie_Prelude
  imports Main "HOL-Library.Word"
begin

text \<open>
  Shared vocabulary of the development: the widths of the C integer types, guarded reads
  and writes of C arrays (an access outside the array is the value \<open>None\<close>, never an
  arbitrary element), the generic facts on lists and bytes that several components use, and
  two small interfaces (transition systems, fixed-width codecs) that components instantiate.
\<close>

unbundle bit_operations_syntax

section \<open>C integer types\<close>

type_synonym u8 = "8 word"
type_synonym u16 = "16 word"
type_synonym u32 = "32 word"
type_synonym u64 = "64 word"
type_synonym bytes = "u8 list"

section \<open>Collections of facts\<close>

named_theorems array_simps \<open>guarded array accesses\<close>
named_theorems byte_class \<open>classification of bytes by their high bits\<close>

section \<open>Guarded array accesses\<close>

definition rd :: "'a list \<Rightarrow> nat \<Rightarrow> 'a option" where
  "rd mem i = (if i < length mem then Some (mem ! i) else None)"

definition wr :: "'a list \<Rightarrow> nat \<Rightarrow> 'a \<Rightarrow> 'a list option" where
  "wr mem i v = (if i < length mem then Some (mem[i := v]) else None)"

lemma rd_append_left [array_simps]: "i < length xs \<Longrightarrow> rd (xs @ ys) i = Some (xs ! i)"
  by (simp add: rd_def nth_append)

lemma rd_append_at [array_simps]: "rd (xs @ y # ys) (length xs) = Some y"
  by (simp add: rd_def nth_append)

lemma rd_None [array_simps]: "length xs \<le> i \<Longrightarrow> rd xs i = None"
  by (simp add: rd_def)

lemma rd_Some_iff: "rd xs i = Some x \<longleftrightarrow> i < length xs \<and> xs ! i = x"
  by (auto simp: rd_def)

lemma rd_append_ge: "length xs \<le> i \<Longrightarrow> rd (xs @ ys) i = rd ys (i - length xs)"
  by (auto simp: rd_def nth_append)

lemma rd_append_plus [simp]: "rd (xs @ ys) (length xs + k) = rd ys k"
  by (simp add: rd_append_ge)

lemma rd_Cons_0 [simp]: "rd (x # xs) 0 = Some x"
  by (simp add: rd_def)

lemma rd_Cons_Suc [simp]: "rd (x # xs) (Suc n) = rd xs n"
  by (simp add: rd_def)

lemma rd_Nil [simp]: "rd [] n = None"
  by (simp add: rd_def)

lemma rd_Cons_numeral [simp]: "rd (x # xs) (numeral n) = rd xs (pred_numeral n)"
  by (simp add: numeral_eq_Suc)

lemma wr_append_at [array_simps]: "wr (xs @ y # ys) (length xs) v = Some (xs @ v # ys)"
  by (simp add: wr_def)

lemma wr_append_Suc [array_simps]:
  "wr (xs @ x # y # ys) (Suc (length xs)) v = Some (xs @ x # v # ys)"
  by (simp add: wr_def list_update_append)

lemma wr_length: "wr mem i v = Some mem' \<Longrightarrow> length mem' = length mem"
  by (auto simp: wr_def split: if_splits)

lemma wr_at_prefix:
  assumes "length ys = j" and "0 < length zs"
  shows "wr (ys @ zs) j v = Some ((ys @ [v]) @ tl zs)"
  using assms by (cases zs) (auto simp: wr_def)

section \<open>C strings\<close>

text \<open>The bytes of a C string up to its terminator: what \<^verbatim>\<open>strlen\<close>, \<^verbatim>\<open>strdup\<close> and
  \<^verbatim>\<open>%s\<close> see of a buffer.\<close>

definition c_string :: "bytes \<Rightarrow> bytes" where
  "c_string mem = takeWhile (\<lambda>c. c \<noteq> 0) mem"

lemma c_string_terminated: "0 \<notin> set s \<Longrightarrow> c_string (s @ 0 # r) = s"
  by (induction s) (auto simp: c_string_def)

lemma text_then_nul:
  assumes "length t \<le> n"
  shows "\<exists>post. t @ replicate (n + 1 - length t) 0 = c_string t @ (0 :: u8) # post"
proof (cases "0 \<in> set t")
  case True
  then obtain a b where "t = a @ 0 # b" "0 \<notin> set a" by (meson split_list_first)
  then show ?thesis by (auto simp: c_string_terminated)
next
  case False
  then have "c_string t = t" by (auto simp: c_string_def takeWhile_eq_all_conv)
  moreover have "n + 1 - length t = Suc (n - length t)" using assms by simp
  ultimately show ?thesis by simp
qed

lemma c_string_nul_free: "0 \<notin> set (c_string t)"
  by (auto simp: c_string_def dest: set_takeWhileD)

lemma length_c_string: "length (c_string t) \<le> length t"
  by (simp add: c_string_def length_takeWhile_le)

section \<open>Lists\<close>

lemma in_set_tlD: "x \<in> set (tl xs) \<Longrightarrow> x \<in> set xs"
  by (cases xs) auto

lemma remove1_append_mid: "x \<notin> set xs \<Longrightarrow> remove1 x (xs @ x # ys) = xs @ ys"
  by (induction xs) auto

lemma split_list_distinct:
  assumes "x \<in> set xs" and "distinct xs"
  obtains ys zs where "xs = ys @ x # zs" and "x \<notin> set ys" and "x \<notin> set zs"
  using assms by (metis split_list distinct_append distinct.simps(2) Int_iff
      disjoint_iff list.set_intros(1) not_distinct_conv_prefix)

text \<open>The first element of a list that satisfies a predicate, with its search loop.\<close>

lemma find_Some_in: "find P xs = Some x \<Longrightarrow> x \<in> set xs \<and> P x"
  by (induction xs) (auto split: if_splits)

lemma find_None_all: "find P xs = None \<longleftrightarrow> (\<forall>x\<in>set xs. \<not> P x)"
  by (induction xs) auto

section \<open>Bytes\<close>

text \<open>
  The sources classify a byte by masking its high bits. Masking with the top \<open>8 - n\<close> bits
  rounds the byte down to a multiple of \<open>2 ^ n\<close>, so each test is a range test.
\<close>

lemma byte_lt: "unat (c :: u8) < 256"
  using unsigned_less [of c, where ?'a = nat] by simp

lemma and_high_shift:
  fixes c :: u8
  assumes "n \<le> 8"
  shows "c AND push_bit n (mask (8 - n)) = push_bit n (drop_bit n c)"
  using assms by (intro bit_word_eqI) (auto simp: bit_simps)

lemma unat_and_high:
  fixes c :: u8
  assumes "n < 8"
  shows "unat (c AND push_bit n (mask (8 - n))) = unat c div 2 ^ n * 2 ^ n"
proof -
  have "unat c div 2 ^ n * 2 ^ n \<le> unat c" by simp
  then have lt: "unat c div 2 ^ n * 2 ^ n < 2 ^ 8"
    using byte_lt [of c] by (rule order.strict_trans1 [OF _ order.strict_trans2]) simp
  have "unat (push_bit n (drop_bit n c)) = take_bit 8 (push_bit n (drop_bit n (unat c)))"
    by (simp only: unsigned_push_bit_eq unsigned_drop_bit_eq) (simp add: take_bit_nat_eq_self byte_lt)
  also have "\<dots> = take_bit 8 (unat c div 2 ^ n * 2 ^ n)"
    by (simp only: push_bit_eq_mult drop_bit_eq_div)
  also have "\<dots> = unat c div 2 ^ n * 2 ^ n" using lt by (simp add: take_bit_nat_eq_self)
  finally show ?thesis using and_high_shift [of n c] assms by simp
qed

lemma unat_and_consts:
  fixes c :: u8
  shows "unat (c AND 0x80) = unat c div 128 * 128" "unat (c AND 0xc0) = unat c div 64 * 64"
    "unat (c AND 0xe0) = unat c div 32 * 32" "unat (c AND 0xf0) = unat c div 16 * 16"
    "unat (c AND 0xf8) = unat c div 8 * 8"
  using unat_and_high [of 7 c] unat_and_high [of 6 c] unat_and_high [of 5 c]
    unat_and_high [of 4 c] unat_and_high [of 3 c]
  by (simp_all add: mask_eq_exp_minus_1)

lemma div_mult_eq_iff:
  "0 < k \<Longrightarrow> (n :: nat) div k * k = m * k \<longleftrightarrow> m * k \<le> n \<and> n < Suc m * k"
  using less_eq_div_iff_mult_less_eq [of k m n] div_less_iff_less_mult [of k n "Suc m"] by auto

lemma high_bits_iff:
  fixes c m v :: u8
  assumes "unat (c AND m) = unat c div k * k" and "unat v = q * k" and "0 < k"
  shows "c AND m = v \<longleftrightarrow> unat v \<le> unat c \<and> unat c < unat v + k"
  using div_mult_eq_iff [OF assms(3), of "unat c" q] assms by (simp add: word_unat_eq_iff add.commute)

lemma and_c0 [byte_class]:
  fixes c :: u8
  shows "c AND 0xc0 = 0x80 \<longleftrightarrow> 0x80 \<le> c \<and> c < 0xc0"
  using high_bits_iff [OF unat_and_consts(2), of "0x80" 2 c]
  by (simp add: word_le_nat_alt word_less_nat_alt)

lemma and_80 [byte_class]:
  fixes c :: u8
  shows "c AND 0x80 = 0 \<longleftrightarrow> c < 0x80"
  using high_bits_iff [OF unat_and_consts(1), of 0 0 c]
  by (simp add: word_le_nat_alt word_less_nat_alt)

lemma and_e0_e0 [byte_class]:
  fixes c :: u8
  shows "c AND 0xe0 = 0xe0 \<longleftrightarrow> 0xe0 \<le> c"
  using high_bits_iff [OF unat_and_consts(3), of "0xe0" 7 c] byte_lt [of c]
  by (simp add: word_le_nat_alt word_less_nat_alt)

lemma and_e0_c0 [byte_class]:
  fixes c :: u8
  shows "c AND 0xe0 = 0xc0 \<longleftrightarrow> 0xc0 \<le> c \<and> c < 0xe0"
  using high_bits_iff [OF unat_and_consts(3), of "0xc0" 6 c]
  by (simp add: word_le_nat_alt word_less_nat_alt)

lemma and_f0_f0 [byte_class]:
  fixes c :: u8
  shows "c AND 0xf0 = 0xf0 \<longleftrightarrow> 0xf0 \<le> c"
  using high_bits_iff [OF unat_and_consts(4), of "0xf0" 15 c] byte_lt [of c]
  by (simp add: word_le_nat_alt word_less_nat_alt)

lemma and_f0_e0 [byte_class]:
  fixes c :: u8
  shows "c AND 0xf0 = 0xe0 \<longleftrightarrow> 0xe0 \<le> c \<and> c < 0xf0"
  using high_bits_iff [OF unat_and_consts(4), of "0xe0" 14 c]
  by (simp add: word_le_nat_alt word_less_nat_alt)

lemma and_f8_f0 [byte_class]:
  fixes c :: u8
  shows "c AND 0xf8 = 0xf0 \<longleftrightarrow> 0xf0 \<le> c \<and> c < 0xf8"
  using high_bits_iff [OF unat_and_consts(5), of "0xf0" 30 c]
  by (simp add: word_le_nat_alt word_less_nat_alt)

lemma and_mask_mod: "(c :: 'a::len word) AND mask n = word_of_nat (unat c mod 2 ^ n)"
proof -
  have "unat (c AND mask n) = take_bit n (unat c)"
    by (simp only: take_bit_eq_mask [symmetric] unsigned_take_bit_eq)
  also have "\<dots> = unat c mod 2 ^ n" by (simp only: take_bit_eq_mod)
  finally show ?thesis by (metis of_nat_unat ucast_id)
qed

lemma and_low:
  fixes c :: u8
  shows "c AND 0x3f = word_of_nat (unat c mod 64)" "c AND 0x1f = word_of_nat (unat c mod 32)"
    "c AND 0x0f = word_of_nat (unat c mod 16)" "c AND 0x07 = word_of_nat (unat c mod 8)"
  using and_mask_mod [of c 6] and_mask_mod [of c 5] and_mask_mod [of c 4] and_mask_mod [of c 3]
  by (simp_all add: mask_eq_exp_minus_1)


lemma unat_byte: "n < 256 \<Longrightarrow> unat (word_of_nat n :: u8) = n"
  by (simp only: unsigned_of_nat) (simp add: take_bit_nat_eq_self)

lemma unat_ucast_byte: "unat (ucast (c :: u8) :: u32) = unat c"
  using byte_lt [of c] by (simp only: unsigned_ucast_eq) (simp add: take_bit_nat_eq_self)

lemma unat_pred: "Suc k \<le> unat mx \<Longrightarrow> mx \<noteq> 0 \<and> k \<le> unat (mx - 1 :: 'a::len word)"
  by (cases "mx = 0") (simp_all add: unat_minus_one)

lemma unat_minus_nat:
  assumes "k \<le> unat (x :: u64)"
  shows "unat (x - word_of_nat k) = unat x - k"
proof -
  have "k < 2 ^ 64" using assms unsigned_less [of x, where ?'a = nat] by (simp add: le_less_trans)
  then have k: "unat (word_of_nat k :: u64) = k"
    by (simp only: unsigned_of_nat) (simp add: take_bit_nat_eq_self)
  then show ?thesis using assms by (subst unat_sub) (simp_all add: word_le_nat_alt)
qed

lemma and_not_mask:
  fixes x :: "'a::len word"
  shows "x AND NOT (mask k) = x - word_of_nat (unat x mod 2 ^ k)"
proof -
  have "(x AND mask k) AND (x AND NOT (mask k)) = 0" by (rule bit_word_eqI) (auto simp: bit_simps)
  then have "(x AND mask k) + (x AND NOT (mask k)) = (x AND mask k) OR (x AND NOT (mask k))"
    by (rule disjunctive_add_eq_or)
  also have "\<dots> = x" by (rule bit_word_eqI) (auto simp: bit_simps)
  finally show ?thesis by (simp add: and_mask_mod algebra_simps)
qed

lemma unat_and_not_mask:
  fixes x :: "'a::len word"
  shows "unat (x AND NOT (mask k)) = unat x div 2 ^ k * 2 ^ k"
proof -
  have le: "word_of_nat (unat x mod 2 ^ k) \<le> x"
    by (metis and_mask_mod word_and_le2 and.commute)
  have "unat (word_of_nat (unat x mod 2 ^ k) :: 'a word) = unat x mod 2 ^ k"
    by (metis and_mask_mod take_bit_eq_mask unsigned_take_bit_eq take_bit_eq_mod)
  then show ?thesis
    using le by (simp add: and_not_mask unat_sub minus_mod_eq_div_mult)
qed

section \<open>Transition systems\<close>

text \<open>
  The contract shared by the concurrent components: a start predicate, a step relation and
  an invariant that holds at the start and is kept by every step.
\<close>

locale transition_system =
  fixes start :: "'s \<Rightarrow> bool"
    and step :: "'s \<Rightarrow> 's \<Rightarrow> bool"
    and invariant :: "'s \<Rightarrow> bool"
  assumes start_inv: "start s \<Longrightarrow> invariant s"
    and step_inv: "invariant s \<Longrightarrow> step s t \<Longrightarrow> invariant t"
begin

lemma steps_inv: "step\<^sup>*\<^sup>* s t \<Longrightarrow> invariant s \<Longrightarrow> invariant t"
  by (induction rule: rtranclp_induct) (auto intro: step_inv)

lemma reachable_inv: "start s \<Longrightarrow> step\<^sup>*\<^sup>* s t \<Longrightarrow> invariant t"
  using start_inv steps_inv by blast

end

section \<open>Data refinement\<close>

text \<open>
  The contract between a detailed state and an abstract one: \<open>rep c a\<close> says that \<open>c\<close> represents \<open>a\<close>, and an
  operation that may be called (\<open>ok\<close>) returns and keeps the representation. Runs are then refined
  too; \<open>None\<close> is an operation that goes wrong or does not end.
\<close>

fun run_ops :: "('l \<Rightarrow> 'c \<Rightarrow> 'c option) \<Rightarrow> 'l list \<Rightarrow> 'c \<Rightarrow> 'c option" where
  "run_ops f [] c = Some c"
| "run_ops f (l # ls) c = Option.bind (f l c) (run_ops f ls)"

fun run_ok :: "('l \<Rightarrow> 'c \<Rightarrow> bool) \<Rightarrow> ('l \<Rightarrow> 'c \<Rightarrow> 'c option) \<Rightarrow> 'l list \<Rightarrow> 'c \<Rightarrow> bool" where
  "run_ok ok f [] c = True"
| "run_ok ok f (l # ls) c = (ok l c \<and> (case f l c of None \<Rightarrow> True | Some c' \<Rightarrow> run_ok ok f ls c'))"

locale data_refinement =
  fixes rep :: "'c \<Rightarrow> 'a \<Rightarrow> bool"
    and ok :: "'l \<Rightarrow> 'c \<Rightarrow> bool"
    and cop :: "'l \<Rightarrow> 'c \<Rightarrow> 'c option"
    and aop :: "'l \<Rightarrow> 'a \<Rightarrow> 'a"
  assumes op_refines: "rep c a \<Longrightarrow> ok l c \<Longrightarrow> \<exists>c'. cop l c = Some c' \<and> rep c' (aop l a)"
begin

lemma run_refines:
  "rep c a \<Longrightarrow> run_ok ok cop ls c \<Longrightarrow> \<exists>c'. run_ops cop ls c = Some c' \<and> rep c' (fold aop ls a)"
proof (induction ls arbitrary: c a)
  case (Cons l ls)
  then obtain c' where "cop l c = Some c'" "rep c' (aop l a)" using op_refines by fastforce
  with Cons show ?case by simp
qed simp

end

section \<open>Fixed-width codecs\<close>

text \<open>
  The contract of a message format with a fixed width: encoding has that width and decoding
  inverts it. Concatenated messages then decode one by one.
\<close>

locale fixed_codec =
  fixes width :: nat
    and enc :: "'m \<Rightarrow> bytes"
    and dec :: "bytes \<Rightarrow> 'm option"
    and valid :: "'m \<Rightarrow> bool"
  assumes enc_width: "length (enc m) = width"
    and dec_enc: "valid m \<Longrightarrow> dec (enc m) = Some m"
begin

lemma take_enc: "take width (enc m @ rest) = enc m"
  by (simp add: enc_width)

lemma drop_enc: "drop width (enc m @ rest) = rest"
  by (simp add: enc_width)

lemma dec_take_enc: "valid m \<Longrightarrow> dec (take width (enc m @ rest)) = Some m"
  by (simp only: take_enc dec_enc)

lemma enc_inj: "valid m \<Longrightarrow> valid m' \<Longrightarrow> enc m = enc m' \<Longrightarrow> m = m'"
  by (metis dec_enc option.inject)

end

end
