(* ===== verification/Lorie_Text.thy ===== *)
theory Lorie_Text
  imports Lorie_Prelude
begin

text \<open>
  The text conversion helpers of \<^verbatim>\<open>lorie/clipboard.c\<close>: carriage return removal, Latin-1 to
  UTF-8, the UTF-8 check, the UTF-8 decoder and UTF-8 to Latin-1. Memory is a list of bytes;
  a read or write outside it makes the whole call \<open>None\<close>.
\<close>

section \<open>Removing carriage returns\<close>

function lorieConvertLF_loop :: "bytes \<Rightarrow> nat \<Rightarrow> bytes \<Rightarrow> nat \<Rightarrow> nat \<Rightarrow> bytes option" where
  "lorieConvertLF_loop src bytes dst i j =
     (if i < bytes then
        Option.bind (rd src i) (\<lambda>c.
          if c \<noteq> 13
          then Option.bind (wr dst j c) (\<lambda>dst'. lorieConvertLF_loop src bytes dst' (Suc i) (Suc j))
          else lorieConvertLF_loop src bytes dst (Suc i) j)
      else Some dst)"
  by pat_completeness auto
termination
  by (relation "measure (\<lambda>(src, bytes, dst, i, j). bytes - i)") auto

definition lorieConvertLF :: "bytes \<Rightarrow> bytes \<Rightarrow> nat \<Rightarrow> bytes option" where
  "lorieConvertLF src dst bytes = lorieConvertLF_loop src bytes dst 0 0"

declare lorieConvertLF_loop.simps [simp del]

section \<open>Latin-1 to UTF-8\<close>

function lorieLatin1ToUTF8_loop :: "bytes \<Rightarrow> nat \<Rightarrow> bytes \<Rightarrow> nat \<Rightarrow> bytes option" where
  "lorieLatin1ToUTF8_loop out j inp i =
     Option.bind (rd inp i) (\<lambda>c.
       if c = 0 then Some out
       else if c < 128
       then Option.bind (wr out j c) (\<lambda>out'. lorieLatin1ToUTF8_loop out' (Suc j) inp (Suc i))
       else Option.bind (wr out j (0xc2 + (if c > 0xbf then 1 else 0))) (\<lambda>out'.
            Option.bind (wr out' (Suc j) ((c AND 0x3f) + 0x80)) (\<lambda>out''.
              lorieLatin1ToUTF8_loop out'' (Suc (Suc j)) inp (Suc i))))"
  by pat_completeness auto
termination
  by (relation "measure (\<lambda>(out, j, inp, i). length inp - i)") (auto simp: rd_Some_iff)

definition lorieLatin1ToUTF8 :: "bytes \<Rightarrow> bytes \<Rightarrow> bytes option" where
  "lorieLatin1ToUTF8 out inp = lorieLatin1ToUTF8_loop out 0 inp 0"

declare lorieLatin1ToUTF8_loop.simps [simp del]

section \<open>The UTF-8 check\<close>

text \<open>The loop reads \<^verbatim>\<open>utf[ix]\<close> before it compares \<^verbatim>\<open>ix\<close> with \<^verbatim>\<open>size\<close>, and reads the
  continuation bytes without comparing their index at all.\<close>

definition is_cont :: "u8 \<Rightarrow> bool" where
  "is_cont c \<longleftrightarrow> c AND 0xc0 = 0x80"

function lorieCheckUTF8_loop :: "bytes \<Rightarrow> nat \<Rightarrow> nat \<Rightarrow> nat option" where
  "lorieCheckUTF8_loop utf sz ix =
     Option.bind (rd utf ix) (\<lambda>c.
       if c \<noteq> 0 \<and> ix < sz then
         (if c AND 0x80 \<noteq> 0 then
            Option.bind (rd utf (ix + 1)) (\<lambda>c1.
              if \<not> is_cont c1 then Some 0
              else if c AND 0xe0 = 0xe0 then
                Option.bind (rd utf (ix + 2)) (\<lambda>c2.
                  if \<not> is_cont c2 then Some 0
                  else if c AND 0xf0 = 0xf0 then
                    (if c AND 0xf8 \<noteq> 0xf0 then Some 0
                     else Option.bind (rd utf (ix + 3)) (\<lambda>c3.
                       if \<not> is_cont c3 then Some 0
                       else lorieCheckUTF8_loop utf sz (ix + 4)))
                  else lorieCheckUTF8_loop utf sz (ix + 3))
              else lorieCheckUTF8_loop utf sz (ix + 2))
          else lorieCheckUTF8_loop utf sz (ix + 1))
       else Some 1)"
  by pat_completeness auto
termination
  by (relation "measure (\<lambda>(utf, sz, ix). length utf - ix)") (auto simp: rd_Some_iff)

definition lorieCheckUTF8 :: "bytes \<Rightarrow> nat \<Rightarrow> nat option" where
  "lorieCheckUTF8 utf sz = lorieCheckUTF8_loop utf sz 0"

declare lorieCheckUTF8_loop.simps [simp del]

section \<open>The UTF-8 decoder\<close>

text \<open>The continuation bytes after an invalid lead byte are consumed one by one; the count of
  bytes left is a \<^verbatim>\<open>size_t\<close>.\<close>

function skip_cont :: "bytes \<Rightarrow> nat \<Rightarrow> u64 \<Rightarrow> nat \<Rightarrow> nat option" where
  "skip_cont src i mx consumed =
     (if mx > 0 then
        Option.bind (rd src i) (\<lambda>c.
          if is_cont c then skip_cont src (Suc i) (mx - 1) (Suc consumed) else Some consumed)
      else Some consumed)"
  by pat_completeness auto
termination
  by (relation "measure (\<lambda>(src, i, mx, consumed). length src - i)") (auto simp: rd_Some_iff)

declare skip_cont.simps [simp del]

text \<open>The loop over the expected continuation bytes: \<open>dst\<close> and the number of bytes consumed.\<close>

fun decode_cont :: "nat \<Rightarrow> bytes \<Rightarrow> nat \<Rightarrow> u64 \<Rightarrow> u32 \<Rightarrow> nat \<Rightarrow> (u32 \<times> nat) option" where
  "decode_cont 0 src i mx dst consumed =
     Some (if 0xd800 \<le> dst \<and> dst < 0xe000 then 0xfffd else dst, consumed)"
| "decode_cont (Suc count) src i mx dst consumed =
     (if mx = 0 then Some (0xfffd, Suc consumed)
      else Option.bind (rd src i) (\<lambda>c.
        if \<not> is_cont c then Some (0xfffd, Suc consumed)
        else decode_cont count src (Suc i) (mx - 1)
               (push_bit 6 dst OR ucast (c AND 0x3f)) (Suc consumed)))"

definition lorieUtf8ToUCS4 :: "bytes \<Rightarrow> nat \<Rightarrow> u64 \<Rightarrow> (u32 \<times> nat) option" where
  "lorieUtf8ToUCS4 src i mx =
     (if mx = 0 then Some (0xfffd, 0)
      else Option.bind (rd src i) (\<lambda>c.
        if c AND 0x80 = 0 then decode_cont 0 src (Suc i) (mx - 1) (ucast c) 1
        else if c AND 0xe0 = 0xc0 then decode_cont 1 src (Suc i) (mx - 1) (ucast (c AND 0x1f)) 1
        else if c AND 0xf0 = 0xe0 then decode_cont 2 src (Suc i) (mx - 1) (ucast (c AND 0x0f)) 1
        else if c AND 0xf8 = 0xf0 then decode_cont 3 src (Suc i) (mx - 1) (ucast (c AND 0x07)) 1
        else map_option (\<lambda>n. (0xfffd, n)) (skip_cont src (Suc i) (mx - 1) 1)))"

section \<open>UTF-8 to Latin-1\<close>

text \<open>The first pass counts the characters, the second one writes them into an array of
  that size. A decoder step that consumes no byte would not advance the loop; it happens
  only for \<open>in_len = 0\<close>, where the loop has stopped.\<close>

function lorieUtf8_count :: "bytes \<Rightarrow> nat \<Rightarrow> u64 \<Rightarrow> nat \<Rightarrow> nat option" where
  "lorieUtf8_count src i in_len sz =
     (if in_len > 0 then
        Option.bind (rd src i) (\<lambda>c.
          if c \<noteq> 0 then
            Option.bind (lorieUtf8ToUCS4 src i in_len) (\<lambda>(ucs, len).
              if len = 0 then None
              else lorieUtf8_count src (i + len) (in_len - word_of_nat len) (Suc sz))
          else Some sz)
      else Some sz)"
  by pat_completeness auto
termination
  by (relation "measure (\<lambda>(src, i, in_len, sz). length src - i)") (auto simp: rd_Some_iff)

function lorieUtf8_write :: "bytes \<Rightarrow> nat \<Rightarrow> u64 \<Rightarrow> bytes \<Rightarrow> nat \<Rightarrow> bytes option" where
  "lorieUtf8_write src i in_len out position =
     (if in_len > 0 then
        Option.bind (rd src i) (\<lambda>c.
          if c \<noteq> 0 then
            Option.bind (lorieUtf8ToUCS4 src i in_len) (\<lambda>(ucs, len).
              if len = 0 then None
              else Option.bind (wr out position (if ucs > 0xff then 63 else ucast ucs)) (\<lambda>out'.
                lorieUtf8_write src (i + len) (in_len - word_of_nat len) out' (Suc position)))
          else Some out)
      else Some out)"
  by pat_completeness auto
termination
  by (relation "measure (\<lambda>(src, i, in_len, out, position). length src - i)") (auto simp: rd_Some_iff)

declare lorieUtf8_count.simps [simp del]
declare lorieUtf8_write.simps [simp del]

definition lorieUtf8ToLatin1 :: "bytes \<Rightarrow> bytes option" where
  "lorieUtf8ToLatin1 src =
     Option.bind (lorieUtf8_count src 0 (-1) 0) (\<lambda>sz.
       Option.bind (lorieUtf8_write src 0 4294967295 (replicate (sz + 1) 0) 0) (\<lambda>out.
         Some (c_string out)))"

section \<open>Reference encoding\<close>

text \<open>UTF-8 as the standard defines it, on code points as natural numbers.\<close>

definition utf8_enc :: "nat \<Rightarrow> bytes" where
  "utf8_enc n = map word_of_nat
     (if n < 0x80 then [n]
      else if n < 0x800 then [0xc0 + n div 64, 0x80 + n mod 64]
      else if n < 0x10000 then [0xe0 + n div 4096, 0x80 + n div 64 mod 64, 0x80 + n mod 64]
      else [0xf0 + n div 262144, 0x80 + n div 4096 mod 64, 0x80 + n div 64 mod 64, 0x80 + n mod 64])"

definition code_point :: "nat \<Rightarrow> bool" where
  "code_point n \<longleftrightarrow> n < 0x110000 \<and> \<not> (0xd800 \<le> n \<and> n < 0xe000)"

definition utf8_encode :: "nat list \<Rightarrow> bytes" where
  "utf8_encode ns = concat (map utf8_enc ns)"

definition latin1_of :: "nat \<Rightarrow> u8" where
  "latin1_of n = (if n > 0xff then 63 else word_of_nat n)"

definition cont_byte :: "nat \<Rightarrow> u8" where
  "cont_byte k = word_of_nat (0x80 + k mod 64)"

text \<open>The shape the check accepts: it does not look at the range of the lead byte of a
  two-byte sequence, nor at overlong forms and surrogates.\<close>

fun utf8_shape :: "bytes \<Rightarrow> bool" where
  "utf8_shape [] = True"
| "utf8_shape (c # cs) =
     (if c < 0x80 then utf8_shape cs
      else case cs of [] \<Rightarrow> False | c1 # cs1 \<Rightarrow> is_cont c1 \<and>
        (if c < 0xe0 then utf8_shape cs1
         else case cs1 of [] \<Rightarrow> False | c2 # cs2 \<Rightarrow> is_cont c2 \<and>
           (if c < 0xf0 then utf8_shape cs2
            else c < 0xf8 \<and> (case cs2 of [] \<Rightarrow> False | c3 # cs3 \<Rightarrow> is_cont c3 \<and> utf8_shape cs3))))"

lemma is_cont_iff: "is_cont c \<longleftrightarrow> 0x80 \<le> c \<and> c < 0xc0"
  by (simp add: is_cont_def byte_class)

lemma not_cont_0 [simp]: "\<not> is_cont 0"
  by (simp add: is_cont_def)

section \<open>Lemmas on the conversion loops\<close>

lemma lorieConvertLF_loop_correct:
  assumes "bytes \<le> length src" and "i \<le> bytes"
    and "length (filter (\<lambda>c. c \<noteq> 13) (drop i (take bytes src))) \<le> length rest"
  shows "lorieConvertLF_loop src bytes (out @ rest) i (length out) =
    Some (out @ filter (\<lambda>c. c \<noteq> 13) (drop i (take bytes src)) @
      drop (length (filter (\<lambda>c. c \<noteq> 13) (drop i (take bytes src)))) rest)"
  using assms
proof (induction "bytes - i" arbitrary: i out rest)
  case 0
  then show ?case by (simp add: lorieConvertLF_loop.simps)
next
  case (Suc n)
  from Suc.hyps(2) have lt: "i < bytes" by simp
  with Suc.prems(1) have split: "drop i (take bytes src) = src ! i # drop (Suc i) (take bytes src)"
    by (simp flip: Cons_nth_drop_Suc)
  have n: "n = bytes - Suc i" using Suc.hyps(2) by simp
  show ?case
  proof (cases "src ! i = 13")
    case True
    then show ?thesis
      using Suc.hyps(1) [OF n, of rest out] Suc.prems lt split
      by (subst lorieConvertLF_loop.simps) (simp add: rd_def)
  next
    case False
    then obtain r rs where rest: "rest = r # rs"
      using Suc.prems(3) split by (cases rest) auto
    show ?thesis
      using Suc.hyps(1) [OF n, of rs "out @ [src ! i]"] Suc.prems lt split rest False
      by (subst lorieConvertLF_loop.simps) (simp add: rd_def array_simps)
  qed
qed

lemma utf8_enc_latin1:
  "unat c < 128 \<Longrightarrow> utf8_enc (unat c) = [c]"
  "128 \<le> unat c \<Longrightarrow> utf8_enc (unat (c::u8)) = [0xc2 + (if c > 0xbf then 1 else 0), (c AND 0x3f) + 0x80]"
proof -
  show "unat c < 128 \<Longrightarrow> utf8_enc (unat c) = [c]" by (simp add: utf8_enc_def)
  assume hi: "128 \<le> unat c"
  have lt: "unat c < 256" by (rule byte_lt)
  have d: "unat c div 64 = 2 + (if c > 0xbf then 1 else 0)"
    using hi lt by (auto simp: word_less_nat_alt intro!: div_nat_eqI)
  have m: "c AND 0x3f = word_of_nat (unat c mod 64)"
    by (simp only: and_low)
  show "utf8_enc (unat c) = [0xc2 + (if c > 0xbf then 1 else 0), (c AND 0x3f) + 0x80]"
    using hi lt d m by (simp add: utf8_enc_def)
qed

lemma lorieLatin1ToUTF8_loop_correct:
  assumes "0 \<notin> set s" and "length (utf8_encode (map unat s)) \<le> length rest"
  shows "lorieLatin1ToUTF8_loop (out @ rest) (length out) (pre @ s @ 0 # post) (length pre) =
    Some (out @ utf8_encode (map unat s) @ drop (length (utf8_encode (map unat s))) rest)"
  using assms
proof (induction s arbitrary: out rest pre)
  case Nil
  then show ?case by (simp add: lorieLatin1ToUTF8_loop.simps utf8_encode_def array_simps)
next
  case (Cons c s)
  have c: "c \<noteq> 0" "0 \<notin> set s" using Cons.prems(1) by auto
  show ?case
  proof (cases "unat c < 128")
    case True
    then have e: "utf8_encode (map unat (c # s)) = c # utf8_encode (map unat s)"
      by (simp add: utf8_encode_def utf8_enc_latin1)
    then obtain r rs where rest: "rest = r # rs" using Cons.prems(2) by (cases rest) auto
    show ?thesis
      using True c Cons.IH [of rs "out @ [c]" "pre @ [c]"] Cons.prems(2) rest e
      by (subst lorieLatin1ToUTF8_loop.simps) (simp add: array_simps word_less_nat_alt)
  next
    case False
    let ?x = "0xc2 + (if c > 0xbf then 1 else 0) :: u8" and ?y = "(c AND 0x3f) + 0x80"
    have e: "utf8_encode (map unat (c # s)) = ?x # ?y # utf8_encode (map unat s)"
      using False by (simp add: utf8_encode_def utf8_enc_latin1)
    then obtain r r' rs where rest: "rest = r # r' # rs"
      using Cons.prems(2) by (cases rest; cases "tl rest") auto
    show ?thesis
      using False c Cons.IH [of rs "out @ [?x, ?y]" "pre @ [c]"] Cons.prems(2) unfolding rest e
      by (subst lorieLatin1ToUTF8_loop.simps) (simp add: array_simps word_less_nat_alt)
  qed
qed

section \<open>Lemmas on the check\<close>

lemma lorieCheckUTF8_loop_shift:
  "lorieCheckUTF8_loop (x # utf) (Suc sz) (Suc ix) = lorieCheckUTF8_loop utf sz ix"
proof (induction "length utf - ix" arbitrary: ix rule: less_induct)
  case less
  have IH: "lorieCheckUTF8_loop (x # utf) (Suc sz) (Suc (ix + k)) = lorieCheckUTF8_loop utf sz (ix + k)"
    if "0 < k" "rd utf ix = Some c" for k c
    proof (rule less)
    show "length utf - (ix + k) < length utf - ix" using that by (auto simp: rd_Some_iff)
  qed
  have r: "rd (x # utf) (Suc ix + k) = rd utf (ix + k)" for k by simp
  have r0: "rd (x # utf) (Suc ix) = rd utf ix" by simp
  have e: "Suc ix + k = Suc (ix + k)" for k by simp
  show ?case
  proof (cases "rd utf ix")
    case None
    then show ?thesis by (simp add: lorieCheckUTF8_loop.simps)
  next
    case (Some c)
    note IH' = IH [OF _ Some, unfolded e[symmetric]]
    show ?thesis
      by (subst (1 2) lorieCheckUTF8_loop.simps)
         (simp only: r r0 Some bind.bind_lunit IH'[of 1] IH'[of 2] IH'[of 3] IH'[of 4] zero_less_numeral zero_less_one Suc_less_eq)
  qed
qed

lemma lorieCheckUTF8_loop_shift_numeral:
  "lorieCheckUTF8_loop (x # utf) (Suc sz) (numeral n) = lorieCheckUTF8_loop utf sz (pred_numeral n)"
  by (simp only: numeral_eq_Suc lorieCheckUTF8_loop_shift)

lemmas lorieCheckUTF8_shifts = lorieCheckUTF8_loop_shift lorieCheckUTF8_loop_shift_numeral

lemma utf8_lead_class:
  fixes c :: u8
  shows "c AND 0x80 \<noteq> 0 \<longleftrightarrow> \<not> c < 0x80" and "c AND 0xe0 = 0xe0 \<longleftrightarrow> \<not> c < 0xe0"
    and "c AND 0xf0 = 0xf0 \<longleftrightarrow> \<not> c < 0xf0" and "c AND 0xf8 \<noteq> 0xf0 \<longleftrightarrow> c < 0xf0 \<or> \<not> c < 0xf8"
  by (auto simp: byte_class)

lemma lorieCheckUTF8_terminated:
  assumes "0 \<notin> set s"
  shows "lorieCheckUTF8_loop (s @ 0 # post) (length s) 0 = Some (if utf8_shape s then 1 else 0)"
  using assms
proof (induction s rule: utf8_shape.induct)
  case 1
  then show ?case by (simp add: lorieCheckUTF8_loop.simps array_simps)
next
  case (2 c cs)
  have nz: "c \<noteq> 0" using "2.prems" by auto
  consider "cs = []" | c1 where "cs = [c1]" | c1 c2 where "cs = [c1, c2]" |
     c1 c2 c3 w where "cs = c1 # c2 # c3 # w" by (metis list.exhaust)
  then show ?case 
  proof cases
    case 1
    then show ?thesis using 2 nz by (subst lorieCheckUTF8_loop.simps) (simp add: utf8_lead_class lorieCheckUTF8_shifts)
  next
    case (2 c1)
    then show ?thesis using "2.prems" "2.IH"(1,2) nz by (subst lorieCheckUTF8_loop.simps) (simp add: utf8_lead_class lorieCheckUTF8_shifts)
  next
    case (3 c1 c2)
    then show ?thesis using "2.prems" "2.IH" nz by (subst lorieCheckUTF8_loop.simps) (simp add: utf8_lead_class lorieCheckUTF8_shifts)
  next
    case (4 c1 c2 c3 w)
    then show ?thesis using "2.prems" "2.IH" nz by (subst lorieCheckUTF8_loop.simps) (simp add: utf8_lead_class lorieCheckUTF8_shifts)
  qed
qed

section \<open>Lemmas on the decoder\<close>

lemma or_disjoint_add: "push_bit 6 d OR take_bit 6 x = push_bit 6 d + take_bit 6 (x :: u32)"
  by (rule disjunctive_add_eq_or [symmetric]) (rule bit_word_eqI, auto simp: bit_simps)

lemma cont_step:
  "push_bit 6 (word_of_nat a :: u32) OR ucast (c AND 0x3f :: u8) = word_of_nat (a * 64 + unat c mod 64)"
proof -
  have "ucast (c AND mask 6) = take_bit 6 (ucast c :: u32)"
    by (rule bit_word_eqI) (auto simp: bit_simps)
  then have m: "ucast (c AND 0x3f) = take_bit 6 (ucast c :: u32)" by (simp add: mask_eq_exp_minus_1)
  have "take_bit 6 (ucast c :: u32) = word_of_nat (unat c mod 64)"
    using and_mask_mod [of "ucast c :: u32" 6] by (simp add: take_bit_eq_mask unat_ucast_byte)
  then show ?thesis using or_disjoint_add [of "word_of_nat a" "ucast c"]
    by (simp add: m push_bit_eq_mult algebra_simps)
qed

lemma decode_cont_shift:
  "decode_cont k (pre @ w) (length pre + i) mx d n = decode_cont k w i mx d n"
proof (induction k arbitrary: i mx d n)
  case (Suc k)
  have "rd (pre @ w) (length pre + i) = rd w i" by simp
  then show ?case using Suc [of "Suc i"] by (simp cong: bind_option_cong if_cong)
qed simp

lemma skip_cont_shift:
  "skip_cont (pre @ w) (length pre + i) mx n = skip_cont w i mx n"
proof (induction "length w - i" arbitrary: i mx n rule: less_induct)
  case less
  show ?case
  proof (cases "i < length w")
    case True
    then have "skip_cont (pre @ w) (length pre + Suc i) (mx - 1) (Suc n) = skip_cont w (Suc i) (mx - 1) (Suc n)"
      by (intro less) simp
    then show ?thesis using True by (subst (1 2) skip_cont.simps) (simp cong: if_cong)
  next
    case False
    then show ?thesis by (subst (1 2) skip_cont.simps) (simp add: array_simps)
  qed
qed

lemma lorieUtf8ToUCS4_shift:
  "lorieUtf8ToUCS4 (pre @ w) (length pre) mx = lorieUtf8ToUCS4 w 0 mx"
  using rd_append_plus [of pre w 0] decode_cont_shift [of _ pre w 1] skip_cont_shift [of pre w 1]
  by (simp add: lorieUtf8ToUCS4_def cong: if_cong)

lemma cont_byte: "is_cont (cont_byte k)" "unat (cont_byte k) mod 64 = k mod 64"
proof -
  have "k mod 64 < 64" by simp
  then have u: "unat (cont_byte k) = 128 + k mod 64"
    by (simp only: cont_byte_def unat_byte)
  then show "is_cont (cont_byte k)" using \<open>k mod 64 < 64\<close> by (simp add: is_cont_iff word_le_nat_alt word_less_nat_alt)
  show "unat (cont_byte k) mod 64 = k mod 64"
    using mod_mult_self3 [of 2 64 "k mod 64"] by (simp add: u)
qed

lemma decode_cont_step:
  assumes "mx \<noteq> 0"
  shows "decode_cont (Suc m) (xs @ cont_byte k # w) (length xs) mx (word_of_nat a) n =
    decode_cont m (xs @ cont_byte k # w) (Suc (length xs)) (mx - 1) (word_of_nat (a * 64 + k mod 64)) (Suc n)"
  using assms by (simp add: array_simps cont_byte cont_step)

lemma utf8_enc_cases:
  assumes "n < 0x110000"
  obtains "n < 0x80" "utf8_enc n = [word_of_nat n]"
  | "0x80 \<le> n" "n < 0x800" "utf8_enc n = [word_of_nat (0xc0 + n div 64), cont_byte n]"
  | "0x800 \<le> n" "n < 0x10000"
    "utf8_enc n = [word_of_nat (0xe0 + n div 4096), cont_byte (n div 64), cont_byte n]"
  | "0x10000 \<le> n"
    "utf8_enc n = [word_of_nat (0xf0 + n div 262144), cont_byte (n div 4096), cont_byte (n div 64), cont_byte n]"
proof -
  consider "n < 0x80" | "0x80 \<le> n" "n < 0x800" | "0x800 \<le> n" "n < 0x10000" | "0x10000 \<le> n"
    by linarith
  then show ?thesis
    by cases (auto simp: utf8_enc_def cont_byte_def intro: that)
qed

lemma decode_cont_encoded:
  assumes "Suc m \<le> unat mx"
  shows "decode_cont (Suc m) (x # w) (Suc i) mx (word_of_nat a) n =
    Option.bind (rd w i) (\<lambda>c. if \<not> is_cont c then Some (0xfffd, Suc n)
      else decode_cont m (x # w) (Suc (Suc i)) (mx - 1) (word_of_nat (a * 64 + unat c mod 64)) (Suc n))"
  using unat_pred [OF assms] by (simp add: cont_step cong: if_cong)

lemma decode_cont_done:
  assumes "code_point n"
  shows "decode_cont 0 src i mx (word_of_nat n) k = Some (word_of_nat n, k)"
proof -
  have "unat (word_of_nat n :: u32) = n"
    using assms by (simp only: unsigned_of_nat) (simp add: code_point_def take_bit_nat_eq_self)
  then show ?thesis using assms by (auto simp: code_point_def word_le_nat_alt word_less_nat_alt)
qed

lemma lorieUtf8ToUCS4_lead:
  assumes "mx \<noteq> 0"
  shows "k < 128 \<Longrightarrow> lorieUtf8ToUCS4 (word_of_nat k # w) 0 mx =
      decode_cont 0 (word_of_nat k # w) (Suc 0) (mx - 1) (word_of_nat k) 1"
    and "k < 32 \<Longrightarrow> lorieUtf8ToUCS4 (word_of_nat (192 + k) # w) 0 mx =
      decode_cont 1 (word_of_nat (192 + k) # w) (Suc 0) (mx - 1) (word_of_nat k) 1"
    and "k < 16 \<Longrightarrow> lorieUtf8ToUCS4 (word_of_nat (224 + k) # w) 0 mx =
      decode_cont 2 (word_of_nat (224 + k) # w) (Suc 0) (mx - 1) (word_of_nat k) 1"
    and "k < 8 \<Longrightarrow> lorieUtf8ToUCS4 (word_of_nat (240 + k) # w) 0 mx =
      decode_cont 3 (word_of_nat (240 + k) # w) (Suc 0) (mx - 1) (word_of_nat k) 1"
proof -
  have u: "ucast (word_of_nat k :: u8) = (word_of_nat k :: u32)" if "k < 256"
    using that of_nat_unat [where 'a = u32 and w = "word_of_nat k :: u8"] by (simp only: unat_byte)
  note lead = assms lorieUtf8ToUCS4_def byte_class word_less_nat_alt word_le_nat_alt and_low unat_byte u
  have m: "(192 + k) mod 32 = k" if "k < 32" using that mod_mult_self3 [of 6 32 k] by simp
  have m': "(224 + k) mod 16 = k" if "k < 16" using that mod_mult_self3 [of 14 16 k] by simp
  have m'': "(240 + k) mod 8 = k" if "k < 8" using that mod_mult_self3 [of 30 8 k] by simp
  show "k < 128 \<Longrightarrow> lorieUtf8ToUCS4 (word_of_nat k # w) 0 mx =
      decode_cont 0 (word_of_nat k # w) (Suc 0) (mx - 1) (word_of_nat k) 1"
    by (simp add: lead del: decode_cont.simps)
  show "k < 32 \<Longrightarrow> lorieUtf8ToUCS4 (word_of_nat (192 + k) # w) 0 mx =
      decode_cont 1 (word_of_nat (192 + k) # w) (Suc 0) (mx - 1) (word_of_nat k) 1"
    by (simp add: lead m del: decode_cont.simps of_nat_add)
  show "k < 16 \<Longrightarrow> lorieUtf8ToUCS4 (word_of_nat (224 + k) # w) 0 mx =
      decode_cont 2 (word_of_nat (224 + k) # w) (Suc 0) (mx - 1) (word_of_nat k) 1"
    by (simp add: lead m' del: decode_cont.simps of_nat_add)
  show "k < 8 \<Longrightarrow> lorieUtf8ToUCS4 (word_of_nat (240 + k) # w) 0 mx =
      decode_cont 3 (word_of_nat (240 + k) # w) (Suc 0) (mx - 1) (word_of_nat k) 1"
    by (simp add: lead m'' del: decode_cont.simps of_nat_add)
qed

lemma lorieUtf8ToUCS4_enc:
  assumes "code_point n" and "length (utf8_enc n) \<le> unat mx"
  shows "lorieUtf8ToUCS4 (utf8_enc n @ w) 0 mx = Some (word_of_nat n, length (utf8_enc n))"
proof -
  have n: "n < 0x110000" using assms(1) by (simp add: code_point_def)
  have mx: "mx \<noteq> 0" using assms(2) n by (auto elim!: utf8_enc_cases)
  note eval = mx lorieUtf8ToUCS4_lead decode_cont_encoded cont_byte decode_cont_done assms(1)
    numeral_2_eq_2 numeral_3_eq_3
  show ?thesis
  proof (cases rule: utf8_enc_cases [OF n])
    case 1
    then show ?thesis by (simp add: eval del: decode_cont.simps)
  next
    case 2
    have "n div 64 * 64 + n mod 64 = n" by simp
    then show ?thesis using 2 mx assms unat_pred [of 1 mx]
      by (simp add: eval del: decode_cont.simps of_nat_add)
  next
    case 3
    have "n div 64 div 64 * 64 + n div 64 mod 64 = n div 64" by (rule div_mult_mod_eq)
    then have "(n div 4096 * 64 + n div 64 mod 64) * 64 + n mod 64 = n"
      by (simp flip: div_mult2_eq)
    then show ?thesis using 3 mx assms unat_pred [of 2 mx] unat_pred [of 1 "mx - 1"]
      by (simp add: eval del: decode_cont.simps of_nat_add)
  next
    case 4
    have "n div 64 div 64 * 64 + n div 64 mod 64 = n div 64"
      "n div 64 div 64 div 64 * 64 + n div 64 div 64 mod 64 = n div 64 div 64"
      by (rule div_mult_mod_eq)+
    then have "((n div 262144 * 64 + n div 4096 mod 64) * 64 + n div 64 mod 64) * 64 + n mod 64 = n"
      by (simp flip: div_mult2_eq)
    then show ?thesis using 4 mx assms n unat_pred [of 3 mx] unat_pred [of 2 "mx - 1"] unat_pred [of 1 "mx - 1 - 1"]
      by (simp add: eval del: decode_cont.simps of_nat_add)
  qed
qed

lemma utf8_enc_head:
  assumes "code_point n" and "0 < n"
  obtains c cs where "utf8_enc n = c # cs" and "c \<noteq> 0"
proof -
  have n: "n < 0x110000" using assms by (simp add: code_point_def)
  have lead: "(word_of_nat k :: u8) \<noteq> 0" if "0 < k" "k < 256" for k
    using unat_byte [OF that(2)] that(1) by (metis unat_0 less_not_refl)
  show ?thesis
  proof (cases rule: utf8_enc_cases [OF n])
    case 1 then show ?thesis using assms lead [of n] by (intro that) auto
  next
    case 2 then show ?thesis using less_mult_imp_div_less [of n 32 64] lead [of "0xc0 + n div 64"] by (intro that) (auto simp del: of_nat_add)
  next
    case 3 then show ?thesis using less_mult_imp_div_less [of n 16 4096] lead [of "0xe0 + n div 4096"] by (intro that) (auto simp del: of_nat_add)
  next
    case 4 then show ?thesis using n less_mult_imp_div_less [of n 8 262144] lead [of "0xf0 + n div 262144"] by (intro that) (auto simp del: of_nat_add)
  qed
qed

text \<open>One step of either loop of \<^verbatim>\<open>lorieUtf8ToLatin1\<close> at an encoded character.\<close>

lemma utf8_step:
  assumes "code_point n" "0 < n" and len: "length (utf8_encode (n # ns)) \<le> unat in_len"
  obtains c where "0 < in_len" and "rd (pre @ utf8_enc n @ w) (length pre) = Some c" and "c \<noteq> 0"
    and "lorieUtf8ToUCS4 (pre @ utf8_enc n @ w) (length pre) in_len = Some (word_of_nat n, length (utf8_enc n))"
    and "length (utf8_enc n) \<noteq> 0"
    and "length (utf8_encode ns) \<le> unat (in_len - word_of_nat (length (utf8_enc n)))"
    and "utf8_encode (n # ns) = utf8_enc n @ utf8_encode ns"
proof -
  obtain c cs where c: "utf8_enc n = c # cs" "c \<noteq> 0" using assms(1,2) by (rule utf8_enc_head)
  have e: "utf8_encode (n # ns) = utf8_enc n @ utf8_encode ns" by (simp add: utf8_encode_def)
  have l: "length (utf8_enc n) \<le> unat in_len" using len e by simp
  show ?thesis
  proof (rule that [OF _ _ c(2) _ _ _ e])
    show "0 < in_len" using l c by (auto simp: word_less_nat_alt)
    show "rd (pre @ utf8_enc n @ w) (length pre) = Some c" by (simp add: c array_simps)
    show "lorieUtf8ToUCS4 (pre @ utf8_enc n @ w) (length pre) in_len = Some (word_of_nat n, length (utf8_enc n))"
      using assms l by (simp add: lorieUtf8ToUCS4_shift lorieUtf8ToUCS4_enc)
    show "length (utf8_enc n) \<noteq> 0" by (simp add: c)
    show "length (utf8_encode ns) \<le> unat (in_len - word_of_nat (length (utf8_enc n)))"
      using len l by (simp add: e unat_minus_nat)
  qed
qed

lemma lorieUtf8_count_enc:
  assumes "\<forall>n\<in>set ns. code_point n \<and> 0 < n" and "length (utf8_encode ns) \<le> unat in_len"
  shows "lorieUtf8_count (pre @ utf8_encode ns @ 0 # post) (length pre) in_len sz = Some (sz + length ns)"
  using assms
proof (induction ns arbitrary: pre in_len sz)
  case Nil
  then show ?case by (simp add: lorieUtf8_count.simps utf8_encode_def array_simps)
next
  case (Cons n ns)
  have n: "code_point n" "0 < n" using Cons.prems(1) by auto
  obtain c where s: "0 < in_len"
    "rd (pre @ utf8_enc n @ utf8_encode ns @ 0 # post) (length pre) = Some c" "c \<noteq> 0"
    "lorieUtf8ToUCS4 (pre @ utf8_enc n @ utf8_encode ns @ 0 # post) (length pre) in_len =
      Some (word_of_nat n, length (utf8_enc n))"
    "length (utf8_enc n) \<noteq> 0"
    and l: "length (utf8_encode ns) \<le> unat (in_len - word_of_nat (length (utf8_enc n)))"
    and e: "utf8_encode (n # ns) = utf8_enc n @ utf8_encode ns"
    by (rule utf8_step [OF n Cons.prems(2)])
  show ?case using s Cons.IH [OF _ l, of "pre @ utf8_enc n" "Suc sz"] Cons.prems(1) unfolding e append_assoc
    by (subst lorieUtf8_count.simps) simp
qed

lemma unat_code_point: "code_point n \<Longrightarrow> unat (word_of_nat n :: u32) = n"
  by (simp only: unsigned_of_nat) (simp add: code_point_def take_bit_nat_eq_self)

lemma latin1_of_word:
  assumes "code_point n"
  shows "(if (word_of_nat n :: u32) > 0xff then 63 else ucast (word_of_nat n :: u32)) = latin1_of n"
  using of_nat_unat [where 'a = u8 and w = "word_of_nat n :: u32"] unat_code_point [OF assms]
  by (simp add: latin1_of_def word_less_nat_alt)

lemma lorieUtf8_write_enc:
  assumes "\<forall>n\<in>set ns. code_point n \<and> 0 < n" and "length (utf8_encode ns) \<le> unat in_len"
    and "length ns \<le> length rest"
  shows "lorieUtf8_write (pre @ utf8_encode ns @ 0 # post) (length pre) in_len (out @ rest) (length out) =
    Some (out @ map latin1_of ns @ drop (length ns) rest)"
  using assms
proof (induction ns arbitrary: pre in_len out rest)
  case Nil
  then show ?case by (simp add: lorieUtf8_write.simps utf8_encode_def array_simps)
next
  case (Cons n ns)
  have n: "code_point n" "0 < n" using Cons.prems(1) by auto
  obtain c where s: "0 < in_len"
    "rd (pre @ utf8_enc n @ utf8_encode ns @ 0 # post) (length pre) = Some c" "c \<noteq> 0"
    "lorieUtf8ToUCS4 (pre @ utf8_enc n @ utf8_encode ns @ 0 # post) (length pre) in_len =
      Some (word_of_nat n, length (utf8_enc n))"
    "length (utf8_enc n) \<noteq> 0"
    and l: "length (utf8_encode ns) \<le> unat (in_len - word_of_nat (length (utf8_enc n)))"
    and e: "utf8_encode (n # ns) = utf8_enc n @ utf8_encode ns"
    by (rule utf8_step [OF n Cons.prems(2)])
  obtain x xs where rest: "rest = x # xs" using Cons.prems(3) by (cases rest) auto
  have w: "wr (out @ rest) (length out) (latin1_of n) = Some (out @ latin1_of n # xs)"
    by (simp add: rest array_simps)
  show ?case
    using s w Cons.IH [OF _ l, of xs "pre @ utf8_enc n" "out @ [latin1_of n]"] Cons.prems rest
    unfolding e append_assoc
    by (subst lorieUtf8_write.simps) (simp add: latin1_of_word [OF n(1)])
qed

lemma latin1_of_nz: "0 < n \<Longrightarrow> latin1_of n \<noteq> 0"
  using unat_byte [of n] by (auto simp: latin1_of_def)

lemma length_utf8_encode_latin1: "length (utf8_encode (map unat (s :: bytes))) \<le> 2 * length s"
proof (induction s)
  case (Cons c s)
  have "length (utf8_enc (unat c)) \<le> 2"
    by (cases "unat c < 128") (simp_all add: utf8_enc_latin1)
  then show ?case using Cons by (simp add: utf8_encode_def)
qed (simp add: utf8_encode_def)

lemma code_point_byte: "code_point (unat (c :: u8))"
  using byte_lt [of c] by (simp add: code_point_def)

lemma latin1_of_byte: "latin1_of (unat (c :: u8)) = c"
  using byte_lt [of c] by (simp add: latin1_of_def)

lemma lorieUtf8ToLatin1_encoded:
  assumes "\<forall>n\<in>set ns. code_point n \<and> 0 < n" and "length (utf8_encode ns) < 2 ^ 32"
  shows "lorieUtf8ToLatin1 (utf8_encode ns @ 0 # post) = Some (map latin1_of ns)"
proof -
  have "lorieUtf8_count (utf8_encode ns @ 0 # post) 0 (-1) 0 = Some (length ns)"
    using lorieUtf8_count_enc [OF assms(1), of "-1" "[]" post 0] assms(2)
    by (simp add: unsigned_minus_1_eq_mask mask_eq_exp_minus_1)
  moreover have "lorieUtf8_write (utf8_encode ns @ 0 # post) 0 4294967295 (replicate (length ns + 1) 0) 0 =
      Some (map latin1_of ns @ [0])"
    using lorieUtf8_write_enc [OF assms(1), of 4294967295 "replicate (length ns + 1) 0" "[]" post "[]"] assms(2)
      drop_replicate [of "length ns" "length ns + 1" "0 :: u8"]
    by simp
  moreover have "0 \<notin> set (map latin1_of ns)" using assms(1) latin1_of_nz by fastforce
  ultimately show ?thesis by (simp add: lorieUtf8ToLatin1_def c_string_terminated)
qed

lemma lorieLatin1ToUTF8_encoded:
  assumes "0 \<notin> set s" and "length (utf8_encode (map unat s)) \<le> length out"
  shows "lorieLatin1ToUTF8 out (s @ 0 # post) =
    Some (utf8_encode (map unat s) @ drop (length (utf8_encode (map unat s))) out)"
  using lorieLatin1ToUTF8_loop_correct [OF assms, of "[]" "[]"] by (simp add: lorieLatin1ToUTF8_def)

lemma utf8_shape_enc: "code_point n \<Longrightarrow> utf8_shape (utf8_enc n @ w) = utf8_shape w"
proof -
  assume "code_point n"
  then have n: "n < 0x110000" by (simp add: code_point_def)
  show ?thesis
  proof (cases rule: utf8_enc_cases [OF n])
    case 1
    then show ?thesis by (simp add: word_less_nat_alt unat_byte)
  next
    case 2
    then have "n div 64 < 32" by (simp add: less_mult_imp_div_less)
    with 2 show ?thesis by (simp add: word_less_nat_alt unat_byte cont_byte del: of_nat_add)
  next
    case 3
    then have "n div 4096 < 16" by (simp add: less_mult_imp_div_less)
    with 3 show ?thesis by (simp add: word_less_nat_alt unat_byte cont_byte del: of_nat_add)
  next
    case 4
    then have "n div 262144 < 8" using n by (simp add: less_mult_imp_div_less)
    with 4 show ?thesis by (simp add: word_less_nat_alt unat_byte cont_byte del: of_nat_add)
  qed
qed

lemma utf8_shape_encode: "\<forall>n\<in>set ns. code_point n \<Longrightarrow> utf8_shape (utf8_encode ns)"
  by (induction ns) (auto simp: utf8_encode_def utf8_shape_enc)

lemma is_cont_nz: "is_cont c \<Longrightarrow> c \<noteq> 0"
  by auto

lemma nul_free_encode: "\<forall>n\<in>set ns. code_point n \<and> 0 < n \<Longrightarrow> 0 \<notin> set (utf8_encode ns)"
proof (induction ns)
  case (Cons n ns)
  then have n: "n < 0x110000" "code_point n" "0 < n" by (auto simp: code_point_def)
  have nz: "cont_byte k \<noteq> 0" for k by (rule is_cont_nz [OF cont_byte(1)])
  obtain c cs where c: "utf8_enc n = c # cs" "c \<noteq> 0" using n(2,3) by (rule utf8_enc_head)
  have "0 \<notin> set (tl (utf8_enc n))"
    by (cases rule: utf8_enc_cases [OF n(1)]) (simp_all add: nz [symmetric])
  with c have "0 \<notin> set (utf8_enc n)" by auto
  with Cons show ?case by (simp add: utf8_encode_def)
qed (simp add: utf8_encode_def)

lemma lorieCheckUTF8_runs_over:
  assumes "0 \<notin> set s" and "utf8_shape s"
  shows "lorieCheckUTF8_loop s (length s) 0 = None"
  using assms
proof (induction s rule: utf8_shape.induct)
  case 1
  then show ?case by (simp add: lorieCheckUTF8_loop.simps)
next
  case (2 c cs)
  have nz: "c \<noteq> 0" using "2.prems" by auto
  show ?case using "2.prems" "2.IH" nz
    by (subst lorieCheckUTF8_loop.simps)
      (auto simp: utf8_lead_class lorieCheckUTF8_shifts split: list.splits if_splits)
qed

lemma lorieCheckUTF8_slack:
  assumes "0 \<notin> set s" and "utf8_shape s" and "w \<noteq> []"
  shows "lorieCheckUTF8_loop (s @ w) (length s) 0 = Some 1"
  using assms(1,2)
proof (induction s rule: utf8_shape.induct)
  case 1
  then show ?case using assms(3) by (cases w) (simp_all add: lorieCheckUTF8_loop.simps)
next
  case (2 c cs)
  have nz: "c \<noteq> 0" using "2.prems" by auto
  show ?case using "2.prems" "2.IH" nz
    by (subst lorieCheckUTF8_loop.simps)
      (auto simp: utf8_lead_class lorieCheckUTF8_shifts split: list.splits if_splits)
qed

section \<open>Properties\<close>

text \<open>
  \<^verbatim>\<open>lorieConvertLF\<close> never leaves its buffers when the destination is as long as the text,
  writes the text without its carriage returns and keeps the rest of the destination.
\<close>

theorem lorieConvertLF_correct:
  assumes "bytes \<le> length src" and "bytes \<le> length dst"
  shows "lorieConvertLF src dst bytes =
    Some (let t = filter (\<lambda>c. c \<noteq> 13) (take bytes src) in t @ drop (length t) dst)"
proof -
  have "length (filter (\<lambda>c. c \<noteq> 13) (take bytes src)) \<le> length dst"
    using assms length_filter_le [of "\<lambda>c. c \<noteq> 13" "take bytes src"] by simp
  then show ?thesis
    using lorieConvertLF_loop_correct [of bytes src 0 dst "[]"] assms
    by (simp add: lorieConvertLF_def Let_def)
qed

theorem lorieConvertLF_correct_witness:
  "lorieConvertLF [72, 13, 10] [0, 0, 0] 3 =
    Some (let t = filter (\<lambda>c. c \<noteq> 13) (take 3 [72, 13, 10]) in t @ drop (length t) [0, 0, 0])"
  by (rule lorieConvertLF_correct) simp_all

text \<open>
  \<^verbatim>\<open>lorieLatin1ToUTF8\<close> turns every NUL-terminated Latin-1 text into its UTF-8 encoding, never
  reads past the terminator, and a destination of twice the length of the text is enough.
\<close>

theorem lorieLatin1ToUTF8_correct:
  assumes "0 \<notin> set s" and "2 * length s \<le> length out"
  shows "lorieLatin1ToUTF8 out (s @ 0 # post) =
    Some (utf8_encode (map unat s) @ drop (length (utf8_encode (map unat s))) out)"
  using assms length_utf8_encode_latin1 [of s] by (intro lorieLatin1ToUTF8_encoded) auto

theorem lorieLatin1ToUTF8_correct_witness:
  "lorieLatin1ToUTF8 [0, 0, 0, 0] ([72, 233] @ 0 # []) =
    Some (utf8_encode (map unat [72 :: u8, 233]) @
      drop (length (utf8_encode (map unat [72 :: u8, 233]))) [0, 0, 0, 0])"
  by (rule lorieLatin1ToUTF8_correct) simp_all

text \<open>
  C18. \<^verbatim>\<open>lorieUtf8ToLatin1\<close> on the UTF-8 encoding of any sequence of non-NUL code points yields one
  byte per code point, a question mark for those outside Latin-1, without any access outside
  the input or the output array.
\<close>

theorem lorieUtf8ToLatin1_correct:
  assumes "\<forall>n\<in>set ns. code_point n \<and> 0 < n" and "length (utf8_encode ns) < 2 ^ 32"
  shows "lorieUtf8ToLatin1 (utf8_encode ns @ 0 # post) = Some (map latin1_of ns)"
  using assms by (rule lorieUtf8ToLatin1_encoded)

theorem lorieUtf8ToLatin1_correct_witness:
  "lorieUtf8ToLatin1 (utf8_encode [0x48, 0xe9, 0x20ac] @ 0 # []) = Some (map latin1_of [0x48, 0xe9, 0x20ac])"
  by (rule lorieUtf8ToLatin1_correct) (simp_all add: code_point_def utf8_encode_def utf8_enc_def)

text \<open>
  C36. Round trip: a Latin-1 text sent as UTF-8 into a zeroed buffer of the size
  \<^verbatim>\<open>lorieHandleSelection\<close> reserves, and read back by \<^verbatim>\<open>lorieUtf8ToLatin1\<close>, is the text itself.
\<close>

theorem latin1_utf8_roundtrip:
  assumes "0 \<notin> set s" and "length s < 2 ^ 31"
  shows "Option.bind (lorieLatin1ToUTF8 (replicate (2 * (length s + 1)) 0) (s @ [0])) lorieUtf8ToLatin1 = Some s"
proof -
  let ?u = "utf8_encode (map unat s)"
  have len: "length ?u \<le> 2 * length s" by (rule length_utf8_encode_latin1)
  have "lorieLatin1ToUTF8 (replicate (2 * (length s + 1)) 0) (s @ [0]) =
      Some (?u @ replicate (2 * (length s + 1) - length ?u) 0)"
    using lorieLatin1ToUTF8_encoded [OF assms(1), of "replicate (2 * (length s + 1)) 0" "[]"]
      order_trans [OF len, of "2 * (length s + 1)"]
    by (simp del: replicate.simps mult_Suc_right)
  also have "2 * (length s + 1) - length ?u = Suc (2 * length s + 1 - length ?u)" using len by simp
  finally have "lorieLatin1ToUTF8 (replicate (2 * (length s + 1)) 0) (s @ [0]) =
      Some (?u @ 0 # replicate (2 * length s + 1 - length ?u) 0)" by (simp only: replicate.simps)
  moreover have "\<forall>n\<in>set (map unat s). code_point n \<and> 0 < n"
    using assms(1) by (auto simp: code_point_byte unat_gt_0 intro!: word_neq_0_conv [THEN iffD1])
  ultimately show ?thesis
    using lorieUtf8ToLatin1_encoded [of "map unat s"] len assms(2)
    by (simp add: comp_def latin1_of_byte)
qed

theorem latin1_utf8_roundtrip_witness:
  "Option.bind (lorieLatin1ToUTF8 (replicate (2 * (length [72 :: u8, 233] + 1)) 0) ([72, 233] @ [0])) lorieUtf8ToLatin1
    = Some [72, 233]"
  by (rule latin1_utf8_roundtrip) simp_all

text \<open>
  On a NUL-terminated text \<^verbatim>\<open>lorieCheckUTF8\<close> returns 1 exactly for the texts of the expected
  shape, and reads no byte past the terminator.
\<close>

theorem lorieCheckUTF8_correct:
  assumes "0 \<notin> set s"
  shows "lorieCheckUTF8 (s @ 0 # post) (length s) = Some (if utf8_shape s then 1 else 0)"
  using lorieCheckUTF8_terminated [OF assms] by (simp add: lorieCheckUTF8_def)

theorem lorieCheckUTF8_correct_witness:
  "lorieCheckUTF8 ([72, 0xc3, 0xa9] @ 0 # []) (length [72, 0xc3, 0xa9 :: u8]) =
      Some (if utf8_shape [72, 0xc3, 0xa9] then 1 else 0)"
  by (rule lorieCheckUTF8_correct) simp

text \<open>
  The check never refuses a text that UTF-8 encodes.
\<close>

theorem lorieCheckUTF8_accepts:
  assumes "\<forall>n\<in>set ns. code_point n \<and> 0 < n"
  shows "lorieCheckUTF8 (utf8_encode ns @ 0 # post) (length (utf8_encode ns)) = Some 1"
  using assms lorieCheckUTF8_terminated [of "utf8_encode ns" post] utf8_shape_encode [of ns]
  by (simp add: lorieCheckUTF8_def nul_free_encode)

theorem lorieCheckUTF8_accepts_witness:
  "lorieCheckUTF8 (utf8_encode [0x48, 0x20ac] @ 0 # []) (length (utf8_encode [0x48, 0x20ac])) = Some 1"
  by (rule lorieCheckUTF8_accepts) (simp add: code_point_def)

text \<open>
  A property whose data carries no terminator, the way \<^verbatim>\<open>dixChangeWindowProperty\<close> stores it, is
  read one byte past its end whenever the check would accept it.
\<close>

theorem lorieCheckUTF8_overread:
  assumes "0 \<notin> set s" and "utf8_shape s"
  shows "lorieCheckUTF8 s (length s) = None"
  using lorieCheckUTF8_runs_over [OF assms] by (simp add: lorieCheckUTF8_def)

theorem lorieCheckUTF8_overread_witness:
  "lorieCheckUTF8 [72, 105] (length [72 :: u8, 105]) = None"
  by (rule lorieCheckUTF8_overread) simp_all

end
