(* ===== verification/Dix_Selection.thy ===== *)
theory Dix_Selection
  imports Lorie_Prelude
begin

text \<open>
  The part of the device independent X server the clipboard code works with: the selection
  table of \<^verbatim>\<open>dix/selection.c\<close>, the window properties of \<^verbatim>\<open>dix/property.c\<close> and the event
  queue behind \<^verbatim>\<open>WriteEventsToClient\<close>. Both tables are singly linked lists in the code and
  lists here, in the same order. Security hooks, resource lookup, the atom table and the
  allocator answer through an environment record.
\<close>

section \<open>Data\<close>

type_synonym atom = u32
type_synonym window = u32

text \<open>A client is its index; 0 is \<^verbatim>\<open>serverClient\<close>. \<^verbatim>\<open>NullClient\<close> is \<open>None\<close>.\<close>

type_synonym client = nat

abbreviation (input) serverClient :: client where
  "serverClient \<equiv> 0"

datatype x_status = Success | BadWindow | BadAtom | BadMatch | BadAccess | BadAlloc | BadLength

datatype access_mode = DixReadAccess | DixWriteAccess | DixGetAttrAccess | DixSetAttrAccess
  | DixCreateSetAttr | DixCreateWrite | DixDestroyAccess | DixPostWrite

record timestamp =
  months :: u32
  milliseconds :: u32

record selection_rec =
  selection :: atom
  lastTimeChanged :: timestamp
  sel_window :: window
  sel_client :: "client option"

text \<open>The format of a property is the width of its items; its size is their number.\<close>

datatype prop_data = Data8 bytes | Data16 "u16 list" | Data32 "u32 list"

record property_rec =
  propertyName :: atom
  prop_type :: atom
  prop_data :: prop_data

datatype selection_kind = SelectionSetOwner | SelectionWindowDestroy | SelectionClientClose

datatype x_event =
    SelectionClear (ev_time: u32) (ev_window: window) (ev_atom: atom)
  | SelectionRequest (ev_time: u32) (ev_owner: window) (ev_requestor: window) (ev_selection: atom)
      (ev_target: atom) (ev_property: atom)
  | SelectionNotify (ev_time: u32) (ev_requestor: window) (ev_selection: atom)
      (ev_target: atom) (ev_property: atom)

datatype x_output = ToClient client x_event | PropertyNewValue window atom | PropertyDelete window atom

record dix =
  CurrentSelections :: "selection_rec list"
  userProps :: "window \<Rightarrow> property_rec list"
  currentTime :: timestamp
  errorValue :: "client \<Rightarrow> u32"
  out :: "x_output list"

record dix_env =
  lookup_window :: "client \<Rightarrow> window \<Rightarrow> x_status"
  ValidAtom :: "atom \<Rightarrow> bool"
  sel_access :: "client \<Rightarrow> atom \<Rightarrow> access_mode \<Rightarrow> x_status"
  prop_access :: "client \<Rightarrow> window \<Rightarrow> atom \<Rightarrow> access_mode \<Rightarrow> x_status"
  malloc_ok :: "nat \<Rightarrow> bool"
  clientGone :: "client \<Rightarrow> bool"
  window_optional_ok :: "window \<Rightarrow> bool"
  GetTimeInMillis :: u32
  server_time :: "timestamp \<Rightarrow> u32 \<Rightarrow> timestamp"

text \<open>The requests, with the length of the request in 4-byte units.\<close>

record xConvertSelectionReq =
  conv_len :: nat
  conv_requestor :: window
  conv_selection :: atom
  conv_target :: atom
  conv_property :: atom
  conv_time :: u32

record xSetSelectionOwnerReq =
  own_len :: nat
  own_window :: window
  own_selection :: atom
  own_time :: u32

definition sz_xConvertSelectionReq :: nat where
  "sz_xConvertSelectionReq = 24"

definition sz_xSetSelectionOwnerReq :: nat where
  "sz_xSetSelectionOwnerReq = 16"

definition None_atom :: atom where
  "None_atom = 0"

definition None_window :: window where
  "None_window = 0"

section \<open>Keyed lists\<close>

definition find_key :: "('e \<Rightarrow> 'k) \<Rightarrow> 'k \<Rightarrow> 'e list \<Rightarrow> 'e option" where
  "find_key key k xs = find (\<lambda>e. key e = k) xs"

fun update_key :: "('e \<Rightarrow> 'k) \<Rightarrow> 'k \<Rightarrow> ('e \<Rightarrow> 'e) \<Rightarrow> 'e list \<Rightarrow> 'e list" where
  "update_key key k f [] = []"
| "update_key key k f (e # es) = (if key e = k then f e # es else e # update_key key k f es)"

fun delete_key :: "('e \<Rightarrow> 'k) \<Rightarrow> 'k \<Rightarrow> 'e list \<Rightarrow> 'e list" where
  "delete_key key k [] = []"
| "delete_key key k (e # es) = (if key e = k then es else e # delete_key key k es)"

section \<open>Events\<close>

definition WriteEventsToClient :: "dix_env \<Rightarrow> client option \<Rightarrow> x_event \<Rightarrow> 'a dix_scheme \<Rightarrow> 'a dix_scheme" where
  "WriteEventsToClient E pClient ev S =
     (case pClient of
        None \<Rightarrow> S
      | Some c \<Rightarrow> if c = serverClient \<or> clientGone E c then S else S\<lparr>out := out S @ [ToClient c ev]\<rparr>)"

section \<open>Selections\<close>

definition dixLookupSelection ::
  "dix_env \<Rightarrow> atom \<Rightarrow> client \<Rightarrow> access_mode \<Rightarrow> 'a dix_scheme \<Rightarrow> x_status \<times> selection_rec option \<times> 'a dix_scheme" where
  "dixLookupSelection E selectionName client mode S =
     (let S1 = S\<lparr>errorValue := (errorValue S)(client := selectionName)\<rparr>;
          pSel = find_key selection selectionName (CurrentSelections S1)
      in (case pSel of None \<Rightarrow> BadMatch | Some _ \<Rightarrow> sel_access E client selectionName mode, pSel, S1))"

definition InitSelections :: "'a dix_scheme \<Rightarrow> 'a dix_scheme" where
  "InitSelections S = S\<lparr>CurrentSelections := []\<rparr>"

text \<open>The registered selection callbacks are the argument \<open>cb\<close>.\<close>

type_synonym 'a selection_cb = "selection_rec \<Rightarrow> client option \<Rightarrow> selection_kind \<Rightarrow> 'a dix_scheme \<Rightarrow> 'a dix_scheme"

definition orphan :: "selection_rec \<Rightarrow> selection_rec" where
  "orphan s = s\<lparr>sel_window := None_window, sel_client := None\<rparr>"

text \<open>The window and client of a selection are cleared one entry at a time, after the callbacks
  for that entry have run. The argument list is the part of the table still to visit.\<close>

fun orphan_loop :: "'a selection_cb \<Rightarrow> (selection_rec \<Rightarrow> bool) \<Rightarrow> selection_kind \<Rightarrow> selection_rec list
    \<Rightarrow> 'a dix_scheme \<Rightarrow> 'a dix_scheme" where
  "orphan_loop cb P kind [] S = S"
| "orphan_loop cb P kind (s # ss) S =
     (if P s
      then orphan_loop cb P kind ss
        ((cb s None kind S)\<lparr>CurrentSelections :=
            update_key selection (selection s) orphan (CurrentSelections (cb s None kind S))\<rparr>)
      else orphan_loop cb P kind ss S)"

definition DeleteWindowFromAnySelections :: "'a selection_cb \<Rightarrow> window \<Rightarrow> 'a dix_scheme \<Rightarrow> 'a dix_scheme" where
  "DeleteWindowFromAnySelections cb pWin S =
     orphan_loop cb (\<lambda>s. sel_window s = pWin) SelectionWindowDestroy (CurrentSelections S) S"

definition DeleteClientFromAnySelections :: "'a selection_cb \<Rightarrow> client \<Rightarrow> 'a dix_scheme \<Rightarrow> 'a dix_scheme" where
  "DeleteClientFromAnySelections cb client S =
     orphan_loop cb (\<lambda>s. sel_client s = Some client) SelectionClientClose (CurrentSelections S) S"

text \<open>Time stamps compare by month counter, then by milliseconds.\<close>

definition time_later :: "timestamp \<Rightarrow> timestamp \<Rightarrow> bool" where
  "time_later a b \<longleftrightarrow> months b < months a \<or> months a = months b \<and> milliseconds b < milliseconds a"

definition new_selection :: "atom \<Rightarrow> selection_rec" where
  "new_selection a = \<lparr>selection = a, lastTimeChanged = \<lparr>months = 0, milliseconds = 0\<rparr>,
     sel_window = None_window, sel_client = None\<rparr>"

definition selection_rec_size :: nat where
  "selection_rec_size = 48"

definition UpdateCurrentTime :: "dix_env \<Rightarrow> 'a dix_scheme \<Rightarrow> 'a dix_scheme" where
  "UpdateCurrentTime E S =
     (let now = GetTimeInMillis E; cur = currentTime S;
          systime = \<lparr>months = (if now < milliseconds cur then months cur + 1 else months cur), milliseconds = now\<rparr>
      in if time_later systime cur then S\<lparr>currentTime := systime\<rparr> else S)"

text \<open>The common end of taking a selection over: the entry is rewritten in place, then the
  callbacks run.\<close>

definition set_owner ::
  "'a selection_cb \<Rightarrow> client \<Rightarrow> atom \<Rightarrow> timestamp \<Rightarrow> window \<Rightarrow> client option \<Rightarrow> 'a dix_scheme \<Rightarrow> 'a dix_scheme" where
  "set_owner cb client sel time win owner S =
     (let upd = (\<lambda>s. s\<lparr>lastTimeChanged := time, sel_window := win, sel_client := owner\<rparr>);
          S1 = S\<lparr>CurrentSelections := update_key selection sel upd (CurrentSelections S)\<rparr>
      in case find_key selection sel (CurrentSelections S1) of
           None \<Rightarrow> S1
         | Some s \<Rightarrow> cb s (Some client) SelectionSetOwner S1)"

definition ProcSetSelectionOwner ::
  "dix_env \<Rightarrow> 'a selection_cb \<Rightarrow> client \<Rightarrow> xSetSelectionOwnerReq \<Rightarrow> 'a dix_scheme \<Rightarrow> x_status \<times> 'a dix_scheme" where
  "ProcSetSelectionOwner E cb client stuff S0 =
     (if own_len stuff \<noteq> sz_xSetSelectionOwnerReq div 4 then (BadLength, S0) else
      let S = UpdateCurrentTime E S0;
          win = own_window stuff; sel = own_selection stuff;
          time = server_time E (currentTime S) (own_time stuff);
          finish = (\<lambda>S2. (Success, set_owner cb client sel time win
                           (if win \<noteq> None_window then Some client else None) S2))
      in
      if time_later time (currentTime S) then (Success, S)
      else if win \<noteq> None_window \<and> lookup_window E client win \<noteq> Success
        then (lookup_window E client win, S)
      else if \<not> ValidAtom E sel
        then (BadAtom, S\<lparr>errorValue := (errorValue S)(client := sel)\<rparr>)
      else
        (case dixLookupSelection E sel client DixSetAttrAccess S of
           (rc, pSel, S1) \<Rightarrow>
             (case (rc, pSel) of
                (Success, Some s) \<Rightarrow>
                  if time_later (lastTimeChanged s) time then (Success, S1)
                  else if sel_client s \<noteq> None \<and> (win = None_window \<or> sel_client s \<noteq> Some client)
                    then finish (WriteEventsToClient E (sel_client s)
                           (SelectionClear (milliseconds time) (sel_window s) (selection s)) S1)
                  else finish S1
              | (BadMatch, _) \<Rightarrow>
                  if \<not> malloc_ok E selection_rec_size then (BadAlloc, S1)
                  else if sel_access E client sel DixCreateSetAttr \<noteq> Success
                    then (sel_access E client sel DixCreateSetAttr, S1)
                  else finish (S1\<lparr>CurrentSelections := new_selection sel # CurrentSelections S1\<rparr>)
              | _ \<Rightarrow> (rc, S1))))"

definition ProcConvertSelection ::
  "dix_env \<Rightarrow> client \<Rightarrow> xConvertSelectionReq \<Rightarrow> 'a dix_scheme \<Rightarrow> x_status \<times> 'a dix_scheme" where
  "ProcConvertSelection E client stuff S =
     (if conv_len stuff \<noteq> sz_xConvertSelectionReq div 4 then (BadLength, S)
      else if lookup_window E client (conv_requestor stuff) \<noteq> Success
        then (lookup_window E client (conv_requestor stuff), S)
      else if \<not> (ValidAtom E (conv_selection stuff) \<and> ValidAtom E (conv_target stuff)
                 \<and> (conv_property stuff = None_atom \<or> ValidAtom E (conv_property stuff)))
        then (BadAtom, S\<lparr>errorValue := (errorValue S)(client := conv_property stuff)\<rparr>)
      else
        (case dixLookupSelection E (conv_selection stuff) client DixReadAccess
                (if conv_time stuff = 0 then UpdateCurrentTime E S else S) of
           (rc, pSel, S1) \<Rightarrow>
             let notify = (Success, WriteEventsToClient E (Some client)
                   (SelectionNotify (conv_time stuff) (conv_requestor stuff) (conv_selection stuff)
                      (conv_target stuff) None_atom) S1)
             in if rc \<noteq> Success \<and> rc \<noteq> BadMatch then (rc, S1)
             else (case (rc, pSel) of
                (Success, Some s) \<Rightarrow>
                  (case sel_client s of
                     Some c \<Rightarrow>
                       if sel_window s \<noteq> None_window \<and> c \<noteq> serverClient \<and> \<not> clientGone E c
                       then (Success, WriteEventsToClient E (Some c)
                         (SelectionRequest (conv_time stuff) (sel_window s) (conv_requestor stuff)
                            (conv_selection stuff) (conv_target stuff) (conv_property stuff)) S1)
                       else notify
                   | None \<Rightarrow> notify)
              | _ \<Rightarrow> notify)))"

section \<open>Properties of windows\<close>

definition dixLookupProperty ::
  "dix_env \<Rightarrow> window \<Rightarrow> atom \<Rightarrow> client \<Rightarrow> access_mode \<Rightarrow> 'a dix_scheme \<Rightarrow> x_status \<times> property_rec option \<times> 'a dix_scheme" where
  "dixLookupProperty E pWin name client mode S =
     (let S1 = S\<lparr>errorValue := (errorValue S)(client := name)\<rparr>;
          pProp = find_key propertyName name (userProps S1 pWin)
      in (case pProp of None \<Rightarrow> BadMatch | Some _ \<Rightarrow> prop_access E client pWin name mode, pProp, S1))"

definition data_bytes :: "prop_data \<Rightarrow> nat" where
  "data_bytes d = (case d of Data8 xs \<Rightarrow> length xs | Data16 xs \<Rightarrow> 2 * length xs | Data32 xs \<Rightarrow> 4 * length xs)"

definition property_rec_size :: nat where
  "property_rec_size = 40"

text \<open>Every caller in the modelled code passes \<^verbatim>\<open>PropModeReplace\<close> and asks for the event.\<close>

definition dixChangeWindowProperty ::
  "dix_env \<Rightarrow> client \<Rightarrow> window \<Rightarrow> atom \<Rightarrow> atom \<Rightarrow> prop_data \<Rightarrow> 'a dix_scheme \<Rightarrow> x_status \<times> 'a dix_scheme" where
  "dixChangeWindowProperty E client pWin property type value S =
     (let (rc, pProp, S1) = dixLookupProperty E pWin property client DixWriteAccess S;
          new = \<lparr>propertyName = property, prop_type = type, prop_data = value\<rparr>;
          notified = (\<lambda>ps. (Success, S1\<lparr>userProps := (userProps S1)(pWin := ps),
             out := out S1 @ [PropertyNewValue pWin property]\<rparr>))
      in case rc of
           BadMatch \<Rightarrow>
             if \<not> window_optional_ok E pWin \<or> \<not> malloc_ok E property_rec_size
                \<or> 0 < data_bytes value \<and> \<not> malloc_ok E (data_bytes value)
               then (BadAlloc, S1)
             else if prop_access E client pWin property DixCreateWrite \<noteq> Success
               then (prop_access E client pWin property DixCreateWrite,
                     S1\<lparr>errorValue := (errorValue S1)(client := property)\<rparr>)
             else notified (new # userProps S1 pWin)
         | Success \<Rightarrow>
             if 0 < data_bytes value \<and> \<not> malloc_ok E (data_bytes value) then (BadAlloc, S1)
             else if prop_access E client pWin property DixPostWrite \<noteq> Success
               then (prop_access E client pWin property DixPostWrite, S1)
             else notified (update_key propertyName property (\<lambda>_. new) (userProps S1 pWin))
         | _ \<Rightarrow> (rc, S1))"

definition DeleteProperty ::
  "dix_env \<Rightarrow> client \<Rightarrow> window \<Rightarrow> atom \<Rightarrow> 'a dix_scheme \<Rightarrow> x_status \<times> 'a dix_scheme" where
  "DeleteProperty E client pWin propName S =
     (let (rc, pProp, S1) = dixLookupProperty E pWin propName client DixDestroyAccess S
      in case rc of
           BadMatch \<Rightarrow> (Success, S1)
         | Success \<Rightarrow> (Success, S1\<lparr>userProps := (userProps S1)(pWin := delete_key propertyName propName (userProps S1 pWin)),
             out := out S1 @ [PropertyDelete pWin propName]\<rparr>)
         | _ \<Rightarrow> (rc, S1))"

section \<open>Lemmas on keyed lists\<close>

named_theorems keyed \<open>lookup and update in keyed lists\<close>

lemma find_key_update [keyed]:
  assumes "\<And>e. key e = k \<Longrightarrow> key (f e) = k"
  shows "find_key key j (update_key key k f xs) =
    (if j = k then map_option f (find_key key k xs) else find_key key j xs)"
  using assms by (induction xs) (auto simp: find_key_def)

lemma keys_update [keyed]:
  assumes "\<And>e. key e = k \<Longrightarrow> key (f e) = k"
  shows "map key (update_key key k f xs) = map key xs"
  using assms by (induction xs) auto

lemma find_key_None_iff: "find_key key k xs = None \<longleftrightarrow> k \<notin> key ` set xs"
  by (auto simp: find_key_def find_None_all)

lemma find_key_SomeD: "find_key key k xs = Some e \<Longrightarrow> e \<in> set xs \<and> key e = k"
  unfolding find_key_def by (rule find_Some_in)

lemma find_key_Cons [keyed]: "find_key key k (x # xs) = (if key x = k then Some x else find_key key k xs)"
  by (simp add: find_key_def)

lemma keys_delete: "distinct (map key xs) \<Longrightarrow> distinct (map key (delete_key key k xs))
    \<and> set (map key (delete_key key k xs)) = set (map key xs) - {k}"
  by (induction xs) (auto, metis imageI)

lemma find_key_delete [keyed]:
  "distinct (map key xs) \<Longrightarrow> find_key key j (delete_key key k xs) = (if j = k then None else find_key key j xs)"
  by (induction xs) (auto simp: find_key_def find_None_all, metis imageI)

section \<open>The table invariant\<close>

definition dix_ok :: "'a dix_scheme \<Rightarrow> bool" where
  "dix_ok S \<longleftrightarrow> distinct (map selection (CurrentSelections S))
     \<and> (\<forall>w. distinct (map propertyName (userProps S w)))"

lemma write_events [simp]:
  "CurrentSelections (WriteEventsToClient E c ev S) = CurrentSelections S"
  "userProps (WriteEventsToClient E c ev S) = userProps S"
  "currentTime (WriteEventsToClient E c ev S) = currentTime S"
  "dix.more (WriteEventsToClient E c ev S) = dix.more S"
  by (simp_all add: WriteEventsToClient_def split: option.splits)

lemma lookup_selection_state:
  "dixLookupSelection E sel c mode S = (rc, p, S1) \<Longrightarrow>
     S1 = S\<lparr>errorValue := (errorValue S)(c := sel)\<rparr> \<and> p = find_key selection sel (CurrentSelections S)
     \<and> (p = None \<longrightarrow> rc = BadMatch)"
  by (auto simp: dixLookupSelection_def Let_def split: option.splits)

lemma lookup_property_state:
  "dixLookupProperty E w name c mode S = (rc, p, S1) \<Longrightarrow>
     S1 = S\<lparr>errorValue := (errorValue S)(c := name)\<rparr> \<and> p = find_key propertyName name (userProps S w)
     \<and> (p = None \<longrightarrow> rc = BadMatch)"
  by (auto simp: dixLookupProperty_def Let_def split: option.splits)

lemma change_property_ok:
  assumes "dix_ok S" and "prop_access E c w a DixWriteAccess \<noteq> BadMatch"
  shows "dix_ok (snd (dixChangeWindowProperty E c w a t v S))"
  using assms
  by (auto simp: dixChangeWindowProperty_def dixLookupProperty_def dix_ok_def Let_def keyed find_key_None_iff
      split: option.splits x_status.splits)

lemma change_property_frame:
  "dix.more (snd (dixChangeWindowProperty E c w a t v S)) = dix.more S"
  "CurrentSelections (snd (dixChangeWindowProperty E c w a t v S)) = CurrentSelections S"
  "currentTime (snd (dixChangeWindowProperty E c w a t v S)) = currentTime S"
  by (simp_all add: dixChangeWindowProperty_def dixLookupProperty_def Let_def
      split: option.split x_status.split)

lemma change_property_fails:
  "dixChangeWindowProperty E c w a t v S = (rc, S1) \<Longrightarrow> rc \<noteq> Success \<Longrightarrow> out S1 = out S"
  by (auto simp: dixChangeWindowProperty_def dixLookupProperty_def Let_def
      split: option.splits x_status.splits if_splits)

lemma change_property_success:
  assumes "dixChangeWindowProperty E c w a t v S = (Success, S1)"
  shows "find_key propertyName a (userProps S1 w) = Some \<lparr>propertyName = a, prop_type = t, prop_data = v\<rparr>"
    and "out S1 = out S @ [PropertyNewValue w a]"
    and "CurrentSelections S1 = CurrentSelections S"
    and "dix.more S1 = dix.more S"
  using assms
  by (auto simp: dixChangeWindowProperty_def dixLookupProperty_def Let_def keyed image_iff find_key_None_iff
      split: option.splits x_status.splits if_splits)

end
