(* ===== verification/Lorie_Clipboard.thy ===== *)
theory Lorie_Clipboard
  imports Lorie_Text Dix_Selection
begin

text \<open>
  The clipboard bridge of \<^verbatim>\<open>lorie/clipboard.c\<close>: it takes the CLIPBOARD selection on behalf of the
  Android side, answers conversion requests of X11 clients from the cached text or queues them
  until the text arrives, and forwards the text X11 clients offer. The state extends the
  selection and property tables. An operation is \<open>None\<close> when it accesses memory outside an
  object.
\<close>

section \<open>State\<close>

record LorieDataTarget =
  ldt_client :: client
  ldt_selection :: atom
  ldt_target :: atom
  ldt_property :: atom
  ldt_requestor :: window
  ldt_time :: u32

datatype clip_msg = SendClipboardData bytes | RequestClipboard

text \<open>A slot of the request dispatch table holds either the server's handler or the one below.\<close>

datatype proc = DixProc | LorieProc

record xSendEventReq =
  se_len :: nat
  se_type :: u8
  se_requestor :: window
  se_selection :: atom
  se_target :: atom
  se_property :: atom

record clip = dix +
  root :: window
  clipboardEnabled :: bool
  cachedData :: "bytes option"
  lorieDataTargetHead :: "LorieDataTarget list"
  xaTIMESTAMP :: atom
  xaTEXT :: atom
  xaCLIPBOARD :: atom
  xaTARGETS :: atom
  xaSTRING :: atom
  xaUTF8_STRING :: atom
  ProcVector_ConvertSelection :: proc
  ProcVector_SendEvent :: proc
  origProcConvertSelection :: "proc option"
  origProcSendEvent :: "proc option"
  SelectionCallbacks :: nat
  to_activity :: "clip_msg list"
  sent_events :: "(client \<times> xSendEventReq) list"

definition XA_ATOM :: atom where "XA_ATOM = 4"
definition XA_INTEGER :: atom where "XA_INTEGER = 19"
definition XA_STRING :: atom where "XA_STRING = 31"

definition lorieEnableClipboardSync :: "bool \<Rightarrow> clip \<Rightarrow> clip" where
  "lorieEnableClipboardSync enable S = S\<lparr>clipboardEnabled := enable\<rparr>"

section \<open>Receiving\<close>

definition lorieSelectionRequest :: "dix_env \<Rightarrow> atom \<Rightarrow> atom \<Rightarrow> clip \<Rightarrow> clip" where
  "lorieSelectionRequest E sel target S =
     (if clipboardEnabled S then
        (case dixLookupSelection E sel serverClient DixGetAttrAccess S of
           (Success, Some pSel, S1) \<Rightarrow>
             WriteEventsToClient E (sel_client pSel)
               (SelectionRequest (milliseconds (currentTime S1)) (sel_window pSel) (root S1) sel target target) S1
         | (_, _, S1) \<Rightarrow> S1)
      else S)"

fun lorieHasAtom_from :: "atom \<Rightarrow> atom list \<Rightarrow> nat \<Rightarrow> nat \<Rightarrow> bool" where
  "lorieHasAtom_from atom list 0 i = False"
| "lorieHasAtom_from atom list (Suc n) i = (rd list i = Some atom \<or> lorieHasAtom_from atom list n (Suc i))"

definition lorieHasAtom :: "atom \<Rightarrow> atom list \<Rightarrow> nat \<Rightarrow> bool" where
  "lorieHasAtom atom list sz = lorieHasAtom_from atom list sz 0"

definition lorieSendClipboardData :: "bytes \<Rightarrow> clip \<Rightarrow> clip" where
  "lorieSendClipboardData mem S = S\<lparr>to_activity := to_activity S @ [SendClipboardData (c_string mem)]\<rparr>"

definition lorieRequestClipboard :: "clip \<Rightarrow> clip" where
  "lorieRequestClipboard S = S\<lparr>to_activity := to_activity S @ [RequestClipboard]\<rparr>"

text \<open>\<open>slack\<close> is the memory that follows the data of the property in its allocation.\<close>

definition lorieHandleSelection :: "dix_env \<Rightarrow> bytes \<Rightarrow> atom \<Rightarrow> clip \<Rightarrow> clip option" where
  "lorieHandleSelection E slack target S =
     (if target \<noteq> xaTARGETS S \<and> target \<noteq> xaSTRING S \<and> target \<noteq> xaUTF8_STRING S then Some S
      else case dixLookupProperty E (root S) target serverClient DixReadAccess S of
        (Success, Some prop, S1) \<Rightarrow>
          (case prop_data prop of
             Data32 data \<Rightarrow>
               if target = xaTARGETS S \<and> prop_type prop = XA_ATOM then
                 (if lorieHasAtom (xaUTF8_STRING S) data (length data)
                  then Some (lorieSelectionRequest E (xaCLIPBOARD S) (xaUTF8_STRING S) S1)
                  else if lorieHasAtom (xaSTRING S) data (length data)
                  then Some (lorieSelectionRequest E (xaCLIPBOARD S) (xaSTRING S) S1)
                  else Some S1)
               else Some S1
           | Data16 data \<Rightarrow> Some S1
           | Data8 data \<Rightarrow>
               if target = xaSTRING S \<and> prop_type prop = xaSTRING S then
                 Option.bind (lorieConvertLF (data @ slack) (replicate (length data + 1) 0) (length data)) (\<lambda>filtered.
                 Option.bind (lorieLatin1ToUTF8 (replicate ((length data + 1) * 2) 0) filtered) (\<lambda>utf8.
                   Some (lorieSendClipboardData utf8 S1)))
               else if target = xaUTF8_STRING S \<and> prop_type prop = xaUTF8_STRING S then
                 Option.bind (lorieCheckUTF8 (data @ slack) (length data)) (\<lambda>ok.
                   if ok = 0 then Some S1
                   else Option.bind (lorieConvertLF (data @ slack) (replicate (length data + 1) 0) (length data)) (\<lambda>filtered.
                     Some (lorieSendClipboardData filtered S1)))
               else Some S1)
      | (_, _, S1) \<Rightarrow> Some S1)"

definition SelectionNotify_code :: u8 where
  "SelectionNotify_code = 31"

definition sz_xSendEventReq :: nat where
  "sz_xSendEventReq = 44"

definition lorieProcSendEvent :: "dix_env \<Rightarrow> bytes \<Rightarrow> client \<Rightarrow> xSendEventReq \<Rightarrow> clip \<Rightarrow> (x_status \<times> clip) option" where
  "lorieProcSendEvent E slack client stuff S =
     (if se_len stuff \<noteq> sz_xSendEventReq div 4 then Some (BadLength, S)
      else map_option (\<lambda>S1. (Success, S1\<lparr>sent_events := sent_events S1 @ [(client, stuff)]\<rparr>))
        (if clipboardEnabled S \<and> se_requestor stuff = root S \<and> se_type stuff = SelectionNotify_code
            \<and> se_selection stuff = xaCLIPBOARD S \<and> se_target stuff = se_property stuff
         then lorieHandleSelection E slack (se_target stuff) S
         else Some S))"

definition lorieSelectionCallback :: "dix_env \<Rightarrow> selection_rec \<Rightarrow> client option \<Rightarrow> selection_kind \<Rightarrow> clip \<Rightarrow> clip" where
  "lorieSelectionCallback E info_selection info_client kind S =
     (if clipboardEnabled S \<and> selection info_selection = xaCLIPBOARD S \<and> kind = SelectionSetOwner
      then lorieSelectionRequest E (xaCLIPBOARD S) (xaTARGETS S) S
      else S)"

section \<open>Announcing and sending\<close>

definition data_target_size :: nat where
  "data_target_size = 40"

definition notify_selection ::
  "dix_env \<Rightarrow> client \<Rightarrow> atom \<Rightarrow> atom \<Rightarrow> atom \<Rightarrow> window \<Rightarrow> u32 \<Rightarrow> clip \<Rightarrow> clip" where
  "notify_selection E client sel target property requestor time S =
     WriteEventsToClient E (Some client) (SelectionNotify time requestor sel target property) S"

text \<open>The property is changed, and the client told if that succeeded.\<close>

definition change_and_notify ::
  "dix_env \<Rightarrow> client \<Rightarrow> atom \<Rightarrow> atom \<Rightarrow> atom \<Rightarrow> window \<Rightarrow> u32 \<Rightarrow> atom \<Rightarrow> prop_data \<Rightarrow> clip \<Rightarrow> x_status \<times> clip" where
  "change_and_notify E client sel target property requestor time type value S =
     (case dixChangeWindowProperty E serverClient requestor
             (if property \<noteq> None_atom then property else target) type value S of
        (Success, S1) \<Rightarrow> (Success, notify_selection E client sel target property requestor time S1)
      | (rc, S1) \<Rightarrow> (rc, S1))"

definition lorieConvertSelection ::
  "dix_env \<Rightarrow> client \<Rightarrow> atom \<Rightarrow> atom \<Rightarrow> atom \<Rightarrow> window \<Rightarrow> u32 \<Rightarrow> bytes option \<Rightarrow> clip \<Rightarrow> (x_status \<times> clip) option" where
  "lorieConvertSelection E client sel target property requestor time data S =
     (case dixLookupSelection E sel client DixGetAttrAccess S of
        (Success, Some pSel, S1) \<Rightarrow>
          if lookup_window E client requestor \<noteq> Success then Some (lookup_window E client requestor, S1)
          else if target = xaTARGETS S1 then
            Some (change_and_notify E client sel target property requestor time XA_ATOM
              (Data32 [xaTARGETS S1, xaTIMESTAMP S1, xaSTRING S1, xaTEXT S1, xaUTF8_STRING S1]) S1)
          else if target = xaTIMESTAMP S1 then
            Some (change_and_notify E client sel target property requestor time XA_INTEGER
              (Data32 [milliseconds (lastTimeChanged pSel)]) S1)
          else (case data of
            None \<Rightarrow>
              if target \<noteq> xaSTRING S1 \<and> target \<noteq> xaTEXT S1 \<and> target \<noteq> xaUTF8_STRING S1 then Some (BadMatch, S1)
              else if \<not> malloc_ok E data_target_size then Some (BadAlloc, S1)
              else Some (Success, lorieRequestClipboard (S1\<lparr>lorieDataTargetHead :=
                \<lparr>ldt_client = client, ldt_selection = sel, ldt_target = target, ldt_property = property,
                 ldt_requestor = requestor, ldt_time = time\<rparr> # lorieDataTargetHead S1\<rparr>))
          | Some mem \<Rightarrow>
              if target = xaSTRING S1 \<or> target = xaTEXT S1 then
                Option.bind (lorieUtf8ToLatin1 mem) (\<lambda>latin1.
                  if \<not> malloc_ok E (length latin1 + 1) then Some (BadAlloc, S1)
                  else Some (change_and_notify E client sel target property requestor time XA_STRING (Data8 latin1) S1))
              else if target = xaUTF8_STRING S1 then
                Some (change_and_notify E client sel target property requestor time (xaUTF8_STRING S1)
                  (Data8 (c_string mem)) S1)
              else Some (BadMatch, S1))
      | (rc, _, S1) \<Rightarrow> Some (rc, S1))"

definition lorieProcConvertSelection ::
  "dix_env \<Rightarrow> client \<Rightarrow> xConvertSelectionReq \<Rightarrow> clip \<Rightarrow> (x_status \<times> clip) option" where
  "lorieProcConvertSelection E client stuff S =
     (if conv_len stuff \<noteq> sz_xConvertSelectionReq div 4 then Some (BadLength, S)
      else if lookup_window E client (conv_requestor stuff) \<noteq> Success
        then Some (lookup_window E client (conv_requestor stuff), S)
      else if \<not> (ValidAtom E (conv_selection stuff) \<and> ValidAtom E (conv_target stuff)
                 \<and> (conv_property stuff = None_atom \<or> ValidAtom E (conv_property stuff)))
        then Some (BadAtom, S\<lparr>errorValue := (errorValue S)(client := conv_property stuff)\<rparr>)
      else
        (case dixLookupSelection E (conv_selection stuff) client DixReadAccess S of
           (rc, pSel, S1) \<Rightarrow>
             if rc = Success \<and> map_option sel_client pSel = Some (Some serverClient)
                \<and> map_option sel_window pSel = Some (root S1)
             then Option.bind (lorieConvertSelection E client (conv_selection stuff) (conv_target stuff)
                    (conv_property stuff) (conv_requestor stuff) (conv_time stuff) (cachedData S1) S1)
                  (\<lambda>(rc, S2). Some (Success,
                    if rc \<noteq> Success
                    then notify_selection E client (conv_selection stuff) (conv_target stuff) None_atom
                           (conv_requestor stuff) (conv_time stuff) S2
                    else S2))
             else Some (ProcConvertSelection E client stuff S1)))"

definition lorieOwnSelection :: "dix_env \<Rightarrow> atom \<Rightarrow> clip \<Rightarrow> x_status \<times> clip" where
  "lorieOwnSelection E sel S =
     (case dixLookupSelection E sel serverClient DixSetAttrAccess S of
        (rc, pSel, S1) \<Rightarrow>
          let finish = (\<lambda>S2. (Success, set_owner (lorieSelectionCallback E) serverClient sel
                                 (currentTime S2) (root S2) (Some serverClient) S2))
          in case (rc, pSel) of
               (Success, Some s) \<Rightarrow>
                 finish (if sel_client s \<noteq> None \<and> sel_client s \<noteq> Some serverClient
                         then WriteEventsToClient E (sel_client s)
                           (SelectionClear (milliseconds (currentTime S1)) (sel_window s) (selection s)) S1
                         else S1)
             | (BadMatch, _) \<Rightarrow>
                 if \<not> malloc_ok E selection_rec_size then (BadAlloc, S1)
                 else if sel_access E serverClient sel DixCreateSetAttr \<noteq> Success
                   then (sel_access E serverClient sel DixCreateSetAttr, S1)
                 else finish (S1\<lparr>CurrentSelections := new_selection sel # CurrentSelections S1\<rparr>)
             | _ \<Rightarrow> (rc, S1))"

definition lorieHandleClipboardAnnounce :: "dix_env \<Rightarrow> clip \<Rightarrow> clip" where
  "lorieHandleClipboardAnnounce E S = snd (lorieOwnSelection E (xaCLIPBOARD S) (S\<lparr>cachedData := None\<rparr>))"

lemma notify_targets [simp]:
  "lorieDataTargetHead (WriteEventsToClient E c ev S) = lorieDataTargetHead S"
  "cachedData (WriteEventsToClient E c ev S) = cachedData S"
  "root (WriteEventsToClient E c ev S) = root S"
  "to_activity (WriteEventsToClient E c ev S) = to_activity S"
  "xaCLIPBOARD (WriteEventsToClient E c ev S) = xaCLIPBOARD S"
  "clipboardEnabled (WriteEventsToClient E c ev S) = clipboardEnabled S"
  by (simp_all add: WriteEventsToClient_def split: option.splits)

text \<open>The dix operations keep the fields the clipboard adds.\<close>

lemma clip_fields:
  fixes S T :: clip
  assumes "dix.more S = dix.more T"
  shows "lorieDataTargetHead S = lorieDataTargetHead T" and "cachedData S = cachedData T"
    and "root S = root T" and "to_activity S = to_activity T" and "clipboardEnabled S = clipboardEnabled T"
    and "xaCLIPBOARD S = xaCLIPBOARD T" and "xaTARGETS S = xaTARGETS T" and "xaSTRING S = xaSTRING T"
    and "xaUTF8_STRING S = xaUTF8_STRING T" and "xaTEXT S = xaTEXT T" and "xaTIMESTAMP S = xaTIMESTAMP T"
  using assms by (cases S; cases T; simp)+

lemma change_and_notify_more:
  assumes "change_and_notify E c sel t p r tm ty v S = (rc, S')"
  shows "dix.more S' = dix.more S"
  using assms change_property_frame(1) [of E 0 r "if p \<noteq> None_atom then p else t" ty v S]
  by (auto simp: change_and_notify_def notify_selection_def split: prod.splits x_status.splits)

lemma convert_with_data_more:
  assumes "lorieConvertSelection E c sel t p r tm (Some d) S = Some (rc, S')"
  shows "dix.more S' = dix.more S"
  using assms
  by (auto simp: lorieConvertSelection_def dixLookupSelection_def Let_def dest!: change_and_notify_more
      split: prod.splits x_status.splits option.splits if_splits bind_splits)

text \<open>The loop over the queued requests. It runs after \<^verbatim>\<open>cachedData = data\<close>, so the text it
  converts is the argument; answering from a text leaves the queue alone, and the loop then
  drops its head.\<close>

function lorieHandleClipboardData_loop :: "dix_env \<Rightarrow> bytes \<Rightarrow> clip \<Rightarrow> clip option" where
  "lorieHandleClipboardData_loop E data S =
     (case lorieDataTargetHead S of
        [] \<Rightarrow> Some S
      | h # _ \<Rightarrow>
          (case lorieConvertSelection E (ldt_client h) (ldt_selection h) (ldt_target h) (ldt_property h)
                  (ldt_requestor h) (ldt_time h) (Some data) S of
             None \<Rightarrow> None
           | Some (rc, S1) \<Rightarrow>
               lorieHandleClipboardData_loop E data
                 ((if rc \<noteq> Success
                   then notify_selection E (ldt_client h) (ldt_selection h) (ldt_target h) None_atom
                          (ldt_requestor h) (ldt_time h) S1
                   else S1)\<lparr>lorieDataTargetHead := tl (lorieDataTargetHead S1)\<rparr>)))"
  by pat_completeness auto
termination
  by (relation "measure (\<lambda>(E, data, S). length (lorieDataTargetHead S))")
    (auto dest!: convert_with_data_more clip_fields(1))

declare lorieHandleClipboardData_loop.simps [simp del]

definition lorieHandleClipboardData :: "dix_env \<Rightarrow> bytes \<Rightarrow> clip \<Rightarrow> clip option" where
  "lorieHandleClipboardData E data S = lorieHandleClipboardData_loop E data (S\<lparr>cachedData := Some data\<rparr>)"

section \<open>Initialisation and dispatch\<close>

definition lorieInitClipboard :: "(string \<Rightarrow> atom) \<Rightarrow> clip \<Rightarrow> clip" where
  "lorieInitClipboard MakeAtom S =
     (let S1 = S\<lparr>xaTIMESTAMP := MakeAtom ''TIMESTAMP'', xaTEXT := MakeAtom ''TEXT'',
                xaCLIPBOARD := MakeAtom ''CLIPBOARD'', xaTARGETS := MakeAtom ''TARGETS'',
                xaSTRING := MakeAtom ''STRING'', xaUTF8_STRING := MakeAtom ''UTF8_STRING''\<rparr>;
          S2 = (if origProcConvertSelection S1 = None
                then S1\<lparr>origProcConvertSelection := Some (ProcVector_ConvertSelection S1),
                        ProcVector_ConvertSelection := LorieProc\<rparr>
                else S1);
          S3 = (if origProcSendEvent S2 = None
                then S2\<lparr>origProcSendEvent := Some (ProcVector_SendEvent S2),
                        ProcVector_SendEvent := LorieProc\<rparr>
                else S2)
      in S3\<lparr>SelectionCallbacks := Suc (SelectionCallbacks S3)\<rparr>)"

text \<open>What the selection table does for a \<^verbatim>\<open>SetSelectionOwner\<close> request once the callback above is
  registered.\<close>

definition set_selection_owner :: "dix_env \<Rightarrow> client \<Rightarrow> xSetSelectionOwnerReq \<Rightarrow> clip \<Rightarrow> clip" where
  "set_selection_owner E client stuff S = snd (ProcSetSelectionOwner E (lorieSelectionCallback E) client stuff S)"

definition client_closed :: "dix_env \<Rightarrow> client \<Rightarrow> clip \<Rightarrow> clip" where
  "client_closed E client S = DeleteClientFromAnySelections (lorieSelectionCallback E) client S"

definition window_destroyed :: "dix_env \<Rightarrow> window \<Rightarrow> clip \<Rightarrow> clip" where
  "window_destroyed E win S = DeleteWindowFromAnySelections (lorieSelectionCallback E) win S"

section \<open>Lemmas\<close>

text \<open>The conversion answers sent so far: who was told about which request.\<close>

type_synonym answer = "client \<times> u32 \<times> window \<times> atom \<times> atom"

fun answer_of :: "x_output \<Rightarrow> answer option" where
  "answer_of (ToClient c (SelectionNotify tm r sel t p)) = Some (c, tm, r, sel, t)"
| "answer_of _ = None"

definition answers :: "x_output list \<Rightarrow> answer list" where
  "answers os = List.map_filter answer_of os"

definition ldt_answer :: "LorieDataTarget \<Rightarrow> answer" where
  "ldt_answer h = (ldt_client h, ldt_time h, ldt_requestor h, ldt_selection h, ldt_target h)"

lemma answers_append [simp]: "answers (xs @ ys) = answers xs @ answers ys"
  by (induction xs) (auto simp: answers_def List.map_filter_def)

lemma answers_simps [simp]:
  "answers [] = []"
  "answers [ToClient c (SelectionNotify tm r sel t p)] = [(c, tm, r, sel, t)]"
  "answers [ToClient c (SelectionClear tm w a)] = []"
  "answers [ToClient c (SelectionRequest tm w r sel t p)] = []"
  "answers [PropertyNewValue w a] = []"
  by (simp_all add: answers_def List.map_filter_def)

definition live :: "dix_env \<Rightarrow> client \<Rightarrow> bool" where
  "live E c \<longleftrightarrow> c \<noteq> serverClient \<and> \<not> clientGone E c"

lemma answers_notify:
  "live E c \<Longrightarrow> answers (out (notify_selection E c sel t p r tm S)) = answers (out S) @ [(c, tm, r, sel, t)]"
  by (simp add: notify_selection_def WriteEventsToClient_def live_def)

lemma change_and_notify_answers:
  assumes "change_and_notify E c sel t p r tm ty v S = (rc, S')" and "live E c"
  shows "answers (out S') = answers (out S) @ (if rc = Success then [(c, tm, r, sel, t)] else [])"
proof -
  obtain rc1 S1 where d: "dixChangeWindowProperty E 0 r (if p \<noteq> None_atom then p else t) ty v S = (rc1, S1)"
    by (cases "dixChangeWindowProperty E 0 r (if p \<noteq> None_atom then p else t) ty v S")
  have "answers (out S1) = answers (out S)"
  proof (cases "rc1 = Success")
    case True
    with d have "out S1 = out S @ [PropertyNewValue r (if p \<noteq> None_atom then p else t)]"
      by (intro change_property_success(2)) simp
    then show ?thesis by simp
  next
    case False
    then show ?thesis using change_property_fails [OF d] by simp
  qed
  then show ?thesis
    using assms d by (auto simp: change_and_notify_def answers_notify split: x_status.splits)
qed

lemma convert_with_data_answers:
  assumes "lorieConvertSelection E c sel t p r tm (Some d) S = Some (rc, S')" and "live E c"
  shows "answers (out S') = answers (out S) @ (if rc = Success then [(c, tm, r, sel, t)] else [])"
  using assms
  by (auto simp: lorieConvertSelection_def dixLookupSelection_def Let_def dest!: change_and_notify_answers
      split: prod.splits x_status.splits option.splits if_splits bind_splits)

lemma convert_with_data_total:
  assumes "lorieUtf8ToLatin1 d \<noteq> None"
  shows "\<exists>rc S'. lorieConvertSelection E c sel t p r tm (Some d) S = Some (rc, S')"
  using assms
  by (auto simp: lorieConvertSelection_def dixLookupSelection_def Let_def
      split: prod.split x_status.split option.split bind_splits)

lemma handle_data_loop:
  assumes "lorieUtf8ToLatin1 d \<noteq> None" and "\<forall>h\<in>set (lorieDataTargetHead S). live E (ldt_client h)"
  shows "\<exists>S'. lorieHandleClipboardData_loop E d S = Some S' \<and> lorieDataTargetHead S' = []
    \<and> cachedData S' = cachedData S \<and> answers (out S') = answers (out S) @ map ldt_answer (lorieDataTargetHead S)"
  using assms(2)
proof (induction "lorieDataTargetHead S" arbitrary: S)
  case Nil
  then show ?case by (simp add: lorieHandleClipboardData_loop.simps flip: Nil.hyps)
next
  case (Cons h hs)
  obtain rc S1 where conv: "lorieConvertSelection E (ldt_client h) (ldt_selection h) (ldt_target h)
      (ldt_property h) (ldt_requestor h) (ldt_time h) (Some d) S = Some (rc, S1)"
    using convert_with_data_total [OF assms(1)] by metis
  note more = clip_fields [OF convert_with_data_more [OF conv]]
  have live: "live E (ldt_client h)" using Cons.prems Cons.hyps(2) by (metis list.set_intros(1))
  define T where "T = (if rc \<noteq> Success then notify_selection E (ldt_client h) (ldt_selection h)
      (ldt_target h) None_atom (ldt_requestor h) (ldt_time h) S1 else S1)\<lparr>lorieDataTargetHead := hs\<rparr>"
  have T: "answers (out T) = answers (out S) @ [ldt_answer h]" "lorieDataTargetHead T = hs"
    "cachedData T = cachedData S"
    using convert_with_data_answers [OF conv live] answers_notify [OF live] more
    by (auto simp: T_def ldt_answer_def notify_selection_def)
  have step: "lorieHandleClipboardData_loop E d S = lorieHandleClipboardData_loop E d T"
    using conv more by (subst lorieHandleClipboardData_loop.simps) (simp add: T_def flip: Cons.hyps(2))
  show ?case using Cons.hyps(1) [of T] Cons.prems T step by (simp flip: Cons.hyps(2))
qed

lemma change_property_stores:
  assumes "change_and_notify E c sel t p r tm ty v S = (Success, S')"
  shows "find_key propertyName (if p \<noteq> None_atom then p else t) (userProps S' r) =
    Some \<lparr>propertyName = (if p \<noteq> None_atom then p else t), prop_type = ty, prop_data = v\<rparr>"
  using assms change_property_success(1) [of E 0 r "if p \<noteq> None_atom then p else t" ty v S]
  by (auto simp: change_and_notify_def notify_selection_def split: prod.splits x_status.splits)

lemma convert_stores_utf8:
  assumes "lorieConvertSelection E c sel t p r tm (Some mem) S = Some (Success, S')"
    and "t = xaUTF8_STRING S" and "t \<noteq> xaTARGETS S" and "t \<noteq> xaTIMESTAMP S" and "t \<noteq> xaSTRING S" and "t \<noteq> xaTEXT S"
  shows "find_key propertyName (if p \<noteq> None_atom then p else t) (userProps S' r) =
    Some \<lparr>propertyName = (if p \<noteq> None_atom then p else t), prop_type = xaUTF8_STRING S, prop_data = Data8 (c_string mem)\<rparr>"
  using assms
  by (auto simp: lorieConvertSelection_def dixLookupSelection_def Let_def dest!: change_property_stores
      split: prod.splits x_status.splits option.splits if_splits)

lemma convert_stores_latin1:
  assumes "lorieConvertSelection E c sel t p r tm (Some mem) S = Some (Success, S')"
    and "t = xaSTRING S \<or> t = xaTEXT S" and "t \<noteq> xaTARGETS S" and "t \<noteq> xaTIMESTAMP S"
  shows "\<exists>latin1. lorieUtf8ToLatin1 mem = Some latin1 \<and> find_key propertyName (if p \<noteq> None_atom then p else t) (userProps S' r) =
    Some \<lparr>propertyName = (if p \<noteq> None_atom then p else t), prop_type = XA_STRING, prop_data = Data8 latin1\<rparr>"
proof -
  obtain latin1 S1 where "lorieUtf8ToLatin1 mem = Some latin1"
    "change_and_notify E c sel t p r tm XA_STRING (Data8 latin1) S1 = (Success, S')"
    using assms
    by (auto simp: lorieConvertSelection_def dixLookupSelection_def Let_def
      split: prod.splits x_status.splits option.splits if_splits bind_splits)
  then show ?thesis using change_property_stores by blast
qed

text \<open>The three ways a conversion ends: an error before any property changes, an attempt to
  change the property, or a queued request.\<close>

definition queued_target :: "client \<Rightarrow> atom \<Rightarrow> atom \<Rightarrow> atom \<Rightarrow> window \<Rightarrow> u32 \<Rightarrow> LorieDataTarget" where
  "queued_target c sel t p r tm = \<lparr>ldt_client = c, ldt_selection = sel, ldt_target = t,
     ldt_property = p, ldt_requestor = r, ldt_time = tm\<rparr>"

lemma convert_cases:
  assumes "lorieConvertSelection E c sel t p r tm data S = Some (rc, S')"
  obtains (error) f where "rc \<noteq> Success" "S' = S\<lparr>errorValue := f\<rparr>"
  | (stored) f ty v where "change_and_notify E c sel t p r tm ty v (S\<lparr>errorValue := f\<rparr>) = (rc, S')"
  | (queued) f where "data = None" "rc = Success" "t \<in> {xaSTRING S, xaTEXT S, xaUTF8_STRING S}"
      "t \<notin> {xaTARGETS S, xaTIMESTAMP S}"
      "S' = lorieRequestClipboard (S\<lparr>errorValue := f,
         lorieDataTargetHead := queued_target c sel t p r tm # lorieDataTargetHead S\<rparr>)"
proof -
  let ?f = "(errorValue S)(c := sel)"
  have "rc \<noteq> Success \<and> S' = S\<lparr>errorValue := ?f\<rparr>
    \<or> (\<exists>ty v. change_and_notify E c sel t p r tm ty v (S\<lparr>errorValue := ?f\<rparr>) = (rc, S'))
    \<or> data = None \<and> rc = Success \<and> t \<in> {xaSTRING S, xaTEXT S, xaUTF8_STRING S} \<and> t \<notin> {xaTARGETS S, xaTIMESTAMP S}
      \<and> S' = lorieRequestClipboard (S\<lparr>errorValue := ?f,
           lorieDataTargetHead := queued_target c sel t p r tm # lorieDataTargetHead S\<rparr>)"
    using assms unfolding lorieConvertSelection_def dixLookupSelection_def Let_def queued_target_def
    by (simp split: prod.splits x_status.splits option.splits if_splits bind_splits)
       (blast | metis)+
  then show thesis using that by blast
qed

lemma selection_request_frame [simp]:
  "CurrentSelections (lorieSelectionRequest E sel t S) = CurrentSelections S"
  "userProps (lorieSelectionRequest E sel t S) = userProps S"
  "currentTime (lorieSelectionRequest E sel t S) = currentTime S"
  "dix.more (lorieSelectionRequest E sel t S) = dix.more S"
  by (simp_all add: lorieSelectionRequest_def dixLookupSelection_def Let_def split: prod.split x_status.split option.split)

lemma selection_callback_frame [simp]:
  "CurrentSelections (lorieSelectionCallback E s c k S) = CurrentSelections S"
  "userProps (lorieSelectionCallback E s c k S) = userProps S"
  "dix.more (lorieSelectionCallback E s c k S) = dix.more S"
  by (simp_all add: lorieSelectionCallback_def)

text \<open>When the server itself owns the selection, asking for its targets sends nothing.\<close>

lemma selection_request_own:
  assumes "find_key selection sel (CurrentSelections S) = Some s" and "sel_client s = Some serverClient"
  shows "out (lorieSelectionRequest E sel t S) = out S"
  using assms by (simp add: lorieSelectionRequest_def dixLookupSelection_def Let_def WriteEventsToClient_def
      split: x_status.split)

lemma set_owner_frame:
  assumes "\<And>s c k T. CurrentSelections (cb s c k T) = CurrentSelections T"
    and "\<And>s c k T. userProps (cb s c k T) = userProps T"
    and "\<And>s c k T. dix.more (cb s c k T) = dix.more T"
  shows "CurrentSelections (set_owner cb client sel time win owner S) = update_key selection sel
      (\<lambda>s. s\<lparr>lastTimeChanged := time, sel_window := win, sel_client := owner\<rparr>) (CurrentSelections S)"
    and "userProps (set_owner cb client sel time win owner S) = userProps S"
    and "dix.more (set_owner cb client sel time win owner S) = dix.more S"
  using assms by (simp_all add: set_owner_def Let_def split: option.split)

lemmas set_owner_clip = set_owner_frame [where cb = "lorieSelectionCallback E" for E, OF selection_callback_frame]

lemma own_selection_cases:
  assumes "lorieOwnSelection E sel S = (rc, S')"
  obtains (error) f where "rc \<noteq> Success" "S' = S\<lparr>errorValue := f\<rparr>"
  | (taken) s f T where "find_key selection sel (CurrentSelections S) = Some s" "rc = Success"
      "sel_access E serverClient sel DixSetAttrAccess = Success"
      "T = (if sel_client s \<noteq> None \<and> sel_client s \<noteq> Some serverClient
            then WriteEventsToClient E (sel_client s)
              (SelectionClear (milliseconds (currentTime S)) (sel_window s) sel) (S\<lparr>errorValue := f\<rparr>)
            else S\<lparr>errorValue := f\<rparr>)"
      "S' = set_owner (lorieSelectionCallback E) serverClient sel (currentTime S) (root S) (Some serverClient) T"
  | (created) f where "find_key selection sel (CurrentSelections S) = None \<or> sel_access E serverClient sel DixSetAttrAccess = BadMatch"
      "rc = Success"
      "S' = set_owner (lorieSelectionCallback E) serverClient sel (currentTime S) (root S) (Some serverClient)
              (S\<lparr>errorValue := f, CurrentSelections := new_selection sel # CurrentSelections S\<rparr>)"
proof -
  let ?f = "(errorValue S)(0 := sel)" and ?acc = "sel_access E serverClient sel DixSetAttrAccess"
  consider (none) "find_key selection sel (CurrentSelections S) = None \<or>
       find_key selection sel (CurrentSelections S) \<noteq> None \<and> ?acc = BadMatch"
    | (some) s where "find_key selection sel (CurrentSelections S) = Some s" "?acc = Success"
    | (bad) s where "find_key selection sel (CurrentSelections S) = Some s" "?acc \<noteq> Success" "?acc \<noteq> BadMatch"
    by (cases "find_key selection sel (CurrentSelections S)") auto
  then show thesis
  proof cases
    case none
    then have "rc \<noteq> Success \<and> S' = S\<lparr>errorValue := ?f\<rparr> \<or> rc = Success \<and>
      S' = set_owner (lorieSelectionCallback E) serverClient sel (currentTime S) (root S) (Some serverClient)
              (S\<lparr>errorValue := ?f, CurrentSelections := new_selection sel # CurrentSelections S\<rparr>)"
      using assms by (auto simp: lorieOwnSelection_def dixLookupSelection_def Let_def split: if_splits)
    then show thesis using none error created by blast
  next
    case some
    then have "selection s = sel" by (auto dest: find_key_SomeD)
    with some assms show thesis
      by (intro taken [of s _ ?f]) (auto simp: lorieOwnSelection_def dixLookupSelection_def Let_def)
  next
    case bad
    then have "rc \<noteq> Success" "S' = S\<lparr>errorValue := ?f\<rparr>"
      using assms by (auto simp: lorieOwnSelection_def dixLookupSelection_def Let_def split: x_status.splits)
    then show thesis by (rule error)
  qed
qed

lemma set_owner_own_out:
  assumes "owner = Some serverClient" and "xaCLIPBOARD S = sel"
  shows "out (set_owner (lorieSelectionCallback E) client sel time win owner S) = out S"
proof (cases "find_key selection sel (CurrentSelections S)")
  case None
  then show ?thesis by (simp add: set_owner_def Let_def keyed)
next
  case (Some s)
  then show ?thesis using assms
    by (simp add: set_owner_def Let_def keyed lorieSelectionCallback_def selection_request_own)
qed

text \<open>The event a live owner of a selection gets when it loses the selection.\<close>

definition owner_cleared :: "dix_env \<Rightarrow> atom \<Rightarrow> 'a dix_scheme \<Rightarrow> x_output list" where
  "owner_cleared E sel S =
     (case find_key selection sel (CurrentSelections S) of
        None \<Rightarrow> []
      | Some s \<Rightarrow> (case sel_client s of
          None \<Rightarrow> []
        | Some c \<Rightarrow> if live E c
            then [ToClient c (SelectionClear (milliseconds (currentTime S)) (sel_window s) sel)] else []))"

lemma announce_takes_selection:
  assumes "lorieOwnSelection E sel S = (rc, S')" and "xaCLIPBOARD S = sel" and "rc = Success"
    and "sel_access E serverClient sel DixSetAttrAccess \<noteq> BadMatch"
  shows "map_option (\<lambda>s. (sel_client s, sel_window s)) (find_key selection sel (CurrentSelections S')) =
      Some (Some serverClient, root S)
    \<and> out S' = out S @ owner_cleared E sel S
    \<and> dix.more S' = dix.more S"
  using assms(1)
proof (cases rule: own_selection_cases)
  case error
  then show ?thesis using assms by simp
next
  case (taken s f T)
  have T: "CurrentSelections T = CurrentSelections S" "dix.more T = dix.more S"
    using taken(4) by auto
  have "out T = out S @ (case sel_client s of Some c \<Rightarrow> if live E c then
      [ToClient c (SelectionClear (milliseconds (currentTime S)) (sel_window s) sel)] else [] | None \<Rightarrow> [])"
    using taken(4) by (auto simp: WriteEventsToClient_def live_def split: option.splits)
  moreover have "out S' = out T"
    using taken(5) assms(2) clip_fields(6) [OF T(2)] by (simp add: set_owner_own_out)
  ultimately show ?thesis using taken T by (simp add: set_owner_clip keyed owner_cleared_def)
next
  case (created f)
  then have "find_key selection sel (CurrentSelections S) = None" using assms by simp
  with created assms show ?thesis
    by (simp add: set_owner_own_out set_owner_clip keyed new_selection_def find_key_Cons owner_cleared_def)
qed

text \<open>The receiving side.\<close>

lemma converted_text:
  "lorieConvertLF (data @ slack) (replicate (length data + 1) 0) (length data) =
    Some (filter (\<lambda>c. c \<noteq> 13) data @ replicate (length data + 1 - length (filter (\<lambda>c. c \<noteq> 13) data)) 0)"
proof -
  have le: "length (filter (\<lambda>c. c \<noteq> 13) data) \<le> Suc (length data)" by (simp add: le_SucI)
  show ?thesis
    using lorieConvertLF_loop_correct [of "length data" "data @ slack" 0 "replicate (length data + 1) 0" "[]"] le
    by (simp add: lorieConvertLF_def del: replicate.simps replicate_Suc)
qed

lemma sent_text:
  assumes "length t \<le> n"
  shows "Option.bind (lorieLatin1ToUTF8 (replicate ((n + 1) * 2) 0) (t @ replicate (n + 1 - length t) 0))
      (\<lambda>utf8. Some (c_string utf8)) = Some (utf8_encode (map unat (c_string t)))"
proof -
  let ?s = "c_string t" and ?u = "utf8_encode (map unat (c_string t))"
  obtain post where post: "t @ replicate (n + 1 - length t) 0 = ?s @ 0 # post"
    using text_then_nul [OF assms] by blast
  have len: "length ?u \<le> 2 * n"
    using length_utf8_encode_latin1 [of ?s] length_c_string [of t] assms by linarith
  have "lorieLatin1ToUTF8 (replicate ((n + 1) * 2) 0) (?s @ 0 # post) =
      Some (?u @ replicate ((n + 1) * 2 - length ?u) 0)"
    using lorieLatin1ToUTF8_encoded [OF c_string_nul_free, of t "replicate ((n + 1) * 2) 0" post] len
    by (simp del: replicate.simps replicate_Suc)
  also have "(n + 1) * 2 - length ?u = Suc (2 * n + 1 - length ?u)" using len by simp
  finally have *: "lorieLatin1ToUTF8 (replicate ((n + 1) * 2) 0) (?s @ 0 # post) =
      Some (?u @ 0 # replicate (2 * n + 1 - length ?u) 0)" by simp
  have "\<forall>k\<in>set (map unat ?s). code_point k \<and> 0 < k"
    using c_string_nul_free [of t] by (auto simp: code_point_byte unat_gt_0 intro!: word_neq_0_conv [THEN iffD1])
  then have "0 \<notin> set ?u" by (rule nul_free_encode)
  then show ?thesis unfolding post * by (simp add: c_string_terminated)
qed

text \<open>Hooks deny with an error of their own, never with \<^verbatim>\<open>BadMatch\<close>, which means absent.\<close>

definition xace_ok :: "dix_env \<Rightarrow> bool" where
  "xace_ok E \<longleftrightarrow> (\<forall>c a m. sel_access E c a m \<noteq> BadMatch) \<and> (\<forall>c w a m. prop_access E c w a m \<noteq> BadMatch)"

inductive clip_step :: "clip \<Rightarrow> clip \<Rightarrow> bool" where
  enable: "clip_step S (lorieEnableClipboardSync b S)"
| send_event: "xace_ok E \<Longrightarrow> lorieProcSendEvent E slack c req S = Some (rc, S') \<Longrightarrow> clip_step S S'"
| convert: "xace_ok E \<Longrightarrow> lorieProcConvertSelection E c creq S = Some (rc, S') \<Longrightarrow> clip_step S S'"
| announce: "xace_ok E \<Longrightarrow> clip_step S (lorieHandleClipboardAnnounce E S)"
| data: "xace_ok E \<Longrightarrow> lorieHandleClipboardData E d S = Some S' \<Longrightarrow> clip_step S S'"
| own: "xace_ok E \<Longrightarrow> clip_step S (set_selection_owner E c oreq S)"
| closed: "xace_ok E \<Longrightarrow> clip_step S (client_closed E c S)"
| destroyed: "xace_ok E \<Longrightarrow> clip_step S (window_destroyed E w S)"
| change: "xace_ok E \<Longrightarrow> dixChangeWindowProperty E c w a t v S = (rc, S') \<Longrightarrow> clip_step S S'"
| delete: "xace_ok E \<Longrightarrow> DeleteProperty E c w a S = (rc, S') \<Longrightarrow> clip_step S S'"

definition clip_inv :: "clip \<Rightarrow> bool" where
  "clip_inv S \<longleftrightarrow> dix_ok S \<and> (\<forall>h\<in>set (lorieDataTargetHead S).
     ldt_target h \<in> {xaSTRING S, xaTEXT S, xaUTF8_STRING S} \<and> ldt_target h \<notin> {xaTARGETS S, xaTIMESTAMP S})"

definition clip_start :: "clip \<Rightarrow> bool" where
  "clip_start S \<longleftrightarrow> CurrentSelections S = [] \<and> (\<forall>w. userProps S w = []) \<and> lorieDataTargetHead S = []
     \<and> cachedData S = None"

lemma clip_inv_frame:
  assumes "clip_inv S" and "map selection (CurrentSelections T) = map selection (CurrentSelections S)"
    and "userProps T = userProps S" and "dix.more T = dix.more S"
  shows "clip_inv T"
  using assms clip_fields [OF assms(4)] by (simp add: clip_inv_def dix_ok_def)

lemma clip_inv_updates [simp]:
  "clip_inv (S\<lparr>errorValue := f\<rparr>) = clip_inv S"
  "clip_inv (S\<lparr>currentTime := tm\<rparr>) = clip_inv S"
  "clip_inv (S\<lparr>cachedData := d\<rparr>) = clip_inv S"
  "clip_inv (S\<lparr>clipboardEnabled := b\<rparr>) = clip_inv S"
  "clip_inv (S\<lparr>to_activity := m\<rparr>) = clip_inv S"
  "clip_inv (S\<lparr>sent_events := se\<rparr>) = clip_inv S"
  by (simp_all add: clip_inv_def dix_ok_def)

lemma clip_inv_write [simp]: "clip_inv (WriteEventsToClient E c ev S) = clip_inv S"
  by (rule iffI; erule clip_inv_frame; simp)

lemma clip_inv_request [simp]: "clip_inv (lorieSelectionRequest E sel t S) = clip_inv S"
  by (rule iffI; erule clip_inv_frame; simp)

lemma clip_inv_callback [simp]: "clip_inv (lorieSelectionCallback E s c k S) = clip_inv S"
  by (simp add: lorieSelectionCallback_def)

lemma clip_inv_change:
  assumes "dixChangeWindowProperty E c w a t v S = (rc, S')" "clip_inv S" "xace_ok E"
  shows "clip_inv S'"
  using assms change_property_ok [of S E c w a t v] change_property_frame(1) [of E c w a t v S, THEN clip_fields(1)]
    change_property_frame(1) [of E c w a t v S, THEN clip_fields(7)]
    change_property_frame(1) [of E c w a t v S, THEN clip_fields(8)]
    change_property_frame(1) [of E c w a t v S, THEN clip_fields(9)]
    change_property_frame(1) [of E c w a t v S, THEN clip_fields(10)]
    change_property_frame(1) [of E c w a t v S, THEN clip_fields(11)]
  by (simp add: clip_inv_def xace_ok_def)

lemma clip_inv_change_notify:
  assumes "change_and_notify E c sel t p r tm ty v S = (rc, S')" "clip_inv S" "xace_ok E"
  shows "clip_inv S'"
  using assms
  by (auto simp: change_and_notify_def notify_selection_def dest: clip_inv_change split: prod.splits x_status.splits)

lemma clip_inv_convert:
  assumes "lorieConvertSelection E c sel t p r tm data S = Some (rc, S')" "clip_inv S" "xace_ok E"
  shows "clip_inv S'"
  using assms(1)
proof (cases rule: convert_cases)
  case (queued f)
  then show ?thesis using assms by (auto simp: lorieRequestClipboard_def clip_inv_def dix_ok_def queued_target_def)
qed (use assms in \<open>auto dest: clip_inv_change_notify\<close>)

lemma clip_inv_proc_convert:
  assumes "lorieProcConvertSelection E c req S = Some (rc, S')" "clip_inv S" "xace_ok E"
  shows "clip_inv S'"
proof -
  have dix: "clip_inv (snd (ProcConvertSelection E c req T))" if "clip_inv T" for T
    using that by (auto simp: ProcConvertSelection_def dixLookupSelection_def UpdateCurrentTime_def Let_def
        split: option.split x_status.split)
  have *: "clip_inv T" if "ProcConvertSelection E c req (S\<lparr>errorValue := f\<rparr>) = (rc', T)" for rc' T f
    using dix [of "S\<lparr>errorValue := f\<rparr>"] that assms(2) by simp
  show ?thesis
    using assms
    by (auto simp: lorieProcConvertSelection_def dixLookupSelection_def Let_def notify_selection_def bind_eq_Some_conv
        dest: clip_inv_convert * split: if_splits)
qed

lemma clip_inv_set_owner:
  "clip_inv (set_owner (lorieSelectionCallback E) c sel tm w owner S) = clip_inv S"
  by (rule iffI; erule clip_inv_frame) (simp_all add: set_owner_clip keyed)

lemma clip_inv_new_selection:
  "clip_inv S \<Longrightarrow> find_key selection sel (CurrentSelections S) = None \<Longrightarrow>
    clip_inv (S\<lparr>CurrentSelections := new_selection sel # CurrentSelections S\<rparr>)"
  by (auto simp: clip_inv_def dix_ok_def new_selection_def find_key_None_iff)

lemma clip_inv_announce:
  assumes "clip_inv S" "xace_ok E"
  shows "clip_inv (lorieHandleClipboardAnnounce E S)"
proof -
  obtain rc T where T: "lorieOwnSelection E (xaCLIPBOARD S) (S\<lparr>cachedData := None\<rparr>) = (rc, T)" by fastforce
  then have "clip_inv T"
  proof (cases rule: own_selection_cases)
    case (created f)
    then have "find_key selection (xaCLIPBOARD S) (CurrentSelections (S\<lparr>cachedData := None, errorValue := f\<rparr>)) = None"
      using assms by (simp add: xace_ok_def)
    then show ?thesis using created assms clip_inv_new_selection [of "S\<lparr>cachedData := None, errorValue := f\<rparr>"]
      by (simp add: clip_inv_set_owner)
  qed (use assms in \<open>auto simp: clip_inv_set_owner\<close>)
  then show ?thesis using T by (simp add: lorieHandleClipboardAnnounce_def)
qed

lemma clip_inv_own:
  assumes "clip_inv S" "xace_ok E"
  shows "clip_inv (set_selection_owner E c req S)"
proof -
  let ?a = "own_selection req"
  define S1 where "S1 = (UpdateCurrentTime E S)\<lparr>errorValue := (errorValue (UpdateCurrentTime E S))(c := ?a)\<rparr>"
  have S1: "clip_inv S1" "clip_inv (UpdateCurrentTime E S)"
    using assms(1) by (simp_all add: S1_def UpdateCurrentTime_def Let_def)
  have new: "clip_inv (S1\<lparr>CurrentSelections := new_selection ?a # CurrentSelections S1\<rparr>)"
    if "find_key selection ?a (CurrentSelections S1) = None"
    using clip_inv_new_selection [OF S1(1) that] .
  have look: "dixLookupSelection E ?a c DixSetAttrAccess (UpdateCurrentTime E S) =
     (case find_key selection ?a (CurrentSelections S1) of None \<Rightarrow> BadMatch
        | Some _ \<Rightarrow> sel_access E c ?a DixSetAttrAccess,
      find_key selection ?a (CurrentSelections S1), S1)"
    by (simp add: dixLookupSelection_def S1_def Let_def)
  have nb: "sel_access E c a m \<noteq> BadMatch" for a m using assms(2) by (simp add: xace_ok_def)
  show ?thesis
    unfolding set_selection_owner_def ProcSetSelectionOwner_def look Let_def
    using S1 new assms(1) nb
    by (auto simp: clip_inv_set_owner split: option.split x_status.split)
qed

lemma clip_inv_orphan_loop:
  "clip_inv S \<Longrightarrow> clip_inv (orphan_loop (lorieSelectionCallback E) P k ss S)"
proof (induction ss arbitrary: S)
  case (Cons s ss)
  have "clip_inv ((lorieSelectionCallback E s None k S)\<lparr>CurrentSelections :=
      update_key selection (selection s) orphan (CurrentSelections S)\<rparr>)"
    using Cons.prems by (rule clip_inv_frame) (simp_all add: keyed orphan_def)
  then show ?case using Cons by simp
qed simp

lemma clip_inv_delete:
  assumes "DeleteProperty E c w a S = (rc, S')" "clip_inv S"
  shows "clip_inv S'"
  using assms keys_delete [of propertyName "userProps S w" a]
  by (auto simp: DeleteProperty_def dixLookupProperty_def clip_inv_def dix_ok_def Let_def
      split: option.splits x_status.splits)

lemma clip_inv_handle_selection:
  assumes "lorieHandleSelection E slack t S = Some S'" "clip_inv S"
  shows "clip_inv S'"
  using assms
  by (auto simp: lorieHandleSelection_def dixLookupProperty_def Let_def lorieSendClipboardData_def
      split: option.splits x_status.splits prop_data.splits if_splits bind_splits)

lemma clip_inv_data_loop:
  "lorieHandleClipboardData_loop E d S = Some S' \<Longrightarrow> clip_inv S \<Longrightarrow> xace_ok E \<Longrightarrow> clip_inv S'"
proof (induction "length (lorieDataTargetHead S)" arbitrary: S)
  case 0
  then show ?case by (simp add: lorieHandleClipboardData_loop.simps)
next
  case (Suc n)
  then obtain h hs where h: "lorieDataTargetHead S = h # hs" by (cases "lorieDataTargetHead S") auto
  obtain rc S1 where conv: "lorieConvertSelection E (ldt_client h) (ldt_selection h) (ldt_target h)
      (ldt_property h) (ldt_requestor h) (ldt_time h) (Some d) S = Some (rc, S1)"
    using Suc.prems(1) h by (subst (asm) lorieHandleClipboardData_loop.simps) (auto split: option.splits)
  define T where "T = (if rc \<noteq> Success then notify_selection E (ldt_client h) (ldt_selection h)
      (ldt_target h) None_atom (ldt_requestor h) (ldt_time h) S1 else S1)"
  have T: "lorieDataTargetHead T = h # hs" "clip_inv T"
    using clip_fields(1) [OF convert_with_data_more [OF conv]] h clip_inv_convert [OF conv Suc.prems(2,3)]
    by (simp_all add: T_def notify_selection_def)
  then have "clip_inv (T\<lparr>lorieDataTargetHead := hs\<rparr>)" by (auto simp: clip_inv_def dix_ok_def)
  moreover have "lorieHandleClipboardData_loop E d (T\<lparr>lorieDataTargetHead := hs\<rparr>) = Some S'"
    using Suc.prems(1) h conv T(1) clip_fields(1) [OF convert_with_data_more [OF conv]]
    by (subst (asm) lorieHandleClipboardData_loop.simps) (simp add: T_def if_distrib cong: if_cong)
  ultimately show ?case using Suc.hyps(1) [of "T\<lparr>lorieDataTargetHead := hs\<rparr>"] Suc.hyps(2) Suc.prems(3) h by simp
qed

interpretation clip_system: transition_system clip_start clip_step clip_inv
proof
  show "clip_inv S" if "clip_start S" for S
    using that by (simp add: clip_start_def clip_inv_def dix_ok_def)
  show "clip_inv T" if "clip_inv S" "clip_step S T" for S T
    using that(2,1)
  proof cases
    case (send_event E slack c req rc)
    then show ?thesis using \<open>clip_inv S\<close>
      by (auto simp: lorieProcSendEvent_def dest: clip_inv_handle_selection split: if_splits)
  next
    case (data E d)
    then show ?thesis using \<open>clip_inv S\<close> clip_inv_data_loop [of E d "S\<lparr>cachedData := Some d\<rparr>"]
      by (simp add: lorieHandleClipboardData_def)
  qed (auto simp: lorieEnableClipboardSync_def client_closed_def window_destroyed_def
      DeleteClientFromAnySelections_def DeleteWindowFromAnySelections_def
      intro: clip_inv_announce clip_inv_own clip_inv_orphan_loop clip_inv_delete clip_inv_change clip_inv_proc_convert)
qed

lemma convert_total:
  assumes "data = None \<or> lorieUtf8ToLatin1 (the data) \<noteq> None"
  shows "\<exists>rc S'. lorieConvertSelection E c sel t p r tm data S = Some (rc, S')"
proof (cases data)
  case None
  then show ?thesis
    by (simp add: lorieConvertSelection_def dixLookupSelection_def Let_def split: prod.split x_status.split option.split)
next
  case (Some d)
  then show ?thesis using assms convert_with_data_total by simp
qed

section \<open>A sample state\<close>

text \<open>A permissive environment and a server right after initialisation, for the examples below.\<close>

definition sample_env :: dix_env where
  "sample_env = \<lparr>lookup_window = (\<lambda>_ _. Success), ValidAtom = (\<lambda>_. True), sel_access = (\<lambda>_ _ _. Success),
     prop_access = (\<lambda>_ _ _ _. Success), malloc_ok = (\<lambda>_. True), clientGone = (\<lambda>_. False),
     window_optional_ok = (\<lambda>_. True), GetTimeInMillis = 1000,
     server_time = (\<lambda>cur t. \<lparr>months = months cur, milliseconds = t\<rparr>)\<rparr>"

definition sample_clip :: clip where
  "sample_clip = \<lparr>CurrentSelections = [], userProps = (\<lambda>_. []), currentTime = \<lparr>months = 0, milliseconds = 500\<rparr>,
     errorValue = (\<lambda>_. 0), out = [], root = 100, clipboardEnabled = True, cachedData = None,
     lorieDataTargetHead = [], xaTIMESTAMP = 70, xaTEXT = 71, xaCLIPBOARD = 72, xaTARGETS = 73, xaSTRING = 31,
     xaUTF8_STRING = 74, ProcVector_ConvertSelection = DixProc, ProcVector_SendEvent = DixProc,
     origProcConvertSelection = None, origProcSendEvent = None, SelectionCallbacks = 0, to_activity = [],
     sent_events = []\<rparr>"

definition sample_owned :: clip where
  "sample_owned = sample_clip\<lparr>CurrentSelections := [\<lparr>selection = 72,
     lastTimeChanged = \<lparr>months = 0, milliseconds = 400\<rparr>, sel_window = 100, sel_client = Some 0\<rparr>]\<rparr>"

definition sample_request :: "atom \<Rightarrow> xConvertSelectionReq" where
  "sample_request t = \<lparr>conv_len = 6, conv_requestor = 200, conv_selection = 72, conv_target = t,
     conv_property = 90, conv_time = 7\<rparr>"

definition sample_property :: "atom \<Rightarrow> bytes \<Rightarrow> clip" where
  "sample_property a d = sample_clip\<lparr>userProps := (\<lambda>w. if w = 100
     then [\<lparr>propertyName = a, prop_type = a, prop_data = Data8 d\<rparr>] else [])\<rparr>"

lemmas sample_simps = sample_env_def sample_clip_def sample_owned_def sample_request_def sample_property_def
  queued_target_def live_def find_key_def code_point_def utf8_encode_def utf8_enc_def

section \<open>Properties\<close>



text \<open>
  C26. A well-formed conversion request for the selection the server owns is either answered at
  once with exactly one notification, or queued with the activity asked for the text; never
  both and never neither.
\<close>

theorem convert_request_answered_or_queued:
  assumes "live E client" and "conv_len stuff = sz_xConvertSelectionReq div 4"
    and "lookup_window E client (conv_requestor stuff) = Success"
    and "ValidAtom E (conv_selection stuff)" and "ValidAtom E (conv_target stuff)"
    and "conv_property stuff = None_atom \<or> ValidAtom E (conv_property stuff)"
    and "find_key selection (conv_selection stuff) (CurrentSelections S) = Some s"
    and "sel_client s = Some serverClient" and "sel_window s = root S"
    and "sel_access E client (conv_selection stuff) DixReadAccess = Success"
    and "cachedData S = None \<or> lorieUtf8ToLatin1 (the (cachedData S)) \<noteq> None"
  shows "\<exists>S'. lorieProcConvertSelection E client stuff S = Some (Success, S')
    \<and> (answers (out S') = answers (out S) @
           [(client, conv_time stuff, conv_requestor stuff, conv_selection stuff, conv_target stuff)]
         \<and> lorieDataTargetHead S' = lorieDataTargetHead S \<and> to_activity S' = to_activity S
       \<or> answers (out S') = answers (out S)
         \<and> lorieDataTargetHead S' = queued_target client (conv_selection stuff) (conv_target stuff)
              (conv_property stuff) (conv_requestor stuff) (conv_time stuff) # lorieDataTargetHead S
         \<and> to_activity S' = to_activity S @ [RequestClipboard])"
proof -
  let ?S = "S\<lparr>errorValue := (errorValue S)(client := conv_selection stuff)\<rparr>"
  obtain rc T where conv: "lorieConvertSelection E client (conv_selection stuff) (conv_target stuff)
      (conv_property stuff) (conv_requestor stuff) (conv_time stuff) (cachedData S) ?S = Some (rc, T)"
    using convert_total [OF assms(11)] by blast
  have red: "lorieProcConvertSelection E client stuff S = Some (Success, if rc \<noteq> Success
      then notify_selection E client (conv_selection stuff) (conv_target stuff) None_atom
             (conv_requestor stuff) (conv_time stuff) T else T)"
    using assms conv by (auto simp: lorieProcConvertSelection_def dixLookupSelection_def Let_def)
  note ans = answers_notify [OF assms(1)]
  from conv show ?thesis
  proof (cases rule: convert_cases)
    case (error f)
    then show ?thesis unfolding red by (simp add: ans) (simp add: notify_selection_def)
  next
    case (stored f ty v)
    then show ?thesis
      unfolding red using change_and_notify_answers [OF stored assms(1)]
        clip_fields(1,4) [OF change_and_notify_more [OF stored]]
      by (cases "rc = Success") (simp_all add: ans, simp add: notify_selection_def)
  next
    case (queued f)
    then show ?thesis unfolding red by (simp add: lorieRequestClipboard_def)
  qed
qed

theorem convert_request_answered_or_queued_witness:
  "\<exists>S'. lorieProcConvertSelection sample_env 3 (sample_request 74) sample_owned = Some (Success, S')
    \<and> (answers (out S') = answers (out sample_owned) @
           [(3, conv_time (sample_request 74), conv_requestor (sample_request 74),
             conv_selection (sample_request 74), conv_target (sample_request 74))]
         \<and> lorieDataTargetHead S' = lorieDataTargetHead sample_owned \<and> to_activity S' = to_activity sample_owned
       \<or> answers (out S') = answers (out sample_owned)
         \<and> lorieDataTargetHead S' = queued_target 3 (conv_selection (sample_request 74)) (conv_target (sample_request 74))
              (conv_property (sample_request 74)) (conv_requestor (sample_request 74)) (conv_time (sample_request 74))
              # lorieDataTargetHead sample_owned
         \<and> to_activity S' = to_activity sample_owned @ [RequestClipboard])"
  by (rule convert_request_answered_or_queued [where s = "hd (CurrentSelections sample_owned)"])
    (simp_all add: sample_simps sz_xConvertSelectionReq_def)

text \<open>
  When Android announces a new clipboard the cached text is dropped and the server owns the
  CLIPBOARD selection on its root window. The only event sent is a \<^verbatim>\<open>SelectionClear\<close> to a
  live previous owner: the callback that the change of ownership triggers asks nobody for the
  text. Queued requests stay queued.
\<close>

theorem clipboard_announce_owns:
  assumes "sel_access E serverClient (xaCLIPBOARD S) DixSetAttrAccess = Success"
    and "sel_access E serverClient (xaCLIPBOARD S) DixCreateSetAttr = Success"
    and "malloc_ok E selection_rec_size"
  shows "cachedData (lorieHandleClipboardAnnounce E S) = None
    \<and> lorieDataTargetHead (lorieHandleClipboardAnnounce E S) = lorieDataTargetHead S
    \<and> map_option (\<lambda>s. (sel_client s, sel_window s))
        (find_key selection (xaCLIPBOARD S) (CurrentSelections (lorieHandleClipboardAnnounce E S)))
      = Some (Some serverClient, root S)
    \<and> out (lorieHandleClipboardAnnounce E S) = out S @ owner_cleared E (xaCLIPBOARD S) S"
proof -
  obtain rc T where T: "lorieOwnSelection E (xaCLIPBOARD S) (S\<lparr>cachedData := None\<rparr>) = (rc, T)" by fastforce
  have "rc = Success"
    using T assms by (auto simp: lorieOwnSelection_def dixLookupSelection_def Let_def split: option.splits)
  note own = announce_takes_selection [OF T _ this]
  from own assms(1) have "dix.more T = dix.more (S\<lparr>cachedData := None\<rparr>)" by simp
  note f = clip_fields(1,2) [OF this]
  have "owner_cleared E (xaCLIPBOARD S) (S\<lparr>cachedData := None\<rparr>) = owner_cleared E (xaCLIPBOARD S) S"
    by (simp add: owner_cleared_def split: option.split)
  then show ?thesis using own assms(1) T f by (simp add: lorieHandleClipboardAnnounce_def)
qed

theorem clipboard_announce_owns_witness:
  "cachedData (lorieHandleClipboardAnnounce sample_env sample_clip) = None
    \<and> lorieDataTargetHead (lorieHandleClipboardAnnounce sample_env sample_clip) = lorieDataTargetHead sample_clip
    \<and> map_option (\<lambda>s. (sel_client s, sel_window s))
        (find_key selection (xaCLIPBOARD sample_clip) (CurrentSelections (lorieHandleClipboardAnnounce sample_env sample_clip)))
      = Some (Some serverClient, root sample_clip)
    \<and> out (lorieHandleClipboardAnnounce sample_env sample_clip) =
        out sample_clip @ owner_cleared sample_env (xaCLIPBOARD sample_clip) sample_clip"
  by (rule clipboard_announce_owns) (simp_all add: sample_simps)

text \<open>
  C19. In every state the handlers can reach, each selection and each property of a window is
  listed once, and every queued request asks for one of the text targets.
\<close>

theorem clipboard_reachable_inv:
  assumes "clip_start S" and "clip_step\<^sup>*\<^sup>* S T"
  shows "clip_inv T"
  using assms by (rule clip_system.reachable_inv)

theorem clipboard_reachable_inv_witness:
  "clip_inv (lorieHandleClipboardAnnounce sample_env sample_clip)"
proof (rule clipboard_reachable_inv)
  show "clip_start sample_clip" by (simp add: clip_start_def sample_clip_def)
  show "clip_step\<^sup>*\<^sup>* sample_clip (lorieHandleClipboardAnnounce sample_env sample_clip)"
    by (intro r_into_rtranclp clip_step.announce) (simp add: xace_ok_def sample_env_def)
qed

text \<open>
  A text an X11 client offers as \<^verbatim>\<open>STRING\<close> reaches the activity as UTF-8, without carriage
  returns and up to its first NUL, with every buffer large enough.
\<close>

theorem selection_text_sent:
  assumes "find_key propertyName target (userProps S (root S)) = Some q"
    and "prop_access E serverClient (root S) target DixReadAccess = Success"
    and "prop_data q = Data8 data" and "prop_type q = target" and "target = xaSTRING S"
  shows "map_option (to_activity) (lorieHandleSelection E slack target S) =
    Some (to_activity S @ [SendClipboardData (utf8_encode (map unat (c_string (filter (\<lambda>c. c \<noteq> 13) data))))])"
proof -
  let ?t = "filter (\<lambda>c. c \<noteq> 13) data"
  have "length ?t \<le> length data" by simp
  then obtain utf8 where "lorieLatin1ToUTF8 (replicate ((length data + 1) * 2) 0)
        (?t @ replicate (length data + 1 - length ?t) 0) = Some utf8"
      "c_string utf8 = utf8_encode (map unat (c_string ?t))"
    using sent_text [of ?t "length data"] by (auto simp: bind_eq_Some_conv)
  then show ?thesis
    using assms converted_text [of data slack]
    by (simp add: lorieHandleSelection_def dixLookupProperty_def Let_def lorieSendClipboardData_def)
qed

theorem selection_text_sent_witness:
  "map_option to_activity (lorieHandleSelection sample_env [] 31 (sample_property 31 [72, 233, 13, 10])) =
    Some (to_activity (sample_property 31 [72, 233, 13, 10]) @
      [SendClipboardData (utf8_encode (map unat (c_string (filter (\<lambda>c. c \<noteq> 13) [72 :: u8, 233, 13, 10]))))])"
  by (rule selection_text_sent [where q = "\<lparr>propertyName = 31, prop_type = 31, prop_data = Data8 [72, 233, 13, 10]\<rparr>"])
    (simp_all add: sample_simps)

text \<open>
  A well-shaped text offered as \<^verbatim>\<open>UTF8_STRING\<close> reaches the activity unchanged but for its
  carriage returns, provided at least one byte of the allocation follows it.
\<close>

theorem selection_utf8_sent:
  assumes "find_key propertyName target (userProps S (root S)) = Some q"
    and "prop_access E serverClient (root S) target DixReadAccess = Success"
    and "prop_data q = Data8 data" and "prop_type q = target" and "target = xaUTF8_STRING S"
    and "target \<noteq> xaSTRING S"
    and "0 \<notin> set data" and "utf8_shape data" and "slack \<noteq> []"
  shows "map_option (to_activity) (lorieHandleSelection E slack target S) =
    Some (to_activity S @ [SendClipboardData (filter (\<lambda>c. c \<noteq> 13) data)])"
proof -
  let ?t = "filter (\<lambda>c. c \<noteq> 13) data"
  have l: "length ?t \<le> length data" by simp
  have "c_string ?t = ?t" using assms(7) by (auto simp: c_string_def takeWhile_eq_all_conv)
  moreover obtain post where "?t @ replicate (length data + 1 - length ?t) 0 = c_string ?t @ 0 # post"
    using text_then_nul [OF l] by blast
  moreover have "0 \<notin> set ?t" using assms(7) by simp
  ultimately have "c_string (?t @ replicate (length data + 1 - length ?t) 0) = ?t"
    by (simp add: c_string_terminated)
  then show ?thesis
    using assms converted_text [of data slack] lorieCheckUTF8_slack [OF assms(7-9)]
    by (simp add: lorieHandleSelection_def dixLookupProperty_def Let_def lorieSendClipboardData_def lorieCheckUTF8_def)
qed

theorem selection_utf8_sent_witness:
  "map_option to_activity (lorieHandleSelection sample_env [7] 74 (sample_property 74 [72, 13, 10])) =
    Some (to_activity (sample_property 74 [72, 13, 10]) @
      [SendClipboardData (filter (\<lambda>c. c \<noteq> 13) [72, 13, 10])])"
  by (rule selection_utf8_sent [where q = "\<lparr>propertyName = 74, prop_type = 74, prop_data = Data8 [72, 13, 10]\<rparr>"])
    (simp_all add: sample_simps)

text \<open>
  A successful conversion to \<^verbatim>\<open>STRING\<close> or \<^verbatim>\<open>TEXT\<close> stores the Latin-1 form of the text Android
  sent under the requested property of the requestor.
\<close>

theorem convert_delivers_latin1:
  assumes "lorieConvertSelection E c sel t p r tm (Some (utf8_encode ns @ [0])) S = Some (Success, S')"
    and "t = xaSTRING S \<or> t = xaTEXT S" and "t \<noteq> xaTARGETS S" and "t \<noteq> xaTIMESTAMP S" and "p \<noteq> None_atom"
    and "\<forall>n\<in>set ns. code_point n \<and> 0 < n" and "length (utf8_encode ns) < 2 ^ 32"
  shows "find_key propertyName p (userProps S' r) =
    Some \<lparr>propertyName = p, prop_type = XA_STRING, prop_data = Data8 (map latin1_of ns)\<rparr>"
  using convert_stores_latin1 [OF assms(1-4)] lorieUtf8ToLatin1_encoded [OF assms(6,7), of "[]"] assms(5) by simp

theorem convert_delivers_latin1_witness:
  "find_key propertyName 90 (userProps (snd (the (lorieConvertSelection sample_env 3 72 31 90 200 7
      (Some (utf8_encode [72, 233] @ [0])) sample_owned))) 200) =
    Some \<lparr>propertyName = 90, prop_type = XA_STRING, prop_data = Data8 (map latin1_of [72, 233])\<rparr>"
proof (rule convert_delivers_latin1)
  have l: "lorieUtf8ToLatin1 (utf8_encode [72, 233] @ [0]) = Some (map latin1_of [72, 233])"
    by (rule lorieUtf8ToLatin1_encoded) (simp_all add: sample_simps)
  then show "lorieConvertSelection sample_env 3 72 31 90 200 7 (Some (utf8_encode [72, 233] @ [0])) sample_owned =
      Some (Success, snd (the (lorieConvertSelection sample_env 3 72 31 90 200 7
        (Some (utf8_encode [72, 233] @ [0])) sample_owned)))"
    unfolding lorieConvertSelection_def
    by (simp add: l dixLookupSelection_def change_and_notify_def dixChangeWindowProperty_def dixLookupProperty_def
        Let_def sample_env_def sample_owned_def sample_clip_def find_key_def)
qed (simp_all add: sample_simps None_atom_def)

text \<open>
  A requestor that leaves the property to the owner (the obsolete \<^verbatim>\<open>None\<close>) gets the data
  stored under the target atom, yet the notification says \<^verbatim>\<open>None\<close>, which means refused.
\<close>

theorem convert_none_property_looks_refused:
  assumes "lorieConvertSelection E c sel t None_atom r tm (Some mem) S = Some (Success, S')"
    and "t = xaUTF8_STRING S" and "t \<notin> {xaTARGETS S, xaTIMESTAMP S, xaSTRING S, xaTEXT S}" and "live E c"
  shows "find_key propertyName t (userProps S' r) =
      Some \<lparr>propertyName = t, prop_type = t, prop_data = Data8 (c_string mem)\<rparr>
    \<and> last (out S') = ToClient c (SelectionNotify tm r sel t None_atom)"
proof
  show "find_key propertyName t (userProps S' r) =
      Some \<lparr>propertyName = t, prop_type = t, prop_data = Data8 (c_string mem)\<rparr>"
    using convert_stores_utf8 [OF assms(1,2)] assms(2,3) by simp
  from assms(1) show "last (out S') = ToClient c (SelectionNotify tm r sel t None_atom)"
    by (cases rule: convert_cases)
      (use assms(4) in \<open>auto simp: change_and_notify_def notify_selection_def WriteEventsToClient_def live_def
         split: prod.splits x_status.splits\<close>)
qed

theorem convert_none_property_looks_refused_witness:
  "find_key propertyName 74 (userProps (snd (the (lorieConvertSelection sample_env 3 72 74 None_atom 200 7
      (Some [72, 0]) sample_owned))) 200) = Some \<lparr>propertyName = 74, prop_type = 74, prop_data = Data8 (c_string [72, 0])\<rparr>
    \<and> last (out (snd (the (lorieConvertSelection sample_env 3 72 74 None_atom 200 7 (Some [72, 0]) sample_owned)))) =
      ToClient 3 (SelectionNotify 7 200 72 74 None_atom)"
proof (rule convert_none_property_looks_refused)
  show "lorieConvertSelection sample_env 3 72 74 None_atom 200 7 (Some [72, 0]) sample_owned =
      Some (Success, snd (the (lorieConvertSelection sample_env 3 72 74 None_atom 200 7 (Some [72, 0]) sample_owned)))"
    unfolding lorieConvertSelection_def
    by (simp add: dixLookupSelection_def change_and_notify_def dixChangeWindowProperty_def dixLookupProperty_def
        Let_def sample_env_def sample_owned_def sample_clip_def find_key_def)
qed (simp_all add: sample_simps)

end
