(* ===== verification/Lorie_Shmem.thy ===== *)
theory Lorie_Shmem
  imports Lorie_Prelude "HOL-Library.Signed_Division" "HOL-Library.Multiset"
begin

text \<open>
  System V shared memory on top of ashmem, \<^verbatim>\<open>lorie/shm/shmem.c\<close>: the table of segments of a
  process, the encoding of a segment id, and \<^verbatim>\<open>shmget\<close>, \<^verbatim>\<open>shmat\<close>, \<^verbatim>\<open>shmdt\<close>, \<^verbatim>\<open>shmctl\<close>. Every
  operation runs under one mutex, so an operation is one step. Kernel answers are an
  environment record, one per call.
\<close>

section \<open>State\<close>

record shmem_t =
  seg_id :: int
  seg_addr :: nat
  descriptor :: int
  seg_size :: u64
  markedForDeletion :: bool
  seg_key :: int

record shm =
  shmem :: "shmem_t list"
  syscall_supported :: bool
  ashv_local_socket_id :: int
  ashv_pid_setup :: int
  ashv_listening_thread :: bool
  shmem_counter :: u64
  symlinks :: "int \<Rightarrow> int option"
  fds :: "int list"
  maps :: "(nat \<times> u64) list"
  errno :: int

text \<open>The outcome of one attempt to create the symbolic link of a key: done, another process made
  it first, or refused.\<close>

datatype symlink_outcome = Created | TakenBy int | Refused

record shm_env =
  getpid :: int
  getpagesize :: u64
  kernel_shmget :: int
  kernel_shmat :: nat
  kernel_shmdt :: int
  kernel_shmctl :: int
  socket_ret :: int
  bind_ok :: "nat \<Rightarrow> bool"
  listen_ret :: int
  ashmem_open :: int
  ashmem_set_name :: int
  ashmem_set_size :: int
  mmap_addr :: nat
  remote_key :: "int \<Rightarrow> int option"
  remote_descriptor :: "int \<Rightarrow> int"
  region_size :: "int \<Rightarrow> int"
  symlink_outcome :: "nat \<Rightarrow> symlink_outcome"
  euid :: int
  egid :: int

definition MAP_FAILED_addr :: nat where
  "MAP_FAILED_addr = 2 ^ 64 - 1"

definition EINVAL :: int where "EINVAL = 22"
definition ENOMEM :: int where "ENOMEM = 12"
definition IPC_PRIVATE :: int where "IPC_PRIVATE = 0"
definition IPC_RMID :: int where "IPC_RMID = 0"
definition IPC_STAT :: int where "IPC_STAT = 2"

text \<open>Conversion of an arithmetic result to \<^verbatim>\<open>int\<close>.\<close>

definition to_int32 :: "int \<Rightarrow> int" where
  "to_int32 x = signed_take_bit 31 x"

definition android_shmem_sysv_shm_force :: "u8 \<Rightarrow> shm \<Rightarrow> shm" where
  "android_shmem_sysv_shm_force enable S = S\<lparr>syscall_supported := (enable \<noteq> 0)\<rparr>"

section \<open>Fork detection\<close>

definition ashv_check_pid :: "shm_env \<Rightarrow> shm \<Rightarrow> shm" where
  "ashv_check_pid E S =
     (if ashv_pid_setup S = 0 then S\<lparr>ashv_pid_setup := getpid E\<rparr>
      else if ashv_pid_setup S \<noteq> getpid E
      then S\<lparr>ashv_pid_setup := getpid E, ashv_local_socket_id := 0, ashv_listening_thread := False, shmem := []\<rparr>
      else S)"

section \<open>Segment ids\<close>

definition ashv_shmid_from_counter :: "int \<Rightarrow> u64 \<Rightarrow> int" where
  "ashv_shmid_from_counter socket_id counter = to_int32 (socket_id * 0x10000 + uint counter)"

definition ashv_socket_id_from_shmid :: "int \<Rightarrow> int" where
  "ashv_socket_id_from_shmid shmid = shmid sdiv 0x10000"

fun ashv_find_from :: "int \<Rightarrow> shmem_t list \<Rightarrow> nat \<Rightarrow> nat option" where
  "ashv_find_from shmid [] i = None"
| "ashv_find_from shmid (s # ss) i = (if seg_id s = shmid then Some i else ashv_find_from shmid ss (Suc i))"

definition ashv_find_local_index :: "int \<Rightarrow> shm \<Rightarrow> nat option" where
  "ashv_find_local_index shmid S = ashv_find_from shmid (shmem S) 0"

text \<open>One request to the listening thread: the key and descriptor it answers with.\<close>

definition ashv_thread_serve :: "int option \<Rightarrow> shm \<Rightarrow> (int \<times> int) option" where
  "ashv_thread_serve received S =
     (case received of
        None \<Rightarrow> None
      | Some shmid \<Rightarrow> map_option (\<lambda>i. (seg_key (shmem S ! i), descriptor (shmem S ! i))) (ashv_find_local_index shmid S))"

section \<open>Segments\<close>

definition close_descriptor :: "int \<Rightarrow> shm \<Rightarrow> shm" where
  "close_descriptor fd S = S\<lparr>fds := remove1 fd (fds S)\<rparr>"

definition android_shmem_delete :: "nat \<Rightarrow> shm \<Rightarrow> shm" where
  "android_shmem_delete idx S =
     (let S1 = (if descriptor (shmem S ! idx) \<noteq> 0 then close_descriptor (descriptor (shmem S ! idx)) S else S)
      in S1\<lparr>shmem := take idx (shmem S1) @ drop (Suc idx) (shmem S1)\<rparr>)"

definition ashmem_create_region :: "shm_env \<Rightarrow> shm \<Rightarrow> int \<times> shm" where
  "ashmem_create_region E S =
     (if ashmem_open E < 0 then (ashmem_open E, S)
      else
        let S1 = S\<lparr>fds := ashmem_open E # fds S\<rparr> in
        if ashmem_set_name E < 0 then (ashmem_set_name E, close_descriptor (ashmem_open E) S1)
        else if ashmem_set_size E < 0 then (ashmem_set_size E, close_descriptor (ashmem_open E) S1)
        else (ashmem_open E, S1))"

definition ashv_read_remote_segment :: "shm_env \<Rightarrow> int \<Rightarrow> shm \<Rightarrow> nat option \<times> shm" where
  "ashv_read_remote_segment E shmid S =
     (case remote_key E shmid of
        None \<Rightarrow> (None, S)
      | Some key \<Rightarrow>
          let d = remote_descriptor E shmid in
          if d < 0 then (None, S)
          else
            let S1 = S\<lparr>fds := d # fds S\<rparr>; sz = region_size E d in
            if sz = 0 \<or> sz = - 1 then (None, S1)
            else (Some (length (shmem S1)), S1\<lparr>shmem := shmem S1 @
                   [\<lparr>seg_id = shmid, seg_addr = 0, descriptor = d, seg_size = word_of_int sz,
                     markedForDeletion = False, seg_key = key\<rparr>]\<rparr>))"

definition ROUND_UP :: "u64 \<Rightarrow> u64 \<Rightarrow> u64" where
  "ROUND_UP n s = (n + s - 1) div s * s"

section \<open>shmget\<close>

text \<open>Binding the local socket: at most 4096 addresses are tried, starting at the process id.\<close>

fun bind_socket :: "shm_env \<Rightarrow> nat \<Rightarrow> nat \<Rightarrow> int option" where
  "bind_socket E 0 i = None"
| "bind_socket E (Suc n) i =
     (if bind_ok E i then Some ((getpid E + int i) mod 0x10000) else bind_socket E n (Suc i))"

definition start_listening :: "shm_env \<Rightarrow> shm \<Rightarrow> bool \<times> shm" where
  "start_listening E S =
     (if ashv_listening_thread S then (True, S)
      else if socket_ret E = 0 then (False, S\<lparr>errno := EINVAL\<rparr>)
      else case bind_socket E 4096 0 of
        None \<Rightarrow> (False, S\<lparr>ashv_local_socket_id := 0, errno := ENOMEM\<rparr>)
      | Some sid \<Rightarrow>
          if listen_ret E \<noteq> 0 then (False, S\<lparr>ashv_local_socket_id := sid, errno := ENOMEM\<rparr>)
          else (True, S\<lparr>ashv_local_socket_id := sid, ashv_listening_thread := True\<rparr>))"

definition next_shmid :: "shm \<Rightarrow> int \<times> shm" where
  "next_shmid S =
     (let c = (shmem_counter S + 1) AND 0x7fff
      in (ashv_shmid_from_counter (ashv_local_socket_id S) c, S\<lparr>shmem_counter := c\<rparr>))"

text \<open>One round of the loop over the symbolic link of a key. It follows an existing link
  (\<open>Inl (Inl idx)\<close>), claims the key under a new id (\<open>Inl (Inr shmid)\<close>), or has to try again; \<open>n\<close>
  counts the attempts to create the link.\<close>

definition follow_link :: "shm_env \<Rightarrow> int \<Rightarrow> shm \<Rightarrow> nat option \<times> shm" where
  "follow_link E key S =
     (case symlinks S key of
        None \<Rightarrow> (None, S)
      | Some v \<Rightarrow>
          (case (if v = 0 then (None, S)
                 else case ashv_find_local_index v S of
                   Some i \<Rightarrow> (Some i, S)
                 | None \<Rightarrow> ashv_read_remote_segment E v S) of
             (Some i, S1) \<Rightarrow> (Some i, S1)
           | (None, S1) \<Rightarrow> (None, S1\<lparr>symlinks := (symlinks S1)(key := None)\<rparr>)))"

definition claim_round ::
  "shm_env \<Rightarrow> int \<Rightarrow> nat \<Rightarrow> int option \<Rightarrow> shm \<Rightarrow> ((nat + int) \<times> shm) + (int \<times> shm)" where
  "claim_round E key n shmid S =
     (case follow_link E key S of
        (Some i, S1) \<Rightarrow> Inl (Inl i, S1)
      | (None, S1) \<Rightarrow>
          (case (case shmid of Some sid \<Rightarrow> (sid, S1) | None \<Rightarrow> next_shmid S1) of
             (sid, S2) \<Rightarrow>
               (case symlink_outcome E n of
                  Created \<Rightarrow> Inl (Inr sid, S2\<lparr>symlinks := (symlinks S2)(key := Some sid)\<rparr>)
                | TakenBy v \<Rightarrow> Inr (sid, S2\<lparr>symlinks := (symlinks S2)(key := Some v)\<rparr>)
                | Refused \<Rightarrow> Inr (sid, S2))))"

text \<open>The loop itself; \<open>None\<close> is a loop that never ends.\<close>

partial_function (option) claim_key ::
  "shm_env \<Rightarrow> int \<Rightarrow> nat \<Rightarrow> int option \<Rightarrow> shm \<Rightarrow> ((nat + int) \<times> shm) option" where
  "claim_key E key n shmid S =
     (case claim_round E key n shmid S of
        Inl r \<Rightarrow> Some r
      | Inr (sid, S1) \<Rightarrow> claim_key E key (Suc n) (Some sid) S1)"

definition new_segment :: "shm_env \<Rightarrow> int \<Rightarrow> u64 \<Rightarrow> int \<Rightarrow> shm \<Rightarrow> int \<times> shm" where
  "new_segment E key sz shmid S =
     (case ashmem_create_region E S of (d, S1) \<Rightarrow>
        if d < 0 then (- 1, S1)
        else (shmid, S1\<lparr>shmem := shmem S1 @ [\<lparr>seg_id = shmid, seg_addr = 0, descriptor = d,
                seg_size = ROUND_UP sz (getpagesize E), markedForDeletion = False, seg_key = key\<rparr>]\<rparr>))"

definition shmget :: "shm_env \<Rightarrow> int \<Rightarrow> u64 \<Rightarrow> shm \<Rightarrow> (int \<times> shm) option" where
  "shmget E key sz S0 =
     (if syscall_supported S0 then Some (kernel_shmget E, S0)
      else
        case start_listening E (ashv_check_pid E S0) of
          (False, S) \<Rightarrow> Some (- 1, S)
        | (True, S) \<Rightarrow>
            if key = IPC_PRIVATE then (case next_shmid S of (sid, S1) \<Rightarrow> Some (new_segment E key sz sid S1))
            else case claim_key E key 0 None S of
              None \<Rightarrow> None
            | Some (Inl i, S1) \<Rightarrow> Some (seg_id (shmem S1 ! i), S1)
            | Some (Inr sid, S1) \<Rightarrow> Some (new_segment E key sz sid S1))"

section \<open>shmat, shmdt, shmctl\<close>

definition update_seg :: "nat \<Rightarrow> (shmem_t \<Rightarrow> shmem_t) \<Rightarrow> shm \<Rightarrow> shm" where
  "update_seg i f S = S\<lparr>shmem := (shmem S)[i := f (shmem S ! i)]\<rparr>"

definition map_segment :: "shm_env \<Rightarrow> nat \<Rightarrow> shm \<Rightarrow> nat \<times> shm" where
  "map_segment E i S =
     (if seg_addr (shmem S ! i) \<noteq> 0 then (seg_addr (shmem S ! i), S)
      else if mmap_addr E = MAP_FAILED_addr then (MAP_FAILED_addr, S)
      else (mmap_addr E, (update_seg i (\<lambda>s. s\<lparr>seg_addr := mmap_addr E\<rparr>) S)
              \<lparr>maps := (mmap_addr E, seg_size (shmem S ! i)) # maps S\<rparr>))"

definition shmat :: "shm_env \<Rightarrow> int \<Rightarrow> shm \<Rightarrow> nat \<times> shm" where
  "shmat E shmid S0 =
     (if syscall_supported S0 then (kernel_shmat E, S0)
      else
        let S = ashv_check_pid E S0;
            (idx, S1) =
              (case ashv_find_local_index shmid S of
                 Some i \<Rightarrow> (Some i, S)
               | None \<Rightarrow> if ashv_socket_id_from_shmid shmid \<noteq> ashv_local_socket_id S
                         then ashv_read_remote_segment E shmid S else (None, S))
        in case idx of
             None \<Rightarrow> (MAP_FAILED_addr, S1\<lparr>errno := EINVAL\<rparr>)
           | Some i \<Rightarrow> map_segment E i S1)"

fun find_addr :: "nat \<Rightarrow> shmem_t list \<Rightarrow> nat \<Rightarrow> nat option" where
  "find_addr a [] i = None"
| "find_addr a (s # ss) i = (if seg_addr s = a then Some i else find_addr a ss (Suc i))"

definition shmdt :: "shm_env \<Rightarrow> nat \<Rightarrow> shm \<Rightarrow> int \<times> shm" where
  "shmdt E shmaddr S0 =
     (if syscall_supported S0 then (kernel_shmdt E, S0)
      else
        let S = ashv_check_pid E S0 in
        case find_addr shmaddr (shmem S) 0 of
          None \<Rightarrow> (0, S)
        | Some i \<Rightarrow>
            let s = shmem S ! i;
                S1 = (update_seg i (\<lambda>s. s\<lparr>seg_addr := 0\<rparr>) S)\<lparr>maps := remove1 (seg_addr s, seg_size s) (maps S)\<rparr>
            in (0, if markedForDeletion s \<or> ashv_socket_id_from_shmid (seg_id s) \<noteq> ashv_local_socket_id S
                   then android_shmem_delete i S1 else S1))"

record shmid_ds =
  shm_segsz :: u64
  shm_nattch :: nat
  perm_key :: int
  perm_uid :: int
  perm_gid :: int
  perm_mode :: nat
  perm_seq :: nat

definition shmctl :: "shm_env \<Rightarrow> int \<Rightarrow> int \<Rightarrow> bool \<Rightarrow> shm \<Rightarrow> int \<times> shmid_ds option \<times> shm" where
  "shmctl E shmid cmd buf S0 =
     (if syscall_supported S0 then (kernel_shmctl E, None, S0)
      else
        let S = ashv_check_pid E S0 in
        if cmd = IPC_RMID then
          (case ashv_find_local_index shmid S of
             None \<Rightarrow> (0, None, S)
           | Some i \<Rightarrow>
               (0, None, if seg_addr (shmem S ! i) \<noteq> 0
                         then update_seg i (\<lambda>s. s\<lparr>markedForDeletion := True\<rparr>) S
                         else android_shmem_delete i S))
        else if cmd = IPC_STAT then
          (if \<not> buf then (- 1, None, S\<lparr>errno := EINVAL\<rparr>)
           else case ashv_find_local_index shmid S of
             None \<Rightarrow> (- 1, None, S\<lparr>errno := EINVAL\<rparr>)
           | Some i \<Rightarrow> (0, Some \<lparr>shm_segsz = seg_size (shmem S ! i), shm_nattch = 1, perm_key = seg_key (shmem S ! i),
               perm_uid = euid E, perm_gid = egid E, perm_mode = 438, perm_seq = 1\<rparr>, S))
        else (- 1, None, S\<lparr>errno := EINVAL\<rparr>))"

section \<open>Lemmas: ids\<close>

lemma to_int32_mod: "to_int32 x = (x + 2 ^ 31) mod 2 ^ 32 - 2 ^ 31"
  by (simp add: to_int32_def signed_take_bit_eq_take_bit_shift take_bit_eq_mod)

lemma to_int32_small: "- 2147483648 \<le> x \<Longrightarrow> x < 2147483648 \<Longrightarrow> to_int32 x = x"
  by (simp add: to_int32_mod)

lemma to_int32_wrapped: "2147483648 \<le> x \<Longrightarrow> x < 4294967296 \<Longrightarrow> to_int32 x = x - 2 ^ 32"
proof -
  assume x: "2147483648 \<le> x" "x < 4294967296"
  have "(x + 2 ^ 31) mod 2 ^ 32 = (x - 2 ^ 31) mod 2 ^ 32"
    using mod_add_self2 [of "x - 2 ^ 31" "2 ^ 32 :: int"] by (simp add: add.commute)
  also have "\<dots> = x - 2 ^ 31" using x by simp
  finally show ?thesis by (simp add: to_int32_mod)
qed

section \<open>Lemmas: the segment table\<close>

lemma find_from_Some:
  "ashv_find_from shmid ss i = Some k \<Longrightarrow> i \<le> k \<and> k - i < length ss \<and> seg_id (ss ! (k - i)) = shmid"
proof (induction ss arbitrary: i)
  case (Cons s ss)
  then show ?case by (cases "seg_id s = shmid") (fastforce simp: Suc_diff_le nth_Cons')+
qed simp

lemma find_addr_Some:
  "find_addr a ss i = Some k \<Longrightarrow> i \<le> k \<and> k - i < length ss \<and> seg_addr (ss ! (k - i)) = a"
proof (induction ss arbitrary: i)
  case (Cons s ss)
  then show ?case by (cases "seg_addr s = a") (fastforce simp: Suc_diff_le nth_Cons')+
qed simp

lemma find_local_Some: "ashv_find_local_index shmid S = Some i \<Longrightarrow> i < length (shmem S) \<and> seg_id (shmem S ! i) = shmid"
  using find_from_Some [of shmid "shmem S" 0 i] by (simp add: ashv_find_local_index_def)

definition descs :: "shmem_t multiset \<Rightarrow> int multiset" where
  "descs M = image_mset descriptor M"

definition attached :: "shmem_t multiset \<Rightarrow> (nat \<times> u64) multiset" where
  "attached M = image_mset (\<lambda>s. (seg_addr s, seg_size s)) (filter_mset (\<lambda>s. seg_addr s \<noteq> 0) M)"

definition seg_ok :: "shmem_t \<Rightarrow> bool" where
  "seg_ok s \<longleftrightarrow> 0 < descriptor s \<and> (markedForDeletion s \<longrightarrow> seg_addr s \<noteq> 0)"

definition shm_inv :: "shm \<Rightarrow> bool" where
  "shm_inv S \<longleftrightarrow> descs (mset (shmem S)) \<subseteq># mset (fds S) \<and> attached (mset (shmem S)) \<subseteq># mset (maps S)
     \<and> (\<forall>s\<in>set (shmem S). seg_ok s)"

lemma mset_drop_nth: "i < length xs \<Longrightarrow> mset (take i xs @ drop (Suc i) xs) = mset xs - {#xs ! i#}"
proof -
  assume "i < length xs"
  then have "xs = take i xs @ xs ! i # drop (Suc i) xs" by (simp add: id_take_nth_drop)
  then have "mset xs = add_mset (xs ! i) (mset (take i xs @ drop (Suc i) xs))"
    by (metis mset.simps(2) mset_append union_mset_add_mset_right)
  then show ?thesis by simp
qed

lemma set_drop_nth: "set (take i xs @ drop (Suc i) xs) \<subseteq> set xs"
  by (auto dest: in_set_takeD in_set_dropD)

text \<open>Removing a segment from the table and its descriptor from the open ones, together.\<close>

lemma delete_inv:
  assumes "shm_inv S" and "i < length (shmem S)" and "seg_addr (shmem S ! i) = 0"
  shows "shm_inv (android_shmem_delete i S)"
proof -
  let ?s = "shmem S ! i" and ?M = "mset (shmem S)"
  have s: "?s \<in># ?M" "seg_ok ?s" using assms by (auto simp: shm_inv_def)
  then have d: "descriptor ?s \<noteq> 0" by (simp add: seg_ok_def)
  have "descs (?M - {#?s#}) = descs ?M - {#descriptor ?s#}"
    using s(1) by (simp add: descs_def image_mset_Diff)
  moreover have "descs ?M - {#descriptor ?s#} \<subseteq># mset (fds S) - {#descriptor ?s#}"
  proof -
    have "descriptor ?s \<in># descs ?M" using s(1) by (simp add: descs_def)
    moreover have le: "descs ?M \<subseteq># mset (fds S)" using assms(1) by (simp add: shm_inv_def)
    ultimately have "descriptor ?s \<in># mset (fds S)" by (rule mset_subset_eqD [rotated])
    then show ?thesis using le by (simp add: subset_eq_diff_conv)
  qed
  moreover have "attached (?M - {#?s#}) = attached ?M"
    using assms(3) by (simp add: attached_def filter_diff_mset)
  ultimately show ?thesis
    using assms d mset_drop_nth [OF assms(2)] set_drop_nth [of i "shmem S"]
    by (auto simp: shm_inv_def android_shmem_delete_def close_descriptor_def Let_def)
qed

lemma shmid_decode:
  assumes "0 \<le> sid" and "sid < 0x8000" and "uint c \<le> 0x7fff"
  shows "ashv_socket_id_from_shmid (ashv_shmid_from_counter sid c) = sid
    \<and> ashv_shmid_from_counter sid c mod 0x10000 = uint c"
proof -
  have "ashv_shmid_from_counter sid c = sid * 0x10000 + uint c"
    unfolding ashv_shmid_from_counter_def
    by (rule to_int32_small) (use assms uint_nonnegative [of c] in linarith)+
  moreover have "sid = 0 \<or> 0 < sid * 0x10000 + uint c" using assms uint_nonnegative [of c] by linarith
  ultimately show ?thesis using assms by (auto simp: ashv_socket_id_from_shmid_def signed_divide_int_def sgn_if)
qed

lemma shmid_high_socket:
  assumes "0x8000 \<le> sid" and "sid \<le> 0xffff" and "uint c \<le> 0x7fff"
  shows "ashv_socket_id_from_shmid (ashv_shmid_from_counter sid c) \<le> 0"
proof -
  have x: "ashv_shmid_from_counter sid c = sid * 0x10000 + uint c - 2 ^ 32"
    unfolding ashv_shmid_from_counter_def
    by (rule to_int32_wrapped) (use assms uint_nonnegative [of c] in linarith)+
  then have "ashv_shmid_from_counter sid c < 0" using assms by simp
  then show ?thesis
    by (simp add: ashv_socket_id_from_shmid_def signed_divide_int_def sgn_if pos_imp_zdiv_nonneg_iff)
qed

lemma check_pid_inv: "shm_inv S \<Longrightarrow> shm_inv (ashv_check_pid E S)"
  by (simp add: ashv_check_pid_def shm_inv_def descs_def attached_def)

lemma update_seg_inv:
  assumes "shm_inv S" and "i < length (shmem S)"
    and "descriptor (f (shmem S ! i)) = descriptor (shmem S ! i)" and "seg_ok (f (shmem S ! i))"
    and "attached {#f (shmem S ! i)#} + (attached (mset (shmem S)) - attached {#shmem S ! i#}) \<subseteq># mset ms"
  shows "shm_inv ((update_seg i f S)\<lparr>maps := ms\<rparr>)"
proof -
  let ?s = "shmem S ! i" and ?M = "mset (shmem S)"
  have s: "?s \<in># ?M" using assms(2) by simp
  have upd: "mset ((shmem S)[i := f ?s]) = add_mset (f ?s) (?M - {#?s#})" using assms(2) by (rule mset_update)
  have "descs (add_mset (f ?s) (?M - {#?s#})) = descs ?M"
    using s assms(3) by (simp add: descs_def image_mset_Diff)
  moreover have "attached (add_mset (f ?s) (?M - {#?s#})) = attached {#f ?s#} + (attached ?M - attached {#?s#})"
    using s by (simp add: attached_def filter_diff_mset image_mset_Diff)
  moreover have "set ((shmem S)[i := f ?s]) \<subseteq> insert (f ?s) (set (shmem S))" by (rule set_update_subset_insert)
  ultimately show ?thesis using assms upd by (auto simp: shm_inv_def update_seg_def)
qed

lemma append_seg_inv:
  assumes "shm_inv S" and "0 < d"
  shows "shm_inv (S\<lparr>fds := d # fds S, shmem := shmem S @ [\<lparr>seg_id = i, seg_addr = 0, descriptor = d,
    seg_size = z, markedForDeletion = False, seg_key = k\<rparr>]\<rparr>)"
  using assms by (auto simp: shm_inv_def descs_def attached_def seg_ok_def)

lemma shm_inv_simps [simp]:
  "shm_inv (S\<lparr>errno := e\<rparr>) = shm_inv S" "shm_inv (S\<lparr>shmem_counter := c\<rparr>) = shm_inv S"
  "shm_inv (S\<lparr>symlinks := l\<rparr>) = shm_inv S" "shm_inv (S\<lparr>ashv_local_socket_id := d\<rparr>) = shm_inv S"
  "shm_inv (S\<lparr>ashv_listening_thread := b\<rparr>) = shm_inv S" "shm_inv (S\<lparr>syscall_supported := b\<rparr>) = shm_inv S"
  by (simp_all add: shm_inv_def)

lemma gain_fd_inv: "shm_inv S \<Longrightarrow> shm_inv (S\<lparr>fds := d # fds S\<rparr>)"
  by (auto simp: shm_inv_def intro: subset_mset.order_trans)

text \<open>Descriptor 0 is standard input and address 0 is never mapped.\<close>

definition env_ok :: "shm_env \<Rightarrow> bool" where
  "env_ok E \<longleftrightarrow> ashmem_open E \<noteq> 0 \<and> (\<forall>i. remote_descriptor E i \<noteq> 0) \<and> mmap_addr E \<noteq> 0"

lemma read_remote_inv:
  assumes "ashv_read_remote_segment E shmid S = (r, S')" and "shm_inv S" and "env_ok E"
  shows "shm_inv S' \<and> (\<forall>i. r = Some i \<longrightarrow> i < length (shmem S'))"
proof -
  have "0 < remote_descriptor E shmid" if "\<not> remote_descriptor E shmid < 0"
    using that assms(3) by (metis env_ok_def linorder_neqE_linordered_idom)
  then show ?thesis
    using assms
    by (auto simp: append_seg_inv ashv_read_remote_segment_def Let_def gain_fd_inv split: option.splits if_splits)
qed

lemma create_region_inv:
  assumes "new_segment E key sz sid S = (r, S')" and "shm_inv S" and "env_ok E"
  shows "shm_inv S'"
proof -
  have "0 < ashmem_open E" if "\<not> ashmem_open E < 0"
    using that assms(3) by (auto simp: env_ok_def)
  moreover have "shm_inv (close_descriptor d (S\<lparr>fds := d # fds S\<rparr>))" for d
    using assms(2) by (simp add: close_descriptor_def)
  ultimately show ?thesis
    using assms
    by (auto simp: append_seg_inv new_segment_def ashmem_create_region_def Let_def split: if_splits)
qed

lemma start_listening_inv: "start_listening E S = (b, S') \<Longrightarrow> shm_inv S \<Longrightarrow> shm_inv S'"
  by (auto simp: start_listening_def split: if_splits option.splits)

lemma next_shmid_inv: "next_shmid S = (sid, S') \<Longrightarrow> shm_inv S \<Longrightarrow> shm_inv S'"
  by (auto simp: next_shmid_def Let_def)

lemma follow_link_inv:
  assumes "follow_link E key S = (r, S')" and "shm_inv S" and "env_ok E"
  shows "shm_inv S' \<and> (\<forall>i. r = Some i \<longrightarrow> i < length (shmem S'))"
  using assms
  by (auto simp: follow_link_def dest: read_remote_inv find_local_Some split: option.splits if_splits prod.splits)

lemma claim_round_inv:
  assumes "shm_inv S" and "env_ok E"
  shows "case claim_round E key n shmid S of
      Inl (r, S') \<Rightarrow> shm_inv S' \<and> (\<forall>i. r = Inl i \<longrightarrow> i < length (shmem S'))
    | Inr (sid, S') \<Rightarrow> shm_inv S'"
  using assms
  by (auto simp: claim_round_def dest: follow_link_inv next_shmid_inv split: prod.split option.split symlink_outcome.split)

lemma claim_key_inv:
  assumes "claim_key E key n shmid S = Some (r, S')" and "shm_inv S" and "env_ok E"
  shows "shm_inv S' \<and> (\<forall>i. r = Inl i \<longrightarrow> i < length (shmem S'))"
proof -
  let ?P = "\<lambda>E (key :: int) (n :: nat) (shmid :: int option) S y. shm_inv S \<longrightarrow> env_ok E \<longrightarrow>
    shm_inv (snd y) \<and> (\<forall>i. fst y = (Inl i :: nat + int) \<longrightarrow> i < length (shmem (snd y)))"
  have "?P E key n shmid S (r, S')"
    using _ assms(1)
  proof (rule claim_key.raw_induct [where P = ?P])
    fix f E key n shmid S y
    assume IH: "\<And>E key n shmid S y. f E key n shmid S = Some y \<Longrightarrow> ?P E key n shmid S y"
      and step: "(case claim_round E key n shmid S of Inl r \<Rightarrow> Some r
        | Inr (sid, S1) \<Rightarrow> f E key (Suc n) (Some sid) S1) = Some y"
    show "?P E key n shmid S y"
    proof (intro impI)
      assume inv: "shm_inv S" "env_ok E"
      show "shm_inv (snd y) \<and> (\<forall>i. fst y = Inl i \<longrightarrow> i < length (shmem (snd y)))"
      proof (cases "claim_round E key n shmid S")
        case (Inl r)
        then show ?thesis using step claim_round_inv [OF inv, of key n shmid] by (auto split: prod.splits)
      next
        case (Inr p)
        obtain sid S1 where p: "p = (sid, S1)" by (cases p)
        then have "shm_inv S1" using claim_round_inv [OF inv, of key n shmid] Inr by simp
        moreover have "f E key (Suc n) (Some sid) S1 = Some y" using step Inr p by simp
        ultimately show ?thesis using IH inv(2) by blast
      qed
    qed
  qed
  then show ?thesis using assms by simp
qed

inductive shm_step :: "shm \<Rightarrow> shm \<Rightarrow> bool" where
  get: "env_ok E \<Longrightarrow> shmget E key sz S = Some (r, S') \<Longrightarrow> shm_step S S'"
| attach: "env_ok E \<Longrightarrow> shmat E shmid S = (a, S') \<Longrightarrow> shm_step S S'"
| detach: "shmdt E a S = (r, S') \<Longrightarrow> shm_step S S'"
| control: "shmctl E shmid cmd buf S = (r, ds, S') \<Longrightarrow> shm_step S S'"
| force: "shm_step S (android_shmem_sysv_shm_force b S)"
| opened: "shm_step S (S\<lparr>fds := d # fds S\<rparr>)"
| linked: "shm_step S (S\<lparr>symlinks := l\<rparr>)"

definition shm_start :: "shm \<Rightarrow> bool" where
  "shm_start S \<longleftrightarrow> shmem S = [] \<and> ashv_pid_setup S = 0"

lemma map_segment_inv:
  assumes "map_segment E i S = (a, S')" and "shm_inv S" and "i < length (shmem S)" and "env_ok E"
  shows "shm_inv S'"
proof (cases "seg_addr (shmem S ! i) = 0 \<and> mmap_addr E \<noteq> MAP_FAILED_addr")
  case True
  have "shmem S ! i \<in> set (shmem S)" using assms(3) by simp
  then have ok: "seg_ok (shmem S ! i)" using assms(2) by (simp add: shm_inv_def)
  have nz: "mmap_addr E \<noteq> 0" using assms(4) by (simp add: env_ok_def)
  have "shm_inv ((update_seg i (\<lambda>s. s\<lparr>seg_addr := mmap_addr E\<rparr>) S)
      \<lparr>maps := (mmap_addr E, seg_size (shmem S ! i)) # maps S\<rparr>)"
    by (rule update_seg_inv [OF assms(2,3)])
      (use True nz ok assms(2) in \<open>auto simp: seg_ok_def attached_def shm_inv_def\<close>)
  then show ?thesis using assms(1) True by (auto simp: map_segment_def)
qed (use assms in \<open>auto simp: map_segment_def split: if_splits\<close>)

lemma mset_minus_single:
  "A \<subseteq># B \<Longrightarrow> A - {#x#} \<subseteq># B - {#x#}" "A \<subseteq># B \<Longrightarrow> x \<notin># A \<Longrightarrow> A \<subseteq># B - {#x#}"
  by (auto simp: subseteq_mset_def diff_le_mono not_in_iff)

lemma unmark: "\<not> markedForDeletion s \<Longrightarrow> s\<lparr>seg_addr := a, markedForDeletion := False\<rparr> = s\<lparr>seg_addr := a\<rparr>"
  by (cases s) simp

definition detached :: "nat \<Rightarrow> shm \<Rightarrow> shm" where
  "detached i S = (update_seg i (\<lambda>s. s\<lparr>seg_addr := 0, markedForDeletion := False\<rparr>) S)
     \<lparr>maps := remove1 (seg_addr (shmem S ! i), seg_size (shmem S ! i)) (maps S)\<rparr>"

lemma detached_inv:
  assumes "shm_inv S" and "i < length (shmem S)"
  shows "shm_inv (detached i S)"
proof -
  let ?s = "shmem S ! i" and ?A = "attached (mset (shmem S))"
  have le: "?A \<subseteq># mset (maps S)" and ok: "seg_ok ?s" using assms by (auto simp: shm_inv_def)
  have "?A - attached {#?s#} \<subseteq># mset (maps S) - {#(seg_addr ?s, seg_size ?s)#}"
  proof (cases "seg_addr ?s = 0")
    case True
    then have "(seg_addr ?s, seg_size ?s) \<notin># ?A" by (auto simp: attached_def)
    moreover have "attached {#?s#} = {#}" using True by (simp add: attached_def)
    ultimately show ?thesis using mset_minus_single(2) [OF le] by simp
  next
    case False
    then have "attached {#?s#} = {#(seg_addr ?s, seg_size ?s)#}" by (simp add: attached_def)
    then show ?thesis using mset_minus_single(1) [OF le] by simp
  qed
  then show ?thesis
    unfolding detached_def
    by (intro update_seg_inv [OF assms]) (use ok in \<open>auto simp: seg_ok_def attached_def\<close>)
qed

lemma delete_update:
  assumes "i < length (shmem S)" and "\<And>s. descriptor (f s) = descriptor s"
  shows "android_shmem_delete i ((update_seg i f S)\<lparr>maps := m\<rparr>) = android_shmem_delete i (S\<lparr>maps := m\<rparr>)"
  using assms by (simp add: android_shmem_delete_def update_seg_def close_descriptor_def Let_def)

lemma shmdt_inv:
  assumes "shmdt E a S0 = (r, S')" and "shm_inv S0"
  shows "shm_inv S'"
proof -
  let ?S = "ashv_check_pid E S0"
  have inv: "shm_inv ?S" using assms(2) by (rule check_pid_inv)
  show ?thesis
  proof (cases "find_addr a (shmem ?S) 0")
    case (Some i)
    then have i: "i < length (shmem ?S)" using find_addr_Some [OF Some] by simp
    let ?s = "shmem ?S ! i"
    let ?S1 = "(update_seg i (\<lambda>s. s\<lparr>seg_addr := 0\<rparr>) ?S)\<lparr>maps := remove1 (seg_addr ?s, seg_size ?s) (maps ?S)\<rparr>"
    have d: "shm_inv (detached i ?S)" using detached_inv [OF inv i] .
    have "shm_inv (android_shmem_delete i (detached i ?S))"
      by (rule delete_inv [OF d]) (use i in \<open>simp_all add: detached_def update_seg_def\<close>)
    also have "android_shmem_delete i (detached i ?S) = android_shmem_delete i ?S1"
      using i by (simp add: detached_def delete_update)
    finally have del: "shm_inv (android_shmem_delete i ?S1)" .
    have keep: "shm_inv ?S1" if "\<not> markedForDeletion ?s"
    proof -
      have "detached i ?S = ?S1" using that by (simp add: detached_def update_seg_def unmark)
      then show ?thesis using d by simp
    qed
    show ?thesis using assms Some del keep by (auto simp: shmdt_def Let_def split: if_splits)
  qed (use assms inv in \<open>auto simp: shmdt_def Let_def split: if_splits\<close>)
qed

lemma shmctl_inv:
  assumes "shmctl E shmid cmd buf S0 = (r, ds, S')" and "shm_inv S0"
  shows "shm_inv S'"
proof -
  let ?S = "ashv_check_pid E S0"
  have inv: "shm_inv ?S" using assms(2) by (rule check_pid_inv)
  have "shm_inv (if seg_addr (shmem ?S ! i) \<noteq> 0
      then update_seg i (\<lambda>s. s\<lparr>markedForDeletion := True\<rparr>) ?S else android_shmem_delete i ?S)"
    if "ashv_find_local_index shmid ?S = Some i" for i
  proof -
    have i: "i < length (shmem ?S)" using find_local_Some [OF that] by simp
    then have "seg_ok (shmem ?S ! i)" using inv by (simp add: shm_inv_def)
    then have "shm_inv ((update_seg i (\<lambda>s. s\<lparr>markedForDeletion := True\<rparr>) ?S)\<lparr>maps := maps ?S\<rparr>)"
      if "seg_addr (shmem ?S ! i) \<noteq> 0"
      by (intro update_seg_inv [OF inv i]) (use that inv i in \<open>auto simp: seg_ok_def attached_def shm_inv_def\<close>)
    then show ?thesis using delete_inv [OF inv i] by (auto simp: update_seg_def)
  qed
  then show ?thesis using assms inv by (auto simp: shmctl_def Let_def split: if_splits option.splits)
qed

lemma shmat_inv:
  assumes "shmat E shmid S0 = (a, S')" and "shm_inv S0" and "env_ok E"
  shows "shm_inv S'"
  using assms check_pid_inv [OF assms(2), of E]
  by (auto simp: shmat_def Let_def dest: map_segment_inv read_remote_inv find_local_Some
      split: if_splits option.splits prod.splits)

lemma shmget_inv:
  assumes "shmget E key sz S0 = Some (r, S')" and "shm_inv S0" and "env_ok E"
  shows "shm_inv S'"
proof -
  obtain b S where l: "start_listening E (ashv_check_pid E S0) = (b, S)" by fastforce
  then have "shm_inv S" using start_listening_inv check_pid_inv assms(2) by blast
  then show ?thesis using assms l
    by (auto simp: shmget_def dest: create_region_inv next_shmid_inv claim_key_inv
        split: if_splits option.splits prod.splits bool.splits sum.splits)
qed

interpretation shm_system: transition_system shm_start shm_step shm_inv
proof
  show "shm_inv S" if "shm_start S" for S
    using that by (simp add: shm_start_def shm_inv_def descs_def attached_def)
  show "shm_inv T" if "shm_inv S" "shm_step S T" for S T
    using that(2,1)
    by cases (auto simp: android_shmem_sysv_shm_force_def gain_fd_inv
        intro: shmget_inv shmat_inv shmdt_inv shmctl_inv)
qed

lemma check_pid_same:
  "ashv_pid_setup S = getpid E \<Longrightarrow> getpid E \<noteq> 0 \<Longrightarrow> ashv_check_pid E S = S"
  by (simp add: ashv_check_pid_def)

lemma find_from_update:
  "(\<And>s. seg_id (f s) = seg_id s) \<Longrightarrow> ashv_find_from shmid (ss[k := f (ss ! k)]) i = ashv_find_from shmid ss i"
proof (induction ss arbitrary: k i)
  case (Cons s ss)
  then show ?case by (cases k) simp_all
qed simp

lemma find_addr_unique:
  "k < length ss \<Longrightarrow> seg_addr (ss ! k) = a \<Longrightarrow> (\<forall>j<k. seg_addr (ss ! j) \<noteq> a) \<Longrightarrow> find_addr a ss i = Some (i + k)"
proof (induction ss arbitrary: k i)
  case (Cons s ss)
  then show ?case
  proof (cases k)
    case (Suc k')
    have "seg_addr s \<noteq> a" using Cons.prems(3) Suc by fastforce
    moreover have "\<forall>j<k'. seg_addr (ss ! j) \<noteq> a" using Cons.prems(3) Suc by fastforce
    ultimately show ?thesis using Cons.IH [of k' "Suc i"] Cons.prems Suc by simp
  qed simp
qed simp

lemma claim_key_returns:
  assumes "symlink_outcome E (n + k) = Created"
  shows "\<exists>r. claim_key E key n shmid S = Some r"
  using assms
proof (induction k arbitrary: n shmid S)
  case 0
  then show ?case
    by (subst claim_key.simps) (auto simp: claim_round_def split: prod.split option.split sum.split)
next
  case (Suc k)
  show ?case
  proof (cases "claim_round E key n shmid S")
    case (Inl r)
    then show ?thesis by (subst claim_key.simps) simp
  next
    case (Inr p)
    obtain sid S1 where p: "p = (sid, S1)" by (cases p)
    then show ?thesis using Suc.IH [of "Suc n" "Some sid" S1] Suc.prems Inr by (subst claim_key.simps) simp
  qed
qed

lemma claim_key_stuck:
  assumes "\<forall>n. symlink_outcome E n = Refused"
  shows "symlinks S key = None \<Longrightarrow> claim_key E key n shmid S = None"
proof -
  let ?P = "\<lambda>E' key (n :: nat) (shmid :: int option) S (y :: (nat + int) \<times> shm). E' = E \<longrightarrow> symlinks S key \<noteq> None"
  have "?P E key n shmid S y" if "claim_key E key n shmid S = Some y" for y
    using _ that
  proof (rule claim_key.raw_induct [where P = ?P])
    fix f E' key n shmid S y
    assume IH: "\<And>E key n shmid S y. f E key n shmid S = Some y \<Longrightarrow> ?P E key n shmid S y"
      and step: "(case claim_round E' key n shmid S of Inl r \<Rightarrow> Some r
        | Inr (sid, S1) \<Rightarrow> f E' key (Suc n) (Some sid) S1) = Some (y :: (nat + int) \<times> shm)"
    show "?P E' key n shmid S y"
    proof (intro impI notI)
      assume E': "E' = E" and none: "symlinks S key = None"
      then obtain sid S1 where r: "claim_round E key n shmid S = Inr (sid, S1)" "symlinks S1 key = None"
        using assms by (cases shmid) (auto simp: claim_round_def follow_link_def next_shmid_def Let_def)
      then have "f E key (Suc n) (Some sid) S1 = Some y" using step E' by simp
      from IH [OF this] r(2) show False by simp
    qed
  qed
  then show "symlinks S key = None \<Longrightarrow> claim_key E key n shmid S = None"
    by (cases "claim_key E key n shmid S") auto
qed

section \<open>A sample process\<close>

definition sample_shm_env :: shm_env where
  "sample_shm_env = \<lparr>getpid = 100, getpagesize = 4096, kernel_shmget = 0, kernel_shmat = 0, kernel_shmdt = 0,
     kernel_shmctl = 0, socket_ret = 5, bind_ok = (\<lambda>_. True), listen_ret = 0, ashmem_open = 9, ashmem_set_name = 0,
     ashmem_set_size = 0, mmap_addr = 65536, remote_key = (\<lambda>_. None), remote_descriptor = (\<lambda>_. -1),
     region_size = (\<lambda>_. 4096), symlink_outcome = (\<lambda>_. Created), euid = 0, egid = 0\<rparr>"

definition sample_segment :: "int \<Rightarrow> nat \<Rightarrow> shmem_t" where
  "sample_segment i a = \<lparr>seg_id = i, seg_addr = a, descriptor = 9, seg_size = 4096, markedForDeletion = False, seg_key = 0\<rparr>"

definition sample_shm :: "int \<Rightarrow> shmem_t list \<Rightarrow> shm" where
  "sample_shm sid ss = \<lparr>shmem = ss, syscall_supported = False, ashv_local_socket_id = sid, ashv_pid_setup = 100,
     ashv_listening_thread = True, shmem_counter = 1, symlinks = (\<lambda>_. None), fds = [9, 0, 1, 2], maps = [], errno = 0\<rparr>"

lemmas sample_shm_simps = sample_shm_env_def sample_segment_def sample_shm_def

section \<open>Properties\<close>

text \<open>
  C20. In every state the five calls can reach, forks and failing kernel calls included, each
  segment of the table has an open descriptor of its own and, when it is attached, a mapping
  of its own, and only attached segments are marked for deletion.
\<close>

theorem shm_reachable_inv:
  assumes "shm_start S" and "shm_step\<^sup>*\<^sup>* S T"
  shows "shm_inv T"
  using assms by (rule shm_system.reachable_inv)

theorem shm_reachable_inv_witness:
  "shm_inv (snd (the (shmget sample_shm_env IPC_PRIVATE 100 ((sample_shm 0 [])\<lparr>ashv_pid_setup := 0\<rparr>))))"
proof (rule shm_reachable_inv)
  let ?S = "(sample_shm 0 [])\<lparr>ashv_pid_setup := 0\<rparr>"
  show "shm_start ?S" by (simp add: shm_start_def sample_shm_def)
  obtain r where "shmget sample_shm_env IPC_PRIVATE 100 ?S = Some r"
    by (simp add: shmget_def IPC_PRIVATE_def start_listening_def ashv_check_pid_def next_shmid_def Let_def sample_shm_simps)
  then show "shm_step\<^sup>*\<^sup>* ?S (snd (the (shmget sample_shm_env IPC_PRIVATE 100 ?S)))"
    by (cases r) (auto intro!: r_into_rtranclp shm_step.get [of sample_shm_env] simp: env_ok_def sample_shm_env_def)
qed

text \<open>
  A segment that is removed while attached stays in the table with its mapping until it is
  detached; the detach then takes it out of the table, closes its descriptor and leaves the
  mappings as they were before the attach.
\<close>

theorem rmid_deferred_until_detach:
  assumes "\<not> syscall_supported S" and "ashv_pid_setup S = getpid E" and "getpid E \<noteq> 0"
    and "ashv_find_local_index shmid S = Some i" and "seg_addr (shmem S ! i) = 0"
    and "mmap_addr E \<noteq> 0" and "mmap_addr E \<noteq> MAP_FAILED_addr" and "mmap_addr E \<notin> seg_addr ` set (shmem S)"
    and "S1 = snd (shmat E shmid S)" and "S2 = snd (snd (shmctl E shmid IPC_RMID False S1))"
    and "S3 = snd (shmdt E (mmap_addr E) S2)"
  shows "fst (shmat E shmid S) = mmap_addr E
    \<and> ashv_find_local_index shmid S2 = Some i \<and> (mmap_addr E, seg_size (shmem S ! i)) \<in> set (maps S2)
    \<and> shmem S3 = take i (shmem S) @ drop (Suc i) (shmem S) \<and> maps S3 = maps S
    \<and> fds S3 = (if descriptor (shmem S ! i) = 0 then fds S else remove1 (descriptor (shmem S ! i)) (fds S))"
proof -
  let ?a = "mmap_addr E" and ?s = "shmem S ! i"
  have i: "i < length (shmem S)" using find_local_Some [OF assms(4)] by simp
  have at: "shmat E shmid S = (?a, (update_seg i (\<lambda>s. s\<lparr>seg_addr := ?a\<rparr>) S)\<lparr>maps := (?a, seg_size ?s) # maps S\<rparr>)"
    using assms by (simp add: shmat_def check_pid_same map_segment_def Let_def)
  have S1: "S1 = (update_seg i (\<lambda>s. s\<lparr>seg_addr := ?a\<rparr>) S)\<lparr>maps := (?a, seg_size ?s) # maps S\<rparr>"
    using at assms(9) by simp
  have f1: "ashv_find_local_index shmid S1 = Some i"
    using assms(4) by (simp add: S1 update_seg_def ashv_find_local_index_def find_from_update)
  have S2: "S2 = update_seg i (\<lambda>s. s\<lparr>markedForDeletion := True\<rparr>) S1"
  proof -
    have "\<not> syscall_supported S1" "ashv_pid_setup S1 = getpid E" "seg_addr (shmem S1 ! i) \<noteq> 0"
      using assms(1,2,6) i by (simp_all add: S1 update_seg_def)
    then show ?thesis using f1 assms(3) by (simp add: assms(10) shmctl_def check_pid_same)
  qed
  have shmem2: "shmem S2 = (shmem S)[i := ?s\<lparr>seg_addr := ?a, markedForDeletion := True\<rparr>]"
    using i by (simp add: S2 S1 update_seg_def)
  have f2: "ashv_find_local_index shmid S2 = Some i"
    using f1 by (simp add: S2 update_seg_def ashv_find_local_index_def find_from_update)
  have "\<forall>j<i. seg_addr (shmem S2 ! j) \<noteq> ?a"
    using assms(8) i by (auto simp: shmem2) (metis imageI less_trans nth_mem)
  then have fa: "find_addr ?a (shmem S2) 0 = Some i"
    using find_addr_unique [of i "shmem S2" ?a 0] i by (simp add: shmem2)
  have r2: "\<not> syscall_supported S2" "ashv_pid_setup S2 = getpid E" "fds S2 = fds S" "maps S2 = (?a, seg_size ?s) # maps S"
    using assms(1,2) by (simp_all add: S2 S1 update_seg_def)
  have "shmdt E ?a S2 = (0, android_shmem_delete i ((update_seg i (\<lambda>s. s\<lparr>seg_addr := 0\<rparr>) S2)\<lparr>maps := maps S\<rparr>))"
    using r2 fa i assms(3) by (simp add: shmdt_def check_pid_same Let_def shmem2)
  then have S3: "S3 = android_shmem_delete i (S2\<lparr>maps := maps S\<rparr>)"
    using i assms(11) by (simp add: delete_update shmem2)
  show ?thesis using at f2 r2 i S3 shmem2
    by (simp add: android_shmem_delete_def close_descriptor_def Let_def)
qed

theorem rmid_deferred_until_detach_witness:
  "shmem (snd (shmdt sample_shm_env (mmap_addr sample_shm_env)
      (snd (snd (shmctl sample_shm_env 7 IPC_RMID False
        (snd (shmat sample_shm_env 7 (sample_shm 0 [sample_segment 7 0])))))))) =
    take 0 [sample_segment 7 0] @ drop (Suc 0) [sample_segment 7 0]"
  using rmid_deferred_until_detach [of "sample_shm 0 [sample_segment 7 0]" sample_shm_env 7 0, OF _ _ _ _ _ _ _ _ refl refl refl]
  by (simp add: ashv_find_local_index_def MAP_FAILED_addr_def sample_shm_simps)

text \<open>
  The id of a segment names its socket and counter as long as the socket id has 15 bits.
\<close>

theorem shmid_roundtrip:
  assumes "0 \<le> sid" and "sid < 0x8000" and "uint c \<le> 0x7fff"
  shows "ashv_socket_id_from_shmid (ashv_shmid_from_counter sid c) = sid
    \<and> ashv_shmid_from_counter sid c mod 0x10000 = uint c"
  using assms by (rule shmid_decode)

theorem shmid_roundtrip_witness:
  "ashv_socket_id_from_shmid (ashv_shmid_from_counter 0x1234 7) = 0x1234
    \<and> ashv_shmid_from_counter 0x1234 7 mod 0x10000 = uint (7 :: u64)"
  by (rule shmid_roundtrip) simp_all

text \<open>
  A local, unmarked segment survives its detach when the socket id has 15 bits.
\<close>

theorem segment_survives_detach:
  assumes "\<not> syscall_supported S" and "ashv_pid_setup S = getpid E" and "getpid E \<noteq> 0"
    and "0 \<le> ashv_local_socket_id S" and "ashv_local_socket_id S < 0x8000" and "uint c \<le> 0x7fff"
    and "i < length (shmem S)" and "seg_id (shmem S ! i) = ashv_shmid_from_counter (ashv_local_socket_id S) c"
    and "\<not> markedForDeletion (shmem S ! i)" and "find_addr a (shmem S) 0 = Some i"
  shows "shmem (snd (shmdt E a S)) = (shmem S)[i := (shmem S ! i)\<lparr>seg_addr := 0\<rparr>]
    \<and> fds (snd (shmdt E a S)) = fds S"
proof -
  have "ashv_socket_id_from_shmid (seg_id (shmem S ! i)) = ashv_local_socket_id S"
    using shmid_decode [OF assms(4-6)] assms(8) by simp
  then show ?thesis using assms by (simp add: shmdt_def check_pid_same Let_def update_seg_def)
qed

theorem segment_survives_detach_witness:
  "shmem (snd (shmdt sample_shm_env 65536 (sample_shm 2 [sample_segment 131079 65536]))) =
      (shmem (sample_shm 2 [sample_segment 131079 65536]))
        [0 := (shmem (sample_shm 2 [sample_segment 131079 65536]) ! 0)\<lparr>seg_addr := 0\<rparr>]
    \<and> fds (snd (shmdt sample_shm_env 65536 (sample_shm 2 [sample_segment 131079 65536]))) =
      fds (sample_shm 2 [sample_segment 131079 65536])"
  by (rule segment_survives_detach [where c = 7])
    (simp_all add: sample_shm_simps ashv_shmid_from_counter_def to_int32_mod)

text \<open>
  When the socket id needs its 16th bit, which a process id of 32768 or more gives it, the id
  is negative, decodes to a different socket, and the first detach destroys the segment
  although nobody asked for its removal.
\<close>

theorem local_segment_lost_on_detach:
  assumes "\<not> syscall_supported S" and "ashv_pid_setup S = getpid E" and "getpid E \<noteq> 0"
    and "0x8000 \<le> ashv_local_socket_id S" and "ashv_local_socket_id S \<le> 0xffff" and "uint c \<le> 0x7fff"
    and "shmem S = [s]" and "seg_id s = ashv_shmid_from_counter (ashv_local_socket_id S) c" and "\<not> markedForDeletion s"
    and "seg_addr s = a"
  shows "shmem (snd (shmdt E a S)) = []"
proof -
  have "ashv_socket_id_from_shmid (seg_id s) \<noteq> ashv_local_socket_id S"
    using shmid_high_socket [OF assms(4-6)] assms(4,8) by simp
  then show ?thesis using assms
    by (simp add: shmdt_def check_pid_same Let_def update_seg_def android_shmem_delete_def close_descriptor_def)
qed

theorem local_segment_lost_on_detach_witness:
  "shmem (snd (shmdt sample_shm_env 65536 (sample_shm 0x9000
      [sample_segment (ashv_shmid_from_counter 0x9000 7) 65536]))) = []"
  by (rule local_segment_lost_on_detach [where c = 7 and s = "sample_segment (ashv_shmid_from_counter 0x9000 7) 65536"])
    (simp_all add: sample_shm_simps)

text \<open>
  \<^verbatim>\<open>shmget\<close> returns as soon as one attempt to create the symbolic link of the key succeeds,
  however many attempts other processes or the file system defeat before.
\<close>

theorem shmget_returns:
  assumes "symlink_outcome E k = Created"
  shows "\<exists>r S'. shmget E key sz S = Some (r, S')"
proof -
  have "\<exists>r. claim_key E key 0 None (snd (start_listening E (ashv_check_pid E S))) = Some r"
    by (rule claim_key_returns [of E 0 k]) (simp add: assms)
  then obtain r where "claim_key E key 0 None (snd (start_listening E (ashv_check_pid E S))) = Some r" ..
  then show ?thesis
    by (cases r) (auto simp: shmget_def split: prod.split bool.split sum.split)
qed

theorem shmget_returns_witness:
  "\<exists>r S'. shmget sample_shm_env 5 100 (sample_shm 0 []) = Some (r, S')"
  by (rule shmget_returns [where k = 3]) (simp add: sample_shm_env_def)

text \<open>
  If no attempt to create the link succeeds the loop never ends, so a missing or read-only
  directory hangs the caller with the mutex held.
\<close>

theorem shmget_key_hangs:
  assumes "\<forall>n. symlink_outcome E n = Refused" and "symlinks S key = None" and "key \<noteq> IPC_PRIVATE"
    and "\<not> syscall_supported S" and "ashv_listening_thread S" and "ashv_pid_setup S = getpid E" and "getpid E \<noteq> 0"
  shows "shmget E key sz S = None"
  using claim_key_stuck [OF assms(1), of S key 0 None] assms(2-)
  by (simp add: shmget_def start_listening_def check_pid_same)

theorem shmget_key_hangs_witness:
  "shmget (sample_shm_env\<lparr>symlink_outcome := (\<lambda>_. Refused)\<rparr>) 5 100 (sample_shm 0 []) = None"
  by (rule shmget_key_hangs) (simp_all add: IPC_PRIVATE_def sample_shm_simps)

end
