(* ===== verification/Dix_Device.thy ===== *)
theory Dix_Device
  imports Complex_Main Lorie_Prelude
begin

text \<open>
  Input devices as the X server keeps them: the class structures a driver registers from its
  \<^verbatim>\<open>DEVICE_INIT\<close> (\<^verbatim>\<open>dix/devices.c\<close>, \<^verbatim>\<open>Xi/exevents.c\<close>, \<^verbatim>\<open>dix/ptrveloc.c\<close>, \<^verbatim>\<open>dix/touch.c\<close>), and the two
  lists of devices that a device moves between when it is added, enabled, disabled and removed.
  Every allocation may fail: the \<open>n\<close>-th one answers \<open>h n\<close>. A write through a null pointer is the value \<open>None\<close>.
\<close>

section \<open>Device classes\<close>

datatype valuator_mode = Relative | Absolute

datatype scroll_type = SCROLL_TYPE_NONE | SCROLL_TYPE_VERTICAL | SCROLL_TYPE_HORIZONTAL

type_synonym label = "string option"
type_synonym heap = "nat \<Rightarrow> bool"

record axis_info =
  axis_min :: int
  axis_max :: int
  axis_res :: int
  axis_min_res :: int
  axis_max_res :: int
  axis_label :: label
  axis_mode :: valuator_mode
  scroll_kind :: scroll_type
  scroll_increment :: rat
  scroll_flags :: u32

text \<open>\<open>accel_proc\<close> says whether the scheme has its acceleration function, \<open>accel_data\<close> whether it has its data.\<close>

record accel_scheme =
  accel_number :: int
  accel_proc :: bool
  accel_data :: bool

record valuator_class =
  axes :: "axis_info list"
  h_scroll_axis :: int
  v_scroll_axis :: int
  numMotionEvents :: nat
  motion_history :: bool
  accelScheme :: accel_scheme

record button_class =
  numButtons :: nat
  button_map :: "nat \<Rightarrow> nat"
  button_labels :: "label list"

record touch_class =
  max_touches :: nat
  touch_points :: "bool list"
  touch_direct :: bool

datatype device_type = NO_TYPE | MASTER_POINTER | MASTER_KEYBOARD | SLAVE

text \<open>The functions a device may have as its \<^verbatim>\<open>deviceProc\<close>: those of this program, or another one.\<close>

datatype device_proc = MouseProc | TouchProc | KeybdProc | StylusProc | OtherProc

record dev =
  dev_type :: device_type
  deviceProc :: device_proc
  dev_on :: bool
  inited :: bool
  enabled :: bool
  coreEvents :: bool
  master :: "nat option"
  sprite :: bool
  spriteOwner :: bool
  paired :: "nat option"
  lastSlave :: "nat option"
  last_slave :: "nat option"
  has_key :: bool
  valuator :: "valuator_class option"
  button :: "button_class option"
  touch :: "touch_class option"
  ddx_touches :: "bool list"
  last_scroll :: bool
  ptrfeed :: "u8 list"
  changed_events :: nat
  allocs :: nat

definition MAX_VALUATORS :: nat where "MAX_VALUATORS = 36"
definition MAX_BUTTONS :: nat where "MAX_BUTTONS = 256"
definition MAP_LENGTH :: nat where "MAP_LENGTH = MAX_BUTTONS"
definition MAXDEVICES :: nat where "MAXDEVICES = 256"
definition MOTION_HISTORY_SIZE :: nat where "MOTION_HISTORY_SIZE = 256"
definition NO_AXIS_LIMITS :: int where "NO_AXIS_LIMITS = -1"
definition SCROLL_FLAG_NONE :: u32 where "SCROLL_FLAG_NONE = 0"
definition SCROLL_FLAG_PREFERRED :: u32 where "SCROLL_FLAG_PREFERRED = 4"
definition PtrAccelNoOp :: int where "PtrAccelNoOp = 0"
definition PtrAccelPredictable :: int where "PtrAccelPredictable = 1"
definition PtrAccelLightweight :: int where "PtrAccelLightweight = 2"
definition PtrAccelDefault :: int where "PtrAccelDefault = PtrAccelPredictable"

definition IsMaster :: "dev \<Rightarrow> bool" where
  "IsMaster d = (dev_type d = MASTER_POINTER \<or> dev_type d = MASTER_KEYBOARD)"

definition IsPointerDevice :: "dev \<Rightarrow> bool" where
  "IsPointerDevice d = (dev_type d = MASTER_POINTER \<or> (valuator d \<noteq> None \<and> button d \<noteq> None) \<or> (valuator d \<noteq> None \<and> \<not> has_key d))"

text \<open>An initialisation answers whether it succeeded and the device after it; \<open>None\<close> when it writes
  through a null pointer. The chain \<^verbatim>\<open>if (!a || !b || ...)\<close> stops at the first one that fails.\<close>

type_synonym init = "dev \<Rightarrow> (bool \<times> dev) option"

definition calloc :: "heap \<Rightarrow> dev \<Rightarrow> bool \<times> dev" where
  "calloc h d = (h (allocs d), d\<lparr>allocs := allocs d + 1\<rparr>)"

definition and_then :: "init \<Rightarrow> init \<Rightarrow> init" where
  "and_then f g d = (case f d of None \<Rightarrow> None | Some (ok, d') \<Rightarrow> if ok then g d' else Some (False, d'))"

fun all_ok :: "init list \<Rightarrow> init" where
  "all_ok [] = (\<lambda>d. Some (True, d))"
| "all_ok (f # fs) = and_then f (all_ok fs)"

text \<open>Setting up the buttons: the map of the driver is read from index 1 on.\<close>

definition InitButtonClassDeviceStruct :: "heap \<Rightarrow> nat \<Rightarrow> label list \<Rightarrow> nat list \<Rightarrow> init" where
  "InitButtonClassDeviceStruct h n labels mp d =
     (if button d \<noteq> None then Some (False, d)
      else if MAX_BUTTONS \<le> n then Some (False, d)
      else case calloc h d of (p, d1) \<Rightarrow>
        if \<not> p then Some (False, d1)
        else Some (True, d1\<lparr>button := Some \<lparr>numButtons = n, button_map = (\<lambda>i. if i = 0 \<or> MAP_LENGTH \<le> i then 0 else if i \<le> n then mp ! i else i),
               button_labels = take n labels\<rparr>\<rparr>))"

definition valuator_axes :: "dev \<Rightarrow> axis_info list" where
  "valuator_axes d = (case valuator d of None \<Rightarrow> [] | Some v \<Rightarrow> axes v)"

definition SetScrollValuator :: "nat \<Rightarrow> scroll_type \<Rightarrow> rat \<Rightarrow> u32 \<Rightarrow> init" where
  "SetScrollValuator n ty inc flags d = (case valuator d of
       None \<Rightarrow> Some (False, d)
     | Some v \<Rightarrow>
         if length (axes v) \<le> n then Some (False, d)
         else if ty = SCROLL_TYPE_NONE
         then Some (True, d\<lparr>valuator := Some (v\<lparr>axes := (axes v)[n := (axes v ! n)\<lparr>scroll_kind := ty\<rparr>]\<rparr>)\<rparr>)
         else if inc = 0 then Some (False, d)
         else
           let cur = (if ty = SCROLL_TYPE_VERTICAL then v_scroll_axis v else h_scroll_axis v);
               old = axes v ! nat cur
           in if cur \<noteq> -1 \<and> int n \<noteq> cur \<and> scroll_kind old = ty \<and>
                 flags AND SCROLL_FLAG_PREFERRED \<noteq> 0 \<and> scroll_flags old AND SCROLL_FLAG_PREFERRED \<noteq> 0
              then Some (False, d)
              else
                let v1 = (if ty = SCROLL_TYPE_VERTICAL then v\<lparr>v_scroll_axis := int n\<rparr> else v\<lparr>h_scroll_axis := int n\<rparr>);
                    ax = (axes v ! n)\<lparr>scroll_kind := ty, scroll_increment := inc, scroll_flags := flags\<rparr>
                in Some (True, d\<lparr>valuator := Some (v1\<lparr>axes := (axes v)[n := ax]\<rparr>), changed_events := changed_events d + 1\<rparr>))"

definition InitValuatorAxisStruct :: "nat \<Rightarrow> label \<Rightarrow> int \<Rightarrow> int \<Rightarrow> int \<Rightarrow> int \<Rightarrow> int \<Rightarrow> valuator_mode \<Rightarrow> init" where
  "InitValuatorAxisStruct n lab minval maxval res min_res max_res mode d = (case valuator d of
       None \<Rightarrow> Some (False, d)
     | Some v \<Rightarrow>
         if length (axes v) \<le> n then Some (False, d)
         else if maxval < minval \<and> mode = Absolute then Some (False, d)
         else
           let ax = (axes v ! n)\<lparr>axis_min := minval, axis_max := maxval, axis_res := res, axis_min_res := min_res,
                      axis_max_res := max_res, axis_label := lab, axis_mode := mode\<rparr>
           in SetScrollValuator n SCROLL_TYPE_NONE 0 SCROLL_FLAG_NONE
                (d\<lparr>valuator := Some (v\<lparr>axes := (axes v)[n := ax]\<rparr>)\<rparr>))"

subsection \<open>Acceleration\<close>

definition no_accel :: accel_scheme where
  "no_accel = \<lparr>accel_number = 0, accel_proc = False, accel_data = False\<rparr>"

text \<open>The predictable scheme is the one with an initialisation and a cleanup.\<close>

definition InitPredictableAccelerationScheme :: "heap \<Rightarrow> dev \<Rightarrow> bool \<times> dev" where
  "InitPredictableAccelerationScheme h d =
     (case calloc h d of (vel, d1) \<Rightarrow> case calloc h d1 of (schemeData, d2) \<Rightarrow>
      if \<not> vel \<or> \<not> schemeData then (False, d2)
      else case calloc h d2 of (tracker, d3) \<Rightarrow> case calloc h d3 of (prop_handlers, d4) \<Rightarrow>
        if \<not> prop_handlers then (False, d4)
        else (True, d4\<lparr>valuator := map_option
               (\<lambda>v. v\<lparr>accelScheme := \<lparr>accel_number = PtrAccelPredictable, accel_proc = True, accel_data = True\<rparr>\<rparr>) (valuator d4)\<rparr>))"

definition AccelerationDefaultCleanup :: "valuator_class \<Rightarrow> valuator_class" where
  "AccelerationDefaultCleanup v =
     (if accel_proc (accelScheme v) \<and> accel_data (accelScheme v)
      then v\<lparr>accelScheme := (accelScheme v)\<lparr>accel_proc := False, accel_data := False\<rparr>\<rparr> else v)"

definition InitPointerAccelerationScheme :: "heap \<Rightarrow> int \<Rightarrow> dev \<Rightarrow> bool \<times> dev" where
  "InitPointerAccelerationScheme h scheme d = (case valuator d of
       None \<Rightarrow> (False, d)
     | Some v \<Rightarrow>
         if IsMaster d \<and> scheme \<noteq> PtrAccelNoOp then (False, d)
         else if scheme \<notin> {PtrAccelNoOp, PtrAccelPredictable, PtrAccelLightweight} then (False, d)
         else
           let v1 = (if accel_number (accelScheme v) = PtrAccelPredictable then AccelerationDefaultCleanup v else v);
               d1 = d\<lparr>valuator := Some v1\<rparr>
           in if scheme = PtrAccelPredictable then InitPredictableAccelerationScheme h d1
              else (True, d1\<lparr>valuator := Some (v1\<lparr>accelScheme :=
                     \<lparr>accel_number = scheme, accel_proc = (scheme = PtrAccelLightweight), accel_data = False\<rparr>\<rparr>)\<rparr>))"

subsection \<open>Axes, touch and feedback\<close>

definition blank_axis :: axis_info where
  "blank_axis = \<lparr>axis_min = 0, axis_max = 0, axis_res = 0, axis_min_res = 0, axis_max_res = 0, axis_label = None,
     axis_mode = Relative, scroll_kind = SCROLL_TYPE_NONE, scroll_increment = 0, scroll_flags = 0\<rparr>"

definition AllocateMotionHistory :: "heap \<Rightarrow> dev \<Rightarrow> dev" where
  "AllocateMotionHistory h d = (case valuator d of
       None \<Rightarrow> d
     | Some v \<Rightarrow>
         if numMotionEvents v < 1 then d
         else case calloc h d of (p, d1) \<Rightarrow> d1\<lparr>valuator := Some (v\<lparr>motion_history := p\<rparr>)\<rparr>)"

fun init_axes :: "nat \<Rightarrow> label list \<Rightarrow> valuator_mode \<Rightarrow> dev \<Rightarrow> dev" where
  "init_axes n [] mode d = d"
| "init_axes n (lab # labels) mode d =
     (case InitValuatorAxisStruct n lab NO_AXIS_LIMITS NO_AXIS_LIMITS 0 0 0 mode d of
        None \<Rightarrow> d | Some (ok, d') \<Rightarrow> init_axes (n + 1) labels mode d')"

definition InitValuatorClassDeviceStruct :: "heap \<Rightarrow> label list \<Rightarrow> nat \<Rightarrow> valuator_mode \<Rightarrow> init" where
  "InitValuatorClassDeviceStruct h labels nmotion mode d =
     (let n = min (length labels) MAX_VALUATORS in
      case calloc h d of (p, d1) \<Rightarrow>
      if \<not> p then Some (False, d1)
      else case calloc h d1 of (q, d2) \<Rightarrow>
        if \<not> q then Some (False, d2\<lparr>last_scroll := False\<rparr>)
        else
          let v = \<lparr>axes = replicate n blank_axis, h_scroll_axis = -1, v_scroll_axis = -1, numMotionEvents = nmotion,
                   motion_history = False, accelScheme = no_accel\<rparr>;
              d3 = AllocateMotionHistory h (d2\<lparr>last_scroll := True, valuator := Some v\<rparr>);
              d4 = init_axes 0 (take n labels) mode d3
          in Some (True, snd (InitPointerAccelerationScheme h (if IsMaster d then PtrAccelNoOp else PtrAccelDefault) d4)))"

definition InitPtrFeedbackClassDeviceStruct :: "heap \<Rightarrow> init" where
  "InitPtrFeedbackClassDeviceStruct h d =
     (case calloc h d of (p, d1) \<Rightarrow>
      if \<not> p then Some (False, d1)
      else Some (True, d1\<lparr>ptrfeed := (case ptrfeed d of [] \<Rightarrow> 0 | i # _ \<Rightarrow> i + 1) # ptrfeed d\<rparr>))"

text \<open>A touch point with its valuator mask and sprite trace; \<^verbatim>\<open>InitTouchClassDeviceStruct\<close> does not look at the
  answer.\<close>

definition TouchInitTouchPoint :: "heap \<Rightarrow> dev \<Rightarrow> bool \<times> dev" where
  "TouchInitTouchPoint h d =
     (case calloc h d of (p, d1) \<Rightarrow> if \<not> p then (False, d1) else calloc h d1)"

fun init_points :: "(dev \<Rightarrow> bool \<times> dev) \<Rightarrow> nat \<Rightarrow> dev \<Rightarrow> bool list \<times> dev" where
  "init_points f 0 d = ([], d)"
| "init_points f (Suc n) d = (case f d of (p, d1) \<Rightarrow> case init_points f n d1 of (ps, d2) \<Rightarrow> (p # ps, d2))"

definition InitTouchClassDeviceStruct :: "heap \<Rightarrow> nat \<Rightarrow> bool \<Rightarrow> nat \<Rightarrow> init" where
  "InitTouchClassDeviceStruct h n direct num_axes d =
     (if touch d \<noteq> None \<or> valuator d = None \<or> num_axes < 2 then Some (False, d)
      else case calloc h d of (p, d1) \<Rightarrow>
      if \<not> p then Some (False, d1)
      else
        let m = (if n = 0 then 5 else n) in
        case calloc h d1 of (q, d2) \<Rightarrow>
        if \<not> q then Some (False, d2)
        else case init_points (TouchInitTouchPoint h) m d2 of (ps, d3) \<Rightarrow>
          let d4 = d3\<lparr>touch := Some \<lparr>max_touches = n, touch_points = ps, touch_direct = direct\<rparr>\<rparr> in
          case calloc h d4 of (r, d5) \<Rightarrow>
          if \<not> r then None
          else case init_points (calloc h) m d5 of (ddx, d6) \<Rightarrow> Some (True, d6\<lparr>ddx_touches := ddx\<rparr>))"

end
