(* ===== verification/Dix_Hierarchy.thy ===== *)
theory Dix_Hierarchy
  imports Dix_Device
begin

text \<open>
  The device lists of the X server (\<^verbatim>\<open>inputInfo\<close> of \<^verbatim>\<open>dix/devices.c\<close>): a device is added to the list of devices
  that are off, initialised and switched on by its driver, moved between the lists, attached to a master, and
  removed. Devices are known by their number; \<open>dev_store\<close> has the devices that have not been freed.
  A driver is a function \<open>call\<close>: what its \<^verbatim>\<open>deviceProc\<close> answers to a request and what it makes of the device.
  Events to the clients are the list \<open>presence\<close>; the switching off of a master is not part of the model.
\<close>

section \<open>State and requests\<close>

datatype what = DEVICE_INIT | DEVICE_ON | DEVICE_OFF | DEVICE_CLOSE | DEVICE_ABORT

datatype dev_status = DevSuccess | DevBadMatch | DevBadValue | DevBadImplementation | DevBadDevice | DevBadAlloc

datatype presence_kind = DeviceAdded | DeviceEnabled | DeviceDisabled | DeviceRemoved

datatype master_kind = MASTER_ATTACHED | THE_KEYBOARD | THE_POINTER

type_synonym driver = "what \<Rightarrow> dev \<Rightarrow> (dev_status \<times> dev) option"

record inputInfo =
  devs :: "nat list"
  off_devs :: "nat list"
  dev_store :: "nat \<Rightarrow> dev option"
  numDevices :: int
  vc_pointer :: nat
  vc_keyboard :: nat
  presence :: "(nat \<times> presence_kind) list"

definition set_dev :: "nat \<Rightarrow> dev \<Rightarrow> inputInfo \<Rightarrow> inputInfo" where
  "set_dev i d S = S\<lparr>dev_store := (dev_store S)(i \<mapsto> d)\<rparr>"

definition upd_dev :: "nat \<Rightarrow> (dev \<Rightarrow> dev) \<Rightarrow> inputInfo \<Rightarrow> inputInfo" where
  "upd_dev i f S = S\<lparr>dev_store := (dev_store S)(i := map_option f (dev_store S i))\<rparr>"

definition SendDevicePresenceEvent :: "nat \<Rightarrow> presence_kind \<Rightarrow> inputInfo \<Rightarrow> inputInfo" where
  "SendDevicePresenceEvent i k S = S\<lparr>presence := presence S @ [(i, k)]\<rparr>"

definition is_master :: "inputInfo \<Rightarrow> nat \<Rightarrow> bool" where
  "is_master S i = (case dev_store S i of None \<Rightarrow> False | Some d \<Rightarrow> IsMaster d)"

definition GetMaster :: "inputInfo \<Rightarrow> nat \<Rightarrow> dev \<Rightarrow> master_kind \<Rightarrow> nat option" where
  "GetMaster S i d k =
     (case (if IsMaster d then Some i else master d) of
        None \<Rightarrow> None
      | Some m \<Rightarrow>
          if k = MASTER_ATTACHED then Some m
          else case dev_store S m of
            None \<Rightarrow> None
          | Some md \<Rightarrow>
              if dev_type md = (if k = THE_KEYBOARD then MASTER_KEYBOARD else MASTER_POINTER) then Some m
              else paired md)"

definition IsFloating :: "inputInfo \<Rightarrow> nat \<Rightarrow> dev \<Rightarrow> bool" where
  "IsFloating S i d = (\<not> IsMaster d \<and> GetMaster S i d THE_KEYBOARD = None)"

text \<open>A master has as many buttons as the attached device that has most.\<close>

definition attached_buttons :: "inputInfo \<Rightarrow> nat \<Rightarrow> nat list" where
  "attached_buttons S m = concat (map (\<lambda>i. case dev_store S i of
       Some d \<Rightarrow> (case button d of Some b \<Rightarrow> if \<not> IsMaster d \<and> master d = Some m then [numButtons b] else [] | None \<Rightarrow> [])
     | None \<Rightarrow> []) (devs S))"

definition set_buttons :: "nat \<Rightarrow> dev \<Rightarrow> dev" where
  "set_buttons n d = d\<lparr>button := map_option (\<lambda>b. b\<lparr>numButtons := n\<rparr>) (button d)\<rparr>"

definition RecalculateMasterButtons :: "nat \<Rightarrow> dev \<Rightarrow> inputInfo \<Rightarrow> inputInfo" where
  "RecalculateMasterButtons i d S =
     (if button d = None \<or> IsMaster d then S
      else case GetMaster S i d THE_POINTER of
        None \<Rightarrow> S
      | Some m \<Rightarrow> upd_dev m (set_buttons (fold max (attached_buttons S m) 0)) S)"

text \<open>Attaching calls \<^verbatim>\<open>RecalculateMasterButtons(master)\<close>, which returns at once for a master.\<close>

definition AttachDevice :: "nat \<Rightarrow> nat option \<Rightarrow> inputInfo \<Rightarrow> dev_status \<times> inputInfo" where
  "AttachDevice i m S = (case dev_store S i of
       None \<Rightarrow> (DevBadDevice, S)
     | Some d \<Rightarrow>
         if IsMaster d then (DevBadDevice, S)
         else if m \<noteq> None \<and> \<not> is_master S (the m) then (DevBadDevice, S)
         else if IsFloating S i d \<and> m = None \<and> enabled d then (DevSuccess, S)
         else (DevSuccess, set_dev i (case m of
             None \<Rightarrow> d\<lparr>master := None, sprite := True, spriteOwner := False, paired := Some i\<rparr>
           | Some j \<Rightarrow> d\<lparr>master := Some j, sprite := (case dev_store S j of Some md \<Rightarrow> sprite md | None \<Rightarrow> False),
                        spriteOwner := False, paired := Some j\<rparr>) S))"

section \<open>Adding and removing\<close>

definition fresh_dev :: "device_proc \<Rightarrow> dev" where
  "fresh_dev p = \<lparr>dev_type = NO_TYPE, deviceProc = p, dev_on = False, inited = False, enabled = False, coreEvents = True,
     master = None, sprite = False, spriteOwner = False, paired = None, lastSlave = None, last_slave = None, has_key = False,
     valuator = None, button = None, touch = None, ddx_touches = [], last_scroll = False, ptrfeed = [], changed_events = 0, allocs = 0\<rparr>"

text \<open>What may refuse a new device: the memory for it, its privates, the security hook.\<close>

record add_env =
  dev_memory :: bool
  dev_privates :: bool
  dev_access :: bool

definition free_id :: "inputInfo \<Rightarrow> nat option" where
  "free_id S = find (\<lambda>i. i \<notin> set (devs S) \<union> set (off_devs S)) [2..<MAXDEVICES]"

definition AddInputDevice :: "add_env \<Rightarrow> device_proc \<Rightarrow> inputInfo \<Rightarrow> nat option \<times> inputInfo" where
  "AddInputDevice E p S = (case free_id S of
       None \<Rightarrow> (None, S)
     | Some i \<Rightarrow>
         if \<not> dev_memory E \<or> \<not> dev_privates E \<or> \<not> dev_access E then (None, S)
         else (Some i, (set_dev i (fresh_dev p) S)\<lparr>numDevices := numDevices S + 1, off_devs := off_devs S @ [i]\<rparr>))"

text \<open>\<open>cursor_ok\<close> is the answer of \<^verbatim>\<open>DeviceCursorInitialize\<close>, which is asked for a master only.\<close>

definition ActivateDevice :: "driver \<Rightarrow> bool \<Rightarrow> nat \<Rightarrow> inputInfo \<Rightarrow> (dev_status \<times> inputInfo) option" where
  "ActivateDevice call cursor_ok i S = (case dev_store S i of
       None \<Rightarrow> Some (DevBadImplementation, S)
     | Some d \<Rightarrow> (case call DEVICE_INIT d of
           None \<Rightarrow> None
         | Some (ret, d') \<Rightarrow>
             let S1 = set_dev i (d'\<lparr>inited := (ret = DevSuccess)\<rparr>) S in
             if ret \<noteq> DevSuccess then Some (ret, S1)
             else Some (if IsMaster d' \<and> spriteOwner d' \<and> \<not> cursor_ok then DevBadAlloc else DevSuccess,
                        SendDevicePresenceEvent i DeviceAdded S1)))"

definition NextFreePointerDevice :: "inputInfo \<Rightarrow> nat option" where
  "NextFreePointerDevice S = find (\<lambda>i. case dev_store S i of
       None \<Rightarrow> False | Some d \<Rightarrow> IsMaster d \<and> spriteOwner d \<and> paired d = None) (devs S)"

definition PairDevices :: "nat \<Rightarrow> nat \<Rightarrow> inputInfo \<Rightarrow> dev_status \<times> inputInfo" where
  "PairDevices ptr kbd S = (case (dev_store S ptr, dev_store S kbd) of
       (Some p, Some k) \<Rightarrow>
         if \<not> IsMaster p \<or> \<not> IsMaster k then (DevBadDevice, S)
         else if paired p \<noteq> None then (DevBadDevice, S)
         else (DevSuccess, upd_dev ptr (\<lambda>p. p\<lparr>paired := Some kbd\<rparr>)
                 (set_dev kbd (k\<lparr>spriteOwner := False, sprite := sprite p, paired := Some ptr\<rparr>) S))
     | _ \<Rightarrow> (DevBadDevice, S))"

text \<open>The first part of \<^verbatim>\<open>EnableDevice\<close>: a device without a sprite gets one, is paired, or is attached.\<close>

definition give_sprite :: "nat \<Rightarrow> dev \<Rightarrow> inputInfo \<Rightarrow> inputInfo option" where
  "give_sprite i d S =
     (if sprite d then Some S
      else if IsMaster d then
        if spriteOwner d then Some (set_dev i (d\<lparr>sprite := True\<rparr>) S)
        else (case NextFreePointerDevice S of None \<Rightarrow> None | Some ptr \<Rightarrow> Some (snd (PairDevices ptr i S)))
      else Some (snd (AttachDevice i
             (if coreEvents d then Some (if IsPointerDevice d then vc_pointer S else vc_keyboard S) else None) S)))"

definition EnableDevice :: "driver \<Rightarrow> nat \<Rightarrow> inputInfo \<Rightarrow> (bool \<times> inputInfo) option" where
  "EnableDevice call i S = (case dev_store S i of
       None \<Rightarrow> None
     | Some d0 \<Rightarrow> (case give_sprite i d0 S of
         None \<Rightarrow> Some (False, S)
       | Some S0 \<Rightarrow> (case dev_store S0 i of
           None \<Rightarrow> None
         | Some d \<Rightarrow>
             if i \<notin> set (off_devs S0) \<or> \<not> inited d then Some (False, S0)
             else (case call DEVICE_ON d of
               None \<Rightarrow> None
             | Some (ret, d1) \<Rightarrow>
                 if ret \<noteq> DevSuccess then Some (False, set_dev i d1 S0)
                 else
                   let d2 = d1\<lparr>enabled := True\<rparr>;
                       S1 = (set_dev i d2 S0)\<lparr>off_devs := remove1 i (off_devs S0), devs := devs S0 @ [i]\<rparr>
                   in Some (True, RecalculateMasterButtons i d2 (SendDevicePresenceEvent i DeviceEnabled S1))))))"

text \<open>Switching off a device that is not a master. Other devices stop referring to it.\<close>

definition forget :: "nat \<Rightarrow> dev \<Rightarrow> dev" where
  "forget i d = d\<lparr>lastSlave := (if IsMaster d \<and> lastSlave d = Some i then None else lastSlave d),
                  last_slave := (if last_slave d = Some i then None else last_slave d)\<rparr>"

definition forget_all :: "nat \<Rightarrow> inputInfo \<Rightarrow> inputInfo" where
  "forget_all i S = S\<lparr>dev_store := (\<lambda>j. if j \<in> set (devs S) then map_option (forget i) (dev_store S j) else dev_store S j)\<rparr>"

definition DisableSlave :: "driver \<Rightarrow> nat \<Rightarrow> inputInfo \<Rightarrow> (bool \<times> inputInfo) option" where
  "DisableSlave call i S = (case dev_store S i of
       None \<Rightarrow> None
     | Some d \<Rightarrow>
         if \<not> enabled d then Some (True, S)
         else if i \<notin> set (devs S) then Some (False, S)
         else (case call DEVICE_OFF (d\<lparr>paired := None\<rparr>) of
           None \<Rightarrow> None
         | Some (_, d1) \<Rightarrow>
             let d2 = forget i (d1\<lparr>enabled := False, sprite := False\<rparr>);
                 S1 = set_dev i d2 (forget_all i S);
                 S2 = S1\<lparr>devs := remove1 i (devs S), off_devs := i # off_devs S\<rparr>;
                 S3 = RecalculateMasterButtons i d2 (SendDevicePresenceEvent i DeviceDisabled S2)
             in Some (True, upd_dev i (\<lambda>d. d\<lparr>master := None\<rparr>) S3)))"

definition CloseDevice :: "driver \<Rightarrow> nat \<Rightarrow> inputInfo \<Rightarrow> inputInfo option" where
  "CloseDevice call i S = (case dev_store S i of
       None \<Rightarrow> Some S
     | Some d \<Rightarrow>
         if inited d \<and> call DEVICE_CLOSE d = None then None
         else Some (S\<lparr>dev_store := (dev_store S)(i := None)\<rparr>))"

definition RemoveDevice :: "driver \<Rightarrow> nat \<Rightarrow> inputInfo \<Rightarrow> (dev_status \<times> inputInfo) option" where
  "RemoveDevice call i S =
     (if i = vc_keyboard S \<or> i = vc_pointer S then Some (DevBadImplementation, S)
      else case dev_store S i of
        None \<Rightarrow> None
      | Some d \<Rightarrow> (case (if inited d then DisableSlave call i S else Some (True, S)) of
          None \<Rightarrow> None
        | Some (_, S1) \<Rightarrow>
            if i \<in> set (devs S1) \<union> set (off_devs S1) then
              (case CloseDevice call i S1 of
                 None \<Rightarrow> None
               | Some S2 \<Rightarrow>
                   let S3 = S2\<lparr>devs := remove1 i (devs S2), off_devs := remove1 i (off_devs S2)\<rparr>
                   in Some (DevSuccess,
                        if inited d then SendDevicePresenceEvent i DeviceRemoved (S3\<lparr>numDevices := numDevices S3 - 1\<rparr>)
                        else S3))
            else Some (DevBadMatch, S1)))"

section \<open>Invariant\<close>

text \<open>What a driver may not touch, and what the hierarchy relies on.\<close>

definition admin where
  "admin d = (dev_type d, deviceProc d, inited d, enabled d, coreEvents d, master d, sprite d, spriteOwner d, paired d,
     lastSlave d, last_slave d)"

lemma admin_eqD:
  assumes "admin d' = admin d"
  shows "dev_type d' = dev_type d" "deviceProc d' = deviceProc d" "inited d' = inited d" "enabled d' = enabled d"
    "coreEvents d' = coreEvents d" "master d' = master d" "sprite d' = sprite d" "spriteOwner d' = spriteOwner d"
    "paired d' = paired d" "lastSlave d' = lastSlave d" "last_slave d' = last_slave d"
  using assms by (simp_all add: admin_def)

lemma IsMaster_admin: "admin d' = admin d \<Longrightarrow> IsMaster d' = IsMaster d"
  using admin_eqD(1) [of d' d] by (simp add: IsMaster_def)

definition refs_ok :: "inputInfo \<Rightarrow> nat \<Rightarrow> dev \<Rightarrow> bool" where
  "refs_ok S i d =
     ((\<forall>k. master d = Some k \<longrightarrow> is_master S k) \<and>
      (\<forall>k. paired d = Some k \<longrightarrow> k = i \<or> is_master S k) \<and>
      (if IsMaster d
       then i \<in> set (devs S) \<longrightarrow> (\<forall>k. lastSlave d = Some k \<or> last_slave d = Some k \<longrightarrow> k \<in> set (devs S))
       else lastSlave d = None \<and> last_slave d = None))"

definition dev_ok :: "inputInfo \<Rightarrow> nat \<Rightarrow> dev \<Rightarrow> bool" where
  "dev_ok S i d = ((enabled d \<longleftrightarrow> i \<in> set (devs S)) \<and> (enabled d \<longrightarrow> inited d) \<and> refs_ok S i d)"

definition wf_devices :: "inputInfo \<Rightarrow> bool" where
  "wf_devices S =
     (distinct (devs S @ off_devs S) \<and> (\<forall>i. dev_store S i \<noteq> None \<longleftrightarrow> i \<in> set (devs S) \<union> set (off_devs S)) \<and>
      (\<forall>i d. dev_store S i = Some d \<longrightarrow> dev_ok S i d) \<and> is_master S (vc_pointer S) \<and> is_master S (vc_keyboard S))"

text \<open>The invariant only looks at what drivers leave alone.\<close>

definition admin_view where
  "admin_view S = (devs S, off_devs S, vc_pointer S, vc_keyboard S, (\<lambda>i. map_option admin (dev_store S i)))"

lemma admin_view_eqD:
  assumes "admin_view S' = admin_view S"
  shows "devs S' = devs S" "off_devs S' = off_devs S" "vc_pointer S' = vc_pointer S" "vc_keyboard S' = vc_keyboard S"
    "map_option admin (dev_store S' i) = map_option admin (dev_store S i)"
  using assms by (simp_all add: admin_view_def fun_eq_iff)

lemma is_master_view: "admin_view S' = admin_view S \<Longrightarrow> is_master S' i = is_master S i"
  using admin_view_eqD(5) [of S' S i]
  by (cases "dev_store S' i"; cases "dev_store S i") (auto simp: is_master_def dest: IsMaster_admin)

lemma dev_ok_view:
  assumes "admin_view S' = admin_view S" "admin d' = admin d"
  shows "dev_ok S' i d' = dev_ok S i d"
  using admin_eqD [OF assms(2)] IsMaster_admin [OF assms(2)] admin_view_eqD [OF assms(1)] is_master_view [OF assms(1)]
  by (simp add: dev_ok_def refs_ok_def)

lemma wf_view_imp:
  assumes v: "admin_view S' = admin_view S" and wf: "wf_devices S"
  shows "wf_devices S'"
proof -
  note eq = admin_view_eqD [OF v]
  have "dev_store S' i \<noteq> None \<longleftrightarrow> dev_store S i \<noteq> None" for i using eq(5) [of i] by (cases "dev_store S' i"; cases "dev_store S i") auto
  moreover have "dev_ok S' i d'" if "dev_store S' i = Some d'" for i d'
  proof -
    from eq(5) [of i] that obtain d where "dev_store S i = Some d" "admin d' = admin d" by (cases "dev_store S i") auto
    then show ?thesis using dev_ok_view [OF v] wf by (auto simp: wf_devices_def)
  qed
  ultimately show ?thesis using wf is_master_view [OF v] by (simp add: wf_devices_def eq)
qed

lemma admin_view_presence [simp]: "admin_view (SendDevicePresenceEvent i k S) = admin_view S"
  by (simp add: SendDevicePresenceEvent_def admin_view_def)

lemma admin_set_buttons [simp]: "admin (set_buttons n d) = admin d"
  by (simp add: set_buttons_def admin_def)

lemma admin_view_upd: "(\<And>d. dev_store S i = Some d \<Longrightarrow> admin (f d) = admin d) \<Longrightarrow> admin_view (upd_dev i f S) = admin_view S"
  by (cases "dev_store S i") (auto simp: upd_dev_def admin_view_def fun_eq_iff)

lemma admin_view_set: "dev_store S i = Some d \<Longrightarrow> admin d' = admin d \<Longrightarrow> admin_view (set_dev i d' S) = admin_view S"
  by (auto simp: set_dev_def admin_view_def fun_eq_iff)

lemma admin_view_recalc [simp]: "admin_view (RecalculateMasterButtons i d S) = admin_view S"
  by (auto simp: RecalculateMasterButtons_def intro!: admin_view_upd split: option.splits)

lemmas wf_recalc = wf_view_imp [OF admin_view_recalc]
lemmas wf_presence = wf_view_imp [OF admin_view_presence]

text \<open>Changing one device, and moving it between the lists.\<close>

lemma is_master_set: "dev_store S i = Some d \<Longrightarrow> IsMaster d' = IsMaster d \<Longrightarrow> is_master (set_dev i d' S) j = is_master S j"
  by (simp add: is_master_def set_dev_def)

lemma wf_set:
  assumes wf: "wf_devices S" and d: "dev_store S i = Some d" "IsMaster d' = IsMaster d" "dev_ok S i d'"
  shows "wf_devices (set_dev i d' S)"
proof -
  have m: "is_master (set_dev i d' S) = is_master S" using is_master_set [OF d(1,2)] by (simp add: fun_eq_iff)
  have l: "devs (set_dev i d' S) = devs S" "off_devs (set_dev i d' S) = off_devs S"
    "vc_pointer (set_dev i d' S) = vc_pointer S" "vc_keyboard (set_dev i d' S) = vc_keyboard S" by (simp_all add: set_dev_def)
  have ok: "dev_ok (set_dev i d' S) = dev_ok S" by (simp add: dev_ok_def refs_ok_def m l fun_eq_iff)
  have st: "dev_store (set_dev i d' S) = (dev_store S)(i \<mapsto> d')" by (simp add: set_dev_def)
  have "dev_ok S j e" if "((dev_store S)(i \<mapsto> d')) j = Some e" for j e
    using that wf d(3) by (auto simp: wf_devices_def split: if_splits)
  moreover have "((dev_store S)(i \<mapsto> d')) j \<noteq> None \<longleftrightarrow> dev_store S j \<noteq> None" for j using d(1) by auto
  ultimately show ?thesis using wf by (simp add: wf_devices_def m l ok st)
qed

lemma wf_dev_ok: "wf_devices S \<Longrightarrow> dev_store S i = Some d \<Longrightarrow> dev_ok S i d"
  by (simp add: wf_devices_def)

lemma wf_listed: "wf_devices S \<Longrightarrow> dev_store S i = Some d \<Longrightarrow> i \<in> set (devs S) \<union> set (off_devs S)"
  unfolding wf_devices_def by (metis option.distinct(1))

lemma wf_AttachDevice:
  assumes "wf_devices S"
  shows "wf_devices (snd (AttachDevice i m S))"
proof (cases "dev_store S i")
  case (Some d)
  have wf: "wf_devices (set_dev i d' S)" if "IsMaster d' = IsMaster d" "dev_ok S i d'" for d'
    using wf_set [OF assms Some that] .
  have "dev_ok S i d" using wf_dev_ok [OF assms Some] .
  then show ?thesis using assms Some wf
    by (auto simp: AttachDevice_def dev_ok_def refs_ok_def IsMaster_def split: option.splits)
qed (use assms in \<open>simp add: AttachDevice_def\<close>)

lemma AttachDevice_frame:
  "devs (snd (AttachDevice i m S)) = devs S" "off_devs (snd (AttachDevice i m S)) = off_devs S"
  "vc_pointer (snd (AttachDevice i m S)) = vc_pointer S" "vc_keyboard (snd (AttachDevice i m S)) = vc_keyboard S"
  "j \<noteq> i \<Longrightarrow> dev_store (snd (AttachDevice i m S)) j = dev_store S j"
  by (auto simp: AttachDevice_def set_dev_def split: option.splits)

lemma AttachDevice_dev:
  assumes "dev_store S i = Some d"
  obtains d' where "dev_store (snd (AttachDevice i m S)) i = Some d'" "IsMaster d' = IsMaster d" "deviceProc d' = deviceProc d"
    "inited d' = inited d" "enabled d' = enabled d" "button d' = button d"
proof -
  have "\<exists>d'. dev_store (snd (AttachDevice i m S)) i = Some d' \<and> IsMaster d' = IsMaster d \<and> deviceProc d' = deviceProc d \<and>
      inited d' = inited d \<and> enabled d' = enabled d \<and> button d' = button d"
    using assms by (auto simp: AttachDevice_def set_dev_def IsMaster_def split: option.splits)
  then show thesis using that by blast
qed

lemma wf_switched_on:
  assumes wf: "wf_devices S" and d: "dev_store S i = Some d" "inited d" "\<not> IsMaster d" "i \<in> set (off_devs S)"
  shows "wf_devices ((set_dev i (d\<lparr>enabled := True\<rparr>) S)\<lparr>off_devs := remove1 i (off_devs S), devs := devs S @ [i]\<rparr>)"
    (is "wf_devices ?S")
proof -
  have m: "is_master ?S = is_master S" using d(1) by (auto simp: is_master_def set_dev_def IsMaster_def fun_eq_iff)
  have dist: "distinct (devs S @ off_devs S)" using wf by (simp add: wf_devices_def)
  have "dev_ok ?S j e" if "dev_store ?S j = Some e" for j e
  proof (cases "j = i")
    case True
    then have "e = d\<lparr>enabled := True\<rparr>" using that by (simp add: set_dev_def)
    then show ?thesis using wf_dev_ok [OF wf d(1)] d True by (simp add: dev_ok_def refs_ok_def m IsMaster_def)
  next
    case False
    then have "dev_ok S j e" using that wf by (simp add: set_dev_def wf_devices_def)
    then show ?thesis using False by (auto simp: dev_ok_def refs_ok_def m)
  qed
  moreover have "set (devs ?S) \<union> set (off_devs ?S) = set (devs S) \<union> set (off_devs S)"
    using d(4) dist by auto
  moreover have "distinct (devs ?S @ off_devs ?S)" using dist d(4) by auto
  moreover have "dev_store ?S j \<noteq> None \<longleftrightarrow> dev_store S j \<noteq> None" for j using d(1) by (auto simp: set_dev_def)
  ultimately show ?thesis using wf by (simp add: wf_devices_def m del: set_remove1_eq) (simp add: set_dev_def)
qed

lemma IsMaster_forget [simp]: "IsMaster (forget i d) = IsMaster d"
  by (simp add: forget_def IsMaster_def)

lemma wf_switched_off:
  assumes wf: "wf_devices S" and d: "dev_store S i = Some d" "\<not> IsMaster d" "i \<in> set (devs S)"
    and d': "\<not> IsMaster d'" "\<not> enabled d'" "lastSlave d' = None" "last_slave d' = None" "paired d' = None"
      "\<forall>k. master d' = Some k \<longrightarrow> is_master S k"
  shows "wf_devices ((set_dev i d' (forget_all i S))\<lparr>devs := remove1 i (devs S), off_devs := i # off_devs S\<rparr>)"
    (is "wf_devices ?S")
proof -
  have dist: "distinct (devs S @ off_devs S)" using wf by (simp add: wf_devices_def)
  have st: "dev_store ?S j = (if j = i then Some d' else if j \<in> set (devs S) then map_option (forget i) (dev_store S j) else dev_store S j)" for j
    by (simp add: set_dev_def forget_all_def)
  have m: "is_master ?S = is_master S"
    using d d'(1) unfolding is_master_def fun_eq_iff st by (auto split: option.splits)
  have on: "set (devs ?S) = set (devs S) - {i}" using dist by simp
  have "dev_ok ?S j e" if e: "dev_store ?S j = Some e" for j e
  proof -
    consider "j = i" | f where "j \<noteq> i" "dev_store S j = Some f" "e = (if j \<in> set (devs S) then forget i f else f)"
      using e unfolding st by (auto split: if_splits)
    then show ?thesis
    proof cases
      case 1
      with e have "e = d'" unfolding st by simp
      with 1 d' show ?thesis unfolding dev_ok_def refs_ok_def m on by simp
    next
      case 2
      from wf_dev_ok [OF wf 2(2)] have "dev_ok S j f" .
      with 2(1,3) show ?thesis unfolding dev_ok_def refs_ok_def m on by (auto simp: forget_def IsMaster_def)
    qed
  qed
  moreover have "set (devs ?S) \<union> set (off_devs ?S) = set (devs S) \<union> set (off_devs S)" using d(3) on by auto
  moreover have "distinct (devs ?S @ off_devs ?S)" using dist d(3) by auto
  moreover have "dev_store ?S j \<noteq> None \<longleftrightarrow> dev_store S j \<noteq> None" for j using d(1) unfolding st by auto
  moreover have "vc_pointer ?S = vc_pointer S" "vc_keyboard ?S = vc_keyboard S" by (simp_all add: set_dev_def forget_all_def)
  ultimately show ?thesis using wf unfolding wf_devices_def m by metis
qed

lemma wf_removed:
  assumes wf: "wf_devices S" and d: "dev_store S i = Some d" "\<not> IsMaster d" "i \<notin> set (devs S)"
  shows "wf_devices (S\<lparr>dev_store := (dev_store S)(i := None), off_devs := remove1 i (off_devs S)\<rparr>)" (is "wf_devices ?S")
proof -
  have dist: "distinct (devs S @ off_devs S)" using wf by (simp add: wf_devices_def)
  have m: "is_master ?S = is_master S" using d(1,2) by (auto simp: is_master_def fun_eq_iff)
  have "dev_ok ?S j e" if "dev_store ?S j = Some e" for j e
  proof -
    have "dev_ok S j e" using that wf by (simp add: wf_devices_def split: if_splits)
    then show ?thesis by (simp add: dev_ok_def refs_ok_def m)
  qed
  moreover have "set (devs ?S) \<union> set (off_devs ?S) = (set (devs S) \<union> set (off_devs S)) - {i}" using dist d(3) by auto
  moreover have "distinct (devs ?S @ off_devs ?S)" using dist by (auto dest: notin_set_remove1)
  moreover have "dev_store ?S j \<noteq> None \<longleftrightarrow> dev_store S j \<noteq> None \<and> j \<noteq> i" for j by simp
  moreover have "vc_pointer ?S = vc_pointer S" "vc_keyboard ?S = vc_keyboard S" by simp_all
  ultimately show ?thesis using wf unfolding wf_devices_def m by (metis DiffE DiffI insertCI singletonD)
qed

lemma free_id_fresh:
  assumes "free_id S = Some i"
  shows "i \<notin> set (devs S)" "i \<notin> set (off_devs S)" "2 \<le> i" "i < MAXDEVICES"
  using assms unfolding free_id_def find_Some_iff by (auto simp: nth_append)

lemma free_id_exists:
  assumes "length (devs S) + length (off_devs S) < MAXDEVICES - 2"
  obtains i where "free_id S = Some i"
proof (cases "free_id S")
  case None
  then have "{2..<MAXDEVICES} \<subseteq> set (devs S @ off_devs S)" unfolding free_id_def find_None_iff by auto
  from card_mono [OF _ this] have "MAXDEVICES - 2 \<le> card (set (devs S @ off_devs S))" by simp
  also have "\<dots> \<le> length (devs S @ off_devs S)" by (rule card_length)
  finally show thesis using assms by simp
qed (use that in simp)

lemma wf_AddInputDevice:
  assumes wf: "wf_devices S" and add: "AddInputDevice E p S = (r, S')"
  shows "wf_devices S'"
proof (cases r)
  case None
  then show ?thesis using wf add by (auto simp: AddInputDevice_def split: option.splits if_splits)
next
  case (Some i)
  then have i: "free_id S = Some i"
    and S': "S' = (set_dev i (fresh_dev p) S)\<lparr>numDevices := numDevices S + 1, off_devs := off_devs S @ [i]\<rparr>"
    using add by (auto simp: AddInputDevice_def split: option.splits if_splits)
  note fr = free_id_fresh [OF i]
  have none: "dev_store S i = None" using wf fr by (auto simp: wf_devices_def)
  have m: "is_master S' j = is_master S j" for j using none by (simp add: S' is_master_def set_dev_def fresh_dev_def IsMaster_def)
  have "dev_ok S' j e" if "dev_store S' j = Some e" for j e
  proof (cases "j = i")
    case True
    then show ?thesis using that fr by (auto simp: S' set_dev_def dev_ok_def refs_ok_def fresh_dev_def IsMaster_def)
  next
    case False
    then have "dev_ok S j e" using that wf by (simp add: S' set_dev_def wf_devices_def)
    then show ?thesis by (simp add: dev_ok_def refs_ok_def m) (simp add: S' set_dev_def)
  qed
  moreover have "distinct (devs S' @ off_devs S')" using wf fr by (simp add: S' set_dev_def wf_devices_def)
  moreover have "dev_store S' j \<noteq> None \<longleftrightarrow> j \<in> set (devs S') \<union> set (off_devs S')" for j
    using wf by (auto simp: S' set_dev_def wf_devices_def)
  moreover have "vc_pointer S' = vc_pointer S" "vc_keyboard S' = vc_keyboard S" by (simp_all add: S' set_dev_def)
  ultimately show ?thesis using wf by (simp add: wf_devices_def m)
qed

section \<open>Drivers\<close>

text \<open>What the hierarchy relies on of the driver of a device: it leaves the administration of the device alone, it
  can always be switched on, off and closed.\<close>

definition view :: "inputInfo \<Rightarrow> nat \<Rightarrow> (device_type \<times> device_proc \<times> bool \<times> bool \<times> bool \<times> nat option \<times> bool \<times> bool \<times>
    nat option \<times> nat option \<times> nat option) option" where
  "view S j = map_option admin (dev_store S j)"

lemma view_of_admin_view: "admin_view S' = admin_view S \<Longrightarrow> view S' = view S"
  by (simp add: view_def admin_view_def fun_eq_iff)

lemma view_recalc [simp]: "view (RecalculateMasterButtons i d S) = view S"
  by (rule view_of_admin_view) simp

lemma view_presence [simp]: "view (SendDevicePresenceEvent i k S) = view S"
  by (rule view_of_admin_view) simp

lemma view_SomeD:
  assumes "view S' i = Some (admin d)"
  obtains d' where "dev_store S' i = Some d'" "admin d' = admin d"
  using assms that by (auto simp: view_def)

locale slave_driver =
  fixes call :: driver and own :: "device_proc set"
  assumes admin_kept: "deviceProc d \<in> own \<Longrightarrow> call w d = Some (s, d') \<Longrightarrow> admin d' = admin d"
    and on_succeeds: "deviceProc d \<in> own \<Longrightarrow> \<exists>d'. call DEVICE_ON d = Some (DevSuccess, d')"
    and off_answers: "deviceProc d \<in> own \<Longrightarrow> \<exists>s d'. call DEVICE_OFF d = Some (s, d')"
    and close_answers: "deviceProc d \<in> own \<Longrightarrow> \<exists>s d'. call DEVICE_CLOSE d = Some (s, d')"
begin

lemma activate_result:
  assumes wf: "wf_devices S" and d: "dev_store S i = Some d" "deviceProc d \<in> own" "\<not> enabled d"
    and c: "call DEVICE_INIT d = Some (ret, d')"
  shows "\<exists>r S'. ActivateDevice call cok i S = Some (r, S') \<and> wf_devices S' \<and> devs S' = devs S \<and> off_devs S' = off_devs S \<and>
    numDevices S' = numDevices S \<and>
    vc_pointer S' = vc_pointer S \<and> vc_keyboard S' = vc_keyboard S \<and> (\<forall>j. j \<noteq> i \<longrightarrow> view S' j = view S j) \<and>
    view S' i = Some (admin (d\<lparr>inited := (ret = DevSuccess)\<rparr>))"
proof -
  let ?d = "d'\<lparr>inited := (ret = DevSuccess)\<rparr>"
  have a: "admin d' = admin d" using admin_kept [OF d(2) c] .
  then have v: "admin ?d = admin (d\<lparr>inited := (ret = DevSuccess)\<rparr>)" by (simp add: admin_def)
  have ok: "dev_ok S i ?d" "IsMaster ?d = IsMaster d"
    using wf_dev_ok [OF wf d(1)] d(3) admin_eqD [OF a] by (simp_all add: dev_ok_def refs_ok_def IsMaster_def)
  have w: "wf_devices (set_dev i ?d S)" by (rule wf_set [OF wf d(1) ok(2,1)])
  have vs: "view (set_dev i ?d S) j = (if j = i then Some (admin (d\<lparr>inited := (ret = DevSuccess)\<rparr>)) else view S j)" for j
    using v by (simp add: view_def set_dev_def)
  show ?thesis
  proof (cases "ret = DevSuccess")
    case True
    have "\<exists>r. ActivateDevice call cok i S = Some (r, SendDevicePresenceEvent i DeviceAdded (set_dev i ?d S))"
      using d(1) c True by (simp add: ActivateDevice_def Let_def)
    then obtain r where "ActivateDevice call cok i S = Some (r, SendDevicePresenceEvent i DeviceAdded (set_dev i ?d S))" by blast
    then show ?thesis using w vs wf_presence [OF w, of i DeviceAdded]
      by (intro exI conjI) (assumption | simp add: vs | simp add: SendDevicePresenceEvent_def set_dev_def)+
  next
    case False
    then have "ActivateDevice call cok i S = Some (ret, set_dev i ?d S)" using d(1) c by (simp add: ActivateDevice_def Let_def)
    then show ?thesis using w
      by (intro exI conjI) (assumption | simp add: vs | simp add: set_dev_def)+
  qed
qed

lemma give_sprite_result:
  assumes wf: "wf_devices S" and d: "dev_store S i = Some d" "\<not> IsMaster d"
  shows "\<exists>S0 d0. give_sprite i d S = Some S0 \<and> wf_devices S0 \<and> dev_store S0 i = Some d0 \<and> IsMaster d0 = IsMaster d \<and>
     deviceProc d0 = deviceProc d \<and> inited d0 = inited d \<and> devs S0 = devs S \<and> off_devs S0 = off_devs S \<and>
     vc_pointer S0 = vc_pointer S \<and> vc_keyboard S0 = vc_keyboard S \<and> numDevices S0 = numDevices S \<and>
     (\<forall>j. j \<noteq> i \<longrightarrow> dev_store S0 j = dev_store S j)"
proof (cases "sprite d")
  case False
  let ?m = "if coreEvents d then Some (if IsPointerDevice d then vc_pointer S else vc_keyboard S) else None"
  let ?S = "snd (AttachDevice i ?m S)"
  obtain d0 where "dev_store ?S i = Some d0" "IsMaster d0 = IsMaster d" "deviceProc d0 = deviceProc d" "inited d0 = inited d"
    using AttachDevice_dev [OF d(1), where m = ?m] by blast
  moreover have "give_sprite i d S = Some ?S" using False d(2) by (simp add: give_sprite_def)
  moreover have "numDevices ?S = numDevices S"
    by (simp add: AttachDevice_def set_dev_def split: option.splits)
  ultimately show ?thesis using wf_AttachDevice [OF wf, where i = i and m = ?m] AttachDevice_frame [where i = i and m = ?m and S = S]
    by (intro exI [of _ ?S] exI [of _ d0]) simp
qed (use assms in \<open>simp add: give_sprite_def\<close>)

lemma enable_result:
  assumes wf: "wf_devices S" and d: "dev_store S i = Some d" "\<not> IsMaster d" "deviceProc d \<in> own" "inited d" "i \<in> set (off_devs S)"
  shows "\<exists>S' d'. EnableDevice call i S = Some (True, S') \<and> wf_devices S' \<and> devs S' = devs S @ [i] \<and>
    off_devs S' = remove1 i (off_devs S) \<and> vc_pointer S' = vc_pointer S \<and> vc_keyboard S' = vc_keyboard S \<and>
    numDevices S' = numDevices S \<and> (\<forall>j. j \<noteq> i \<longrightarrow> view S' j = view S j) \<and>
    dev_store S' i = Some d' \<and> \<not> IsMaster d' \<and> deviceProc d' = deviceProc d \<and> inited d' \<and> enabled d'"
proof -
  obtain S0 d0 where g: "give_sprite i d S = Some S0" "wf_devices S0" and d0: "dev_store S0 i = Some d0" "IsMaster d0 = IsMaster d"
      "deviceProc d0 = deviceProc d" "inited d0 = inited d"
    and fr: "devs S0 = devs S" "off_devs S0 = off_devs S" "vc_pointer S0 = vc_pointer S" "vc_keyboard S0 = vc_keyboard S"
      "numDevices S0 = numDevices S" "\<forall>j. j \<noteq> i \<longrightarrow> dev_store S0 j = dev_store S j"
    using give_sprite_result [OF wf d(1,2)] by blast
  obtain d1 where c: "call DEVICE_ON d0 = Some (DevSuccess, d1)" using on_succeeds [of d0] d0(3) d(3) by auto
  then have a: "admin d1 = admin d0" using admin_kept [of d0] d0(3) d(3) by simp
  let ?d2 = "d1\<lparr>enabled := True\<rparr>"
  let ?S1 = "(set_dev i ?d2 S0)\<lparr>off_devs := remove1 i (off_devs S0), devs := devs S0 @ [i]\<rparr>"
  let ?S2 = "SendDevicePresenceEvent i DeviceEnabled ?S1"
  let ?S' = "RecalculateMasterButtons i ?d2 ?S2"
  have e: "EnableDevice call i S = Some (True, ?S')"
    using d g(1) d0 fr(2) c by (simp add: EnableDevice_def Let_def)
  have m: "\<not> IsMaster d1" "inited d1" "deviceProc d1 = deviceProc d"
    using IsMaster_admin [OF a] admin_eqD [OF a] d0 d by simp_all
  have "wf_devices (set_dev i d1 S0)"
    using wf_view_imp [OF admin_view_set [OF d0(1) a] g(2)] .
  then have "wf_devices ((set_dev i ?d2 (set_dev i d1 S0))\<lparr>off_devs := remove1 i (off_devs S0), devs := devs S0 @ [i]\<rparr>)"
    using wf_switched_on [of "set_dev i d1 S0" i d1] m d(5) fr(2) by (simp add: set_dev_def)
  then have "wf_devices ?S1" by (simp add: set_dev_def)
  then have w: "wf_devices ?S'" by (intro wf_recalc wf_presence)
  have vS: "view ?S' j = view ?S1 j" for j by simp
  have va: "view ?S' j = view S j" if "j \<noteq> i" for j
    unfolding vS using that fr(6) by (simp add: view_def set_dev_def)
  have "view ?S' i = Some (admin ?d2)" unfolding vS by (simp add: view_def set_dev_def)
  then obtain d' where d': "dev_store ?S' i = Some d'" "admin d' = admin ?d2" by (rule view_SomeD)
  have "devs ?S' = devs ?S1" "off_devs ?S' = off_devs ?S1" "vc_pointer ?S' = vc_pointer ?S1" "vc_keyboard ?S' = vc_keyboard ?S1"
    "numDevices ?S' = numDevices ?S1"
    by (simp_all add: RecalculateMasterButtons_def SendDevicePresenceEvent_def upd_dev_def split: option.splits)
  then show ?thesis
    using e w va d' admin_eqD [OF d'(2)] IsMaster_admin [OF d'(2)] m fr
    by (intro exI [of _ ?S'] exI [of _ d'] conjI) (assumption | simp add: set_dev_def IsMaster_def)+
qed

text \<open>Switching off and removing: the other devices forget the device and keep everything else.\<close>

lemma disable_result:
  assumes wf: "wf_devices S" and d: "dev_store S i = Some d" "\<not> IsMaster d" "deviceProc d \<in> own" "enabled d"
  shows "\<exists>S' d'. DisableSlave call i S = Some (True, S') \<and> wf_devices S' \<and> devs S' = remove1 i (devs S) \<and>
    off_devs S' = i # off_devs S \<and> vc_pointer S' = vc_pointer S \<and> vc_keyboard S' = vc_keyboard S \<and>
    numDevices S' = numDevices S \<and> (\<forall>j. j \<noteq> i \<longrightarrow> view S' j = view (forget_all i S) j) \<and>
    dev_store S' i = Some d' \<and> \<not> IsMaster d' \<and> deviceProc d' = deviceProc d \<and> inited d' = inited d \<and> \<not> enabled d'"
proof -
  have on: "i \<in> set (devs S)" and ok: "refs_ok S i d" using wf_dev_ok [OF wf d(1)] d(4) by (simp_all add: dev_ok_def)
  obtain s d1 where c: "call DEVICE_OFF (d\<lparr>paired := None\<rparr>) = Some (s, d1)" using off_answers [of "d\<lparr>paired := None\<rparr>"] d(3) by auto
  then have a: "admin d1 = admin (d\<lparr>paired := None\<rparr>)" using admin_kept [of "d\<lparr>paired := None\<rparr>"] d(3) by simp
  note ad = admin_eqD [OF a] IsMaster_admin [OF a]
  let ?d2 = "forget i (d1\<lparr>enabled := False, sprite := False\<rparr>)"
  let ?S2 = "(set_dev i ?d2 (forget_all i S))\<lparr>devs := remove1 i (devs S), off_devs := i # off_devs S\<rparr>"
  let ?S3 = "RecalculateMasterButtons i ?d2 (SendDevicePresenceEvent i DeviceDisabled ?S2)"
  let ?S' = "upd_dev i (\<lambda>d. d\<lparr>master := None\<rparr>) ?S3"
  have e: "DisableSlave call i S = Some (True, ?S')"
    using d on c by (simp add: DisableSlave_def Let_def)
  have p2: "\<not> IsMaster ?d2" "\<not> enabled ?d2" "lastSlave ?d2 = None" "last_slave ?d2 = None" "paired ?d2 = None"
      "\<forall>k. master ?d2 = Some k \<longrightarrow> is_master S k" "deviceProc ?d2 = deviceProc d" "inited ?d2 = inited d"
    using ad ok d(2) by (simp_all add: refs_ok_def forget_def IsMaster_def)
  have "wf_devices ?S2" using wf_switched_off [OF wf d(1,2) on p2(1-6)] .
  then have w3: "wf_devices ?S3" by (intro wf_recalc wf_presence)
  have vS: "view ?S3 j = view ?S2 j" for j by simp
  have "view ?S3 i = Some (admin ?d2)" unfolding vS by (simp add: view_def set_dev_def)
  then obtain d3 where d3: "dev_store ?S3 i = Some d3" "admin d3 = admin ?d2" by (rule view_SomeD)
  note ad3 = admin_eqD [OF d3(2)] IsMaster_admin [OF d3(2)]
  have S': "?S' = set_dev i (d3\<lparr>master := None\<rparr>) ?S3" using d3(1) by (simp add: upd_dev_def set_dev_def)
  have fr: "devs ?S3 = devs ?S2" "off_devs ?S3 = off_devs ?S2" "vc_pointer ?S3 = vc_pointer S" "vc_keyboard ?S3 = vc_keyboard S"
      "numDevices ?S3 = numDevices S"
    by (simp_all add: RecalculateMasterButtons_def SendDevicePresenceEvent_def upd_dev_def set_dev_def forget_all_def split: option.splits)
  have ok3: "dev_ok ?S3 i (d3\<lparr>master := None\<rparr>)" "IsMaster (d3\<lparr>master := None\<rparr>) = IsMaster d3"
    using wf_dev_ok [OF w3 d3(1)] by (simp_all add: dev_ok_def refs_ok_def IsMaster_def)
  have w: "wf_devices ?S'" unfolding S' by (rule wf_set [OF w3 d3(1) ok3(2,1)])
  have va: "view ?S' j = view (forget_all i S) j" if "j \<noteq> i" for j
  proof -
    have "view ?S' j = view ?S3 j" unfolding view_def upd_dev_def using that by simp
    also have "\<dots> = view ?S2 j" by (rule vS)
    also have "\<dots> = view (forget_all i S) j" using that by (simp add: view_def set_dev_def)
    finally show ?thesis .
  qed
  have lists: "devs ?S' = remove1 i (devs S)" "off_devs ?S' = i # off_devs S" "vc_pointer ?S' = vc_pointer S"
      "vc_keyboard ?S' = vc_keyboard S" "numDevices ?S' = numDevices S"
    using fr by (simp_all add: upd_dev_def)
  have d4: "dev_store ?S' i = Some (d3\<lparr>master := None\<rparr>)" unfolding S' by (simp add: set_dev_def)
  have p4: "\<not> IsMaster (d3\<lparr>master := None\<rparr>)" "deviceProc (d3\<lparr>master := None\<rparr>) = deviceProc d"
      "inited (d3\<lparr>master := None\<rparr>) = inited d" "\<not> enabled (d3\<lparr>master := None\<rparr>)"
    using ad3 p2 ok3(2) by simp_all
  show ?thesis using e w va lists d4 p4 by blast
qed

lemma remove_result:
  assumes wf: "wf_devices S" and d: "dev_store S i = Some d" "\<not> IsMaster d" "deviceProc d \<in> own"
  shows "\<exists>S'. RemoveDevice call i S = Some (DevSuccess, S') \<and> wf_devices S' \<and> devs S' = remove1 i (devs S) \<and>
    off_devs S' = remove1 i (off_devs S) \<and> vc_pointer S' = vc_pointer S \<and> vc_keyboard S' = vc_keyboard S \<and>
    numDevices S' = (if inited d then numDevices S - 1 else numDevices S) \<and>
    dev_store S' i = None \<and> (\<forall>j. j \<noteq> i \<longrightarrow> view S' j = view (if enabled d then forget_all i S else S) j)"
proof -
  have ndist: "distinct (devs S @ off_devs S)" using wf by (simp add: wf_devices_def)
  have ok: "enabled d \<longleftrightarrow> i \<in> set (devs S)" "enabled d \<longrightarrow> inited d" using wf_dev_ok [OF wf d(1)] by (simp_all add: dev_ok_def)
  have nvc: "i \<noteq> vc_keyboard S" "i \<noteq> vc_pointer S" using wf d(1,2) by (auto simp: wf_devices_def is_master_def)
  have "\<exists>S1 d1. (if inited d then DisableSlave call i S else Some (True, S)) = Some (True, S1) \<and> wf_devices S1 \<and>
      devs S1 = remove1 i (devs S) \<and> off_devs S1 = (if enabled d then i # off_devs S else off_devs S) \<and>
      vc_pointer S1 = vc_pointer S \<and> vc_keyboard S1 = vc_keyboard S \<and> numDevices S1 = numDevices S \<and>
      (\<forall>j. j \<noteq> i \<longrightarrow> view S1 j = view (if enabled d then forget_all i S else S) j) \<and>
      dev_store S1 i = Some d1 \<and> \<not> IsMaster d1 \<and> deviceProc d1 = deviceProc d \<and> inited d1 = inited d"
  proof (cases "enabled d")
    case True
    with disable_result [OF wf d] ok(2) show ?thesis by fastforce
  next
    case False
    then have "DisableSlave call i S = Some (True, S)" using d(1) by (simp add: DisableSlave_def)
    then show ?thesis using False ok(1) wf d by (intro exI [of _ S] exI [of _ d]) (simp add: remove1_idem)
  qed
  then obtain S1 d1 where dis: "(if inited d then DisableSlave call i S else Some (True, S)) = Some (True, S1)"
    and w1: "wf_devices S1" and l1: "devs S1 = remove1 i (devs S)" "off_devs S1 = (if enabled d then i # off_devs S else off_devs S)"
      "vc_pointer S1 = vc_pointer S" "vc_keyboard S1 = vc_keyboard S" "numDevices S1 = numDevices S"
    and v1: "\<forall>j. j \<noteq> i \<longrightarrow> view S1 j = view (if enabled d then forget_all i S else S) j"
    and d1: "dev_store S1 i = Some d1" "\<not> IsMaster d1" "deviceProc d1 = deviceProc d" "inited d1 = inited d" by blast
  have n: "i \<notin> set (devs S1)" using ndist l1(1) by simp
  then have off: "i \<in> set (off_devs S1)" using wf_listed [OF w1 d1(1)] by simp
  obtain s d2 where c: "call DEVICE_CLOSE d1 = Some (s, d2)" using close_answers [of d1] d1(3) d(3) by auto
  let ?S2 = "S1\<lparr>dev_store := (dev_store S1)(i := None)\<rparr>"
  let ?S3 = "?S2\<lparr>devs := remove1 i (devs S1), off_devs := remove1 i (off_devs S1)\<rparr>"
  let ?S' = "if inited d then SendDevicePresenceEvent i DeviceRemoved (?S3\<lparr>numDevices := numDevices S1 - 1\<rparr>) else ?S3"
  have r: "RemoveDevice call i S = Some (DevSuccess, ?S')"
    using nvc d(1) dis off d1(1) c by (simp add: RemoveDevice_def CloseDevice_def Let_def)
  have S3: "?S3 = S1\<lparr>dev_store := (dev_store S1)(i := None), off_devs := remove1 i (off_devs S1)\<rparr>"
    using n by (simp add: remove1_idem)
  have w3: "wf_devices ?S3" unfolding S3 by (rule wf_removed [OF w1 d1(1,2) n])
  then have w: "wf_devices ?S'" using wf_view_imp [OF _ w3, of ?S'] by (simp add: admin_view_def SendDevicePresenceEvent_def)
  have "enabled d \<Longrightarrow> i \<notin> set (off_devs S)" using ok(1) ndist by auto
  then have lists: "devs ?S' = remove1 i (devs S)" "off_devs ?S' = remove1 i (off_devs S)"
    using n l1 by (auto simp: SendDevicePresenceEvent_def remove1_idem)
  show ?thesis
    using r w lists l1 v1
    by (intro exI [of _ ?S'] conjI) (assumption | simp add: SendDevicePresenceEvent_def view_def)+
qed

end

end
