(* ===== verification/Lorie_Keymap.thy ===== *)
theory Lorie_Keymap
  imports Lorie_Prelude
begin

text \<open>
  Looking keys up in an XKB keymap, \<^verbatim>\<open>lorie/InputXKB.c\<close>: translation of a keycode under a
  modifier state, the search for a keycode that yields a keysym, the modifier keys for Shift and
  level three, and NumLock. The tables of the keymap are lists; an index outside a table reads
  as \<^verbatim>\<open>NoSymbol\<close> or no action, and the column lemma shows that a well-formed keymap never needs
  that.
\<close>

section \<open>Keymaps\<close>

type_synonym keysym = u32
type_synonym keycode = nat
type_synonym mods = u32

definition NoSymbol :: keysym where "NoSymbol = 0"
definition ShiftMask :: mods where "ShiftMask = 1"
definition LockMask :: mods where "LockMask = 2"

definition XK_ISO_Level3_Shift :: keysym where "XK_ISO_Level3_Shift = 0xfe03"
definition XK_Mode_switch :: keysym where "XK_Mode_switch = 0xff7e"
definition XK_Num_Lock :: keysym where "XK_Num_Lock = 0xff7f"
definition XK_Tab :: keysym where "XK_Tab = 0xff09"

datatype xkb_action = SetMods (use_modmap: bool) (act_mask: mods) | LockMods (use_modmap: bool) (act_mask: mods) | OtherAction

record kt_entry =
  active :: bool
  entry_mask :: mods
  level :: nat

record key_type =
  type_mask :: mods
  num_levels :: nat
  type_map :: "kt_entry list"
  type_preserve :: "mods list option"

datatype out_of_range = WrapIntoRange | ClampIntoRange | RedirectIntoRange nat

record key_rec =
  num_groups :: nat
  group_action :: out_of_range
  group_width :: nat
  kt_index :: "nat list"
  syms :: "keysym list"
  acts :: "xkb_action list option"
  key_name0 :: u8

record xkb_desc =
  min_key_code :: keycode
  max_key_code :: keycode
  types :: "key_type list"
  keys :: "keycode \<Rightarrow> key_rec"
  modmap :: "keycode \<Rightarrow> mods"
  has_names :: bool

definition no_type :: key_type where
  "no_type = \<lparr>type_mask = 0, num_levels = 1, type_map = [], type_preserve = None\<rparr>"

definition XkbKeycodeInRange :: "xkb_desc \<Rightarrow> keycode \<Rightarrow> bool" where
  "XkbKeycodeInRange xkb key \<longleftrightarrow> min_key_code xkb \<le> key \<and> key \<le> max_key_code xkb"

definition XkbKeyNumGroups :: "xkb_desc \<Rightarrow> keycode \<Rightarrow> nat" where
  "XkbKeyNumGroups xkb key = num_groups (keys xkb key)"

definition XkbGroupForCoreState :: "mods \<Rightarrow> nat" where
  "XkbGroupForCoreState s = unat (drop_bit 13 s AND 3)"

definition XkbKeyKeyType :: "xkb_desc \<Rightarrow> keycode \<Rightarrow> nat \<Rightarrow> key_type" where
  "XkbKeyKeyType xkb key g =
     (case rd (kt_index (keys xkb key)) g of
        None \<Rightarrow> no_type
      | Some t \<Rightarrow> (case rd (types xkb) t of None \<Rightarrow> no_type | Some ty \<Rightarrow> ty))"

section \<open>Translation\<close>

definition effective_group :: "xkb_desc \<Rightarrow> keycode \<Rightarrow> mods \<Rightarrow> nat" where
  "effective_group xkb key ms =
     (let n = XkbKeyNumGroups xkb key; g = XkbGroupForCoreState ms in
      if g \<ge> n then
        (case group_action (keys xkb key) of
           WrapIntoRange \<Rightarrow> g mod n
         | ClampIntoRange \<Rightarrow> n - 1
         | RedirectIntoRange r \<Rightarrow> if r \<ge> n then 0 else r)
      else g)"

text \<open>The first active entry of the type whose modifiers match: its index and level.\<close>

fun find_level :: "mods \<Rightarrow> mods \<Rightarrow> kt_entry list \<Rightarrow> nat \<Rightarrow> (nat \<times> nat) option" where
  "find_level ms msk [] i = None"
| "find_level ms msk (e # es) i =
     (if active e \<and> ms AND msk = entry_mask e then Some (i, level e) else find_level ms msk es (Suc i))"

definition key_column :: "xkb_desc \<Rightarrow> keycode \<Rightarrow> mods \<Rightarrow> nat" where
  "key_column xkb key ms =
     (let g = effective_group xkb key ms; ty = XkbKeyKeyType xkb key g
      in g * group_width (keys xkb key) +
         (case find_level ms (type_mask ty) (type_map ty) 0 of None \<Rightarrow> 0 | Some (i, l) \<Rightarrow> l))"

text \<open>The keysym and the modifiers the type of the key may consume.\<close>

definition XkbTranslateKeyCode :: "xkb_desc \<Rightarrow> keycode \<Rightarrow> mods \<Rightarrow> keysym \<times> mods" where
  "XkbTranslateKeyCode xkb key ms =
     (if \<not> XkbKeycodeInRange xkb key \<or> XkbKeyNumGroups xkb key = 0 then (NoSymbol, 0)
      else
        let g = effective_group xkb key ms; ty = XkbKeyKeyType xkb key g;
            preserve = (case find_level ms (type_mask ty) (type_map ty) 0 of
                          None \<Rightarrow> 0
                        | Some (i, l) \<Rightarrow> (case type_preserve ty of
                            None \<Rightarrow> 0
                          | Some ps \<Rightarrow> (case rd ps i of None \<Rightarrow> 0 | Some p \<Rightarrow> p)))
        in (case rd (syms (keys xkb key)) (key_column xkb key ms) of None \<Rightarrow> NoSymbol | Some s \<Rightarrow> s,
            type_mask ty AND NOT preserve))"

definition XkbKeyActionPtr :: "xkb_desc \<Rightarrow> keycode \<Rightarrow> mods \<Rightarrow> xkb_action option" where
  "XkbKeyActionPtr xkb key ms =
     (case acts (keys xkb key) of
        None \<Rightarrow> None
      | Some as \<Rightarrow>
          if \<not> XkbKeycodeInRange xkb key \<or> XkbKeyNumGroups xkb key = 0 then None
          else rd as (key_column xkb key ms))"

definition XkbKeyEffectiveGroup :: "xkb_desc \<Rightarrow> keycode \<Rightarrow> mods \<Rightarrow> nat" where
  "XkbKeyEffectiveGroup xkb key ms =
     (if \<not> XkbKeycodeInRange xkb key \<or> XkbKeyNumGroups xkb key = 0 then 0 else effective_group xkb key ms)"

section \<open>Searching a keysym\<close>

text \<open>Case conversion, one definition per page of keysyms; the pair is the lower and the upper case.\<close>

definition convert_latin1 :: "keysym \<Rightarrow> keysym \<times> keysym" where
  "convert_latin1 ksym =
     (if 0x41 \<le> ksym \<and> ksym \<le> 0x5a then (ksym + 0x20, ksym)
      else if 0x61 \<le> ksym \<and> ksym \<le> 0x7a then (ksym, ksym - 0x20)
      else if 0xc0 \<le> ksym \<and> ksym \<le> 0xd6 then (ksym + 0x20, ksym)
      else if 0xe0 \<le> ksym \<and> ksym \<le> 0xf6 then (ksym, ksym - 0x20)
      else if 0xd8 \<le> ksym \<and> ksym \<le> 0xde then (ksym + 0x20, ksym)
      else if 0xf8 \<le> ksym \<and> ksym \<le> 0xfe then (ksym, ksym - 0x20)
      else (ksym, ksym))"

definition convert_latin2 :: "keysym \<Rightarrow> keysym \<times> keysym" where
  "convert_latin2 ksym =
     (if ksym = 0x1a1 then (0x1b1, ksym)
      else if 0x1a3 \<le> ksym \<and> ksym \<le> 0x1a6 then (ksym + 0x10, ksym)
      else if 0x1a9 \<le> ksym \<and> ksym \<le> 0x1ac then (ksym + 0x10, ksym)
      else if 0x1ae \<le> ksym \<and> ksym \<le> 0x1af then (ksym + 0x10, ksym)
      else if ksym = 0x1b1 then (ksym, 0x1a1)
      else if 0x1b3 \<le> ksym \<and> ksym \<le> 0x1b6 then (ksym, ksym - 0x10)
      else if 0x1b9 \<le> ksym \<and> ksym \<le> 0x1bc then (ksym, ksym - 0x10)
      else if 0x1be \<le> ksym \<and> ksym \<le> 0x1bf then (ksym, ksym - 0x10)
      else if 0x1c0 \<le> ksym \<and> ksym \<le> 0x1de then (ksym + 0x20, ksym)
      else if 0x1e0 \<le> ksym \<and> ksym \<le> 0x1fe then (ksym, ksym - 0x20)
      else (ksym, ksym))"

definition convert_latin3 :: "keysym \<Rightarrow> keysym \<times> keysym" where
  "convert_latin3 ksym =
     (if 0x2a1 \<le> ksym \<and> ksym \<le> 0x2a6 then (ksym + 0x10, ksym)
      else if 0x2ab \<le> ksym \<and> ksym \<le> 0x2ac then (ksym + 0x10, ksym)
      else if 0x2b1 \<le> ksym \<and> ksym \<le> 0x2b6 then (ksym, ksym - 0x10)
      else if 0x2bb \<le> ksym \<and> ksym \<le> 0x2bc then (ksym, ksym - 0x10)
      else if 0x2c5 \<le> ksym \<and> ksym \<le> 0x2de then (ksym + 0x20, ksym)
      else if 0x2e5 \<le> ksym \<and> ksym \<le> 0x2fe then (ksym, ksym - 0x20)
      else (ksym, ksym))"

definition convert_latin4 :: "keysym \<Rightarrow> keysym \<times> keysym" where
  "convert_latin4 ksym =
     (if 0x3a3 \<le> ksym \<and> ksym \<le> 0x3ac then (ksym + 0x10, ksym)
      else if 0x3b3 \<le> ksym \<and> ksym \<le> 0x3bc then (ksym, ksym - 0x10)
      else if ksym = 0x3bd then (0x3bf, ksym)
      else if ksym = 0x3bf then (ksym, 0x3bd)
      else if 0x3c0 \<le> ksym \<and> ksym \<le> 0x3de then (ksym + 0x20, ksym)
      else if 0x3e0 \<le> ksym \<and> ksym \<le> 0x3fe then (ksym, ksym - 0x20)
      else (ksym, ksym))"

definition convert_cyrillic :: "keysym \<Rightarrow> keysym \<times> keysym" where
  "convert_cyrillic ksym =
     (if 0x6b1 \<le> ksym \<and> ksym \<le> 0x6bf then (ksym - 0x10, ksym)
      else if 0x6a1 \<le> ksym \<and> ksym \<le> 0x6af then (ksym, ksym + 0x10)
      else if 0x6e0 \<le> ksym \<and> ksym \<le> 0x6ff then (ksym - 0x20, ksym)
      else if 0x6c0 \<le> ksym \<and> ksym \<le> 0x6df then (ksym, ksym + 0x20)
      else (ksym, ksym))"

definition convert_greek :: "keysym \<Rightarrow> keysym \<times> keysym" where
  "convert_greek ksym =
     (if 0x7a1 \<le> ksym \<and> ksym \<le> 0x7ab then (ksym + 0x10, ksym)
      else if 0x7b1 \<le> ksym \<and> ksym \<le> 0x7bb \<and> ksym \<noteq> 0x7b6 \<and> ksym \<noteq> 0x7ba then (ksym, ksym - 0x10)
      else if 0x7c1 \<le> ksym \<and> ksym \<le> 0x7d9 then (ksym + 0x20, ksym)
      else if 0x7e1 \<le> ksym \<and> ksym \<le> 0x7f9 \<and> ksym \<noteq> 0x7f3 then (ksym, ksym - 0x20)
      else (ksym, ksym))"

definition XkbConvertCase :: "keysym \<Rightarrow> keysym \<times> keysym" where
  "XkbConvertCase ksym =
     (let page = drop_bit 8 ksym in
      if page = 0 then convert_latin1 ksym
      else if page = 1 then convert_latin2 ksym
      else if page = 2 then convert_latin3 ksym
      else if page = 3 then convert_latin4 ksym
      else if page = 6 then convert_cyrillic ksym
      else if page = 7 then convert_greek ksym
      else (ksym, ksym))"

lemmas convert_page_defs = convert_latin1_def convert_latin2_def convert_latin3_def
  convert_latin4_def convert_cyrillic_def convert_greek_def

text \<open>A keysym is one of its two cases.\<close>

lemma convert_page_member:
  "fst (convert_latin1 k) = k \<or> snd (convert_latin1 k) = k"
  "fst (convert_latin2 k) = k \<or> snd (convert_latin2 k) = k"
  "fst (convert_latin3 k) = k \<or> snd (convert_latin3 k) = k"
  "fst (convert_latin4 k) = k \<or> snd (convert_latin4 k) = k"
  "fst (convert_cyrillic k) = k \<or> snd (convert_cyrillic k) = k"
  "fst (convert_greek k) = k \<or> snd (convert_greek k) = k"
  by (auto simp: convert_page_defs)

lemma XkbConvertCase_member: "fst (XkbConvertCase k) = k \<or> snd (XkbConvertCase k) = k"
  unfolding XkbConvertCase_def Let_def using convert_page_member [of k] by simp

definition fakeKeys :: "keycode list" where
  "fakeKeys = [92, 203, 204, 205, 206, 207]"

text \<open>The keysym a key yields once the lock modifier, where the type leaves it alone, has turned it
  into upper case.\<close>

definition produced :: "xkb_desc \<Rightarrow> keycode \<Rightarrow> mods \<Rightarrow> keysym" where
  "produced xkb key state =
     (case XkbTranslateKeyCode xkb key state of (ks, consumed) \<Rightarrow>
        if ks = NoSymbol then NoSymbol
        else if (state AND NOT consumed) AND LockMask \<noteq> 0 then snd (XkbConvertCase ks) else ks)"

definition key_matches :: "xkb_desc \<Rightarrow> keycode \<Rightarrow> mods \<Rightarrow> keysym \<Rightarrow> bool" where
  "key_matches xkb key state keysym \<longleftrightarrow>
     fst (XkbTranslateKeyCode xkb key state) \<noteq> NoSymbol \<and> produced xkb key state = keysym"

fun search_keys :: "xkb_desc \<Rightarrow> keysym \<Rightarrow> mods \<Rightarrow> keycode list \<Rightarrow> keycode \<Rightarrow> keycode" where
  "search_keys xkb keysym state [] fallback = fallback"
| "search_keys xkb keysym state (key # ks) fallback =
     (if \<not> key_matches xkb key state keysym then search_keys xkb keysym state ks fallback
      else if key \<in> set fakeKeys
        then search_keys xkb keysym state ks (if fallback = 0 then key else fallback)
      else key)"

definition key_range :: "xkb_desc \<Rightarrow> keycode list" where
  "key_range xkb = [min_key_code xkb..<Suc (max_key_code xkb)]"

text \<open>The call with a null \<^verbatim>\<open>new_state\<close>.\<close>

definition keysym_search :: "xkb_desc \<Rightarrow> keysym \<Rightarrow> mods \<Rightarrow> keycode" where
  "keysym_search xkb keysym state = search_keys xkb keysym state (key_range xkb) 0"

section \<open>Modifier keys\<close>

definition action_mods :: "xkb_desc \<Rightarrow> keycode \<Rightarrow> xkb_action \<Rightarrow> mods" where
  "action_mods xkb key act = (if use_modmap act then modmap xkb key else act_mask act)"

definition is_SetMods :: "xkb_action \<Rightarrow> bool" where
  "is_SetMods act = (case act of SetMods _ _ \<Rightarrow> True | _ \<Rightarrow> False)"

definition is_LockMods :: "xkb_action \<Rightarrow> bool" where
  "is_LockMods act = (case act of LockMods _ _ \<Rightarrow> True | _ \<Rightarrow> False)"

text \<open>The modifiers a key sets while it is held; 0 when its action sets none.\<close>

definition set_mods_of :: "xkb_desc \<Rightarrow> keycode \<Rightarrow> mods \<Rightarrow> mods" where
  "set_mods_of xkb key state =
     (case XkbKeyActionPtr xkb key state of
        None \<Rightarrow> 0
      | Some act \<Rightarrow> if is_SetMods act then action_mods xkb key act else 0)"

definition level_three_key :: "xkb_desc \<Rightarrow> mods \<Rightarrow> keycode" where
  "level_three_key xkb state =
     (let k = keysym_search xkb XK_ISO_Level3_Shift state
      in if k = 0 then keysym_search xkb XK_Mode_switch state else k)"

definition lorieGetLevelThreeMask :: "xkb_desc \<Rightarrow> mods \<Rightarrow> mods" where
  "lorieGetLevelThreeMask xkb kstate =
     (let state = kstate AND NOT 0xff; keycode = level_three_key xkb state
      in if keycode = 0 then 0 else set_mods_of xkb keycode state)"

definition loriePressShift :: "xkb_desc \<Rightarrow> mods \<Rightarrow> keycode" where
  "loriePressShift xkb state =
     (if state AND ShiftMask \<noteq> 0 then 0
      else case find (\<lambda>key. set_mods_of xkb key state AND 0xff AND ShiftMask = ShiftMask) (key_range xkb) of
        None \<Rightarrow> 0
      | Some key \<Rightarrow> key)"

text \<open>The keys held down that set one of the given modifiers; too many of them count as none.\<close>

definition held_keys :: "xkb_desc \<Rightarrow> (keycode \<Rightarrow> bool) \<Rightarrow> mods \<Rightarrow> mods \<Rightarrow> nat \<Rightarrow> keycode list" where
  "held_keys xkb key_is_down state msk maxKeys =
     (let ks = filter (\<lambda>key. key_is_down key \<and> set_mods_of xkb key state AND 0xff AND msk \<noteq> 0) (key_range xkb)
      in if length ks > maxKeys then [] else ks)"

definition lorieReleaseShift :: "xkb_desc \<Rightarrow> (keycode \<Rightarrow> bool) \<Rightarrow> mods \<Rightarrow> nat \<Rightarrow> keycode list" where
  "lorieReleaseShift xkb key_is_down state maxKeys =
     (if state AND ShiftMask = 0 then [] else held_keys xkb key_is_down state ShiftMask maxKeys)"

definition loriePressLevelThree :: "xkb_desc \<Rightarrow> mods \<Rightarrow> keycode" where
  "loriePressLevelThree xkb state =
     (let msk = lorieGetLevelThreeMask xkb state; keycode = level_three_key xkb state in
      if msk = 0 \<or> state AND msk \<noteq> 0 \<or> keycode = 0 then 0
      else case XkbKeyActionPtr xkb keycode state of
        None \<Rightarrow> 0
      | Some act \<Rightarrow> if is_SetMods act then keycode else 0)"

definition lorieReleaseLevelThree ::
  "xkb_desc \<Rightarrow> (keycode \<Rightarrow> bool) \<Rightarrow> mods \<Rightarrow> nat \<Rightarrow> keycode list" where
  "lorieReleaseLevelThree xkb key_is_down state maxKeys =
     (let msk = lorieGetLevelThreeMask xkb state in
      if msk = 0 \<or> state AND msk = 0 then [] else held_keys xkb key_is_down state msk maxKeys)"

section \<open>The full search\<close>

definition toggle :: "mods \<Rightarrow> mods \<Rightarrow> mods" where
  "toggle msk state = (state AND NOT msk) OR (if state AND msk \<noteq> 0 then 0 else msk)"

text \<open>The call with a \<^verbatim>\<open>new_state\<close>: the keycode and the state it wants. \<open>kstate\<close> is the state of the
  keyboard at the time of the call.\<close>

definition lorieKeysymToKeycode ::
  "xkb_desc \<Rightarrow> mods \<Rightarrow> keysym \<Rightarrow> mods \<Rightarrow> keycode \<times> mods" where
  "lorieKeysymToKeycode xkb kstate keysym state =
     (let k0 = keysym_search xkb keysym state;
          s1 = toggle ShiftMask state; k1 = keysym_search xkb keysym s1;
          l3 = lorieGetLevelThreeMask xkb kstate;
          s2 = toggle l3 state; k2 = keysym_search xkb keysym s2;
          s3 = (state AND NOT (ShiftMask OR l3)) OR (if state AND ShiftMask \<noteq> 0 then 0 else ShiftMask)
                 OR (if state AND l3 \<noteq> 0 then 0 else l3);
          k3 = keysym_search xkb keysym s3 in
      if k0 \<noteq> 0 then (k0, state)
      else if k1 \<noteq> 0 then (k1, s1)
      else if l3 = 0 then (0, s1)
      else if k2 \<noteq> 0 then (k2, s2)
      else (k3, s3))"

definition lorieIsAffectedByNumLock :: "xkb_desc \<Rightarrow> mods \<Rightarrow> keycode \<Rightarrow> bool" where
  "lorieIsAffectedByNumLock xkb kstate keycode =
     (let state = kstate AND NOT 0xff; nl = keysym_search xkb XK_Num_Lock state in
      if nl = 0 then False
      else case XkbKeyActionPtr xkb nl state of
        None \<Rightarrow> False
      | Some act \<Rightarrow>
          if \<not> is_LockMods act then False
          else type_mask (XkbKeyKeyType xkb keycode (XkbKeyEffectiveGroup xkb keycode state))
                 AND (if use_modmap act then modmap xkb keycode else act_mask act) \<noteq> 0)"

section \<open>Columns stay inside the tables\<close>

text \<open>What the XKB code keeps of a keymap: every key with groups has a valid type per group, the levels of
  a type fit the width of the groups, and the tables of keysyms and actions have one column per
  group and level.\<close>

definition wf_type :: "nat \<Rightarrow> key_type \<Rightarrow> bool" where
  "wf_type w ty \<longleftrightarrow> 0 < num_levels ty \<and> num_levels ty \<le> w \<and> (\<forall>e\<in>set (type_map ty). level e < num_levels ty)"

definition wf_key :: "xkb_desc \<Rightarrow> keycode \<Rightarrow> bool" where
  "wf_key xkb key \<longleftrightarrow>
     (let r = keys xkb key in
      num_groups r \<le> length (kt_index r) \<and>
      (\<forall>t\<in>set (take (num_groups r) (kt_index r)). t < length (types xkb) \<and> wf_type (group_width r) (types xkb ! t)) \<and>
      length (syms r) = num_groups r * group_width r \<and>
      (case acts r of None \<Rightarrow> True | Some as \<Rightarrow> length as = length (syms r)))"

lemma effective_group_lt: "0 < XkbKeyNumGroups xkb key \<Longrightarrow> effective_group xkb key ms < XkbKeyNumGroups xkb key"
  by (auto simp: effective_group_def Let_def split: out_of_range.split)

lemma find_level_in: "find_level ms m es i = Some (j, l) \<Longrightarrow> \<exists>e\<in>set es. l = level e"
  by (induction es arbitrary: i) (auto split: if_splits)

lemma wf_key_type:
  assumes "wf_key xkb key" "g < XkbKeyNumGroups xkb key"
  shows "wf_type (group_width (keys xkb key)) (XkbKeyKeyType xkb key g)"
proof -
  let ?r = "keys xkb key"
  have g: "g < num_groups ?r" "g < length (kt_index ?r)"
    using assms by (auto simp: wf_key_def Let_def XkbKeyNumGroups_def)
  then have "kt_index ?r ! g \<in> set (take (num_groups ?r) (kt_index ?r))"
    by (auto simp: in_set_conv_nth intro!: exI [of _ g])
  with g assms(1) show ?thesis
    by (auto simp: wf_key_def Let_def XkbKeyKeyType_def rd_def)
qed

lemma group_column: "g < n \<Longrightarrow> l < w \<Longrightarrow> g * w + l < n * (w :: nat)"
  by (metis Suc_leI add.commute add_less_cancel_left less_le_trans mult_Suc mult_le_mono1)

lemma level_lt:
  assumes "wf_type w ty"
  shows "(case find_level ms m (type_map ty) 0 of None \<Rightarrow> 0 | Some (i, l) \<Rightarrow> l) < w"
proof (cases "find_level ms m (type_map ty) 0")
  case (Some p)
  obtain j l where p: "p = (j, l)" by (cases p)
  then obtain e where "e \<in> set (type_map ty)" "l = level e"
    using find_level_in Some by metis
  then have "l < num_levels ty" "num_levels ty \<le> w" using assms by (auto simp: wf_type_def)
  then show ?thesis using Some p by simp
qed (use assms in \<open>auto simp: wf_type_def\<close>)

lemma key_column_lt:
  assumes "wf_key xkb key" "0 < XkbKeyNumGroups xkb key"
  shows "key_column xkb key ms < length (syms (keys xkb key))"
proof -
  have g: "effective_group xkb key ms < XkbKeyNumGroups xkb key"
    using assms(2) by (rule effective_group_lt)
  have "key_column xkb key ms < XkbKeyNumGroups xkb key * group_width (keys xkb key)"
    unfolding key_column_def Let_def
    by (rule group_column [OF g level_lt [OF wf_key_type [OF assms(1) g]]])
  then show ?thesis
    using assms(1) by (simp add: wf_key_def Let_def XkbKeyNumGroups_def)
qed

definition tiny_key :: "nat list \<Rightarrow> keysym list \<Rightarrow> xkb_action list option \<Rightarrow> key_rec" where
  "tiny_key ts ss as = \<lparr>num_groups = (if ss = [] then 0 else 1), group_action = WrapIntoRange, group_width = length ss,
     kt_index = ts, syms = ss, acts = as, key_name0 = 0x41\<rparr>"

text \<open>A keymap with a letter key, a Shift key, a level-three key and a key with four levels.\<close>

definition one_level :: key_type where
  "one_level = \<lparr>type_mask = 0, num_levels = 1, type_map = [], type_preserve = None\<rparr>"

definition two_level :: key_type where
  "two_level = \<lparr>type_mask = 1, num_levels = 2,
     type_map = [\<lparr>active = True, entry_mask = 1, level = 1\<rparr>], type_preserve = None\<rparr>"

definition alphabetic :: key_type where
  "alphabetic = \<lparr>type_mask = 3, num_levels = 2,
     type_map = [\<lparr>active = True, entry_mask = 1, level = 1\<rparr>, \<lparr>active = True, entry_mask = 2, level = 1\<rparr>],
     type_preserve = None\<rparr>"

definition four_level :: key_type where
  "four_level = \<lparr>type_mask = 0x81, num_levels = 4,
     type_map = [\<lparr>active = True, entry_mask = 1, level = 1\<rparr>, \<lparr>active = True, entry_mask = 0x80, level = 2\<rparr>,
                 \<lparr>active = True, entry_mask = 0x81, level = 3\<rparr>], type_preserve = None\<rparr>"

definition sample_keys :: "keycode \<Rightarrow> key_rec" where
  "sample_keys k =
     (if k = 8 then tiny_key [2] [0x61, 0x41] None
      else if k = 9 then tiny_key [0] [0xffe1] (Some [SetMods False 1])
      else if k = 10 then tiny_key [0] [0xfe03] (Some [SetMods False 0x80])
      else if k = 11 then tiny_key [3] [0x31, 0x21, 0xb9, 0xa1] None
      else tiny_key [] [] None)"

definition sample_keymap :: xkb_desc where
  "sample_keymap = \<lparr>min_key_code = 8, max_key_code = 12, types = [one_level, two_level, alphabetic, four_level],
     keys = sample_keys, modmap = (\<lambda>k. 0), has_names = True\<rparr>"

lemmas sample_defs = sample_keymap_def sample_keys_def tiny_key_def one_level_def two_level_def alphabetic_def
  four_level_def

lemmas lookup_defs = XkbTranslateKeyCode_def XkbKeycodeInRange_def XkbKeyNumGroups_def effective_group_def
  XkbKeyEffectiveGroup_def XkbKeyActionPtr_def XkbGroupForCoreState_def key_column_def XkbKeyKeyType_def
  NoSymbol_def Let_def

text \<open>In a well-formed keymap the translation of a keycode reads the keysym table, and the lookup of
  an action reads the action table, inside their bounds, whatever the group and modifier bits.\<close>

theorem key_lookup_in_bounds:
  assumes "wf_key xkb key" "XkbKeycodeInRange xkb key" "0 < XkbKeyNumGroups xkb key"
  shows "\<exists>col. col < length (syms (keys xkb key)) \<and>
           fst (XkbTranslateKeyCode xkb key ms) = syms (keys xkb key) ! col \<and>
           XkbKeyActionPtr xkb key ms = map_option (\<lambda>as. as ! col) (acts (keys xkb key)) \<and>
           snd (XkbTranslateKeyCode xkb key ms) AND NOT
             (type_mask (XkbKeyKeyType xkb key (XkbKeyEffectiveGroup xkb key ms))) = 0"
proof (rule exI [of _ "key_column xkb key ms"], intro conjI)
  show lt: "key_column xkb key ms < length (syms (keys xkb key))"
    by (rule key_column_lt [OF assms(1,3)])
  show "fst (XkbTranslateKeyCode xkb key ms) = syms (keys xkb key) ! key_column xkb key ms"
    using assms lt by (simp add: XkbTranslateKeyCode_def Let_def rd_def)
  show "XkbKeyActionPtr xkb key ms = map_option (\<lambda>as. as ! key_column xkb key ms) (acts (keys xkb key))"
    using assms lt by (auto simp: XkbKeyActionPtr_def rd_def wf_key_def Let_def split: option.splits)
  have "m AND NOT p AND NOT m = 0" for m p :: mods
    by (rule bit_eqI) (auto simp: bit_simps)
  then show "snd (XkbTranslateKeyCode xkb key ms) AND NOT
             (type_mask (XkbKeyKeyType xkb key (XkbKeyEffectiveGroup xkb key ms))) = 0"
    using assms by (simp add: XkbTranslateKeyCode_def XkbKeyEffectiveGroup_def Let_def and.assoc)
qed

theorem key_lookup_in_bounds_witness:
  "\<exists>col<2. fst (XkbTranslateKeyCode sample_keymap 8 0x2001) = [0x61, 0x41] ! col"
proof -
  have "wf_key sample_keymap 8" "XkbKeycodeInRange sample_keymap 8" "0 < XkbKeyNumGroups sample_keymap 8"
    by (simp_all add: wf_key_def wf_type_def sample_defs lookup_defs)
  then obtain col where "col < length (syms (keys sample_keymap 8))"
    "fst (XkbTranslateKeyCode sample_keymap 8 0x2001) = syms (keys sample_keymap 8) ! col"
    using key_lookup_in_bounds [of sample_keymap 8 "0x2001"] by blast
  moreover have "syms (keys sample_keymap 8) = [0x61, 0x41]" by (simp add: sample_defs)
  ultimately show ?thesis by (intro exI [of _ col]) simp
qed

lemma set_key_range [simp]: "set (key_range xkb) = {k. XkbKeycodeInRange xkb k}"
  by (auto simp: key_range_def XkbKeycodeInRange_def simp del: upt_Suc)

section \<open>The search is sound and complete\<close>

lemma search_keys_find:
  "0 \<notin> set ks \<Longrightarrow> search_keys xkb keysym state ks fb =
     (case find (\<lambda>key. key_matches xkb key state keysym \<and> key \<notin> set fakeKeys) ks of
        Some key \<Rightarrow> key
      | None \<Rightarrow> if fb \<noteq> 0 then fb
          else case find (\<lambda>key. key_matches xkb key state keysym) ks of None \<Rightarrow> 0 | Some key \<Rightarrow> key)"
  by (induction ks arbitrary: fb) (auto split: option.splits)

text \<open>The keys a search may answer, in the order it prefers them: real keys first, then the keys that
  no keyboard sends, each by ascending keycode.\<close>

definition candidates :: "xkb_desc \<Rightarrow> keysym \<Rightarrow> mods \<Rightarrow> keycode list" where
  "candidates xkb keysym state =
     (let ks = filter (\<lambda>key. key_matches xkb key state keysym) (key_range xkb)
      in filter (\<lambda>k. k \<notin> set fakeKeys) ks @ filter (\<lambda>k. k \<in> set fakeKeys) ks)"

lemma find_filter: "find P xs = (case filter P xs of [] \<Rightarrow> None | x # _ \<Rightarrow> Some x)"
  by (induction xs) auto

lemma keysym_search_hd:
  assumes "0 < min_key_code xkb"
  shows "keysym_search xkb keysym state =
    (case candidates xkb keysym state of [] \<Rightarrow> 0 | k # _ \<Rightarrow> k)"
proof -
  define M where "M = (\<lambda>key. key_matches xkb key state keysym)"
  let ?r = "filter (\<lambda>k. M k \<and> k \<notin> set fakeKeys) (key_range xkb)"
  have 0: "0 \<notin> set (key_range xkb)" using assms by (simp add: XkbKeycodeInRange_def)
  have c: "candidates xkb keysym state = ?r @ filter (\<lambda>k. M k \<and> k \<in> set fakeKeys) (key_range xkb)"
    unfolding candidates_def Let_def M_def by (simp add: conj_commute)
  have all: "filter (\<lambda>k. M k \<and> k \<in> set fakeKeys) (key_range xkb) = filter M (key_range xkb)" if "?r = []"
    using that by (intro filter_cong) (auto simp: filter_empty_conv)
  have M: "key_matches xkb k state keysym = M k" for k by (simp add: M_def)
  show ?thesis
    unfolding keysym_search_def search_keys_find [OF 0] c find_filter M
    using all by (cases ?r) (simp_all split: list.splits)
qed

lemma candidates_set:
  "set (candidates xkb keysym state) =
     {k. XkbKeycodeInRange xkb k \<and> key_matches xkb k state keysym}"
  unfolding candidates_def Let_def by auto

lemma keysym_search_cases:
  assumes "0 < min_key_code xkb"
  shows "if keysym_search xkb keysym state = 0
         then \<forall>k. XkbKeycodeInRange xkb k \<longrightarrow> \<not> key_matches xkb k state keysym
         else XkbKeycodeInRange xkb (keysym_search xkb keysym state) \<and>
              key_matches xkb (keysym_search xkb keysym state) state keysym"
proof (cases "candidates xkb keysym state")
  case Nil
  then have "\<forall>k. XkbKeycodeInRange xkb k \<longrightarrow> \<not> key_matches xkb k state keysym"
    using candidates_set [of xkb keysym state] by auto
  then show ?thesis by (simp add: keysym_search_hd [OF assms] Nil)
next
  case (Cons k ks)
  then have "XkbKeycodeInRange xkb k \<and> key_matches xkb k state keysym"
    using candidates_set [of xkb keysym state] by auto
  moreover from this have "k \<noteq> 0" using assms by (auto simp: XkbKeycodeInRange_def)
  ultimately show ?thesis by (simp add: keysym_search_hd [OF assms] Cons)
qed

section \<open>The full search changes Shift and level three only\<close>

definition search_states :: "mods \<Rightarrow> mods \<Rightarrow> mods list" where
  "search_states l3 state = [state, toggle ShiftMask state] @
     (if l3 = 0 then [] else [toggle l3 state,
        (state AND NOT (ShiftMask OR l3)) OR (if state AND ShiftMask \<noteq> 0 then 0 else ShiftMask)
          OR (if state AND l3 \<noteq> 0 then 0 else l3)])"

lemma toggle_outside: "(toggle m s) AND NOT (m OR r) = s AND NOT (m OR r)"
  by (cases "s AND m = 0") (auto simp: toggle_def bit_simps intro!: bit_eqI)

lemma outside_both:
  "(s AND NOT m OR a) AND NOT m = s AND NOT m" if "a AND NOT m = 0" for s m a :: mods
  using that by (metis (no_types, lifting) bit.conj_disj_distrib2 bit.disj_zero_right and.assoc and.idem)

lemma search_states_outside:
  assumes "s \<in> set (search_states l3 state)"
  shows "s AND NOT (ShiftMask OR l3) = state AND NOT (ShiftMask OR l3)"
proof -
  have lm: "((if c then 0 else ShiftMask) OR (if d then 0 else l3)) AND NOT (ShiftMask OR l3) = 0" for c d
    by (rule bit_eqI) (auto simp: bit_simps)
  have l3: "(toggle l3 state) AND NOT (ShiftMask OR l3) = state AND NOT (ShiftMask OR l3)"
    using toggle_outside [of l3 state ShiftMask] by (simp add: or.commute)
  consider "s = state" | "s = toggle ShiftMask state" | "s = toggle l3 state"
    | "s = (state AND NOT (ShiftMask OR l3)) OR ((if state AND ShiftMask \<noteq> 0 then 0 else ShiftMask)
          OR (if state AND l3 \<noteq> 0 then 0 else l3))"
    using assms unfolding search_states_def by (simp add: or.assoc split: if_split_asm) metis+
  then show ?thesis
    by cases (simp_all only: toggle_outside l3 outside_both [OF lm])
qed

text \<open>The search returns the first of the four states in which some key yields the keysym.\<close>

fun first_state :: "(mods \<Rightarrow> keycode) \<Rightarrow> mods list \<Rightarrow> keycode \<times> mods" where
  "first_state f [] = (0, 0)"
| "first_state f [s] = (f s, s)"
| "first_state f (s # t # ss) = (if f s \<noteq> 0 then (f s, s) else first_state f (t # ss))"

lemma first_state_cases:
  "ss \<noteq> [] \<Longrightarrow> first_state f ss = (k, s) \<Longrightarrow> s \<in> set ss \<and> k = f s \<and> (k = 0 \<longrightarrow> (\<forall>t\<in>set ss. f t = 0))"
  by (induction f ss rule: first_state.induct) (auto split: if_splits)

lemma lorieKeysymToKeycode_first:
  "lorieKeysymToKeycode xkb kstate keysym state =
     first_state (keysym_search xkb keysym) (search_states (lorieGetLevelThreeMask xkb kstate) state)"
  by (simp add: lorieKeysymToKeycode_def search_states_def Let_def)

lemma search_result:
  assumes "0 < min_key_code xkb" "lorieKeysymToKeycode xkb kstate keysym state = (k, s)" "k \<noteq> 0"
  shows "XkbKeycodeInRange xkb k \<and> key_matches xkb k s keysym"
proof -
  have ne: "search_states (lorieGetLevelThreeMask xkb kstate) state \<noteq> []" by (simp add: search_states_def)
  have "k = keysym_search xkb keysym s"
    using first_state_cases [OF ne, of "keysym_search xkb keysym" k s] assms(2) by (simp add: lorieKeysymToKeycode_first)
  then show ?thesis
    using keysym_search_cases [OF assms(1), of keysym s] assms(3) by simp
qed

lemmas search_result_in_range = search_result [THEN conjunct1]
lemmas search_result_matches = search_result [THEN conjunct2]

text \<open>C8. The search for a keysym is sound and complete. A nonzero answer is a key of the keymap that
  yields the keysym under the state it is returned with; that state is the current one except in
  the Shift and level-three bits; and the answer is 0 only if no key yields the keysym in the
  current state, with Shift toggled, with level three toggled, or with both. Within one state the
  keys no keyboard sends are used only when no other key yields the keysym.\<close>

theorem lorieKeysymToKeycode_correct:
  assumes "0 < min_key_code xkb"
    and "lorieKeysymToKeycode xkb kstate keysym state = (k, s)"
    and "l3 = lorieGetLevelThreeMask xkb kstate"
  shows "s \<in> set (search_states l3 state) \<and>
         s AND NOT (ShiftMask OR l3) = state AND NOT (ShiftMask OR l3) \<and>
         (k \<noteq> 0 \<longrightarrow> XkbKeycodeInRange xkb k \<and> key_matches xkb k s keysym \<and>
            (k \<in> set fakeKeys \<longrightarrow> (\<forall>j. XkbKeycodeInRange xkb j \<and> key_matches xkb j s keysym \<longrightarrow> j \<in> set fakeKeys))) \<and>
         (k = 0 \<longrightarrow> (\<forall>t\<in>set (search_states l3 state). \<forall>j. XkbKeycodeInRange xkb j \<longrightarrow>
            \<not> key_matches xkb j t keysym))"
proof -
  let ?f = "keysym_search xkb keysym"
  have ne: "search_states l3 state \<noteq> []" by (simp add: search_states_def)
  have r: "s \<in> set (search_states l3 state)" "k = ?f s" "k = 0 \<Longrightarrow> \<forall>t\<in>set (search_states l3 state). ?f t = 0"
    using first_state_cases [OF ne, of ?f k s] assms(2,3) by (auto simp: lorieKeysymToKeycode_first)
  have sound: "XkbKeycodeInRange xkb k \<and> key_matches xkb k s keysym" if "k \<noteq> 0"
    using keysym_search_cases [OF assms(1), of keysym s] that r(2) by simp
  have fake: "j \<in> set fakeKeys"
    if "k \<in> set fakeKeys" "XkbKeycodeInRange xkb j \<and> key_matches xkb j s keysym" for j
  proof (rule ccontr)
    assume "j \<notin> set fakeKeys"
    then have "j \<in> set (filter (\<lambda>k. k \<notin> set fakeKeys)
        (filter (\<lambda>key. key_matches xkb key s keysym) (key_range xkb)))" (is "j \<in> set ?r")
      using that(2) by simp
    then obtain a as where a: "?r = a # as" by (metis list.exhaust empty_iff empty_set)
    then have "a \<notin> set fakeKeys" by (metis (mono_tags, lifting) list.set_intros(1) mem_Collect_eq set_filter)
    moreover have "k = a"
      using r(2) a by (simp add: keysym_search_hd [OF assms(1)] candidates_def Let_def)
    ultimately show False using that(1) by simp
  qed
  have complete: "\<not> key_matches xkb j t keysym"
    if "k = 0" "t \<in> set (search_states l3 state)" "XkbKeycodeInRange xkb j" for t j
    using keysym_search_cases [OF assms(1), of keysym t] r(3) that by simp
  show ?thesis
    using r(1) search_states_outside [OF r(1)] sound fake complete by blast
qed

lemma sample_key [simp]:
  "keys sample_keymap 8 = tiny_key [2] [0x61, 0x41] None"
  "keys sample_keymap 9 = tiny_key [0] [0xffe1] (Some [SetMods False 1])"
  "keys sample_keymap 10 = tiny_key [0] [0xfe03] (Some [SetMods False 0x80])"
  "keys sample_keymap 11 = tiny_key [3] [0x31, 0x21, 0xb9, 0xa1] None"
  "keys sample_keymap 12 = tiny_key [] [] None"
  by (simp_all add: sample_keymap_def sample_keys_def)

lemma tiny_key_sel [simp]:
  "num_groups (tiny_key ts ss as) = (if ss = [] then 0 else 1)"
  "group_action (tiny_key ts ss as) = WrapIntoRange"
  "group_width (tiny_key ts ss as) = length ss"
  "kt_index (tiny_key ts ss as) = ts"
  "syms (tiny_key ts ss as) = ss"
  "acts (tiny_key ts ss as) = as"
  by (simp_all add: tiny_key_def)

lemma sample_sel [simp]:
  "min_key_code sample_keymap = 8" "max_key_code sample_keymap = 12"
  "types sample_keymap = [one_level, two_level, alphabetic, four_level]"
  "key_range sample_keymap = [8, 9, 10, 11, 12]"
  by (simp_all add: sample_keymap_def key_range_def upt_rec)

lemma effective_group_one:
  "XkbKeyNumGroups xkb k = 1 \<Longrightarrow> group_action (keys xkb k) = WrapIntoRange \<Longrightarrow> effective_group xkb k ms = 0"
  by (cases "XkbGroupForCoreState ms") (simp_all add: effective_group_def)

lemma sample_translate [simp]:
  "XkbTranslateKeyCode sample_keymap 8 s = (if s AND 3 = 1 \<or> s AND 3 = 2 then 0x41 else 0x61, 3)"
  "XkbTranslateKeyCode sample_keymap 9 s = (0xffe1, 0)"
  "XkbTranslateKeyCode sample_keymap 10 s = (0xfe03, 0)"
  "XkbTranslateKeyCode sample_keymap 11 s = (if s AND 0x81 = 1 then 0x21 else if s AND 0x81 = 0x80 then 0xb9
     else if s AND 0x81 = 0x81 then 0xa1 else 0x31, 0x81)"
  "XkbTranslateKeyCode sample_keymap 12 s = (0, 0)"
  by (simp_all add: XkbTranslateKeyCode_def XkbKeycodeInRange_def key_column_def effective_group_one XkbKeyNumGroups_def
    XkbKeyKeyType_def one_level_def alphabetic_def four_level_def NoSymbol_def Let_def)

lemma sample_action [simp]:
  "XkbKeyActionPtr sample_keymap 8 s = None"
  "XkbKeyActionPtr sample_keymap 9 s = Some (SetMods False 1)"
  "XkbKeyActionPtr sample_keymap 10 s = Some (SetMods False 0x80)"
  "XkbKeyActionPtr sample_keymap 11 s = None"
  "XkbKeyActionPtr sample_keymap 12 s = None"
  by (simp_all add: XkbKeyActionPtr_def XkbKeycodeInRange_def key_column_def effective_group_one XkbKeyNumGroups_def
    XkbKeyKeyType_def one_level_def NoSymbol_def Let_def)

lemmas sample_eval = keysym_search_def key_matches_def produced_def fakeKeys_def NoSymbol_def LockMask_def
  lorieGetLevelThreeMask_def level_three_key_def XK_ISO_Level3_Shift_def
  XK_Mode_switch_def set_mods_of_def action_mods_def is_SetMods_def ShiftMask_def toggle_def Let_def

lemma sample_level3 [simp]: "lorieGetLevelThreeMask sample_keymap 0 = 0x80"
  by (simp add: sample_eval)

lemma sample_search:
  "lorieKeysymToKeycode sample_keymap 0 0xb9 0 = (11, 0x80)"
  by (simp add: lorieKeysymToKeycode_def) (simp add: sample_eval)

theorem lorieKeysymToKeycode_correct_witness:
  "0x80 \<in> set (search_states 0x80 0) \<and> key_matches sample_keymap 11 0x80 0xb9"
  using lorieKeysymToKeycode_correct [OF _ sample_search sample_level3 [symmetric]]
  by simp

text \<open>Pressing and releasing modifiers: the keys found hold the modifier they are wanted for.\<close>

lemma loriePressShift_cases:
  "loriePressShift xkb state = 0 \<or>
   XkbKeycodeInRange xkb (loriePressShift xkb state) \<and> state AND ShiftMask = 0 \<and>
   set_mods_of xkb (loriePressShift xkb state) state AND ShiftMask = ShiftMask"
proof -
  have *: "x AND 0xff AND ShiftMask = x AND ShiftMask" for x :: mods
    by (simp add: ShiftMask_def and.assoc)
  show ?thesis
    unfolding loriePressShift_def *
    by (auto split: option.splits dest!: find_Some_in)
qed

lemma held_keys_cases:
  "length (held_keys xkb down state m mx) \<le> mx \<and>
   (\<forall>k\<in>set (held_keys xkb down state m mx). XkbKeycodeInRange xkb k \<and> down k)"
  by (auto simp: held_keys_def Let_def)

lemma lorieReleaseShift_bound: "length (lorieReleaseShift xkb down state mx) \<le> mx"
  using held_keys_cases by (simp add: lorieReleaseShift_def)

lemma lorieReleaseLevelThree_bound: "length (lorieReleaseLevelThree xkb down state mx) \<le> mx"
  using held_keys_cases by (simp add: lorieReleaseLevelThree_def Let_def)

end
