(* ===== verification/Lorie_Keyboard.thy ===== *)
theory Lorie_Keyboard
  imports Lorie_Keymap
begin

text \<open>
  Typing a keysym, \<^verbatim>\<open>lorie/InputXKB.c\<close>: the keycodes given to unknown keysyms and their reuse, and the
  handler \<^verbatim>\<open>lorieKeysymKeyboardEvent\<close> that finds a key, fakes the modifiers it needs, presses it and
  remembers it for the release. Events are queued and the server processes the queue in order;
  what the keyboard's modifier state and held keys are after the processed events is an argument.
\<close>

section \<open>State\<close>

datatype key_event = KeyPress keycode | KeyRelease keycode

record kbd =
  desc :: xkb_desc
  addedKeysyms :: "(keysym \<times> keycode) list"
  pressedKeys :: "keycode \<Rightarrow> keysym"
  queue :: "key_event list"
  processed :: "key_event list"

record kbd_env =
  state_of :: "key_event list \<Rightarrow> mods"
  is_down :: "key_event list \<Rightarrow> keycode \<Rightarrow> bool"
  can_malloc :: bool

definition QueueKeyboardEvents :: "key_event list \<Rightarrow> kbd \<Rightarrow> kbd" where
  "QueueKeyboardEvents es K = K\<lparr>queue := queue K @ es\<rparr>"

definition mieqProcessInputEvents :: "kbd \<Rightarrow> kbd" where
  "mieqProcessInputEvents K = K\<lparr>processed := processed K @ queue K, queue := []\<rparr>"

definition lorieGetKeyboardState :: "kbd_env \<Rightarrow> kbd \<Rightarrow> mods" where
  "lorieGetKeyboardState E K = state_of E (processed K)"

definition key_is_down :: "kbd_env \<Rightarrow> kbd \<Rightarrow> keycode \<Rightarrow> bool" where
  "key_is_down E K = is_down E (processed K)"

definition altKeysym :: "(keysym \<times> keysym) list" where
  "altKeysym =
    [(0xffe1, 0xffe2), (0xffe3, 0xffe4), (0xffe7, 0xffe8), (0xffe9, 0xffea), (0xffeb, 0xffec), (0xffed, 0xffee),
     (0xff80, 0x20), (0xff89, 0xff09), (0xff8d, 0xff0d), (0xff91, 0xffbe), (0xff92, 0xffbf), (0xff93, 0xffc0),
     (0xff94, 0xffc1), (0xff95, 0xff50), (0xff96, 0xff51), (0xff97, 0xff52), (0xff98, 0xff53), (0xff99, 0xff54),
     (0xff9a, 0xff55), (0xff9b, 0xff56), (0xff9c, 0xff57), (0xff9d, 0xff58), (0xff9e, 0xff63), (0xff9f, 0xffff),
     (0xffbd, 0x3d), (0xffaa, 0x2a), (0xffab, 0x2b), (0xffac, 0x2c), (0xffad, 0x2d), (0xffae, 0x2e),
     (0xffaf, 0x2f), (0xffb0, 0x30), (0xffb1, 0x31), (0xffb2, 0x32), (0xffb3, 0x33), (0xffb4, 0x34),
     (0xffb5, 0x35), (0xffb6, 0x36), (0xffb7, 0x37), (0xffb8, 0x38), (0xffb9, 0x39), (0xfe03, 0xff7e)]"

section \<open>Added keysyms\<close>

text \<open>The most recently used entry is in front.\<close>

definition saveAddedKeysym :: "kbd_env \<Rightarrow> keycode \<Rightarrow> keysym \<Rightarrow> kbd \<Rightarrow> kbd" where
  "saveAddedKeysym E code ksym K =
     (if can_malloc E then K\<lparr>addedKeysyms := (ksym, code) # addedKeysyms K\<rparr> else K)"

definition vncOnKeyUsed :: "keycode \<Rightarrow> kbd \<Rightarrow> kbd" where
  "vncOnKeyUsed usedKeycode K =
     (case addedKeysyms K of
        [] \<Rightarrow> K
      | it # _ \<Rightarrow>
          if snd it = usedKeycode then K
          else case find (\<lambda>it. snd it = usedKeycode) (addedKeysyms K) of
            None \<Rightarrow> K
          | Some it \<Rightarrow> K\<lparr>addedKeysyms := it # remove1 it (addedKeysyms K)\<rparr>)"

definition still_ours :: "xkb_desc \<Rightarrow> keysym \<times> keycode \<Rightarrow> bool" where
  "still_ours xkb it \<longleftrightarrow>
     XkbKeyNumGroups xkb (snd it) > 0 \<and> rd (syms (keys xkb (snd it))) 0 = Some (fst it) \<and>
     (\<not> has_names xkb \<or> key_name0 (keys xkb (snd it)) = 0x54)"

text \<open>Entries are taken from the end until one is still as it was left.\<close>

function getReusableKeycode :: "xkb_desc \<Rightarrow> (keysym \<times> keycode) list \<Rightarrow> keycode \<times> (keysym \<times> keycode) list" where
  "getReusableKeycode xkb items =
     (if items = [] then (0, [])
      else let result = (if still_ours xkb (last items) then snd (last items) else 0)
           in if result \<noteq> 0 then (result, butlast items) else getReusableKeycode xkb (butlast items))"
  by pat_completeness auto
termination
  by (relation "measure (\<lambda>(xkb, items). length items)") (auto simp: length_butlast length_greater_0_conv)

definition XkbAlphabeticIndex :: nat where "XkbAlphabeticIndex = 2"

text \<open>The call \<^verbatim>\<open>XkbChangeTypesOfKey(xkb, key, 1, XkbGroup1Mask, types, ...)\<close>, with the resizing of
  the tables of the key: one group with the new type, and as many of the old columns as both
  types have. Resizing is taken to find memory.\<close>

definition resized :: "'a \<Rightarrow> nat \<Rightarrow> nat \<Rightarrow> 'a list \<Rightarrow> 'a list" where
  "resized z w nCopy xs = take w (take nCopy xs @ replicate w z)"

definition XkbChangeTypesOfKey :: "xkb_desc \<Rightarrow> keycode \<Rightarrow> nat \<Rightarrow> xkb_desc" where
  "XkbChangeTypesOfKey xkb key t =
     (if \<not> XkbKeycodeInRange xkb key then xkb
      else case rd (types xkb) t of
        None \<Rightarrow> xkb
      | Some ty \<Rightarrow>
          let r = keys xkb key; w = num_levels ty;
              nCopy = (if num_groups r = 0 then 0 else min w (num_levels (XkbKeyKeyType xkb key 0)));
              resize = (w \<noteq> group_width r \<or> num_groups r \<noteq> 1);
              r1 = (if resize then r\<lparr>syms := resized NoSymbol w nCopy (syms r),
                          acts := (if num_groups r = 0 then acts r else map_option (resized OtherAction w nCopy) (acts r)),
                          num_groups := 1\<rparr> else r)
          in xkb\<lparr>keys := (keys xkb)(key := r1\<lparr>group_width := w, kt_index := t # tl (kt_index r1)\<rparr>)\<rparr>)"

definition free_keycode :: "xkb_desc \<Rightarrow> keycode option" where
  "free_keycode xkb = find (\<lambda>key. XkbKeyNumGroups xkb key = 0) (rev (key_range xkb))"

definition name_key :: "keycode \<Rightarrow> xkb_desc \<Rightarrow> xkb_desc" where
  "name_key key xkb =
     (if has_names xkb then xkb\<lparr>keys := (keys xkb)(key := (keys xkb key)\<lparr>key_name0 := 0x54\<rparr>)\<rparr> else xkb)"

definition put_syms :: "keycode \<Rightarrow> keysym \<Rightarrow> keysym \<Rightarrow> xkb_desc \<Rightarrow> xkb_desc" where
  "put_syms key lower upper xkb =
     xkb\<lparr>keys := (keys xkb)(key := (keys xkb key)\<lparr>syms := (syms (keys xkb key))[0 := lower, 1 := upper]\<rparr>)\<rparr>"

definition lorieAddKeysym :: "kbd_env \<Rightarrow> keysym \<Rightarrow> kbd \<Rightarrow> keycode \<times> kbd" where
  "lorieAddKeysym E keysym K =
     (let (key, rest) = (case free_keycode (desc K) of
                           Some key \<Rightarrow> (key, addedKeysyms K)
                         | None \<Rightarrow> getReusableKeycode (desc K) (addedKeysyms K));
          K1 = K\<lparr>addedKeysyms := rest\<rparr> in
      if key = 0 then (0, K1)
      else
        let (lower, upper) = XkbConvertCase keysym;
            xkb1 = name_key key (desc K1);
            xkb2 = XkbChangeTypesOfKey xkb1 key XkbAlphabeticIndex;
            K2 = K1\<lparr>desc := put_syms key lower upper xkb2\<rparr>
        in (key, saveAddedKeysym E key lower K2))"

section \<open>The phases of a press\<close>

definition alternatives :: "keysym \<Rightarrow> keysym list" where
  "alternatives keysym =
     List.map_filter (\<lambda>(a, b). if a = keysym then Some b else if b = keysym then Some a else None) altKeysym"

fun first_alternative :: "xkb_desc \<Rightarrow> mods \<Rightarrow> keysym list \<Rightarrow> keycode \<times> mods \<Rightarrow> keycode \<times> mods" where
  "first_alternative xkb state [] found = found"
| "first_alternative xkb state (alt # alts) found =
     (case lorieKeysymToKeycode xkb state alt state of (keycode, new_state) \<Rightarrow>
        if keycode \<noteq> 0 then (keycode, new_state)
        else first_alternative xkb state alts (keycode, new_state))"

definition search_or_alternative :: "xkb_desc \<Rightarrow> mods \<Rightarrow> keysym \<Rightarrow> keycode \<times> mods" where
  "search_or_alternative xkb state keysym =
     (let found = lorieKeysymToKeycode xkb state keysym state
      in if fst found = 0 then first_alternative xkb state (alternatives keysym) found else found)"

text \<open>A keycode and a modifier state for the keysym: by search, by the search for an equivalent keysym,
  or on a keycode added for it.\<close>

definition find_keycode :: "kbd_env \<Rightarrow> keysym \<Rightarrow> mods \<Rightarrow> kbd \<Rightarrow> kbd \<times> (keycode \<times> mods) option" where
  "find_keycode E keysym state K =
     (let found = search_or_alternative (desc K) state keysym in
      if fst found \<noteq> 0 then (K, Some found)
      else
        let (keycode, K1) = lorieAddKeysym E keysym K in
        if keycode = 0 then (K1, None)
        else
          let found = lorieKeysymToKeycode (desc K1) state keysym state
          in if fst found = 0 then (K1, None) else (K1, Some found))"

definition needs_fake_shift :: "xkb_desc \<Rightarrow> mods \<Rightarrow> keycode \<times> mods \<Rightarrow> bool" where
  "needs_fake_shift xkb state found \<longleftrightarrow>
     state AND ShiftMask \<noteq> snd found AND ShiftMask \<and> lorieIsAffectedByNumLock xkb state (fst found)"

definition avoid_fake_shift :: "xkb_desc \<Rightarrow> mods \<Rightarrow> keysym \<Rightarrow> keycode \<times> mods \<Rightarrow> keycode \<times> mods" where
  "avoid_fake_shift xkb state keysym found =
     (if \<not> needs_fake_shift xkb state found then found
      else case find (\<lambda>f. fst f \<noteq> 0 \<and> \<not> needs_fake_shift xkb state f)
                 (map (\<lambda>alt. lorieKeysymToKeycode xkb state alt state) (alternatives keysym)) of
        None \<Rightarrow> found
      | Some f \<Rightarrow> f)"

definition keep_shift_for_tab :: "keysym \<Rightarrow> mods \<Rightarrow> mods \<Rightarrow> mods" where
  "keep_shift_for_tab keysym state new_state =
     (if keysym = XK_Tab \<and> state AND ShiftMask \<noteq> 0 then new_state OR ShiftMask else new_state)"

definition level_three_change :: "xkb_desc \<Rightarrow> mods \<Rightarrow> mods \<Rightarrow> mods" where
  "level_three_change xkb state new_state =
     (if new_state AND NOT ShiftMask \<noteq> state AND NOT ShiftMask then lorieGetLevelThreeMask xkb state else 0)"

datatype fake = NoFake | FakePress keycode | FakeRelease "keycode list"

fun fake_events :: "fake \<Rightarrow> key_event list" where
  "fake_events NoFake = []"
| "fake_events (FakePress k) = [KeyPress k]"
| "fake_events (FakeRelease ks) = map KeyRelease ks"

fun undo_events :: "fake \<Rightarrow> key_event list" where
  "undo_events NoFake = []"
| "undo_events (FakePress k) = [KeyRelease k]"
| "undo_events (FakeRelease ks) = map KeyPress ks"

text \<open>\<open>None\<close> is the early return when no key for the modifier is found.\<close>

definition fake_shift :: "kbd_env \<Rightarrow> kbd \<Rightarrow> mods \<Rightarrow> mods \<Rightarrow> fake option" where
  "fake_shift E K state new_state =
     (if state AND ShiftMask = 0 \<and> new_state AND ShiftMask \<noteq> 0 then
        (let k = loriePressShift (desc K) state in if k = 0 then None else Some (FakePress k))
      else if state AND ShiftMask \<noteq> 0 \<and> new_state AND ShiftMask = 0 then
        (let ks = lorieReleaseShift (desc K) (key_is_down E K) state 8 in if ks = [] then None else Some (FakeRelease ks))
      else Some NoFake)"

definition fake_level_three :: "kbd_env \<Rightarrow> kbd \<Rightarrow> mods \<Rightarrow> mods \<Rightarrow> mods \<Rightarrow> fake option" where
  "fake_level_three E K l3 state new_state =
     (if state AND l3 = 0 \<and> new_state AND l3 \<noteq> 0 then
        (let k = loriePressLevelThree (desc K) state in if k = 0 then None else Some (FakePress k))
      else if state AND l3 \<noteq> 0 \<and> new_state AND l3 = 0 then
        (let ks = lorieReleaseLevelThree (desc K) (key_is_down E K) state 8 in if ks = [] then None else Some (FakeRelease ks))
      else Some NoFake)"

definition store_pressed :: "keycode \<Rightarrow> keysym \<Rightarrow> kbd \<Rightarrow> kbd" where
  "store_pressed keycode keysym K =
     (let cleared = (\<lambda>i. if i < 256 \<and> i \<noteq> keycode \<and> pressedKeys K i = keysym then NoSymbol else pressedKeys K i)
      in K\<lparr>pressedKeys := cleared(keycode := keysym)\<rparr>)"

section \<open>The handler\<close>

definition pressed_slots :: "keycode list" where "pressed_slots = [0..<256]"

lemma set_pressed_slots [simp]: "set pressed_slots = {..<256}"
  unfolding pressed_slots_def by (simp only: set_upt) auto

definition release_key :: "keysym \<Rightarrow> kbd \<Rightarrow> kbd" where
  "release_key keysym K =
     (case find (\<lambda>i. pressedKeys K i = keysym) pressed_slots of
        None \<Rightarrow> K
      | Some i \<Rightarrow> mieqProcessInputEvents
          (QueueKeyboardEvents [KeyRelease i] (K\<lparr>pressedKeys := (pressedKeys K)(i := NoSymbol)\<rparr>)))"

definition press_found :: "kbd_env \<Rightarrow> keysym \<Rightarrow> mods \<Rightarrow> keycode \<times> mods \<Rightarrow> kbd \<Rightarrow> kbd" where
  "press_found E keysym state found K =
     (let (keycode, new_state) = avoid_fake_shift (desc K) state keysym found;
          new_state = keep_shift_for_tab keysym state new_state;
          l3 = level_three_change (desc K) state new_state in
      case fake_shift E K state new_state of
        None \<Rightarrow> K
      | Some fs \<Rightarrow>
          let K1 = QueueKeyboardEvents (fake_events fs) K in
          case fake_level_three E K1 l3 state new_state of
            None \<Rightarrow> K1
          | Some fl \<Rightarrow>
              let K2 = QueueKeyboardEvents (fake_events fl) K1;
                  K3 = vncOnKeyUsed keycode (QueueKeyboardEvents [KeyPress keycode] K2);
                  K4 = store_pressed keycode keysym K3;
                  K5 = QueueKeyboardEvents (undo_events fs) (QueueKeyboardEvents (undo_events fl) K4)
              in mieqProcessInputEvents K5)"

definition press_key :: "kbd_env \<Rightarrow> keysym \<Rightarrow> kbd \<Rightarrow> kbd" where
  "press_key E keysym K =
     (let K0 = mieqProcessInputEvents K; state = lorieGetKeyboardState E K0 in
      case find_keycode E keysym state K0 of
        (K1, None) \<Rightarrow> K1
      | (K1, Some found) \<Rightarrow> press_found E keysym state found K1)"

definition lorieKeysymKeyboardEvent :: "kbd_env \<Rightarrow> keysym \<Rightarrow> bool \<Rightarrow> kbd \<Rightarrow> kbd" where
  "lorieKeysymKeyboardEvent E keysym down K = (if down then press_key E keysym K else release_key keysym K)"

lemmas kbd_ops = QueueKeyboardEvents_def mieqProcessInputEvents_def store_pressed_def Let_def

section \<open>Reused keycodes\<close>

declare getReusableKeycode.simps [simp del]

lemma getReusableKeycode_cases:
  "getReusableKeycode xkb items = (k, rest) \<Longrightarrow>
   k = 0 \<and> rest = [] \<and> (\<forall>it\<in>set items. still_ours xkb it \<longrightarrow> snd it = 0) \<or>
   k \<noteq> 0 \<and> (\<exists>ksym later. items = rest @ (ksym, k) # later \<and> still_ours xkb (ksym, k) \<and>
     (\<forall>it\<in>set later. still_ours xkb it \<longrightarrow> snd it = 0))"
proof (induction xkb items arbitrary: k rest rule: getReusableKeycode.induct)
  case (1 xkb items)
  show ?case
  proof (cases items rule: rev_cases)
    case Nil
    then show ?thesis using "1.prems" by (simp add: getReusableKeycode.simps)
  next
    case (snoc ys it)
    obtain ksym c where it: "it = (ksym, c)" by (cases it)
    show ?thesis
    proof (cases "still_ours xkb it \<and> c \<noteq> 0")
      case True
      then show ?thesis
        using "1.prems" snoc it by (subst (asm) getReusableKeycode.simps) (auto simp: Let_def)
    next
      case False
      then have "getReusableKeycode xkb ys = (k, rest)"
        using "1.prems" snoc it by (subst (asm) getReusableKeycode.simps) (auto simp: Let_def split: if_splits)
      moreover have "items \<noteq> []" "\<not> (if still_ours xkb (last items) then snd (last items) else 0) \<noteq> 0"
        "butlast items = ys"
        using False snoc it by auto
      ultimately show ?thesis
        using "1.IH" [OF _ refl] False snoc it by (auto simp: image_iff)
    qed
  qed
qed

lemma vncOnKeyUsed_frame [simp]:
  "desc (vncOnKeyUsed k K) = desc K" "pressedKeys (vncOnKeyUsed k K) = pressedKeys K"
  "queue (vncOnKeyUsed k K) = queue K" "processed (vncOnKeyUsed k K) = processed K"
  by (auto simp: vncOnKeyUsed_def split: list.split option.split)

lemma saveAddedKeysym_frame [simp]:
  "desc (saveAddedKeysym E k s K) = desc K" "pressedKeys (saveAddedKeysym E k s K) = pressedKeys K"
  "queue (saveAddedKeysym E k s K) = queue K" "processed (saveAddedKeysym E k s K) = processed K"
  by (auto simp: saveAddedKeysym_def)

lemma lorieAddKeysym_frame:
  assumes "lorieAddKeysym E keysym K = (k, K')"
  shows "pressedKeys K' = pressedKeys K \<and> queue K' = queue K \<and> processed K' = processed K"
  using assms by (auto simp: lorieAddKeysym_def Let_def split: prod.splits if_splits)

lemma find_keycode_cases:
  assumes "find_keycode E keysym state K = (K', r)"
  obtains (there) f where
      "f = search_or_alternative (desc K) state keysym"
      "fst f \<noteq> 0" "K' = K" "r = Some f"
  | (added) k where "lorieAddKeysym E keysym K = (k, K')"
      "r = (if k = 0 \<or> fst (lorieKeysymToKeycode (desc K') state keysym state) = 0 then None
            else Some (lorieKeysymToKeycode (desc K') state keysym state))"
proof -
  define f where "f = search_or_alternative (desc K) state keysym"
  obtain k K1 where a: "lorieAddKeysym E keysym K = (k, K1)" by fastforce
  have u: "find_keycode E keysym state K =
     (if fst f \<noteq> 0 then (K, Some f)
      else if k = 0 then (K1, None)
      else if fst (lorieKeysymToKeycode (desc K1) state keysym state) = 0 then (K1, None)
      else (K1, Some (lorieKeysymToKeycode (desc K1) state keysym state)))"
    unfolding find_keycode_def Let_def a f_def [symmetric] by simp
  show thesis
  proof (cases "fst f = 0")
    case True
    then show thesis using assms u a by (intro added [of k]) (auto split: if_splits)
  next
    case False
    then show thesis using assms u by (intro there [of f]) (auto simp: f_def)
  qed
qed

lemma find_keycode_frame:
  assumes "find_keycode E keysym state K = (K', r)"
  shows "pressedKeys K' = pressedKeys K \<and> queue K' = queue K \<and> processed K' = processed K"
  using assms by (rule find_keycode_cases) (auto dest: lorieAddKeysym_frame)

section \<open>Outcomes of a press\<close>

lemma press_found_cases:
  assumes "press_found E keysym state found K = K'"
  obtains (given_up) "K' = K"
  | (half_faked) fs where "K' = QueueKeyboardEvents (fake_events fs) K"
      "fake_shift E K state (keep_shift_for_tab keysym state (snd (avoid_fake_shift (desc K) state keysym found))) = Some fs"
  | (typed) fs fl k where "k = fst (avoid_fake_shift (desc K) state keysym found)"
      "queue K' = []"
      "processed K' = processed K @ queue K @ fake_events fs @ fake_events fl @ [KeyPress k] @ undo_events fl @ undo_events fs"
      "pressedKeys K' = pressedKeys (store_pressed k keysym K)"
      "desc K' = desc K"
proof -
  obtain k ns where f: "avoid_fake_shift (desc K) state keysym found = (k, ns)" by fastforce
  let ?ns = "keep_shift_for_tab keysym state ns"
  show thesis
  proof (cases "fake_shift E K state ?ns")
    case None
    then show thesis using assms f given_up by (simp add: press_found_def)
  next
    case (Some fs)
    let ?K1 = "QueueKeyboardEvents (fake_events fs) K"
    show thesis
    proof (cases "fake_level_three E ?K1 (level_three_change (desc K) state ?ns) state ?ns")
      case None
      then show thesis using assms f Some half_faked [of fs] by (simp add: press_found_def Let_def)
    next
      case (Some fl)
      with \<open>fake_shift E K state ?ns = _\<close> assms f have
        "K' = mieqProcessInputEvents (QueueKeyboardEvents (undo_events fs) (QueueKeyboardEvents (undo_events fl)
           (store_pressed k keysym (vncOnKeyUsed k (QueueKeyboardEvents [KeyPress k] (QueueKeyboardEvents (fake_events fl) ?K1))))))"
        by (simp add: press_found_def Let_def)
      then show thesis
        using f by (intro typed [of k fs fl]) (simp_all add: kbd_ops cong: if_cong)
    qed
  qed
qed

text \<open>The keys a modifier faked for a press holds are given back after it: each key it pressed is
  released and each key it released is pressed again, level three before Shift.\<close>

definition flip_event :: "key_event \<Rightarrow> key_event" where
  "flip_event e = (case e of KeyPress k \<Rightarrow> KeyRelease k | KeyRelease k \<Rightarrow> KeyPress k)"

lemma undo_is_flip: "undo_events f = map flip_event (fake_events f)"
  by (cases f) (simp_all add: flip_event_def)

section \<open>Pressed keys\<close>

text \<open>A keysym is held by at most one keycode.\<close>

definition pressed_inv :: "kbd \<Rightarrow> bool" where
  "pressed_inv K \<longleftrightarrow>
     (\<forall>i j. pressedKeys K i = pressedKeys K j \<and> pressedKeys K i \<noteq> NoSymbol \<longrightarrow> i = j) \<and>
     (\<forall>i. pressedKeys K i \<noteq> NoSymbol \<longrightarrow> i < 256)"

lemma pressed_unique:
  "pressed_inv K \<Longrightarrow> pressedKeys K i = x \<Longrightarrow> pressedKeys K j = x \<Longrightarrow> x \<noteq> NoSymbol \<Longrightarrow> i = j"
  by (simp add: pressed_inv_def)

lemma pressed_inv_store:
  "pressed_inv K \<Longrightarrow> k < 256 \<Longrightarrow> pressed_inv (store_pressed k keysym K)"
  unfolding pressed_inv_def store_pressed_def Let_def by (auto split: if_splits)

lemma pressed_inv_cong: "pressedKeys K' = pressedKeys K \<Longrightarrow> pressed_inv K' = pressed_inv K"
  by (simp add: pressed_inv_def)

lemma release_pressed:
  assumes "pressed_inv K" "pressedKeys K k = keysym" "keysym \<noteq> NoSymbol"
  shows "release_key keysym K = mieqProcessInputEvents
          (QueueKeyboardEvents [KeyRelease k] (K\<lparr>pressedKeys := (pressedKeys K)(k := NoSymbol)\<rparr>))"
proof -
  have k: "k < 256" using assms by (auto simp: pressed_inv_def)
  obtain i where i: "find (\<lambda>i. pressedKeys K i = keysym) pressed_slots = Some i"
    using k assms(2) by (cases "find (\<lambda>i. pressedKeys K i = keysym) pressed_slots") (auto simp: find_None_all)
  then have "pressedKeys K i = keysym" using find_Some_in [OF i] by blast
  then have "i = k" using pressed_unique [OF assms(1) _ assms(2,3)] by simp
  then show ?thesis using i by (simp add: release_key_def)
qed

lemma pressed_inv_release: "pressed_inv K \<Longrightarrow> pressed_inv (release_key keysym K)"
  unfolding release_key_def
  by (cases "find (\<lambda>i. pressedKeys K i = keysym) pressed_slots")
     (auto simp: kbd_ops pressed_inv_def split: if_splits)

section \<open>Keycodes stay in range\<close>

text \<open>The keycodes of a core keymap lie between 8 and 255.\<close>

definition core_range :: "xkb_desc \<Rightarrow> bool" where
  "core_range xkb \<longleftrightarrow> 0 < min_key_code xkb \<and> max_key_code xkb < 256"

lemma search_in_range:
  assumes "core_range xkb" "lorieKeysymToKeycode xkb kst keysym state = (k, s)" "k \<noteq> 0"
  shows "XkbKeycodeInRange xkb k" "k < 256"
proof -
  have "0 < min_key_code xkb" using assms(1) by (simp add: core_range_def)
  from search_result_in_range [OF this assms(2,3)] show "XkbKeycodeInRange xkb k" .
  then show "k < 256" using assms(1) by (simp add: core_range_def XkbKeycodeInRange_def)
qed

lemma first_alternative_cases:
  "first_alternative xkb state alts found = (k, s) \<Longrightarrow> k = 0 \<or> found = (k, s) \<or>
     (\<exists>alt\<in>set alts. lorieKeysymToKeycode xkb state alt state = (k, s))"
  by (induction xkb state alts found rule: first_alternative.induct) (auto split: prod.splits if_splits)

lemma search_or_alternative_cases:
  assumes "search_or_alternative xkb state keysym = (k, s)" "k \<noteq> 0"
  shows "\<exists>ks. (ks = keysym \<or> ks \<in> set (alternatives keysym)) \<and> lorieKeysymToKeycode xkb state ks state = (k, s)"
proof (cases "fst (lorieKeysymToKeycode xkb state keysym state) = 0")
  case True
  then have "first_alternative xkb state (alternatives keysym) (lorieKeysymToKeycode xkb state keysym state) = (k, s)"
    using assms(1) by (simp add: search_or_alternative_def)
  from first_alternative_cases [OF this] show ?thesis using assms(2) True by (metis fst_conv)
next
  case False
  then show ?thesis using assms(1) by (auto simp: search_or_alternative_def)
qed

lemma range_after_add:
  assumes "lorieAddKeysym E keysym K = (k, K')"
  shows "min_key_code (desc K') = min_key_code (desc K)" "max_key_code (desc K') = max_key_code (desc K)"
  using assms
  by (auto simp: lorieAddKeysym_def Let_def put_syms_def XkbChangeTypesOfKey_def name_key_def
      split: prod.splits if_splits option.splits)

text \<open>Where a key is found, it yields the keysym or an equivalent one in the state found with it.\<close>

lemma find_keycode_found:
  assumes "find_keycode E keysym state K = (K', Some (k, s))"
  obtains ks where "ks = keysym \<or> ks \<in> set (alternatives keysym)"
    "lorieKeysymToKeycode (desc K') state ks state = (k, s)" "k \<noteq> 0"
  using assms
proof (cases rule: find_keycode_cases)
  case (there f)
  then have "search_or_alternative (desc K) state keysym = (k, s)" "k \<noteq> 0" by (metis fst_conv option.inject)+
  then show thesis
    using that there(3) by (metis search_or_alternative_cases)
next
  case (added k')
  then show thesis using that [of keysym] by (auto split: if_splits) (metis fst_conv)
qed

lemma avoid_fake_shift_found:
  assumes "lorieKeysymToKeycode xkb state ks state = found" "fst found \<noteq> 0"
    and "ks = keysym \<or> ks \<in> set (alternatives keysym)"
  obtains ks' where "ks' = keysym \<or> ks' \<in> set (alternatives keysym)"
    "lorieKeysymToKeycode xkb state ks' state = avoid_fake_shift xkb state keysym found"
    "fst (avoid_fake_shift xkb state keysym found) \<noteq> 0"
proof (cases "avoid_fake_shift xkb state keysym found = found")
  case True
  then show thesis using assms that by metis
next
  case False
  then obtain f where f: "find (\<lambda>f. fst f \<noteq> 0 \<and> \<not> needs_fake_shift xkb state f)
      (map (\<lambda>alt. lorieKeysymToKeycode xkb state alt state) (alternatives keysym)) = Some f"
    and a: "avoid_fake_shift xkb state keysym found = f"
    unfolding avoid_fake_shift_def by (auto split: if_splits option.splits)
  from find_Some_in [OF f] obtain alt where "alt \<in> set (alternatives keysym)"
    "f = lorieKeysymToKeycode xkb state alt state" "fst f \<noteq> 0" by auto
  then show thesis using that [of alt] a by metis
qed

lemma desc_mieq [simp]: "desc (mieqProcessInputEvents K) = desc K"
  by (simp add: mieqProcessInputEvents_def)

lemma range_find_keycode:
  assumes "find_keycode E keysym state K = (K', r)" "core_range (desc K)"
  shows "core_range (desc K')"
  using assms(1) by (rule find_keycode_cases) (use assms(2) range_after_add in \<open>auto simp: core_range_def\<close>)

section \<open>Properties of the handler\<close>

lemma press_key_cases:
  assumes "core_range (desc K)"
  obtains (failed) "pressedKeys (press_key E keysym K) = pressedKeys K"
      "processed (press_key E keysym K) = processed K @ queue K"
  | (typed) fs fl k s ks where
      "ks = keysym \<or> ks \<in> set (alternatives keysym)" "k \<noteq> 0" "k < 256"
      "XkbKeycodeInRange (desc (press_key E keysym K)) k"
      "key_matches (desc (press_key E keysym K)) k s ks"
      "queue (press_key E keysym K) = []"
      "processed (press_key E keysym K) = processed K @ queue K @ fake_events fs @ fake_events fl @ [KeyPress k] @
         undo_events fl @ undo_events fs"
      "pressedKeys (press_key E keysym K) = pressedKeys (store_pressed k keysym K)"
proof -
  let ?K0 = "mieqProcessInputEvents K" and ?st = "lorieGetKeyboardState E (mieqProcessInputEvents K)"
  have K0: "queue ?K0 = []" "processed ?K0 = processed K @ queue K" "pressedKeys ?K0 = pressedKeys K"
    by (simp_all add: mieqProcessInputEvents_def)
  obtain K1 r where f: "find_keycode E keysym ?st ?K0 = (K1, r)" by fastforce
  note frame = find_keycode_frame [OF f, unfolded K0]
  have core: "core_range (desc K1)" using range_find_keycode [OF f] assms by simp
  show thesis
  proof (cases r)
    case None
    then show thesis using failed f frame by (simp add: press_key_def Let_def)
  next
    case (Some found)
    then have P: "press_key E keysym K = press_found E keysym ?st found K1"
      using f by (simp add: press_key_def Let_def)
    obtain k0 s0 where found: "found = (k0, s0)" by fastforce
    from f Some found obtain ks0 where "ks0 = keysym \<or> ks0 \<in> set (alternatives keysym)"
      "lorieKeysymToKeycode (desc K1) ?st ks0 ?st = found" "fst found \<noteq> 0"
      by (auto elim!: find_keycode_found)
    then obtain ks where ks: "ks = keysym \<or> ks \<in> set (alternatives keysym)"
      "lorieKeysymToKeycode (desc K1) ?st ks ?st = avoid_fake_shift (desc K1) ?st keysym found"
      "fst (avoid_fake_shift (desc K1) ?st keysym found) \<noteq> 0"
      using avoid_fake_shift_found by metis
    obtain k s where a: "avoid_fake_shift (desc K1) ?st keysym found = (k, s)" by fastforce
    have k: "XkbKeycodeInRange (desc K1) k" "k < 256" "k \<noteq> 0"
      using search_in_range [OF core, of ?st ks ?st k s] ks a by auto
    have m: "key_matches (desc K1) k s ks"
      using search_result_matches [of "desc K1" ?st ks ?st k s] core ks(2) a k(3) by (simp add: core_range_def)
    from P [symmetric] show thesis
    proof (cases rule: press_found_cases)
      case given_up
      then show thesis using failed frame by simp
    next
      case (half_faked fs)
      then show thesis using failed frame by (simp add: QueueKeyboardEvents_def)
    next
      case (typed fs fl k')
      have "k' = k" using typed(1) a by simp
      with typed k m ks(1) frame a show thesis
        by (intro that(2) [of ks k s fs fl]) (auto simp: store_pressed_def Let_def cong: if_cong)
    qed
  qed
qed

lemma pressed_inv_event:
  assumes "core_range (desc K)" "pressed_inv K"
  shows "pressed_inv (lorieKeysymKeyboardEvent E keysym down K)"
proof (cases down)
  case True
  from assms(1) show ?thesis
  proof (cases rule: press_key_cases [where E = E and keysym = keysym])
    case failed
    then show ?thesis
      using assms(2) True pressed_inv_cong [OF failed(1)] by (simp add: lorieKeysymKeyboardEvent_def)
  next
    case (typed fs fl k s ks)
    then show ?thesis
      using pressed_inv_store [OF assms(2) typed(3), of keysym] True pressed_inv_cong [OF typed(8)]
      by (simp add: lorieKeysymKeyboardEvent_def)
  qed
next
  case False
  then show ?thesis using pressed_inv_release assms(2) by (simp add: lorieKeysymKeyboardEvent_def)
qed

lemma press_found_desc: "desc (press_found E keysym state found K) = desc K"
  by (rule press_found_cases [OF refl, of E keysym state found K]) (auto simp: QueueKeyboardEvents_def)

lemma core_range_event:
  assumes "core_range (desc K)"
  shows "core_range (desc (lorieKeysymKeyboardEvent E keysym down K))"
proof (cases down)
  case True
  let ?K0 = "mieqProcessInputEvents K"
  obtain K1 r where f: "find_keycode E keysym (lorieGetKeyboardState E ?K0) ?K0 = (K1, r)" by fastforce
  have "core_range (desc K1)" using range_find_keycode [OF f] assms by simp
  then show ?thesis
    using True f by (simp add: lorieKeysymKeyboardEvent_def press_key_def Let_def press_found_desc split: option.split)
next
  case False
  then show ?thesis
    using assms by (simp add: lorieKeysymKeyboardEvent_def release_key_def kbd_ops split: option.split)
qed

inductive kbd_step :: "kbd \<Rightarrow> kbd \<Rightarrow> bool" where
  key_event: "kbd_step K (lorieKeysymKeyboardEvent E keysym down K)"

inductive_cases kbd_stepE: "kbd_step K K'"

definition kbd_inv :: "kbd \<Rightarrow> bool" where
  "kbd_inv K \<longleftrightarrow> core_range (desc K) \<and> pressed_inv K"

definition kbd_start :: "kbd \<Rightarrow> bool" where
  "kbd_start K \<longleftrightarrow> core_range (desc K) \<and> pressedKeys K = (\<lambda>i. NoSymbol)"

interpretation kbd_system: transition_system kbd_start kbd_step kbd_inv
proof
  show "kbd_inv K" if "kbd_start K" for K
    using that by (simp add: kbd_inv_def kbd_start_def pressed_inv_def)
  show "kbd_inv K'" if "kbd_inv K" "kbd_step K K'" for K K'
    using that pressed_inv_event core_range_event by (auto simp: kbd_inv_def elim!: kbd_stepE)
qed

lemma press_release_events:
  assumes "kbd_inv K" "keysym \<noteq> NoSymbol"
    and "K1 = lorieKeysymKeyboardEvent E keysym True K"
    and "processed K1 \<noteq> processed K @ queue K"
  shows "\<exists>fs fl k s ks. (ks = keysym \<or> ks \<in> set (alternatives keysym)) \<and>
     key_matches (desc K1) k s ks \<and> queue K1 = [] \<and>
     processed K1 = processed K @ queue K @ fake_events fs @ fake_events fl @ [KeyPress k] @
       map flip_event (fake_events fl) @ map flip_event (fake_events fs) \<and>
     processed (lorieKeysymKeyboardEvent E' keysym False K1) = processed K1 @ [KeyRelease k] \<and>
     keysym \<notin> range (pressedKeys (lorieKeysymKeyboardEvent E' keysym False K1))"
proof -
  have inv: "core_range (desc K)" "pressed_inv K"
    using assms(1) by (simp_all add: kbd_inv_def)
  have K1: "K1 = press_key E keysym K" using assms(3) by (simp add: lorieKeysymKeyboardEvent_def)
  from inv(1) show ?thesis
  proof (cases rule: press_key_cases [where E = E and keysym = keysym])
    case failed
    then show ?thesis using assms(4) K1 by simp
  next
    case (typed fs fl k s ks)
    have pk: "pressedKeys K1 k = keysym" using typed(8) K1 by (simp add: store_pressed_def)
    have pinv: "pressed_inv K1"
      using pressed_inv_event [OF inv, of E keysym True] assms(3) by simp
    let ?K2 = "lorieKeysymKeyboardEvent E' keysym False K1"
    have K2: "?K2 = mieqProcessInputEvents (QueueKeyboardEvents [KeyRelease k]
        (K1\<lparr>pressedKeys := (pressedKeys K1)(k := NoSymbol)\<rparr>))"
      using release_pressed [OF pinv pk assms(2)] by (simp add: lorieKeysymKeyboardEvent_def)
    have "processed ?K2 = processed K1 @ [KeyRelease k]"
      using typed(6) K1 unfolding K2 by (simp add: kbd_ops)
    moreover have "keysym \<notin> range (pressedKeys ?K2)"
      unfolding K2 using pressed_unique [OF pinv _ pk assms(2)] assms(2) by (auto simp: kbd_ops split: if_splits)
    ultimately show ?thesis
      using typed(1,5,6,7) unfolding K1 [symmetric] undo_is_flip by blast
  qed
qed


definition idle_env :: "mods \<Rightarrow> kbd_env" where
  "idle_env m = \<lparr>state_of = (\<lambda>es. m), is_down = (\<lambda>es k. False), can_malloc = True\<rparr>"

definition fresh_kbd :: "xkb_desc \<Rightarrow> kbd" where
  "fresh_kbd xkb = \<lparr>desc = xkb, addedKeysyms = [], pressedKeys = (\<lambda>i. NoSymbol), queue = [], processed = []\<rparr>"

lemma fresh_kbd_sel [simp]: "processed (fresh_kbd xkb) = []" "queue (fresh_kbd xkb) = []" "desc (fresh_kbd xkb) = xkb"
  by (simp_all add: fresh_kbd_def)

lemma fresh_sample_start: "kbd_start (fresh_kbd sample_keymap)"
  by (simp add: kbd_start_def fresh_kbd_def core_range_def)

lemma sample_level3_press: "loriePressLevelThree sample_keymap 0 = 10"
  by (simp add: loriePressLevelThree_def) (simp add: sample_eval)

lemma sample_press_level3:
  "processed (lorieKeysymKeyboardEvent (idle_env 0) 0xb9 True (fresh_kbd sample_keymap)) =
     [KeyPress 10, KeyPress 11, KeyRelease 10]"
  by (simp add: lorieKeysymKeyboardEvent_def press_key_def press_found_def find_keycode_def search_or_alternative_def
      sample_search idle_env_def fresh_kbd_def kbd_ops lorieGetKeyboardState_def avoid_fake_shift_def needs_fake_shift_def
      keep_shift_for_tab_def level_three_change_def fake_shift_def fake_level_three_def ShiftMask_def XK_Tab_def
      sample_level3_press vncOnKeyUsed_def)


section \<open>Unknown keysyms become typable\<close>

text \<open>The alphabetic type of every core keymap: Shift or Lock alone select the second level.\<close>

definition has_alphabetic :: "xkb_desc \<Rightarrow> bool" where
  "has_alphabetic xkb \<longleftrightarrow> rd (types xkb) XkbAlphabeticIndex = Some alphabetic"

lemma second_level_bits: "s AND 3 = 1 \<or> s AND 3 = 2 \<longleftrightarrow> bit s 0 \<noteq> bit s 1" for s :: mods
proof -
  define n where "n = unat s mod 4"
  have "n < 4" by (simp add: n_def)
  then have n: "n = 0 \<or> n = 1 \<or> n = 2 \<or> n = 3" by linarith
  have u: "bit s i \<longleftrightarrow> odd (unat s div 2 ^ i)" if "i < 32" for i
    using that by (simp add: bit_iff_odd [symmetric] bit_unsigned_iff)
  have b: "bit s 0 \<longleftrightarrow> odd n" "bit s 1 \<longleftrightarrow> odd (n div 2)"
    using u [of 0] u [of 1] by (simp_all add: n_def) presburger+
  have "s AND 3 = word_of_nat n"
    using and_mask_mod [of s 2] by (simp add: n_def mask_eq_exp_minus_1)
  then show ?thesis using b n by auto
qed

lemma toggle_shift_bits: "bit (toggle ShiftMask s) 0 \<longleftrightarrow> \<not> bit s 0" "bit (toggle ShiftMask s) 1 \<longleftrightarrow> bit s 1"
proof -
  have z: "s AND 1 = 0 \<longleftrightarrow> \<not> bit s 0" by (simp add: and_one_eq bit_0 odd_iff_mod_2_eq_one)
  have "bit (1 :: mods) 0" "\<not> bit (1 :: mods) 1" by simp_all
  then show "bit (toggle ShiftMask s) 0 \<longleftrightarrow> \<not> bit s 0" "bit (toggle ShiftMask s) 1 \<longleftrightarrow> bit s 1"
    unfolding toggle_def ShiftMask_def z by (cases "bit s 0"; simp add: bit_simps)+
qed

text \<open>A key of one alphabetic group yields its first keysym or, under exactly one of Shift and Lock, its
  second.\<close>

lemma alphabetic_key_translate:
  assumes "XkbKeycodeInRange xkb k" "XkbKeyNumGroups xkb k = 1" "XkbKeyKeyType xkb k 0 = alphabetic"
    and "syms (keys xkb k) = [a, b]"
  shows "XkbTranslateKeyCode xkb k s = (if bit s 0 \<noteq> bit s 1 then b else a, 3)"
proof -
  have g: "effective_group xkb k s = 0" using effective_group_lt [of xkb k s] assms(2) by simp
  show ?thesis
    using second_level_bits [of s] assms
    by (auto simp: XkbTranslateKeyCode_def key_column_def g alphabetic_def Let_def)
qed

lemma alphabetic_key_matches:
  assumes "XkbKeycodeInRange xkb k" "XkbKeyNumGroups xkb k = 1" "XkbKeyKeyType xkb k 0 = alphabetic"
    and "syms (keys xkb k) = [a, b]" "keysym = a \<or> keysym = b" "keysym \<noteq> NoSymbol"
  shows "key_matches xkb k s keysym \<or> key_matches xkb k (toggle ShiftMask s) keysym"
proof -
  have lock: "(t AND NOT 3) AND LockMask = 0" for t :: mods
    by (simp add: LockMask_def and.assoc)
  note tr = alphabetic_key_translate [OF assms(1-4)]
  have "key_matches xkb k t keysym" if "keysym = (if bit t 0 \<noteq> bit t 1 then b else a)" for t
    using that assms(6) lock by (simp add: key_matches_def produced_def tr split: if_splits)
  then show ?thesis using assms(5) toggle_shift_bits [of s] by auto
qed

lemma add_key_parts:
  assumes "lorieAddKeysym E keysym K = (k, K')" "k \<noteq> 0"
  shows "desc K' = put_syms k (fst (XkbConvertCase keysym)) (snd (XkbConvertCase keysym))
           (XkbChangeTypesOfKey (name_key k (desc K)) k XkbAlphabeticIndex)"
  using assms by (auto simp: lorieAddKeysym_def Let_def split: prod.splits if_splits)

lemma length_resized [simp]: "length (resized z w n xs) = w"
  by (simp add: resized_def)

lemma changed_key:
  assumes "XkbKeycodeInRange xkb k" "has_alphabetic xkb" "wf_key xkb k"
  shows "XkbKeycodeInRange (XkbChangeTypesOfKey xkb k XkbAlphabeticIndex) k"
    "XkbKeyNumGroups (XkbChangeTypesOfKey xkb k XkbAlphabeticIndex) k = 1"
    "XkbKeyKeyType (XkbChangeTypesOfKey xkb k XkbAlphabeticIndex) k 0 = alphabetic"
    "length (syms (keys (XkbChangeTypesOfKey xkb k XkbAlphabeticIndex) k)) = 2"
proof -
  have w: "num_levels alphabetic = 2" by (simp add: alphabetic_def)
  have "length (syms (keys xkb k)) = group_width (keys xkb k)" if "num_groups (keys xkb k) = 1"
    using assms(3) that by (simp add: wf_key_def Let_def)
  then show "XkbKeycodeInRange (XkbChangeTypesOfKey xkb k XkbAlphabeticIndex) k"
    "XkbKeyNumGroups (XkbChangeTypesOfKey xkb k XkbAlphabeticIndex) k = 1"
    "XkbKeyKeyType (XkbChangeTypesOfKey xkb k XkbAlphabeticIndex) k 0 = alphabetic"
    "length (syms (keys (XkbChangeTypesOfKey xkb k XkbAlphabeticIndex) k)) = 2"
    using assms(1,2) by (auto simp: XkbChangeTypesOfKey_def has_alphabetic_def XkbKeycodeInRange_def XkbKeyNumGroups_def
        XkbKeyKeyType_def Let_def w)
qed

text \<open>C27. A keysym that no key yields becomes typable: if a free or reusable keycode is found for it,
  the search that follows finds a key for the keysym whatever the modifier state, so the error
  ``cannot be generated'' does not arise; and the handler therefore fails to find a key only when
  no keycode is left.\<close>

theorem added_keysym_is_typable:
  assumes "core_range (desc K)" "has_alphabetic (desc K)" "keysym \<noteq> NoSymbol"
    and "lorieAddKeysym E keysym K = (k, K')" "k \<noteq> 0"
    and "XkbKeycodeInRange (desc K) k" "wf_key (desc K) k"
  shows "XkbKeyNumGroups (desc K') k = 1 \<and>
         syms (keys (desc K') k) = [fst (XkbConvertCase keysym), snd (XkbConvertCase keysym)] \<and>
         (\<forall>kst state. fst (lorieKeysymToKeycode (desc K') kst keysym state) \<noteq> 0)"
proof -
  let ?x1 = "name_key k (desc K)" and ?x2 = "XkbChangeTypesOfKey (name_key k (desc K)) k XkbAlphabeticIndex"
  have x1: "XkbKeycodeInRange ?x1 k" "has_alphabetic ?x1" "wf_key ?x1 k"
    using assms(2,6,7) by (auto simp: name_key_def XkbKeycodeInRange_def has_alphabetic_def wf_key_def Let_def
        cong: option.case_cong)
  note x2 = changed_key [OF x1]
  have d: "desc K' = put_syms k (fst (XkbConvertCase keysym)) (snd (XkbConvertCase keysym)) ?x2"
    by (rule add_key_parts [OF assms(4,5)])
  obtain p q where "syms (keys ?x2 k) = [p, q]"
    using x2(4) by (cases "syms (keys ?x2 k)"; cases "tl (syms (keys ?x2 k))") auto
  then have key: "XkbKeycodeInRange (desc K') k" "XkbKeyNumGroups (desc K') k = 1"
    "XkbKeyKeyType (desc K') k 0 = alphabetic"
    "syms (keys (desc K') k) = [fst (XkbConvertCase keysym), snd (XkbConvertCase keysym)]"
    using x2(1-3) unfolding d
    by (simp_all add: put_syms_def XkbKeycodeInRange_def XkbKeyNumGroups_def XkbKeyKeyType_def cong: option.case_cong)
  have m: "0 < min_key_code (desc K')"
    using range_after_add [OF assms(4)] assms(1) by (simp add: core_range_def)
  have "fst (lorieKeysymToKeycode (desc K') kst keysym state) \<noteq> 0" for kst state
  proof
    assume z: "fst (lorieKeysymToKeycode (desc K') kst keysym state) = 0"
    have "keysym_search (desc K') keysym state = 0" "keysym_search (desc K') keysym (toggle ShiftMask state) = 0"
      using z by (auto simp: lorieKeysymToKeycode_def Let_def split: if_splits)
    then have "\<not> key_matches (desc K') k state keysym" "\<not> key_matches (desc K') k (toggle ShiftMask state) keysym"
      using keysym_search_cases [OF m, of keysym state] keysym_search_cases [OF m, of keysym "toggle ShiftMask state"] key(1)
      by simp_all
    then show False
      using alphabetic_key_matches [OF key, of keysym state] XkbConvertCase_member [of keysym] assms(3) by auto
  qed
  then show ?thesis using key by simp
qed

lemma sample_add: "\<exists>K'. lorieAddKeysym (idle_env 0) 0x20ac (fresh_kbd sample_keymap) = (12, K')"
proof -
  have "free_keycode sample_keymap = Some 12"
    by (simp add: free_keycode_def XkbKeyNumGroups_def)
  then show ?thesis by (simp add: lorieAddKeysym_def Let_def split: prod.split)
qed

theorem added_keysym_is_typable_witness:
  "fst (lorieKeysymToKeycode (desc (snd (lorieAddKeysym (idle_env 0) 0x20ac (fresh_kbd sample_keymap)))) 0 0x20ac 2) \<noteq> 0"
proof -
  obtain K' where a: "lorieAddKeysym (idle_env 0) 0x20ac (fresh_kbd sample_keymap) = (12, K')"
    using sample_add by blast
  have "core_range (desc (fresh_kbd sample_keymap))" "has_alphabetic (desc (fresh_kbd sample_keymap))"
    "XkbKeycodeInRange (desc (fresh_kbd sample_keymap)) 12" "wf_key (desc (fresh_kbd sample_keymap)) 12"
    by (simp_all add: core_range_def has_alphabetic_def XkbAlphabeticIndex_def XkbKeycodeInRange_def wf_key_def Let_def
        numeral_2_eq_2)
  with added_keysym_is_typable [OF _ _ _ a] show ?thesis by (simp add: a NoSymbol_def)
qed

section \<open>A fake Shift that is never undone\<close>

text \<open>The sample keymap with a level-three key that yields another keysym while Lock is on.\<close>

definition lock_type :: key_type where
  "lock_type = \<lparr>type_mask = 2, num_levels = 2,
     type_map = [\<lparr>active = True, entry_mask = 2, level = 1\<rparr>], type_preserve = None\<rparr>"

definition locked_keymap :: xkb_desc where
  "locked_keymap = sample_keymap\<lparr>types := [one_level, two_level, alphabetic, four_level, lock_type],
     keys := sample_keys(10 := tiny_key [4] [0xfe03, 0xffeb] (Some [SetMods False 0x80, SetMods False 0x40]))\<rparr>"

lemma locked_sel [simp]:
  "min_key_code locked_keymap = 8" "max_key_code locked_keymap = 12"
  "types locked_keymap = [one_level, two_level, alphabetic, four_level, lock_type]"
  "key_range locked_keymap = [8, 9, 10, 11, 12]"
  "keys locked_keymap 8 = tiny_key [2] [0x61, 0x41] None"
  "keys locked_keymap 9 = tiny_key [0] [0xffe1] (Some [SetMods False 1])"
  "keys locked_keymap 10 = tiny_key [4] [0xfe03, 0xffeb] (Some [SetMods False 0x80, SetMods False 0x40])"
  "keys locked_keymap 11 = tiny_key [3] [0x31, 0x21, 0xb9, 0xa1] None"
  "keys locked_keymap 12 = tiny_key [] [] None"
  by (simp_all add: locked_keymap_def sample_keys_def key_range_def upt_rec)

lemma locked_translate [simp]:
  "XkbTranslateKeyCode locked_keymap 8 s = (if s AND 3 = 1 \<or> s AND 3 = 2 then 0x41 else 0x61, 3)"
  "XkbTranslateKeyCode locked_keymap 9 s = (0xffe1, 0)"
  "XkbTranslateKeyCode locked_keymap 10 s = (if s AND 2 = 2 then 0xffeb else 0xfe03, 2)"
  "XkbTranslateKeyCode locked_keymap 11 s = (if s AND 0x81 = 1 then 0x21 else if s AND 0x81 = 0x80 then 0xb9
     else if s AND 0x81 = 0x81 then 0xa1 else 0x31, 0x81)"
  "XkbTranslateKeyCode locked_keymap 12 s = (0, 0)"
  by (simp_all add: XkbTranslateKeyCode_def XkbKeycodeInRange_def key_column_def effective_group_one XkbKeyNumGroups_def
    XkbKeyKeyType_def one_level_def alphabetic_def four_level_def lock_type_def NoSymbol_def Let_def)

lemma locked_action [simp]:
  "XkbKeyActionPtr locked_keymap 8 s = None"
  "XkbKeyActionPtr locked_keymap 9 s = Some (SetMods False 1)"
  "XkbKeyActionPtr locked_keymap 10 s = Some (if s AND 2 = 2 then SetMods False 0x40 else SetMods False 0x80)"
  "XkbKeyActionPtr locked_keymap 11 s = None"
  "XkbKeyActionPtr locked_keymap 12 s = None"
  by (simp_all add: XkbKeyActionPtr_def XkbKeycodeInRange_def key_column_def effective_group_one XkbKeyNumGroups_def
    XkbKeyKeyType_def one_level_def lock_type_def NoSymbol_def Let_def)

lemma locked_level3: "lorieGetLevelThreeMask locked_keymap 2 = 0x80"
  by (simp add: sample_eval)

lemma locked_search: "lorieKeysymToKeycode locked_keymap 2 0xa1 2 = (11, 0x83)"
  by (simp add: lorieKeysymToKeycode_def locked_level3) (simp add: sample_eval XkbConvertCase_def convert_page_defs)

lemma locked_fakes: "loriePressShift locked_keymap 2 = 9" "loriePressLevelThree locked_keymap 2 = 0"
  "\<not> lorieIsAffectedByNumLock locked_keymap 2 11"
  by (simp_all add: loriePressShift_def loriePressLevelThree_def locked_level3 lorieIsAffectedByNumLock_def XK_Num_Lock_def
     sample_eval XkbConvertCase_def convert_page_defs)

text \<open>The early return when no level-three key is found comes after the fake Shift press was queued, and
  nothing takes it back: there is a keymap and a state in which typing one keysym, press and
  release, leaves exactly a press of Shift in the queue.\<close>

theorem fake_shift_left_pressed:
  "\<exists>E K keysym. core_range (desc K) \<and> queue K = [] \<and> processed K = [] \<and>
     (let K' = lorieKeysymKeyboardEvent E keysym False (lorieKeysymKeyboardEvent E keysym True K)
      in queue K' = [KeyPress 9] \<and> processed K' = [] \<and> pressedKeys K' = pressedKeys K)"
proof -
  let ?K = "fresh_kbd locked_keymap" and ?E = "idle_env 2"
  have "press_key ?E 0xa1 ?K = ?K\<lparr>queue := [KeyPress 9]\<rparr>"
    by (simp add: press_key_def press_found_def find_keycode_def search_or_alternative_def
      locked_search idle_env_def fresh_kbd_def kbd_ops lorieGetKeyboardState_def avoid_fake_shift_def needs_fake_shift_def
      keep_shift_for_tab_def level_three_change_def fake_shift_def fake_level_three_def ShiftMask_def XK_Tab_def
      locked_level3 locked_fakes)
  moreover have "release_key 0xa1 (?K\<lparr>queue := [KeyPress 9]\<rparr>) = ?K\<lparr>queue := [KeyPress 9]\<rparr>"
  proof -
    have "find (\<lambda>i. False) pressed_slots = None" by (simp add: find_None_all)
    then show ?thesis by (simp add: release_key_def fresh_kbd_def NoSymbol_def)
  qed
  ultimately show ?thesis
    by (intro exI [of _ ?E] exI [of _ ?K] exI [of _ "0xa1"])
       (simp add: lorieKeysymKeyboardEvent_def core_range_def Let_def fresh_kbd_def)
qed

end
