(* ===== verification/Lorie_Wire.thy ===== *)
theory Lorie_Wire
  imports Lorie_Prelude
begin

text \<open>
  The messages between the activity and the X server: the union \<^verbatim>\<open>lorieEvent\<close> of \<^verbatim>\<open>lorie/lorie.h\<close> as 24
  bytes in the layout of a 64-bit little-endian target, the functions that send them
  (\<^verbatim>\<open>lorie/activity.c\<close>, \<^verbatim>\<open>lorie/cmdentrypoint.c\<close>) and the two read loops. A socket is the list of the
  bytes that have arrived and are not read yet. Floats are kept as their 32 bits.
\<close>

section \<open>Little-endian fields\<close>

fun le_bytes :: "nat \<Rightarrow> nat \<Rightarrow> bytes" where
  "le_bytes 0 v = []"
| "le_bytes (Suc n) v = word_of_nat v # le_bytes n (v div 256)"

fun le_nat :: "bytes \<Rightarrow> nat" where
  "le_nat [] = 0"
| "le_nat (b # bs) = unat b + 256 * le_nat bs"

lemma length_le_bytes [simp]: "length (le_bytes n v) = n"
  by (induction n arbitrary: v) simp_all

lemma le_nat_le_bytes: "le_nat (le_bytes n v) = v mod 256 ^ n"
proof (induction n arbitrary: v)
  case (Suc n)
  have "unat (word_of_nat v :: u8) = v mod 256" by (simp add: unsigned_of_nat take_bit_eq_mod)
  then show ?case using Suc by (simp add: mod_mult2_eq)
qed simp

definition field :: "nat \<Rightarrow> nat \<Rightarrow> bytes \<Rightarrow> 'a::len word" where
  "field off n bs = word_of_nat (le_nat (take n (drop off bs)))"

lemma field_Cons [simp]: "field (Suc off) n (b # bs) = field off n bs"
  "field (numeral k) n (b # bs) = field (pred_numeral k) n bs"
  by (simp_all add: field_def)

lemma field_skip: "length xs \<le> off \<Longrightarrow> field off n (xs @ ys) = field (off - length xs) n ys"
  by (simp add: field_def)

lemma field_here:
  "256 ^ n = (2 :: nat) ^ LENGTH('a) \<Longrightarrow> field 0 n (le_bytes n (unat (w :: 'a::len word)) @ ys) = w"
  by (simp add: field_def le_nat_le_bytes)

lemma field_byte [simp]: "field 0 (Suc 0) (b # ys) = (b :: u8)"
  by (simp add: field_def)

lemma field_here_word [simp]:
  "field 0 2 (le_bytes 2 (unat (h :: u16)) @ ys) = h"
  "field 0 4 (le_bytes 4 (unat (w :: u32)) @ ys) = w"
  "field 0 8 (le_bytes 8 (unat (l :: u64)) @ ys) = l"
  by (rule field_here; simp)+

section \<open>Events\<close>

datatype lorieEvent =
    EVENT_UNKNOWN u8
  | EVENT_SHARED_SERVER_STATE
  | EVENT_ADD_BUFFER
  | EVENT_REMOVE_BUFFER (buffer_id: u64)
  | EVENT_SCREEN_SIZE (ss_width: u16) (ss_height: u16) (ss_framerate: u16) (ss_name_size: u64) (ss_name: u64)
  | EVENT_TOUCH (t_type: u16) (t_id: u16) (t_x: u16) (t_y: u16)
  | EVENT_MOUSE (m_x: u32) (m_y: u32) (m_detail: u8) (m_down: u8) (m_relative: u8)
  | EVENT_KEY (k_key: u16) (k_state: u8)
  | EVENT_STYLUS (s_x: u32) (s_y: u32) (s_pressure: u16) (s_tilt_x: u8) (s_tilt_y: u8) (s_orientation: u16)
      (s_buttons: u8) (s_eraser: u8) (s_mouse: u8)
  | EVENT_STYLUS_ENABLE (se_enable: u8)
  | EVENT_UNICODE (u_code: u32)
  | EVENT_CLIPBOARD_ENABLE (ce_enable: u8)
  | EVENT_CLIPBOARD_ANNOUNCE
  | EVENT_CLIPBOARD_REQUEST
  | EVENT_CLIPBOARD_SEND (cs_count: u32)
  | EVENT_WINDOW_FOCUS_CHANGED

definition sizeof_event :: nat where "sizeof_event = 24"

definition padded :: "bytes \<Rightarrow> bytes" where
  "padded bs = bs @ replicate (sizeof_event - length bs) 0"

abbreviation (input) f8 :: "u8 \<Rightarrow> bytes" where "f8 w \<equiv> le_bytes (Suc 0) (unat w)"
abbreviation (input) f16 :: "u16 \<Rightarrow> bytes" where "f16 w \<equiv> le_bytes 2 (unat w)"
abbreviation (input) f32 :: "u32 \<Rightarrow> bytes" where "f32 w \<equiv> le_bytes 4 (unat w)"
abbreviation (input) f64 :: "u64 \<Rightarrow> bytes" where "f64 w \<equiv> le_bytes 8 (unat w)"

fun fields :: "lorieEvent \<Rightarrow> bytes" where
  "fields (EVENT_UNKNOWN t) = [t]"
| "fields EVENT_SHARED_SERVER_STATE = [1]"
| "fields EVENT_ADD_BUFFER = [2]"
| "fields (EVENT_REMOVE_BUFFER i) = [3, 0, 0, 0, 0, 0, 0, 0] @ f64 i"
| "fields (EVENT_SCREEN_SIZE w h f ns nm) = [4, 0] @ f16 w @ f16 h @ f16 f @ f64 ns @ f64 nm"
| "fields (EVENT_TOUCH ty i x y) = [5, 0] @ f16 ty @ f16 i @ f16 x @ f16 y"
| "fields (EVENT_MOUSE x y d dn r) = [6, 0, 0, 0] @ f32 x @ f32 y @ f8 d @ f8 dn @ f8 r"
| "fields (EVENT_KEY k s) = [7, 0] @ f16 k @ f8 s"
| "fields (EVENT_STYLUS x y p tx ty ori b er mo) =
     [8, 0, 0, 0] @ f32 x @ f32 y @ f16 p @ f8 tx @ f8 ty @ f16 ori @ f8 b @ f8 er @ f8 mo"
| "fields (EVENT_STYLUS_ENABLE en) = [9] @ f8 en"
| "fields (EVENT_UNICODE c) = [10, 0, 0, 0] @ f32 c"
| "fields (EVENT_CLIPBOARD_ENABLE en) = [11] @ f8 en"
| "fields EVENT_CLIPBOARD_ANNOUNCE = [12]"
| "fields EVENT_CLIPBOARD_REQUEST = [13]"
| "fields (EVENT_CLIPBOARD_SEND c) = [14, 0, 0, 0] @ f32 c"
| "fields EVENT_WINDOW_FOCUS_CHANGED = [15]"

definition encode :: "lorieEvent \<Rightarrow> bytes" where
  "encode e = padded (fields e)"

definition decode :: "bytes \<Rightarrow> lorieEvent option" where
  "decode bs =
     (if length bs \<noteq> sizeof_event then None
      else let t = hd bs in
      Some (if t = 1 then EVENT_SHARED_SERVER_STATE
      else if t = 2 then EVENT_ADD_BUFFER
      else if t = 3 then EVENT_REMOVE_BUFFER (field 8 8 bs)
      else if t = 4 then EVENT_SCREEN_SIZE (field 2 2 bs) (field 4 2 bs) (field 6 2 bs) (field 8 8 bs) (field 16 8 bs)
      else if t = 5 then EVENT_TOUCH (field 2 2 bs) (field 4 2 bs) (field 6 2 bs) (field 8 2 bs)
      else if t = 6 then EVENT_MOUSE (field 4 4 bs) (field 8 4 bs) (field 12 1 bs) (field 13 1 bs) (field 14 1 bs)
      else if t = 7 then EVENT_KEY (field 2 2 bs) (field 4 1 bs)
      else if t = 8 then EVENT_STYLUS (field 4 4 bs) (field 8 4 bs) (field 12 2 bs) (field 14 1 bs) (field 15 1 bs)
        (field 16 2 bs) (field 18 1 bs) (field 19 1 bs) (field 20 1 bs)
      else if t = 9 then EVENT_STYLUS_ENABLE (field 1 1 bs)
      else if t = 10 then EVENT_UNICODE (field 4 4 bs)
      else if t = 11 then EVENT_CLIPBOARD_ENABLE (field 1 1 bs)
      else if t = 12 then EVENT_CLIPBOARD_ANNOUNCE
      else if t = 13 then EVENT_CLIPBOARD_REQUEST
      else if t = 14 then EVENT_CLIPBOARD_SEND (field 4 4 bs)
      else if t = 15 then EVENT_WINDOW_FOCUS_CHANGED
      else EVENT_UNKNOWN t))"

text \<open>A tag in use never stands for an unknown event.\<close>

definition valid_event :: "lorieEvent \<Rightarrow> bool" where
  "valid_event e = (case e of EVENT_UNKNOWN t \<Rightarrow> t = 0 \<or> 15 < t | _ \<Rightarrow> True)"

lemma length_fields: "length (fields e) \<le> sizeof_event"
  by (cases e) (simp_all add: sizeof_event_def)

lemma length_encode [simp]: "length (encode e) = sizeof_event"
  using length_fields [of e] by (simp add: encode_def padded_def)

lemma hd_encode: "hd (encode e) = hd (fields e)"
  by (cases e) (simp_all add: encode_def padded_def)

lemma decode_encode: "valid_event e \<Longrightarrow> decode (encode e) = Some e"
  by (cases e) (auto simp: decode_def hd_encode valid_event_def Let_def, auto simp: encode_def padded_def field_skip)

interpretation wire: fixed_codec sizeof_event encode decode valid_event
  by unfold_locales (simp_all add: decode_encode)

section \<open>Senders of the activity\<close>

text \<open>Each function gives the bytes it writes to the socket; without a connection nothing is written. The
  conversions are those of C: a \<^verbatim>\<open>jint\<close> is truncated to the width of the field.\<close>

definition setClipboardSyncEnabled :: "bool \<Rightarrow> bool \<Rightarrow> bytes" where
  "setClipboardSyncEnabled conn enable = (if conn then encode (EVENT_CLIPBOARD_ENABLE (of_bool enable)) else [])"

definition sendClipboardAnnounce :: "bool \<Rightarrow> bytes" where
  "sendClipboardAnnounce conn = (if conn then encode EVENT_CLIPBOARD_ANNOUNCE else [])"

definition sendClipboardEvent :: "bool \<Rightarrow> bytes option \<Rightarrow> bytes" where
  "sendClipboardEvent conn text =
     (case text of
        None \<Rightarrow> []
      | Some str \<Rightarrow> if conn then encode (EVENT_CLIPBOARD_SEND (word_of_nat (length str))) @ str else [])"

definition sendWindowChange :: "bool \<Rightarrow> int \<Rightarrow> int \<Rightarrow> int \<Rightarrow> bytes option \<Rightarrow> bytes" where
  "sendWindowChange conn w h framerate jname =
     (if conn then
        let name = (if jname = None \<or> w \<le> 0 \<or> h \<le> 0 then None else map_option c_string jname);
            len = (case name of None \<Rightarrow> 0 | Some n \<Rightarrow> length n)
        in encode (EVENT_SCREEN_SIZE (word_of_int w) (word_of_int h) (word_of_int framerate) (word_of_nat len) 0) @
           (case name of None \<Rightarrow> [] | Some n \<Rightarrow> n)
      else [])"

definition sendMouseEvent :: "bool \<Rightarrow> u32 \<Rightarrow> u32 \<Rightarrow> int \<Rightarrow> bool \<Rightarrow> bool \<Rightarrow> bytes" where
  "sendMouseEvent conn x y which_button button_down relative =
     (if conn then encode (EVENT_MOUSE x y (word_of_int which_button) (of_bool button_down) (of_bool relative)) else [])"

definition sendTouchEvent :: "bool \<Rightarrow> int \<Rightarrow> int \<Rightarrow> int \<Rightarrow> int \<Rightarrow> bytes" where
  "sendTouchEvent conn action i x y =
     (if conn \<and> action \<noteq> -1 then encode (EVENT_TOUCH (word_of_int action) (word_of_int i) (word_of_int x) (word_of_int y))
      else [])"

definition sendStylusEvent ::
  "bool \<Rightarrow> u32 \<Rightarrow> u32 \<Rightarrow> int \<Rightarrow> int \<Rightarrow> int \<Rightarrow> int \<Rightarrow> int \<Rightarrow> bool \<Rightarrow> bool \<Rightarrow> bytes" where
  "sendStylusEvent conn x y pressure tilt_x tilt_y orientation buttons eraser mouse =
     (if conn then encode (EVENT_STYLUS x y (word_of_int pressure) (word_of_int tilt_x) (word_of_int tilt_y)
        (word_of_int orientation) (word_of_int buttons) (of_bool eraser) (of_bool mouse)) else [])"

definition requestStylusEnabled :: "bool \<Rightarrow> bool \<Rightarrow> bytes" where
  "requestStylusEnabled conn enabled = (if conn then encode (EVENT_STYLUS_ENABLE (of_bool enabled)) else [])"

text \<open>The keycode table is made of constants of the kernel headers and is an argument; a keycode outside
  the table is undefined (\<open>None\<close>).\<close>

definition sendKeyEvent :: "int list \<Rightarrow> bool \<Rightarrow> int \<Rightarrow> nat \<Rightarrow> bool \<Rightarrow> bytes option" where
  "sendKeyEvent android_to_linux_keycode conn scan_code key_code key_down =
     (if conn then
        Option.bind (if scan_code \<noteq> 0 then Some scan_code else rd android_to_linux_keycode key_code)
          (\<lambda>code. Some (encode (EVENT_KEY (word_of_int (code + 8)) (of_bool key_down))))
      else Some [])"

section \<open>Senders of the server\<close>

definition lorieSendClipboardData :: "bool \<Rightarrow> bytes option \<Rightarrow> bytes" where
  "lorieSendClipboardData conn buf =
     (case buf of
        None \<Rightarrow> []
      | Some s \<Rightarrow> if conn then encode (EVENT_CLIPBOARD_SEND (word_of_nat (length (c_string s)))) @ c_string s else [])"

definition lorieRequestClipboard :: "bool \<Rightarrow> bytes" where
  "lorieRequestClipboard conn = (if conn then encode EVENT_CLIPBOARD_REQUEST else [])"

text \<open>The descriptor travels with one byte.\<close>

definition lorieSendSharedServerState :: "bool \<Rightarrow> bytes" where
  "lorieSendSharedServerState conn = (if conn then encode EVENT_SHARED_SERVER_STATE @ [0x21] else [])"

definition DDXNotifyFocusChanged :: "bool \<Rightarrow> bytes" where
  "DDXNotifyFocusChanged conn = (if conn then encode EVENT_WINDOW_FOCUS_CHANGED else [])"

text \<open>The registered buffers by their identifiers; \<open>handle\<close> are the bytes of the buffer's own message.\<close>

definition lorieRegisterBuffer :: "bool \<Rightarrow> u64 \<Rightarrow> bytes \<Rightarrow> u64 list \<Rightarrow> bytes \<times> u64 list" where
  "lorieRegisterBuffer conn bid handle registered =
     (if \<not> conn \<or> bid \<in> set registered then ([], registered)
      else (encode EVENT_ADD_BUFFER @ handle, bid # registered))"

definition lorieUnregisterBuffer :: "bool \<Rightarrow> u64 \<Rightarrow> u64 list \<Rightarrow> bytes \<times> u64 list" where
  "lorieUnregisterBuffer conn bid registered =
     (if bid \<notin> set registered \<or> \<not> conn then ([], registered)
      else (encode (EVENT_REMOVE_BUFFER bid), remove1 bid registered))"

section \<open>The read loops\<close>

text \<open>How many bytes the handler of an event reads after it.\<close>

definition server_payload :: "lorieEvent \<Rightarrow> nat" where
  "server_payload e = (case e of
       EVENT_SCREEN_SIZE w h f ns nm \<Rightarrow> unat ns
     | EVENT_CLIPBOARD_SEND c \<Rightarrow> unat c
     | _ \<Rightarrow> 0)"

text \<open>\<open>handle_size\<close> is the size of the message of a shared buffer.\<close>

definition client_payload :: "nat \<Rightarrow> lorieEvent \<Rightarrow> nat" where
  "client_payload handle_size e = (case e of
       EVENT_CLIPBOARD_SEND c \<Rightarrow> if c = 0 then 0 else unat c + 1
     | EVENT_SHARED_SERVER_STATE \<Rightarrow> 1
     | EVENT_ADD_BUFFER \<Rightarrow> handle_size
     | _ \<Rightarrow> 0)"

text \<open>One call of the read callback: the events handled, each with the bytes read for it, and what is left
  in the socket. A short read loses what it read; the loop continues only while more than one
  event's worth of bytes is waiting.\<close>

function read_loop :: "(lorieEvent \<Rightarrow> nat) \<Rightarrow> bytes \<Rightarrow> (lorieEvent \<times> bytes) list \<times> bytes" where
  "read_loop payload bs =
     (case decode (take sizeof_event bs) of
        None \<Rightarrow> ([], drop sizeof_event bs)
      | Some e \<Rightarrow>
          let body = drop sizeof_event bs; data = take (payload e) body; rest = drop (payload e) body
          in if length rest > sizeof_event
             then (case read_loop payload rest of (es, r) \<Rightarrow> ((e, data) # es, r))
             else ([(e, data)], rest))"
  by pat_completeness auto
termination
  by (relation "measure (\<lambda>(payload, bs). length bs)") (auto simp: decode_def sizeof_event_def Let_def split: if_splits)

declare read_loop.simps [simp del]

definition handleLorieEvents_loop :: "bytes \<Rightarrow> (lorieEvent \<times> bytes) list \<times> bytes" where
  "handleLorieEvents_loop = read_loop server_payload"

definition xcallback_loop :: "nat \<Rightarrow> bytes \<Rightarrow> (lorieEvent \<times> bytes) list \<times> bytes" where
  "xcallback_loop handle_size = read_loop (client_payload handle_size)"

text \<open>The poll loop calls the callback again as long as bytes are waiting.\<close>

lemma read_loop_shorter: "bs \<noteq> [] \<Longrightarrow> length (snd (read_loop payload bs)) < length bs"
proof (induction payload bs rule: read_loop.induct)
  case (1 payload bs)
  show ?case
  proof (cases "decode (take sizeof_event bs)")
    case None
    then show ?thesis using "1.prems" by (simp add: read_loop.simps sizeof_event_def)
  next
    case (Some e)
    let ?rest = "drop (payload e) (drop sizeof_event bs)"
    have "length ?rest < length bs" using "1.prems" by (simp add: sizeof_event_def)
    moreover have "length (snd (read_loop payload ?rest)) < length ?rest" if "length ?rest > sizeof_event"
      using "1.IH" [OF Some refl refl refl that] that by auto
    ultimately show ?thesis
      using Some by (subst read_loop.simps) (auto simp: Let_def case_prod_beta add.commute [of "payload e"])
  qed
qed

function poll_loop :: "(lorieEvent \<Rightarrow> nat) \<Rightarrow> bytes \<Rightarrow> (lorieEvent \<times> bytes) list" where
  "poll_loop payload bs =
     (if bs = [] then [] else fst (read_loop payload bs) @ poll_loop payload (snd (read_loop payload bs)))"
  by pat_completeness auto
termination
  by (relation "measure (\<lambda>(payload, bs). length bs)") (auto intro: read_loop_shorter)

declare poll_loop.simps [simp del]

section \<open>What is sent is what is received\<close>

definition on_wire :: "lorieEvent \<times> bytes \<Rightarrow> bytes" where
  "on_wire m = encode (fst m) @ snd m"

definition fits :: "(lorieEvent \<Rightarrow> nat) \<Rightarrow> lorieEvent \<times> bytes \<Rightarrow> bool" where
  "fits payload m \<longleftrightarrow> valid_event (fst m) \<and> payload (fst m) = length (snd m)"

lemma read_loop_message:
  assumes "fits payload m"
  shows "read_loop payload (on_wire m @ rest) =
    (if length rest > sizeof_event then (m # fst (read_loop payload rest), snd (read_loop payload rest)) else ([m], rest))"
proof -
  have "decode (take sizeof_event (on_wire m @ rest)) = Some (fst m)"
    using assms wire.dec_take_enc [of "fst m" "snd m @ rest"] by (simp add: on_wire_def fits_def)
  moreover have "drop sizeof_event (on_wire m @ rest) = snd m @ rest"
    using wire.drop_enc [of "fst m" "snd m @ rest"] by (simp add: on_wire_def)
  ultimately show ?thesis
    using assms by (subst read_loop.simps) (simp add: Let_def fits_def split: prod.split)
qed

lemma poll_loop_message:
  assumes "fits payload m"
  shows "poll_loop payload (on_wire m @ rest) = m # poll_loop payload rest"
proof -
  have ne: "on_wire m @ rest \<noteq> []"
    using length_encode [of "fst m"] by (metis append_is_Nil_conv list.size(3) on_wire_def sizeof_event_def zero_neq_numeral)
  have step: "poll_loop payload (on_wire m @ rest) = fst (read_loop payload (on_wire m @ rest)) @
      poll_loop payload (snd (read_loop payload (on_wire m @ rest)))"
    by (subst poll_loop.simps) (simp only: ne if_False)
  show ?thesis
  proof (cases "length rest > sizeof_event")
    case True
    then have "poll_loop payload rest = fst (read_loop payload rest) @ poll_loop payload (snd (read_loop payload rest))"
      by (subst poll_loop.simps) auto
    then show ?thesis unfolding step read_loop_message [OF assms] using True by simp
  next
    case False
    then show ?thesis unfolding step read_loop_message [OF assms] by simp
  qed
qed

lemma poll_loop_messages:
  "list_all (fits payload) ms \<Longrightarrow> poll_loop payload (concat (map on_wire ms)) = ms"
proof (induction ms)
  case Nil
  show ?case by (subst poll_loop.simps) simp
qed (simp add: poll_loop_message)

text \<open>The messages of the activity.\<close>

inductive activity_sends :: "bytes \<Rightarrow> lorieEvent \<times> bytes \<Rightarrow> bool" where
  "activity_sends (setClipboardSyncEnabled True b) (EVENT_CLIPBOARD_ENABLE (of_bool b), [])"
| "activity_sends (sendClipboardAnnounce True) (EVENT_CLIPBOARD_ANNOUNCE, [])"
| "length str < 2 ^ 32 \<Longrightarrow>
     activity_sends (sendClipboardEvent True (Some str)) (EVENT_CLIPBOARD_SEND (word_of_nat (length str)), str)"
| "0 < w \<Longrightarrow> 0 < h \<Longrightarrow> length name < 2 ^ 64 \<Longrightarrow>
     activity_sends (sendWindowChange True w h fr (Some name))
       (EVENT_SCREEN_SIZE (word_of_int w) (word_of_int h) (word_of_int fr) (word_of_nat (length (c_string name))) 0, c_string name)"
| "activity_sends (sendMouseEvent True x y b dn rel) (EVENT_MOUSE x y (word_of_int b) (of_bool dn) (of_bool rel), [])"
| "action \<noteq> -1 \<Longrightarrow> activity_sends (sendTouchEvent True action i tx ty)
     (EVENT_TOUCH (word_of_int action) (word_of_int i) (word_of_int tx) (word_of_int ty), [])"
| "activity_sends (sendStylusEvent True x y p tlx tly ori bt er mo)
     (EVENT_STYLUS x y (word_of_int p) (word_of_int tlx) (word_of_int tly) (word_of_int ori) (word_of_int bt) (of_bool er) (of_bool mo), [])"
| "activity_sends (requestStylusEnabled True b) (EVENT_STYLUS_ENABLE (of_bool b), [])"
| "code \<noteq> 0 \<Longrightarrow> activity_sends (the (sendKeyEvent table True code kc dn)) (EVENT_KEY (word_of_int (code + 8)) (of_bool dn), [])"

lemma unat_of_short: "n < 2 ^ 32 \<Longrightarrow> unat (word_of_nat n :: u32) = n"
  by (simp only: unsigned_of_nat) (simp add: take_bit_nat_eq_self)

lemma unat_of_long: "n < 2 ^ 64 \<Longrightarrow> unat (word_of_nat n :: u64) = n"
  by (simp only: unsigned_of_nat) (simp add: take_bit_nat_eq_self)

lemma c_string_short: "length name < 2 ^ 64 \<Longrightarrow> length (c_string name) < 2 ^ 64"
  using length_c_string [of name] by linarith

lemmas sender_defs = setClipboardSyncEnabled_def sendClipboardAnnounce_def sendClipboardEvent_def sendWindowChange_def
  sendMouseEvent_def sendTouchEvent_def sendStylusEvent_def requestStylusEnabled_def sendKeyEvent_def Let_def

lemma activity_sends_fits: "activity_sends c m \<Longrightarrow> c = on_wire m \<and> fits server_payload m"
proof (induction rule: activity_sends.induct)
  case (3 str)
  then show ?case
    using unat_of_short by (simp add: on_wire_def fits_def server_payload_def valid_event_def sender_defs)
next
  case (4 w h name fr)
  then show ?case
    using unat_of_long [OF c_string_short] by (simp add: on_wire_def fits_def server_payload_def valid_event_def sender_defs)
qed (simp_all add: on_wire_def fits_def server_payload_def valid_event_def sender_defs)

lemma all_activity_sends:
  "list_all2 activity_sends cs ms \<Longrightarrow> cs = map on_wire ms \<and> list_all (fits server_payload) ms"
  by (induction cs ms rule: list_all2_induct) (auto dest: activity_sends_fits)



text \<open>Every event survives the wire: the 24 bytes of an event decode to it whatever follows them, and
  two different events have different bytes.\<close>

theorem event_wire_roundtrip:
  assumes "valid_event e" "valid_event e'"
  shows "decode (take sizeof_event (encode e @ rest)) = Some e \<and> (encode e = encode e' \<longleftrightarrow> e = e')"
  using assms wire.dec_take_enc wire.enc_inj by blast

theorem event_wire_roundtrip_witness:
  "decode (take sizeof_event (encode (EVENT_TOUCH 18 1 300 700) @ [1, 2])) = Some (EVENT_TOUCH 18 1 300 700) \<and>
   encode (EVENT_UNICODE 0x20ac) \<noteq> encode (EVENT_UNICODE 0x20ad)"
  using event_wire_roundtrip [of "EVENT_TOUCH 18 1 300 700" "EVENT_TOUCH 18 1 300 700" "[1, 2]"]
    event_wire_roundtrip [of "EVENT_UNICODE 0x20ac" "EVENT_UNICODE 0x20ad"]
  by (simp add: valid_event_def)

section \<open>The clipboard text towards the activity\<close>

text \<open>The activity reads one byte more than the server wrote.\<close>

lemma clipboard_message_client:
  assumes "s \<noteq> []" "length s < 2 ^ 32"
  shows "read_loop (client_payload hs) (encode (EVENT_CLIPBOARD_SEND (word_of_nat (length s))) @ s @ b # more) =
     (if length more > sizeof_event
      then ((EVENT_CLIPBOARD_SEND (word_of_nat (length s)), s @ [b]) # fst (read_loop (client_payload hs) more),
            snd (read_loop (client_payload hs) more))
      else ([(EVENT_CLIPBOARD_SEND (word_of_nat (length s)), s @ [b])], more))"
proof -
  let ?m = "(EVENT_CLIPBOARD_SEND (word_of_nat (length s)), s @ [b])"
  have "word_of_nat (length s) \<noteq> (0 :: u32)"
    using assms unat_of_short [of "length s"] by auto
  then have "fits (client_payload hs) ?m"
    using unat_of_short [OF assms(2)] by (simp add: fits_def valid_event_def client_payload_def)
  from read_loop_message [OF this, of more] show ?thesis by (simp add: on_wire_def)
qed

text \<open>The activity reads one byte too many for a clipboard text: when another message follows it in the
  socket, the first byte of that message is taken with the text, and what is read next starts in
  the middle of it; here a focus change that follows a clipboard text is lost.\<close>

theorem clipboard_text_swallows_next_byte:
  "\<exists>s. let sent = lorieSendClipboardData True (Some (s @ [0])) @ DDXNotifyFocusChanged True in
     poll_loop server_payload sent = [(EVENT_CLIPBOARD_SEND 1, s), (EVENT_WINDOW_FOCUS_CHANGED, [])] \<and>
     poll_loop (client_payload hs) sent = [(EVENT_CLIPBOARD_SEND 1, s @ [15])]"
proof -
  let ?s = "[0x41 :: u8]" and ?F = "encode EVENT_WINDOW_FOCUS_CHANGED"
  let ?sent = "lorieSendClipboardData True (Some (?s @ [0])) @ DDXNotifyFocusChanged True"
  have sent: "?sent = encode (EVENT_CLIPBOARD_SEND 1) @ ?s @ ?F"
    by (simp add: lorieSendClipboardData_def DDXNotifyFocusChanged_def c_string_def)
  have F: "?F = 15 # replicate 23 0" by (simp add: encode_def padded_def sizeof_event_def)
  have ne: "?sent \<noteq> []" unfolding sent F by simp
  have short: "decode (take sizeof_event (replicate 23 0)) = None"
    by (simp add: decode_def sizeof_event_def)
  have "read_loop (client_payload hs) (replicate 23 0) = ([], [])"
    by (subst read_loop.simps) (simp only: short, simp add: sizeof_event_def)
  then have rest: "poll_loop (client_payload hs) (replicate 23 0) = []"
    by (subst poll_loop.simps) (simp add: poll_loop.simps [of _ "[]"])
  have "read_loop (client_payload hs) ?sent = ([(EVENT_CLIPBOARD_SEND 1, ?s @ [15])], replicate 23 0)"
    using clipboard_message_client [of ?s hs 15 "replicate 23 0"] unfolding sent F by (simp add: sizeof_event_def)
  then have client: "poll_loop (client_payload hs) ?sent = [(EVENT_CLIPBOARD_SEND 1, ?s @ [15])]"
    using rest ne by (subst poll_loop.simps) (simp del: append_is_Nil_conv)
  have "list_all (fits server_payload) [(EVENT_CLIPBOARD_SEND 1, ?s), (EVENT_WINDOW_FOCUS_CHANGED, [])]"
    by (simp add: fits_def server_payload_def valid_event_def)
  from poll_loop_messages [OF this] have "poll_loop server_payload ?sent =
     [(EVENT_CLIPBOARD_SEND 1, ?s), (EVENT_WINDOW_FOCUS_CHANGED, [])]"
    unfolding sent by (simp add: on_wire_def)
  with client show ?thesis by (intro exI [of _ ?s]) (simp add: Let_def)
qed

section \<open>Registered buffers\<close>

text \<open>A buffer is announced once while it is registered, and a buffer that was announced is withdrawn once.\<close>

lemma register_distinct:
  "distinct reg \<Longrightarrow> distinct (snd (lorieRegisterBuffer conn b hdl reg)) \<and> distinct (snd (lorieUnregisterBuffer conn b reg))"
  by (simp add: lorieRegisterBuffer_def lorieUnregisterBuffer_def)

lemma register_twice:
  "fst (lorieRegisterBuffer conn b hdl (snd (lorieRegisterBuffer conn b hdl reg))) = []"
  by (simp add: lorieRegisterBuffer_def)

end
