(* ===== verification/Lorie_Input.thy ===== *)
theory Lorie_Input
  imports Complex_Main Lorie_Keyboard Lorie_Wire Keysym_Ucs
begin

text \<open>
  What the server does with the events of the activity: \<^verbatim>\<open>handleLorieEvents\<close> and its work procedures of
  \<^verbatim>\<open>lorie/cmdentrypoint.c\<close>, and the input devices of \<^verbatim>\<open>lorie/InitInput.c\<close>. Coordinates are rationals: the value of a
  \<^verbatim>\<open>float\<close> given by its bits is an argument, and the arithmetic on it is taken without rounding.
\<close>

section \<open>Devices and queues\<close>

datatype device = Mouse | Touch | Keyboard | Pen | Eraser

datatype pointer_flag = POINTER_RELATIVE | POINTER_ABSOLUTE | POINTER_ACCELERATE | POINTER_SCREEN | POINTER_NORAW
  | POINTER_DESKTOP

datatype device_event =
    Motion device "pointer_flag set" "nat \<rightharpoonup> rat"
  | ButtonPress device nat
  | ButtonRelease device nat
  | TouchEvent u16 u16 rat rat

datatype work =
    ConfigureNotify u16 u16 u16 "bytes option"
  | TouchWork u16 u16 u16 u16
  | ClipboardAnnounce
  | ClipboardData bytes

text \<open>\<open>vmask\<close> is the local valuator mask of \<^verbatim>\<open>handleLorieEvents\<close>: it is cleared once per call, not once per event.\<close>

record input =
  connected :: bool
  devices :: "device set"
  buttons_prev :: u8
  touches :: "u16 \<Rightarrow> (rat \<times> rat) option"
  events :: "device_event list"
  work_queue :: "work list"
  vmask :: "nat \<rightharpoonup> rat"
  clipboard_sync :: bool
  registeredBuffers :: "u64 list"
  keyboard :: kbd

record input_env =
  float_value :: "u32 \<Rightarrow> rat"
  screen_width :: nat
  screen_height :: nat
  reverse_tab :: "codepair list"
  kbd_world :: kbd_env

definition queue_event :: "device_event \<Rightarrow> input \<Rightarrow> input" where
  "queue_event e S = S\<lparr>events := events S @ [e]\<rparr>"

definition QueueWorkProc :: "work \<Rightarrow> input \<Rightarrow> input" where
  "QueueWorkProc w S = S\<lparr>work_queue := work_queue S @ [w]\<rparr>"

text \<open>The macros \<^verbatim>\<open>max(min(v, limit), 0)\<close> and \<^verbatim>\<open>max(0, min(v, limit))\<close>.\<close>

definition clamp :: "rat \<Rightarrow> nat \<Rightarrow> rat" where
  "clamp v limit = max (min v (of_nat limit)) 0"

section \<open>Touch\<close>

definition XI_TouchBegin :: u16 where "XI_TouchBegin = 18"
definition XI_TouchUpdate :: u16 where "XI_TouchUpdate = 19"
definition XI_TouchEnd :: u16 where "XI_TouchEnd = 20"

text \<open>Queueing a touch event starts, moves or ends the touch; a touch that is active has the axis values of
  the last event.\<close>

definition QueueTouchEvents :: "u16 \<Rightarrow> u16 \<Rightarrow> rat \<Rightarrow> rat \<Rightarrow> input \<Rightarrow> input" where
  "QueueTouchEvents ty i vx vy S =
     (queue_event (TouchEvent ty i vx vy) S)
       \<lparr>touches := (touches S)(i := if ty = XI_TouchEnd then None else Some (vx, vy))\<rparr>"

definition to_axis :: "rat \<Rightarrow> nat \<Rightarrow> rat" where
  "to_axis v extent = v * 0xFFFF / of_nat extent"

definition handleTouchEvent :: "input_env \<Rightarrow> u16 \<Rightarrow> u16 \<Rightarrow> u16 \<Rightarrow> u16 \<Rightarrow> input \<Rightarrow> input" where
  "handleTouchEvent E ty i ex ey S =
     (let x = clamp (of_nat (unat ex)) (screen_width E); y = clamp (of_nat (unat ey)) (screen_height E);
          active = touches S i \<noteq> None in
      if active \<and> ty = XI_TouchUpdate \<and> touches S i = Some (x, y) then S
      else
        let ty' = (if ty = XI_TouchUpdate \<and> \<not> active then XI_TouchBegin else ty) in
        if ty' = XI_TouchEnd \<and> \<not> active then S
        else QueueTouchEvents ty' i (to_axis x (screen_width E)) (to_axis y (screen_height E)) S)"

section \<open>Stylus\<close>

definition lorieSetStylusEnabled :: "bool \<Rightarrow> input \<Rightarrow> input" where
  "lorieSetStylusEnabled enabled S =
     S\<lparr>devices := (if enabled then devices S \<union> {Pen, Eraser} else devices S - {Pen, Eraser})\<rparr>"

fun button_loop :: "device \<Rightarrow> nat \<Rightarrow> nat \<Rightarrow> u32 \<Rightarrow> u32 \<Rightarrow> device_event list" where
  "button_loop d i 0 released pressed = []"
| "button_loop d i (Suc n) released pressed =
     (if released AND 1 \<noteq> 0 then [ButtonRelease d (i + 1)] else []) @
     (if pressed AND 1 \<noteq> 0 then [ButtonPress d (i + 1)] else []) @
     button_loop d (i + 1) n (drop_bit 1 released) (drop_bit 1 pressed)"

definition stylus_device :: "u8 \<Rightarrow> u8 \<Rightarrow> device" where
  "stylus_device mouse eraser = (if mouse \<noteq> 0 then Mouse else if eraser \<noteq> 0 then Eraser else Pen)"

definition signed8 :: "u8 \<Rightarrow> rat" where "signed8 b = of_int (sint b)"
definition signed16 :: "u16 \<Rightarrow> rat" where "signed16 h = of_int (sint h)"

definition handle_stylus ::
  "input_env \<Rightarrow> u32 \<Rightarrow> u32 \<Rightarrow> u16 \<Rightarrow> u8 \<Rightarrow> u8 \<Rightarrow> u16 \<Rightarrow> u8 \<Rightarrow> u8 \<Rightarrow> u8 \<Rightarrow> input \<Rightarrow> input" where
  "handle_stylus E x y pressure tilt_x tilt_y orientation buttons eraser mouse S =
     (let d = stylus_device mouse eraser in
      if d \<notin> devices S then S
      else
        let xy = (vmask S)(0 \<mapsto> clamp (float_value E x) (screen_width E), 1 \<mapsto> clamp (float_value E y) (screen_height E));
            mk = (if d \<noteq> Mouse
                  then xy(2 \<mapsto> of_nat (unat pressure), 3 \<mapsto> signed8 tilt_x, 4 \<mapsto> signed8 tilt_y, 5 \<mapsto> signed16 orientation)
                  else xy);
            S1 = queue_event (Motion d ({POINTER_ABSOLUTE, POINTER_DESKTOP} \<union> (if d = Mouse then {POINTER_NORAW} else {})) mk) (S\<lparr>vmask := mk\<rparr>);
            b = (ucast buttons :: u32);
            diff = ucast (buttons_prev S) XOR b;
            released = diff AND NOT b;
            pressed = diff AND b
        in S1\<lparr>events := events S1 @ button_loop d 0 3 released pressed, buttons_prev := buttons\<rparr>)"

section \<open>Mouse\<close>

definition move_mouse :: "pointer_flag set \<Rightarrow> (nat \<rightharpoonup> rat) \<Rightarrow> input \<Rightarrow> input" where
  "move_mouse flags mk S = queue_event (Motion Mouse flags mk) (S\<lparr>vmask := mk\<rparr>)"

definition handle_mouse :: "input_env \<Rightarrow> u32 \<Rightarrow> u32 \<Rightarrow> u8 \<Rightarrow> u8 \<Rightarrow> u8 \<Rightarrow> input \<Rightarrow> input" where
  "handle_mouse E x y detail down relative S =
     (let vx = float_value E x; vy = float_value E y in
      if detail = 0 then
        if relative \<noteq> 0 then move_mouse {POINTER_RELATIVE, POINTER_ACCELERATE} ((vmask S)(0 \<mapsto> vx, 1 \<mapsto> vy)) S
        else move_mouse {POINTER_ABSOLUTE, POINTER_SCREEN, POINTER_NORAW}
               ((vmask S)(0 \<mapsto> clamp vx (screen_width E), 1 \<mapsto> clamp vy (screen_height E))) S
      else if detail = 1 \<or> detail = 2 \<or> detail = 3 then
        queue_event (if down \<noteq> 0 then ButtonPress Mouse (unat detail) else ButtonRelease Mouse (unat detail)) S
      else if detail = 4 then
        let S1 = (if vx \<noteq> 0 then move_mouse {POINTER_RELATIVE} [2 \<mapsto> vx / 120] S else S)
        in if vy \<noteq> 0 then move_mouse {POINTER_RELATIVE} [3 \<mapsto> vy / 120] S1 else S1
      else S)"

section \<open>Dispatch\<close>

definition keysym_of_code :: "input_env \<Rightarrow> u32 \<Rightarrow> keysym" where
  "keysym_of_code E code = word_of_int (ucs2keysym (reverse_tab E) (uint code))"

definition type_unicode :: "input_env \<Rightarrow> u32 \<Rightarrow> kbd \<Rightarrow> kbd" where
  "type_unicode E code K =
     (let ks = keysym_of_code E code
      in lorieKeysymKeyboardEvent (kbd_world E) ks False (lorieKeysymKeyboardEvent (kbd_world E) ks True K))"

text \<open>One event with the bytes read after it. Bytes that had not arrived are zero, as the buffers are
  zeroed before they are read into.\<close>

definition zero_filled :: "nat \<Rightarrow> bytes \<Rightarrow> bytes" where
  "zero_filled n bs = bs @ replicate (n - length bs) 0"

definition dispatch :: "input_env \<Rightarrow> lorieEvent \<times> bytes \<Rightarrow> input \<Rightarrow> input" where
  "dispatch E m S = (case fst m of
       EVENT_SCREEN_SIZE w h f ns nm \<Rightarrow>
         QueueWorkProc (ConfigureNotify w h f (if ns \<noteq> 0 then Some (zero_filled (unat ns) (snd m)) else None)) S
     | EVENT_TOUCH ty i x y \<Rightarrow> QueueWorkProc (TouchWork ty i x y) S
     | EVENT_STYLUS x y p tx ty ori b er mo \<Rightarrow> handle_stylus E x y p tx ty ori b er mo S
     | EVENT_STYLUS_ENABLE en \<Rightarrow> lorieSetStylusEnabled (en \<noteq> 0) S
     | EVENT_MOUSE x y d dn r \<Rightarrow> handle_mouse E x y d dn r S
     | EVENT_KEY k st \<Rightarrow>
         S\<lparr>keyboard := QueueKeyboardEvents [if st \<noteq> 0 then KeyPress (unat k) else KeyRelease (unat k)] (keyboard S)\<rparr>
     | EVENT_UNICODE c \<Rightarrow> S\<lparr>keyboard := type_unicode E c (keyboard S)\<rparr>
     | EVENT_CLIPBOARD_ENABLE en \<Rightarrow> S\<lparr>clipboard_sync := (en \<noteq> 0)\<rparr>
     | EVENT_CLIPBOARD_ANNOUNCE \<Rightarrow> QueueWorkProc ClipboardAnnounce S
     | EVENT_CLIPBOARD_SEND c \<Rightarrow> QueueWorkProc (ClipboardData (zero_filled (unat c) (snd m))) S
     | _ \<Rightarrow> S)"

text \<open>The callback: on an error of the socket the connection is dropped, else the events that have arrived
  are handled.\<close>

definition handleLorieEvents :: "input_env \<Rightarrow> bool \<Rightarrow> bytes \<Rightarrow> input \<Rightarrow> input \<times> bytes" where
  "handleLorieEvents E err bs S =
     (if err then (S\<lparr>connected := False, clipboard_sync := False, registeredBuffers := []\<rparr>, [])
      else case handleLorieEvents_loop bs of (ms, rest) \<Rightarrow> (fold (dispatch E) ms (S\<lparr>vmask := Map.empty\<rparr>), rest))"

text \<open>The work procedures run on the server thread; those of the clipboard and of the screen belong to
  other components and are only taken from the queue here.\<close>

definition run_work :: "input_env \<Rightarrow> input \<Rightarrow> input" where
  "run_work E S = (case work_queue S of
       [] \<Rightarrow> S
     | TouchWork ty i x y # ws \<Rightarrow> handleTouchEvent E ty i x y (S\<lparr>work_queue := ws\<rparr>)
     | w # ws \<Rightarrow> S\<lparr>work_queue := ws\<rparr>)"

text \<open>The devices after a start or a reset of the server.\<close>

definition InitInput :: "input \<Rightarrow> input" where
  "InitInput S = S\<lparr>devices := {Mouse, Touch, Keyboard} \<union> (if Pen \<in> devices S \<and> Eraser \<in> devices S then {Pen, Eraser} else {})\<rparr>"

section \<open>Buttons of the stylus\<close>

text \<open>The buttons a receiver of the events believes to be held; \<open>None\<close> when a button is pressed twice or released
  without having been pressed.\<close>

fun replay_buttons :: "nat set \<Rightarrow> device_event list \<Rightarrow> nat set option" where
  "replay_buttons held [] = Some held"
| "replay_buttons held (ButtonPress d n # es) = (if n \<in> held then None else replay_buttons (insert n held) es)"
| "replay_buttons held (ButtonRelease d n # es) = (if n \<in> held then replay_buttons (held - {n}) es else None)"
| "replay_buttons held (e # es) = replay_buttons held es"

definition held_buttons :: "u8 \<Rightarrow> nat set" where
  "held_buttons b = (if bit b 0 then {1} else {}) \<union> (if bit b 1 then {2} else {}) \<union> (if bit b 2 then {3} else {})"

lemma replay_append: "replay_buttons h (xs @ ys) = Option.bind (replay_buttons h xs) (\<lambda>h'. replay_buttons h' ys)"
  by (induction h xs rule: replay_buttons.induct) simp_all

lemma and_one_bit: "x AND 1 \<noteq> 0 \<longleftrightarrow> bit x 0" for x :: u32
  by (simp add: and_one_eq bit_0 odd_iff_mod_2_eq_one)

lemma bit_ucast_byte: "bit (ucast (b :: u8) :: u32) n \<longleftrightarrow> bit b n"
  by (auto simp: bit_simps dest: bit_imp_le_length)

lemma button_loop_replay:
  "replay_buttons (held_buttons p) (button_loop d 0 3 ((ucast p XOR ucast b) AND NOT (ucast b)) ((ucast p XOR ucast b) AND ucast b))
     = Some (held_buttons b)"
proof -
  have "button_loop d 0 3 r q =
     (if bit r 0 then [ButtonRelease d 1] else []) @ (if bit q 0 then [ButtonPress d 1] else []) @
     (if bit r 1 then [ButtonRelease d 2] else []) @ (if bit q 1 then [ButtonPress d 2] else []) @
     (if bit r 2 then [ButtonRelease d 3] else []) @ (if bit q 2 then [ButtonPress d 3] else [])" for r q
    by (simp add: numeral_3_eq_3 and_one_bit bit_drop_bit_eq numeral_2_eq_2 del: One_nat_def)
  then show ?thesis
    by (simp add: held_buttons_def bit_and_iff bit_not_iff bit_xor_iff bit_ucast_byte) auto
qed

text \<open>The events one dispatch adds, and how they move the buttons.\<close>

definition stylus_message :: "lorieEvent \<times> bytes \<Rightarrow> bool" where
  "stylus_message m = (case fst m of EVENT_STYLUS _ _ _ _ _ _ _ _ _ \<Rightarrow> True | EVENT_STYLUS_ENABLE _ \<Rightarrow> True | _ \<Rightarrow> False)"

lemma stylus_dispatch:
  assumes "stylus_message m"
  obtains es where "events (dispatch E m S) = events S @ es"
    "replay_buttons (held_buttons (buttons_prev S)) es = Some (held_buttons (buttons_prev (dispatch E m S)))"
proof (cases "fst m")
  case (EVENT_STYLUS x y p tx ty ori b er mo)
  let ?d = "stylus_device mo er"
  show thesis
  proof (cases "?d \<in> devices S")
    case False
    then show thesis using that [of "[]"] EVENT_STYLUS by (simp add: dispatch_def handle_stylus_def Let_def)
  next
    case True
    let ?b = "ucast b :: u32" and ?p = "ucast (buttons_prev S) :: u32"
    have "\<exists>mv. events (dispatch E m S) = events S @ [mv] @ button_loop ?d 0 3 ((?p XOR ?b) AND NOT ?b) ((?p XOR ?b) AND ?b) \<and>
        (\<exists>fl ax. mv = Motion ?d fl ax) \<and> buttons_prev (dispatch E m S) = b"
      using EVENT_STYLUS True by (simp add: dispatch_def handle_stylus_def queue_event_def Let_def)
    then obtain mv where mv: "events (dispatch E m S) = events S @ mv # button_loop ?d 0 3 ((?p XOR ?b) AND NOT ?b) ((?p XOR ?b) AND ?b)"
      "\<exists>fl ax. mv = Motion ?d fl ax" "buttons_prev (dispatch E m S) = b" by auto
    from mv(2) button_loop_replay [of "buttons_prev S" ?d b] mv(3) show thesis
      by (intro that [OF mv(1)]) auto
  qed
next
  case (EVENT_STYLUS_ENABLE en)
  then show thesis using that [of "[]"] by (simp add: dispatch_def lorieSetStylusEnabled_def)
qed (use assms in \<open>simp_all add: stylus_message_def\<close>)

text \<open>However stylus events are mixed with switching the stylus on and off, the button events the server
  queues press only buttons that are up and release only buttons that are down, and a receiver of
  them holds exactly the three buttons of the last event.\<close>

theorem stylus_buttons_in_step:
  assumes "list_all stylus_message ms"
  shows "\<exists>es. events (fold (dispatch E) ms S) = events S @ es \<and>
     replay_buttons (held_buttons (buttons_prev S)) es = Some (held_buttons (buttons_prev (fold (dispatch E) ms S)))"
  using assms
proof (induction ms arbitrary: S)
  case (Cons m ms)
  from Cons.prems obtain es where es: "events (dispatch E m S) = events S @ es"
    "replay_buttons (held_buttons (buttons_prev S)) es = Some (held_buttons (buttons_prev (dispatch E m S)))"
    using stylus_dispatch [of m E S] by auto
  obtain fs where fs: "events (fold (dispatch E) ms (dispatch E m S)) = events (dispatch E m S) @ fs"
    "replay_buttons (held_buttons (buttons_prev (dispatch E m S))) fs =
       Some (held_buttons (buttons_prev (fold (dispatch E) ms (dispatch E m S))))"
    using Cons.IH [of "dispatch E m S"] Cons.prems by auto
  show ?case
    using es fs by (intro exI [of _ "es @ fs"]) (simp add: replay_append)
qed simp

definition sample_env :: input_env where
  "sample_env = \<lparr>float_value = (\<lambda>w. of_nat (unat w)), screen_width = 100, screen_height = 50, reverse_tab = [],
     kbd_world = idle_env 0\<rparr>"

definition sample_input :: input where
  "sample_input = \<lparr>connected = True, devices = {Mouse, Touch, Keyboard, Pen, Eraser}, buttons_prev = 0, touches = (\<lambda>i. None),
     events = [], work_queue = [], vmask = Map.empty, clipboard_sync = True, registeredBuffers = [], keyboard = fresh_kbd sample_keymap\<rparr>"

theorem stylus_buttons_in_step_witness:
  "\<exists>es. events (fold (dispatch sample_env) [(EVENT_STYLUS 1 1 0 0 0 0 5 0 0, []), (EVENT_STYLUS 1 1 0 0 0 0 4 0 0, [])] sample_input) = es \<and>
     replay_buttons {} es = Some {3}"
proof -
  let ?ms = "[(EVENT_STYLUS 1 1 0 0 0 0 5 0 0, []), (EVENT_STYLUS 1 1 0 0 0 0 4 0 0, [])]"
  have l: "list_all stylus_message ?ms" by (simp add: stylus_message_def)
  have "buttons_prev (fold (dispatch sample_env) ?ms sample_input) = 4"
    by (simp add: dispatch_def handle_stylus_def stylus_device_def sample_input_def queue_event_def Let_def)
  moreover have "held_buttons 4 = {3}" "held_buttons (buttons_prev sample_input) = {}" "events sample_input = []"
    by (simp_all add: held_buttons_def sample_input_def bit_simps)
  ultimately show ?thesis
    using stylus_buttons_in_step [OF l, of sample_env sample_input] by auto
qed

section \<open>The touch protocol\<close>

text \<open>What a client of the touch device relies on: an update or an end belongs to a touch that has begun,
  and axis values stay in the range of the axes.\<close>

fun touch_protocol :: "u16 set \<Rightarrow> device_event list \<Rightarrow> bool" where
  "touch_protocol act [] = True"
| "touch_protocol act (TouchEvent ty i x y # es) =
     (0 \<le> x \<and> x \<le> 0xFFFF \<and> 0 \<le> y \<and> y \<le> 0xFFFF \<and>
      (if ty = XI_TouchBegin then touch_protocol (insert i act) es
       else if ty = XI_TouchUpdate then i \<in> act \<and> touch_protocol act es
       else ty = XI_TouchEnd \<and> i \<in> act \<and> touch_protocol (act - {i}) es))"
| "touch_protocol act (e # es) = touch_protocol act es"

lemma axis_range: "0 < w \<Longrightarrow> 0 \<le> to_axis (clamp v w) w \<and> to_axis (clamp v w) w \<le> 0xFFFF"
proof -
  assume w: "0 < w"
  have c: "0 \<le> clamp v w" "clamp v w \<le> of_nat w" by (simp_all add: clamp_def)
  then have "clamp v w * 0xFFFF \<le> of_nat w * 0xFFFF" by simp
  with c w show ?thesis by (simp add: to_axis_def pos_divide_le_eq mult.commute)
qed

definition touch_types :: "u16 set" where
  "touch_types = {XI_TouchBegin, XI_TouchUpdate, XI_TouchEnd}"

lemmas touch_type_defs = XI_TouchBegin_def XI_TouchUpdate_def XI_TouchEnd_def

lemma handleTouchEvent_cases:
  assumes "ty \<in> touch_types" "0 < screen_width E" "0 < screen_height E"
  obtains (dropped) "handleTouchEvent E ty i x y S = S"
  | (queued) ty' vx vy where "handleTouchEvent E ty i x y S = QueueTouchEvents ty' i vx vy S"
      "ty' \<in> touch_types" "ty' = XI_TouchBegin \<or> i \<in> dom (touches S)"
      "0 \<le> vx" "vx \<le> 0xFFFF" "0 \<le> vy" "vy \<le> 0xFFFF"
proof -
  let ?x = "clamp (of_nat (unat x)) (screen_width E)" and ?y = "clamp (of_nat (unat y)) (screen_height E)"
  let ?ty = "if ty = XI_TouchUpdate \<and> touches S i = None then XI_TouchBegin else ty"
  show thesis
  proof (cases "handleTouchEvent E ty i x y S = S")
    case False
    then have q: "handleTouchEvent E ty i x y S = QueueTouchEvents ?ty i (to_axis ?x (screen_width E)) (to_axis ?y (screen_height E)) S"
      and e: "?ty = XI_TouchEnd \<longrightarrow> touches S i \<noteq> None"
      unfolding handleTouchEvent_def Let_def by (auto split: if_splits)
    have "?ty \<in> touch_types" using assms(1) by (simp add: touch_types_def)
    moreover from this e have "?ty = XI_TouchBegin \<or> i \<in> dom (touches S)"
      by (cases "touches S i") (auto simp: touch_types_def split: if_splits)
    ultimately show thesis
      using queued [OF q] axis_range [OF assms(2)] axis_range [OF assms(3)] by blast
  qed (use dropped in simp)
qed

lemma touch_run_step:
  assumes "ty \<in> touch_types" "0 < screen_width E" "0 < screen_height E"
  obtains es where "events (handleTouchEvent E ty i x y S) = events S @ es"
    "\<And>fs. touch_protocol (dom (touches (handleTouchEvent E ty i x y S))) fs \<Longrightarrow>
       touch_protocol (dom (touches S)) (es @ fs)"
  using assms
proof (cases rule: handleTouchEvent_cases [where i = i and x = x and y = y and S = S])
  case dropped
  then show thesis by (intro that [of "[]"]) simp_all
next
  case (queued ty' vx vy)
  let ?S = "QueueTouchEvents ty' i vx vy S"
  have ev: "events ?S = events S @ [TouchEvent ty' i vx vy]"
    and d: "dom (touches ?S) = (if ty' = XI_TouchEnd then dom (touches S) - {i} else insert i (dom (touches S)))"
    by (auto simp: QueueTouchEvents_def queue_event_def)
  have ok: "touch_protocol (dom (touches S)) (TouchEvent ty' i vx vy # fs)" if "touch_protocol (dom (touches ?S)) fs" for fs
  proof -
    consider "ty' = XI_TouchBegin" | "ty' = XI_TouchUpdate" | "ty' = XI_TouchEnd"
      using queued(2) by (auto simp: touch_types_def)
    then show ?thesis
    proof cases
      case 2
      then have i: "i \<in> dom (touches S)" using queued(3) by (simp add: touch_type_defs)
      then have "insert i (dom (touches S)) = dom (touches S)" by (rule insert_absorb)
      then show ?thesis using that 2 i queued(4-) unfolding d by (simp add: touch_type_defs)
    qed (use that [unfolded d] queued(3-) in \<open>auto simp: touch_type_defs\<close>)
  qed
  show thesis
    by (rule that [of "[TouchEvent ty' i vx vy]"]) (simp_all only: queued(1) ev append_Cons append_Nil ok)
qed

text \<open>C33. Whatever begin, update and end messages the activity sends, in any order and for any touch, the touch
  events the server queues follow the protocol: an update or an end is queued only for a touch that
  has begun, an update of a touch that has not begun becomes its begin, and the axis values stay
  between 0 and 0xFFFF.\<close>

theorem touch_events_follow_protocol:
  assumes "0 < screen_width E" "0 < screen_height E"
    and "list_all (\<lambda>(ty, i, x, y). ty \<in> touch_types) ts"
  shows "\<exists>es. events (fold (\<lambda>(ty, i, x, y). handleTouchEvent E ty i x y) ts S) = events S @ es \<and>
     touch_protocol (dom (touches S)) es"
  using assms(3)
proof (induction ts arbitrary: S)
  case (Cons t ts)
  obtain ty i x y where t: "t = (ty, i, x, y)" by (cases t)
  then have "ty \<in> touch_types" using Cons.prems by simp
  from touch_run_step [OF this assms(1,2), of i x y S]
  obtain es where es: "events (handleTouchEvent E ty i x y S) = events S @ es"
    "\<And>fs. touch_protocol (dom (touches (handleTouchEvent E ty i x y S))) fs \<Longrightarrow>
       touch_protocol (dom (touches S)) (es @ fs)" by metis
  obtain fs where fs: "events (fold (\<lambda>(ty, i, x, y). handleTouchEvent E ty i x y) ts (handleTouchEvent E ty i x y S)) =
      events (handleTouchEvent E ty i x y S) @ fs"
    "touch_protocol (dom (touches (handleTouchEvent E ty i x y S))) fs"
    using Cons.IH [of "handleTouchEvent E ty i x y S"] Cons.prems by auto
  show ?case using es fs t by (intro exI [of _ "es @ fs"]) simp
qed simp

theorem touch_events_follow_protocol_witness:
  "\<exists>es. events (fold (\<lambda>(ty, i, x, y). handleTouchEvent sample_env ty i x y) [(19, 1, 10, 10), (20, 1, 10, 10), (20, 1, 10, 10)] sample_input) = es \<and>
     touch_protocol {} es"
proof -
  have "0 < screen_width sample_env" "0 < screen_height sample_env" by (simp_all add: sample_env_def)
  moreover have "list_all (\<lambda>(ty, i, x, y). ty \<in> touch_types) [(19, 1, 10, 10), (20, 1, 10, 10), (20, 1, 10, 10)]"
    by (simp add: touch_types_def touch_type_defs)
  moreover have "events sample_input = []" "dom (touches sample_input) = {}" by (simp_all add: sample_input_def)
  ultimately show ?thesis
    using touch_events_follow_protocol [of sample_env "[(19, 1, 10, 10), (20, 1, 10, 10), (20, 1, 10, 10)]" sample_input] by auto
qed

text \<open>The test that should drop a repeated update compares the new position in pixels with the old axis
  values, which are scaled, so a repeated update of a touch is queued again.\<close>

theorem repeated_touch_update_sent_again:
  "\<exists>E S. 0 < screen_width E \<and> 0 < screen_height E \<and>
     events (handleTouchEvent E XI_TouchUpdate 1 10 10 (handleTouchEvent E XI_TouchUpdate 1 10 10 (handleTouchEvent E XI_TouchBegin 1 5 5 S))) =
       events (handleTouchEvent E XI_TouchBegin 1 5 5 S) @
         [TouchEvent XI_TouchUpdate 1 (10 * 0xFFFF / 100) (10 * 0xFFFF / 50), TouchEvent XI_TouchUpdate 1 (10 * 0xFFFF / 100) (10 * 0xFFFF / 50)]"
  by (intro exI [of _ sample_env] exI [of _ sample_input])
     (simp add: handleTouchEvent_def QueueTouchEvents_def queue_event_def touch_type_defs clamp_def to_axis_def sample_env_def Let_def)

text \<open>The mask of axis values is not cleared between the events of one read: when a scroll and a motion of the
  mouse arrive together, the motion carries the scroll distance of the event before it and scrolls
  again.\<close>

theorem motion_repeats_scroll:
  assumes "float_value E sy \<noteq> 0"
  shows "\<exists>mk. last (events (fold (dispatch E) [(EVENT_MOUSE sx sy 4 0 1, []), (EVENT_MOUSE x y 0 0 1, [])] S))
      = Motion Mouse {POINTER_RELATIVE, POINTER_ACCELERATE} mk \<and> mk 3 = Some (float_value E sy / 120)"
  using assms by (simp add: dispatch_def handle_mouse_def move_mouse_def queue_event_def Let_def)

theorem motion_repeats_scroll_witness:
  "\<exists>mk. last (events (fold (dispatch sample_env) [(EVENT_MOUSE 0 120 4 0 1, []), (EVENT_MOUSE 7 0 0 0 1, [])] sample_input))
      = Motion Mouse {POINTER_RELATIVE, POINTER_ACCELERATE} mk \<and> mk 3 = Some (float_value sample_env 120 / 120)"
  by (rule motion_repeats_scroll) (simp add: sample_env_def)

end
