(* ===== verification/Lorie_Device.thy ===== *)
theory Lorie_Device
  imports Dix_Hierarchy Lorie_Input
begin

text \<open>
  The devices of \<^verbatim>\<open>lorie/InitInput.c\<close>: the functions by which the X server switches them, the axes and buttons they
  declare, and the stylus devices that come and go when the activity asks for them. \<open>h\<close> says which allocations
  succeed, \<open>kb\<close> whether \<^verbatim>\<open>InitKeyboardDeviceStruct\<close> installs the key class (its answer is not looked at).
\<close>

section \<open>Device procedures\<close>

abbreviation axis :: "nat \<Rightarrow> string \<Rightarrow> int \<Rightarrow> int \<Rightarrow> int \<Rightarrow> int \<Rightarrow> int \<Rightarrow> valuator_mode \<Rightarrow> init" where
  "axis n lab \<equiv> InitValuatorAxisStruct n (Some lab)"

definition lorieInitPointerButtons :: "heap \<Rightarrow> init" where
  "lorieInitPointerButtons h = InitButtonClassDeviceStruct h 10
     ([Some ''Button Left'', Some ''Button Middle'', Some ''Button Right'', Some ''Button Wheel Up'', Some ''Button Wheel Down'',
       Some ''Button Horiz Wheel Left'', Some ''Button Horiz Wheel Right''] @ [None, None, None]) (0 # [1..<11])"

definition mouse_init :: "heap \<Rightarrow> init" where
  "mouse_init h = all_ok
     [lorieInitPointerButtons h,
      InitValuatorClassDeviceStruct h [Some ''Rel X'', Some ''Rel Y'', Some ''Rel Horiz Wheel'', Some ''Rel Vert Wheel''] MOTION_HISTORY_SIZE Relative,
      axis 0 ''Rel X'' NO_AXIS_LIMITS NO_AXIS_LIMITS 0 0 0 Relative,
      axis 1 ''Rel Y'' NO_AXIS_LIMITS NO_AXIS_LIMITS 0 0 0 Relative,
      axis 2 ''Rel Horiz Wheel'' NO_AXIS_LIMITS NO_AXIS_LIMITS 0 0 0 Relative,
      axis 3 ''Rel Vert Wheel'' NO_AXIS_LIMITS NO_AXIS_LIMITS 0 0 0 Relative,
      SetScrollValuator 2 SCROLL_TYPE_HORIZONTAL 1 SCROLL_FLAG_NONE,
      SetScrollValuator 3 SCROLL_TYPE_VERTICAL 1 SCROLL_FLAG_PREFERRED,
      InitPtrFeedbackClassDeviceStruct h,
      (\<lambda>d. Some (InitPointerAccelerationScheme h PtrAccelPredictable d))]"

text \<open>The map of the touch device has its only entry at index 0.\<close>

definition touch_init :: "heap \<Rightarrow> init" where
  "touch_init h = all_ok
     [InitValuatorClassDeviceStruct h [Some ''Abs MT Position X'', Some ''Abs MT Position Y''] MOTION_HISTORY_SIZE Absolute,
      InitButtonClassDeviceStruct h 1 [Some ''Button Left''] [1, 0],
      InitTouchClassDeviceStruct h 20 True 2,
      axis 0 ''Abs MT Position X'' 0 0xFFFF 10000 0 10000 Absolute,
      axis 1 ''Abs MT Position Y'' 0 0xFFFF 10000 0 10000 Absolute]"

definition stylus_init :: "heap \<Rightarrow> init" where
  "stylus_init h = all_ok
     [InitValuatorClassDeviceStruct h [Some ''Abs X'', Some ''Abs Y'', Some ''Abs Pressure'', Some ''Abs Tilt X'', Some ''Abs Tilt Y'', Some ''Abs Wheel'']
        MOTION_HISTORY_SIZE Absolute,
      axis 0 ''Abs X'' 0 0x3FFFF 10000 0 10000 Absolute,
      axis 1 ''Abs Y'' 0 0x3FFFF 10000 0 10000 Absolute,
      axis 2 ''Abs Pressure'' 0 0xFFFF 1 0 1 Absolute,
      axis 3 ''Abs Tilt X'' (-64) 63 57 0 57 Absolute,
      axis 4 ''Abs Tilt Y'' (-64) 63 57 0 57 Absolute,
      axis 5 ''Abs Wheel'' (-900) 899 1 0 1 Absolute,
      InitPtrFeedbackClassDeviceStruct h,
      InitButtonClassDeviceStruct h 3 [None, None, None] [0, 1, 2, 3]]"

definition answer :: "(bool \<times> dev) option \<Rightarrow> (dev_status \<times> dev) option" where
  "answer r = map_option (\<lambda>(ok, d). (if ok then DevSuccess else DevBadValue, d)) r"

fun lorieKeybdProc :: "bool \<Rightarrow> what \<Rightarrow> dev \<Rightarrow> (dev_status \<times> dev) option" where
  "lorieKeybdProc kb DEVICE_INIT d = Some (DevSuccess, d\<lparr>has_key := has_key d \<or> kb\<rparr>)"
| "lorieKeybdProc kb DEVICE_ON d = Some (DevSuccess, d\<lparr>dev_on := True\<rparr>)"
| "lorieKeybdProc kb DEVICE_OFF d = Some (DevSuccess, d\<lparr>dev_on := False\<rparr>)"
| "lorieKeybdProc kb DEVICE_CLOSE d = Some (DevSuccess, d)"
| "lorieKeybdProc kb _ d = Some (DevBadMatch, d)"

fun lorieMouseProc :: "heap \<Rightarrow> what \<Rightarrow> dev \<Rightarrow> (dev_status \<times> dev) option" where
  "lorieMouseProc h DEVICE_INIT d = answer (mouse_init h (d\<lparr>dev_on := False\<rparr>))"
| "lorieMouseProc h DEVICE_ON d = Some (DevSuccess, d\<lparr>dev_on := True\<rparr>)"
| "lorieMouseProc h DEVICE_OFF d = Some (DevSuccess, d\<lparr>dev_on := False\<rparr>)"
| "lorieMouseProc h DEVICE_CLOSE d = Some (DevSuccess, d\<lparr>dev_on := False\<rparr>)"
| "lorieMouseProc h _ d = Some (DevBadMatch, d)"

fun lorieTouchProc :: "heap \<Rightarrow> what \<Rightarrow> dev \<Rightarrow> (dev_status \<times> dev) option" where
  "lorieTouchProc h DEVICE_INIT d = answer (touch_init h (d\<lparr>dev_on := False\<rparr>))"
| "lorieTouchProc h DEVICE_ON d = Some (DevSuccess, d\<lparr>dev_on := True\<rparr>)"
| "lorieTouchProc h DEVICE_OFF d = Some (DevSuccess, d\<lparr>dev_on := False\<rparr>)"
| "lorieTouchProc h DEVICE_CLOSE d = Some (DevSuccess, d\<lparr>dev_on := False\<rparr>)"
| "lorieTouchProc h _ d = Some (DevBadMatch, d)"

fun lorieStylusProc :: "heap \<Rightarrow> what \<Rightarrow> dev \<Rightarrow> (dev_status \<times> dev) option" where
  "lorieStylusProc h DEVICE_INIT d = answer (stylus_init h (d\<lparr>dev_on := False\<rparr>))"
| "lorieStylusProc h DEVICE_ON d = Some (DevSuccess, d\<lparr>dev_on := True\<rparr>)"
| "lorieStylusProc h DEVICE_OFF d = Some (DevSuccess, d\<lparr>dev_on := False\<rparr>)"
| "lorieStylusProc h DEVICE_CLOSE d = Some (DevSuccess, d\<lparr>dev_on := False\<rparr>)"
| "lorieStylusProc h _ d = Some (DevBadMatch, d)"

text \<open>The call through \<^verbatim>\<open>deviceProc\<close>; the procedures of other devices are the argument \<open>other\<close>.\<close>

definition call_proc :: "heap \<Rightarrow> bool \<Rightarrow> driver \<Rightarrow> driver" where
  "call_proc h kb other w d = (case deviceProc d of
       MouseProc \<Rightarrow> lorieMouseProc h w d
     | TouchProc \<Rightarrow> lorieTouchProc h w d
     | KeybdProc \<Rightarrow> lorieKeybdProc kb w d
     | StylusProc \<Rightarrow> lorieStylusProc h w d
     | OtherProc \<Rightarrow> other w d)"

definition own_procs :: "device_proc set" where
  "own_procs = {MouseProc, TouchProc, KeybdProc, StylusProc}"

section \<open>Starting devices\<close>

record lorie_devs =
  info :: inputInfo
  lorieMouse :: "nat option"
  lorieTouch :: "nat option"
  lorieKeyboard :: "nat option"
  loriePen :: "nat option"
  lorieEraser :: "nat option"

record start_env =
  allowed :: add_env
  memory :: heap
  kb_class :: bool
  others :: driver

definition driver_of :: "start_env \<Rightarrow> driver" where
  "driver_of E = call_proc (memory E) (kb_class E) (others E)"

text \<open>Add, activate, enable and attach one stylus device; naming a device that could not be added writes through a
  null pointer.\<close>

definition start_stylus :: "start_env \<Rightarrow> inputInfo \<Rightarrow> (nat \<times> inputInfo) option" where
  "start_stylus E S = (case AddInputDevice (allowed E) StylusProc S of
       (None, _) \<Rightarrow> None
     | (Some i, S1) \<Rightarrow> (case ActivateDevice (driver_of E) True i S1 of
         None \<Rightarrow> None
       | Some (_, S2) \<Rightarrow> (case EnableDevice (driver_of E) i S2 of
           None \<Rightarrow> None
         | Some (_, S3) \<Rightarrow> Some (i, snd (AttachDevice i (Some (vc_pointer S3)) S3)))))"

definition remove_stylus :: "start_env \<Rightarrow> nat \<Rightarrow> inputInfo \<Rightarrow> inputInfo option" where
  "remove_stylus E i S = map_option snd (RemoveDevice (driver_of E) i S)"

definition set_pen :: "start_env \<Rightarrow> bool \<Rightarrow> lorie_devs \<Rightarrow> lorie_devs option" where
  "set_pen E on D = (case (on, loriePen D) of
       (True, None) \<Rightarrow> map_option (\<lambda>(i, S). D\<lparr>info := S, loriePen := Some i\<rparr>) (start_stylus E (info D))
     | (False, Some i) \<Rightarrow> map_option (\<lambda>S. D\<lparr>info := S, loriePen := None\<rparr>) (remove_stylus E i (info D))
     | _ \<Rightarrow> Some D)"

definition set_eraser :: "start_env \<Rightarrow> bool \<Rightarrow> lorie_devs \<Rightarrow> lorie_devs option" where
  "set_eraser E on D = (case (on, lorieEraser D) of
       (True, None) \<Rightarrow> map_option (\<lambda>(i, S). D\<lparr>info := S, lorieEraser := Some i\<rparr>) (start_stylus E (info D))
     | (False, Some i) \<Rightarrow> map_option (\<lambda>S. D\<lparr>info := S, lorieEraser := None\<rparr>) (remove_stylus E i (info D))
     | _ \<Rightarrow> Some D)"

definition setStylusEnabled :: "start_env \<Rightarrow> start_env \<Rightarrow> bool \<Rightarrow> lorie_devs \<Rightarrow> lorie_devs option" where
  "setStylusEnabled E E' on D = Option.bind (set_pen E on D) (set_eraser E' on)"

section \<open>Drivers and the hierarchy\<close>

text \<open>An initialisation keeps the administration of the device.\<close>

definition keeps :: "init \<Rightarrow> bool" where
  "keeps f = (\<forall>d ok d'. f d = Some (ok, d') \<longrightarrow> admin d' = admin d)"

named_theorems keeps_intros

lemma keepsD: "keeps f \<Longrightarrow> f d = Some (ok, d') \<Longrightarrow> admin d' = admin d"
  unfolding keeps_def by blast

lemma keeps_and_then [keeps_intros]: "keeps f \<Longrightarrow> keeps g \<Longrightarrow> keeps (and_then f g)"
  unfolding keeps_def and_then_def by (auto split: option.splits if_splits)

lemma keeps_all_ok [keeps_intros]: "list_all keeps fs \<Longrightarrow> keeps (all_ok fs)"
  by (induction fs) (auto intro: keeps_and_then simp: keeps_def [of "\<lambda>d. Some (True, d)"])

lemma admin_calloc: "calloc h d = (p, d') \<Longrightarrow> admin d' = admin d"
  by (auto simp: calloc_def admin_def)

lemma keeps_button [keeps_intros]: "keeps (InitButtonClassDeviceStruct h n labels mp)"
  by (auto simp: keeps_def InitButtonClassDeviceStruct_def calloc_def admin_def split: if_splits)

lemma keeps_scroll [keeps_intros]: "keeps (SetScrollValuator n ty inc fl)"
  by (auto simp: keeps_def SetScrollValuator_def Let_def admin_def split: option.splits if_splits)

lemma keeps_axis [keeps_intros]: "keeps (InitValuatorAxisStruct n lab mi ma r mir mar mode)"
  by (auto simp: keeps_def InitValuatorAxisStruct_def SetScrollValuator_def Let_def admin_def split: option.splits if_splits)

lemma keeps_ptrfeed [keeps_intros]: "keeps (InitPtrFeedbackClassDeviceStruct h)"
  by (auto simp: keeps_def InitPtrFeedbackClassDeviceStruct_def calloc_def admin_def split: if_splits)

lemma admin_accel: "admin (snd (InitPointerAccelerationScheme h sc d)) = admin d"
  by (auto simp: InitPointerAccelerationScheme_def InitPredictableAccelerationScheme_def calloc_def Let_def admin_def split: option.splits)

lemma keeps_accel [keeps_intros]: "keeps (\<lambda>d. Some (InitPointerAccelerationScheme h sc d))"
  unfolding keeps_def using admin_accel by (metis option.inject snd_conv)

lemma admin_init_axes: "admin (init_axes n labels mode d) = admin d"
  by (induction n labels mode d rule: init_axes.induct) (auto split: option.splits dest: keepsD [OF keeps_axis])

lemma admin_motion: "admin (AllocateMotionHistory h d) = admin d"
  by (auto simp: AllocateMotionHistory_def calloc_def admin_def split: option.splits)

lemma keeps_valuator [keeps_intros]: "keeps (InitValuatorClassDeviceStruct h labels n mode)"
  by (auto simp: keeps_def InitValuatorClassDeviceStruct_def Let_def calloc_def admin_accel admin_init_axes admin_motion split: if_splits)
    (auto simp: admin_def)

lemma admin_points:
  assumes "\<And>d p d'. f d = (p, d') \<Longrightarrow> admin d' = admin d"
  shows "init_points f n d = (ps, d') \<Longrightarrow> admin d' = admin d"
  by (induction n arbitrary: d ps) (auto split: prod.splits dest: assms)

lemma admin_touch_point: "TouchInitTouchPoint h d = (p, d') \<Longrightarrow> admin d' = admin d"
  by (auto simp: TouchInitTouchPoint_def split: prod.splits if_splits dest!: admin_calloc)

lemma admin_touch_points: "init_points (TouchInitTouchPoint h) n d = (ps, d') \<Longrightarrow> admin d' = admin d"
  by (rule admin_points [OF admin_touch_point])

lemma admin_ddx_points: "init_points (calloc h) n d = (ps, d') \<Longrightarrow> admin d' = admin d"
  by (rule admin_points [OF admin_calloc])

lemma keeps_touch [keeps_intros]: "keeps (InitTouchClassDeviceStruct h n direct k)"
proof (unfold keeps_def, intro allI impI)
  fix d ok d' assume i: "InitTouchClassDeviceStruct h n direct k d = Some (ok, d')"
  have t: "admin (e\<lparr>touch := x\<rparr>) = admin e" "admin (e\<lparr>ddx_touches := y\<rparr>) = admin e" for e x y by (simp_all add: admin_def)
  show "admin d' = admin d"
    using i unfolding InitTouchClassDeviceStruct_def Let_def
    by (auto simp: t split: if_splits prod.splits
        dest!: admin_calloc admin_touch_points admin_ddx_points)
qed

lemma answer_keeps: "keeps f \<Longrightarrow> answer (f (d\<lparr>dev_on := False\<rparr>)) = Some (s, d') \<Longrightarrow> admin d' = admin d"
  using keepsD [of f "d\<lparr>dev_on := False\<rparr>"] by (auto simp: answer_def admin_def)

lemmas init_defs = mouse_init_def touch_init_def stylus_init_def lorieInitPointerButtons_def

lemma keeps_inits: "keeps (mouse_init h)" "keeps (touch_init h)" "keeps (stylus_init h)"
  unfolding init_defs by (intro keeps_all_ok; simp add: keeps_intros)+

lemma own_procs_cases:
  assumes "deviceProc d \<in> own_procs"
  obtains "deviceProc d = MouseProc" "call_proc h kb ot w d = lorieMouseProc h w d"
  | "deviceProc d = TouchProc" "call_proc h kb ot w d = lorieTouchProc h w d"
  | "deviceProc d = KeybdProc" "call_proc h kb ot w d = lorieKeybdProc kb w d"
  | "deviceProc d = StylusProc" "call_proc h kb ot w d = lorieStylusProc h w d"
  using assms by (auto simp: own_procs_def call_proc_def)

lemma call_proc_keeps:
  assumes "deviceProc d \<in> own_procs" "call_proc h kb ot w d = Some (s, d')"
  shows "admin d' = admin d"
proof -
  note k = keeps_inits [THEN answer_keeps]
  have "lorieMouseProc h w d = Some (s, d') \<Longrightarrow> admin d' = admin d" by (cases w) (auto simp: admin_def dest: k [unfolded admin_def])
  moreover have "lorieTouchProc h w d = Some (s, d') \<Longrightarrow> admin d' = admin d" by (cases w) (auto simp: admin_def dest: k [unfolded admin_def])
  moreover have "lorieKeybdProc kb w d = Some (s, d') \<Longrightarrow> admin d' = admin d" by (cases w) (auto simp: admin_def)
  moreover have "lorieStylusProc h w d = Some (s, d') \<Longrightarrow> admin d' = admin d" by (cases w) (auto simp: admin_def dest: k [unfolded admin_def])
  ultimately show ?thesis using assms by (auto elim!: own_procs_cases [of d h kb ot w])
qed

interpretation lorie: slave_driver "driver_of E" own_procs
proof
  fix d :: dev and w :: what and s :: dev_status and d' :: dev
  assume d: "deviceProc d \<in> own_procs"
  show "driver_of E w d = Some (s, d') \<Longrightarrow> admin d' = admin d" using call_proc_keeps [OF d] by (simp add: driver_of_def)
  show "\<exists>d'. driver_of E DEVICE_ON d = Some (DevSuccess, d')"
    "\<exists>s d'. driver_of E DEVICE_OFF d = Some (s, d')" "\<exists>s d'. driver_of E DEVICE_CLOSE d = Some (s, d')"
    using d by (auto simp: driver_of_def call_proc_def own_procs_def)
qed

text \<open>Only the touch device can write through a null pointer.\<close>

definition total :: "init \<Rightarrow> bool" where
  "total f = (\<forall>d. f d \<noteq> None)"

lemma total_all_ok: "list_all total fs \<Longrightarrow> total (all_ok fs)"
  by (induction fs) (auto simp: total_def and_then_def split: option.splits)

lemma total_inits:
  "total (InitButtonClassDeviceStruct h n labels mp)" "total (SetScrollValuator n ty inc fl)"
  "total (InitValuatorAxisStruct n lab mi ma r mir mar mode)" "total (InitPtrFeedbackClassDeviceStruct h)"
  "total (InitValuatorClassDeviceStruct h labs m mode)" "total (\<lambda>d. Some (g d))"
  by (auto simp: total_def InitButtonClassDeviceStruct_def SetScrollValuator_def InitValuatorAxisStruct_def Let_def calloc_def
      InitPtrFeedbackClassDeviceStruct_def InitValuatorClassDeviceStruct_def split: option.splits)

lemma total_mouse: "total (mouse_init h)" and total_stylus: "total (stylus_init h)"
  unfolding init_defs by (intro total_all_ok; simp add: total_inits)+

definition stylus_ok :: "start_env \<Rightarrow> bool" where
  "stylus_ok E = (case stylus_init (memory E) (fresh_dev StylusProc) of Some (ok, d) \<Rightarrow> ok | None \<Rightarrow> False)"

lemma IsMaster_fresh [simp]: "\<not> IsMaster (fresh_dev p)" "\<not> enabled (fresh_dev p)" "deviceProc (fresh_dev p) = p"
  by (simp_all add: fresh_dev_def IsMaster_def)

lemma stylus_INIT:
  obtains d' where "driver_of E DEVICE_INIT (fresh_dev StylusProc) = Some (if stylus_ok E then DevSuccess else DevBadValue, d')"
proof -
  have "(fresh_dev StylusProc)\<lparr>dev_on := False\<rparr> = fresh_dev StylusProc" by (simp add: fresh_dev_def)
  moreover obtain ok d' where "stylus_init (memory E) (fresh_dev StylusProc) = Some (ok, d')"
    using total_stylus [of "memory E"] unfolding total_def by (metis not_None_eq surj_pair)
  ultimately have "driver_of E DEVICE_INIT (fresh_dev StylusProc) = Some (if stylus_ok E then DevSuccess else DevBadValue, d')"
    by (simp add: driver_of_def call_proc_def stylus_ok_def answer_def)
  then show thesis by (rule that)
qed

text \<open>A device that could not be initialised stays where it is.\<close>

lemma enable_refused:
  assumes wf: "wf_devices S" and d: "dev_store S i = Some d" "\<not> IsMaster d" "\<not> inited d"
  shows "\<exists>S' d'. EnableDevice call i S = Some (False, S') \<and> wf_devices S' \<and> devs S' = devs S \<and> off_devs S' = off_devs S \<and>
    vc_pointer S' = vc_pointer S \<and> vc_keyboard S' = vc_keyboard S \<and> numDevices S' = numDevices S \<and>
    (\<forall>j. j \<noteq> i \<longrightarrow> view S' j = view S j) \<and>
    dev_store S' i = Some d' \<and> \<not> IsMaster d' \<and> deviceProc d' = deviceProc d \<and> \<not> inited d'"
proof -
  obtain S0 d0 where g: "give_sprite i d S = Some S0" "wf_devices S0" and d0: "dev_store S0 i = Some d0" "IsMaster d0 = IsMaster d"
      "deviceProc d0 = deviceProc d" "inited d0 = inited d"
    and fr: "devs S0 = devs S" "off_devs S0 = off_devs S" "vc_pointer S0 = vc_pointer S" "vc_keyboard S0 = vc_keyboard S"
      "numDevices S0 = numDevices S" "\<forall>j. j \<noteq> i \<longrightarrow> dev_store S0 j = dev_store S j"
    using lorie.give_sprite_result [OF wf d(1,2)] by blast
  have "EnableDevice call i S = Some (False, S0)" using d g d0 by (simp add: EnableDevice_def)
  then show ?thesis using g(2) d0 d fr by (intro exI [of _ S0] exI [of _ d0]) (simp add: view_def)
qed

definition granted :: "add_env \<Rightarrow> bool" where
  "granted E = (dev_memory E \<and> dev_privates E \<and> dev_access E)"

text \<open>What adding the device does, what switching it on does, and the stylus device as a whole.\<close>

definition stylus_started :: "bool \<Rightarrow> nat \<Rightarrow> inputInfo \<Rightarrow> inputInfo \<Rightarrow> bool" where
  "stylus_started ok i S S' =
     (wf_devices S' \<and> devs S' = (if ok then devs S @ [i] else devs S) \<and> off_devs S' = (if ok then off_devs S else off_devs S @ [i]) \<and>
      vc_pointer S' = vc_pointer S \<and> vc_keyboard S' = vc_keyboard S \<and> numDevices S' = numDevices S + 1 \<and>
      (\<forall>j. j \<noteq> i \<longrightarrow> view S' j = view S j) \<and>
      (\<exists>d. dev_store S' i = Some d \<and> \<not> IsMaster d \<and> deviceProc d = StylusProc \<and> inited d = ok))"

lemma stylus_started_attach:
  assumes "stylus_started ok i S S'"
  shows "stylus_started ok i S (snd (AttachDevice i m S'))"
proof -
  obtain d where d: "dev_store S' i = Some d" "\<not> IsMaster d" "deviceProc d = StylusProc" "inited d = ok"
    and w: "wf_devices S'" using assms unfolding stylus_started_def by blast
  obtain d' where "dev_store (snd (AttachDevice i m S')) i = Some d'" "IsMaster d' = IsMaster d" "deviceProc d' = deviceProc d"
    "inited d' = inited d" by (rule AttachDevice_dev [OF d(1), where m = m])
  moreover have "numDevices (snd (AttachDevice i m S')) = numDevices S'" by (simp add: AttachDevice_def set_dev_def split: option.splits)
  ultimately show ?thesis
    using assms d wf_AttachDevice [OF w, where i = i and m = m] AttachDevice_frame [where i = i and m = m and S = S']
    by (auto simp: stylus_started_def view_def)
qed

lemma add_result:
  assumes wf: "wf_devices S" and g: "granted E" and i: "free_id S = Some i"
  obtains S' where "AddInputDevice E p S = (Some i, S')" "wf_devices S'" "devs S' = devs S" "off_devs S' = off_devs S @ [i]"
    "vc_pointer S' = vc_pointer S" "vc_keyboard S' = vc_keyboard S" "numDevices S' = numDevices S + 1"
    "\<forall>j. j \<noteq> i \<longrightarrow> view S' j = view S j" "dev_store S' i = Some (fresh_dev p)"
proof -
  let ?S = "(set_dev i (fresh_dev p) S)\<lparr>numDevices := numDevices S + 1, off_devs := off_devs S @ [i]\<rparr>"
  have a: "AddInputDevice E p S = (Some i, ?S)" using g i by (simp add: AddInputDevice_def granted_def)
  show thesis by (rule that [OF a wf_AddInputDevice [OF wf a]]) (simp_all add: set_dev_def view_def)
qed

lemma start_stylus_result:
  assumes wf: "wf_devices S" and g: "granted (allowed E)" and i: "free_id S = Some i"
  shows "\<exists>S'. start_stylus E S = Some (i, S') \<and> stylus_started (stylus_ok E) i S S'"
proof -
  obtain S1 where a: "AddInputDevice (allowed E) StylusProc S = (Some i, S1)" and w1: "wf_devices S1"
    and f1: "devs S1 = devs S" "off_devs S1 = off_devs S @ [i]" "vc_pointer S1 = vc_pointer S" "vc_keyboard S1 = vc_keyboard S"
      "numDevices S1 = numDevices S + 1" "\<forall>j. j \<noteq> i \<longrightarrow> view S1 j = view S j" "dev_store S1 i = Some (fresh_dev StylusProc)"
    by (rule add_result [OF wf g i, where p = StylusProc])
  obtain d1 where c: "driver_of E DEVICE_INIT (fresh_dev StylusProc) = Some (if stylus_ok E then DevSuccess else DevBadValue, d1)"
    by (rule stylus_INIT)
  have own: "StylusProc \<in> own_procs" by (simp add: own_procs_def)
  obtain r S2 where b: "ActivateDevice (driver_of E) True i S1 = Some (r, S2)" and w2: "wf_devices S2"
    and f2: "devs S2 = devs S1" "off_devs S2 = off_devs S1" "numDevices S2 = numDevices S1" "vc_pointer S2 = vc_pointer S1"
      "vc_keyboard S2 = vc_keyboard S1" "\<forall>j. j \<noteq> i \<longrightarrow> view S2 j = view S1 j"
    and v2: "view S2 i = Some (admin ((fresh_dev StylusProc)\<lparr>inited := ((if stylus_ok E then DevSuccess else DevBadValue) = DevSuccess)\<rparr>))"
    using lorie.activate_result [OF w1 f1(7) _ _ c, of True] own by auto
  obtain d2 where d2: "dev_store S2 i = Some d2" "admin d2 = admin ((fresh_dev StylusProc)\<lparr>inited := ((if stylus_ok E then DevSuccess else DevBadValue) = DevSuccess)\<rparr>)"
    using v2 by (rule view_SomeD)
  have p2: "\<not> IsMaster d2" "deviceProc d2 = StylusProc" "inited d2 = stylus_ok E"
    using admin_eqD [OF d2(2)] IsMaster_admin [OF d2(2)] by (simp_all add: fresh_dev_def IsMaster_def)
  have n: "i \<notin> set (off_devs S)" by (rule free_id_fresh(2) [OF i])
  have "\<exists>b S3. EnableDevice (driver_of E) i S2 = Some (b, S3) \<and> stylus_started (stylus_ok E) i S S3"
  proof (cases "stylus_ok E")
    case True
    then have "inited d2" "i \<in> set (off_devs S2)" using p2 f2(2) f1(2) by simp_all
    with lorie.enable_result [OF w2 d2(1) p2(1), of E] p2(2) own show ?thesis
      using True f1 f2 n by (auto simp: stylus_started_def remove1_append)
  next
    case False
    with enable_refused [OF w2 d2(1) p2(1), of "driver_of E"] p2(2,3) show ?thesis
      using f1 f2 by (auto simp: stylus_started_def)
  qed
  then obtain b S3 where e: "EnableDevice (driver_of E) i S2 = Some (b, S3)" "stylus_started (stylus_ok E) i S S3" by blast
  let ?S4 = "snd (AttachDevice i (Some (vc_pointer S3)) S3)"
  have "start_stylus E S = Some (i, ?S4)" using a b e(1) by (simp add: start_stylus_def)
  moreover have "stylus_started (stylus_ok E) i S ?S4"
    using e(2) by (rule stylus_started_attach)
  ultimately show ?thesis by blast
qed

section \<open>The stylus devices come and go\<close>

text \<open>No other device refers to device \<open>i\<close> as its last slave.\<close>

definition unreferenced :: "nat \<Rightarrow> inputInfo \<Rightarrow> bool" where
  "unreferenced i S = (\<forall>k d. k \<noteq> i \<longrightarrow> dev_store S k = Some d \<longrightarrow> k \<in> set (devs S) \<longrightarrow> lastSlave d \<noteq> Some i \<and> last_slave d \<noteq> Some i)"

lemma fresh_unreferenced:
  assumes "wf_devices S" "i \<notin> set (devs S)"
  shows "unreferenced i S"
proof -
  have "lastSlave d \<noteq> Some i \<and> last_slave d \<noteq> Some i" if "dev_store S k = Some d" "k \<in> set (devs S)" for k d
    using wf_dev_ok [OF assms(1) that(1)] that(2) assms(2) by (cases "IsMaster d") (auto simp: dev_ok_def refs_ok_def)
  then show ?thesis by (simp add: unreferenced_def)
qed

lemma unreferenced_view:
  assumes un: "unreferenced i S" and wf: "wf_devices S'" and v: "\<forall>k. k \<noteq> i \<longrightarrow> k \<noteq> j \<longrightarrow> view S' k = view S k"
    and l: "set (devs S') \<subseteq> insert i (insert j (set (devs S)))"
    and j: "\<forall>d. dev_store S' j = Some d \<longrightarrow> \<not> IsMaster d"
  shows "unreferenced i S'"
proof (unfold unreferenced_def, intro allI impI)
  fix k d assume k: "k \<noteq> i" "dev_store S' k = Some d" "k \<in> set (devs S')"
  show "lastSlave d \<noteq> Some i \<and> last_slave d \<noteq> Some i"
  proof (cases "k = j")
    case True
    then have "\<not> IsMaster d" using j k(2) by simp
    then show ?thesis using wf_dev_ok [OF wf k(2)] by (simp add: dev_ok_def refs_ok_def)
  next
    case False
    have "view S' k = Some (admin d)" using k(2) by (simp add: view_def)
    then have "view S k = Some (admin d)" using v k(1) False by simp
    then obtain d0 where "dev_store S k = Some d0" "admin d0 = admin d" by (rule view_SomeD)
    moreover have "k \<in> set (devs S)" using False k l by auto
    ultimately show ?thesis using un k(1) admin_eqD(10,11) [of d0 d] by (auto simp: unreferenced_def)
  qed
qed

lemma forget_unreferenced:
  assumes "unreferenced i S" "k \<noteq> i"
  shows "view (forget_all i S) k = view S k"
  using assms by (cases "dev_store S k") (auto simp: unreferenced_def view_def forget_all_def forget_def admin_def)

definition stylus_at :: "nat \<Rightarrow> inputInfo \<Rightarrow> bool" where
  "stylus_at i S = (\<exists>d. dev_store S i = Some d \<and> \<not> IsMaster d \<and> deviceProc d = StylusProc)"

definition stylus_inited :: "nat \<Rightarrow> inputInfo \<Rightarrow> bool" where
  "stylus_inited i S = (\<exists>d. dev_store S i = Some d \<and> inited d)"

lemma remove_stylus_result:
  assumes wf: "wf_devices S" and at: "stylus_at i S"
  shows "\<exists>S'. remove_stylus E i S = Some S' \<and> wf_devices S' \<and> devs S' = remove1 i (devs S) \<and> off_devs S' = remove1 i (off_devs S) \<and>
    vc_pointer S' = vc_pointer S \<and> vc_keyboard S' = vc_keyboard S \<and>
    numDevices S' = (if stylus_inited i S then numDevices S - 1 else numDevices S) \<and> dev_store S' i = None \<and>
    (\<forall>j. j \<noteq> i \<longrightarrow> view S' j = view (forget_all i S) j \<or> view S' j = view S j)"
proof -
  obtain d where d: "dev_store S i = Some d" "\<not> IsMaster d" "deviceProc d \<in> own_procs"
    using at by (auto simp: stylus_at_def own_procs_def)
  from lorie.remove_result [OF wf d, of E] show ?thesis
    using d(1) by (auto simp: remove_stylus_def stylus_inited_def split: if_splits)
qed

text \<open>Being a stylus device, and being initialised, are seen in the view.\<close>

lemma stylus_at_iff:
  "stylus_at i S = (case view S i of None \<Rightarrow> False | Some (t, p, n, r) \<Rightarrow> t \<noteq> MASTER_POINTER \<and> t \<noteq> MASTER_KEYBOARD \<and> p = StylusProc)"
  "stylus_inited i S = (case view S i of None \<Rightarrow> False | Some (t, p, n, r) \<Rightarrow> n)"
  by (cases "dev_store S i"; simp add: stylus_at_def stylus_inited_def view_def admin_def IsMaster_def)+

lemma stylus_at_view:
  "view S' i = view S i \<Longrightarrow> stylus_at i S' = stylus_at i S" "view S' i = view S i \<Longrightarrow> stylus_inited i S' = stylus_inited i S"
  by (simp_all add: stylus_at_iff)

lemma stylus_at_forget: "stylus_at j (forget_all i S) = stylus_at j S" "stylus_inited j (forget_all i S) = stylus_inited j S"
  by (cases "dev_store S j"; simp add: stylus_at_def stylus_inited_def forget_all_def forget_def IsMaster_def)+

definition stylus_ids :: "lorie_devs \<Rightarrow> nat list" where
  "stylus_ids D = (case loriePen D of None \<Rightarrow> [] | Some i \<Rightarrow> [i]) @ (case lorieEraser D of None \<Rightarrow> [] | Some i \<Rightarrow> [i])"

definition wf_lorie :: "lorie_devs \<Rightarrow> bool" where
  "wf_lorie D = (wf_devices (info D) \<and> distinct (stylus_ids D) \<and> list_all (\<lambda>i. stylus_at i (info D)) (stylus_ids D))"

definition count_devs :: "inputInfo \<Rightarrow> nat" where
  "count_devs S = length (devs S) + length (off_devs S)"

lemma stylus_at_listed: "wf_devices S \<Longrightarrow> stylus_at j S \<Longrightarrow> j \<in> set (devs S) \<union> set (off_devs S)"
  using wf_listed by (auto simp: stylus_at_def)

lemma start_keeps:
  assumes wf: "wf_devices S" and g: "granted (allowed E)" and n: "count_devs S < MAXDEVICES - 2"
  obtains i S' where "start_stylus E S = Some (i, S')" "wf_devices S'" "stylus_at i S'" "count_devs S' = count_devs S + 1"
    "\<forall>j. stylus_at j S \<longrightarrow> j \<noteq> i \<and> stylus_at j S'"
proof -
  obtain i where i: "free_id S = Some i" using n by (auto simp: count_devs_def intro: free_id_exists)
  obtain S' where s: "start_stylus E S = Some (i, S')" and st: "stylus_started (stylus_ok E) i S S'"
    using start_stylus_result [OF wf g i] by blast
  note fr = free_id_fresh [OF i]
  have "stylus_at i S'" using st by (auto simp: stylus_started_def stylus_at_def)
  moreover have "count_devs S' = count_devs S + 1" using st by (simp add: stylus_started_def count_devs_def)
  moreover have "j \<noteq> i \<and> stylus_at j S'" if "stylus_at j S" for j
  proof -
    have "j \<noteq> i" using stylus_at_listed [OF wf that] fr by auto
    then have "view S' j = view S j" using st by (simp add: stylus_started_def)
    from stylus_at_view(1) [OF this] that \<open>j \<noteq> i\<close> show ?thesis by simp
  qed
  ultimately show thesis using that s st by (simp add: stylus_started_def)
qed

lemma remove_keeps:
  assumes wf: "wf_devices S" and at: "stylus_at i S"
  obtains S' where "remove_stylus E i S = Some S'" "wf_devices S'" "count_devs S' + 1 = count_devs S"
    "\<forall>j. j \<noteq> i \<longrightarrow> stylus_at j S' = stylus_at j S"
proof -
  from remove_stylus_result [OF wf at, of E] obtain S' where r: "remove_stylus E i S = Some S'" "wf_devices S'"
      "devs S' = remove1 i (devs S)" "off_devs S' = remove1 i (off_devs S)"
      "\<forall>j. j \<noteq> i \<longrightarrow> view S' j = view (forget_all i S) j \<or> view S' j = view S j" by blast
  have "i \<in> set (devs S) \<union> set (off_devs S)" "distinct (devs S @ off_devs S)"
    using stylus_at_listed [OF wf at] wf by (simp_all add: wf_devices_def)
  then have "count_devs S' + 1 = count_devs S"
    using r(3,4) length_pos_if_in_set [of i "devs S"] length_pos_if_in_set [of i "off_devs S"]
    by (auto simp: count_devs_def length_remove1)
  moreover have "\<forall>j. j \<noteq> i \<longrightarrow> stylus_at j S' = stylus_at j S"
    using r(5) by (metis stylus_at_view(1) stylus_at_forget(1))
  ultimately show thesis using that r by simp
qed

lemma set_pen_result:
  assumes wf: "wf_lorie D" and g: "granted (allowed E)" and n: "count_devs (info D) < MAXDEVICES - 2"
  shows "\<exists>D'. set_pen E on D = Some D' \<and> wf_lorie D' \<and> (loriePen D' \<noteq> None) = on \<and> lorieEraser D' = lorieEraser D \<and>
    count_devs (info D') + length (stylus_ids D) = count_devs (info D) + length (stylus_ids D')"
proof (cases "loriePen D")
  case None
  from wf have w: "wf_devices (info D)" by (simp add: wf_lorie_def)
  obtain i S' where "start_stylus E (info D) = Some (i, S')" "wf_devices S'" "stylus_at i S'" "count_devs S' = count_devs (info D) + 1"
      "\<forall>j. stylus_at j (info D) \<longrightarrow> j \<noteq> i \<and> stylus_at j S'" by (rule start_keeps [OF w g n])
  then show ?thesis using None wf by (cases on) (auto simp: set_pen_def wf_lorie_def stylus_ids_def split: option.splits)
next
  case (Some i)
  with wf have w: "wf_devices (info D)" "stylus_at i (info D)" by (simp_all add: wf_lorie_def stylus_ids_def)
  obtain S' where "remove_stylus E i (info D) = Some S'" "wf_devices S'" "count_devs S' + 1 = count_devs (info D)"
    "\<forall>j. j \<noteq> i \<longrightarrow> stylus_at j S' = stylus_at j (info D)" by (rule remove_keeps [OF w])
  then show ?thesis using Some wf by (cases on) (auto simp: set_pen_def wf_lorie_def stylus_ids_def split: option.splits)
qed

lemma set_eraser_result:
  assumes wf: "wf_lorie D" and g: "granted (allowed E)" and n: "count_devs (info D) < MAXDEVICES - 2"
  shows "\<exists>D'. set_eraser E on D = Some D' \<and> wf_lorie D' \<and> (lorieEraser D' \<noteq> None) = on \<and> loriePen D' = loriePen D \<and>
    count_devs (info D') + length (stylus_ids D) = count_devs (info D) + length (stylus_ids D')"
proof (cases "lorieEraser D")
  case None
  from wf have w: "wf_devices (info D)" by (simp add: wf_lorie_def)
  obtain i S' where "start_stylus E (info D) = Some (i, S')" "wf_devices S'" "stylus_at i S'" "count_devs S' = count_devs (info D) + 1"
      "\<forall>j. stylus_at j (info D) \<longrightarrow> j \<noteq> i \<and> stylus_at j S'" by (rule start_keeps [OF w g n])
  then show ?thesis using None wf by (cases on) (auto simp: set_eraser_def wf_lorie_def stylus_ids_def split: option.splits)
next
  case (Some i)
  with wf have w: "wf_devices (info D)" "stylus_at i (info D)" by (simp_all add: wf_lorie_def stylus_ids_def)
  obtain S' where "remove_stylus E i (info D) = Some S'" "wf_devices S'" "count_devs S' + 1 = count_devs (info D)"
    "\<forall>j. j \<noteq> i \<longrightarrow> stylus_at j S' = stylus_at j (info D)" by (rule remove_keeps [OF w])
  then show ?thesis using Some wf by (cases on) (auto simp: set_eraser_def wf_lorie_def stylus_ids_def split: option.splits)
qed

lemma stylus_ids_length: "length (stylus_ids D) = (if loriePen D \<noteq> None then 1 else 0) + (if lorieEraser D \<noteq> None then 1 else 0)"
  by (auto simp: stylus_ids_def split: option.splits)

lemma toggle_result:
  assumes wf: "wf_lorie D" and g: "granted (allowed E)" "granted (allowed E')"
    and n: "count_devs (info D) + 2 < MAXDEVICES - 2 + length (stylus_ids D)"
  shows "\<exists>D'. setStylusEnabled E E' on D = Some D' \<and> wf_lorie D' \<and> (loriePen D' \<noteq> None) = on \<and> (lorieEraser D' \<noteq> None) = on \<and>
    count_devs (info D') + length (stylus_ids D) = count_devs (info D) + length (stylus_ids D')"
proof -
  have two: "length (stylus_ids F) \<le> 2" for F :: lorie_devs by (simp add: stylus_ids_length)
  obtain D1 where p: "set_pen E on D = Some D1" "wf_lorie D1" "(loriePen D1 \<noteq> None) = on" "lorieEraser D1 = lorieEraser D"
      "count_devs (info D1) + length (stylus_ids D) = count_devs (info D) + length (stylus_ids D1)"
    using set_pen_result [OF wf g(1), of on] n two [of D] by auto
  obtain D2 where e: "set_eraser E' on D1 = Some D2" "wf_lorie D2" "(lorieEraser D2 \<noteq> None) = on" "loriePen D2 = loriePen D1"
      "count_devs (info D2) + length (stylus_ids D1) = count_devs (info D1) + length (stylus_ids D2)"
    using set_eraser_result [OF p(2) g(2), of on] p(5) n two [of D1] by auto
  show ?thesis
    using p e by (intro exI [of _ D2]) (simp add: setStylusEnabled_def)
qed

text \<open>The activity switches the stylus on and off any number of times; each request has its own answers of the allocator.\<close>

fun run_stylus :: "(start_env \<times> start_env \<times> bool) list \<Rightarrow> lorie_devs \<Rightarrow> lorie_devs option" where
  "run_stylus [] D = Some D"
| "run_stylus ((E, E', on) # ts) D = Option.bind (setStylusEnabled E E' on D) (run_stylus ts)"

definition all_granted :: "start_env \<times> start_env \<times> bool \<Rightarrow> bool" where
  "all_granted t = (granted (allowed (fst t)) \<and> granted (allowed (fst (snd t))))"

text \<open>However often the activity switches the stylus on and off, and whichever device initialisations fail, the
  server is left with well-formed device lists that hold two stylus devices when the last request was on and none when it
  was off: no device is leaked, lost or listed twice.\<close>

theorem stylus_devices_never_leak:
  assumes "wf_lorie D" "list_all all_granted ts" "count_devs (info D) + 2 < MAXDEVICES - 2 + length (stylus_ids D)"
  shows "\<exists>D'. run_stylus ts D = Some D' \<and> wf_lorie D' \<and>
     count_devs (info D') + length (stylus_ids D) = count_devs (info D) + length (stylus_ids D') \<and>
     length (stylus_ids D') = (if ts = [] then length (stylus_ids D) else if snd (snd (last ts)) then 2 else 0)"
  using assms
proof (induction ts arbitrary: D)
  case (Cons t ts)
  obtain E E' on where t: "t = (E, E', on)" by (cases t)
  then have g: "granted (allowed E)" "granted (allowed E')" using Cons.prems(2) by (simp_all add: all_granted_def)
  obtain D1 where d: "setStylusEnabled E E' on D = Some D1" "wf_lorie D1" "(loriePen D1 \<noteq> None) = on" "(lorieEraser D1 \<noteq> None) = on"
      "count_devs (info D1) + length (stylus_ids D) = count_devs (info D) + length (stylus_ids D1)"
    using toggle_result [OF Cons.prems(1) g Cons.prems(3), of on] by blast
  have "list_all all_granted ts" "count_devs (info D1) + 2 < MAXDEVICES - 2 + length (stylus_ids D1)"
    using Cons.prems(2,3) d(5) by simp_all
  from Cons.IH [OF d(2) this] obtain D' where r: "run_stylus ts D1 = Some D'" "wf_lorie D'"
      "count_devs (info D') + length (stylus_ids D1) = count_devs (info D1) + length (stylus_ids D')"
      "length (stylus_ids D') = (if ts = [] then length (stylus_ids D1) else if snd (snd (last ts)) then 2 else 0)" by blast
  have "length (stylus_ids D1) = (if on then 2 else 0)" using d(3,4) unfolding stylus_ids_length by simp
  then show ?case using t d r by (intro exI [of _ D']) auto
qed simp

section \<open>Refinement of the set of devices\<close>

definition abs_devices :: "lorie_devs \<Rightarrow> device set" where
  "abs_devices D = (if lorieMouse D \<noteq> None then {Mouse} else {}) \<union> (if lorieTouch D \<noteq> None then {Touch} else {}) \<union>
     (if lorieKeyboard D \<noteq> None then {Keyboard} else {}) \<union> (if loriePen D \<noteq> None then {Pen} else {}) \<union>
     (if lorieEraser D \<noteq> None then {Eraser} else {})"

lemma toggle_frame:
  assumes "setStylusEnabled E E' on D = Some D'"
  shows "lorieMouse D' = lorieMouse D" "lorieTouch D' = lorieTouch D" "lorieKeyboard D' = lorieKeyboard D"
  using assms by (auto simp: setStylusEnabled_def set_pen_def set_eraser_def bind_eq_Some_conv split: bool.splits option.splits)

text \<open>The dispatcher of events keeps only the set of devices that exist. Switching the stylus on and off on that set
  is what the device lists of the server do, whatever their state, if a device may be added.\<close>

theorem stylus_devices_refine:
  assumes wf: "wf_lorie D" and g: "granted (allowed E)" "granted (allowed E')"
    and n: "count_devs (info D) + 2 < MAXDEVICES - 2 + length (stylus_ids D)" and a: "devices S = abs_devices D"
  shows "\<exists>D'. setStylusEnabled E E' on D = Some D' \<and> devices (lorieSetStylusEnabled on S) = abs_devices D'"
proof -
  obtain D' where d: "setStylusEnabled E E' on D = Some D'" "(loriePen D' \<noteq> None) = on" "(lorieEraser D' \<noteq> None) = on"
    using toggle_result [OF wf g n, of on] by blast
  then have "devices (lorieSetStylusEnabled on S) = abs_devices D'"
    using a toggle_frame [OF d(1)] by (auto simp: lorieSetStylusEnabled_def abs_devices_def)
  with d(1) show ?thesis by blast
qed

text \<open>A server with its two master devices, and a world in which nothing fails.\<close>

definition sample_master :: "device_type \<Rightarrow> nat \<Rightarrow> bool \<Rightarrow> dev" where
  "sample_master t p owner = (fresh_dev OtherProc)\<lparr>dev_type := t, inited := True, enabled := True, sprite := True, spriteOwner := owner,
     paired := Some p\<rparr>"

definition sample_info :: inputInfo where
  "sample_info = \<lparr>devs = [2, 3], off_devs = [],
     dev_store = [2 \<mapsto> sample_master MASTER_POINTER 3 True, 3 \<mapsto> sample_master MASTER_KEYBOARD 2 False],
     numDevices = 2, vc_pointer = 2, vc_keyboard = 3, presence = []\<rparr>"

definition sample_devs :: lorie_devs where
  "sample_devs = \<lparr>info = sample_info, lorieMouse = None, lorieTouch = None, lorieKeyboard = None, loriePen = None, lorieEraser = None\<rparr>"

definition kind_env :: start_env where
  "kind_env = \<lparr>allowed = \<lparr>dev_memory = True, dev_privates = True, dev_access = True\<rparr>, memory = (\<lambda>_. True), kb_class = True,
     others = (\<lambda>w d. None)\<rparr>"

lemma sample_devs_wf: "wf_lorie sample_devs"
proof -
  have m: "is_master sample_info i \<longleftrightarrow> i = 2 \<or> i = 3" for i
    by (simp add: is_master_def sample_info_def sample_master_def IsMaster_def)
  have "dev_ok sample_info 2 (sample_master MASTER_POINTER 3 True)" "dev_ok sample_info 3 (sample_master MASTER_KEYBOARD 2 False)"
    by (simp_all add: dev_ok_def refs_ok_def m) (simp_all add: sample_info_def sample_master_def fresh_dev_def)
  then have "wf_devices sample_info"
    by (auto simp: wf_devices_def m) (auto simp: sample_info_def split: if_splits)
  then show ?thesis by (simp add: wf_lorie_def sample_devs_def stylus_ids_def)
qed

lemma sample_room: "granted (allowed kind_env)" "count_devs (info sample_devs) + 2 < MAXDEVICES - 2 + length (stylus_ids sample_devs)"
  by (simp_all add: granted_def kind_env_def sample_devs_def sample_info_def count_devs_def MAXDEVICES_def)

theorem stylus_devices_never_leak_witness:
  "\<exists>D'. run_stylus [(kind_env, kind_env, True), (kind_env, kind_env, False), (kind_env, kind_env, True)] sample_devs = Some D' \<and>
     wf_lorie D' \<and> count_devs (info D') = 4 \<and> length (stylus_ids D') = 2"
  using stylus_devices_never_leak [OF sample_devs_wf _ sample_room(2),
      of "[(kind_env, kind_env, True), (kind_env, kind_env, False), (kind_env, kind_env, True)]"] sample_room(1)
  by (simp add: all_granted_def) (auto simp: sample_devs_def sample_info_def count_devs_def stylus_ids_def)

theorem stylus_devices_refine_witness:
  "\<exists>D'. setStylusEnabled kind_env kind_env True sample_devs = Some D' \<and> abs_devices D' = {Pen, Eraser}"
proof -
  have a: "devices (sample_input\<lparr>devices := {}\<rparr>) = abs_devices sample_devs" by (simp add: abs_devices_def sample_devs_def)
  have "devices (lorieSetStylusEnabled True (sample_input\<lparr>devices := {}\<rparr>)) = {Pen, Eraser}" by (simp add: lorieSetStylusEnabled_def)
  with stylus_devices_refine [OF sample_devs_wf sample_room(1) sample_room(1) sample_room(2) a, of True] show ?thesis by metis
qed

section \<open>On and off again\<close>

lemma started_unreferenced:
  assumes wf: "wf_devices S" and i: "free_id S = Some i" and st: "stylus_started ok i S S'"
  shows "unreferenced i S'"
proof (rule unreferenced_view [where S = S and j = i])
  show "unreferenced i S" by (rule fresh_unreferenced [OF wf free_id_fresh(1) [OF i]])
  show "wf_devices S'" "\<forall>k. k \<noteq> i \<longrightarrow> k \<noteq> i \<longrightarrow> view S' k = view S k" "set (devs S') \<subseteq> insert i (insert i (set (devs S)))"
    "\<forall>d. dev_store S' i = Some d \<longrightarrow> \<not> IsMaster d"
    using st by (auto simp: stylus_started_def split: if_splits)
qed

lemma remove_unreferenced:
  assumes wf: "wf_devices S" and at: "stylus_at i S" and un: "unreferenced i S"
  obtains S' where "remove_stylus E i S = Some S'" "wf_devices S'" "devs S' = remove1 i (devs S)" "off_devs S' = remove1 i (off_devs S)"
    "vc_pointer S' = vc_pointer S" "vc_keyboard S' = vc_keyboard S"
    "numDevices S' = (if stylus_inited i S then numDevices S - 1 else numDevices S)" "dev_store S' i = None"
    "\<forall>j. j \<noteq> i \<longrightarrow> view S' j = view S j"
proof -
  obtain S' where r: "remove_stylus E i S = Some S'" "wf_devices S'" "devs S' = remove1 i (devs S)" "off_devs S' = remove1 i (off_devs S)"
    "vc_pointer S' = vc_pointer S" "vc_keyboard S' = vc_keyboard S"
    "numDevices S' = (if stylus_inited i S then numDevices S - 1 else numDevices S)" "dev_store S' i = None"
    "\<forall>j. j \<noteq> i \<longrightarrow> view S' j = view (forget_all i S) j \<or> view S' j = view S j"
    using remove_stylus_result [OF wf at, of E] by blast
  have "\<forall>j. j \<noteq> i \<longrightarrow> view S' j = view S j" using r(9) forget_unreferenced [OF un] by metis
  with r show thesis by (intro that)
qed

text \<open>The two devices, one after the other.\<close>

lemma two_started:
  assumes wf: "wf_devices S" and i: "free_id S = Some i" and s1: "stylus_started ok i S S1"
    and j: "free_id S1 = Some j" and s2: "stylus_started ok' j S1 S2"
  shows "i \<noteq> j \<and> stylus_at i S2 \<and> stylus_at j S2 \<and> stylus_inited i S2 = ok \<and> stylus_inited j S2 = ok' \<and>
    unreferenced i S2 \<and> unreferenced j S2"
proof -
  note fi = free_id_fresh [OF i] and fj = free_id_fresh [OF j]
  have w1: "wf_devices S1" and w2: "wf_devices S2" using s1 s2 by (simp_all add: stylus_started_def)
  have ij: "i \<noteq> j" using s1 fj by (auto simp: stylus_started_def split: if_splits)
  have v: "view S2 i = view S1 i" using s2 ij by (simp add: stylus_started_def)
  have at1: "stylus_at i S1" "stylus_inited i S1 = ok" using s1 by (auto simp: stylus_started_def stylus_at_def stylus_inited_def)
  have at2: "stylus_at j S2" "stylus_inited j S2 = ok'" using s2 by (auto simp: stylus_started_def stylus_at_def stylus_inited_def)
  have "unreferenced i S2"
    by (rule unreferenced_view [where S = S1 and j = j, OF started_unreferenced [OF wf i s1] w2])
      (use s2 in \<open>auto simp: stylus_started_def split: if_splits\<close>)
  moreover have "unreferenced j S2" by (rule started_unreferenced [OF w1 j s2])
  ultimately show ?thesis using ij at1 at2 stylus_at_view [OF v] by simp
qed

lemma admin_view_view: "admin_view S = (devs S, off_devs S, vc_pointer S, vc_keyboard S, view S)"
  by (simp add: admin_view_def view_def fun_eq_iff)

lemma two_removed:
  assumes wf: "wf_devices S" and i: "free_id S = Some i" and s1: "stylus_started ok i S S1"
    and j: "free_id S1 = Some j" and s2: "stylus_started ok' j S1 S2"
  shows "\<exists>S3 S4. remove_stylus E i S2 = Some S3 \<and> remove_stylus E' j S3 = Some S4 \<and> admin_view S4 = admin_view S \<and>
    numDevices S4 = numDevices S + (if ok then 0 else 1) + (if ok' then 0 else 1)"
proof -
  note fi = free_id_fresh [OF i] and fj = free_id_fresh [OF j]
  note two = two_started [OF assms]
  have w2: "wf_devices S2" using s2 by (simp add: stylus_started_def)
  obtain S3 where r3: "remove_stylus E i S2 = Some S3" "wf_devices S3" "devs S3 = remove1 i (devs S2)" "off_devs S3 = remove1 i (off_devs S2)"
    "vc_pointer S3 = vc_pointer S2" "vc_keyboard S3 = vc_keyboard S2"
    "numDevices S3 = (if stylus_inited i S2 then numDevices S2 - 1 else numDevices S2)" "dev_store S3 i = None"
    "\<forall>k. k \<noteq> i \<longrightarrow> view S3 k = view S2 k"
    using two by (elim conjE) (rule remove_unreferenced [OF w2, of i E])
  have vj: "view S3 j = view S2 j" using r3(9) two by simp
  have un: "unreferenced j S3"
    by (rule unreferenced_view [where S = S2 and j = i]) (use two r3 in \<open>auto dest: notin_set_remove1 set_mp [OF set_remove1_subset]\<close>)
  obtain S4 where r4: "remove_stylus E' j S3 = Some S4" "wf_devices S4" "devs S4 = remove1 j (devs S3)" "off_devs S4 = remove1 j (off_devs S3)"
    "vc_pointer S4 = vc_pointer S3" "vc_keyboard S4 = vc_keyboard S3"
    "numDevices S4 = (if stylus_inited j S3 then numDevices S3 - 1 else numDevices S3)" "dev_store S4 j = None"
    "\<forall>k. k \<noteq> j \<longrightarrow> view S4 k = view S3 k"
    using remove_unreferenced [OF r3(2) _ un, of E'] two stylus_at_view(1) [OF vj] by blast
  have l: "devs S4 = devs S" "off_devs S4 = off_devs S"
    using s1 s2 two fi fj unfolding r3(3,4) r4(3,4) by (auto simp: stylus_started_def remove1_append remove1_idem)
  have "view S4 k = view S k" for k
  proof -
    have n: "dev_store S i = None" "dev_store S j = None"
      using wf fi fj s1 by (auto simp: wf_devices_def stylus_started_def split: if_splits)
    consider "k = i" | "k = j" | "k \<noteq> i" "k \<noteq> j" by blast
    then show ?thesis
    proof cases
      case 1 then show ?thesis using r4(9) two r3(8) n by (simp add: view_def)
    next
      case 2 then show ?thesis using r4(8) n by (simp add: view_def)
    next
      case 3 then show ?thesis using r4(9) r3(9) s1 s2 by (simp add: stylus_started_def)
    qed
  qed
  moreover have "numDevices S4 = numDevices S + (if ok then 0 else 1) + (if ok' then 0 else 1)"
    using r4(7) r3(7) two stylus_at_view(2) [OF vj] s1 s2 by (auto simp: stylus_started_def)
  ultimately show ?thesis
    using r3(1) r4(1) l r3(5,6) r4(5,6) s1 s2 by (auto simp: admin_view_view stylus_started_def fun_eq_iff)
qed

text \<open>Switching the stylus on and off again leaves the two device lists and the administration of every other
  device as they were. The count of devices is restored only if both devices could be initialised: a device whose
  initialisation failed is removed without being counted off.\<close>

theorem stylus_on_off_restores:
  assumes wf: "wf_lorie D" and off: "loriePen D = None" "lorieEraser D = None"
    and g: "granted (allowed E)" "granted (allowed E')" and n: "count_devs (info D) + 1 < MAXDEVICES - 2"
  shows "\<exists>D'. run_stylus [(E, E', True), (F, F', False)] D = Some D' \<and> loriePen D' = None \<and> lorieEraser D' = None \<and>
    admin_view (info D') = admin_view (info D) \<and>
    numDevices (info D') = numDevices (info D) + (if stylus_ok E then 0 else 1) + (if stylus_ok E' then 0 else 1)"
proof -
  let ?S = "info D"
  have w: "wf_devices ?S" using wf by (simp add: wf_lorie_def)
  have "length (devs ?S) + length (off_devs ?S) < MAXDEVICES - 2" using n by (simp add: count_devs_def)
  then obtain i where i: "free_id ?S = Some i" by (rule free_id_exists)
  obtain S1 where a: "start_stylus E ?S = Some (i, S1)" "stylus_started (stylus_ok E) i ?S S1"
    using start_stylus_result [OF w g(1) i] by blast
  then have w1: "wf_devices S1" and "length (devs S1) + length (off_devs S1) < MAXDEVICES - 2"
    using n by (simp_all add: stylus_started_def count_devs_def split: if_splits)
  from this(2) obtain j where j: "free_id S1 = Some j" by (rule free_id_exists)
  obtain S2 where b: "start_stylus E' S1 = Some (j, S2)" "stylus_started (stylus_ok E') j S1 S2"
    using start_stylus_result [OF w1 g(2) j] by blast
  obtain S3 S4 where r: "remove_stylus F i S2 = Some S3" "remove_stylus F' j S3 = Some S4" "admin_view S4 = admin_view ?S"
      "numDevices S4 = numDevices ?S + (if stylus_ok E then 0 else 1) + (if stylus_ok E' then 0 else 1)"
    using two_removed [OF w i a(2) j b(2), of F F'] by blast
  have "run_stylus [(E, E', True), (F, F', False)] D = Some (D\<lparr>info := S4, loriePen := None, lorieEraser := None\<rparr>)"
    using off a(1) b(1) r(1,2) by (simp add: setStylusEnabled_def set_pen_def set_eraser_def)
  then show ?thesis using r(3,4) by (intro exI [of _ "D\<lparr>info := S4, loriePen := None, lorieEraser := None\<rparr>"]) simp
qed

theorem stylus_on_off_restores_witness:
  "\<exists>D'. run_stylus [(kind_env, kind_env, True), (kind_env, kind_env, False)] sample_devs = Some D' \<and>
    admin_view (info D') = admin_view sample_info"
proof -
  have "loriePen sample_devs = None" "lorieEraser sample_devs = None" "info sample_devs = sample_info"
    "count_devs (info sample_devs) + 1 < MAXDEVICES - 2"
    by (simp_all add: sample_devs_def count_devs_def MAXDEVICES_def sample_info_def)
  with stylus_on_off_restores [OF sample_devs_wf _ _ sample_room(1) sample_room(1), of kind_env kind_env] show ?thesis by auto
qed

end
