(* ===== verification/Lorie_Axes.thy ===== *)
theory Lorie_Axes
  imports Lorie_Device
begin

text \<open>
  What the devices of \<^verbatim>\<open>lorie/InitInput.c\<close> declare to the X server once their initialisation has succeeded: the ranges of
  their axes, their buttons and their scroll axes, whichever optional allocations failed on the way, and how
  the values the dispatcher queues fit these ranges.
\<close>

section \<open>Effect of one initialisation on the declared ranges\<close>

definition ranges :: "dev \<Rightarrow> (int \<times> int) list" where
  "ranges d = map (\<lambda>a. (axis_min a, axis_max a)) (valuator_axes d)"

lemma and_then_TrueE:
  assumes "and_then f g d = Some (True, d')"
  obtains d1 where "f d = Some (True, d1)" "g d1 = Some (True, d')"
  using assms by (auto simp: and_then_def split: option.splits if_splits)

lemma axis_ranges:
  assumes "InitValuatorAxisStruct n lab mi ma r mir mar mode d = Some (True, d')"
  shows "ranges d' = (ranges d)[n := (mi, ma)]" "button d' = button d" "touch d' = touch d"
  using assms
  by (auto simp: InitValuatorAxisStruct_def SetScrollValuator_def ranges_def valuator_axes_def map_update Let_def list_update_beyond
      split: option.splits if_splits)

lemma accel_keeps_axes: "valuator_axes (snd (InitPointerAccelerationScheme h sc d)) = valuator_axes d"
  "button (snd (InitPointerAccelerationScheme h sc d)) = button d"
  by (auto simp: InitPointerAccelerationScheme_def InitPredictableAccelerationScheme_def AccelerationDefaultCleanup_def calloc_def
      valuator_axes_def Let_def split: option.splits)

lemma axis_length:
  assumes "InitValuatorAxisStruct n lab mi ma r mir mar mode d = Some (ok, d')"
  shows "length (valuator_axes d') = length (valuator_axes d)" "button d' = button d"
  using assms
  by (auto simp: InitValuatorAxisStruct_def SetScrollValuator_def valuator_axes_def Let_def split: option.splits if_splits)

lemma init_axes_length:
  "length (valuator_axes (init_axes n labels mode d)) = length (valuator_axes d) \<and> button (init_axes n labels mode d) = button d"
  by (induction n labels mode d rule: init_axes.induct) (auto split: option.splits dest: axis_length)

lemma motion_length: "length (valuator_axes (AllocateMotionHistory h d)) = length (valuator_axes d)" "button (AllocateMotionHistory h d) = button d"
  by (auto simp: AllocateMotionHistory_def calloc_def valuator_axes_def split: option.splits)

lemma valuator_ranges:
  assumes "InitValuatorClassDeviceStruct h labels m mode d = Some (True, d')"
  shows "length (ranges d') = min (length labels) MAX_VALUATORS" "button d' = button d"
  using assms
  by (auto simp: InitValuatorClassDeviceStruct_def ranges_def Let_def calloc_def accel_keeps_axes init_axes_length motion_length
      valuator_axes_def [of "d\<lparr>valuator := v\<rparr>" for d v] split: if_splits)

lemma points_keep:
  assumes "\<And>d p d'. f d = (p, d') \<Longrightarrow> valuator d' = valuator d \<and> button d' = button d"
  shows "init_points f n d = (ps, d') \<Longrightarrow> valuator d' = valuator d \<and> button d' = button d"
proof (induction n arbitrary: d ps)
  case (Suc n)
  then show ?case using assms [of d] by (auto split: prod.splits)
qed simp

lemma calloc_keep: "calloc h d = (p, d') \<Longrightarrow> valuator d' = valuator d \<and> button d' = button d"
  by (auto simp: calloc_def)

lemma touch_point_keep: "TouchInitTouchPoint h d = (p, d') \<Longrightarrow> valuator d' = valuator d \<and> button d' = button d"
  by (auto simp: TouchInitTouchPoint_def calloc_def split: if_splits)

lemma touch_points_keep: "init_points (TouchInitTouchPoint h) n d = (ps, d') \<Longrightarrow> valuator d' = valuator d \<and> button d' = button d"
  by (rule points_keep [OF touch_point_keep])

lemma ddx_points_keep: "init_points (calloc h) n d = (ps, d') \<Longrightarrow> valuator d' = valuator d \<and> button d' = button d"
  by (rule points_keep [OF calloc_keep])

lemma touch_ranges:
  assumes "InitTouchClassDeviceStruct h n direct k d = Some (True, d')"
  shows "ranges d' = ranges d" "button d' = button d"
proof -
  have "valuator d' = valuator d \<and> button d' = button d"
    using assms unfolding InitTouchClassDeviceStruct_def Let_def
    by (auto split: if_splits prod.splits dest!: calloc_keep touch_points_keep ddx_points_keep)
  then show "ranges d' = ranges d" "button d' = button d" by (simp_all add: ranges_def valuator_axes_def)
qed

lemma button_ranges:
  assumes "InitButtonClassDeviceStruct h n labels mp d = Some (True, d')"
  shows "ranges d' = ranges d" "\<exists>b. button d' = Some b \<and> numButtons b = n \<and> (\<forall>i. 1 \<le> i \<and> i \<le> n \<longrightarrow> button_map b i = mp ! i)"
  using assms by (auto simp: InitButtonClassDeviceStruct_def calloc_def ranges_def valuator_axes_def MAP_LENGTH_def split: if_splits)

lemma ptrfeed_ranges: "InitPtrFeedbackClassDeviceStruct h d = Some (True, d') \<Longrightarrow> ranges d' = ranges d \<and> button d' = button d"
  by (auto simp: InitPtrFeedbackClassDeviceStruct_def calloc_def ranges_def valuator_axes_def split: if_splits)

section \<open>What the devices declare\<close>

text \<open>A stylus device that initialised has six axes with the ranges of a Wacom tablet and three buttons that mean
  themselves.\<close>

theorem stylus_declares:
  assumes "lorieStylusProc h DEVICE_INIT d = Some (DevSuccess, d')"
  shows "ranges d' = [(0, 0x3FFFF), (0, 0x3FFFF), (0, 0xFFFF), (-64, 63), (-64, 63), (-900, 899)] \<and>
    (\<exists>b. button d' = Some b \<and> numButtons b = 3 \<and> map (button_map b) [1, 2, 3] = [1, 2, 3])"
proof -
  have "stylus_init h (d\<lparr>dev_on := False\<rparr>) = Some (True, d')" using assms by (auto simp: answer_def split: if_splits)
  then obtain d0 d1 d2 d3 d4 d5 d6 d7 where
    v: "InitValuatorClassDeviceStruct h [Some ''Abs X'', Some ''Abs Y'', Some ''Abs Pressure'', Some ''Abs Tilt X'', Some ''Abs Tilt Y'', Some ''Abs Wheel'']
        MOTION_HISTORY_SIZE Absolute (d\<lparr>dev_on := False\<rparr>) = Some (True, d0)"
    and x: "axis 0 ''Abs X'' 0 0x3FFFF 10000 0 10000 Absolute d0 = Some (True, d1)"
      "axis 1 ''Abs Y'' 0 0x3FFFF 10000 0 10000 Absolute d1 = Some (True, d2)"
      "axis 2 ''Abs Pressure'' 0 0xFFFF 1 0 1 Absolute d2 = Some (True, d3)"
      "axis 3 ''Abs Tilt X'' (-64) 63 57 0 57 Absolute d3 = Some (True, d4)"
      "axis 4 ''Abs Tilt Y'' (-64) 63 57 0 57 Absolute d4 = Some (True, d5)"
      "axis 5 ''Abs Wheel'' (-900) 899 1 0 1 Absolute d5 = Some (True, d6)"
    and p: "InitPtrFeedbackClassDeviceStruct h d6 = Some (True, d7)"
    and b: "InitButtonClassDeviceStruct h 3 [None, None, None] [0, 1, 2, 3] d7 = Some (True, d')"
    unfolding stylus_init_def all_ok.simps by (elim and_then_TrueE) simp
  have "length (ranges d0) = 6" using valuator_ranges(1) [OF v] by (simp add: MAX_VALUATORS_def)
  then obtain r0 r1 r2 r3 r4 r5 where r: "ranges d0 = [r0, r1, r2, r3, r4, r5]"
    by (auto simp: eval_nat_numeral length_Suc_conv)
  have "ranges d' = [(0, 0x3FFFF), (0, 0x3FFFF), (0, 0xFFFF), (-64, 63), (-64, 63), (-900, 899)]"
    using r button_ranges(1) [OF b] ptrfeed_ranges [OF p] x [THEN axis_ranges(1)] by simp
  moreover have "[0, 1, 2, 3] ! Suc 0 = (1 :: nat)" "[0, 1, 2, 3] ! 2 = (2 :: nat)" "[0, 1, 2, 3] ! 3 = (3 :: nat)" by (simp_all add: eval_nat_numeral)
  ultimately show ?thesis using button_ranges(2) [OF b] by auto
qed

lemma touch_init_steps:
  assumes "lorieTouchProc h DEVICE_INIT d = Some (DevSuccess, d')"
  shows "ranges d' = [(0, 0xFFFF), (0, 0xFFFF)] \<and> (\<exists>b. button d' = Some b \<and> numButtons b = 1 \<and> button_map b 1 = 0)"
proof -
  have "touch_init h (d\<lparr>dev_on := False\<rparr>) = Some (True, d')" using assms by (auto simp: answer_def split: if_splits)
  then obtain d0 d1 d2 d3 where
    v: "InitValuatorClassDeviceStruct h [Some ''Abs MT Position X'', Some ''Abs MT Position Y''] MOTION_HISTORY_SIZE Absolute
          (d\<lparr>dev_on := False\<rparr>) = Some (True, d0)"
    and b: "InitButtonClassDeviceStruct h 1 [Some ''Button Left''] [1, 0] d0 = Some (True, d1)"
    and t: "InitTouchClassDeviceStruct h 20 True 2 d1 = Some (True, d2)"
    and x: "axis 0 ''Abs MT Position X'' 0 0xFFFF 10000 0 10000 Absolute d2 = Some (True, d3)"
      "axis 1 ''Abs MT Position Y'' 0 0xFFFF 10000 0 10000 Absolute d3 = Some (True, d')"
    unfolding touch_init_def all_ok.simps by (elim and_then_TrueE) simp
  have "length (ranges d0) = 2" using valuator_ranges(1) [OF v] by (simp add: MAX_VALUATORS_def)
  then obtain r0 r1 where r: "ranges d0 = [r0, r1]" by (auto simp: eval_nat_numeral length_Suc_conv)
  have "ranges d' = [(0, 0xFFFF), (0, 0xFFFF)]"
    using r button_ranges(1) [OF b] touch_ranges(1) [OF t] x [THEN axis_ranges(1)] by simp
  moreover have "button d' = button d1" using touch_ranges(2) [OF t] x [THEN axis_ranges(2)] by simp
  ultimately show ?thesis using button_ranges(2) [OF b] by auto
qed

text \<open>Where every allocation succeeds, so does the initialisation of the touch device.\<close>

lemma touch_class_ok:
  assumes "touch d = None" "valuator d = Some v" "2 \<le> k"
  shows "\<exists>d'. InitTouchClassDeviceStruct (\<lambda>_. True) n direct k d = Some (True, d')"
  using assms by (auto simp: InitTouchClassDeviceStruct_def calloc_def Let_def split: prod.splits)

lemma touch_before: "\<exists>d1. and_then (InitValuatorClassDeviceStruct (\<lambda>_. True) [Some ''Abs MT Position X'', Some ''Abs MT Position Y''] MOTION_HISTORY_SIZE Absolute)
    (InitButtonClassDeviceStruct (\<lambda>_. True) 1 [Some ''Button Left''] [1, 0]) (fresh_dev TouchProc) = Some (True, d1) \<and>
    touch d1 = None \<and> length (ranges d1) = 2"
proof -
  have "map_option (\<lambda>(ok, d). (ok, touch d = None, length (ranges d)))
     (and_then (InitValuatorClassDeviceStruct (\<lambda>_. True) [Some ''Abs MT Position X'', Some ''Abs MT Position Y''] MOTION_HISTORY_SIZE Absolute)
    (InitButtonClassDeviceStruct (\<lambda>_. True) 1 [Some ''Button Left''] [1, 0]) (fresh_dev TouchProc)) = Some (True, True, 2)"
    by code_simp
  then show ?thesis by auto
qed

lemma axis_ok:
  assumes "n < length (ranges d)" "mi \<le> ma"
  shows "\<exists>d'. InitValuatorAxisStruct n lab mi ma r mir mar mode d = Some (True, d')"
  using assms by (auto simp: InitValuatorAxisStruct_def SetScrollValuator_def ranges_def valuator_axes_def Let_def split: option.splits)

lemma kind_touch: obtains d' where "lorieTouchProc (\<lambda>_. True) DEVICE_INIT (fresh_dev TouchProc) = Some (DevSuccess, d')"
proof -
  let ?h = "\<lambda>_ :: nat. True"
  obtain d0 d1 where f: "InitValuatorClassDeviceStruct ?h [Some ''Abs MT Position X'', Some ''Abs MT Position Y''] MOTION_HISTORY_SIZE Absolute (fresh_dev TouchProc) = Some (True, d0)"
      "InitButtonClassDeviceStruct ?h 1 [Some ''Button Left''] [1, 0] d0 = Some (True, d1)" and d1: "touch d1 = None" "length (ranges d1) = 2"
    using touch_before by (auto elim!: and_then_TrueE)
  then obtain v where "valuator d1 = Some v" by (cases "valuator d1") (auto simp: ranges_def valuator_axes_def)
  then obtain d2 where t: "InitTouchClassDeviceStruct ?h 20 True 2 d1 = Some (True, d2)" using touch_class_ok [OF d1(1)] by blast
  then have "length (ranges d2) = 2" using touch_ranges(1) d1(2) by metis
  then have "\<exists>d3. axis 0 ''Abs MT Position X'' 0 0xFFFF 10000 0 10000 Absolute d2 = Some (True, d3)" by (intro axis_ok) simp_all
  then obtain d3 where x: "axis 0 ''Abs MT Position X'' 0 0xFFFF 10000 0 10000 Absolute d2 = Some (True, d3)" by blast
  have "length (ranges d3) = 2" using axis_ranges(1) [OF x] \<open>length (ranges d2) = 2\<close> by simp
  then have "\<exists>d'. axis 1 ''Abs MT Position Y'' 0 0xFFFF 10000 0 10000 Absolute d3 = Some (True, d')" by (intro axis_ok) simp_all
  then obtain d' where y: "axis 1 ''Abs MT Position Y'' 0 0xFFFF 10000 0 10000 Absolute d3 = Some (True, d')" by blast
  have "(fresh_dev TouchProc)\<lparr>dev_on := False\<rparr> = fresh_dev TouchProc" by (simp add: fresh_dev_def)
  then have "lorieTouchProc ?h DEVICE_INIT (fresh_dev TouchProc) = Some (DevSuccess, d')"
    using f t x y by (simp add: touch_init_def and_then_def answer_def)
  then show thesis by (rule that)
qed

lemma kind_init_stylus: "map_option fst (lorieStylusProc (\<lambda>_. True) DEVICE_INIT (fresh_dev StylusProc)) = Some DevSuccess"
  by code_simp

lemma kind_init_mouse: "map_option fst (lorieMouseProc (\<lambda>_. True) DEVICE_INIT (fresh_dev MouseProc)) = Some DevSuccess"
  by code_simp

lemma kind_stylus: obtains d' where "lorieStylusProc (\<lambda>_. True) DEVICE_INIT (fresh_dev StylusProc) = Some (DevSuccess, d')"
  using kind_init_stylus by (auto simp del: lorieStylusProc.simps)

lemma kind_mouse: obtains d' where "lorieMouseProc (\<lambda>_. True) DEVICE_INIT (fresh_dev MouseProc) = Some (DevSuccess, d')"
  using kind_init_mouse by (auto simp del: lorieMouseProc.simps)

theorem stylus_declares_witness:
  "\<exists>d'. lorieStylusProc (\<lambda>_. True) DEVICE_INIT (fresh_dev StylusProc) = Some (DevSuccess, d') \<and> ranges d' ! 3 = (-64, 63)"
proof (rule kind_stylus)
  fix d' assume i: "lorieStylusProc (\<lambda>_. True) DEVICE_INIT (fresh_dev StylusProc) = Some (DevSuccess, d')"
  from stylus_declares [OF i] have "ranges d' ! 3 = (-64, 63)" by (simp add: eval_nat_numeral)
  with i show ?thesis by blast
qed

text \<open>The only button of the touch device is mapped to no button: its map is filled at index 0, but the server reads
  the map of a device from index 1.\<close>

theorem touch_button_unmapped:
  assumes "lorieTouchProc h DEVICE_INIT d = Some (DevSuccess, d')"
  shows "\<exists>b. button d' = Some b \<and> numButtons b = 1 \<and> button_map b 1 = 0"
  using touch_init_steps [OF assms] by blast

theorem touch_button_unmapped_witness:
  "\<exists>d' b. lorieTouchProc (\<lambda>_. True) DEVICE_INIT (fresh_dev TouchProc) = Some (DevSuccess, d') \<and> button d' = Some b \<and> button_map b 1 = 0"
proof (rule kind_touch)
  fix d' assume i: "lorieTouchProc (\<lambda>_. True) DEVICE_INIT (fresh_dev TouchProc) = Some (DevSuccess, d')"
  from touch_button_unmapped [OF i] i show ?thesis by blast
qed

text \<open>When the array of touches of the driver cannot be allocated, the initialisation writes through a null pointer.\<close>

theorem touch_init_null_write: "lorieTouchProc (\<lambda>n. n \<noteq> 50) DEVICE_INIT (fresh_dev TouchProc) = None"
  by code_simp

text \<open>Installing an acceleration scheme that cannot be allocated loses the one that was installed.\<close>

theorem accel_failure_changes:
  "fst (InitPointerAccelerationScheme (\<lambda>_. False) PtrAccelPredictable d) = False \<and>
   (valuator d = Some v \<and> accelScheme v = \<lparr>accel_number = PtrAccelPredictable, accel_proc = True, accel_data = True\<rparr> \<and> \<not> IsMaster d \<longrightarrow>
    (\<exists>v'. valuator (snd (InitPointerAccelerationScheme (\<lambda>_. False) PtrAccelPredictable d)) = Some v' \<and> \<not> accel_proc (accelScheme v')))"
  by (auto simp: InitPointerAccelerationScheme_def InitPredictableAccelerationScheme_def AccelerationDefaultCleanup_def calloc_def Let_def
      split: option.splits)

section \<open>The mouse\<close>

lemma scroll_set:
  assumes "SetScrollValuator n ty inc fl d = Some (True, d')" "ty \<noteq> SCROLL_TYPE_NONE" "valuator d = Some v"
  shows "\<exists>v'. valuator d' = Some v' \<and> (if ty = SCROLL_TYPE_VERTICAL then v_scroll_axis v' = int n \<and> h_scroll_axis v' = h_scroll_axis v
      else h_scroll_axis v' = int n \<and> v_scroll_axis v' = v_scroll_axis v) \<and> n < length (axes v) \<and>
    (\<exists>a. axes v' = (axes v)[n := a] \<and> scroll_kind a = ty \<and> scroll_increment a = inc)"
  using assms
  by (auto simp: SetScrollValuator_def Let_def split: if_splits
      intro!: exI [where x = "(axes v ! n)\<lparr>scroll_kind := ty, scroll_increment := inc, scroll_flags := fl\<rparr>"])

lemma scroll_needs_valuator: "SetScrollValuator n ty inc fl d = Some (True, d') \<Longrightarrow> \<exists>v. valuator d = Some v"
  by (auto simp: SetScrollValuator_def split: option.splits)

lemma accel_keeps_scroll:
  assumes "valuator d = Some v"
  shows "\<exists>v'. valuator (snd (InitPointerAccelerationScheme h sc d)) = Some v' \<and> axes v' = axes v \<and> h_scroll_axis v' = h_scroll_axis v \<and>
    v_scroll_axis v' = v_scroll_axis v"
  using assms
  by (auto simp: InitPointerAccelerationScheme_def InitPredictableAccelerationScheme_def AccelerationDefaultCleanup_def calloc_def Let_def)

text \<open>A mouse that initialised scrolls on the axes on which the dispatcher reports scrolling: axis 2 is its
  horizontal and axis 3 its vertical scroll axis, with one unit per step.\<close>

theorem mouse_scroll_axes:
  assumes "lorieMouseProc h DEVICE_INIT d = Some (DevSuccess, d')"
  shows "\<exists>v. valuator d' = Some v \<and> h_scroll_axis v = 2 \<and> v_scroll_axis v = 3 \<and>
    scroll_kind (axes v ! 2) = SCROLL_TYPE_HORIZONTAL \<and> scroll_kind (axes v ! 3) = SCROLL_TYPE_VERTICAL \<and>
    scroll_increment (axes v ! 2) = 1 \<and> scroll_increment (axes v ! 3) = 1"
proof -
  have "mouse_init h (d\<lparr>dev_on := False\<rparr>) = Some (True, d')" using assms by (auto simp: answer_def split: if_splits)
  then obtain d6 d7 d8 d9 where
    s: "SetScrollValuator 2 SCROLL_TYPE_HORIZONTAL 1 SCROLL_FLAG_NONE d6 = Some (True, d7)"
      "SetScrollValuator 3 SCROLL_TYPE_VERTICAL 1 SCROLL_FLAG_PREFERRED d7 = Some (True, d8)"
    and p: "InitPtrFeedbackClassDeviceStruct h d8 = Some (True, d9)"
    and a: "InitPointerAccelerationScheme h PtrAccelPredictable d9 = (True, d')"
    unfolding mouse_init_def all_ok.simps by (elim and_then_TrueE) simp
  obtain v6 where v6: "valuator d6 = Some v6" using scroll_needs_valuator [OF s(1)] by blast
  obtain v7 a2 where v7: "valuator d7 = Some v7" "h_scroll_axis v7 = 2" "2 < length (axes v6)" "axes v7 = (axes v6)[2 := a2]"
      "scroll_kind a2 = SCROLL_TYPE_HORIZONTAL" "scroll_increment a2 = 1"
    using scroll_set [OF s(1) _ v6] by auto
  obtain v8 a3 where v8: "valuator d8 = Some v8" "h_scroll_axis v8 = 2" "v_scroll_axis v8 = 3" "3 < length (axes v7)" "axes v8 = (axes v7)[3 := a3]"
      "scroll_kind a3 = SCROLL_TYPE_VERTICAL" "scroll_increment a3 = 1"
    using scroll_set [OF s(2) _ v7(1)] v7(2) by auto
  have "valuator d9 = Some v8" using p v8(1) by (auto simp: InitPtrFeedbackClassDeviceStruct_def calloc_def split: if_splits)
  from accel_keeps_scroll [OF this, of h PtrAccelPredictable] a v7 v8 show ?thesis by auto
qed

theorem mouse_scroll_axes_witness:
  "\<exists>d' v. lorieMouseProc (\<lambda>_. True) DEVICE_INIT (fresh_dev MouseProc) = Some (DevSuccess, d') \<and> valuator d' = Some v \<and> h_scroll_axis v = 2"
proof (rule kind_mouse)
  fix d' assume i: "lorieMouseProc (\<lambda>_. True) DEVICE_INIT (fresh_dev MouseProc) = Some (DevSuccess, d')"
  from mouse_scroll_axes [OF i] i show ?thesis by blast
qed

section \<open>Touches inside the declared axes\<close>

definition in_ranges :: "rat list \<Rightarrow> (int \<times> int) list \<Rightarrow> bool" where
  "in_ranges vs rs = list_all2 (\<lambda>v (lo, hi). of_int lo \<le> v \<and> v \<le> of_int hi) vs rs"

text \<open>A touch device that initialised declares two axes, and every touch the dispatcher queues has its position
  inside them, whatever coordinates the activity sends.\<close>

theorem touch_values_in_axes:
  assumes "lorieTouchProc h DEVICE_INIT d = Some (DevSuccess, d')" and "0 < screen_width E" "0 < screen_height E" and "ty \<in> touch_types"
    and "TouchEvent ty' j vx vy \<in> set (events (handleTouchEvent E ty i x y S)) - set (events S)"
  shows "in_ranges [vx, vy] (ranges d')"
proof -
  have r: "ranges d' = [(0, 0xFFFF), (0, 0xFFFF)]" using touch_init_steps [OF assms(1)] by blast
  show ?thesis
    using assms(4,2,3)
  proof (cases rule: handleTouchEvent_cases [where i = i and x = x and y = y and S = S])
    case dropped
    then show ?thesis using assms(5) by simp
  next
    case (queued ty1 wx wy)
    then show ?thesis using assms(5) by (auto simp: QueueTouchEvents_def queue_event_def r in_ranges_def)
  qed
qed

theorem touch_values_in_axes_witness:
  "\<exists>d' vx vy. lorieTouchProc (\<lambda>_. True) DEVICE_INIT (fresh_dev TouchProc) = Some (DevSuccess, d') \<and>
     TouchEvent 18 7 vx vy \<in> set (events (handleTouchEvent sample_env 18 7 4000 25 sample_input)) \<and> in_ranges [vx, vy] (ranges d')"
proof (rule kind_touch)
  fix d' assume i: "lorieTouchProc (\<lambda>_. True) DEVICE_INIT (fresh_dev TouchProc) = Some (DevSuccess, d')"
  let ?S = "handleTouchEvent sample_env 18 7 4000 25 sample_input"
  have e: "\<exists>vx vy. TouchEvent 18 7 vx vy \<in> set (events ?S) - set (events sample_input)"
    by (simp add: handleTouchEvent_def QueueTouchEvents_def queue_event_def sample_input_def touch_type_defs Let_def)
  then obtain vx vy where m: "TouchEvent 18 7 vx vy \<in> set (events ?S) - set (events sample_input)" by blast
  have "in_ranges [vx, vy] (ranges d')"
    by (rule touch_values_in_axes [OF i _ _ _ m]) (simp_all add: sample_env_def touch_types_def XI_TouchBegin_def)
  with i m show ?thesis by blast
qed

end
