(* ===== verification/Mi_Queue.thy ===== *)
theory Mi_Queue
  imports Dix_Hierarchy
begin

text \<open>
  The event queue between the drivers and the X server (\<^verbatim>\<open>mi/mieq.c\<close>), which \<^verbatim>\<open>ProcessInputEvents\<close> of \<^verbatim>\<open>lorie/InitInput.c\<close> empties:
  a ring of buckets, each with a pointer to an event of its own, that doubles when it is full. An event is
  handed to its device and, translated, to the master of the device. A write through a freed event is the value \<open>None\<close>.
\<close>

section \<open>The ring\<close>

datatype event_type = ET_KeyPress | ET_KeyRelease | ET_ButtonPress | ET_ButtonRelease | ET_Motion | ET_TouchBegin | ET_TouchUpdate
  | ET_TouchEnd | ET_ProximityIn | ET_ProximityOut | ET_Other

record ievent =
  ev_type :: event_type
  ev_time :: u32
  ev_device :: nat
  ev_detail :: nat
  ev_root :: "int \<times> int"
  pointer_emulated :: bool

record bucket =
  evp :: nat
  ev_screen :: "nat option"
  ev_pdev :: "nat option"

record event_queue =
  q_head :: nat
  q_tail :: nat
  lastEventTime :: u32
  lastMotion :: nat
  buckets :: "bucket list"
  dropped :: nat
  cells :: "nat \<Rightarrow> ievent option"
  next_cell :: nat

definition QUEUE_INITIAL_SIZE :: nat where "QUEUE_INITIAL_SIZE = 512"
definition QUEUE_MAXIMUM_SIZE :: nat where "QUEUE_MAXIMUM_SIZE = 4096"

definition blank_event :: ievent where
  "blank_event = \<lparr>ev_type = ET_Other, ev_time = 0, ev_device = 0, ev_detail = 0, ev_root = (0, 0), pointer_emulated = False\<rparr>"

abbreviation nevents :: "event_queue \<Rightarrow> nat" where "nevents q \<equiv> length (buckets q)"

definition mieqNumEnqueued :: "event_queue \<Rightarrow> nat" where
  "mieqNumEnqueued q =
     (if nevents q = 0 then 0
      else let n = q_tail q + nevents q - q_head q in if nevents q \<le> n then n - nevents q else n)"

text \<open>Growing: what the allocator answers for the array and for the event of each new bucket. When an event cannot be
  allocated, the code frees the events of all buckets before it, those of the old queue included.\<close>

record grow_env =
  array_ok :: bool
  event_ok :: "nat \<Rightarrow> bool"

definition mieqGrowQueue :: "grow_env \<Rightarrow> nat \<Rightarrow> event_queue \<Rightarrow> bool \<times> event_queue" where
  "mieqGrowQueue A n q =
     (if n \<le> nevents q \<or> \<not> array_ok A then (False, q)
      else if \<exists>i \<in> set [nevents q..<n]. \<not> event_ok A i
      then (False, q\<lparr>cells := (\<lambda>a. if a \<in> set (map evp (buckets q)) then None else cells q a)\<rparr>)
      else
        let k = n - nevents q in
        (True, q\<lparr>q_tail := mieqNumEnqueued q, q_head := 0,
           buckets := drop (q_head q) (buckets q) @ take (q_head q) (buckets q) @
             map (\<lambda>i. \<lparr>evp = next_cell q + i, ev_screen = None, ev_pdev = None\<rparr>) [0..<k],
           cells := (\<lambda>a. if next_cell q \<le> a \<and> a < next_cell q + k then Some blank_event else cells q a),
           next_cell := next_cell q + k\<rparr>))"

definition mieqInit :: "grow_env \<Rightarrow> u32 \<Rightarrow> event_queue option" where
  "mieqInit A now =
     (case mieqGrowQueue A QUEUE_INITIAL_SIZE
        \<lparr>q_head = 0, q_tail = 0, lastEventTime = now, lastMotion = 0, buckets = [], dropped = 0, cells = (\<lambda>a. None), next_cell = 0\<rparr> of
        (ok, q) \<Rightarrow> if ok then Some q else None)"

definition mieqFini :: "event_queue \<Rightarrow> event_queue" where
  "mieqFini q = q\<lparr>cells := (\<lambda>a. if a \<in> set (map evp (buckets q)) then None else cells q a)\<rparr>"

text \<open>Filling a bucket. The time of the event is compared only after the event has been copied: the correction
  changes the event of the caller.\<close>

definition not_before :: "u32 \<Rightarrow> ievent \<Rightarrow> ievent" where
  "not_before t e = (if ev_time e < t \<and> t - ev_time e < 10000 then e\<lparr>ev_time := t\<rparr> else e)"

definition put :: "nat \<Rightarrow> nat \<Rightarrow> nat option \<Rightarrow> nat option \<Rightarrow> ievent \<Rightarrow> event_queue \<Rightarrow> (ievent \<times> event_queue) option" where
  "put pos motion pDev scr e q = (case rd (buckets q) pos of
       None \<Rightarrow> None
     | Some b \<Rightarrow>
         if cells q (evp b) = None then None
         else Some (not_before (lastEventTime q) e,
           q\<lparr>cells := (cells q)(evp b \<mapsto> e), lastEventTime := ev_time e,
             buckets := (buckets q)[pos := b\<lparr>ev_screen := scr, ev_pdev := pDev\<rparr>],
             lastMotion := motion, q_tail := (pos + 1) mod nevents q\<rparr>))"

definition mieqEnqueue :: "grow_env \<Rightarrow> nat option \<Rightarrow> nat option \<Rightarrow> ievent \<Rightarrow> event_queue \<Rightarrow> (ievent \<times> event_queue) option" where
  "mieqEnqueue A pDev scr e q =
     (if ev_type e = ET_Motion \<and> pDev = None then None
      else
        let motion = (if ev_type e = ET_Motion then the pDev else 0);
            scr' = (if pDev = None then None else scr)
        in if motion \<noteq> 0 \<and> motion = lastMotion q \<and> q_tail q \<noteq> q_head q
           then put (unat (word_of_nat (q_tail q) - 1 :: u32) mod nevents q) motion pDev scr' e q
           else if mieqNumEnqueued q + 1 = nevents q
           then (case mieqGrowQueue A (2 * nevents q) q of (ok, q1) \<Rightarrow>
                   if \<not> ok then Some (e, q1\<lparr>dropped := dropped q1 + 1\<rparr>)
                   else put (q_tail q1) motion pDev scr' e q1)
           else put (q_tail q) motion pDev scr' e q)"

section \<open>What the ring holds\<close>

type_synonym queued = "ievent \<times> nat option \<times> nat option"

definition entry :: "event_queue \<Rightarrow> bucket \<Rightarrow> queued" where
  "entry q b = (the (cells q (evp b)), ev_screen b, ev_pdev b)"

definition contents :: "event_queue \<Rightarrow> queued list" where
  "contents q = map (\<lambda>i. entry q (buckets q ! ((q_head q + i) mod nevents q))) [0..<mieqNumEnqueued q]"

definition wf_queue :: "event_queue \<Rightarrow> bool" where
  "wf_queue q =
     ((\<exists>k. 1 \<le> k \<and> k \<le> 31 \<and> nevents q = 2 ^ k) \<and> q_head q < nevents q \<and> q_tail q < nevents q \<and> distinct (map evp (buckets q)) \<and>
      list_all (\<lambda>b. cells q (evp b) \<noteq> None \<and> evp b < next_cell q) (buckets q))"

lemma ring_mod: "a < n \<Longrightarrow> k < n \<Longrightarrow> (a + k) mod n = (if a + k < n then a + k else a + k - n)" for a k n :: nat
  by (simp add: le_mod_geq)

lemma num_enqueued:
  assumes "q_head q < nevents q" "q_tail q = (q_head q + k) mod nevents q" "k < nevents q"
  shows "mieqNumEnqueued q = k"
proof -
  have t: "q_tail q = (if q_head q + k < nevents q then q_head q + k else q_head q + k - nevents q)"
    unfolding assms(2) by (rule ring_mod [OF assms(1,3)])
  have "nevents q \<noteq> 0" using assms(1) by linarith
  then show ?thesis unfolding mieqNumEnqueued_def Let_def t using assms(1,3) by (auto split: if_splits)
qed

lemma num_enqueued_tail:
  assumes "q_head q < nevents q" "q_tail q < nevents q"
  shows "mieqNumEnqueued q < nevents q" "q_tail q = (q_head q + mieqNumEnqueued q) mod nevents q"
proof -
  let ?k = "if q_head q \<le> q_tail q then q_tail q - q_head q else q_tail q + nevents q - q_head q"
  have k: "?k < nevents q" using assms by auto
  have t: "q_tail q = (q_head q + ?k) mod nevents q" unfolding ring_mod [OF assms(1) k] using assms by auto
  from num_enqueued [OF assms(1) t k] k t show "mieqNumEnqueued q < nevents q" "q_tail q = (q_head q + mieqNumEnqueued q) mod nevents q"
    by simp_all
qed

lemma length_contents [simp]: "length (contents q) = mieqNumEnqueued q"
  by (simp add: contents_def)

lemma index_inj: "a < n \<Longrightarrow> i < n \<Longrightarrow> j < n \<Longrightarrow> (a + i) mod n = (a + j) mod n \<Longrightarrow> i = j" for a i j n :: nat
  using ring_mod [of a n i] ring_mod [of a n j] by (auto split: if_splits)

text \<open>Filling the bucket after the first \<open>m\<close> events makes it the last one.\<close>

lemma put_contents:
  assumes wf: "wf_queue q" and m: "m \<le> mieqNumEnqueued q" "m + 1 < nevents q" and pos: "pos = (q_head q + m) mod nevents q"
  shows "\<exists>q'. put pos motion pDev scr e q = Some (not_before (lastEventTime q) e, q') \<and> wf_queue q' \<and>
    contents q' = take m (contents q) @ [(e, scr, pDev)] \<and> lastMotion q' = motion \<and> lastEventTime q' = ev_time e \<and>
    nevents q' = nevents q \<and> dropped q' = dropped q"
proof -
  let ?n = "nevents q" and ?b = "buckets q ! pos"
  let ?b' = "?b\<lparr>ev_screen := scr, ev_pdev := pDev\<rparr>"
  let ?q = "q\<lparr>cells := (cells q)(evp ?b \<mapsto> e), lastEventTime := ev_time e, buckets := (buckets q)[pos := ?b'],
             lastMotion := motion, q_tail := (pos + 1) mod ?n\<rparr>"
  have h: "q_head q < ?n" "q_tail q < ?n" and d: "distinct (map evp (buckets q))"
    and c: "\<And>b. b \<in> set (buckets q) \<Longrightarrow> cells q (evp b) \<noteq> None \<and> evp b < next_cell q"
    using wf by (auto simp: wf_queue_def list_all_iff)
  have p: "pos < ?n" unfolding pos by (rule mod_less_divisor) (use h in linarith)
  then have b: "cells q (evp ?b) \<noteq> None" using c [of ?b] by simp
  have ok: "put pos motion pDev scr e q = Some (not_before (lastEventTime q) e, ?q)" using p b by (auto simp: put_def rd_def)
  have t: "q_tail ?q = (q_head ?q + (m + 1)) mod nevents ?q" by (simp add: pos mod_Suc_eq)
  have num: "mieqNumEnqueued ?q = m + 1" by (rule num_enqueued) (use h m t in simp_all)
  have evps: "map evp (buckets ?q) = map evp (buckets q)"
    by (simp add: map_update) (metis length_map list_update_id nth_map p)
  have "cells ?q (evp x) \<noteq> None \<and> evp x < next_cell ?q" if "x \<in> set (buckets ?q)" for x
  proof -
    have "evp x \<in> set (map evp (buckets ?q))" using that by simp
    then have "evp x \<in> set (map evp (buckets q))" unfolding evps .
    then obtain y where "y \<in> set (buckets q)" "evp y = evp x" by auto
    then show ?thesis using c [of y] by auto
  qed
  then have "list_all (\<lambda>b. cells ?q (evp b) \<noteq> None \<and> evp b < next_cell ?q) (buckets ?q)" by (simp only: list_all_iff) blast
  moreover have "(pos + 1) mod ?n < ?n" by (rule mod_less_divisor) (use h in linarith)
  ultimately have w: "wf_queue ?q" using wf h evps by (simp add: wf_queue_def)
  have ent: "entry ?q (buckets ?q ! ((q_head q + i) mod ?n)) = (if i = m then (e, scr, pDev) else entry q (buckets q ! ((q_head q + i) mod ?n)))"
    if i: "i \<le> m" for i
  proof (cases "i = m")
    case False
    let ?j = "(q_head q + i) mod ?n"
    have j: "?j < ?n" by (rule mod_less_divisor) (use h in linarith)
    moreover have "?j \<noteq> pos" using h i m False pos index_inj [of "q_head q" ?n i m] by auto
    ultimately have "evp (buckets q ! ?j) \<noteq> evp ?b" using d p by (metis length_map nth_eq_iff_index_eq nth_map)
    with \<open>?j \<noteq> pos\<close> False show ?thesis by (simp add: entry_def)
  qed (use p pos in \<open>simp add: entry_def\<close>)
  have "contents ?q = map (\<lambda>i. entry ?q (buckets ?q ! ((q_head q + i) mod ?n))) [0..<m + 1]" unfolding contents_def num by simp
  also have "\<dots> = map (\<lambda>i. if i = m then (e, scr, pDev) else entry q (buckets q ! ((q_head q + i) mod ?n))) [0..<m + 1]"
    by (rule map_cong [OF refl], rule ent) auto
  also have "\<dots> = take m (contents q) @ [(e, scr, pDev)]" using m(1) by (simp add: contents_def take_map)
  finally show ?thesis using ok w by (intro exI [of _ ?q]) simp
qed

text \<open>Growing keeps what the ring holds.\<close>

lemma grow_contents:
  assumes wf: "wf_queue q" and n: "nevents q \<le> 2 ^ 30" and ok: "mieqGrowQueue A (2 * nevents q) q = (True, q')"
  shows "wf_queue q' \<and> contents q' = contents q \<and> nevents q' = 2 * nevents q \<and> mieqNumEnqueued q' = mieqNumEnqueued q \<and>
    lastMotion q' = lastMotion q \<and> lastEventTime q' = lastEventTime q \<and> dropped q' = dropped q \<and> q_head q' = 0"
proof -
  let ?n = "nevents q" and ?h = "q_head q" and ?m = "mieqNumEnqueued q"
  have h: "?h < ?n" "q_tail q < ?n" and d: "distinct (map evp (buckets q))"
    and c: "\<And>b. b \<in> set (buckets q) \<Longrightarrow> cells q (evp b) \<noteq> None \<and> evp b < next_cell q"
    using wf by (auto simp: wf_queue_def list_all_iff)
  define rot where "rot = drop ?h (buckets q) @ take ?h (buckets q)"
  define new where "new = map (\<lambda>i. \<lparr>evp = next_cell q + i, ev_screen = None, ev_pdev = None\<rparr>) [0..<?n]"
  have q': "q' = q\<lparr>q_tail := ?m, q_head := 0, buckets := rot @ new,
      cells := (\<lambda>a. if next_cell q \<le> a \<and> a < next_cell q + ?n then Some blank_event else cells q a), next_cell := next_cell q + ?n\<rparr>"
    using ok by (auto simp: mieqGrowQueue_def Let_def rot_def new_def split: if_splits)
  have lr: "length rot = ?n" "length new = ?n" using h by (simp_all add: rot_def new_def)
  have n2: "nevents q' = 2 * ?n" using lr by (simp add: q')
  have m: "?m < ?n" "q_tail q = (?h + ?m) mod ?n" using num_enqueued_tail [OF h] .
  have "0 < ?n" using h by linarith
  with m(1) n2 have "?m < nevents q'" "0 < nevents q'" by simp_all
  then have num: "mieqNumEnqueued q' = ?m" by (intro num_enqueued) (simp_all add: q')
  have set_rot: "set rot = set (buckets q)" unfolding rot_def by (metis append_take_drop_id set_append sup_commute)
  have old: "cells q' (evp b) = cells q (evp b)" if "b \<in> set (buckets q)" for b using c [OF that] by (simp add: q')
  have nth: "rot ! i = buckets q ! ((?h + i) mod ?n)" if "i < ?n" for i
    using that h by (auto simp: rot_def nth_append ring_mod add.commute)
  have ent: "entry q' (buckets q' ! ((0 + i) mod nevents q')) = entry q (buckets q ! ((?h + i) mod ?n))" if "i < ?m" for i
  proof -
    have i: "i < ?n" using that m by simp
    then have b: "buckets q' ! ((0 + i) mod nevents q') = buckets q ! ((?h + i) mod ?n)"
      using nth [OF i] lr n2 by (simp add: q' nth_append)
    have "buckets q ! ((?h + i) mod ?n) \<in> set (buckets q)" using nth [OF i] lr i set_rot nth_mem by metis
    then show ?thesis unfolding b entry_def by (simp add: old)
  qed
  have con: "contents q' = contents q"
    unfolding contents_def num using ent by (auto simp: q' cong: map_cong)
  have "distinct (map evp rot)" using d unfolding rot_def
    by (metis append_take_drop_id distinct_append inf_commute map_append)
  moreover have "distinct (map evp new)" by (simp add: new_def distinct_map inj_on_def comp_def)
  moreover have "set (map evp rot) \<inter> set (map evp new) = {}" using c set_rot by (fastforce simp: new_def)
  ultimately have dd: "distinct (map evp (buckets q'))" by (simp add: q')
  have "cells q' (evp b) \<noteq> None \<and> evp b < next_cell q'" if "b \<in> set (buckets q')" for b
    using that c set_rot by (fastforce simp: q' new_def)
  then have "list_all (\<lambda>b. cells q' (evp b) \<noteq> None \<and> evp b < next_cell q') (buckets q')" by (simp only: list_all_iff) blast
  moreover have "\<exists>k. 1 \<le> k \<and> k \<le> 31 \<and> nevents q' = 2 ^ k"
  proof -
    obtain k where k: "?n = 2 ^ k" using wf by (auto simp: wf_queue_def)
    with n have "(2 :: nat) ^ k \<le> 2 ^ 30" by simp
    then have "k \<le> 30" by (rule power_le_imp_le_exp [rotated]) simp
    with k n2 show ?thesis by (intro exI [of _ "Suc k"]) simp
  qed
  moreover have "buckets q \<noteq> []" using h by auto
  ultimately have "wf_queue q'" using dd m n2 by (simp add: wf_queue_def q')
  with con n2 num show ?thesis by (simp add: q')
qed

lemma wf_queueD:
  assumes "wf_queue q"
  shows "q_head q < nevents q" "q_tail q < nevents q" "mieqNumEnqueued q < nevents q"
    "q_tail q = (q_head q + mieqNumEnqueued q) mod nevents q"
proof -
  show h: "q_head q < nevents q" "q_tail q < nevents q" using assms by (simp_all add: wf_queue_def)
  show "mieqNumEnqueued q < nevents q" "q_tail q = (q_head q + mieqNumEnqueued q) mod nevents q" using num_enqueued_tail [OF h] .
qed

lemma wf_queue_two: "wf_queue q \<Longrightarrow> 1 < nevents q"
  unfolding wf_queue_def by (metis less_le_trans one_less_numeral_iff power_one_right power_increasing one_le_numeral semiring_norm(76))

lemma empty_iff:
  assumes "wf_queue q"
  shows "q_tail q = q_head q \<longleftrightarrow> mieqNumEnqueued q = 0"
proof -
  note w = wf_queueD [OF assms]
  have "(q_head q + mieqNumEnqueued q) mod nevents q = (q_head q + 0) mod nevents q \<longleftrightarrow> mieqNumEnqueued q = 0"
    using index_inj [OF w(1,3), of 0] w(1) by (metis add_0_right gr_zeroI less_zeroE)
  then show ?thesis using w by simp
qed

text \<open>The index before the tail is computed in 32 bits: \<^verbatim>\<open>(0u - 1) % nevents\<close> is the last bucket because the number of buckets
  divides \<open>2 ^ 32\<close>.\<close>

lemma pred_mod: "a < n \<Longrightarrow> 0 < k \<Longrightarrow> k < n \<Longrightarrow> (a + k) mod n \<noteq> 0 \<Longrightarrow> (a + k) mod n - 1 = (a + (k - 1)) mod n" for a k n :: nat
  using ring_mod [of a n k] ring_mod [of a n "k - 1"] by (auto split: if_splits)

lemma pred_mod_0: "a < n \<Longrightarrow> 0 < k \<Longrightarrow> k < n \<Longrightarrow> (a + k) mod n = 0 \<Longrightarrow> (a + (k - 1)) mod n = n - 1" for a k n :: nat
  using ring_mod [of a n k] ring_mod [of a n "k - 1"] by (auto split: if_splits)

lemma before_tail:
  assumes wf: "wf_queue q" and ne: "mieqNumEnqueued q \<noteq> 0"
  shows "unat (word_of_nat (q_tail q) - 1 :: u32) mod nevents q = (q_head q + (mieqNumEnqueued q - 1)) mod nevents q"
proof -
  note w = wf_queueD [OF wf]
  obtain k where k: "k \<le> 31" "nevents q = 2 ^ k" using wf by (auto simp: wf_queue_def)
  have n32: "nevents q dvd 2 ^ 32" "nevents q \<le> 2 ^ 31" 
    unfolding k(2) using k(1) by (auto intro: le_imp_power_dvd power_increasing simp del: power_numeral)
  have m: "mieqNumEnqueued q - 1 < nevents q" using w(3) by simp
  show ?thesis
  proof (cases "q_tail q = 0")
    case True
    then have "(q_head q + (mieqNumEnqueued q - 1)) mod nevents q = nevents q - 1"
      using pred_mod_0 [OF w(1) _ w(3)] w(4) ne by simp
    moreover have "(2 ^ 32 - 1) mod nevents q = nevents q - 1"
    proof -
      obtain c where "2 ^ 32 = nevents q * c" using n32(1) by (rule dvdE)
      moreover from this obtain c' where "c = Suc c'" by (cases c) auto
      ultimately have e: "2 ^ 32 - 1 = (nevents q - 1) + nevents q * c'" using w(1) by simp
      show ?thesis unfolding e mod_mult_self2 by (rule mod_less) (use w(1) in linarith)
    qed
    moreover have "unat (- 1 :: u32) = 2 ^ 32 - 1" by (simp add: unsigned_minus_1_eq_mask mask_eq_exp_minus_1)
    ultimately show ?thesis using True by simp
  next
    case False
    have "q_tail q < 2 ^ 32" using w(2) n32(2) by simp
    then have u: "unat (word_of_nat (q_tail q) :: u32) = q_tail q" by (simp add: unsigned_of_nat take_bit_nat_eq_self)
    have "unat (word_of_nat (q_tail q) - 1 :: u32) = q_tail q - 1"
      using False u by (subst unat_minus_one) (auto simp: unat_eq_0 [symmetric])
    moreover have "q_tail q - 1 = (q_head q + (mieqNumEnqueued q - 1)) mod nevents q"
      using pred_mod [OF w(1) _ w(3)] w(4) ne False by simp
    ultimately show ?thesis using w(2) by simp
  qed
qed

section \<open>A queue of events\<close>

text \<open>The ring as a list with the number of the device whose motion came last: a motion of the same device replaces it.\<close>

definition abs_enqueue :: "nat option \<Rightarrow> nat option \<Rightarrow> ievent \<Rightarrow> queued list \<times> nat \<Rightarrow> queued list \<times> nat" where
  "abs_enqueue pDev scr e s =
     (let motion = (if ev_type e = ET_Motion then the pDev else 0); x = (e, if pDev = None then None else scr, pDev) in
      (if motion \<noteq> 0 \<and> motion = snd s \<and> fst s \<noteq> [] then butlast (fst s) @ [x] else fst s @ [x], motion))"

definition holds :: "event_queue \<Rightarrow> queued list \<times> nat \<Rightarrow> bool" where
  "holds q s = (wf_queue q \<and> contents q = fst s \<and> lastMotion q = snd s)"

definition can_grow :: "grow_env \<Rightarrow> bool" where
  "can_grow A = (array_ok A \<and> (\<forall>i. event_ok A i))"

lemma grow_ok: "wf_queue q \<Longrightarrow> can_grow A \<Longrightarrow> \<exists>q'. mieqGrowQueue A (2 * nevents q) q = (True, q')"
  using wf_queueD(1) [of q] by (auto simp: mieqGrowQueue_def can_grow_def Let_def)

lemma enqueue_holds:
  assumes h: "holds q s" and A: "can_grow A" and n1: "nevents q \<le> 2 ^ 30" and d: "ev_type e = ET_Motion \<longrightarrow> pDev \<noteq> None"
  shows "\<exists>q'. mieqEnqueue A pDev scr e q = Some (not_before (lastEventTime q) e, q') \<and> holds q' (abs_enqueue pDev scr e s) \<and>
    lastEventTime q' = ev_time e \<and> dropped q' = dropped q \<and> nevents q' \<le> 2 * nevents q"
proof -
  let ?m = "mieqNumEnqueued q" and ?mo = "if ev_type e = ET_Motion then the pDev else 0" and ?s = "if pDev = None then None else scr"
  have wf: "wf_queue q" and c: "contents q = fst s" "lastMotion q = snd s" using h by (simp_all add: holds_def)
  note w = wf_queueD [OF wf] and n = n1 wf_queue_two [OF wf]
  have len: "length (fst s) = ?m" using length_contents [of q] c by simp
  have g: "\<not> (ev_type e = ET_Motion \<and> pDev = None)" using d by blast
  have appended: "abs_enqueue pDev scr e s = (fst s @ [(e, ?s, pDev)], ?mo)"
    if "\<not> (?mo \<noteq> 0 \<and> ?mo = lastMotion q \<and> q_tail q \<noteq> q_head q)"
    using that c(2) len empty_iff [OF wf] unfolding abs_enqueue_def Let_def by auto
  consider (merge) "?mo \<noteq> 0" "?mo = lastMotion q" "q_tail q \<noteq> q_head q"
    | (full) "\<not> (?mo \<noteq> 0 \<and> ?mo = lastMotion q \<and> q_tail q \<noteq> q_head q)" "?m + 1 = nevents q"
    | (room) "\<not> (?mo \<noteq> 0 \<and> ?mo = lastMotion q \<and> q_tail q \<noteq> q_head q)" "?m + 1 \<noteq> nevents q" by blast
  then show ?thesis
  proof cases
    case merge
    then have ne: "?m \<noteq> 0" using empty_iff [OF wf] by simp
    have "?m - 1 \<le> ?m" "?m - 1 + 1 < nevents q" using w(3) ne by simp_all
    from put_contents [OF wf this before_tail [OF wf ne], of ?mo pDev ?s e]
    obtain q' where q': "put (unat (word_of_nat (q_tail q) - 1 :: u32) mod nevents q) ?mo pDev ?s e q = Some (not_before (lastEventTime q) e, q')"
        "wf_queue q'" "contents q' = take (?m - 1) (contents q) @ [(e, ?s, pDev)]" "lastMotion q' = ?mo" "lastEventTime q' = ev_time e"
        "nevents q' = nevents q" "dropped q' = dropped q" by blast
    have e: "mieqEnqueue A pDev scr e q = Some (not_before (lastEventTime q) e, q')"
      unfolding mieqEnqueue_def Let_def if_not_P [OF g] using merge q'(1) by (simp only: if_True HOL.simp_thms)
    have cond: "?mo \<noteq> 0 \<and> ?mo = snd s \<and> fst s \<noteq> []" using merge(1,2) c(2) len ne by auto
    have ab: "abs_enqueue pDev scr e s = (butlast (fst s) @ [(e, ?s, pDev)], ?mo)"
      unfolding abs_enqueue_def Let_def if_P [OF cond] ..
    show ?thesis using e ab q' c(1) len n by (intro exI [of _ q']) (simp add: holds_def butlast_conv_take)
  next
    case room
    have lt: "?m + 1 < nevents q" using w(3) room(2) by simp
    have "mieqEnqueue A pDev scr e q = put (q_tail q) ?mo pDev ?s e q" using g room unfolding mieqEnqueue_def Let_def by auto
    moreover from put_contents [OF wf order_refl lt w(4), of ?mo pDev ?s e]
    obtain q' where q': "put (q_tail q) ?mo pDev ?s e q = Some (not_before (lastEventTime q) e, q')"
        "wf_queue q'" "contents q' = take ?m (contents q) @ [(e, ?s, pDev)]" "lastMotion q' = ?mo" "lastEventTime q' = ev_time e"
        "nevents q' = nevents q" "dropped q' = dropped q" by blast
    moreover have "abs_enqueue pDev scr e s = (fst s @ [(e, ?s, pDev)], ?mo)" using appended [OF room(1)] .
    ultimately show ?thesis using c(1) len n by (intro exI [of _ q']) (simp add: holds_def)
  next
    case full
    obtain q1 where q1: "mieqGrowQueue A (2 * nevents q) q = (True, q1)" using grow_ok [OF wf A] by blast
    note gr = grow_contents [OF wf n(1) q1]
    have wf1: "wf_queue q1" using gr by blast
    have lt: "mieqNumEnqueued q1 + 1 < nevents q1" using gr full(2) n(2) by linarith
    have "mieqEnqueue A pDev scr e q = put (q_tail q1) ?mo pDev ?s e q1" using g full q1 unfolding mieqEnqueue_def Let_def by auto
    moreover from put_contents [OF wf1 order_refl lt wf_queueD(4) [OF wf1], of ?mo pDev ?s e]
    obtain q' where q': "put (q_tail q1) ?mo pDev ?s e q1 = Some (not_before (lastEventTime q1) e, q')"
        "wf_queue q'" "contents q' = take (mieqNumEnqueued q1) (contents q1) @ [(e, ?s, pDev)]" "lastMotion q' = ?mo" "lastEventTime q' = ev_time e"
        "nevents q' = nevents q1" "dropped q' = dropped q1" by blast
    moreover have "abs_enqueue pDev scr e s = (fst s @ [(e, ?s, pDev)], ?mo)" using appended [OF full(1)] .
    moreover have "1 < nevents q'" "nevents q' \<le> 2 * nevents q" using gr q'(6) n(2) by linarith+
    ultimately show ?thesis using c(1) len gr by (intro exI [of _ q']) (simp add: holds_def)
  qed
qed

text \<open>Taking an event: what \<^verbatim>\<open>mieqProcessInputEvents\<close> does under the lock.\<close>

definition take_event :: "event_queue \<Rightarrow> (queued \<times> event_queue) option" where
  "take_event q = (case rd (buckets q) (q_head q) of
       None \<Rightarrow> None
     | Some b \<Rightarrow>
         if cells q (evp b) = None then None
         else Some (entry q b, q\<lparr>q_head := (q_head q + 1) mod nevents q\<rparr>))"

lemma take_holds:
  assumes h: "holds q (x # xs, lm)"
  shows "\<exists>q'. take_event q = Some (x, q') \<and> holds q' (xs, lm) \<and> dropped q' = dropped q"
proof -
  let ?n = "nevents q" and ?q = "q\<lparr>q_head := (q_head q + 1) mod nevents q\<rparr>"
  have wf: "wf_queue q" and c: "contents q = x # xs" "lastMotion q = lm" using h by (simp_all add: holds_def)
  note w = wf_queueD [OF wf]
  have len: "mieqNumEnqueued q = Suc (length xs)" using length_contents [of q] c(1) by simp
  have "buckets q ! q_head q \<in> set (buckets q)" using w(1) by simp
  then have "cells q (evp (buckets q ! q_head q)) \<noteq> None" using wf by (auto simp: wf_queue_def list_all_iff)
  moreover have "entry q (buckets q ! q_head q) = x"
  proof -
    have "contents q ! 0 = entry q (buckets q ! ((q_head q + 0) mod ?n))" using len unfolding contents_def by (subst nth_map) (simp_all del: upt_Suc)
    then show ?thesis using c(1) w(1) by simp
  qed
  ultimately have t: "take_event q = Some (x, ?q)" using w(1) by (auto simp: take_event_def rd_def)
  have hd: "(q_head q + 1) mod ?n < ?n" by (rule mod_less_divisor) (use w(1) in linarith)
  have "(q_head q + mieqNumEnqueued q) mod ?n = ((q_head q + 1) mod ?n + length xs) mod ?n" by (simp add: len mod_add_left_eq)
  then have num: "mieqNumEnqueued ?q = length xs" by (intro num_enqueued) (use hd w len in simp_all)
  have "contents ?q = map (\<lambda>i. entry q (buckets q ! ((q_head q + Suc i) mod ?n))) [0..<length xs]"
    unfolding contents_def num by (auto simp: entry_def mod_add_left_eq)
  also have "\<dots> = tl (contents q)" unfolding contents_def len by (simp add: map_upt_Suc del: upt_Suc)
  finally have "contents ?q = xs" using c(1) by simp
  moreover have "wf_queue ?q" using wf hd by (simp add: wf_queue_def)
  ultimately show ?thesis using t c(2) by (intro exI [of _ ?q]) (simp add: holds_def)
qed

datatype queue_op = Enqueue grow_env "nat option" "nat option" ievent | Dequeue

fun ring_do :: "queue_op \<Rightarrow> event_queue \<Rightarrow> event_queue option" where
  "ring_do (Enqueue A pDev scr e) q = map_option snd (mieqEnqueue A pDev scr e q)"
| "ring_do Dequeue q = (if q_head q \<noteq> q_tail q then map_option snd (take_event q) else Some q)"

fun queue_spec :: "queue_op \<Rightarrow> queued list \<times> nat \<Rightarrow> queued list \<times> nat" where
  "queue_spec (Enqueue A pDev scr e) s = abs_enqueue pDev scr e s"
| "queue_spec Dequeue s = (tl (fst s), snd s)"

fun ring_ok :: "queue_op \<Rightarrow> event_queue \<Rightarrow> bool" where
  "ring_ok (Enqueue A pDev scr e) q = (can_grow A \<and> nevents q \<le> 2 ^ 30 \<and> (ev_type e = ET_Motion \<longrightarrow> pDev \<noteq> None))"
| "ring_ok Dequeue q = True"

interpretation ring_queue: data_refinement holds ring_ok ring_do queue_spec
proof
  fix q s l assume h: "holds q s" and ok: "ring_ok l q"
  show "\<exists>q'. ring_do l q = Some q' \<and> holds q' (queue_spec l s)"
  proof (cases l)
    case (Enqueue A pDev scr e)
    then show ?thesis using enqueue_holds [OF h, of A e pDev scr] ok by auto
  next
    case Dequeue
    have wf: "wf_queue q" "contents q = fst s" using h by (simp_all add: holds_def)
    show ?thesis
    proof (cases "fst s")
      case Nil
      then have "q_head q = q_tail q" using empty_iff [OF wf(1)] length_contents [of q] wf(2) by simp
      then show ?thesis using Dequeue Nil h by (cases s) (simp add: holds_def)
    next
      case (Cons x xs)
      then have "q_head q \<noteq> q_tail q" using empty_iff [OF wf(1)] length_contents [of q] wf(2) by auto
      moreover obtain q' where "take_event q = Some (x, q')" "holds q' (xs, snd s)"
        using Cons h take_holds [of q x xs "snd s"] by (cases s) auto
      ultimately show ?thesis using Dequeue Cons by simp
    qed
  qed
qed

section \<open>Properties of the ring\<close>

lemma init_holds:
  assumes "can_grow A"
  shows "\<exists>q. mieqInit A now = Some q \<and> holds q ([], 0) \<and> nevents q = QUEUE_INITIAL_SIZE"
proof -
  let ?q = "\<lparr>q_head = 0, q_tail = 0, lastEventTime = now, lastMotion = 0,
      buckets = map (\<lambda>i. \<lparr>evp = i, ev_screen = None, ev_pdev = None\<rparr>) [0..<512], dropped = 0,
      cells = (\<lambda>a. if a < 512 then Some blank_event else None), next_cell = 512\<rparr>"
  have i: "mieqInit A now = Some ?q"
    using assms by (auto simp: mieqInit_def mieqGrowQueue_def can_grow_def mieqNumEnqueued_def QUEUE_INITIAL_SIZE_def Let_def)
  have n: "mieqNumEnqueued ?q = 0" by (simp add: mieqNumEnqueued_def)
  have "\<exists>k. 1 \<le> k \<and> k \<le> 31 \<and> (512 :: nat) = 2 ^ k" by (intro exI [of _ 9]) simp
  moreover have "distinct (map evp (buckets ?q))" by (simp add: distinct_map inj_on_def comp_def)
  ultimately have "wf_queue ?q" by (simp add: wf_queue_def list_all_iff)
  then show ?thesis using i n by (simp add: holds_def contents_def QUEUE_INITIAL_SIZE_def)
qed

text \<open>C10. The ring of buckets is a queue: whatever sequence of events is enqueued and taken, the ring holds the events in
  the order in which they came, except that a motion replaces the motion of the same device right before it; the ring
  grows when it is full and nothing is overwritten or lost.\<close>

theorem ring_queue_refines:
  assumes "holds q s" "run_ok ring_ok ring_do ls q"
  shows "\<exists>q'. run_ops ring_do ls q = Some q' \<and> holds q' (fold queue_spec ls s)"
  by (rule ring_queue.run_refines [OF assms])

definition rich :: grow_env where "rich = \<lparr>array_ok = True, event_ok = (\<lambda>i. True)\<rparr>"

lemma rich_grows: "can_grow rich"
  by (simp add: can_grow_def rich_def)

definition sample_motion :: "u32 \<Rightarrow> ievent" where
  "sample_motion t = blank_event\<lparr>ev_type := ET_Motion, ev_time := t, ev_device := 5\<rparr>"

definition sample_key :: ievent where
  "sample_key = blank_event\<lparr>ev_type := ET_KeyPress, ev_detail := 38\<rparr>"

theorem ring_queue_refines_witness:
  "\<exists>q q'. mieqInit rich 7 = Some q \<and>
     run_ops ring_do [Enqueue rich (Some 5) None (sample_motion 1), Enqueue rich (Some 5) None (sample_motion 2), Enqueue rich (Some 6) None sample_key, Dequeue] q = Some q' \<and>
     contents q' = [(sample_key, None, Some 6)]"
proof -
  let ?ls = "[Enqueue rich (Some 5) None (sample_motion 1), Enqueue rich (Some 5) None (sample_motion 2), Enqueue rich (Some 6) None sample_key, Dequeue]"
  obtain q where q: "mieqInit rich 7 = Some q" "holds q ([], 0)" "nevents q = 512"
    using init_holds [OF rich_grows] by (auto simp: QUEUE_INITIAL_SIZE_def)
  have step: "\<exists>q2. ring_do (Enqueue rich (Some d) None e) q1 = Some q2 \<and> holds q2 (abs_enqueue (Some d) None e s) \<and> nevents q2 \<le> 2 * nevents q1"
    if "holds q1 s" "nevents q1 \<le> 2 ^ 30" for q1 s d e
    using enqueue_holds [OF that(1) rich_grows that(2), of e "Some d" None] by auto
  obtain q1 where q1: "ring_do (?ls ! 0) q = Some q1" "holds q1 (abs_enqueue (Some 5) None (sample_motion 1) ([], 0))" "nevents q1 \<le> 1024"
    using step [OF q(2), of 5 "sample_motion 1"] q(3) by auto
  obtain q2 where q2: "ring_do (?ls ! 1) q1 = Some q2" "nevents q2 \<le> 2048"
    using step [OF q1(2), of 5 "sample_motion 2"] q1(3) by auto
  have "run_ok ring_ok ring_do ?ls q"
    using q(3) q1 q2 rich_grows by (auto simp del: ring_do.simps split: option.splits)
  from ring_queue_refines [OF q(2) this] obtain q' where "run_ops ring_do ?ls q = Some q'" "holds q' (fold queue_spec ?ls ([], 0))" by blast
  then show ?thesis using q(1)
    by (intro exI conjI) (assumption | simp add: holds_def abs_enqueue_def sample_motion_def sample_key_def Let_def blank_event_def)+
qed

text \<open>An event that is older than the last one is queued with its own time, which becomes the time of the last event:
  the correction that is to keep times from running backwards is applied to the event of the caller after it has been
  copied.\<close>

theorem event_times_run_backwards:
  assumes "holds q s" "can_grow A" "nevents q \<le> 2 ^ 30" "ev_type e = ET_Motion \<longrightarrow> pDev \<noteq> None"
    and "ev_time e < lastEventTime q"
  shows "\<exists>e' q'. mieqEnqueue A pDev scr e q = Some (e', q') \<and> lastEventTime q' < lastEventTime q \<and> ev_time (fst (last (contents q'))) = ev_time e"
proof -
  obtain q' where q': "mieqEnqueue A pDev scr e q = Some (not_before (lastEventTime q) e, q')" "holds q' (abs_enqueue pDev scr e s)"
      "lastEventTime q' = ev_time e"
    using enqueue_holds [OF assms(1-3), of e pDev scr] assms(4) by blast
  have "last (contents q') = (e, if pDev = None then None else scr, pDev)"
    using q'(2) by (auto simp: holds_def abs_enqueue_def Let_def)
  with q' assms(5) show ?thesis by auto
qed

theorem event_times_run_backwards_witness:
  "\<exists>q e' q'. mieqInit rich 100 = Some q \<and> mieqEnqueue rich (Some 5) None (sample_motion 50) q = Some (e', q') \<and>
     lastEventTime q' < lastEventTime q \<and> ev_time (fst (last (contents q'))) = 50"
proof -
  obtain q where q: "mieqInit rich 100 = Some q" "holds q ([], 0)" "nevents q = 512"
    using init_holds [OF rich_grows] by (auto simp: QUEUE_INITIAL_SIZE_def)
  have "lastEventTime q = 100" using q(1) by (auto simp: mieqInit_def mieqGrowQueue_def Let_def split: if_splits)
  with event_times_run_backwards [OF q(2) rich_grows, of "sample_motion 50" "Some 5" None] q show ?thesis
    by (auto simp: sample_motion_def)
qed

text \<open>When a full queue cannot allocate the event of a new bucket, the events of the queue itself are freed: the new
  event is counted as dropped and the queue goes on, but the next event that is taken is read from freed memory.\<close>

theorem failed_growth_frees_queue:
  assumes wf: "wf_queue q" and full: "mieqNumEnqueued q + 1 = nevents q" and e: "ev_type e \<noteq> ET_Motion"
    and A: "array_ok A" "nevents q \<le> i" "i < 2 * nevents q" "\<not> event_ok A i"
  shows "\<exists>q'. mieqEnqueue A pDev scr e q = Some (e, q') \<and> dropped q' = dropped q + 1 \<and> mieqNumEnqueued q' = mieqNumEnqueued q \<and> take_event q' = None"
proof -
  note w = wf_queueD [OF wf]
  let ?q = "q\<lparr>cells := (\<lambda>a. if a \<in> set (map evp (buckets q)) then None else cells q a)\<rparr>"
  have n: "\<not> 2 * nevents q \<le> nevents q" "\<exists>i\<in>set [nevents q..<2 * nevents q]. \<not> event_ok A i" using w(1) A by auto
  then have "mieqGrowQueue A (2 * nevents q) q = (False, ?q)" unfolding mieqGrowQueue_def using A(1) by simp
  then have "mieqEnqueue A pDev scr e q = Some (e, ?q\<lparr>dropped := dropped q + 1\<rparr>)"
    using e full by (simp add: mieqEnqueue_def)
  moreover have "take_event (?q\<lparr>dropped := dropped q + 1\<rparr>) = None" using w(1) by (auto simp: take_event_def rd_def)
  ultimately show ?thesis by (intro exI [of _ "?q\<lparr>dropped := dropped q + 1\<rparr>"]) (simp add: mieqNumEnqueued_def Let_def)
qed

definition full_queue :: event_queue where
  "full_queue = \<lparr>q_head = 0, q_tail = 1, lastEventTime = 0, lastMotion = 0,
     buckets = [\<lparr>evp = 0, ev_screen = None, ev_pdev = Some 5\<rparr>, \<lparr>evp = 1, ev_screen = None, ev_pdev = None\<rparr>], dropped = 0,
     cells = [0 \<mapsto> sample_motion 1, 1 \<mapsto> blank_event], next_cell = 2\<rparr>"

lemma full_queue_wf: "wf_queue full_queue" "mieqNumEnqueued full_queue + 1 = nevents full_queue"
  by (auto simp: wf_queue_def full_queue_def mieqNumEnqueued_def intro!: exI [of _ 1])

theorem failed_growth_frees_queue_witness:
  "\<exists>q'. mieqEnqueue \<lparr>array_ok = True, event_ok = (\<lambda>i. i < 3)\<rparr> None None sample_key full_queue = Some (sample_key, q') \<and> take_event q' = None"
  using failed_growth_frees_queue [OF full_queue_wf, of sample_key "\<lparr>array_ok = True, event_ok = (\<lambda>i. i < 3)\<rparr>" 3 None None]
  by (auto simp: sample_key_def full_queue_def)

text \<open>The queue grows past the size that the code calls its maximum.\<close>

theorem grows_past_maximum:
  assumes "wf_queue q" "nevents q = QUEUE_MAXIMUM_SIZE" "mieqNumEnqueued q + 1 = nevents q" "can_grow A" "ev_type e \<noteq> ET_Motion"
  shows "\<exists>e' q'. mieqEnqueue A pDev scr e q = Some (e', q') \<and> QUEUE_MAXIMUM_SIZE < nevents q'"
proof -
  obtain q1 where q1: "mieqGrowQueue A (2 * nevents q) q = (True, q1)" using grow_ok [OF assms(1,4)] by blast
  have g: "wf_queue q1" "nevents q1 = 8192" "mieqNumEnqueued q1 + 1 < nevents q1"
    using grow_contents [OF assms(1) _ q1] assms(2,3) by (auto simp: QUEUE_MAXIMUM_SIZE_def)
  have "mieqEnqueue A pDev scr e q = put (q_tail q1) 0 pDev (if pDev = None then None else scr) e q1"
    using assms(3,5) q1 by (simp add: mieqEnqueue_def)
  with put_contents [OF g(1) order_refl g(3) wf_queueD(4) [OF g(1)], of 0 pDev "if pDev = None then None else scr" e] g(2)
  show ?thesis by (auto simp: QUEUE_MAXIMUM_SIZE_def)
qed

end
