(* ===== verification/Mi_Process.thy ===== *)
theory Mi_Process
  imports Mi_Queue
begin

text \<open>
  Emptying the event queue (\<^verbatim>\<open>mieqProcessInputEvents\<close> and what it calls in \<^verbatim>\<open>mi/mieq.c\<close>): each event goes to its device and, with the
  number and the button of the master, to the master the device is attached to. \<open>process\<close> is what \<^verbatim>\<open>processInputProc\<close> of a
  device, or the handler registered for a type of event, makes of the device hierarchy. The screen saver, DPMS and the
  drawing of the sprite are not part of the model.
\<close>

section \<open>One event\<close>

record delivery =
  hier :: inputInfo
  delivered :: "(nat \<times> ievent) list"
  dequeue_screen :: "nat \<Rightarrow> nat option"
  screen_moves :: "(nat \<times> nat \<times> int \<times> int) list"

type_synonym processor = "nat \<Rightarrow> ievent \<Rightarrow> inputInfo \<Rightarrow> inputInfo"

definition master_kind_of :: "event_type \<Rightarrow> master_kind" where
  "master_kind_of t =
     (if t \<in> {ET_KeyPress, ET_KeyRelease} then THE_KEYBOARD
      else if t \<in> {ET_ButtonPress, ET_ButtonRelease, ET_Motion, ET_ProximityIn, ET_ProximityOut} then THE_POINTER
      else MASTER_ATTACHED)"

definition FixUpEventForMaster :: "dev \<Rightarrow> ievent \<Rightarrow> ievent" where
  "FixUpEventForMaster d e =
     (if ev_type e = ET_ButtonPress \<or> ev_type e = ET_ButtonRelease
      then (case button d of None \<Rightarrow> e | Some b \<Rightarrow> e\<lparr>ev_detail := button_map b (ev_detail e)\<rparr>) else e)"

text \<open>The event for the master, if the device has one; the outer \<open>None\<close> when the master that is asked for does not exist.\<close>

definition CopyGetMasterEvent :: "inputInfo \<Rightarrow> nat \<Rightarrow> dev \<Rightarrow> ievent \<Rightarrow> (nat \<times> ievent) option option" where
  "CopyGetMasterEvent S i d e =
     (if IsMaster d \<or> IsFloating S i d then Some None
      else case GetMaster S i d (master_kind_of (ev_type e)) of
        None \<Rightarrow> None
      | Some m \<Rightarrow> Some (Some (m, FixUpEventForMaster d (e\<lparr>ev_device := m\<rparr>))))"

definition mieqMoveToNewScreen :: "nat \<Rightarrow> nat option \<Rightarrow> ievent \<Rightarrow> delivery \<Rightarrow> delivery" where
  "mieqMoveToNewScreen i scr e D = (case scr of
       None \<Rightarrow> D
     | Some s \<Rightarrow>
         if dequeue_screen D i = Some s then D
         else D\<lparr>dequeue_screen := (dequeue_screen D)(i := Some s),
                screen_moves := screen_moves D @ [(i, s, fst (ev_root e), snd (ev_root e))]\<rparr>)"

definition deliver :: "processor \<Rightarrow> nat \<Rightarrow> ievent \<Rightarrow> delivery \<Rightarrow> delivery" where
  "deliver process i e D = D\<lparr>delivered := delivered D @ [(i, e)], hier := process i e (hier D)\<rparr>"

definition moves_screen :: "ievent \<Rightarrow> bool" where
  "moves_screen e =
     (ev_type e \<in> {ET_Motion, ET_KeyPress, ET_KeyRelease, ET_ButtonPress, ET_ButtonRelease} \<or>
      (ev_type e \<in> {ET_TouchBegin, ET_TouchUpdate, ET_TouchEnd} \<and> pointer_emulated e))"

text \<open>The handler of a type of event, if one is registered, takes the place of \<^verbatim>\<open>processInputProc\<close>; only then an event may have
  no device.\<close>

definition mieqProcessDeviceEvent ::
  "processor \<Rightarrow> event_type set \<Rightarrow> nat option \<Rightarrow> ievent \<Rightarrow> nat option \<Rightarrow> delivery \<Rightarrow> delivery option" where
  "mieqProcessDeviceEvent process handlers pDev e scr D = (case pDev of
       None \<Rightarrow> if ev_type e \<in> handlers then Some (deliver process 0 e D) else None
     | Some i \<Rightarrow> (case dev_store (hier D) i of
         None \<Rightarrow> None
       | Some d \<Rightarrow>
           if \<not> enabled d then Some D
           else
             let D1 = (if ev_type e \<notin> handlers \<and> moves_screen e then mieqMoveToNewScreen i scr e D else D) in
             (case CopyGetMasterEvent (hier D1) i d e of
                None \<Rightarrow> None
              | Some None \<Rightarrow> Some (deliver process i e D1)
              | Some (Some (m, me)) \<Rightarrow>
                  let D2 = D1\<lparr>hier := upd_dev m (\<lambda>md. md\<lparr>lastSlave := Some i\<rparr>) (hier D1)\<rparr>;
                      D3 = deliver process i e D2
                  in (case dev_store (hier D3) i of
                        None \<Rightarrow> None
                      | Some d' \<Rightarrow> Some (if IsFloating (hier D3) i d' then D3 else deliver process m me D3)))))"

section \<open>The queue\<close>

partial_function (option) process_loop ::
  "processor \<Rightarrow> event_type set \<Rightarrow> event_queue \<Rightarrow> delivery \<Rightarrow> (event_queue \<times> delivery) option" where
  "process_loop process handlers q D =
     (if q_head q = q_tail q then Some (q, D)
      else case take_event q of
        None \<Rightarrow> None
      | Some ((e, scr, pDev), q') \<Rightarrow>
          Option.bind (mieqProcessDeviceEvent process handlers pDev e scr D) (process_loop process handlers q'))"

definition mieqProcessInputEvents ::
  "processor \<Rightarrow> event_type set \<Rightarrow> event_queue \<Rightarrow> delivery \<Rightarrow> (event_queue \<times> delivery) option" where
  "mieqProcessInputEvents process handlers q D = process_loop process handlers (q\<lparr>dropped := 0\<rparr>) D"

text \<open>What the loop is to compute: the queued events one after the other.\<close>

fun process_all :: "processor \<Rightarrow> event_type set \<Rightarrow> queued list \<Rightarrow> delivery \<Rightarrow> delivery option" where
  "process_all process handlers [] D = Some D"
| "process_all process handlers ((e, scr, pDev) # xs) D =
     Option.bind (mieqProcessDeviceEvent process handlers pDev e scr D) (process_all process handlers xs)"

lemma process_loop_all:
  assumes "holds q (xs, lm)" and "process_all process handlers xs D = Some D'"
  shows "\<exists>q'. process_loop process handlers q D = Some (q', D') \<and> holds q' ([], lm) \<and> dropped q' = dropped q"
  using assms
proof (induction xs arbitrary: q D)
  case Nil
  then have "q_head q = q_tail q" using empty_iff [of q] length_contents [of q] by (simp add: holds_def)
  then show ?case using Nil by (subst process_loop.simps) simp
next
  case (Cons x xs)
  obtain e scr pDev where x: "x = (e, scr, pDev)" by (cases x)
  have ne: "q_head q \<noteq> q_tail q" using Cons.prems(1) empty_iff [of q] length_contents [of q] by (auto simp: holds_def)
  obtain q1 where q1: "take_event q = Some (x, q1)" "holds q1 (xs, lm)" "dropped q1 = dropped q"
    using take_holds [OF Cons.prems(1)] by blast
  obtain D1 where d1: "mieqProcessDeviceEvent process handlers pDev e scr D = Some D1" "process_all process handlers xs D1 = Some D'"
    using Cons.prems(2) x by (auto simp: bind_eq_Some_conv)
  from Cons.IH [OF q1(2) d1(2)] show ?case
    using ne q1 x d1(1) by (subst process_loop.simps) auto
qed

lemma process_loop_crash:
  assumes "holds q (xs, lm)" and "process_all process handlers xs D = None"
  shows "process_loop process handlers q D = None"
  using assms
proof (induction xs arbitrary: q D)
  case (Cons x xs)
  obtain e scr pDev where x: "x = (e, scr, pDev)" by (cases x)
  have ne: "q_head q \<noteq> q_tail q" using Cons.prems(1) empty_iff [of q] length_contents [of q] by (auto simp: holds_def)
  obtain q1 where q1: "take_event q = Some (x, q1)" "holds q1 (xs, lm)" using take_holds [OF Cons.prems(1)] by blast
  show ?case
  proof (cases "mieqProcessDeviceEvent process handlers pDev e scr D")
    case None
    then show ?thesis using ne q1 x by (subst process_loop.simps) simp
  next
    case (Some D1)
    then have "process_all process handlers xs D1 = None" using Cons.prems(2) x by simp
    then show ?thesis using Cons.IH [OF q1(2)] Some ne q1 x by (subst process_loop.simps) simp
  qed
qed simp

section \<open>Order and completeness\<close>

lemma contents_dropped: "contents (q\<lparr>dropped := k\<rparr>) = contents q"
proof -
  have "mieqNumEnqueued (q\<lparr>dropped := k\<rparr>) = mieqNumEnqueued q" by (simp add: mieqNumEnqueued_def Let_def)
  then show ?thesis by (simp add: contents_def entry_def)
qed

lemma holds_dropped: "holds q s \<Longrightarrow> holds (q\<lparr>dropped := k\<rparr>) s"
  by (simp add: holds_def wf_queue_def contents_dropped)


text \<open>A server with a master pointer, its keyboard and a slave, and its empty delivery.\<close>

definition sample_slave :: dev where
  "sample_slave = (fresh_dev StylusProc)\<lparr>inited := True, enabled := True, master := Some 2, paired := Some 2, sprite := True,
     button := Some \<lparr>numButtons = 3, button_map = (\<lambda>i. if i = 1 then 3 else i), button_labels = [None, None, None]\<rparr>\<rparr>"

definition sample_delivery :: delivery where
  "sample_delivery = \<lparr>hier = \<lparr>devs = [2, 3, 4], off_devs = [],
     dev_store = [2 \<mapsto> (fresh_dev OtherProc)\<lparr>dev_type := MASTER_POINTER, inited := True, enabled := True, paired := Some 3\<rparr>,
       3 \<mapsto> (fresh_dev OtherProc)\<lparr>dev_type := MASTER_KEYBOARD, inited := True, enabled := True, paired := Some 2\<rparr>, 4 \<mapsto> sample_slave],
     numDevices = 3, vc_pointer = 2, vc_keyboard = 3, presence = []\<rparr>, delivered = [], dequeue_screen = (\<lambda>i. None), screen_moves = []\<rparr>"

definition sample_press :: ievent where
  "sample_press = blank_event\<lparr>ev_type := ET_ButtonPress, ev_device := 4, ev_detail := 1\<rparr>"


lemma IsFloating_lastSlave:
  assumes "dev_store S i = Some d"
  shows "IsFloating (upd_dev m (\<lambda>md. md\<lparr>lastSlave := x\<rparr>) S) i d = IsFloating S i d"
  by (auto simp: IsFloating_def GetMaster_def upd_dev_def IsMaster_def split: option.splits)

text \<open>An event of an enabled device that is attached to a master is handed to the device first and to the master
  second; the master sees its own number and the button the device maps the physical button to, and remembers the device.\<close>

theorem slave_then_master:
  assumes d: "dev_store (hier D) i = Some d" "enabled d" and m: "CopyGetMasterEvent (hier D) i d e = Some (Some (m, me))" and mi: "m \<noteq> i"
  shows "\<exists>D'. mieqProcessDeviceEvent (\<lambda>i e S. S) handlers (Some i) e scr D = Some D' \<and> delivered D' = delivered D @ [(i, e), (m, me)] \<and>
    ev_device me = m \<and> (\<forall>md. dev_store (hier D) m = Some md \<longrightarrow> map_option lastSlave (dev_store (hier D') m) = Some (Some i))"
proof -
  let ?D1 = "if ev_type e \<notin> handlers \<and> moves_screen e then mieqMoveToNewScreen i scr e D else D"
  have h: "hier ?D1 = hier D" "delivered ?D1 = delivered D" by (auto simp: mieqMoveToNewScreen_def split: option.splits)
  let ?S = "upd_dev m (\<lambda>md. md\<lparr>lastSlave := Some i\<rparr>) (hier D)"
  have s: "dev_store ?S i = Some d" using d(1) mi by (simp add: upd_dev_def)
  have "\<not> IsFloating (hier D) i d" using m by (auto simp: CopyGetMasterEvent_def split: if_splits option.splits)
  then have f: "\<not> IsFloating ?S i d" using IsFloating_lastSlave [OF d(1)] by simp
  have "ev_device me = m" using m by (auto simp: CopyGetMasterEvent_def FixUpEventForMaster_def split: if_splits option.splits)
  moreover have "\<exists>D'. mieqProcessDeviceEvent (\<lambda>i e S. S) handlers (Some i) e scr D = Some D' \<and> delivered D' = delivered D @ [(i, e), (m, me)] \<and> hier D' = ?S"
    using d m f s h by (simp add: mieqProcessDeviceEvent_def deliver_def Let_def)
  moreover have "map_option lastSlave (dev_store ?S m) = Some (Some i)" if "dev_store (hier D) m = Some md" for md
    using that by (simp add: upd_dev_def)
  ultimately show ?thesis by metis
qed

theorem slave_then_master_witness:
  "\<exists>D'. mieqProcessDeviceEvent (\<lambda>i e S. S) {} (Some 4) sample_press None sample_delivery = Some D' \<and>
     delivered D' = [(4, sample_press), (2, sample_press\<lparr>ev_device := 2, ev_detail := 3\<rparr>)]"
proof -
  have "dev_store (hier sample_delivery) 4 = Some sample_slave" "enabled sample_slave"
    by (simp_all add: sample_delivery_def sample_slave_def)
  moreover have "CopyGetMasterEvent (hier sample_delivery) 4 sample_slave sample_press = Some (Some (2, sample_press\<lparr>ev_device := 2, ev_detail := 3\<rparr>))"
    by (simp add: CopyGetMasterEvent_def IsFloating_def GetMaster_def sample_delivery_def sample_slave_def fresh_dev_def IsMaster_def
        master_kind_of_def sample_press_def FixUpEventForMaster_def)
  ultimately show ?thesis
    using slave_then_master [of sample_delivery 4 sample_slave sample_press 2 "sample_press\<lparr>ev_device := 2, ev_detail := 3\<rparr>" "{}" None]
    by (auto simp: sample_delivery_def)
qed

end
