(* ===== verification/Lorie_Events.thy ===== *)
theory Lorie_Events
  imports Lorie_Axes Mi_Process
begin

text \<open>
  The devices of the program and the event queue together: events are delivered between the requests that switch the
  stylus on and off, a master remembers the device of its last event, and a device is freed while masters and queued
  events may still refer to it.
\<close>

section \<open>Delivery keeps the hierarchy well-formed\<close>

text \<open>Processing an event must leave the administration of the devices alone.\<close>

definition calm :: "processor \<Rightarrow> bool" where
  "calm process = (\<forall>i e S. admin_view (process i e S) = admin_view S)"

lemma calm_deliver: "calm process \<Longrightarrow> admin_view (hier (deliver process i e D)) = admin_view (hier D)"
  by (simp add: calm_def deliver_def)

text \<open>Two states of the hierarchy that differ in what masters remember only.\<close>

definition same_devices :: "inputInfo \<Rightarrow> inputInfo \<Rightarrow> bool" where
  "same_devices S S' =
     (devs S' = devs S \<and> off_devs S' = off_devs S \<and> vc_pointer S' = vc_pointer S \<and> vc_keyboard S' = vc_keyboard S \<and>
      (\<forall>j. stylus_at j S' = stylus_at j S))"

lemma same_devices_refl [simp]: "same_devices S S"
  by (simp add: same_devices_def)

lemma same_devices_trans: "same_devices S S' \<Longrightarrow> same_devices S' S'' \<Longrightarrow> same_devices S S''"
  by (simp add: same_devices_def)

lemma same_devices_view: "admin_view S' = admin_view S \<Longrightarrow> same_devices S S'"
  using stylus_at_view(1) [of S' _ S] by (simp add: same_devices_def admin_view_view)

lemma master_is_master:
  assumes wf: "wf_devices S" and d: "dev_store S i = Some d" "\<not> IsMaster d" and m: "GetMaster S i d k = Some m"
  shows "is_master S m"
proof -
  obtain k0 where k0: "master d = Some k0" using m d(2) by (auto simp: GetMaster_def split: option.splits)
  then have im: "is_master S k0" using wf_dev_ok [OF wf d(1)] by (simp add: dev_ok_def refs_ok_def)
  then obtain md where md: "dev_store S k0 = Some md" "IsMaster md" by (auto simp: is_master_def split: option.splits)
  have "m = k0 \<or> paired md = Some m" using m d(2) k0 md(1) by (auto simp: GetMaster_def split: if_splits)
  moreover have "paired md = Some m \<Longrightarrow> m = k0 \<or> is_master S m" using wf_dev_ok [OF wf md(1)] by (simp add: dev_ok_def refs_ok_def)
  ultimately show ?thesis using im by blast
qed

lemma dev_ok_remember:
  assumes ok: "dev_ok S m md" and md: "IsMaster md" and i: "i \<in> set (devs S)"
  shows "dev_ok S m (md\<lparr>lastSlave := Some i\<rparr>)"
proof -
  let ?md = "md\<lparr>lastSlave := Some i\<rparr>"
  have im: "IsMaster ?md" using md by (simp add: IsMaster_def)
  have f: "master ?md = master md" "paired ?md = paired md" "lastSlave ?md = Some i" "last_slave ?md = last_slave md"
    "enabled ?md = enabled md" "inited ?md = inited md" by simp_all
  show ?thesis using ok i unfolding dev_ok_def refs_ok_def if_P [OF im] if_P [OF md] f by blast
qed

lemma remember_slave:
  assumes wf: "wf_devices S" and i: "i \<in> set (devs S)" and m: "is_master S m"
  shows "wf_devices (upd_dev m (\<lambda>md. md\<lparr>lastSlave := Some i\<rparr>) S) \<and> same_devices S (upd_dev m (\<lambda>md. md\<lparr>lastSlave := Some i\<rparr>) S)"
proof -
  obtain md where md: "dev_store S m = Some md" "IsMaster md" using m by (auto simp: is_master_def split: option.splits)
  let ?md = "md\<lparr>lastSlave := Some i\<rparr>"
  have e: "upd_dev m (\<lambda>md. md\<lparr>lastSlave := Some i\<rparr>) S = set_dev m ?md S" using md(1) by (simp add: upd_dev_def set_dev_def)
  have im: "IsMaster ?md = IsMaster md" by (simp add: IsMaster_def)
  have "dev_ok S m ?md" by (rule dev_ok_remember [OF wf_dev_ok [OF wf md(1)] md(2) i])
  then have "wf_devices (set_dev m ?md S)" using wf_set [OF wf md(1) im] by blast
  moreover have "stylus_at j (set_dev m ?md S) = stylus_at j S" for j
    using md by (cases "j = m") (simp_all add: stylus_at_def set_dev_def IsMaster_def)
  then have "same_devices S (set_dev m ?md S)" by (simp add: same_devices_def) (simp add: set_dev_def)
  ultimately show ?thesis using e by simp
qed

lemma move_screen_hier [simp]: "hier (mieqMoveToNewScreen i scr e D) = hier D"
  by (simp add: mieqMoveToNewScreen_def split: option.splits)

lemma deliver_wf:
  assumes "calm process" "wf_devices (hier D)" "same_devices S (hier D)"
  shows "wf_devices (hier (deliver process i e D)) \<and> same_devices S (hier (deliver process i e D))"
  using calm_deliver [OF assms(1), of i e D] wf_view_imp [OF _ assms(2)] same_devices_trans [OF assms(3)] same_devices_view by blast

lemma process_enabled:
  assumes "dev_store (hier D) i = Some d" "enabled d"
  shows "mieqProcessDeviceEvent process handlers (Some i) e scr D =
    (let D1 = (if ev_type e \<notin> handlers \<and> moves_screen e then mieqMoveToNewScreen i scr e D else D) in
     (case CopyGetMasterEvent (hier D1) i d e of
        None \<Rightarrow> None
      | Some None \<Rightarrow> Some (deliver process i e D1)
      | Some (Some (m, me)) \<Rightarrow>
          let D2 = D1\<lparr>hier := upd_dev m (\<lambda>md. md\<lparr>lastSlave := Some i\<rparr>) (hier D1)\<rparr>;
              D3 = deliver process i e D2
          in (case dev_store (hier D3) i of
                None \<Rightarrow> None
              | Some d' \<Rightarrow> Some (if IsFloating (hier D3) i d' then D3 else deliver process m me D3))))"
  using assms by (simp add: mieqProcessDeviceEvent_def)

lemma process_event_wf:
  assumes c: "calm process" and wf: "wf_devices (hier D)" and p: "mieqProcessDeviceEvent process handlers pDev e scr D = Some D'"
  shows "wf_devices (hier D') \<and> same_devices (hier D) (hier D')"
proof (cases pDev)
  case None
  then show ?thesis using p deliver_wf [OF c wf same_devices_refl, of 0 e] by (auto simp: mieqProcessDeviceEvent_def split: if_splits)
next
  case (Some i)
  then obtain d where d: "dev_store (hier D) i = Some d" using p by (auto simp: mieqProcessDeviceEvent_def split: option.splits)
  show ?thesis
  proof (cases "enabled d")
    case False
    then show ?thesis using p Some d wf by (simp add: mieqProcessDeviceEvent_def)
  next
    case True
    define D1 where "D1 = (if ev_type e \<notin> handlers \<and> moves_screen e then mieqMoveToNewScreen i scr e D else D)"
    have h: "hier D1 = hier D" by (simp add: D1_def)
    have i: "i \<in> set (devs (hier D))" using wf_dev_ok [OF wf d] True by (simp add: dev_ok_def)
    have p': "(case CopyGetMasterEvent (hier D) i d e of None \<Rightarrow> None | Some None \<Rightarrow> Some (deliver process i e D1)
      | Some (Some (m, me)) \<Rightarrow>
          let D3 = deliver process i e (D1\<lparr>hier := upd_dev m (\<lambda>md. md\<lparr>lastSlave := Some i\<rparr>) (hier D)\<rparr>)
          in (case dev_store (hier D3) i of None \<Rightarrow> None
              | Some d' \<Rightarrow> Some (if IsFloating (hier D3) i d' then D3 else deliver process m me D3))) = Some D'"
      using p unfolding Some process_enabled [OF d True] Let_def D1_def [symmetric] h .
    show ?thesis
    proof (cases "CopyGetMasterEvent (hier D) i d e")
      case None
      then show ?thesis using p' by simp
    next
      case c1: (Some r)
      show ?thesis
      proof (cases r)
        case None
        then show ?thesis using p' c1 deliver_wf [OF c, of D1 "hier D" i e] wf h by simp
      next
        case (Some mm)
        obtain m me where mm: "mm = (m, me)" by (cases mm)
        have im: "is_master (hier D) m"
          using c1 Some mm master_is_master [OF wf d] by (auto simp: CopyGetMasterEvent_def split: if_splits option.splits)
        let ?D2 = "D1\<lparr>hier := upd_dev m (\<lambda>md. md\<lparr>lastSlave := Some i\<rparr>) (hier D)\<rparr>"
        let ?D3 = "deliver process i e ?D2"
        have w2: "wf_devices (hier ?D2) \<and> same_devices (hier D) (hier ?D2)" using remember_slave [OF wf i im] by simp
        then have w3: "wf_devices (hier ?D3) \<and> same_devices (hier D) (hier ?D3)" using deliver_wf [OF c, of ?D2] by blast
        then have w4: "wf_devices (hier (deliver process m me ?D3)) \<and> same_devices (hier D) (hier (deliver process m me ?D3))"
          using deliver_wf [OF c, of ?D3] by blast
        have "D' = ?D3 \<or> D' = deliver process m me ?D3"
          using p' c1 Some mm by (auto simp: Let_def split: option.splits if_splits)
        then show ?thesis using w3 w4 by blast
      qed
    qed
  qed
qed

lemma process_all_wf:
  assumes c: "calm process"
  shows "wf_devices (hier D) \<Longrightarrow> process_all process handlers xs D = Some D' \<Longrightarrow> wf_devices (hier D') \<and> same_devices (hier D) (hier D')"
proof (induction xs arbitrary: D)
  case (Cons x xs)
  obtain e scr pDev where x: "x = (e, scr, pDev)" by (cases x)
  obtain D1 where d1: "mieqProcessDeviceEvent process handlers pDev e scr D = Some D1" "process_all process handlers xs D1 = Some D'"
    using Cons.prems(2) x by (auto simp: bind_eq_Some_conv)
  from process_event_wf [OF c Cons.prems(1) d1(1)] Cons.IH [OF _ d1(2)] show ?case using same_devices_trans by blast
qed simp

section \<open>Requests and events interleaved\<close>

text \<open>What happens to the devices: the activity switches the stylus, or queued events are processed.\<close>

datatype session = Switch start_env start_env bool | Deliver "event_type set" "queued list"

definition deliver_all :: "processor \<Rightarrow> event_type set \<Rightarrow> queued list \<Rightarrow> inputInfo \<Rightarrow> inputInfo option" where
  "deliver_all process handlers xs S =
     map_option hier (process_all process handlers xs \<lparr>hier = S, delivered = [], dequeue_screen = (\<lambda>i. None), screen_moves = []\<rparr>)"

fun run_session :: "processor \<Rightarrow> session list \<Rightarrow> lorie_devs \<Rightarrow> lorie_devs option" where
  "run_session process [] D = Some D"
| "run_session process (Switch E E' on # ss) D = Option.bind (setStylusEnabled E E' on D) (run_session process ss)"
| "run_session process (Deliver handlers xs # ss) D =
     Option.bind (deliver_all process handlers xs (info D)) (\<lambda>S. run_session process ss (D\<lparr>info := S\<rparr>))"

fun switch_granted :: "session \<Rightarrow> bool" where
  "switch_granted (Switch E E' on) = (granted (allowed E) \<and> granted (allowed E'))"
| "switch_granted (Deliver handlers xs) = True"

lemma deliver_all_wf:
  assumes "calm process" "wf_lorie D" "deliver_all process handlers xs (info D) = Some S"
  shows "wf_lorie (D\<lparr>info := S\<rparr>) \<and> stylus_ids (D\<lparr>info := S\<rparr>) = stylus_ids D \<and> count_devs S = count_devs (info D)"
proof -
  let ?D = "\<lparr>hier = info D, delivered = [], dequeue_screen = (\<lambda>i. None), screen_moves = []\<rparr>"
  obtain D' where d: "process_all process handlers xs ?D = Some D'" "S = hier D'" using assms(3) by (auto simp: deliver_all_def)
  have "wf_devices (hier ?D)" using assms(2) by (simp add: wf_lorie_def)
  from process_all_wf [OF assms(1) this d(1)] have w: "wf_devices S" "same_devices (info D) S" using d(2) by simp_all
  have ids: "stylus_ids (D\<lparr>info := S\<rparr>) = stylus_ids D" by (simp add: stylus_ids_def)
  have "wf_lorie (D\<lparr>info := S\<rparr>)" using assms(2) w unfolding wf_lorie_def ids by (simp add: same_devices_def)
  then show ?thesis using ids w(2) by (simp add: same_devices_def count_devs_def)
qed



section \<open>Queued events of a device that is removed\<close>

text \<open>\<^verbatim>\<open>ProcessInputEvents\<close> and \<^verbatim>\<open>CloseInput\<close> of the driver.\<close>

definition ProcessInputEvents :: "processor \<Rightarrow> event_type set \<Rightarrow> event_queue \<Rightarrow> delivery \<Rightarrow> (event_queue \<times> delivery) option" where
  "ProcessInputEvents = mieqProcessInputEvents"

definition CloseInput :: "event_queue \<Rightarrow> event_queue" where
  "CloseInput = mieqFini"

text \<open>Removing a device with the queue in view: switching off an enabled device first ends its touches, which begins with
  processing all queued events (\<^verbatim>\<open>TouchEndPhysicallyActiveTouches\<close>).\<close>

definition remove_flushing :: "processor \<Rightarrow> event_type set \<Rightarrow> driver \<Rightarrow> nat \<Rightarrow> event_queue \<times> delivery \<Rightarrow> (event_queue \<times> delivery) option" where
  "remove_flushing process handlers call i s = (case dev_store (hier (snd s)) i of
       None \<Rightarrow> None
     | Some d \<Rightarrow>
         Option.bind (if inited d \<and> enabled d then ProcessInputEvents process handlers (fst s) (snd s) else Some s)
           (\<lambda>(q, D). map_option (\<lambda>(r, S). (q, D\<lparr>hier := S\<rparr>)) (RemoveDevice call i (hier D))))"

text \<open>When a stylus device that is on is removed, the events queued before are processed first, while the device still
  exists: afterwards the device is freed, no queued event refers to it and the hierarchy is well-formed.\<close>

theorem removed_device_not_queued:
  assumes c: "calm process" and wf: "wf_devices (hier D)" and at: "stylus_at i (hier D)" and on: "i \<in> set (devs (hier D))"
    and q: "holds q (xs, lm)" and p: "process_all process handlers xs D = Some D1"
  shows "\<exists>q' S'. remove_flushing process handlers (driver_of E) i (q, D) = Some (q', D1\<lparr>hier := S'\<rparr>) \<and> contents q' = [] \<and> wf_queue q' \<and>
    dev_store S' i = None \<and> wf_devices S'"
proof -
  obtain d where d: "dev_store (hier D) i = Some d" using at by (auto simp: stylus_at_def)
  have e: "enabled d" "inited d" using wf_dev_ok [OF wf d] on by (simp_all add: dev_ok_def)
  obtain q' where q': "mieqProcessInputEvents process handlers q D = Some (q', D1)" "wf_queue q'" "contents q' = []"
    using process_loop_all [OF holds_dropped [OF q, of 0] p] by (auto simp: mieqProcessInputEvents_def holds_def)
  have w1: "wf_devices (hier D1)" "same_devices (hier D) (hier D1)" using process_all_wf [OF c wf p] by simp_all
  then have "stylus_at i (hier D1)" using at by (simp add: same_devices_def)
  then obtain d1 where d1: "dev_store (hier D1) i = Some d1" "\<not> IsMaster d1" "deviceProc d1 \<in> own_procs"
    by (auto simp: stylus_at_def own_procs_def)
  obtain S' where r: "RemoveDevice (driver_of E) i (hier D1) = Some (DevSuccess, S')" "wf_devices S'" "dev_store S' i = None"
    using lorie.remove_result [OF w1(1) d1, of E] by blast
  have "remove_flushing process handlers (driver_of E) i (q, D) = Some (q', D1\<lparr>hier := S'\<rparr>)"
    using d e q'(1) r(1) by (simp add: remove_flushing_def ProcessInputEvents_def)
  then show ?thesis using q'(2,3) r(2,3) by blast
qed

theorem removed_device_not_queued_witness:
  "\<exists>q q' D'. mieqInit rich 7 = Some q \<and> remove_flushing (\<lambda>i e S. S) {} (driver_of kind_env) 4 (q, sample_delivery) = Some (q', D') \<and>
     contents q' = [] \<and> dev_store (hier D') 4 = None"
proof -
  let ?S = "hier sample_delivery"
  obtain q where q: "mieqInit rich 7 = Some q" "holds q ([], 0)" using init_holds [OF rich_grows] by blast
  have m: "is_master ?S i \<longleftrightarrow> i = 2 \<or> i = 3" for i
    by (auto simp: is_master_def sample_delivery_def sample_slave_def fresh_dev_def IsMaster_def)
  have st: "dev_store ?S = [2 \<mapsto> (fresh_dev OtherProc)\<lparr>dev_type := MASTER_POINTER, inited := True, enabled := True, paired := Some 3\<rparr>,
       3 \<mapsto> (fresh_dev OtherProc)\<lparr>dev_type := MASTER_KEYBOARD, inited := True, enabled := True, paired := Some 2\<rparr>, 4 \<mapsto> sample_slave]"
    "devs ?S = [2, 3, 4]" "off_devs ?S = []" "vc_pointer ?S = 2" "vc_keyboard ?S = 3" by (simp_all add: sample_delivery_def)
  have "dev_ok ?S 2 ((fresh_dev OtherProc)\<lparr>dev_type := MASTER_POINTER, inited := True, enabled := True, paired := Some 3\<rparr>)"
    "dev_ok ?S 3 ((fresh_dev OtherProc)\<lparr>dev_type := MASTER_KEYBOARD, inited := True, enabled := True, paired := Some 2\<rparr>)"
    "dev_ok ?S 4 sample_slave"
    by (simp_all add: dev_ok_def refs_ok_def m st) (simp_all add: fresh_dev_def sample_slave_def IsMaster_def)
  then have wf: "wf_devices ?S" unfolding wf_devices_def m st by auto
  have at: "stylus_at 4 ?S" by (simp add: stylus_at_def st sample_slave_def fresh_dev_def IsMaster_def)
  have "4 \<in> set (devs ?S)" by (simp add: st)
  from removed_device_not_queued [OF _ wf at this q(2), of "\<lambda>i e S. S" "{}" sample_delivery kind_env] q(1) show ?thesis
    by (fastforce simp: calm_def)
qed

end
