(* ===== verification/Lorie_Type.thy ===== *)
theory Lorie_Type
  imports Lorie_Text Lorie_Wire
begin

text \<open>
  The text sender of the activity (\<^verbatim>\<open>sendTextEvent\<close> of \<^verbatim>\<open>lorie/activity.c\<close>): it decodes the bytes of a Java array with the multibyte
  decoder of the C library and sends one event per character.
\<close>

section \<open>The multibyte decoder\<close>

text \<open>\<^verbatim>\<open>MB_CUR_MAX\<close> of the UTF-8 locale in which programs of Android start.\<close>

definition MB_CUR_MAX :: nat where
  "MB_CUR_MAX = 4"

text \<open>A character with the number of bytes it takes (0 for the terminator), an ill-formed sequence, or one that needs more bytes than it was given.\<close>

datatype mb_result = Mb_char u32 nat | Mb_invalid | Mb_incomplete

text \<open>\<open>mb_rest mem i k lim v\<close>: the remaining \<open>k\<close> bytes of a sequence, of which \<open>lim\<close> may be read. The answer is the value, 0 for an
  ill-formed sequence, or none for one that needs more bytes.\<close>

fun mb_rest :: "bytes \<Rightarrow> nat \<Rightarrow> nat \<Rightarrow> nat \<Rightarrow> nat \<Rightarrow> nat option option" where
  "mb_rest mem i 0 lim v = Some (Some v)"
| "mb_rest mem i (Suc k) lim v =
     (if lim = 0 then Some None
      else Option.bind (rd mem i) (\<lambda>c. if is_cont c then mb_rest mem (Suc i) k (lim - 1) (v * 64 + unat c mod 64) else Some (Some 0)))"

definition wide_char :: "nat \<Rightarrow> bool" where
  "wide_char n \<longleftrightarrow> code_point n \<and> n \<noteq> 0xfffe \<and> n \<noteq> 0xffff"

text \<open>A decoded value below the least one of its length is an overlong form.\<close>

definition mb_long :: "bytes \<Rightarrow> nat \<Rightarrow> nat \<Rightarrow> nat \<Rightarrow> nat \<Rightarrow> nat \<Rightarrow> mb_result option" where
  "mb_long mem i k lim v least =
     Option.bind (mb_rest mem (Suc i) k (lim - 1) v) (\<lambda>r. Some (case r of
         None \<Rightarrow> Mb_incomplete
       | Some n \<Rightarrow> if least \<le> n \<and> wide_char n then Mb_char (word_of_nat n) (Suc k) else Mb_invalid))"

definition mbrtowc :: "bytes \<Rightarrow> nat \<Rightarrow> nat \<Rightarrow> mb_result option" where
  "mbrtowc mem i lim =
     (if lim = 0 then Some Mb_incomplete
      else Option.bind (rd mem i) (\<lambda>c.
        if c < 0x80 then Some (Mb_char (ucast c) (if c = 0 then 0 else 1))
        else if c AND 0xe0 = 0xc0 then mb_long mem i 1 lim (unat c mod 32) 0x80
        else if c AND 0xf0 = 0xe0 then mb_long mem i 2 lim (unat c mod 16) 0x800
        else if c AND 0xf8 = 0xf0 then mb_long mem i 3 lim (unat c mod 8) 0x10000
        else Some Mb_invalid))"

section \<open>The sender\<close>

text \<open>The bytes written to the socket by the loop; \<open>None\<close> is a read outside the array.\<close>

function sendText_loop :: "bytes \<Rightarrow> nat \<Rightarrow> bytes option" where
  "sendText_loop str p =
     Option.bind (rd str p) (\<lambda>c.
       if c = 0 then Some []
       else Option.bind (mbrtowc str p MB_CUR_MAX) (\<lambda>r.
         case r of
           Mb_char wc len \<Rightarrow>
             if len = 0 then Some []
             else if length str \<le> p + len then Some (encode (EVENT_UNICODE wc))
             else map_option ((@) (encode (EVENT_UNICODE wc))) (sendText_loop str (p + len))
         | Mb_invalid \<Rightarrow> Some []
         | Mb_incomplete \<Rightarrow> Some []))"
  by pat_completeness auto

termination by (relation "measure (\<lambda>(str, p). length str - p)") auto

declare sendText_loop.simps [simp del]

text \<open>The bytes written and the number of array copies taken from the virtual machine and not given back.\<close>

definition sendTextEvent :: "bool \<Rightarrow> bytes option \<Rightarrow> (bytes \<times> nat) option" where
  "sendTextEvent conn text =
     (case text of
        None \<Rightarrow> Some ([], 0)
      | Some str \<Rightarrow>
          if \<not> conn then Some ([], 0)
          else if length str = 0 then Some ([], 1)
          else map_option (\<lambda>out. (out, 0)) (sendText_loop str 0))"

section \<open>The decoder on encoded text\<close>

lemma mb_rest_shift: "mb_rest (pre @ w) (length pre + i) k lim v = mb_rest w i k lim v"
proof (induction k arbitrary: i lim v)
  case (Suc k)
  show ?case using Suc [of "Suc i"] by (simp cong: if_cong)
qed simp

lemma mbrtowc_shift: "mbrtowc (pre @ w) (length pre) lim = mbrtowc w 0 lim"
proof -
  have "mb_long (pre @ w) (length pre) k lim v l = mb_long w 0 k lim v l" for k v l
    using mb_rest_shift [of pre w 1] by (simp add: mb_long_def)
  moreover have "rd (pre @ w) (length pre) = rd w 0" using rd_append_plus [of pre w 0] by simp
  ultimately show ?thesis by (simp add: mbrtowc_def cong: if_cong)
qed

text \<open>Reading the remaining bytes of an encoded character.\<close>

lemma mb_rest_cont:
  "lim \<noteq> 0 \<Longrightarrow> mb_rest (x # w) (Suc i) (Suc k) lim v =
     Option.bind (rd w i) (\<lambda>c. if is_cont c then mb_rest (x # w) (Suc (Suc i)) k (lim - 1) (v * 64 + unat c mod 64) else Some (Some 0))"
  by simp

lemma mbrtowc_lead:
  assumes "lim \<noteq> 0"
  shows "k < 128 \<Longrightarrow> mbrtowc (word_of_nat k # w) 0 lim = Some (Mb_char (word_of_nat k) (if k = 0 then 0 else 1))"
    and "k < 32 \<Longrightarrow> mbrtowc (word_of_nat (192 + k) # w) 0 lim = mb_long (word_of_nat (192 + k) # w) 0 1 lim k 0x80"
    and "k < 16 \<Longrightarrow> mbrtowc (word_of_nat (224 + k) # w) 0 lim = mb_long (word_of_nat (224 + k) # w) 0 2 lim k 0x800"
    and "k < 8 \<Longrightarrow> mbrtowc (word_of_nat (240 + k) # w) 0 lim = mb_long (word_of_nat (240 + k) # w) 0 3 lim k 0x10000"
proof -
  note lead = assms mbrtowc_def byte_class word_less_nat_alt word_le_nat_alt unat_byte
  have m: "(192 + k) mod 32 = k" if "k < 32" using that mod_mult_self3 [of 6 32 k] by simp
  have m': "(224 + k) mod 16 = k" if "k < 16" using that mod_mult_self3 [of 14 16 k] by simp
  have m'': "(240 + k) mod 8 = k" if "k < 8" using that mod_mult_self3 [of 30 8 k] by simp
  show "mbrtowc (word_of_nat k # w) 0 lim = Some (Mb_char (word_of_nat k) (if k = 0 then 0 else 1))" if "k < 128"
  proof -
    have u: "unat (word_of_nat k :: u8) = k" using that by (intro unat_byte) simp
    have "ucast (word_of_nat k :: u8) = (word_of_nat k :: u32)"
      using of_nat_unat [where 'a = u32 and w = "word_of_nat k :: u8"] unfolding u by (rule sym)
    moreover have "(word_of_nat k :: u8) = 0 \<longleftrightarrow> k = 0" using u unat_eq_zero [of "word_of_nat k :: u8"] by (simp only:)
    ultimately show ?thesis using that u assms by (simp only: mbrtowc_def rd_Cons_0 bind_simps word_less_nat_alt if_False if_True) simp
  qed
  show "k < 32 \<Longrightarrow> mbrtowc (word_of_nat (192 + k) # w) 0 lim = mb_long (word_of_nat (192 + k) # w) 0 1 lim k 0x80"
    by (simp add: lead m del: of_nat_add mb_rest.simps cong: if_cong)
  show "k < 16 \<Longrightarrow> mbrtowc (word_of_nat (224 + k) # w) 0 lim = mb_long (word_of_nat (224 + k) # w) 0 2 lim k 0x800"
    by (simp add: lead m' del: of_nat_add mb_rest.simps cong: if_cong)
  show "k < 8 \<Longrightarrow> mbrtowc (word_of_nat (240 + k) # w) 0 lim = mb_long (word_of_nat (240 + k) # w) 0 3 lim k 0x10000"
    by (simp add: lead m'' del: of_nat_add mb_rest.simps cong: if_cong)
qed

lemma mbrtowc_enc:
  assumes "wide_char n" and "0 < n"
  shows "mbrtowc (utf8_enc n @ w) 0 MB_CUR_MAX = Some (Mb_char (word_of_nat n) (length (utf8_enc n)))"
proof -
  have n: "n < 0x110000" using assms(1) by (simp add: wide_char_def code_point_def)
  note eval = MB_CUR_MAX_def mbrtowc_lead mb_long_def mb_rest_cont cont_byte assms numeral_2_eq_2 numeral_3_eq_3
  show ?thesis
  proof (cases rule: utf8_enc_cases [OF n])
    case 1
    then show ?thesis using assms by (simp add: MB_CUR_MAX_def mbrtowc_lead)
  next
    case 2
    have "n div 64 * 64 + n mod 64 = n" by simp
    then show ?thesis using 2 by (simp add: eval del: of_nat_add)
  next
    case 3
    have "n div 64 div 64 * 64 + n div 64 mod 64 = n div 64" by (rule div_mult_mod_eq)
    then have "(n div 4096 * 64 + n div 64 mod 64) * 64 + n mod 64 = n" by (simp flip: div_mult2_eq)
    then show ?thesis using 3 by (simp add: eval del: of_nat_add)
  next
    case 4
    have "n div 64 div 64 * 64 + n div 64 mod 64 = n div 64"
      "n div 64 div 64 div 64 * 64 + n div 64 div 64 mod 64 = n div 64 div 64"
      by (rule div_mult_mod_eq)+
    then have "((n div 262144 * 64 + n div 4096 mod 64) * 64 + n div 64 mod 64) * 64 + n mod 64 = n"
      by (simp flip: div_mult2_eq)
    then show ?thesis using 4 n by (simp add: eval del: of_nat_add)
  qed
qed

section \<open>The loop on encoded text\<close>

definition char_events :: "nat list \<Rightarrow> lorieEvent list" where
  "char_events ns = map (\<lambda>n. EVENT_UNICODE (word_of_nat n)) ns"

definition sent_chars :: "nat list \<Rightarrow> bytes" where
  "sent_chars ns = concat (map encode (char_events ns))"

lemma utf8_encode_Nil_iff: "utf8_encode ns = [] \<longleftrightarrow> ns = []"
  by (cases ns) (simp_all add: utf8_encode_def utf8_enc_def)

text \<open>One character: what follows it in the array decides whether the loop goes on.\<close>

lemma sendText_char:
  assumes "wide_char n" and "0 < n"
  shows "sendText_loop (pre @ utf8_enc n @ w) (length pre) =
    (if w = [] then Some (sent_chars [n]) else map_option ((@) (sent_chars [n])) (sendText_loop (pre @ utf8_enc n @ w) (length (pre @ utf8_enc n))))"
proof -
  have "code_point n" using assms(1) by (simp add: wide_char_def)
  then obtain c cs where c: "utf8_enc n = c # cs" "c \<noteq> 0" using assms(2) by (rule utf8_enc_head)
  have r: "rd (pre @ utf8_enc n @ w) (length pre) = Some c" by (simp add: c array_simps)
  have m: "mbrtowc (pre @ utf8_enc n @ w) (length pre) MB_CUR_MAX = Some (Mb_char (word_of_nat n) (length (utf8_enc n)))"
    using assms by (simp add: mbrtowc_shift mbrtowc_enc)
  have l: "length (utf8_enc n) \<noteq> 0" by (simp add: c)
  show ?thesis unfolding sendText_loop.simps [of _ "length pre"] r m using c(2) l by (simp add: sent_chars_def char_events_def)
qed

lemma sendText_chars:
  assumes "\<forall>n\<in>set ns. wide_char n \<and> 0 < n"
  shows "sendText_loop (pre @ utf8_encode ns @ w) (length pre) =
    (if w = [] then (if ns = [] then sendText_loop pre (length pre) else Some (sent_chars ns))
     else map_option ((@) (sent_chars ns)) (sendText_loop (pre @ utf8_encode ns @ w) (length (pre @ utf8_encode ns))))"
  using assms
proof (induction ns arbitrary: pre)
  case Nil
  then show ?case by (cases "sendText_loop (pre @ w) (length pre)") (auto simp: utf8_encode_def sent_chars_def char_events_def)
next
  case (Cons n ns)
  have e: "pre @ utf8_encode (n # ns) @ w = pre @ utf8_enc n @ (utf8_encode ns @ w)"
      "pre @ utf8_enc n @ (utf8_encode ns @ w) = (pre @ utf8_enc n) @ utf8_encode ns @ w"
      "length (pre @ utf8_encode (n # ns)) = length ((pre @ utf8_enc n) @ utf8_encode ns)" by (simp_all add: utf8_encode_def)
  have s: "sent_chars (n # ns) = sent_chars [n] @ sent_chars ns" "sent_chars [] = []" by (simp_all add: sent_chars_def char_events_def)
  have IH: "sendText_loop ((pre @ utf8_enc n) @ utf8_encode ns @ w) (length (pre @ utf8_enc n)) =
    (if w = [] then (if ns = [] then sendText_loop (pre @ utf8_enc n) (length (pre @ utf8_enc n)) else Some (sent_chars ns))
     else map_option ((@) (sent_chars ns)) (sendText_loop ((pre @ utf8_enc n) @ utf8_encode ns @ w) (length ((pre @ utf8_enc n) @ utf8_encode ns))))"
    using Cons.prems by (intro Cons.IH) simp
  have n: "wide_char n" "0 < n" using Cons.prems by simp_all
  show ?case
    unfolding e(1) sendText_char [OF n] e(3) unfolding e(2) IH
    by (auto simp: utf8_encode_Nil_iff s option.map_comp comp_def)
qed

lemma sent_chars_received: "poll_loop server_payload (sent_chars ns) = map (\<lambda>e. (e, [])) (char_events ns)"
proof -
  let ?ms = "map (\<lambda>e. (e, [] :: bytes)) (char_events ns)"
  have "list_all (fits server_payload) ?ms"
    by (auto simp: list_all_iff char_events_def fits_def server_payload_def valid_event_def)
  moreover have "sent_chars ns = concat (map on_wire ?ms)" by (simp add: sent_chars_def on_wire_def comp_def)
  ultimately show ?thesis using poll_loop_messages by metis
qed

lemma sendTextEvent_chars:
  assumes "\<forall>n\<in>set ns. wide_char n \<and> 0 < n" and "ns \<noteq> []"
  shows "sendTextEvent True (Some (utf8_encode ns)) = Some (sent_chars ns, 0)"
  using sendText_chars [OF assms(1), of "[]" "[]"] assms(2) by (simp add: sendTextEvent_def utf8_encode_Nil_iff)

section \<open>Properties\<close>

text \<open>
  A text reaches the server character by character: for the UTF-8 encoding of any non-empty sequence of characters, the sender
  reads no byte outside the array, gives the array back and writes bytes from which the server reads exactly one event per
  character, in order.
\<close>

theorem text_sent_and_received:
  assumes "\<forall>n\<in>set ns. wide_char n \<and> 0 < n" and "ns \<noteq> []"
  shows "\<exists>out. sendTextEvent True (Some (utf8_encode ns)) = Some (out, 0)
    \<and> poll_loop server_payload out = map (\<lambda>n. (EVENT_UNICODE (word_of_nat n), [])) ns"
proof (intro exI conjI)
  show "sendTextEvent True (Some (utf8_encode ns)) = Some (sent_chars ns, 0)" by (rule sendTextEvent_chars [OF assms])
  show "poll_loop server_payload (sent_chars ns) = map (\<lambda>n. (EVENT_UNICODE (word_of_nat n), [])) ns"
    unfolding sent_chars_received by (simp add: char_events_def)
qed

text \<open>The letter a and the euro sign.\<close>

theorem text_sent_and_received_witness:
  "\<exists>out. sendTextEvent True (Some [0x61, 0xe2, 0x82, 0xac]) = Some (out, 0) \<and>
     poll_loop server_payload out = [(EVENT_UNICODE 0x61, []), (EVENT_UNICODE 0x20ac, [])]"
proof -
  have "\<forall>n\<in>set [0x61, 0x20ac]. wide_char n \<and> 0 < n" by (simp add: wide_char_def code_point_def)
  from text_sent_and_received [OF this] show ?thesis by (simp add: utf8_encode_def utf8_enc_def)
qed

text \<open>
  After an ill-formed byte nothing is sent, and what came before it is: a text of characters followed by a byte that starts no
  character (a continuation byte, the terminator or 0xf8 and above) sends exactly these characters and gives the array back.
\<close>

theorem ill_formed_text_stops:
  assumes "\<forall>n\<in>set ns. wide_char n \<and> 0 < n" and "c = 0 \<or> is_cont c \<or> 0xf8 \<le> c"
  shows "sendTextEvent True (Some (utf8_encode ns @ c # w)) = Some (sent_chars ns, 0)"
proof -
  have "mbrtowc (utf8_encode ns @ c # w) (length (utf8_encode ns)) MB_CUR_MAX = Some Mb_invalid" if "c \<noteq> 0"
    unfolding mbrtowc_shift
    using assms(2) that by (auto simp: mbrtowc_def MB_CUR_MAX_def byte_class is_cont_iff word_le_nat_alt word_less_nat_alt)
  then have "sendText_loop (utf8_encode ns @ c # w) (length (utf8_encode ns)) = Some []"
    by (simp add: sendText_loop.simps [of _ "length (utf8_encode ns)"] array_simps)
  then show ?thesis using sendText_chars [OF assms(1), of "[]" "c # w"] by (simp add: sendTextEvent_def)
qed

theorem ill_formed_text_stops_witness: "sendTextEvent True (Some [0x61, 0x80, 0x62]) = Some (encode (EVENT_UNICODE 0x61), 0)"
proof -
  have "\<forall>n\<in>set [0x61]. wide_char n \<and> 0 < n" "(0x80 :: u8) = 0 \<or> is_cont 0x80 \<or> 0xf8 \<le> (0x80 :: u8)"
    by (simp_all add: wide_char_def code_point_def is_cont_iff)
  from ill_formed_text_stops [OF this, of "[0x62]"] show ?thesis
    by (simp add: utf8_encode_def utf8_enc_def sent_chars_def char_events_def)
qed

text \<open>The decoder is given four bytes wherever the character starts: a text cut off inside its last character is read past its end.\<close>

theorem cut_text_overread:
  assumes "\<forall>n\<in>set ns. wide_char n \<and> 0 < n" and "0xc0 \<le> c" and "c < 0xf8"
  shows "sendTextEvent True (Some (utf8_encode ns @ [c])) = None"
proof -
  have "c \<noteq> 0" using assms(2) by auto
  moreover have "mb_long [c] 0 (Suc k) 4 v l = None" for k v l by (simp add: mb_long_def)
  then have long: "mb_long [c] 0 (Suc 0) 4 v l = None" "mb_long [c] 0 2 4 v l = None" "mb_long [c] 0 3 4 v l = None" for v l
    by (simp_all only: numeral_2_eq_2 numeral_3_eq_3)
  have "mbrtowc [c] 0 4 = None"
    using assms(2,3) by (auto simp: mbrtowc_def long byte_class word_le_nat_alt word_less_nat_alt)
  then have "mbrtowc (utf8_encode ns @ [c]) (length (utf8_encode ns)) MB_CUR_MAX = None"
    unfolding mbrtowc_shift MB_CUR_MAX_def .
  ultimately have "sendText_loop (utf8_encode ns @ [c]) (length (utf8_encode ns)) = None"
    by (simp add: sendText_loop.simps [of _ "length (utf8_encode ns)"] array_simps)
  then show ?thesis using sendText_chars [OF assms(1), of "[]" "[c]"] by (simp add: sendTextEvent_def)
qed

text \<open>An empty array is never given back to the virtual machine.\<close>

lemma empty_text_keeps_array: "sendTextEvent True (Some []) = Some ([], 1)"
  by (simp add: sendTextEvent_def)

end
