(* ===== verification/Dix_Valuators.thy ===== *)
theory Dix_Valuators
  imports Dix_Device
begin

text \<open>
  The valuator masks of the X server (\<^verbatim>\<open>dix/inpututils.c\<close>), in which the dispatcher of the activity's events passes axis
  values: a bit array, the highest bit that is set, and two arrays of values. They represent partial maps
  from axes to values. An access outside the arrays is the value \<open>None\<close>.
\<close>

section \<open>Bit arrays\<close>

definition BitIsOn :: "bytes \<Rightarrow> nat \<Rightarrow> bool" where
  "BitIsOn bs b = (bs ! (b div 8) AND push_bit (b mod 8) 1 \<noteq> 0)"

definition SetBit :: "bytes \<Rightarrow> nat \<Rightarrow> bytes" where
  "SetBit bs b = bs[b div 8 := bs ! (b div 8) OR push_bit (b mod 8) 1]"

definition ClearBit :: "bytes \<Rightarrow> nat \<Rightarrow> bytes" where
  "ClearBit bs b = bs[b div 8 := bs ! (b div 8) AND NOT (push_bit (b mod 8) 1)]"

fun CountBits :: "bytes \<Rightarrow> nat \<Rightarrow> nat" where
  "CountBits bs 0 = 0"
| "CountBits bs (Suc n) = CountBits bs n + (if BitIsOn bs n then 1 else 0)"

lemma BitIsOn_bit: "BitIsOn bs b \<longleftrightarrow> bit (bs ! (b div 8)) (b mod 8)"
  unfolding BitIsOn_def by (rule bit_iff_and_push_bit_not_eq_0 [symmetric])

lemma bit_index:
  fixes i j :: nat
  assumes "i div 8 = j div 8" "i mod 8 = j mod 8"
  shows "i = j"
proof -
  have "i = i div 8 * 8 + i mod 8" by (rule div_mult_mod_eq [symmetric])
  also have "\<dots> = j div 8 * 8 + j mod 8" by (simp only: assms)
  also have "\<dots> = j" by (rule div_mult_mod_eq)
  finally show ?thesis .
qed

lemma bit_of_one: "bit (push_bit k (1 :: u8)) n \<longleftrightarrow> n = k \<and> k < 8"
  by (auto simp: bit_simps)

lemma BitIsOn_SetBit:
  assumes "i div 8 < length bs"
  shows "BitIsOn (SetBit bs i) j \<longleftrightarrow> j = i \<or> BitIsOn bs j"
proof (cases "j div 8 = i div 8")
  case True
  then have "j mod 8 = i mod 8 \<longleftrightarrow> j = i" using bit_index [OF True] by blast
  then show ?thesis unfolding BitIsOn_bit SetBit_def True nth_list_update_eq [OF assms] bit_or_iff bit_of_one by auto
next
  case False
  then show ?thesis unfolding BitIsOn_bit SetBit_def nth_list_update_neq [OF False [symmetric]] by blast
qed

lemma BitIsOn_ClearBit:
  assumes "i div 8 < length bs"
  shows "BitIsOn (ClearBit bs i) j \<longleftrightarrow> j \<noteq> i \<and> BitIsOn bs j"
proof (cases "j div 8 = i div 8")
  case True
  then have "j mod 8 = i mod 8 \<longleftrightarrow> j = i" using bit_index [OF True] by blast
  then show ?thesis unfolding BitIsOn_bit ClearBit_def True nth_list_update_eq [OF assms] bit_and_iff bit_not_iff bit_of_one by auto
next
  case False
  then show ?thesis unfolding BitIsOn_bit ClearBit_def nth_list_update_neq [OF False [symmetric]] by blast
qed

lemma length_bits [simp]: "length (SetBit bs b) = length bs" "length (ClearBit bs b) = length bs"
  by (simp_all add: SetBit_def ClearBit_def)

lemma CountBits_card: "CountBits bs n = card {i. i < n \<and> BitIsOn bs i}"
proof (induction n)
  case (Suc n)
  have "{i. i < Suc n \<and> BitIsOn bs i} = (if BitIsOn bs n then insert n {i. i < n \<and> BitIsOn bs i} else {i. i < n \<and> BitIsOn bs i})"
    by (auto simp: less_Suc_eq)
  with Suc show ?case by simp
qed simp

section \<open>Masks\<close>

record valuator_mask =
  last_bit :: int
  has_unaccelerated :: bool
  mask_bytes :: bytes
  vals :: "rat list"
  unaccelerated :: "rat list"

definition valuator_mask_zero :: valuator_mask where
  "valuator_mask_zero = \<lparr>last_bit = -1, has_unaccelerated = False, mask_bytes = replicate 5 0, vals = replicate 36 0, unaccelerated = replicate 36 0\<rparr>"

definition valuator_mask_size :: "valuator_mask \<Rightarrow> int" where
  "valuator_mask_size M = last_bit M + 1"

definition valuator_mask_num_valuators :: "valuator_mask \<Rightarrow> nat" where
  "valuator_mask_num_valuators M = CountBits (mask_bytes M) (nat (min (last_bit M + 1) (int MAX_VALUATORS)))"

definition valuator_mask_isset :: "valuator_mask \<Rightarrow> nat \<Rightarrow> bool" where
  "valuator_mask_isset M i = (int i \<le> last_bit M \<and> BitIsOn (mask_bytes M) i)"

definition valuator_mask_set_double :: "nat \<Rightarrow> rat \<Rightarrow> valuator_mask \<Rightarrow> valuator_mask option" where
  "valuator_mask_set_double i x M =
     (if length (vals M) \<le> i then None
      else Some (M\<lparr>last_bit := max (int i) (last_bit M), mask_bytes := SetBit (mask_bytes M) i, vals := (vals M)[i := x]\<rparr>))"

definition valuator_mask_set_unaccelerated :: "nat \<Rightarrow> rat \<Rightarrow> rat \<Rightarrow> valuator_mask \<Rightarrow> valuator_mask option" where
  "valuator_mask_set_unaccelerated i x y M =
     map_option (\<lambda>M. M\<lparr>has_unaccelerated := True, unaccelerated := (unaccelerated M)[i := y]\<rparr>) (valuator_mask_set_double i x M)"

definition valuator_mask_get_double :: "valuator_mask \<Rightarrow> nat \<Rightarrow> rat option" where
  "valuator_mask_get_double M i = rd (vals M) i"

text \<open>\<^verbatim>\<open>trunc\<close> rounds towards zero; the conversion to \<^verbatim>\<open>int\<close> has no defined result out of its range.\<close>

definition double_to_int :: "rat \<Rightarrow> int option" where
  "double_to_int x =
     (let z = if 0 \<le> x then \<lfloor>x\<rfloor> else \<lceil>x\<rceil> in if - (2 ^ 31) \<le> z \<and> z < 2 ^ 31 then Some z else None)"

definition valuator_mask_get :: "valuator_mask \<Rightarrow> nat \<Rightarrow> int option" where
  "valuator_mask_get M i = Option.bind (valuator_mask_get_double M i) double_to_int"

definition valuator_mask_fetch :: "valuator_mask \<Rightarrow> nat \<Rightarrow> int option" where
  "valuator_mask_fetch M i = (if valuator_mask_isset M i then valuator_mask_get M i else None)"

definition valuator_mask_fetch_double :: "valuator_mask \<Rightarrow> nat \<Rightarrow> rat option" where
  "valuator_mask_fetch_double M i = (if valuator_mask_isset M i then valuator_mask_get_double M i else None)"

definition valuator_mask_fetch_unaccelerated :: "valuator_mask \<Rightarrow> nat \<Rightarrow> (rat \<times> rat) option" where
  "valuator_mask_fetch_unaccelerated M i =
     (if valuator_mask_isset M i then case (rd (vals M) i, rd (unaccelerated M) i) of (Some x, Some y) \<Rightarrow> Some (x, y) | _ \<Rightarrow> None else None)"

fun highest_set :: "valuator_mask \<Rightarrow> nat \<Rightarrow> int" where
  "highest_set M 0 = -1"
| "highest_set M (Suc n) = (if valuator_mask_isset M n then max (highest_set M n) (int n) else highest_set M n)"

definition valuator_mask_unset :: "nat \<Rightarrow> valuator_mask \<Rightarrow> valuator_mask option" where
  "valuator_mask_unset i M =
     (if int i \<le> last_bit M
      then if length (vals M) \<le> i then None
           else
             let M1 = M\<lparr>mask_bytes := ClearBit (mask_bytes M) i, vals := (vals M)[i := 0], unaccelerated := (unaccelerated M)[i := 0]\<rparr>;
                 lb = highest_set M1 (nat (last_bit M + 1))
             in Some (M1\<lparr>last_bit := lb, has_unaccelerated := (lb \<noteq> -1 \<and> has_unaccelerated M)\<rparr>)
      else Some M)"

definition valuator_mask_copy :: "valuator_mask option \<Rightarrow> valuator_mask" where
  "valuator_mask_copy src = (case src of Some M \<Rightarrow> M | None \<Rightarrow> valuator_mask_zero)"

definition valuator_mask_drop_unaccelerated :: "valuator_mask \<Rightarrow> valuator_mask" where
  "valuator_mask_drop_unaccelerated M = M\<lparr>has_unaccelerated := False, unaccelerated := replicate 36 0\<rparr>"

text \<open>Setting a range of axes: the loop stops at the last axis a mask can hold.\<close>

fun set_range_loop :: "nat \<Rightarrow> int list \<Rightarrow> valuator_mask \<Rightarrow> valuator_mask option" where
  "set_range_loop i [] M = Some M"
| "set_range_loop i (x # xs) M =
     (if MAX_VALUATORS \<le> i then Some M
      else Option.bind (valuator_mask_set_double i (of_int x) M) (set_range_loop (i + 1) xs))"

definition valuator_mask_set_range :: "nat \<Rightarrow> int list \<Rightarrow> valuator_mask option" where
  "valuator_mask_set_range first xs = set_range_loop first xs valuator_mask_zero"

section \<open>Masks are partial maps\<close>

definition wf_mask :: "valuator_mask \<Rightarrow> bool" where
  "wf_mask M =
     (length (mask_bytes M) = 5 \<and> length (vals M) = 36 \<and> length (unaccelerated M) = 36 \<and> (\<forall>i. 36 \<le> i \<and> i < 40 \<longrightarrow> \<not> BitIsOn (mask_bytes M) i) \<and>
      -1 \<le> last_bit M \<and> last_bit M < 36 \<and> (0 \<le> last_bit M \<longrightarrow> BitIsOn (mask_bytes M) (nat (last_bit M))) \<and>
      (\<forall>i < 40. BitIsOn (mask_bytes M) i \<longrightarrow> int i \<le> last_bit M))"

definition is_map :: "valuator_mask \<Rightarrow> (nat \<rightharpoonup> rat) \<Rightarrow> bool" where
  "is_map M f = (wf_mask M \<and> valuator_mask_fetch_double M = f)"

lemma fetch_isset:
  assumes "wf_mask M"
  shows "valuator_mask_fetch_double M i = (if valuator_mask_isset M i then Some (vals M ! i) else None)"
  using assms by (auto simp: valuator_mask_fetch_double_def valuator_mask_get_double_def valuator_mask_isset_def wf_mask_def rd_def)

lemma isset_iff: "wf_mask M \<Longrightarrow> valuator_mask_isset M i \<longleftrightarrow> i < 36 \<and> BitIsOn (mask_bytes M) i"
  by (auto simp: valuator_mask_isset_def wf_mask_def)

lemma isset_map: "is_map M f \<Longrightarrow> valuator_mask_isset M i \<longleftrightarrow> f i \<noteq> None"
  using fetch_isset [of M i] by (auto simp: is_map_def)

lemma zero_is_map: "is_map valuator_mask_zero Map.empty"
proof -
  have z: "\<not> BitIsOn (replicate 5 0) i" if "i < 40" for i using that by (simp add: BitIsOn_bit)
  then have "wf_mask valuator_mask_zero" by (auto simp: wf_mask_def valuator_mask_zero_def)
  then show ?thesis by (auto simp: is_map_def fetch_isset fun_eq_iff valuator_mask_isset_def valuator_mask_zero_def)
qed

lemma set_is_map:
  assumes "is_map M f" "i < 36"
  shows "\<exists>M'. valuator_mask_set_double i x M = Some M' \<and> is_map M' (f(i \<mapsto> x)) \<and> has_unaccelerated M' = has_unaccelerated M"
proof -
  have wf: "wf_mask M" and f: "valuator_mask_fetch_double M = f" using assms(1) by (simp_all add: is_map_def)
  let ?M = "M\<lparr>last_bit := max (int i) (last_bit M), mask_bytes := SetBit (mask_bytes M) i, vals := (vals M)[i := x]\<rparr>"
  have b: "BitIsOn (mask_bytes ?M) j \<longleftrightarrow> j = i \<or> BitIsOn (mask_bytes M) j" for j
    using BitIsOn_SetBit [of i "mask_bytes M" j] wf assms(2) by (simp add: wf_mask_def)
  have w: "wf_mask ?M" using wf assms(2) unfolding wf_mask_def b by (auto simp: max_def)
  have "valuator_mask_fetch_double ?M j = (f(i \<mapsto> x)) j" for j
    using wf assms(2) unfolding fetch_isset [OF w] isset_iff [OF w] b f [symmetric] fun_upd_apply fetch_isset [OF wf] isset_iff [OF wf]
    by (auto simp: wf_mask_def)
  then have "is_map ?M (f(i \<mapsto> x))" using w by (auto simp: is_map_def)
  moreover have "valuator_mask_set_double i x M = Some ?M" using wf assms(2) by (simp add: valuator_mask_set_double_def wf_mask_def)
  ultimately show ?thesis by (intro exI [of _ ?M]) simp
qed

lemma highest_set_bounds: "-1 \<le> highest_set M n \<and> highest_set M n < int n"
  by (induction n) auto

lemma highest_set_above: "i < n \<Longrightarrow> valuator_mask_isset M i \<Longrightarrow> int i \<le> highest_set M n"
  by (induction n) (auto simp: less_Suc_eq)

lemma highest_set_on: "0 \<le> highest_set M n \<Longrightarrow> valuator_mask_isset M (nat (highest_set M n))"
  by (induction n) (auto simp: max_def split: if_splits)

lemma unset_is_map:
  assumes "is_map M f" "i < 36"
  shows "\<exists>M'. valuator_mask_unset i M = Some M' \<and> is_map M' (f(i := None))"
proof (cases "int i \<le> last_bit M")
  case False
  then have "f i = None" using assms by (auto simp: is_map_def valuator_mask_fetch_double_def valuator_mask_isset_def)
  then have "f(i := None) = f" by auto
  with False assms(1) show ?thesis by (simp add: valuator_mask_unset_def)
next
  case True
  have wf: "wf_mask M" and f: "valuator_mask_fetch_double M = f" using assms(1) by (simp_all add: is_map_def)
  let ?M = "M\<lparr>mask_bytes := ClearBit (mask_bytes M) i, vals := (vals M)[i := 0], unaccelerated := (unaccelerated M)[i := 0]\<rparr>"
  let ?lb = "highest_set ?M (nat (last_bit M + 1))"
  let ?N = "?M\<lparr>last_bit := ?lb, has_unaccelerated := (?lb \<noteq> -1 \<and> has_unaccelerated M)\<rparr>"
  have b: "BitIsOn (mask_bytes ?N) j \<longleftrightarrow> j \<noteq> i \<and> BitIsOn (mask_bytes M) j" for j
    using BitIsOn_ClearBit [of i "mask_bytes M" j] wf assms(2) by (simp add: wf_mask_def)
  have on: "valuator_mask_isset ?M j \<longleftrightarrow> int j \<le> last_bit M \<and> BitIsOn (mask_bytes ?N) j" for j
    by (simp add: valuator_mask_isset_def)
  have lt: "?lb < 36" "-1 \<le> ?lb" using highest_set_bounds [of ?M "nat (last_bit M + 1)"] wf by (auto simp: wf_mask_def)
  have top: "0 \<le> ?lb \<Longrightarrow> BitIsOn (mask_bytes ?N) (nat ?lb)" using highest_set_on [of ?M] on by blast
  have "int j \<le> ?lb" if "j < 40" "BitIsOn (mask_bytes ?N) j" for j
  proof (rule highest_set_above)
    have l: "int j \<le> last_bit M" using that wf unfolding b wf_mask_def by blast
    then show "j < nat (last_bit M + 1)" by linarith
    show "valuator_mask_isset ?M j" using l that(2) on by blast
  qed
  moreover have "\<not> BitIsOn (mask_bytes ?N) j" if "36 \<le> j" "j < 40" for j using that wf unfolding b wf_mask_def by blast
  ultimately have w: "wf_mask ?N" using wf lt top unfolding wf_mask_def by simp
  have "valuator_mask_fetch_double ?N j = (f(i := None)) j" for j
    using wf assms(2) unfolding fetch_isset [OF w] isset_iff [OF w] b f [symmetric] fun_upd_apply fetch_isset [OF wf] isset_iff [OF wf]
    by (auto simp: wf_mask_def)
  then have "is_map ?N (f(i := None))" using w by (auto simp: is_map_def)
  moreover have "valuator_mask_unset i M = Some ?N" using True wf assms(2) by (simp add: valuator_mask_unset_def wf_mask_def Let_def)
  ultimately show ?thesis by blast
qed

lemma map_dom: "is_map M f \<Longrightarrow> dom f = {i. i < 36 \<and> BitIsOn (mask_bytes M) i}"
  by (auto simp: is_map_def dom_def fetch_isset isset_iff split: if_splits)

lemma size_of_set: "wf_mask M \<Longrightarrow> i < 36 \<Longrightarrow> BitIsOn (mask_bytes M) i \<Longrightarrow> i < nat (last_bit M + 1)"
  by (force simp: wf_mask_def zless_nat_eq_int_zless)

lemma num_valuators_card:
  assumes "is_map M f"
  shows "valuator_mask_num_valuators M = card (dom f)"
proof -
  have wf: "wf_mask M" using assms by (simp add: is_map_def)
  have "{i. i < nat (min (last_bit M + 1) (int MAX_VALUATORS)) \<and> BitIsOn (mask_bytes M) i} = {i. i < 36 \<and> BitIsOn (mask_bytes M) i}"
    using size_of_set [OF wf] wf by (auto simp: wf_mask_def MAX_VALUATORS_def)
  then show ?thesis by (simp add: valuator_mask_num_valuators_def CountBits_card map_dom [OF assms])
qed

lemma size_bound:
  assumes "is_map M f"
  shows "i \<in> dom f \<Longrightarrow> int i < valuator_mask_size M" "f \<noteq> Map.empty \<Longrightarrow> nat (valuator_mask_size M - 1) \<in> dom f"
    "f = Map.empty \<longleftrightarrow> valuator_mask_size M = 0"
proof -
  have wf: "wf_mask M" using assms by (simp add: is_map_def)
  then show le: "i \<in> dom f \<Longrightarrow> int i < valuator_mask_size M" for i
    by (auto simp: map_dom [OF assms] wf_mask_def valuator_mask_size_def)
  have on: "last_bit M = -1 \<or> nat (last_bit M) \<in> dom f" using wf by (auto simp: map_dom [OF assms] wf_mask_def)
  have e: "last_bit M = -1 \<Longrightarrow> dom f = {}" using le by (force simp: valuator_mask_size_def)
  show "f \<noteq> Map.empty \<Longrightarrow> nat (valuator_mask_size M - 1) \<in> dom f" using on e by (auto simp: valuator_mask_size_def)
  show "f = Map.empty \<longleftrightarrow> valuator_mask_size M = 0" using on e by (auto simp: valuator_mask_size_def)
qed

lemma mask_size_Max:
  assumes "is_map M f"
  shows "valuator_mask_size M = (if f = Map.empty then 0 else int (Max (dom f)) + 1)"
proof (cases "f = Map.empty")
  case False
  have fin: "finite (dom f)" by (simp add: map_dom [OF assms])
  have pos: "0 < valuator_mask_size M"
    using size_bound(3) [OF assms] False assms by (auto simp: is_map_def wf_mask_def valuator_mask_size_def)
  have "Max (dom f) = nat (valuator_mask_size M - 1)"
    by (rule Max_eqI [OF fin]) (use size_bound(1,2) [OF assms] False in fastforce)+
  then show ?thesis using False pos by simp
qed (use size_bound(3) [OF assms] in simp)

section \<open>Sequences of calls\<close>

datatype mask_op = Zero | Set nat rat | SetUnaccelerated nat rat rat | Unset nat | DropUnaccelerated

definition axis_in_mask :: "mask_op \<Rightarrow> valuator_mask \<Rightarrow> bool" where
  "axis_in_mask op M = (case op of Set i x \<Rightarrow> i < MAX_VALUATORS | SetUnaccelerated i x y \<Rightarrow> i < MAX_VALUATORS | Unset i \<Rightarrow> i < MAX_VALUATORS | _ \<Rightarrow> True)"

definition mask_do :: "mask_op \<Rightarrow> valuator_mask \<Rightarrow> valuator_mask option" where
  "mask_do op M = (case op of
       Zero \<Rightarrow> Some valuator_mask_zero
     | Set i x \<Rightarrow> valuator_mask_set_double i x M
     | SetUnaccelerated i x y \<Rightarrow> valuator_mask_set_unaccelerated i x y M
     | Unset i \<Rightarrow> valuator_mask_unset i M
     | DropUnaccelerated \<Rightarrow> Some (valuator_mask_drop_unaccelerated M))"

definition map_do :: "mask_op \<Rightarrow> (nat \<rightharpoonup> rat) \<Rightarrow> (nat \<rightharpoonup> rat)" where
  "map_do op f = (case op of
       Zero \<Rightarrow> Map.empty | Set i x \<Rightarrow> f(i \<mapsto> x) | SetUnaccelerated i x y \<Rightarrow> f(i \<mapsto> x) | Unset i \<Rightarrow> f(i := None) | DropUnaccelerated \<Rightarrow> f)"

lemma fetch_unaccelerated_irrelevant:
  "valuator_mask_fetch_double (M\<lparr>has_unaccelerated := b, unaccelerated := us\<rparr>) = valuator_mask_fetch_double M"
  by (simp add: fun_eq_iff valuator_mask_fetch_double_def valuator_mask_isset_def valuator_mask_get_double_def)

lemma unaccelerated_irrelevant:
  "length us = 36 \<Longrightarrow> is_map M f \<Longrightarrow> is_map (M\<lparr>has_unaccelerated := b, unaccelerated := us\<rparr>) f"
  by (simp add: is_map_def wf_mask_def fetch_unaccelerated_irrelevant)

lemma mask_op_refines:
  assumes "is_map M f" "axis_in_mask op M"
  shows "\<exists>M'. mask_do op M = Some M' \<and> is_map M' (map_do op f)"
proof (cases op)
  case (SetUnaccelerated i x y)
  then have "i < 36" using assms(2) by (simp add: axis_in_mask_def MAX_VALUATORS_def)
  from set_is_map [OF assms(1) this, of x] obtain M' where M': "valuator_mask_set_double i x M = Some M'" "is_map M' (f(i \<mapsto> x))" by blast
  have "length ((unaccelerated M')[i := y]) = 36" using M'(2) by (simp add: is_map_def wf_mask_def)
  from unaccelerated_irrelevant [OF this M'(2), of True] M'(1) SetUnaccelerated show ?thesis
    by (simp add: mask_do_def map_do_def valuator_mask_set_unaccelerated_def)
next
  case DropUnaccelerated
  with unaccelerated_irrelevant [of "replicate 36 0" M f False] assms(1) show ?thesis
    by (simp add: mask_do_def map_do_def valuator_mask_drop_unaccelerated_def)
qed (use assms zero_is_map set_is_map [OF assms(1)] unset_is_map [OF assms(1)] in
      \<open>fastforce simp: mask_do_def map_do_def axis_in_mask_def MAX_VALUATORS_def\<close>)+

interpretation axis_mask: data_refinement is_map axis_in_mask mask_do map_do
  by unfold_locales (rule mask_op_refines)

text \<open>
  The valuator masks of the X server are partial maps from axes to values: after any sequence of calls that
  clear a mask, set and remove axes below the maximum and drop the unaccelerated values, starting from
  a fresh mask, no access was outside the arrays, \<^verbatim>\<open>valuator_mask_fetch_double\<close> answers what the map holds, the
  number of valuators is the number of axes set, and the size is one above the highest of them.
\<close>

theorem masks_are_maps:
  assumes "run_ok axis_in_mask mask_do ops valuator_mask_zero"
  shows "\<exists>M f. run_ops mask_do ops valuator_mask_zero = Some M \<and> f = fold map_do ops Map.empty \<and> valuator_mask_fetch_double M = f \<and>
          valuator_mask_num_valuators M = card (dom f) \<and> valuator_mask_size M = (if f = Map.empty then 0 else int (Max (dom f)) + 1)"
proof -
  from axis_mask.run_refines [OF zero_is_map assms] obtain M
    where M: "run_ops mask_do ops valuator_mask_zero = Some M" "is_map M (fold map_do ops Map.empty)" by blast
  then show ?thesis using num_valuators_card [OF M(2)] mask_size_Max [OF M(2)] by (auto simp: is_map_def)
qed

theorem masks_are_maps_witness:
  "\<exists>M f. run_ops mask_do [Set 0 3, Set 5 (-7), Set 1 4, Unset 5] valuator_mask_zero = Some M \<and> f = [0 \<mapsto> 3, 1 \<mapsto> 4] \<and>
     valuator_mask_fetch_double M = f \<and> valuator_mask_num_valuators M = card (dom f)"
proof -
  have "run_ok axis_in_mask mask_do [Set 0 3, Set 5 (-7), Set 1 4, Unset 5] valuator_mask_zero" by code_simp
  from masks_are_maps [OF this] show ?thesis by (auto simp: map_do_def fun_upd_twist)
qed

end
