(* ===== verification/Dix_Touch.thy ===== *)
theory Dix_Touch
  imports Dix_Valuators
begin

text \<open>
  The touch points of a device as its driver names them (\<^verbatim>\<open>dix/touch.c\<close>) and the part of \<^verbatim>\<open>GetTouchEvents\<close>
  (\<^verbatim>\<open>dix/getevents.c\<close>) that begins, updates and ends them. The array of points is searched linearly and
  grows when all of its points are active; it represents a partial map from the ids of the driver. The
  \<open>n\<close>-th allocation succeeds when \<open>h n\<close> does; a use of a null pointer is the value \<open>None\<close>.
\<close>

section \<open>The table\<close>

record ddx_point =
  dp_client :: u32
  dp_active :: bool
  dp_ddx :: u32
  dp_emulate :: bool
  dp_values :: "valuator_mask option"

text \<open>\<open>next_client\<close> is the static counter of \<^verbatim>\<open>TouchBeginDDXTouch\<close>, at its width.\<close>

record ddx_table =
  points :: "ddx_point list"
  next_client :: u32
  tab_allocs :: nat

text \<open>\<open>touch_mode\<close> is the mode of the touch class of the device, \<open>True\<close> for direct touch, if it has such a class.\<close>

record touch_cfg =
  touchEmulatePointer :: bool
  touch_mode :: "bool option"

definition TouchInitDDXTouchPoint :: "heap \<Rightarrow> ddx_table \<Rightarrow> ddx_point \<times> ddx_table" where
  "TouchInitDDXTouchPoint h T =
     (\<lparr>dp_client = 0, dp_active = False, dp_ddx = 0, dp_emulate = False,
       dp_values = (if h (tab_allocs T) then Some valuator_mask_zero else None)\<rparr>,
      T\<lparr>tab_allocs := tab_allocs T + 1\<rparr>)"

fun init_ddx_points :: "heap \<Rightarrow> nat \<Rightarrow> ddx_table \<Rightarrow> ddx_table" where
  "init_ddx_points h 0 T = T"
| "init_ddx_points h (Suc n) T =
     (case TouchInitDDXTouchPoint h T of (p, T1) \<Rightarrow> init_ddx_points h n (T1\<lparr>points := points T1 @ [p]\<rparr>))"

definition TouchResizeQueue :: "heap \<Rightarrow> ddx_table \<Rightarrow> bool \<times> ddx_table" where
  "TouchResizeQueue h T =
     (let n = length (points T); m = n + n div 2 + 1; T1 = T\<lparr>tab_allocs := tab_allocs T + 1\<rparr> in
      if h (tab_allocs T) then (True, init_ddx_points h (m - n) T1) else (False, T1))"

fun find_ddx :: "u32 \<Rightarrow> nat \<Rightarrow> ddx_point list \<Rightarrow> nat option" where
  "find_ddx ddx i [] = None"
| "find_ddx ddx i (p # ps) = (if dp_active p \<and> dp_ddx p = ddx then Some i else find_ddx ddx (i + 1) ps)"

text \<open>The search for a free point: its first free one, and whether an active one was seen.\<close>

fun begin_scan :: "ddx_point list \<Rightarrow> nat \<Rightarrow> nat option \<Rightarrow> bool \<Rightarrow> nat option \<times> bool" where
  "begin_scan [] i ti em = (ti, em)"
| "begin_scan (p # ps) i ti em =
     (let em' = (if dp_active p then False else em);
          ti' = (if dp_active p then ti else if ti = None then Some i else ti)
      in if \<not> em' \<and> ti' \<noteq> None then (ti', em') else begin_scan ps (i + 1) ti' em')"

fun find_free :: "nat \<Rightarrow> ddx_point list \<Rightarrow> nat option" where
  "find_free i [] = None"
| "find_free i (p # ps) = (if dp_active p then find_free (i + 1) ps else Some i)"

lemma begin_scan_kept: "fst (begin_scan ps i (Some k) em) = Some k"
  by (induction ps arbitrary: i em) (simp_all add: Let_def)

lemma begin_scan_point: "fst (begin_scan ps i None em) = find_free i ps"
  by (induction ps arbitrary: i em) (simp_all add: Let_def begin_scan_kept)

lemma begin_scan_emulate: "snd (begin_scan ps i ti em) = (em \<and> (\<forall>p \<in> set ps. \<not> dp_active p))"
  by (induction ps arbitrary: i ti em) (auto simp: Let_def split: if_splits)

lemma begin_scan_eq: "begin_scan ps i None em = (find_free i ps, em \<and> (\<forall>p \<in> set ps. \<not> dp_active p))"
  using begin_scan_point [of ps i em] begin_scan_emulate [of ps i None em] by (cases "begin_scan ps i None em") simp

lemma find_free_None: "find_free i ps = None \<longleftrightarrow> (\<forall>p \<in> set ps. dp_active p)"
  by (induction ps arbitrary: i) simp_all

lemma find_free_Some: "find_free i ps = Some k \<Longrightarrow> i \<le> k \<and> k < i + length ps \<and> \<not> dp_active (ps ! (k - i))"
  by (induction ps arbitrary: i) (fastforce simp: nth_Cons' split: if_splits)+

lemma init_ddx_points_eq:
  "\<exists>ps. points (init_ddx_points h n T) = points T @ ps \<and> length ps = n \<and>
     (\<forall>p \<in> set ps. \<not> dp_active p \<and> ((\<forall>k. h k) \<longrightarrow> dp_values p = Some valuator_mask_zero)) \<and>
     next_client (init_ddx_points h n T) = next_client T"
proof (induction n arbitrary: T)
  case (Suc n)
  let ?p = "fst (TouchInitDDXTouchPoint h T)" and ?T = "snd (TouchInitDDXTouchPoint h T)"
  from Suc [of "?T\<lparr>points := points ?T @ [?p]\<rparr>"] obtain ps
    where ps: "points (init_ddx_points h (Suc n) T) = points T @ ?p # ps" "length ps = n"
      "\<forall>p \<in> set ps. \<not> dp_active p \<and> ((\<forall>k. h k) \<longrightarrow> dp_values p = Some valuator_mask_zero)"
      "next_client (init_ddx_points h (Suc n) T) = next_client T"
    by (auto simp: TouchInitDDXTouchPoint_def)
  moreover have "\<not> dp_active ?p \<and> ((\<forall>k. h k) \<longrightarrow> dp_values ?p = Some valuator_mask_zero)"
    by (simp add: TouchInitDDXTouchPoint_def)
  ultimately show ?case by (intro exI [of _ "?p # ps"]) simp
qed simp

lemma resize_points:
  assumes "TouchResizeQueue h T = (True, T')"
  shows "\<exists>ps. points T' = points T @ ps \<and> ps \<noteq> [] \<and> next_client T' = next_client T \<and>
    (\<forall>p \<in> set ps. \<not> dp_active p \<and> ((\<forall>k. h k) \<longrightarrow> dp_values p = Some valuator_mask_zero))"
proof -
  let ?n = "length (points T) + length (points T) div 2 + 1 - length (points T)"
  have "T' = init_ddx_points h ?n (T\<lparr>tab_allocs := tab_allocs T + 1\<rparr>)" "0 < ?n"
    using assms by (auto simp: TouchResizeQueue_def Let_def simp del: init_ddx_points.simps split: if_splits)
  then show ?thesis using init_ddx_points_eq [of h ?n "T\<lparr>tab_allocs := tab_allocs T + 1\<rparr>"]
    by (auto simp del: init_ddx_points.simps)
qed

lemma resize_free: "TouchResizeQueue h T = (True, T') \<Longrightarrow> \<exists>p \<in> set (points T'). \<not> dp_active p"
  using resize_points [of h T T'] by (auto simp: neq_Nil_conv)

text \<open>The endless loop of \<^verbatim>\<open>TouchBeginDDXTouch\<close> ends: a table that has just grown has a free point.\<close>

function begin_loop :: "heap \<Rightarrow> bool \<Rightarrow> ddx_table \<Rightarrow> nat option \<times> bool \<times> ddx_table" where
  "begin_loop h em T =
     (case begin_scan (points T) 0 None em of
        (Some i, em') \<Rightarrow> (Some i, em', T)
      | (None, em') \<Rightarrow>
          (case TouchResizeQueue h T of (True, T1) \<Rightarrow> begin_loop h em' T1 | (False, T1) \<Rightarrow> (None, em', T1)))"
  by auto

termination
  by (relation "measure (\<lambda>(h, em, T). if \<exists>p \<in> set (points T). \<not> dp_active p then 0 else 1)")
     (auto simp: begin_scan_eq find_free_None eq_commute [of None] dest!: resize_free [OF sym])

declare begin_loop.simps [simp del]

definition next_id :: "u32 \<Rightarrow> u32" where
  "next_id c = (if c + 1 = 0 then 1 else c + 1)"

definition TouchBeginDDXTouch :: "heap \<Rightarrow> touch_cfg \<Rightarrow> u32 \<Rightarrow> ddx_table \<Rightarrow> nat option \<times> ddx_table" where
  "TouchBeginDDXTouch h cfg ddx T = (case touch_mode cfg of
       None \<Rightarrow> (None, T)
     | Some direct \<Rightarrow>
         (if find_ddx ddx 0 (points T) \<noteq> None then (None, T)
          else case begin_loop h (touchEmulatePointer cfg \<and> direct) T of
            (None, em, T1) \<Rightarrow> (None, T1)
          | (Some i, em, T1) \<Rightarrow>
              (Some i, T1\<lparr>points := (points T1)[i := (points T1 ! i)\<lparr>dp_active := True, dp_ddx := ddx, dp_client := next_client T1, dp_emulate := em\<rparr>],
                          next_client := next_id (next_client T1)\<rparr>)))"

definition TouchFindByDDXID :: "heap \<Rightarrow> touch_cfg \<Rightarrow> u32 \<Rightarrow> bool \<Rightarrow> ddx_table \<Rightarrow> nat option \<times> ddx_table" where
  "TouchFindByDDXID h cfg ddx create T =
     (if touch_mode cfg = None then (None, T)
      else case find_ddx ddx 0 (points T) of
        Some i \<Rightarrow> (Some i, T)
      | None \<Rightarrow> if create then TouchBeginDDXTouch h cfg ddx T else (None, T))"

definition TouchEndDDXTouch :: "touch_cfg \<Rightarrow> nat \<Rightarrow> ddx_table \<Rightarrow> ddx_table" where
  "TouchEndDDXTouch cfg i T =
     (if touch_mode cfg = None then T else T\<lparr>points := (points T)[i := (points T ! i)\<lparr>dp_active := False\<rparr>]\<rparr>)"

section \<open>The table is a map\<close>

definition is_touch :: "u32 \<Rightarrow> ddx_point \<Rightarrow> bool" where
  "is_touch ddx p = (dp_active p \<and> dp_ddx p = ddx)"

definition touch_map :: "ddx_table \<Rightarrow> u32 \<rightharpoonup> ddx_point" where
  "touch_map T ddx = find (is_touch ddx) (points T)"

definition has_mask :: "ddx_point \<Rightarrow> bool" where
  "has_mask p = (case dp_values p of Some M \<Rightarrow> wf_mask M | None \<Rightarrow> False)"

definition wf_touches :: "ddx_point list \<Rightarrow> bool" where
  "wf_touches ps = (distinct (map dp_ddx (filter dp_active ps)) \<and> (\<forall>p \<in> set ps. has_mask p))"

lemma point_mask: "wf_touches ps \<Longrightarrow> k < length ps \<Longrightarrow> \<exists>V. dp_values (ps ! k) = Some V \<and> wf_mask V"
  using nth_mem [of k ps] by (fastforce simp: wf_touches_def has_mask_def split: option.splits)

lemma touch_map_frame [simp]: "touch_map (T\<lparr>tab_allocs := n\<rparr>) = touch_map T" "touch_map (T\<lparr>next_client := c\<rparr>) = touch_map T"
  by (simp_all add: touch_map_def fun_eq_iff)

lemma find_ddx_Some:
  "find_ddx ddx i ps = Some k \<Longrightarrow> i \<le> k \<and> k < i + length ps \<and> is_touch ddx (ps ! (k - i)) \<and> find (is_touch ddx) ps = Some (ps ! (k - i))"
  by (induction ps arbitrary: i) (fastforce simp: is_touch_def nth_Cons' split: if_splits)+

lemma find_ddx_None: "find_ddx ddx i ps = None \<longleftrightarrow> (\<forall>p \<in> set ps. \<not> is_touch ddx p)"
  by (induction ps arbitrary: i) (simp_all add: is_touch_def)

lemma find_None: "find P xs = None \<longleftrightarrow> (\<forall>x \<in> set xs. \<not> P x)"
  by (auto simp: find_None_iff)

lemma find_ddx_map: "find_ddx ddx 0 (points T) = None \<longleftrightarrow> touch_map T ddx = None"
  by (simp add: find_ddx_None touch_map_def find_None)

lemma find_append: "find P (xs @ ys) = (case find P xs of Some x \<Rightarrow> Some x | None \<Rightarrow> find P ys)"
  by (induction xs) simp_all

lemma begin_loop_free:
  "find_free 0 (points T) = Some k \<Longrightarrow> begin_loop h em T = (Some k, em \<and> (\<forall>p \<in> set (points T). \<not> dp_active p), T)"
  by (subst begin_loop.simps) (simp add: begin_scan_eq)

lemma find_free_append: "\<forall>p \<in> set ps. dp_active p \<Longrightarrow> find_free i (ps @ qs) = find_free (i + length ps) qs"
  by (induction ps arbitrary: i) simp_all

lemma begin_loop_full:
  assumes "\<forall>p \<in> set (points T). dp_active p" "TouchResizeQueue h T = (ok, T1)"
  shows "begin_loop h em T =
    (if ok then (Some (length (points T)), em \<and> points T = [], T1) else (None, em \<and> points T = [], T1))"
proof -
  have a: "(\<forall>p \<in> set (points T). \<not> dp_active p) \<longleftrightarrow> points T = []" using assms(1) by (cases "points T") auto
  have l: "begin_loop h em T = (case TouchResizeQueue h T of (True, T1) \<Rightarrow> begin_loop h (em \<and> points T = []) T1 | (False, T1) \<Rightarrow> (None, em \<and> points T = [], T1))"
    using assms(1) a by (subst begin_loop.simps) (simp add: begin_scan_eq find_free_None [THEN iffD2])
  show ?thesis
  proof (cases ok)
    case True
    then obtain ps where ps: "points T1 = points T @ ps" "ps \<noteq> []" "\<forall>p \<in> set ps. \<not> dp_active p"
      using assms(2) resize_points [of h T T1] by auto
    then have "find_free 0 (points T1) = Some (length (points T))"
      using find_free_append [OF assms(1), of 0 ps] by (cases ps) auto
    from begin_loop_free [OF this] True show ?thesis unfolding l assms(2) using ps assms(1) by (cases "points T") auto
  next
    case False
    then show ?thesis unfolding l assms(2) by simp
  qed
qed

text \<open>Taking a free point for an id that has none, and giving the point of an id back.\<close>

lemma take_point:
  assumes "wf_touches (xs @ q # ys)" "\<not> dp_active q" "find (is_touch ddx) (xs @ q # ys) = None" "is_touch ddx p" "has_mask p"
  shows "wf_touches (xs @ p # ys)" "find (is_touch c) (xs @ p # ys) = (if c = ddx then Some p else find (is_touch c) (xs @ q # ys))"
proof -
  have n: "\<forall>r \<in> set xs \<union> set ys. \<not> is_touch ddx r" using assms(3) unfolding find_None by auto
  then show "wf_touches (xs @ p # ys)" using assms by (auto simp: wf_touches_def is_touch_def)
  show "find (is_touch c) (xs @ p # ys) = (if c = ddx then Some p else find (is_touch c) (xs @ q # ys))"
    using n assms(2,4) find_None [of "is_touch ddx" xs] by (auto simp: find_append is_touch_def split: option.split)
qed

lemma change_point:
  assumes "wf_touches (xs @ q # ys)" "is_touch ddx q" "dp_ddx p = ddx" "has_mask p"
  shows "wf_touches (xs @ p # ys)"
    "find (is_touch c) (xs @ p # ys) = (if c = ddx then if dp_active p then Some p else None else find (is_touch c) (xs @ q # ys))"
proof -
  have "ddx \<notin> dp_ddx ` {r \<in> set xs. dp_active r}" "ddx \<notin> dp_ddx ` {r \<in> set ys. dp_active r}"
    using assms(1,2) by (auto simp: wf_touches_def is_touch_def)
  then have n: "\<forall>r \<in> set xs \<union> set ys. \<not> is_touch ddx r" unfolding is_touch_def by blast
  then show "wf_touches (xs @ p # ys)" using assms by (auto simp: wf_touches_def is_touch_def)
  show "find (is_touch c) (xs @ p # ys) = (if c = ddx then if dp_active p then Some p else None else find (is_touch c) (xs @ q # ys))"
    using n assms(2,3) find_None [of "is_touch ddx" xs] find_None [of "is_touch ddx" ys]
    by (auto simp: find_append is_touch_def split: option.split)
qed

lemma split_at: "k < length xs \<Longrightarrow> \<exists>us q vs. xs = us @ q # vs \<and> xs ! k = q \<and> (\<forall>y. xs[k := y] = us @ y # vs)"
  using id_take_nth_drop [of k xs] upd_conv_take_nth_drop [of k xs] by blast

lemma take_point_at:
  assumes "wf_touches ps" "k < length ps" "\<not> dp_active (ps ! k)" "find (is_touch ddx) ps = None" "is_touch ddx p" "has_mask p"
  shows "wf_touches (ps[k := p])" "find (is_touch c) (ps[k := p]) = (if c = ddx then Some p else find (is_touch c) ps)"
proof -
  obtain us q vs where e: "ps = us @ q # vs" "ps ! k = q" "\<forall>y. ps[k := y] = us @ y # vs" using split_at [OF assms(2)] by blast
  have e3: "ps[k := p] = us @ p # vs" using e(3) by blast
  note t = take_point [OF assms(1) [unfolded e(1)] assms(3) [unfolded e(2)] assms(4) [unfolded e(1)] assms(5,6)]
  show "wf_touches (ps[k := p])" unfolding e3 by (rule t)
  show "find (is_touch c) (ps[k := p]) = (if c = ddx then Some p else find (is_touch c) ps)" unfolding e3 unfolding e(1) by (rule t)
qed

lemma change_point_at:
  assumes "wf_touches ps" "k < length ps" "is_touch ddx (ps ! k)" "dp_ddx p = ddx" "has_mask p"
  shows "wf_touches (ps[k := p])"
    "find (is_touch c) (ps[k := p]) = (if c = ddx then if dp_active p then Some p else None else find (is_touch c) ps)"
proof -
  obtain us q vs where e: "ps = us @ q # vs" "ps ! k = q" "\<forall>y. ps[k := y] = us @ y # vs" using split_at [OF assms(2)] by blast
  have e3: "ps[k := p] = us @ p # vs" using e(3) by blast
  note t = change_point [OF assms(1) [unfolded e(1)] assms(3) [unfolded e(2)] assms(4,5)]
  show "wf_touches (ps[k := p])" unfolding e3 by (rule t)
  show "find (is_touch c) (ps[k := p]) = (if c = ddx then if dp_active p then Some p else None else find (is_touch c) ps)"
    unfolding e3 unfolding e(1) by (rule t)
qed

text \<open>Beginning a touch: the point of an id that is active, else a free one.\<close>

lemma begin_touch:
  assumes wf: "wf_touches (points T)" and n: "touch_map T ddx = None" and h: "\<forall>k. h k" and c: "touch_mode cfg = Some direct"
  shows "\<exists>k T' p. TouchBeginDDXTouch h cfg ddx T = (Some k, T') \<and> k < length (points T') \<and> points T' ! k = p \<and> wf_touches (points T') \<and>
    touch_map T' = (touch_map T)(ddx \<mapsto> p) \<and> is_touch ddx p \<and> dp_client p = next_client T \<and>
    dp_emulate p = (touchEmulatePointer cfg \<and> direct \<and> touch_map T = Map.empty) \<and> next_client T' = next_id (next_client T)"
proof -
  let ?em = "touchEmulatePointer cfg \<and> direct"
  have emp: "(\<forall>p \<in> set (points T). \<not> dp_active p) \<longleftrightarrow> touch_map T = Map.empty"
    by (auto simp: touch_map_def fun_eq_iff find_None is_touch_def)
  have "\<exists>k T1. begin_loop h ?em T = (Some k, ?em \<and> touch_map T = Map.empty, T1) \<and> k < length (points T1) \<and> \<not> dp_active (points T1 ! k) \<and>
    wf_touches (points T1) \<and> touch_map T1 = touch_map T \<and> next_client T1 = next_client T"
  proof (cases "find_free 0 (points T)")
    case None
    then have a: "\<forall>p \<in> set (points T). dp_active p" by (simp add: find_free_None)
    obtain T1 where r: "TouchResizeQueue h T = (True, T1)" using h by (simp add: TouchResizeQueue_def Let_def del: init_ddx_points.simps)
    from resize_points [OF r] obtain ps where ps: "points T1 = points T @ ps" "ps \<noteq> []" "next_client T1 = next_client T"
      "\<forall>p \<in> set ps. \<not> dp_active p \<and> dp_values p = Some valuator_mask_zero" using h by auto
    have f: "find (is_touch c) (points T @ ps) = find (is_touch c) (points T)" for c
      using ps(4) find_None [of "is_touch c" ps] by (auto simp: find_append is_touch_def split: option.split)
    have "filter dp_active ps = []" using ps(4) by (simp add: filter_empty_conv)
    moreover have "wf_mask valuator_mask_zero" using zero_is_map by (simp add: is_map_def)
    ultimately have w: "wf_touches (points T1)" using wf ps(1,4) by (auto simp: wf_touches_def has_mask_def)
    have "points T = [] \<longleftrightarrow> touch_map T = Map.empty" using a emp by (cases "points T") (auto simp: touch_map_def)
    with begin_loop_full [OF a r, of ?em] ps w f show ?thesis by (auto simp: touch_map_def fun_eq_iff nth_append hd_conv_nth [symmetric])
  next
    case (Some k)
    with find_free_Some [OF this] begin_loop_free [OF this, of h ?em] emp wf show ?thesis by auto
  qed
  then obtain k T1 where T1: "begin_loop h ?em T = (Some k, ?em \<and> touch_map T = Map.empty, T1)" "k < length (points T1)"
    "\<not> dp_active (points T1 ! k)" "wf_touches (points T1)" "touch_map T1 = touch_map T" "next_client T1 = next_client T" by blast
  let ?p = "(points T1 ! k)\<lparr>dp_active := True, dp_ddx := ddx, dp_client := next_client T1, dp_emulate := ?em \<and> touch_map T = Map.empty\<rparr>"
  have p: "is_touch ddx ?p" "has_mask ?p" using T1(2,4) by (auto simp: is_touch_def has_mask_def wf_touches_def)
  have "find (is_touch ddx) (points T1) = None" using n T1(5) by (simp add: touch_map_def fun_eq_iff)
  note t = take_point_at [OF T1(4,2,3) this p]
  have "TouchBeginDDXTouch h cfg ddx T = (Some k, T1\<lparr>points := (points T1)[k := ?p], next_client := next_id (next_client T1)\<rparr>)"
    using n T1(1) c by (simp add: TouchBeginDDXTouch_def find_ddx_map)
  moreover have "touch_map (T1\<lparr>points := (points T1)[k := ?p], next_client := next_id (next_client T1)\<rparr>) = (touch_map T)(ddx \<mapsto> ?p)"
    using t(2) T1(5) by (simp add: touch_map_def fun_eq_iff)
  ultimately show ?thesis using t(1) p T1(2,6) by auto
qed

end
