(* ===== verification/Lorie_Masks.thy ===== *)
theory Lorie_Masks
  imports Dix_Valuators Lorie_Input
begin

text \<open>
  The valuator mask of \<^verbatim>\<open>handleLorieEvents\<close>: the calls the dispatcher makes on it for each event, and that
  the partial map of the dispatcher's state is what the mask of the X server holds after them.
\<close>

definition stylus_mask_calls :: "input_env \<Rightarrow> u32 \<Rightarrow> u32 \<Rightarrow> u16 \<Rightarrow> u8 \<Rightarrow> u8 \<Rightarrow> u16 \<Rightarrow> device \<Rightarrow> mask_op list" where
  "stylus_mask_calls E x y pressure tilt_x tilt_y orientation d =
     [Set 0 (clamp (float_value E x) (screen_width E)), Set 1 (clamp (float_value E y) (screen_height E))] @
     (if d \<noteq> Mouse
      then [Set 2 (of_nat (unat pressure)), Set 3 (signed8 tilt_x), Set 4 (signed8 tilt_y), Set 5 (signed16 orientation)]
      else [])"

definition mouse_mask_calls :: "input_env \<Rightarrow> u32 \<Rightarrow> u32 \<Rightarrow> u8 \<Rightarrow> u8 \<Rightarrow> mask_op list" where
  "mouse_mask_calls E x y detail relative =
     (let vx = float_value E x; vy = float_value E y in
      if detail = 0 then
        if relative \<noteq> 0 then [Set 0 vx, Set 1 vy]
        else [Set 0 (clamp vx (screen_width E)), Set 1 (clamp vy (screen_height E))]
      else if detail = 4 then
        (if vx \<noteq> 0 then [Zero, Set 2 (vx / 120)] else []) @ (if vy \<noteq> 0 then [Zero, Set 3 (vy / 120)] else [])
      else [])"

definition mask_calls :: "input_env \<Rightarrow> lorieEvent \<Rightarrow> input \<Rightarrow> mask_op list" where
  "mask_calls E e S = (case e of
       EVENT_STYLUS x y p tx ty ori b er mo \<Rightarrow>
         (let d = stylus_device mo er in if d \<notin> devices S then [] else stylus_mask_calls E x y p tx ty ori d)
     | EVENT_MOUSE x y d dn r \<Rightarrow> mouse_mask_calls E x y d r
     | _ \<Rightarrow> [])"

text \<open>All calls of one read, in the order the loop makes them, after the mask was cleared.\<close>

fun read_mask_calls :: "input_env \<Rightarrow> (lorieEvent \<times> bytes) list \<Rightarrow> input \<Rightarrow> mask_op list" where
  "read_mask_calls E [] S = []"
| "read_mask_calls E (m # ms) S = mask_calls E (fst m) S @ read_mask_calls E ms (dispatch E m S)"

lemma vmask_queue_event [simp]: "vmask (queue_event e S) = vmask S" "vmask (QueueWorkProc w S) = vmask S"
  by (simp_all add: queue_event_def QueueWorkProc_def)

lemma vmask_stylus_enabled [simp]: "vmask (lorieSetStylusEnabled b S) = vmask S"
  by (simp add: lorieSetStylusEnabled_def Let_def)

lemma dispatch_vmask: "vmask (dispatch E m S) = fold map_do (mask_calls E (fst m) S) (vmask S)"
proof (cases "fst m")
  case EVENT_STYLUS
  then show ?thesis by (simp add: dispatch_def mask_calls_def handle_stylus_def stylus_mask_calls_def Let_def map_do_def)
next
  case EVENT_MOUSE
  then show ?thesis by (simp add: dispatch_def mask_calls_def handle_mouse_def mouse_mask_calls_def move_mouse_def Let_def map_do_def)
qed (simp_all add: dispatch_def mask_calls_def)

lemma read_vmask: "vmask (fold (dispatch E) ms S) = fold map_do (read_mask_calls E ms S) (vmask S)"
  by (induction ms arbitrary: S) (simp_all add: dispatch_vmask)

definition small_axis :: "mask_op \<Rightarrow> bool" where
  "small_axis op = (case op of Set i x \<Rightarrow> i < 6 | Zero \<Rightarrow> True | _ \<Rightarrow> False)"

lemma mask_calls_small: "list_all small_axis (mask_calls E e S)"
  by (auto simp: mask_calls_def stylus_mask_calls_def mouse_mask_calls_def small_axis_def Let_def split: lorieEvent.split)

lemma read_calls_small: "list_all small_axis (read_mask_calls E ms S)"
  by (induction ms arbitrary: S) (simp_all add: mask_calls_small)

lemma small_axes_run: "list_all small_axis ls \<Longrightarrow> run_ok axis_in_mask mask_do ls M"
  by (induction ls arbitrary: M)
     (auto simp: small_axis_def axis_in_mask_def MAX_VALUATORS_def split: mask_op.splits option.splits)

text \<open>
  The valuator mask in which the dispatcher collects axis values is used within its bounds and holds what
  the model of the dispatcher says: after the events of one read, the calls on a cleared mask in their
  order succeed, and looking an axis up in that mask gives its value in the dispatcher's state.
\<close>

theorem dispatcher_mask:
  "\<exists>M. run_ops mask_do (Zero # read_mask_calls E ms (S\<lparr>vmask := Map.empty\<rparr>)) M0 = Some M \<and>
       valuator_mask_fetch_double M = vmask (fold (dispatch E) ms (S\<lparr>vmask := Map.empty\<rparr>)) \<and>
       valuator_mask_num_valuators M \<le> 6"
proof -
  let ?S = "S\<lparr>vmask := Map.empty\<rparr>"
  let ?ls = "read_mask_calls E ms ?S"
  from axis_mask.run_refines [OF zero_is_map small_axes_run [OF read_calls_small]] obtain M
    where M: "run_ops mask_do ?ls valuator_mask_zero = Some M" "is_map M (fold map_do ?ls Map.empty)" by blast
  have "dom (fold map_do ls f) \<subseteq> dom f \<union> {..<6}" if "list_all small_axis ls" for ls f
    using that by (induction ls arbitrary: f) (force simp: map_do_def small_axis_def split: mask_op.splits)+
  from this [OF read_calls_small, where f = Map.empty] have "dom (fold map_do ?ls Map.empty) \<subseteq> {..<6}" by simp
  then have "card (dom (fold map_do ?ls Map.empty)) \<le> 6" using card_mono [of "{..<6::nat}"] by fastforce
  then show ?thesis
    using M num_valuators_card [OF M(2)] read_vmask [of E ms ?S] by (auto simp: mask_do_def is_map_def)
qed

end
