(* ===== verification/Lorie_Touch.thy ===== *)
theory Lorie_Touch
  imports Dix_Touch Lorie_Masks
begin

text \<open>
  Touch events of the activity on the server's table of touch points: \<^verbatim>\<open>handleTouchEvent\<close> of
  \<^verbatim>\<open>lorie/cmdentrypoint.c\<close> with the lookups and masks it uses, and what \<^verbatim>\<open>GetTouchEvents\<close> of
  \<^verbatim>\<open>dix/getevents.c\<close> does to the table before it computes coordinates. Together they refine the map of touches
  in the dispatcher's state.
\<close>

section \<open>Events on the table\<close>

text \<open>The values of a direct touch: those of the event are recorded in the touch point, and a position the event
  lacks is taken from there. The bound of the loop is not changed by what it sets.\<close>

fun record_values :: "nat list \<Rightarrow> valuator_mask \<Rightarrow> valuator_mask \<Rightarrow> (valuator_mask \<times> valuator_mask) option" where
  "record_values [] M V = Some (M, V)"
| "record_values (i # is) M V = (case valuator_mask_fetch_double M i of
       Some x \<Rightarrow> Option.bind (valuator_mask_set_double i x V) (record_values is M)
     | None \<Rightarrow>
         (case (if i < 2 then valuator_mask_fetch_double V i else None) of
            Some x \<Rightarrow> Option.bind (valuator_mask_set_double i x M) (\<lambda>M1. record_values is M1 V)
          | None \<Rightarrow> record_values is M V))"

definition mask_has_position :: "valuator_mask option \<Rightarrow> bool" where
  "mask_has_position mask_in = (case mask_in of None \<Rightarrow> False | Some M \<Rightarrow> valuator_mask_isset M 0 \<and> valuator_mask_isset M 1)"

text \<open>The answer is the id for the clients, whether the touch emulates the pointer, and the mask of values;
  there is none where \<^verbatim>\<open>GetTouchEvents\<close> generates no event.\<close>

definition touch_event_point ::
  "heap \<Rightarrow> touch_cfg \<Rightarrow> bool \<Rightarrow> bool \<Rightarrow> u32 \<Rightarrow> u16 \<Rightarrow> valuator_mask option \<Rightarrow> ddx_table \<Rightarrow> (ddx_table \<times> (u32 \<times> bool \<times> valuator_mask) option) option" where
  "touch_event_point h cfg dev_enabled has_valuators ddx ty mask_in T = (case touch_mode cfg of
       None \<Rightarrow> Some (T, None)
     | Some direct \<Rightarrow>
         (if \<not> dev_enabled \<or> \<not> has_valuators then Some (T, None)
          else case TouchFindByDDXID h cfg ddx (ty = XI_TouchBegin) T of
            (None, T1) \<Rightarrow> Some (T1, None)
          | (Some k, T1) \<Rightarrow>
              let p = points T1 ! k; M = valuator_mask_copy mask_in in
              if ty = XI_TouchBegin \<and> \<not> mask_has_position mask_in then Some (T1, None)
              else if ty \<noteq> XI_TouchBegin \<and> ty \<noteq> XI_TouchUpdate \<and> ty \<noteq> XI_TouchEnd then Some (T1, None)
              else
                let T2 = (if ty = XI_TouchEnd then TouchEndDDXTouch cfg k T1 else T1) in
                if \<not> direct then Some (T2, Some (dp_client p, dp_emulate p, M))
                else case dp_values p of
                  None \<Rightarrow> None
                | Some V \<Rightarrow>
                    map_option (\<lambda>(M1, V1). (T2\<lparr>points := (points T2)[k := (points T2 ! k)\<lparr>dp_values := Some V1\<rparr>]\<rparr>, Some (dp_client p, dp_emulate p, M1)))
                      (record_values [0..<nat (max (valuator_mask_size M) 2)] M V)))"

definition same_position :: "ddx_point \<Rightarrow> rat \<Rightarrow> rat \<Rightarrow> bool option" where
  "same_position p x y = (case dp_values p of
       None \<Rightarrow> None
     | Some V \<Rightarrow> Some (valuator_mask_fetch_double V 0 = Some x \<and> valuator_mask_fetch_double V 1 = Some y))"

definition position_mask :: "rat \<Rightarrow> rat \<Rightarrow> valuator_mask option" where
  "position_mask x y = run_ops mask_do [Zero, Set 0 x, Set 1 y] valuator_mask_zero"

text \<open>The whole handler on the table; the answer has the type of the event and what it was generated from.\<close>

definition handle_touch_table ::
  "heap \<Rightarrow> touch_cfg \<Rightarrow> input_env \<Rightarrow> u16 \<Rightarrow> u16 \<Rightarrow> u16 \<Rightarrow> u16 \<Rightarrow> ddx_table \<Rightarrow> (ddx_table \<times> (u16 \<times> u32 \<times> bool \<times> valuator_mask) option) option" where
  "handle_touch_table h cfg E ty i ex ey T =
     (let x = clamp (of_nat (unat ex)) (screen_width E); y = clamp (of_nat (unat ey)) (screen_height E);
          ti = fst (TouchFindByDDXID h cfg (ucast i) False T);
          active = (case ti of None \<Rightarrow> False | Some k \<Rightarrow> dp_active (points T ! k)) in
      Option.bind (if active \<and> ty = XI_TouchUpdate then same_position (points T ! the ti) x y else Some False) (\<lambda>same.
      if same then Some (T, None)
      else
        let ty' = (if ty = XI_TouchUpdate \<and> \<not> active then XI_TouchBegin else ty) in
        if ty' = XI_TouchEnd \<and> \<not> active then Some (T, None)
        else
          Option.bind (position_mask (to_axis x (screen_width E)) (to_axis y (screen_height E))) (\<lambda>M.
          map_option (\<lambda>(T1, ev). (T1, map_option (Pair ty') ev)) (touch_event_point h cfg True True (ucast i) ty' (Some M) T))))"

section \<open>Refinement\<close>

definition point_position :: "ddx_point \<Rightarrow> rat option \<times> rat option" where
  "point_position p = (case dp_values p of
       None \<Rightarrow> (None, None) | Some V \<Rightarrow> (valuator_mask_fetch_double V 0, valuator_mask_fetch_double V 1))"

definition holds_touches :: "ddx_table \<Rightarrow> (u16 \<rightharpoonup> rat \<times> rat) \<Rightarrow> bool" where
  "holds_touches T f =
     (wf_touches (points T) \<and> (\<forall>i. map_option point_position (touch_map T (ucast i)) = map_option (map_prod Some Some) (f i)))"

lemma ucast_touch_id: "(ucast (i :: u16) :: u32) = ucast j \<longleftrightarrow> i = j"
  by transfer simp

lemma position_mask_map: "\<exists>M. position_mask x y = Some M \<and> is_map M [0 \<mapsto> x, 1 \<mapsto> y]"
proof -
  have "run_ok axis_in_mask mask_do [Zero, Set 0 x, Set 1 y] valuator_mask_zero"
    by (rule small_axes_run) (simp add: small_axis_def)
  from axis_mask.run_refines [OF zero_is_map this] show ?thesis unfolding position_mask_def by (simp add: map_do_def)
qed

lemma record_position:
  assumes M: "is_map M [0 \<mapsto> x, 1 \<mapsto> y]" and V: "wf_mask V"
  shows "\<exists>V'. record_values [0..<nat (max (valuator_mask_size M) 2)] M V = Some (M, V') \<and> wf_mask V' \<and>
    valuator_mask_fetch_double V' 0 = Some x \<and> valuator_mask_fetch_double V' 1 = Some y"
proof -
  have "valuator_mask_size M = 2" using mask_size_Max [OF M] by (simp add: map_upd_nonempty)
  then have r: "[0..<nat (max (valuator_mask_size M) 2)] = [0, 1]" by (simp add: upt_rec)
  have m: "valuator_mask_fetch_double M 0 = Some x" "valuator_mask_fetch_double M 1 = Some y" using M by (simp_all add: is_map_def)
  have V: "is_map V (valuator_mask_fetch_double V)" using V by (simp add: is_map_def)
  from set_is_map [OF this, of 0 x] obtain V1 where V1: "valuator_mask_set_double 0 x V = Some V1" "is_map V1 ((valuator_mask_fetch_double V)(0 \<mapsto> x))" by auto
  from set_is_map [OF this(2), of 1 y] obtain V2
    where V2: "valuator_mask_set_double 1 y V1 = Some V2" "is_map V2 ((valuator_mask_fetch_double V)(0 \<mapsto> x, 1 \<mapsto> y))" by auto
  then show ?thesis unfolding r using V1 m by (simp add: is_map_def)
qed

text \<open>The point of an event that is generated: the one of its id, or a new one.\<close>

lemma find_or_begin:
  assumes "wf_touches (points T)" "\<forall>k. h k" "touch_mode cfg = Some direct" "ty = XI_TouchBegin \<or> touch_map T ddx \<noteq> None"
  shows "\<exists>k T1 p. TouchFindByDDXID h cfg ddx (ty = XI_TouchBegin) T = (Some k, T1) \<and> k < length (points T1) \<and> points T1 ! k = p \<and>
    wf_touches (points T1) \<and> is_touch ddx p \<and> touch_map T1 = (touch_map T)(ddx \<mapsto> p)"
proof (cases "find_ddx ddx 0 (points T)")
  case None
  then have n: "touch_map T ddx = None" by (simp add: find_ddx_map)
  then have "ty = XI_TouchBegin" using assms(4) by blast
  with begin_touch [OF assms(1) n assms(2,3)] None assms(3) show ?thesis by (auto simp: TouchFindByDDXID_def)
next
  case (Some k)
  from find_ddx_Some [OF this] have k: "k < length (points T)" "is_touch ddx (points T ! k)" "touch_map T ddx = Some (points T ! k)"
    by (simp_all add: touch_map_def)
  then have "(touch_map T)(ddx \<mapsto> points T ! k) = touch_map T" by auto
  with Some k assms(1,3) show ?thesis by (auto simp: TouchFindByDDXID_def)
qed

lemma touch_event_step:
  assumes T: "holds_touches T f" and h: "\<forall>k. h k" and c: "touch_mode cfg = Some True" and M: "is_map M [0 \<mapsto> x, 1 \<mapsto> y]"
    and ty: "ty \<in> touch_types" "ty = XI_TouchBegin \<or> f i \<noteq> None"
  shows "\<exists>T' client em. touch_event_point h cfg True True (ucast i) ty (Some M) T = Some (T', Some (client, em, M)) \<and>
    holds_touches T' (f(i := if ty = XI_TouchEnd then None else Some (x, y)))"
proof -
  let ?d = "ucast i :: u32"
  have wf: "wf_touches (points T)" and f: "\<And>j. map_option point_position (touch_map T (ucast j)) = map_option (map_prod Some Some) (f j)"
    using T by (simp_all add: holds_touches_def)
  have "ty = XI_TouchBegin \<or> touch_map T ?d \<noteq> None" using ty(2) f [of i] by (cases "f i") auto
  from find_or_begin [OF wf h c this] obtain k T1 p
    where T1: "TouchFindByDDXID h cfg ?d (ty = XI_TouchBegin) T = (Some k, T1)" "k < length (points T1)" "points T1 ! k = p"
      "wf_touches (points T1)" "is_touch ?d p" "touch_map T1 = (touch_map T)(?d \<mapsto> p)" by blast
  obtain V where V: "dp_values p = Some V" "wf_mask V"
    using point_mask [OF T1(4,2)] T1(3) by blast
  from record_position [OF M V(2)] obtain V'
    where V': "record_values [0..<nat (max (valuator_mask_size M) 2)] M V = Some (M, V')" "wf_mask V'"
      "valuator_mask_fetch_double V' 0 = Some x" "valuator_mask_fetch_double V' 1 = Some y" by blast
  let ?p = "p\<lparr>dp_active := (ty \<noteq> XI_TouchEnd), dp_values := Some V'\<rparr>"
  have "dp_active p" using T1(5) by (simp add: is_touch_def)
  then have pp: "p\<lparr>dp_active := True, dp_values := Some V'\<rparr> = p\<lparr>dp_values := Some V'\<rparr>" by simp
  have pos: "mask_has_position (Some M)" using isset_map [OF M] by (simp add: mask_has_position_def)
  have e: "touch_event_point h cfg True True ?d ty (Some M) T =
      Some (T1\<lparr>points := (points T1)[k := ?p]\<rparr>, Some (dp_client p, dp_emulate p, M))"
    using T1(1,2,3) V(1) V'(1) c pos pp ty(1)
    by (auto simp: touch_event_point_def TouchEndDDXTouch_def valuator_mask_copy_def Let_def touch_types_def)
  have "dp_ddx ?p = ?d" "has_mask ?p" using T1(5) V'(2) by (simp_all add: is_touch_def has_mask_def)
  note ch = change_point_at [OF T1(4,2) _ this]
  have "holds_touches (T1\<lparr>points := (points T1)[k := ?p]\<rparr>) (f(i := if ty = XI_TouchEnd then None else Some (x, y)))"
    using ch T1(3,5,6) f V'(3,4) by (auto simp: holds_touches_def touch_map_def fun_eq_iff point_position_def ucast_touch_id)
  with e show ?thesis by blast
qed

lemma table_step:
  assumes T: "holds_touches T (touches S)" and h: "\<forall>k. h k" and c: "touch_mode cfg = Some True" and ty: "ty \<in> touch_types"
  shows "\<exists>T' ev. handle_touch_table h cfg E ty i ex ey T = Some (T', ev) \<and> holds_touches T' (touches (handleTouchEvent E ty i ex ey S)) \<and>
    events (handleTouchEvent E ty i ex ey S) = events S @ (case ev of None \<Rightarrow> [] | Some (ty', client, em, M) \<Rightarrow>
      [TouchEvent ty' i (the (valuator_mask_fetch_double M 0)) (the (valuator_mask_fetch_double M 1))])"
proof -
  let ?d = "ucast i :: u32" and ?x = "clamp (of_nat (unat ex)) (screen_width E)" and ?y = "clamp (of_nat (unat ey)) (screen_height E)"
  let ?ti = "find_ddx ?d 0 (points T)"
  have f: "map_option point_position (touch_map T ?d) = map_option (map_prod Some Some) (touches S i)" and wf: "wf_touches (points T)"
    using T by (simp_all add: holds_touches_def)
  have ti: "fst (TouchFindByDDXID h cfg ?d False T) = ?ti" using c by (auto simp: TouchFindByDDXID_def split: option.split)
  have act: "(case ?ti of None \<Rightarrow> False | Some k \<Rightarrow> dp_active (points T ! k)) \<longleftrightarrow> touches S i \<noteq> None"
  proof (cases ?ti)
    case None
    then have "touch_map T ?d = None" by (simp add: find_ddx_map)
    then show ?thesis using f None by simp
  next
    case (Some k)
    from find_ddx_Some [OF this] show ?thesis using Some f by (cases "touches S i") (auto simp: touch_map_def is_touch_def)
  qed
  have same: "(if touches S i \<noteq> None \<and> ty = XI_TouchUpdate then same_position (points T ! the ?ti) ?x ?y else Some False) =
      Some (touches S i \<noteq> None \<and> ty = XI_TouchUpdate \<and> touches S i = Some (?x, ?y))"
  proof (cases ?ti)
    case None
    then have "touch_map T ?d = None" by (simp add: find_ddx_map)
    then show ?thesis using f None by simp
  next
    case (Some k)
    from find_ddx_Some [OF this] have k: "k < length (points T)" "touch_map T ?d = Some (points T ! k)" by (simp_all add: touch_map_def)
    then obtain V where "dp_values (points T ! k) = Some V" using point_mask [OF wf k(1)] by blast
    then show ?thesis using f k(2) Some by (auto simp: same_position_def point_position_def)
  qed
  let ?ty = "if ty = XI_TouchUpdate \<and> \<not> touches S i \<noteq> None then XI_TouchBegin else ty"
  obtain M where M: "position_mask (to_axis ?x (screen_width E)) (to_axis ?y (screen_height E)) = Some M"
    "is_map M [0 \<mapsto> to_axis ?x (screen_width E), 1 \<mapsto> to_axis ?y (screen_height E)]" using position_mask_map by blast
  show ?thesis
  proof (cases "touches S i \<noteq> None \<and> ty = XI_TouchUpdate \<and> touches S i = Some (?x, ?y) \<or> ?ty = XI_TouchEnd \<and> \<not> touches S i \<noteq> None")
    case True
    then consider "ty = XI_TouchUpdate" "touches S i = Some (?x, ?y)" | "ty = XI_TouchEnd" "touches S i = None" "ty \<noteq> XI_TouchUpdate"
      by (cases "touches S i") (auto simp: touch_type_defs split: if_splits)
    then have "handle_touch_table h cfg E ty i ex ey T = Some (T, None) \<and> handleTouchEvent E ty i ex ey S = S"
      unfolding handle_touch_table_def handleTouchEvent_def Let_def ti act same by cases simp_all
    with T show ?thesis by simp
  next
    case False
    then have n: "\<not> (touches S i \<noteq> None \<and> ty = XI_TouchUpdate \<and> touches S i = Some (?x, ?y))"
      "\<not> (?ty = XI_TouchEnd \<and> \<not> touches S i \<noteq> None)" unfolding de_Morgan_disj by (rule conjunct1, rule conjunct2)
    have g: "?ty \<in> touch_types" "?ty = XI_TouchBegin \<or> touches S i \<noteq> None" using n(2) ty by (auto simp: touch_types_def)
    from touch_event_step [OF T h c M(2) g] obtain T' client em
      where T': "touch_event_point h cfg True True ?d ?ty (Some M) T = Some (T', Some (client, em, M))"
        "holds_touches T' ((touches S)(i := if ?ty = XI_TouchEnd then None else Some (to_axis ?x (screen_width E), to_axis ?y (screen_height E))))" by blast
    have m: "valuator_mask_fetch_double M 0 = Some (to_axis ?x (screen_width E))" "valuator_mask_fetch_double M 1 = Some (to_axis ?y (screen_height E))"
      using M(2) by (simp_all add: is_map_def)
    have q: "handleTouchEvent E ty i ex ey S = QueueTouchEvents ?ty i (to_axis ?x (screen_width E)) (to_axis ?y (screen_height E)) S"
      unfolding handleTouchEvent_def Let_def if_not_P [OF n(1)] if_not_P [OF n(2)] by (rule refl)
    have "handle_touch_table h cfg E ty i ex ey T = Some (T', Some (?ty, client, em, M))"
      unfolding handle_touch_table_def Let_def ti act same bind.bind_lunit if_not_P [OF n(1)] if_not_P [OF n(2)] M(1) T'(1) by simp
    then show ?thesis using T'(2) m unfolding q by (auto simp: QueueTouchEvents_def queue_event_def)
  qed
qed

section \<open>Sequences of touch messages\<close>

datatype touch_msg = TouchMsg u16 u16 u16 u16

definition touch_msg_ok :: "touch_msg \<Rightarrow> ddx_table \<Rightarrow> bool" where
  "touch_msg_ok m T = (case m of TouchMsg ty i x y \<Rightarrow> ty \<in> touch_types)"

definition table_do :: "heap \<Rightarrow> touch_cfg \<Rightarrow> input_env \<Rightarrow> touch_msg \<Rightarrow> ddx_table \<Rightarrow> ddx_table option" where
  "table_do h cfg E m T = (case m of TouchMsg ty i x y \<Rightarrow> map_option fst (handle_touch_table h cfg E ty i x y T))"

definition state_do :: "input_env \<Rightarrow> touch_msg \<Rightarrow> input \<Rightarrow> input" where
  "state_do E m S = (case m of TouchMsg ty i x y \<Rightarrow> handleTouchEvent E ty i x y S)"

definition direct_touch :: touch_cfg where
  "direct_touch = \<lparr>touchEmulatePointer = True, touch_mode = Some True\<rparr>"

interpretation touch_table: data_refinement "\<lambda>T S. holds_touches T (touches S)" touch_msg_ok "table_do (\<lambda>_. True) direct_touch E" "state_do E" for E
proof unfold_locales
  fix T m and E :: input_env and S :: input
  assume a: "holds_touches T (touches S)" "touch_msg_ok m T"
  obtain ty i x y where m: "m = TouchMsg ty i x y" by (cases m)
  have "ty \<in> touch_types" using a(2) by (simp add: touch_msg_ok_def m)
  from table_step [OF a(1) _ _ this, of "\<lambda>_. True" direct_touch E i x y]
  show "\<exists>T'. table_do (\<lambda>_. True) direct_touch E m T = Some T' \<and> holds_touches T' (touches (state_do E m S))"
    by (auto simp: m table_do_def state_do_def direct_touch_def)
qed

text \<open>The table \<^verbatim>\<open>InitTouchClassDeviceStruct\<close> sets up: \<open>n\<close> points, none of them active.\<close>

definition fresh_touches :: "nat \<Rightarrow> ddx_table" where
  "fresh_touches n = init_ddx_points (\<lambda>_. True) n \<lparr>points = [], next_client = 1, tab_allocs = 0\<rparr>"

lemma fresh_touches_empty: "holds_touches (fresh_touches n) Map.empty"
proof -
  from init_ddx_points_eq [of "\<lambda>_. True" n "\<lparr>points = [], next_client = 1, tab_allocs = 0\<rparr>"] obtain ps
    where ps: "points (fresh_touches n) = ps" "\<forall>p \<in> set ps. \<not> dp_active p \<and> dp_values p = Some valuator_mask_zero"
    by (auto simp: fresh_touches_def)
  moreover have "filter dp_active ps = []" using ps(2) by (simp add: filter_empty_conv)
  moreover have "wf_mask valuator_mask_zero" using zero_is_map by (simp add: is_map_def)
  ultimately show ?thesis by (auto simp: holds_touches_def wf_touches_def has_mask_def touch_map_def find_None is_touch_def)
qed

text \<open>
  C13. The touch table of the X server implements the touches of the dispatcher: whatever begin, update and end messages
  the activity sends for whatever touches, also more at once than the table has points, the handler on the table uses
  no missing mask and no point out of range, and afterwards an id has an active point exactly when the
  dispatcher's touch is active, with the axis values of its last event in the point's mask.
\<close>

theorem touch_table_implements:
  assumes "touches S = Map.empty" "run_ok touch_msg_ok (table_do (\<lambda>_. True) direct_touch E) ms (fresh_touches n)"
  shows "\<exists>T. run_ops (table_do (\<lambda>_. True) direct_touch E) ms (fresh_touches n) = Some T \<and>
    (\<forall>i. map_option point_position (touch_map T (ucast i)) = map_option (map_prod Some Some) (touches (fold (state_do E) ms S) i))"
proof -
  have "holds_touches (fresh_touches n) (touches S)" using fresh_touches_empty assms(1) by simp
  from touch_table.run_refines [OF this assms(2)] show ?thesis by (auto simp: holds_touches_def)
qed

theorem touch_table_implements_witness:
  "\<exists>T. run_ops (table_do (\<lambda>_. True) direct_touch sample_env) [TouchMsg 18 1 10 10, TouchMsg 19 2 20 20, TouchMsg 20 1 10 10] (fresh_touches 1) = Some T \<and>
    touch_map T 1 = None \<and> map_option point_position (touch_map T 2) =
      map_option (map_prod Some Some) (touches (fold (state_do sample_env) [TouchMsg 18 1 10 10, TouchMsg 19 2 20 20, TouchMsg 20 1 10 10] sample_input) 2)"
proof -
  let ?ms = "[TouchMsg 18 1 10 10, TouchMsg 19 2 20 20, TouchMsg 20 1 10 10]"
  have ok: "run_ok touch_msg_ok (table_do (\<lambda>_. True) direct_touch sample_env) ?ms (fresh_touches 1)"
    by (simp add: touch_msg_ok_def touch_types_def touch_type_defs split: option.split)
  have "touches sample_input = Map.empty" by (simp add: sample_input_def)
  from touch_table_implements [OF this ok] obtain T
    where T: "run_ops (table_do (\<lambda>_. True) direct_touch sample_env) ?ms (fresh_touches 1) = Some T"
      "\<And>i. map_option point_position (touch_map T (ucast i)) = map_option (map_prod Some Some) (touches (fold (state_do sample_env) ?ms sample_input) i)" by blast
  have "touches (fold (state_do sample_env) ?ms sample_input) 1 = None"
    by (simp add: state_do_def handleTouchEvent_def QueueTouchEvents_def queue_event_def touch_type_defs sample_input_def Let_def)
  with T(2) [of 1] have "touch_map T 1 = None" by simp
  with T(1) T(2) [of 2] show ?thesis by auto
qed

text \<open>A touch that cannot get a point because the table cannot grow is dropped, and no other touch changes.\<close>

theorem touch_begin_without_memory:
  assumes "\<forall>p \<in> set (points T). dp_active p" "touch_map T ddx = None" "\<not> h (tab_allocs T)" "touch_mode cfg = Some direct"
  shows "\<exists>T'. touch_event_point h cfg True True ddx XI_TouchBegin mk T = Some (T', None) \<and> touch_map T' = touch_map T"
proof -
  let ?T = "T\<lparr>tab_allocs := tab_allocs T + 1\<rparr>"
  have "TouchResizeQueue h T = (False, ?T)" using assms(3) by (simp add: TouchResizeQueue_def Let_def)
  from begin_loop_full [OF assms(1) this, of "touchEmulatePointer cfg \<and> direct"] have "TouchBeginDDXTouch h cfg ddx T = (None, ?T)"
    using assms(2,4) by (auto simp: TouchBeginDDXTouch_def find_ddx_map)
  then have "touch_event_point h cfg True True ddx XI_TouchBegin mk T = Some (?T, None)"
    using assms(2,4) by (simp add: touch_event_point_def TouchFindByDDXID_def find_ddx_map [THEN iffD2])
  then show ?thesis by (intro exI [of _ ?T]) (simp del: One_nat_def add: touch_map_frame)
qed

end
