(* ===== verification/Dix_Points.thy ===== *)
theory Dix_Points
  imports Dix_Valuators
begin

text \<open>
  The touch points of a device as its clients see them (\<^verbatim>\<open>dix/touch.c\<close>): the table in which a touch event finds or takes
  its point, the listeners of a point with their copies of grabs, and the history of events that is replayed to a
  new owner. Access outside an array or through a null pointer is the value \<open>None\<close>.
\<close>

section \<open>Points\<close>

datatype listener_state = AWAITING_BEGIN | AWAITING_OWNER | EARLY_ACCEPT | IS_OWNER | HAS_ACCEPTED | HAS_END
datatype listener_type = LISTENER_GRAB | LISTENER_POINTER_GRAB | LISTENER_REGULAR | LISTENER_POINTER_REGULAR
datatype input_level = CORE | XI | XI2
datatype resource_type = RT_NONE | RT_WINDOW | RT_INPUTCLIENT | RT_OTHERCLIENT

text \<open>A listener has its own copy of a grab, named by a number.\<close>

record touch_listener =
  l_listener :: u32
  l_resource_type :: resource_type
  l_type :: listener_type
  l_state :: listener_state
  l_level :: input_level
  l_window :: nat
  l_grab :: "nat option"

datatype touch_event_type = ET_TouchBegin | ET_TouchUpdate | ET_TouchEnd | ET_other

record touch_event =
  te_type :: touch_event_type
  te_flags :: u32
  te_serial :: nat

text \<open>\<open>tp_trace\<close> is the valid part of the sprite trace, \<open>tp_room\<close> the size of the allocated array of listeners, of which
  \<open>tp_listeners\<close> is the part in use; \<open>tp_history\<close> is the array of past events, of which \<open>history_elements\<close> are counted.
  \<open>live_grabs\<close> are the copies of grabs that have not been freed.\<close>

record touch_point =
  tp_client :: u32
  tp_sourceid :: nat
  tp_active :: bool
  tp_pending_finish :: bool
  tp_trace_room :: bool
  tp_trace :: "nat list"
  tp_values :: "valuator_mask option"
  tp_room :: "nat option"
  tp_listeners :: "touch_listener list"
  tp_num_grabs :: int
  tp_emulate_pointer :: bool
  tp_history :: "touch_event option list option"
  history_elements :: nat
  live_grabs :: "nat list"
  grab_copies :: nat

text \<open>The point \<^verbatim>\<open>TouchInitTouchPoint\<close> makes: zeroed, with a mask and a sprite trace.\<close>

definition new_point :: touch_point where
  "new_point = \<lparr>tp_client = - 1, tp_sourceid = 0, tp_active = False, tp_pending_finish = False, tp_trace_room = True, tp_trace = [],
     tp_values = Some valuator_mask_zero, tp_room = None, tp_listeners = [], tp_num_grabs = 0, tp_emulate_pointer = False,
     tp_history = None, history_elements = 0, live_grabs = [], grab_copies = 0\<rparr>"

section \<open>Event history\<close>

definition TOUCH_HISTORY_SIZE :: nat where "TOUCH_HISTORY_SIZE = 100"

definition TouchEventHistoryAllocate :: "bool \<Rightarrow> touch_point \<Rightarrow> bool \<times> touch_point" where
  "TouchEventHistoryAllocate ok p =
     (if tp_history p \<noteq> None then (True, p)
      else (ok, p\<lparr>tp_history := (if ok then Some (replicate TOUCH_HISTORY_SIZE None) else None), history_elements := 0\<rparr>))"

definition TouchEventHistoryFree :: "touch_point \<Rightarrow> touch_point" where
  "TouchEventHistoryFree p = p\<lparr>tp_history := None, history_elements := 0\<rparr>"

definition history_event :: "touch_event \<Rightarrow> touch_point \<Rightarrow> bool" where
  "history_event e p =
     ((case te_type e of ET_TouchBegin \<Rightarrow> history_elements p = 0 | ET_TouchUpdate \<Rightarrow> True | _ \<Rightarrow> False) \<and>
      te_flags e AND 0x18 = 0)"

definition TouchEventHistoryPush :: "touch_event \<Rightarrow> touch_point \<Rightarrow> touch_point option" where
  "TouchEventHistoryPush e p = (case tp_history p of
       None \<Rightarrow> Some p
     | Some es \<Rightarrow>
         if \<not> history_event e p then Some p
         else if length es \<le> history_elements p then None
         else
           let n = history_elements p + 1
           in Some (p\<lparr>tp_history := Some (es[history_elements p := Some e]),
                      history_elements := (if length es - 1 < n then length es - 1 else n)\<rparr>))"

definition history :: "touch_point \<Rightarrow> touch_event option list" where
  "history p = (case tp_history p of None \<Rightarrow> [] | Some es \<Rightarrow> take (history_elements p) es)"

definition wf_history :: "touch_point \<Rightarrow> bool" where
  "wf_history p = (case tp_history p of
       None \<Rightarrow> history_elements p = 0 | Some es \<Rightarrow> length es = TOUCH_HISTORY_SIZE \<and> history_elements p < TOUCH_HISTORY_SIZE)"

lemma push_history:
  assumes "wf_history p" "tp_history p = Some es"
  shows "\<exists>p' es'. TouchEventHistoryPush e p = Some p' \<and> wf_history p' \<and> tp_history p' = Some es' \<and>
    history p' = (if history_event e p then take 99 (history p @ [Some e]) else history p)"
proof -
  let ?n = "history_elements p"
  have l: "length es = 100" "?n \<le> 99" using assms by (simp_all add: wf_history_def TOUCH_HISTORY_SIZE_def)
  show ?thesis
  proof (cases "history_event e p")
    case True
    then have P: "TouchEventHistoryPush e p = Some (p\<lparr>tp_history := Some (es[?n := Some e]), history_elements := (if 99 < ?n + 1 then 99 else ?n + 1)\<rparr>)"
      using l assms(2) by (simp add: TouchEventHistoryPush_def Let_def)
    have t: "take (Suc ?n) (es[?n := Some e]) = take ?n es @ [Some e]" using l by (simp add: take_Suc_conv_app_nth take_update_cancel)
    have "history (p\<lparr>tp_history := Some (es[?n := Some e]), history_elements := (if 99 < ?n + 1 then 99 else ?n + 1)\<rparr>) = take 99 (history p @ [Some e])"
    proof (cases "?n = 99")
      case True
      then show ?thesis using l assms(2) by (simp add: history_def take_update_cancel)
    next
      case False
      then show ?thesis using l assms(2) t by (simp add: history_def)
    qed
    with P True l show ?thesis by (simp add: wf_history_def TOUCH_HISTORY_SIZE_def)
  next
    case False
    then show ?thesis using assms by (auto simp: TouchEventHistoryPush_def)
  qed
qed

fun push_all :: "touch_event list \<Rightarrow> touch_point \<Rightarrow> touch_point option" where
  "push_all [] p = Some p"
| "push_all (e # es) p = Option.bind (TouchEventHistoryPush e p) (push_all es)"

text \<open>The events of a touch that its history is for: its begin, then updates, none of them replayed.\<close>

definition touch_sequence :: "touch_event list \<Rightarrow> bool" where
  "touch_sequence es = (case es of
       [] \<Rightarrow> True
     | e # us \<Rightarrow> te_type e = ET_TouchBegin \<and> te_flags e AND 0x18 = 0 \<and> list_all (\<lambda>u. te_type u = ET_TouchUpdate \<and> te_flags u AND 0x18 = 0) us)"

lemma take_take_append: "take n (take n xs @ ys) = take n (xs @ ys)"
  by (cases "length xs < n") simp_all

lemma push_updates:
  assumes "wf_history p" "tp_history p \<noteq> None" "list_all (\<lambda>u. te_type u = ET_TouchUpdate \<and> te_flags u AND 0x18 = 0) us"
  shows "\<exists>p'. push_all us p = Some p' \<and> wf_history p' \<and> history p' = take 99 (history p @ map Some us)"
  using assms
proof (induction us arbitrary: p)
  case Nil
  then show ?case by (auto simp: history_def wf_history_def TOUCH_HISTORY_SIZE_def)
next
  case (Cons u us)
  then obtain es where es: "tp_history p = Some es" by blast
  have "history_event u p" using Cons.prems(3) by (simp add: history_event_def)
  with push_history [OF Cons.prems(1) es, of u] obtain p1 es1 where p1: "TouchEventHistoryPush u p = Some p1" "wf_history p1" "tp_history p1 = Some es1"
    "history p1 = take 99 (history p @ [Some u])" by auto
  from Cons.IH [OF p1(2)] p1(3) Cons.prems(3) obtain p' where "push_all us p1 = Some p'" "wf_history p'" "history p' = take 99 (history p1 @ map Some us)" by auto
  moreover have "take 99 (take 99 (history p @ [Some u]) @ map Some us) = take 99 (history p @ map Some (u # us))"
    using take_take_append [of 99 "history p @ [Some u]" "map Some us"] by simp
  ultimately show ?case using p1 by simp
qed

text \<open>
  The history of a touch never leaves its array of a hundred events, however many are pushed, and holds the
  first ninety-nine of them in order: those that follow overwrite the last place of the array, which is not
  counted, and are not replayed to a new owner.
\<close>

theorem history_holds_first:
  assumes "touch_sequence es" "TouchEventHistoryAllocate True p = (True, q)" "tp_history p = None"
  shows "\<exists>q'. push_all es q = Some q' \<and> history q' = map Some (take 99 es)"
proof (cases es)
  case Nil
  then show ?thesis using assms by (auto simp: TouchEventHistoryAllocate_def history_def)
next
  case (Cons e us)
  have q: "wf_history q" "tp_history q = Some (replicate TOUCH_HISTORY_SIZE None)" "history q = []" "history_elements q = 0"
    using assms(2,3) by (auto simp: TouchEventHistoryAllocate_def wf_history_def history_def TOUCH_HISTORY_SIZE_def)
  have "history_event e q" using assms(1) q(4) by (simp add: Cons history_event_def touch_sequence_def)
  with push_history [OF q(1,2), of e] q(3) obtain q1 where q1: "TouchEventHistoryPush e q = Some q1" "wf_history q1" "tp_history q1 \<noteq> None" "history q1 = [Some e]" by auto
  from push_updates [OF q1(2,3)] assms(1) obtain q' where "push_all us q1 = Some q'" "history q' = take 99 (history q1 @ map Some us)"
    by (auto simp: Cons touch_sequence_def)
  then show ?thesis using q1 by (simp add: Cons take_Cons' take_map)
qed

theorem history_holds_first_witness:
  "\<exists>p q'. push_all [\<lparr>te_type = ET_TouchBegin, te_flags = 0, te_serial = 0\<rparr>, \<lparr>te_type = ET_TouchUpdate, te_flags = 0, te_serial = 1\<rparr>] p = Some q' \<and>
     history q' = [Some \<lparr>te_type = ET_TouchBegin, te_flags = 0, te_serial = 0\<rparr>, Some \<lparr>te_type = ET_TouchUpdate, te_flags = 0, te_serial = 1\<rparr>]"
proof -
  let ?es = "[\<lparr>te_type = ET_TouchBegin, te_flags = 0, te_serial = 0\<rparr>, \<lparr>te_type = ET_TouchUpdate, te_flags = 0, te_serial = 1\<rparr>]"
  have "touch_sequence ?es" by (simp add: touch_sequence_def)
  moreover have "TouchEventHistoryAllocate True new_point = (True, new_point\<lparr>tp_history := Some (replicate TOUCH_HISTORY_SIZE None), history_elements := 0\<rparr>)"
    by (simp add: TouchEventHistoryAllocate_def new_point_def)
  moreover have "tp_history new_point = None" by (simp add: new_point_def)
  ultimately show ?thesis using history_holds_first [of ?es new_point] by auto
qed

section \<open>The table of points\<close>

record touch_class_points =
  tc_points :: "touch_point list"
  tc_allocs :: nat

text \<open>A new point needs a mask and a sprite trace; where one of them cannot be allocated the point remains without both.\<close>

definition TouchInitTouchPoint_at :: "heap \<Rightarrow> nat \<Rightarrow> touch_class_points \<Rightarrow> bool \<times> touch_class_points" where
  "TouchInitTouchPoint_at h i t =
     (if length (tc_points t) \<le> i then (False, t)
      else
        let n = tc_allocs t in
        if \<not> h n then (False, t\<lparr>tc_points := (tc_points t)[i := new_point\<lparr>tp_values := None, tp_trace_room := False, tp_client := 0\<rparr>], tc_allocs := n + 1\<rparr>)
        else if \<not> h (n + 1) then (False, t\<lparr>tc_points := (tc_points t)[i := new_point\<lparr>tp_values := None, tp_trace_room := False, tp_client := 0\<rparr>], tc_allocs := n + 2\<rparr>)
        else (True, t\<lparr>tc_points := (tc_points t)[i := new_point], tc_allocs := n + 2\<rparr>))"

fun find_client :: "u32 \<Rightarrow> nat \<Rightarrow> touch_point list \<Rightarrow> nat option" where
  "find_client c i [] = None"
| "find_client c i (p # ps) = (if tp_active p \<and> tp_client p = c then Some i else find_client c (i + 1) ps)"

definition TouchFindByClientID :: "u32 \<Rightarrow> touch_class_points \<Rightarrow> nat option" where
  "TouchFindByClientID c t = find_client c 0 (tc_points t)"

fun find_inactive :: "nat \<Rightarrow> touch_point list \<Rightarrow> nat option" where
  "find_inactive i [] = None"
| "find_inactive i (p # ps) = (if tp_active p then find_inactive (i + 1) ps else Some i)"

definition take_touch :: "nat \<Rightarrow> u32 \<Rightarrow> bool \<Rightarrow> nat \<Rightarrow> touch_class_points \<Rightarrow> touch_class_points" where
  "take_touch sourceid c emulate i t =
     t\<lparr>tc_points := (tc_points t)[i := (tc_points t ! i)\<lparr>tp_active := True, tp_client := c, tp_sourceid := sourceid, tp_emulate_pointer := emulate\<rparr>]\<rparr>"

text \<open>The search is repeated after the table has grown by one point, and then finds that point. The number of points is
  a 16 bit one: a table of 65535 points cannot grow.\<close>

definition TouchBeginTouch :: "heap \<Rightarrow> nat \<Rightarrow> u32 \<Rightarrow> bool \<Rightarrow> touch_class_points \<Rightarrow> (nat option \<times> touch_class_points) option" where
  "TouchBeginTouch h sourceid c emulate t =
     (if TouchFindByClientID c t \<noteq> None then Some (None, t)
      else case find_inactive 0 (tc_points t) of
        Some i \<Rightarrow> Some (Some i, take_touch sourceid c emulate i t)
      | None \<Rightarrow>
          (let n = length (tc_points t); t1 = t\<lparr>tc_allocs := tc_allocs t + 1\<rparr> in
           if \<not> h (tc_allocs t) then Some (None, t1)
           else if n = 65535 then None
           else case TouchInitTouchPoint_at h n (t1\<lparr>tc_points := tc_points t @ [new_point]\<rparr>) of
             (False, t2) \<Rightarrow> Some (None, t2)
           | (True, t2) \<Rightarrow>
               (case find_inactive 0 (tc_points t2) of
                  Some i \<Rightarrow> Some (Some i, take_touch sourceid c emulate i t2)
                | None \<Rightarrow> None)))"

lemma find_inactive_Some: "find_inactive i ps = Some k \<Longrightarrow> i \<le> k \<and> k < i + length ps \<and> \<not> tp_active (ps ! (k - i))"
  by (induction ps arbitrary: i) (fastforce simp: nth_Cons' split: if_splits)+

lemma find_inactive_append: "find_inactive i ps = None \<Longrightarrow> find_inactive i (ps @ qs) = find_inactive (i + length ps) qs"
  by (induction ps arbitrary: i) (auto split: if_splits)

lemma find_client_append:
  "find_client c i (ps @ qs) = (case find_client c i ps of None \<Rightarrow> find_client c (i + length ps) qs | Some k \<Rightarrow> Some k)"
  by (induction ps arbitrary: i) (simp_all split: option.split)

lemma find_client_update:
  assumes "find_client c i ps = None" "k < length ps" "\<not> tp_active (ps ! k)" "tp_active p" "tp_client p = c"
  shows "find_client c' i (ps[k := p]) = (if c' = c then Some (i + k) else find_client c' i ps)"
  using assms
proof (induction ps arbitrary: i k)
  case (Cons q ps)
  then show ?case by (cases k) (auto split: if_splits)
qed simp

lemma take_touch_found:
  assumes "find_client c 0 (tc_points t) = None" "find_inactive 0 (tc_points t) = Some i"
  shows "TouchFindByClientID c' (take_touch s c em i t) = (if c' = c then Some i else TouchFindByClientID c' t)"
  using find_client_update [OF assms(1)] find_inactive_Some [OF assms(2)] by (simp add: TouchFindByClientID_def take_touch_def)

text \<open>
  A touch that begins gets a point of its own as long as memory lasts: the table grows by a point when all are in use, the
  new touch is then found by its id, and every other touch is found where it was. Only an id that is
  active already is refused.
\<close>

theorem touch_begin_found:
  assumes "\<forall>n. h n" "TouchFindByClientID c t = None" "length (tc_points t) < 65535"
  shows "\<exists>i t'. TouchBeginTouch h s c em t = Some (Some i, t') \<and> i < length (tc_points t') \<and> tp_values (tc_points t' ! i) = tp_values (if i < length (tc_points t) then tc_points t ! i else new_point) \<and>
    (\<forall>c'. TouchFindByClientID c' t' = (if c' = c then Some i else TouchFindByClientID c' t))"
proof (cases "find_inactive 0 (tc_points t)")
  case (Some i)
  have "i < length (tc_points t)" using find_inactive_Some [OF Some] by simp
  with Some assms(2) take_touch_found [of c t i] show ?thesis
    by (auto simp: TouchBeginTouch_def TouchFindByClientID_def take_touch_def)
next
  case None
  let ?n = "length (tc_points t)" and ?t = "t\<lparr>tc_points := tc_points t @ [new_point], tc_allocs := tc_allocs t + 3\<rparr>"
  have i: "TouchInitTouchPoint_at h ?n (t\<lparr>tc_allocs := tc_allocs t + 1, tc_points := tc_points t @ [new_point]\<rparr>) = (True, ?t)"
    using assms(1) by (simp add: TouchInitTouchPoint_at_def Let_def)
  have f: "find_inactive 0 (tc_points ?t) = Some ?n" using find_inactive_append [OF None, of "[new_point]"] by (simp add: new_point_def)
  have c: "find_client c' 0 (tc_points ?t) = find_client c' 0 (tc_points t)" for c'
    by (auto simp: find_client_append new_point_def split: option.split)
  have "TouchBeginTouch h s c em t = Some (Some ?n, take_touch s c em ?n ?t)"
    using None assms i f by (simp add: TouchBeginTouch_def Let_def)
  moreover have "TouchFindByClientID c' (take_touch s c em ?n ?t) = (if c' = c then Some ?n else TouchFindByClientID c' t)" for c'
    using take_touch_found [OF _ f, of c c' s em] assms(2) c by (simp add: TouchFindByClientID_def)
  ultimately show ?thesis by (simp add: take_touch_def)
qed

theorem touch_begin_found_witness:
  "\<exists>i t'. TouchBeginTouch (\<lambda>_. True) 4 9 True \<lparr>tc_points = [new_point], tc_allocs = 0\<rparr> = Some (Some i, t') \<and> TouchFindByClientID 9 t' = Some i"
  using touch_begin_found [of "\<lambda>_. True" 9 "\<lparr>tc_points = [new_point], tc_allocs = 0\<rparr>" 4 True]
  by (auto simp: TouchFindByClientID_def new_point_def)

text \<open>Where the mask of an added point cannot be allocated, the begin of the touch fails, but the point stays in the table:
  the next touch takes it, without a mask and without a sprite trace to look its window up in.\<close>

theorem broken_point_is_used:
  assumes "find_inactive 0 (tc_points t) = None" "TouchFindByClientID c t = None" "c \<noteq> c'" "TouchFindByClientID c' t = None" "length (tc_points t) < 65535"
    and "h (tc_allocs t)" "\<not> h (tc_allocs t + 1)"
  shows "\<exists>t1 i t2. TouchBeginTouch h s c em t = Some (None, t1) \<and> TouchBeginTouch h s c' em t1 = Some (Some i, t2) \<and>
    tp_values (tc_points t2 ! i) = None \<and> \<not> tp_trace_room (tc_points t2 ! i)"
proof -
  let ?n = "length (tc_points t)" and ?p = "new_point\<lparr>tp_values := None, tp_trace_room := False, tp_client := 0\<rparr>"
  let ?t = "t\<lparr>tc_points := tc_points t @ [?p], tc_allocs := tc_allocs t + 2\<rparr>"
  have b: "TouchBeginTouch h s c em t = Some (None, ?t)"
    using assms by (simp add: TouchBeginTouch_def TouchInitTouchPoint_at_def Let_def)
  have f: "find_inactive 0 (tc_points ?t) = Some ?n" using find_inactive_append [OF assms(1), of "[?p]"] by (simp add: new_point_def)
  have "find_client c' 0 (tc_points ?t) = None" using assms(4) by (simp add: find_client_append new_point_def TouchFindByClientID_def)
  then have "TouchBeginTouch h s c' em ?t = Some (Some ?n, take_touch s c' em ?n ?t)" using f by (simp add: TouchBeginTouch_def TouchFindByClientID_def)
  then show ?thesis using b by (intro exI [of _ ?t] exI [of _ ?n] exI [of _ "take_touch s c' em ?n ?t"]) (simp add: take_touch_def)
qed

section \<open>Listeners\<close>

text \<open>\<open>copied\<close> is the answer of \<^verbatim>\<open>AllocGrab\<close>.\<close>

definition TouchAddListener ::
  "bool \<Rightarrow> u32 \<Rightarrow> resource_type \<Rightarrow> input_level \<Rightarrow> listener_type \<Rightarrow> listener_state \<Rightarrow> nat \<Rightarrow> bool \<Rightarrow> touch_point \<Rightarrow> touch_point option" where
  "TouchAddListener copied resource rt level ty st win grab p =
     (let n = grab_copies p;
          g = (if grab \<and> copied then Some n else None);
          p1 = (if grab \<and> copied then p\<lparr>live_grabs := n # live_grabs p, grab_copies := n + 1\<rparr> else p) in
      case tp_room p of
        None \<Rightarrow> None
      | Some room \<Rightarrow>
          if room \<le> length (tp_listeners p) then None
          else Some (p1\<lparr>tp_listeners := tp_listeners p @ [\<lparr>l_listener = resource, l_resource_type = rt, l_type = ty, l_state = st, l_level = level,
                                                           l_window = win, l_grab = g\<rparr>],
                        tp_num_grabs := tp_num_grabs p + (if grab then 1 else 0)\<rparr>))"

definition FreeGrab :: "nat option \<Rightarrow> touch_point \<Rightarrow> touch_point" where
  "FreeGrab g p = (case g of None \<Rightarrow> p | Some n \<Rightarrow> p\<lparr>live_grabs := remove1 n (live_grabs p), tp_num_grabs := tp_num_grabs p - 1\<rparr>)"

fun remove_first :: "u32 \<Rightarrow> touch_listener list \<Rightarrow> (touch_listener \<times> touch_listener list) option" where
  "remove_first r [] = None"
| "remove_first r (l # ls) =
     (if l_listener l = r then Some (l, ls) else map_option (\<lambda>(m, ms). (m, l # ms)) (remove_first r ls))"

definition TouchRemoveListener :: "u32 \<Rightarrow> touch_point \<Rightarrow> bool \<times> touch_point" where
  "TouchRemoveListener r p = (case remove_first r (tp_listeners p) of
       None \<Rightarrow> (False, p)
     | Some (l, ls) \<Rightarrow> (True, (FreeGrab (l_grab l) p)\<lparr>tp_listeners := ls\<rparr>))"

definition TouchResourceIsOwner :: "u32 \<Rightarrow> touch_point \<Rightarrow> bool option" where
  "TouchResourceIsOwner r p = (case tp_listeners p of [] \<Rightarrow> None | l # _ \<Rightarrow> Some (l_listener l = r))"

lemma remove_own:
  "tp_listeners p = l # ls \<Longrightarrow> TouchRemoveListener (l_listener l) p = (True, (FreeGrab (l_grab l) p)\<lparr>tp_listeners := ls\<rparr>)"
  by (simp add: TouchRemoveListener_def)

lemma remove_own_shorter:
  "tp_listeners p \<noteq> [] \<Longrightarrow> length (tp_listeners (snd (TouchRemoveListener (l_listener (hd (tp_listeners p))) p))) < length (tp_listeners p)"
  by (cases "tp_listeners p") (simp_all add: remove_own)

text \<open>The loop over the listeners at the end of a touch: each round removes the first one, while the counter is compared with the
  number that remain.\<close>

function remove_listeners :: "nat \<Rightarrow> touch_point \<Rightarrow> touch_point" where
  "remove_listeners i p =
     (if i < length (tp_listeners p) then remove_listeners (i + 1) (snd (TouchRemoveListener (l_listener (hd (tp_listeners p))) p)) else p)"
  by auto

termination
  by (relation "measure (\<lambda>(i, p). length (tp_listeners p))") (auto intro!: remove_own_shorter)

declare remove_listeners.simps [simp del]

text \<open>\<open>deactivates\<close> says whether a passive grab of the device is deactivated on the way.\<close>

definition TouchEndTouch :: "bool \<Rightarrow> touch_point \<Rightarrow> bool \<times> touch_point" where
  "TouchEndTouch passive_pointer_grab p =
     (tp_emulate_pointer p \<and> passive_pointer_grab,
      let q = TouchEventHistoryFree ((remove_listeners 0 p)\<lparr>tp_active := False, tp_pending_finish := False, tp_trace := [], tp_room := None,
                tp_listeners := [], tp_num_grabs := 0, tp_client := 0\<rparr>)
      in q\<lparr>tp_values := map_option (\<lambda>_. valuator_mask_zero) (tp_values q)\<rparr>)"

section \<open>Setting listeners up\<close>

text \<open>What is known of a grab: its resource, its kind, the touch events its mask selects, and its window.\<close>

record grab_info =
  gi_resource :: u32
  gi_level :: input_level
  gi_ownership :: bool
  gi_begin :: bool
  gi_window :: nat

text \<open>A selection \<^verbatim>\<open>TouchAddRegularListener\<close> finds on a window, and whether it needs the history.\<close>

record selection_info =
  si_resource :: u32
  si_resource_type :: resource_type
  si_level :: input_level
  si_type :: listener_type
  si_history :: bool

record setup_env =
  active_grab :: "grab_info option"
  passive_grab :: "nat \<Rightarrow> bool \<Rightarrow> grab_info option"
  selection :: "nat \<Rightarrow> selection_info option"
  master :: bool
  copy_ok :: bool
  history_ok :: bool

definition TouchBuildSprite :: "nat list \<Rightarrow> bool \<Rightarrow> touch_point \<Rightarrow> bool \<times> touch_point" where
  "TouchBuildSprite trace ok p =
     (if trace = [] then (False, p\<lparr>tp_trace := []\<rparr>)
      else if \<not> ok then (False, p\<lparr>tp_trace := [], tp_room := None\<rparr>)
      else (True, p\<lparr>tp_trace := trace, tp_room := Some (length trace + 2), tp_listeners := []\<rparr>))"

definition TouchAddGrabListener :: "setup_env \<Rightarrow> grab_info \<Rightarrow> touch_point \<Rightarrow> touch_point option" where
  "TouchAddGrabListener E g p =
     (let p1 = (if gi_level g \<noteq> XI2 \<or> \<not> gi_ownership g then snd (TouchEventHistoryAllocate (history_ok E) p) else p);
          ty = (if gi_level g \<noteq> XI2 \<or> \<not> gi_begin g then LISTENER_POINTER_GRAB else LISTENER_GRAB)
      in TouchAddListener (copy_ok E) (gi_resource g) RT_NONE (gi_level g) ty AWAITING_BEGIN (gi_window g) True p1)"

definition TouchAddActiveGrabListener :: "setup_env \<Rightarrow> grab_info \<Rightarrow> touch_point \<Rightarrow> touch_point option" where
  "TouchAddActiveGrabListener E g p =
     (if \<not> tp_emulate_pointer p \<and> (gi_level g = CORE \<or> gi_level g = XI) then Some p
      else if \<not> tp_emulate_pointer p \<and> gi_level g = XI2 \<and> \<not> gi_begin g then Some p
      else TouchAddGrabListener E g p)"

definition TouchAddPassiveGrabListener :: "setup_env \<Rightarrow> nat \<Rightarrow> touch_point \<Rightarrow> touch_point option" where
  "TouchAddPassiveGrabListener E w p = (case passive_grab E w (master E \<and> tp_emulate_pointer p) of
       None \<Rightarrow> Some p | Some g \<Rightarrow> TouchAddGrabListener E g p)"

fun add_passive :: "setup_env \<Rightarrow> nat list \<Rightarrow> touch_point \<Rightarrow> touch_point option" where
  "add_passive E [] p = Some p"
| "add_passive E (w # ws) p = Option.bind (TouchAddPassiveGrabListener E w p) (add_passive E ws)"

fun add_regular :: "setup_env \<Rightarrow> nat list \<Rightarrow> touch_point \<Rightarrow> touch_point option" where
  "add_regular E [] p = Some p"
| "add_regular E (w # ws) p = (case selection E w of
       None \<Rightarrow> add_regular E ws p
     | Some s \<Rightarrow>
         TouchAddListener (copy_ok E) (si_resource s) (si_resource_type s) (si_level s) (si_type s) AWAITING_BEGIN w False
           (if si_history s then snd (TouchEventHistoryAllocate (history_ok E) p) else p))"

definition TouchSetupListeners :: "setup_env \<Rightarrow> bool \<Rightarrow> touch_point \<Rightarrow> touch_point option" where
  "TouchSetupListeners E begins p =
     Option.bind (case active_grab E of None \<Rightarrow> Some p | Some g \<Rightarrow> TouchAddActiveGrabListener E g p) (\<lambda>p1.
     if \<not> begins then Some p1
     else Option.bind (add_passive E (tp_trace p1) p1) (\<lambda>p2. add_regular E (rev (tp_trace p2)) p2))"

text \<open>A root window and a child: the root has a passive grab of the touch, the child a selection, and a device grab is active.\<close>

definition sample_setup :: setup_env where
  "sample_setup =
     \<lparr>active_grab = Some \<lparr>gi_resource = 40, gi_level = XI2, gi_ownership = True, gi_begin = True, gi_window = 1\<rparr>,
      passive_grab = (\<lambda>w c. if w = 1 then Some \<lparr>gi_resource = 41, gi_level = XI2, gi_ownership = False, gi_begin = True, gi_window = 1\<rparr> else None),
      selection = (\<lambda>w. if w = 7 then Some \<lparr>si_resource = 42, si_resource_type = RT_INPUTCLIENT, si_level = XI2, si_type = LISTENER_REGULAR, si_history = False\<rparr> else None),
      master = True, copy_ok = True, history_ok = True\<rparr>"

section \<open>Room for the listeners\<close>

definition room_for :: "nat \<Rightarrow> nat \<Rightarrow> touch_point \<Rightarrow> bool" where
  "room_for room k p = (tp_room p = Some room \<and> length (tp_listeners p) + k \<le> room)"

lemma add_listener_fits:
  "room_for room (Suc k) p \<Longrightarrow> \<exists>p'. TouchAddListener copied r rt lv ty st w g p = Some p' \<and> room_for room k p' \<and> tp_trace p' = tp_trace p"
  by (auto simp: TouchAddListener_def room_for_def Let_def split: option.splits)

lemma history_allocate_frame [simp]:
  "room_for room k (snd (TouchEventHistoryAllocate ok p)) = room_for room k p" "tp_trace (snd (TouchEventHistoryAllocate ok p)) = tp_trace p"
  "tp_room (snd (TouchEventHistoryAllocate ok p)) = tp_room p" "tp_listeners (snd (TouchEventHistoryAllocate ok p)) = tp_listeners p"
  by (auto simp: TouchEventHistoryAllocate_def room_for_def)

lemma add_grab_fits: "room_for room (Suc k) p \<Longrightarrow> \<exists>p'. TouchAddGrabListener E g p = Some p' \<and> room_for room k p' \<and> tp_trace p' = tp_trace p"
  using add_listener_fits [of room k "if gi_level g \<noteq> XI2 \<or> \<not> gi_ownership g then snd (TouchEventHistoryAllocate (history_ok E) p) else p"]
  unfolding TouchAddGrabListener_def Let_def by (cases "gi_level g \<noteq> XI2 \<or> \<not> gi_ownership g") (simp_all only: if_True if_False history_allocate_frame simp_thms)

lemma room_for_less: "room_for room (Suc k) p \<Longrightarrow> room_for room k p"
  by (simp add: room_for_def)

lemma add_passive_fits:
  "room_for room (length ws + k) p \<Longrightarrow> \<exists>p'. add_passive E ws p = Some p' \<and> room_for room k p' \<and> tp_trace p' = tp_trace p"
proof (induction ws arbitrary: p)
  case (Cons w ws)
  have "\<exists>p1. TouchAddPassiveGrabListener E w p = Some p1 \<and> room_for room (length ws + k) p1 \<and> tp_trace p1 = tp_trace p"
    using Cons.prems add_grab_fits [of room "length ws + k" p E] room_for_less [of room "length ws + k" p]
    by (auto simp: TouchAddPassiveGrabListener_def split: option.split)
  with Cons.IH show ?case by fastforce
qed simp

lemma add_regular_fits: "room_for room 1 p \<Longrightarrow> \<exists>p'. add_regular E ws p = Some p' \<and> room_for room 0 p'"
proof (induction ws)
  case Nil
  then show ?case using room_for_less [of room 0 p] by simp
next
  case (Cons w ws)
  show ?case
  proof (cases "selection E w")
    case (Some s)
    have "room_for room (Suc 0) (if si_history s then snd (TouchEventHistoryAllocate (history_ok E) p) else p)" using Cons.prems by simp
    from add_listener_fits [OF this] show ?thesis unfolding add_regular.simps Some option.case by blast
  qed (use Cons in simp)
qed

text \<open>
  C38. The array of listeners of a touch is large enough: after \<^verbatim>\<open>TouchBuildSprite\<close> has allocated one place per window of the
  sprite trace and two more, setting the listeners up for whatever active grab, passive grabs and event
  selections the windows have writes within the array.
\<close>

theorem listeners_fit:
  assumes "TouchBuildSprite trace ok p = (True, q)"
  shows "\<exists>q'. TouchSetupListeners E begins q = Some q' \<and> length (tp_listeners q') \<le> length trace + 2 \<and> tp_room q' = Some (length trace + 2)"
proof -
  have q: "room_for (length trace + 2) (length trace + 2) q" "tp_trace q = trace"
    using assms by (auto simp: TouchBuildSprite_def room_for_def split: if_splits)
  have "\<exists>p1. (case active_grab E of None \<Rightarrow> Some q | Some g \<Rightarrow> TouchAddActiveGrabListener E g q) = Some p1 \<and>
      room_for (length trace + 2) (length trace + 1) p1 \<and> tp_trace p1 = trace"
    using q add_grab_fits [of "length trace + 2" "length trace + 1" q E] room_for_less [of "length trace + 2" "length trace + 1" q]
    by (auto simp: TouchAddActiveGrabListener_def split: option.split)
  then obtain p1 where p1: "(case active_grab E of None \<Rightarrow> Some q | Some g \<Rightarrow> TouchAddActiveGrabListener E g q) = Some p1"
    "room_for (length trace + 2) (length trace + 1) p1" "tp_trace p1 = trace" by blast
  from add_passive_fits [OF this(2), of E] obtain p2 where p2: "add_passive E trace p1 = Some p2" "room_for (length trace + 2) 1 p2" "tp_trace p2 = trace"
    using p1(3) by auto
  from add_regular_fits [OF this(2), of E "rev trace"] obtain p3 where "add_regular E (rev trace) p2 = Some p3" "room_for (length trace + 2) 0 p3" by blast
  with p1 p2 show ?thesis by (cases begins) (auto simp: TouchSetupListeners_def room_for_def)
qed

theorem listeners_fit_witness:
  "\<exists>q'. TouchSetupListeners sample_setup True (snd (TouchBuildSprite [1, 7] True new_point)) = Some q' \<and> length (tp_listeners q') \<le> 4"
proof -
  have "TouchBuildSprite [1, 7] True new_point = (True, snd (TouchBuildSprite [1, 7] True new_point))" by (simp add: TouchBuildSprite_def)
  from listeners_fit [OF this, of sample_setup True] show ?thesis by auto
qed

section \<open>Copies of grabs\<close>

text \<open>The number of grabs is the number of listeners with one, and the copies they hold are alive.\<close>

fun grabs_of :: "touch_listener list \<Rightarrow> nat list" where
  "grabs_of [] = []"
| "grabs_of (l # ls) = (case l_grab l of None \<Rightarrow> grabs_of ls | Some g \<Rightarrow> g # grabs_of ls)"

definition wf_grabs :: "touch_point \<Rightarrow> bool" where
  "wf_grabs p = (tp_num_grabs p = int (length (grabs_of (tp_listeners p))) \<and> distinct (grabs_of (tp_listeners p)) \<and> distinct (live_grabs p) \<and>
     set (grabs_of (tp_listeners p)) \<subseteq> set (live_grabs p) \<and> (\<forall>g \<in> set (live_grabs p). g < grab_copies p))"

lemma grabs_of_append [simp]: "grabs_of (xs @ ys) = grabs_of xs @ grabs_of ys"
  by (induction xs) (auto split: option.split)

lemma add_keeps_grabs:
  assumes "wf_grabs p" "TouchAddListener True r rt lv ty st w g p = Some p'"
  shows "wf_grabs p'"
  using assms by (fastforce simp: TouchAddListener_def wf_grabs_def Let_def split: option.splits if_splits)

lemma remove_first_split: "remove_first r ls = Some (l, ms) \<Longrightarrow> \<exists>us vs. ls = us @ l # vs \<and> ms = us @ vs"
proof (induction ls arbitrary: ms)
  case (Cons k ls)
  show ?case
  proof (cases "l_listener k = r")
    case True
    then show ?thesis using Cons.prems by (intro exI [of _ "[]"] exI [of _ ls]) auto
  next
    case False
    then obtain ns where "remove_first r ls = Some (l, ns)" "ms = k # ns" using Cons.prems by (auto split: prod.splits)
    with Cons.IH obtain us vs where "ls = us @ l # vs" "ns = us @ vs" by blast
    then show ?thesis using \<open>ms = k # ns\<close> by (intro exI [of _ "k # us"] exI [of _ vs]) auto
  qed
qed simp

lemma remove_keeps_grabs:
  assumes "wf_grabs p" "TouchRemoveListener r p = (b, p')"
  shows "wf_grabs p'"
proof (cases "remove_first r (tp_listeners p)")
  case (Some x)
  then obtain l ms where x: "remove_first r (tp_listeners p) = Some (l, ms)" by (cases x) simp
  from remove_first_split [OF this] obtain us vs where "tp_listeners p = us @ l # vs" "ms = us @ vs" by blast
  with assms x show ?thesis
    by (auto simp: TouchRemoveListener_def wf_grabs_def FreeGrab_def split: option.splits)
qed (use assms in \<open>simp add: TouchRemoveListener_def\<close>)

text \<open>The loop of \<^verbatim>\<open>TouchEndTouch\<close> removes half of the listeners.\<close>

lemma remove_listeners_half:
  "tp_listeners (remove_listeners i p) = drop ((length (tp_listeners p) - i + 1) div 2) (tp_listeners p) \<and>
   live_grabs (remove_listeners i p) = fold remove1 (grabs_of (take ((length (tp_listeners p) - i + 1) div 2) (tp_listeners p))) (live_grabs p)"
proof (induction i p rule: remove_listeners.induct)
  case (1 i p)
  show ?case
  proof (cases "i < length (tp_listeners p)")
    case True
    then obtain l ls where ls: "tp_listeners p = l # ls" by (cases "tp_listeners p") auto
    let ?p = "(FreeGrab (l_grab l) p)\<lparr>tp_listeners := ls\<rparr>"
    have r: "remove_listeners i p = remove_listeners (i + 1) ?p"
      using True by (subst remove_listeners.simps) (simp add: ls remove_own)
    have "i \<le> length ls" using True ls by simp
    then have k: "(length (tp_listeners p) - i + 1) div 2 = Suc ((length ls - (i + 1) + 1) div 2)" using ls by (cases "i = length ls") auto
    have f: "live_grabs ?p = (case l_grab l of None \<Rightarrow> live_grabs p | Some g \<Rightarrow> remove1 g (live_grabs p))"
      by (simp add: FreeGrab_def split: option.split)
    have "TouchRemoveListener (l_listener (hd (tp_listeners p))) p = (True, ?p)" using ls by (simp add: remove_own)
    with 1 [OF True] show ?thesis unfolding r k f by (simp add: ls FreeGrab_def split: option.splits)
  next
    case False
    then have "remove_listeners i p = p" by (subst remove_listeners.simps) simp
    with False show ?thesis by simp
  qed
qed

lemma fold_remove1_keeps: "g \<notin> set gs \<Longrightarrow> g \<in> set (fold remove1 gs ls) \<longleftrightarrow> g \<in> set ls"
  by (induction gs arbitrary: ls) auto

text \<open>The copies of grabs held by the second half of the listeners are not freed when the touch ends, although nothing refers to
  them any more.\<close>

theorem end_touch_leaks_grabs:
  assumes "wf_grabs p" "g \<in> set (grabs_of (drop ((length (tp_listeners p) + 1) div 2) (tp_listeners p)))"
  shows "g \<in> set (live_grabs (snd (TouchEndTouch b p)))" "tp_listeners (snd (TouchEndTouch b p)) = []"
proof -
  let ?k = "(length (tp_listeners p) + 1) div 2"
  have "grabs_of (tp_listeners p) = grabs_of (take ?k (tp_listeners p)) @ grabs_of (drop ?k (tp_listeners p))"
    unfolding grabs_of_append [symmetric] by simp
  then have "g \<notin> set (grabs_of (take ?k (tp_listeners p)))" "g \<in> set (live_grabs p)" using assms by (auto simp: wf_grabs_def)
  then show "g \<in> set (live_grabs (snd (TouchEndTouch b p)))"
    using remove_listeners_half [of 0 p] by (simp add: TouchEndTouch_def TouchEventHistoryFree_def Let_def fold_remove1_keeps)
qed (simp add: TouchEndTouch_def TouchEventHistoryFree_def Let_def)

lemma history_allocate_grabs [simp]: "wf_grabs (snd (TouchEventHistoryAllocate ok p)) = wf_grabs p"
  by (auto simp: TouchEventHistoryAllocate_def wf_grabs_def)

lemma add_grab_keeps_grabs: "copy_ok E \<Longrightarrow> wf_grabs p \<Longrightarrow> TouchAddGrabListener E g p = Some p' \<Longrightarrow> wf_grabs p'"
  unfolding TouchAddGrabListener_def Let_def by (rule add_keeps_grabs) (auto split: if_splits)

lemma add_passive_keeps_grabs: "copy_ok E \<Longrightarrow> wf_grabs p \<Longrightarrow> add_passive E ws p = Some p' \<Longrightarrow> wf_grabs p'"
  by (induction ws arbitrary: p)
     (auto simp: TouchAddPassiveGrabListener_def bind_eq_Some_conv split: option.splits dest: add_grab_keeps_grabs)

lemma add_regular_keeps_grabs: "copy_ok E \<Longrightarrow> wf_grabs p \<Longrightarrow> add_regular E ws p = Some p' \<Longrightarrow> wf_grabs p'"
  by (induction ws) (auto split: option.splits if_splits dest!: add_keeps_grabs [rotated])

text \<open>
  C99. As long as grabs can be copied, the listeners of a touch and their grabs stay in step: setting the listeners up and
  removing one by its resource keep the number of grabs equal to the number of listeners that hold a copy, the
  copies different and alive.
\<close>

theorem listeners_keep_grabs:
  assumes "copy_ok E" "wf_grabs p"
  shows "TouchSetupListeners E begins p = Some q \<Longrightarrow> wf_grabs (snd (TouchRemoveListener r q))"
proof -
  assume s: "TouchSetupListeners E begins p = Some q"
  then obtain p1 where p1: "(case active_grab E of None \<Rightarrow> Some p | Some g \<Rightarrow> TouchAddActiveGrabListener E g p) = Some p1"
    "(if \<not> begins then Some p1 else Option.bind (add_passive E (tp_trace p1) p1) (\<lambda>p2. add_regular E (rev (tp_trace p2)) p2)) = Some q"
    by (auto simp: TouchSetupListeners_def bind_eq_Some_conv)
  have "wf_grabs p1" using p1(1) assms by (auto simp: TouchAddActiveGrabListener_def split: option.splits if_splits dest: add_grab_keeps_grabs)
  then have "wf_grabs q" using p1(2) assms(1)
    by (auto simp: bind_eq_Some_conv split: if_splits dest: add_passive_keeps_grabs add_regular_keeps_grabs)
  then show ?thesis using remove_keeps_grabs [of q r] by (cases "TouchRemoveListener r q") auto
qed

text \<open>A grab that could not be copied is still counted, and its removal does not take it from the count.\<close>

theorem failed_copy_is_counted:
  assumes "tp_num_grabs p = int (length (grabs_of (tp_listeners p)))" "TouchAddListener False r rt lv ty st w True p = Some q"
  shows "tp_num_grabs q = int (length (grabs_of (tp_listeners q))) + 1"
  using assms by (auto simp: TouchAddListener_def Let_def split: option.splits if_splits)

end
