(* ===== verification/Xshm_Fence.thy ===== *)
theory Xshm_Fence
  imports Lorie_Prelude
begin

text \<open>
  Fences in shared memory, on which clients and the server wait for each other (\<^verbatim>\<open>libxshmfence\<close>): the fence on a futex, the fence
  on a process-shared mutex and condition variable, and the wrapper of \<^verbatim>\<open>lorie/xshmfence.c\<close> that chooses between them by the size of
  the shared memory. Each atomic access to the fence and each critical section is one step of one thread; threads of all
  processes that map the fence are numbered.
\<close>

section \<open>The interface of a fence\<close>

datatype fence_action = Trigger | Await | Query | Reset | Continue | Spurious | Signal

text \<open>A run of a fence: which thread takes which step, in what order.\<close>

fun run_acts :: "(nat \<Rightarrow> fence_action \<Rightarrow> 's \<Rightarrow> (int option \<times> 's) option) \<Rightarrow> (nat \<times> fence_action) list \<Rightarrow> 's \<Rightarrow> 's option" where
  "run_acts act [] s = Some s"
| "run_acts act ((t, a) # as) s = (case act t a s of None \<Rightarrow> None | Some (r, s') \<Rightarrow> run_acts act as s')"

text \<open>
  What a fence promises its callers. \<open>act t a s\<close> is the step \<open>a\<close> of thread \<open>t\<close>, if it is possible, with the value a call
  returns in it; \<open>Continue\<close> goes on with a call that has begun. While the fence is triggered, every such step
  brings the calls nearer to their end, and some call can go on until all have returned. An await succeeds only on a
  fence that is triggered.
\<close>

locale fence =
  fixes act :: "nat \<Rightarrow> fence_action \<Rightarrow> 's \<Rightarrow> (int option \<times> 's) option"
    and inv :: "'s \<Rightarrow> bool"
    and triggered :: "'s \<Rightarrow> bool"
    and awaiting :: "nat \<Rightarrow> 's \<Rightarrow> bool"
    and quiet :: "'s \<Rightarrow> bool"
    and work :: "'s \<Rightarrow> nat"
  assumes act_inv: "inv s \<Longrightarrow> act t a s = Some (r, s') \<Longrightarrow> inv s'"
    and continue_triggered: "triggered s \<Longrightarrow> act t Continue s = Some (r, s') \<Longrightarrow> triggered s' \<and> work s' < work s"
    and continue_progress: "inv s \<Longrightarrow> triggered s \<Longrightarrow> \<not> quiet s \<Longrightarrow> \<exists>t r s'. act t Continue s = Some (r, s')"
    and await_triggered: "inv s \<Longrightarrow> a = Await \<or> a = Continue \<and> awaiting t s \<Longrightarrow> act t a s = Some (Some 0, s') \<Longrightarrow> triggered s"
begin

lemma run_inv: "run_acts act as s = Some s' \<Longrightarrow> inv s \<Longrightarrow> inv s'"
proof (induction as arbitrary: s)
  case (Cons ta as)
  obtain t a where ta: "ta = (t, a)" by (cases ta)
  with Cons.prems obtain r s1 where "act t a s = Some (r, s1)" "run_acts act as s1 = Some s'" by (auto split: option.splits)
  then show ?case using Cons act_inv by blast
qed simp

lemma continue_bound:
  "run_acts act (map (\<lambda>t. (t, Continue)) ts) s = Some s' \<Longrightarrow> triggered s \<Longrightarrow> inv s \<Longrightarrow> triggered s' \<and> inv s' \<and> length ts + work s' \<le> work s"
proof (induction ts arbitrary: s)
  case (Cons t ts)
  then obtain r s1 where a: "act t Continue s = Some (r, s1)" and m: "run_acts act (map (\<lambda>t. (t, Continue)) ts) s1 = Some s'" by (auto split: option.splits)
  show ?case using Cons.IH [OF m] continue_triggered [OF Cons.prems(2) a] act_inv [OF Cons.prems(3) a] by simp
qed simp

lemma all_return:
  assumes "inv s" "triggered s" "run_acts act (map (\<lambda>t. (t, Continue)) ts) s = Some s'"
  shows "length ts \<le> work s \<and> ((\<forall>t. act t Continue s' = None) \<longrightarrow> quiet s')"
proof -
  have "triggered s'" "inv s'" "length ts + work s' \<le> work s" using continue_bound [OF assms(3,2,1)] by auto
  then show ?thesis using continue_progress [of s'] by fastforce
qed

end

section \<open>The fence on a futex\<close>

text \<open>\<open>FStore\<close> and \<open>FWake\<close> are the places of a trigger after its exchange and after its store; \<open>FTry\<close>, \<open>FWait\<close> and \<open>FSleep\<close> those of
  an await before its exchange, before its call of \<^verbatim>\<open>futex_wait\<close> and asleep in it.\<close>

datatype futex_pc = FIdle | FStore | FWake | FTry | FWait | FSleep

record futex_fence =
  futex_v :: int
  futex_pcs :: "futex_pc list"

definition compare_and_swap :: "int \<Rightarrow> int \<Rightarrow> int \<Rightarrow> int" where
  "compare_and_swap v old new = (if v = old then new else v)"

definition futex_goto :: "nat \<Rightarrow> futex_pc \<Rightarrow> futex_fence \<Rightarrow> futex_fence" where
  "futex_goto t pc s = s\<lparr>futex_pcs := (futex_pcs s)[t := pc]\<rparr>"

definition futex_trigger :: "nat \<Rightarrow> futex_fence \<Rightarrow> int option \<times> futex_fence" where
  "futex_trigger t s =
     (let s1 = s\<lparr>futex_v := compare_and_swap (futex_v s) 0 1\<rparr>
      in if futex_v s = -1 then (None, futex_goto t FStore s1) else (Some 0, s1))"

text \<open>One round of the loop of \<^verbatim>\<open>xshmfence_await\<close> up to the system call.\<close>

definition futex_try :: "nat \<Rightarrow> futex_fence \<Rightarrow> int option \<times> futex_fence" where
  "futex_try t s =
     (let s1 = s\<lparr>futex_v := compare_and_swap (futex_v s) 0 (-1)\<rparr>
      in if futex_v s \<noteq> 1 then (None, futex_goto t FWait s1) else (Some 0, futex_goto t FIdle s1))"

text \<open>The system call sleeps if the fence still has the value it is called with, and says so otherwise.\<close>

definition futex_wait :: "nat \<Rightarrow> futex_fence \<Rightarrow> futex_fence" where
  "futex_wait t s = (if futex_v s = -1 then futex_goto t FSleep s else futex_goto t FTry s)"

definition futex_wake :: "nat \<Rightarrow> futex_fence \<Rightarrow> futex_fence" where
  "futex_wake t s = s\<lparr>futex_pcs := (map (\<lambda>pc. if pc = FSleep then FTry else pc) (futex_pcs s))[t := FIdle]\<rparr>"

definition futex_act :: "nat \<Rightarrow> fence_action \<Rightarrow> futex_fence \<Rightarrow> (int option \<times> futex_fence) option" where
  "futex_act t a s =
     (if length (futex_pcs s) \<le> t then None
      else case (a, futex_pcs s ! t) of
        (Trigger, FIdle) \<Rightarrow> Some (futex_trigger t s)
      | (Await, FIdle) \<Rightarrow> Some (futex_try t s)
      | (Query, FIdle) \<Rightarrow> Some (Some (if futex_v s = 1 then 1 else 0), s)
      | (Reset, FIdle) \<Rightarrow> Some (Some 0, s\<lparr>futex_v := compare_and_swap (futex_v s) 1 0\<rparr>)
      | (Continue, FStore) \<Rightarrow> Some (None, futex_goto t FWake (s\<lparr>futex_v := 1\<rparr>))
      | (Continue, FWake) \<Rightarrow> Some (Some 0, futex_wake t s)
      | (Continue, FTry) \<Rightarrow> Some (futex_try t s)
      | (Continue, FWait) \<Rightarrow> Some (None, futex_wait t s)
      | (Spurious, FSleep) \<Rightarrow> Some (None, futex_goto t FTry s)
      | (Signal, FSleep) \<Rightarrow> Some (Some (-1), futex_goto t FIdle s)
      | _ \<Rightarrow> None)"

definition futex_inv :: "futex_fence \<Rightarrow> bool" where
  "futex_inv s = (futex_v s \<in> {-1, 0, 1} \<and> (FSleep \<in> set (futex_pcs s) \<longrightarrow> futex_v s = -1 \<or> FWake \<in> set (futex_pcs s)))"

fun futex_weight :: "futex_pc \<Rightarrow> nat" where
  "futex_weight FIdle = 0"
| "futex_weight FTry = 1"
| "futex_weight FWake = 1"
| "futex_weight pc = 2"

definition futex_work :: "futex_fence \<Rightarrow> nat" where
  "futex_work s = sum_list (map futex_weight (futex_pcs s))"

definition futex_quiet :: "futex_fence \<Rightarrow> bool" where
  "futex_quiet s = list_all (\<lambda>pc. pc = FIdle) (futex_pcs s)"

definition futex_awaiting :: "nat \<Rightarrow> futex_fence \<Rightarrow> bool" where
  "futex_awaiting t s = (futex_pcs s ! t = FTry \<or> futex_pcs s ! t = FWait \<or> futex_pcs s ! t = FSleep)"

lemma set_update_cases: "t < length xs \<Longrightarrow> y \<in> set (xs[t := x]) \<Longrightarrow> y = x \<or> y \<in> set xs"
  using set_update_subset_insert [of xs t x] by auto

lemma set_update_other: "t < length xs \<Longrightarrow> y \<in> set xs \<Longrightarrow> xs ! t \<noteq> y \<Longrightarrow> y \<in> set (xs[t := x])"
  by (metis in_set_conv_nth length_list_update nth_list_update_neq)

lemma futex_goto_inv:
  assumes "futex_inv s" "t < length (futex_pcs s)" "futex_pcs s ! t \<noteq> FWake" "pc = FSleep \<longrightarrow> futex_v s = -1"
  shows "futex_inv (futex_goto t pc s)"
  using assms set_update_cases [of t "futex_pcs s" FSleep pc] set_update_other [of t "futex_pcs s" FWake pc]
  by (auto simp: futex_inv_def futex_goto_def)

lemma futex_v_inv: "futex_inv s \<Longrightarrow> v \<in> {-1, 0, 1} \<Longrightarrow> v = -1 \<or> futex_v s \<noteq> -1 \<Longrightarrow> futex_inv (s\<lparr>futex_v := v\<rparr>)"
  by (auto simp: futex_inv_def)

lemma goto_simps [simp]: "futex_v (futex_goto t pc s) = futex_v s" "futex_pcs (futex_goto t pc s) = (futex_pcs s)[t := pc]"
  by (simp_all add: futex_goto_def)

lemma futex_act_inv:
  assumes i: "futex_inv s" and a: "futex_act t a s = Some (r, s')"
  shows "futex_inv s'"
proof -
  have t: "t < length (futex_pcs s)" using a by (auto simp: futex_act_def split: if_splits)
  have w: "futex_inv (futex_wake t s)"
    using i t set_update_cases [of t "map (\<lambda>pc. if pc = FSleep then FTry else pc) (futex_pcs s)" FSleep FIdle] by (auto simp: futex_inv_def futex_wake_def)
  have st: "futex_inv (futex_goto t FWake (s\<lparr>futex_v := 1\<rparr>))" using t by (auto simp: futex_inv_def futex_goto_def set_update_memI)
  have cas: "futex_inv (s\<lparr>futex_v := compare_and_swap (futex_v s) 0 1\<rparr>)" "futex_inv (s\<lparr>futex_v := compare_and_swap (futex_v s) 0 (-1)\<rparr>)"
    "futex_inv (s\<lparr>futex_v := compare_and_swap (futex_v s) 1 0\<rparr>)"
    using i by (auto simp: compare_and_swap_def futex_inv_def)
  show ?thesis
    using a t i w st cas
    by (auto simp: futex_act_def futex_trigger_def futex_try_def futex_wait_def Let_def intro!: futex_goto_inv split: if_splits fence_action.splits futex_pc.splits)
qed

lemma weights_update: "t < length pcs \<Longrightarrow> f pc < f (pcs ! t) \<Longrightarrow> sum_list (map f (pcs[t := pc])) < sum_list (map (f :: 'a \<Rightarrow> nat) pcs)"
  using elem_le_sum_list [of t "map f pcs"] by (simp add: map_update sum_list_update)

lemma futex_wake_work:
  assumes "t < length (futex_pcs s)" "futex_pcs s ! t = FWake"
  shows "futex_work (futex_wake t s) < futex_work s"
proof -
  let ?g = "\<lambda>pc. if pc = FSleep then FTry else pc"
  have "futex_work (futex_wake t s) < sum_list (map futex_weight (map ?g (futex_pcs s)))"
    using weights_update [of t "map ?g (futex_pcs s)" futex_weight FIdle] assms by (simp add: futex_work_def futex_wake_def)
  also have "\<dots> \<le> futex_work s" unfolding futex_work_def map_map by (rule sum_list_mono) simp
  finally show ?thesis .
qed

lemma futex_continue_work:
  assumes v: "futex_v s = 1" and a: "futex_act t Continue s = Some (r, s')"
  shows "futex_v s' = 1 \<and> futex_work s' < futex_work s"
proof -
  have t: "t < length (futex_pcs s)" using a by (auto simp: futex_act_def split: if_splits)
  have u: "futex_weight pc < futex_weight (futex_pcs s ! t) \<Longrightarrow> futex_work (futex_goto t pc q) < futex_work s" if "futex_pcs q = futex_pcs s" for pc q
    using weights_update [OF t, of futex_weight pc] that by (simp add: futex_work_def)
  show ?thesis using a v t futex_wake_work [OF t] u
    by (auto simp: futex_act_def futex_try_def futex_wait_def compare_and_swap_def Let_def futex_wake_def split: futex_pc.splits)
qed

lemma futex_continue_progress:
  assumes i: "futex_inv s" and v: "futex_v s = 1" and q: "\<not> futex_quiet s"
  shows "\<exists>t r s'. futex_act t Continue s = Some (r, s')"
proof -
  have "\<exists>pc \<in> set (futex_pcs s). pc \<noteq> FIdle \<and> pc \<noteq> FSleep"
    using i v q by (fastforce simp: futex_inv_def futex_quiet_def list_all_iff)
  then obtain t where "t < length (futex_pcs s)" "futex_pcs s ! t \<noteq> FIdle" "futex_pcs s ! t \<noteq> FSleep" by (metis in_set_conv_nth)
  then have "futex_act t Continue s \<noteq> None" by (cases "futex_pcs s ! t") (simp_all add: futex_act_def)
  then show ?thesis by force
qed

interpretation futex: fence futex_act futex_inv "\<lambda>s. futex_v s = 1" futex_awaiting futex_quiet futex_work
proof unfold_locales
  fix s s' t r
  assume "futex_v s = 1" "futex_act t Continue s = Some (r, s')"
  then show "futex_v s' = 1 \<and> futex_work s' < futex_work s" by (rule futex_continue_work)
next
  fix s s' a t
  assume "a = Await \<or> a = Continue \<and> futex_awaiting t s" "futex_act t a s = Some (Some 0, s')" "futex_inv s"
  then show "futex_v s = 1"
    by (auto simp: futex_act_def futex_awaiting_def futex_try_def Let_def split: if_splits futex_pc.splits)
qed (blast intro: futex_act_inv futex_continue_progress)+

section \<open>The fence on a mutex and a condition variable\<close>

text \<open>Each critical section is one step. Waiting on the condition variable releases the mutex and sleeps at once, and takes the mutex
  again after it woke up, for any reason.\<close>

datatype pthread_pc = PIdle | PSleep | PRelock

record pthread_fence =
  pf_value :: int
  pf_waiting :: int
  pf_pcs :: "pthread_pc list"

definition pthread_trigger :: "pthread_fence \<Rightarrow> pthread_fence" where
  "pthread_trigger s =
     (if pf_value s = 0
      then let s1 = s\<lparr>pf_value := 1\<rparr>
           in if pf_waiting s1 \<noteq> 0
              then s1\<lparr>pf_waiting := 0, pf_pcs := map (\<lambda>pc. if pc = PSleep then PRelock else pc) (pf_pcs s1)\<rparr>
              else s1
      else s)"

definition pthread_await :: "nat \<Rightarrow> pthread_fence \<Rightarrow> int option \<times> pthread_fence" where
  "pthread_await t s =
     (if pf_value s = 0 then (None, s\<lparr>pf_waiting := 1, pf_pcs := (pf_pcs s)[t := PSleep]\<rparr>)
      else (Some 0, s\<lparr>pf_pcs := (pf_pcs s)[t := PIdle]\<rparr>))"

definition pthread_act :: "nat \<Rightarrow> fence_action \<Rightarrow> pthread_fence \<Rightarrow> (int option \<times> pthread_fence) option" where
  "pthread_act t a s =
     (if length (pf_pcs s) \<le> t then None
      else case (a, pf_pcs s ! t) of
        (Trigger, PIdle) \<Rightarrow> Some (Some 0, pthread_trigger s)
      | (Await, PIdle) \<Rightarrow> Some (pthread_await t s)
      | (Query, PIdle) \<Rightarrow> Some (Some (pf_value s), s)
      | (Reset, PIdle) \<Rightarrow> Some (Some 0, s\<lparr>pf_value := 0\<rparr>)
      | (Continue, PRelock) \<Rightarrow> Some (pthread_await t s)
      | (Spurious, PSleep) \<Rightarrow> Some (None, s\<lparr>pf_pcs := (pf_pcs s)[t := PRelock]\<rparr>)
      | _ \<Rightarrow> None)"

definition pthread_inv :: "pthread_fence \<Rightarrow> bool" where
  "pthread_inv s = (pf_value s \<in> {0, 1} \<and> (PSleep \<in> set (pf_pcs s) \<longrightarrow> pf_waiting s \<noteq> 0 \<and> pf_value s = 0))"

definition pthread_work :: "pthread_fence \<Rightarrow> nat" where
  "pthread_work s = sum_list (map (\<lambda>pc. if pc = PIdle then 0 else 1) (pf_pcs s))"

definition pthread_quiet :: "pthread_fence \<Rightarrow> bool" where
  "pthread_quiet s = list_all (\<lambda>pc. pc = PIdle) (pf_pcs s)"

definition pthread_awaiting :: "nat \<Rightarrow> pthread_fence \<Rightarrow> bool" where
  "pthread_awaiting t s = (pf_pcs s ! t \<noteq> PIdle)"

lemma pthread_act_inv:
  assumes "pthread_inv s" "pthread_act t a s = Some (r, s')"
  shows "pthread_inv s'"
proof -
  have t: "t < length (pf_pcs s)" using assms(2) by (auto simp: pthread_act_def split: if_splits)
  show ?thesis
    using assms t set_update_cases [OF t, of PSleep PIdle] set_update_cases [OF t, of PSleep PRelock]
    by (auto simp: pthread_act_def pthread_await_def pthread_trigger_def pthread_inv_def Let_def split: if_splits fence_action.splits pthread_pc.splits)
qed

lemma pthread_continue_work:
  assumes "pf_value s = 1" "pthread_act t Continue s = Some (r, s')"
  shows "pf_value s' = 1 \<and> pthread_work s' < pthread_work s"
proof -
  have t: "t < length (pf_pcs s)" using assms(2) by (auto simp: pthread_act_def split: if_splits)
  show ?thesis using assms weights_update [OF t, of "\<lambda>pc. if pc = PIdle then 0 else 1" PIdle]
    by (auto simp: pthread_act_def pthread_await_def pthread_work_def split: if_splits pthread_pc.splits)
qed

lemma pthread_continue_progress:
  assumes i: "pthread_inv s" and v: "pf_value s = 1" and q: "\<not> pthread_quiet s"
  shows "\<exists>t r s'. pthread_act t Continue s = Some (r, s')"
proof -
  have "PRelock \<in> set (pf_pcs s)" using i v q by (auto simp: pthread_inv_def pthread_quiet_def list_all_iff) (metis pthread_pc.exhaust)
  then obtain t where "t < length (pf_pcs s)" "pf_pcs s ! t = PRelock" by (metis in_set_conv_nth)
  then have "pthread_act t Continue s \<noteq> None" by (simp add: pthread_act_def)
  then show ?thesis by force
qed

interpretation pthread: fence pthread_act pthread_inv "\<lambda>s. pf_value s = 1" pthread_awaiting pthread_quiet pthread_work
proof unfold_locales
  fix s s' t r
  assume "pf_value s = 1" "pthread_act t Continue s = Some (r, s')"
  then show "pf_value s' = 1 \<and> pthread_work s' < pthread_work s" by (rule pthread_continue_work)
next
  fix s s' a t
  assume "a = Await \<or> a = Continue \<and> pthread_awaiting t s" "pthread_act t a s = Some (Some 0, s')" "pthread_inv s"
  then show "pf_value s = 1"
    by (auto simp: pthread_act_def pthread_awaiting_def pthread_await_def pthread_inv_def split: if_splits pthread_pc.splits)
qed (blast intro: pthread_act_inv pthread_continue_progress)+

section \<open>The wrapper\<close>

datatype xshmfence = Futex futex_fence | Pthread pthread_fence

definition xshmfence_act :: "nat \<Rightarrow> fence_action \<Rightarrow> xshmfence \<Rightarrow> (int option \<times> xshmfence) option" where
  "xshmfence_act t a f = (case f of
       Futex s \<Rightarrow> map_option (map_prod id Futex) (futex_act t a s)
     | Pthread s \<Rightarrow> map_option (map_prod id Pthread) (pthread_act t a s))"

text \<open>Mapping a file descriptor: \<open>st_size\<close> is the size \<^verbatim>\<open>fstat\<close> reports, 0 where it fails, \<open>mapped\<close> is what the chosen implementation finds in
  the memory, none where it cannot be mapped; the implementation then closes the descriptor. The answer has
  the fence and whether the descriptor is still open.\<close>

definition xshmfence_map_shm :: "bool \<Rightarrow> nat \<Rightarrow> (bool \<Rightarrow> xshmfence option) \<Rightarrow> xshmfence option \<times> bool" where
  "xshmfence_map_shm allocated st_size mapped =
     (if \<not> allocated then (None, True)
      else case mapped (st_size = 4) of None \<Rightarrow> (None, False) | Some f \<Rightarrow> (Some f, True))"

definition xshmfence_alloc_shm :: int where
  "xshmfence_alloc_shm = -1"

definition xshm_inv :: "xshmfence \<Rightarrow> bool" where
  "xshm_inv f = (case f of Futex s \<Rightarrow> futex_inv s | Pthread s \<Rightarrow> pthread_inv s)"

definition xshm_triggered :: "xshmfence \<Rightarrow> bool" where
  "xshm_triggered f = (case f of Futex s \<Rightarrow> futex_v s = 1 | Pthread s \<Rightarrow> pf_value s = 1)"

definition xshm_awaiting :: "nat \<Rightarrow> xshmfence \<Rightarrow> bool" where
  "xshm_awaiting t f = (case f of Futex s \<Rightarrow> futex_awaiting t s | Pthread s \<Rightarrow> pthread_awaiting t s)"

definition xshm_quiet :: "xshmfence \<Rightarrow> bool" where
  "xshm_quiet f = (case f of Futex s \<Rightarrow> futex_quiet s | Pthread s \<Rightarrow> pthread_quiet s)"

definition xshm_work :: "xshmfence \<Rightarrow> nat" where
  "xshm_work f = (case f of Futex s \<Rightarrow> futex_work s | Pthread s \<Rightarrow> pthread_work s)"

lemmas xshm_defs = xshmfence_act_def xshm_inv_def xshm_triggered_def xshm_awaiting_def xshm_quiet_def xshm_work_def

interpretation xshm: fence xshmfence_act xshm_inv xshm_triggered xshm_awaiting xshm_quiet xshm_work
proof unfold_locales
  fix s s' t a r
  assume "xshm_inv s" "xshmfence_act t a s = Some (r, s')"
  then show "xshm_inv s'" using futex.act_inv pthread.act_inv by (cases s) (auto simp: xshm_defs)
next
  fix s s' t r
  assume "xshm_triggered s" "xshmfence_act t Continue s = Some (r, s')"
  then show "xshm_triggered s' \<and> xshm_work s' < xshm_work s"
    using futex.continue_triggered pthread.continue_triggered by (cases s) (fastforce simp: xshm_defs)+
next
  fix s
  assume "xshm_inv s" "xshm_triggered s" "\<not> xshm_quiet s"
  then show "\<exists>t r s'. xshmfence_act t Continue s = Some (r, s')"
    using futex.continue_progress pthread.continue_progress by (cases s) (fastforce simp: xshm_defs)+
next
  fix s s' t a
  assume "xshm_inv s" "a = Await \<or> a = Continue \<and> xshm_awaiting t s" "xshmfence_act t a s = Some (Some 0, s')"
  then show "xshm_triggered s" using futex.await_triggered pthread.await_triggered by (cases s) (fastforce simp: xshm_defs)+
qed

text \<open>The state of a fence whose memory was just set up, for \<open>n\<close> threads.\<close>

definition fresh_fence :: "bool \<Rightarrow> nat \<Rightarrow> xshmfence" where
  "fresh_fence is_futex n = (if is_futex then Futex \<lparr>futex_v = 0, futex_pcs = replicate n FIdle\<rparr>
     else Pthread \<lparr>pf_value = 0, pf_waiting = 0, pf_pcs = replicate n PIdle\<rparr>)"

lemma fresh_fence_inv: "xshm_inv (fresh_fence b n)"
  by (auto simp: fresh_fence_def xshm_inv_def futex_inv_def pthread_inv_def)

text \<open>
  C12. No wake-up of a fence is lost: however the calls of any number of threads on a fence of either kind have interleaved, with
  spurious wake-ups and signals, once the fence is triggered every order in which the calls that have begun go on ends after a
  bounded number of steps, and it ends only when all of them have returned: nobody sleeps on.
\<close>

theorem fence_wakes_all:
  assumes "run_acts xshmfence_act as (fresh_fence is_futex n) = Some f" "xshm_triggered f"
    and "run_acts xshmfence_act (map (\<lambda>t. (t, Continue)) ts) f = Some f'"
  shows "length ts \<le> xshm_work f \<and> ((\<forall>t. xshmfence_act t Continue f' = None) \<longrightarrow> xshm_quiet f')"
  by (rule xshm.all_return [OF xshm.run_inv [OF assms(1) fresh_fence_inv] assms(2,3)])

text \<open>Thread 1 goes to sleep, thread 0 triggers the fence, and thread 1 returns.\<close>

theorem fence_wakes_all_witness:
  "\<exists>f f'. run_acts xshmfence_act [(1, Await), (1, Continue), (0, Trigger), (0, Continue)] (fresh_fence True 2) = Some f \<and>
     run_acts xshmfence_act [(0, Continue), (1, Continue)] f = Some f' \<and> xshm_quiet f'"
proof -
  let ?as = "[(1, Await), (1, Continue), (0, Trigger), (0, Continue)]"
  let ?f = "Futex \<lparr>futex_v = 1, futex_pcs = [FWake, FSleep]\<rparr>" and ?g = "Futex \<lparr>futex_v = 1, futex_pcs = [FIdle, FIdle]\<rparr>"
  have f: "run_acts xshmfence_act ?as (fresh_fence True 2) = Some ?f" by code_simp
  have t: "xshm_triggered ?f" by code_simp
  have g: "run_acts xshmfence_act (map (\<lambda>t. (t, Continue)) [0, 1]) ?f = Some ?g" by code_simp
  have "xshmfence_act t Continue ?g = None" for t
    by (auto simp: xshmfence_act_def futex_act_def nth_Cons split: nat.split)
  then have "xshm_quiet ?g" using fence_wakes_all [OF f t g] by blast
  with f g show ?thesis by auto
qed

text \<open>
  A successful await means a triggered fence: in whatever state the calls of any number of threads have brought a fence of either
  kind, a call of \<^verbatim>\<open>xshmfence_await\<close> returns zero, at once or after it slept, only in a step that finds the fence triggered.
\<close>

theorem await_means_triggered:
  assumes "run_acts xshmfence_act as (fresh_fence is_futex n) = Some f" "a = Await \<or> a = Continue \<and> xshm_awaiting t f"
    and "xshmfence_act t a f = Some (Some 0, f')"
  shows "xshm_triggered f"
  by (rule xshm.await_triggered [OF xshm.run_inv [OF assms(1) fresh_fence_inv] assms(2,3)])

theorem await_means_triggered_witness:
  "\<exists>f f'. run_acts xshmfence_act [(0, Trigger)] (fresh_fence False 2) = Some f \<and> xshmfence_act 1 Await f = Some (Some 0, f') \<and> xshm_triggered f"
proof -
  let ?f = "Pthread \<lparr>pf_value = 1, pf_waiting = 0, pf_pcs = [PIdle, PIdle]\<rparr>"
  have f: "run_acts xshmfence_act [(0, Trigger)] (fresh_fence False 2) = Some ?f" by code_simp
  have a: "xshmfence_act 1 Await ?f = Some (Some 0, ?f)" by code_simp
  from await_means_triggered [OF f _ a] have "xshm_triggered ?f" by blast
  with f a show ?thesis by blast
qed

end
