(* ===== verification/Mi_Sync.thy ===== *)
theory Mi_Sync
  imports Xshm_Fence
begin

text \<open>
  Fence objects of the X server over fences in shared memory (\<^verbatim>\<open>miext/sync/misync.c\<close>, \<^verbatim>\<open>miext/sync/misyncshm.c\<close>): their functions, their
  life from the descriptor a client sends, and the descriptors they close. The server's calls run on thread 0 and are not
  interrupted here by other threads of the fence.
\<close>

section \<open>Fence objects\<close>

text \<open>\<open>shm_funcs\<close> says whether the object has the functions for shared memory; \<open>closed_fds\<close> are the descriptors that were closed,
  in the order of the calls.\<close>

record sync_fence =
  sf_triggered :: bool
  shm_funcs :: bool
  sf_initialized :: bool
  sf_fence :: "xshmfence option"
  sf_fd :: int
  closed_fds :: "int list"

text \<open>A call of the library on thread 0 until it returns.\<close>

fun call_fence :: "nat \<Rightarrow> fence_action \<Rightarrow> xshmfence \<Rightarrow> (int \<times> xshmfence) option" where
  "call_fence 0 a f = None"
| "call_fence (Suc n) a f = (case xshmfence_act 0 a f of
       None \<Rightarrow> None
     | Some (Some r, f') \<Rightarrow> Some (r, f')
     | Some (None, f') \<Rightarrow> call_fence n Continue f')"

definition miSyncFenceSetTriggered :: "sync_fence \<Rightarrow> sync_fence" where
  "miSyncFenceSetTriggered F = F\<lparr>sf_triggered := True\<rparr>"

definition miSyncFenceReset :: "sync_fence \<Rightarrow> sync_fence" where
  "miSyncFenceReset F = F\<lparr>sf_triggered := False\<rparr>"

definition miSyncFenceCheckTriggered :: "sync_fence \<Rightarrow> bool" where
  "miSyncFenceCheckTriggered F = sf_triggered F"

definition with_fence :: "fence_action \<Rightarrow> sync_fence \<Rightarrow> sync_fence option" where
  "with_fence a F = (case sf_fence F of
       None \<Rightarrow> Some F | Some f \<Rightarrow> map_option (\<lambda>(r, f'). F\<lparr>sf_fence := Some f'\<rparr>) (call_fence 3 a f))"

definition miSyncShmFenceSetTriggered :: "sync_fence \<Rightarrow> sync_fence option" where
  "miSyncShmFenceSetTriggered F = map_option miSyncFenceSetTriggered (with_fence Trigger F)"

definition miSyncShmFenceReset :: "sync_fence \<Rightarrow> sync_fence option" where
  "miSyncShmFenceReset F = map_option miSyncFenceReset (with_fence Reset F)"

definition miSyncShmFenceCheckTriggered :: "sync_fence \<Rightarrow> bool option" where
  "miSyncShmFenceCheckTriggered F = (case sf_fence F of
       None \<Rightarrow> Some (miSyncFenceCheckTriggered F)
     | Some f \<Rightarrow> map_option (\<lambda>(r, f'). r \<noteq> 0) (call_fence 1 Query f))"

definition miSyncScreenCreateFence :: "bool \<Rightarrow> sync_fence \<Rightarrow> sync_fence" where
  "miSyncScreenCreateFence initially_triggered F = F\<lparr>sf_triggered := initially_triggered\<rparr>"

definition miSyncShmScreenCreateFence :: "bool \<Rightarrow> sync_fence \<Rightarrow> sync_fence" where
  "miSyncShmScreenCreateFence initially_triggered F =
     (miSyncScreenCreateFence initially_triggered (F\<lparr>sf_fence := None\<rparr>))\<lparr>shm_funcs := True\<rparr>"

text \<open>The screen of the program has the functions for shared memory.\<close>

definition miSyncInitFence :: "bool \<Rightarrow> sync_fence \<Rightarrow> sync_fence" where
  "miSyncInitFence initially_triggered F =
     (miSyncShmScreenCreateFence initially_triggered (F\<lparr>shm_funcs := False\<rparr>))\<lparr>sf_initialized := True\<rparr>"

definition sync_close :: "int \<Rightarrow> sync_fence \<Rightarrow> sync_fence" where
  "sync_close fd F = F\<lparr>closed_fds := closed_fds F @ [fd]\<rparr>"

text \<open>\<open>moved\<close> is the duplicate \<^verbatim>\<open>fcntl\<close> makes, if it can.\<close>

definition os_move_fd :: "int option \<Rightarrow> int \<Rightarrow> sync_fence \<Rightarrow> int \<times> sync_fence" where
  "os_move_fd moved fd F = (case moved of None \<Rightarrow> (fd, F) | Some fd' \<Rightarrow> (fd', sync_close fd F))"

datatype status = Success | BadValue

definition miSyncShmCreateFenceFromFd ::
  "int option \<Rightarrow> (xshmfence option \<times> bool) \<Rightarrow> int \<Rightarrow> bool \<Rightarrow> sync_fence \<Rightarrow> status \<times> sync_fence" where
  "miSyncShmCreateFenceFromFd moved mapping fd initially_triggered F =
     (case os_move_fd moved fd (miSyncInitFence initially_triggered F) of (fd', F1) \<Rightarrow>
      case mapping of (f, fd_open) \<Rightarrow>
        let F2 = (if fd_open then F1 else sync_close fd' F1)\<lparr>sf_fence := f\<rparr> in
        if f \<noteq> None then (Success, F2\<lparr>sf_fd := fd'\<rparr>)
        else (BadValue, sync_close fd' F2))"

definition miSyncShmGetFenceFd :: "sync_fence \<Rightarrow> int \<times> sync_fence" where
  "miSyncShmGetFenceFd F =
     (if sf_fence F = None then (-1, F\<lparr>sf_fd := xshmfence_alloc_shm\<rparr>) else (sf_fd F, F))"

definition miSyncShmScreenDestroyFence :: "sync_fence \<Rightarrow> sync_fence option" where
  "miSyncShmScreenDestroyFence F =
     (if sf_fence F = None then Some F
      else map_option (\<lambda>F1. sync_close (sf_fd F1) (F1\<lparr>sf_fence := None\<rparr>)) (with_fence Trigger F))"

section \<open>Triggering, resetting and asking\<close>

definition server_idle :: "xshmfence \<Rightarrow> bool" where
  "server_idle f = (case f of
       Futex s \<Rightarrow> 0 < length (futex_pcs s) \<and> futex_pcs s ! 0 = FIdle
     | Pthread s \<Rightarrow> 0 < length (pf_pcs s) \<and> pf_pcs s ! 0 = PIdle)"

lemma call_three: "call_fence 3 a f = (case xshmfence_act 0 a f of None \<Rightarrow> None | Some (Some r, f') \<Rightarrow> Some (r, f')
    | Some (None, f') \<Rightarrow> call_fence 2 Continue f')"
  by (simp add: numeral_3_eq_3 numeral_2_eq_2 split: option.split)

lemma call_two: "call_fence 2 a f = (case xshmfence_act 0 a f of None \<Rightarrow> None | Some (Some r, f') \<Rightarrow> Some (r, f')
    | Some (None, f') \<Rightarrow> call_fence 1 Continue f')"
  by (simp add: numeral_2_eq_2 split: option.split)

lemma call_one: "call_fence 1 a f = (case xshmfence_act 0 a f of None \<Rightarrow> None | Some (Some r, f') \<Rightarrow> Some (r, f') | Some (None, f') \<Rightarrow> None)"
  by (simp split: option.split)

lemmas call_simps = call_three call_two call_one xshmfence_act_def futex_act_def futex_trigger_def futex_wake_def compare_and_swap_def
  pthread_act_def pthread_trigger_def server_idle_def xshm_triggered_def Let_def

lemma call_inv: "call_fence n a f = Some (r, f') \<Longrightarrow> xshm_inv f \<Longrightarrow> xshm_inv f'"
proof (induction n arbitrary: a f)
  case (Suc n)
  then obtain r1 f1 where f1: "xshmfence_act 0 a f = Some (r1, f1)" by (cases "xshmfence_act 0 a f") auto
  then have "xshm_inv f1" using Suc.prems(2) by (rule xshm.act_inv [rotated])
  with Suc f1 show ?case by (cases r1) auto
qed simp

lemma call_trigger:
  assumes "xshm_inv f" "server_idle f"
  shows "\<exists>f'. call_fence 3 Trigger f = Some (0, f') \<and> server_idle f' \<and> xshm_triggered f'"
proof (cases f)
  case (Futex s)
  then have s: "futex_v s \<in> {-1, 0, 1}" "0 < length (futex_pcs s)" "futex_pcs s ! 0 = FIdle"
    using assms by (auto simp: xshm_inv_def futex_inv_def server_idle_def)
  consider "futex_v s = -1" | "futex_v s = 0" | "futex_v s = 1" using s(1) by blast
  then show ?thesis using s(2,3) by cases (auto simp: Futex call_simps)
next
  case (Pthread s)
  then have s: "pf_value s \<in> {0, 1}" "0 < length (pf_pcs s)" "pf_pcs s ! 0 = PIdle"
    using assms by (auto simp: xshm_inv_def pthread_inv_def server_idle_def)
  consider "pf_value s = 0" | "pf_value s = 1" using s(1) by blast
  then show ?thesis using s(2,3) by cases (auto simp: Pthread call_simps)
qed

lemma call_reset:
  assumes "xshm_inv f" "server_idle f"
  shows "\<exists>f'. call_fence 3 Reset f = Some (0, f') \<and> server_idle f' \<and> \<not> xshm_triggered f'"
  using assms by (cases f) (auto simp: call_simps xshm_inv_def futex_inv_def)

lemma call_query:
  assumes "xshm_inv f" "server_idle f"
  shows "\<exists>r f'. call_fence 1 Query f = Some (r, f') \<and> (r \<noteq> 0 \<longleftrightarrow> xshm_triggered f)"
  using assms by (cases f) (auto simp: call_simps xshm_inv_def pthread_inv_def)

text \<open>A fence object whose shared memory, if it has any, is in order and not in use by the server.\<close>

definition wf_sync :: "sync_fence \<Rightarrow> bool" where
  "wf_sync F = (case sf_fence F of None \<Rightarrow> True | Some f \<Rightarrow> xshm_inv f \<and> server_idle f)"

text \<open>
  The fence objects of the X server follow what was last done to them, with and without shared memory: every call returns, a fence that
  was triggered is found triggered, and a fence that was reset is found not to be.
\<close>

theorem sync_fence_follows:
  assumes "wf_sync F"
  shows "\<exists>F1 F2. miSyncShmFenceSetTriggered F = Some F1 \<and> miSyncShmFenceCheckTriggered F1 = Some True \<and>
    miSyncShmFenceReset F1 = Some F2 \<and> miSyncShmFenceCheckTriggered F2 = Some False \<and> wf_sync F1 \<and> wf_sync F2"
proof (cases "sf_fence F")
  case None
  then show ?thesis
    by (simp add: miSyncShmFenceSetTriggered_def miSyncShmFenceReset_def miSyncShmFenceCheckTriggered_def with_fence_def miSyncFenceSetTriggered_def
        miSyncFenceReset_def miSyncFenceCheckTriggered_def wf_sync_def)
next
  case (Some f)
  then have f: "xshm_inv f" "server_idle f" using assms by (simp_all add: wf_sync_def)
  from call_trigger [OF f] obtain g where g: "call_fence 3 Trigger f = Some (0, g)" "server_idle g" "xshm_triggered g" by blast
  have gi: "xshm_inv g" by (rule call_inv [OF g(1) f(1)])
  from call_reset [OF gi g(2)] obtain h where h: "call_fence 3 Reset g = Some (0, h)" "server_idle h" "\<not> xshm_triggered h" by blast
  have hi: "xshm_inv h" by (rule call_inv [OF h(1) gi])
  from call_query [OF gi g(2)] g(3) obtain r g' where r: "call_fence 1 Query g = Some (r, g')" "r \<noteq> 0" by blast
  from call_query [OF hi h(2)] h(3) obtain h' where "call_fence 1 Query h = Some (0, h')" by auto
  then show ?thesis using Some g h r gi hi
    by (simp add: miSyncShmFenceSetTriggered_def miSyncShmFenceReset_def miSyncShmFenceCheckTriggered_def with_fence_def miSyncFenceSetTriggered_def
        miSyncFenceReset_def wf_sync_def del: call_fence.simps)
qed

theorem sync_fence_follows_witness:
  "\<exists>F1 F2. miSyncShmFenceSetTriggered \<lparr>sf_triggered = False, shm_funcs = True, sf_initialized = True, sf_fence = Some (fresh_fence True 2), sf_fd = 70, closed_fds = []\<rparr> = Some F1 \<and>
     miSyncShmFenceCheckTriggered F1 = Some True \<and> miSyncShmFenceReset F1 = Some F2 \<and> miSyncShmFenceCheckTriggered F2 = Some False"
proof -
  let ?F = "\<lparr>sf_triggered = False, shm_funcs = True, sf_initialized = True, sf_fence = Some (fresh_fence True 2), sf_fd = 70, closed_fds = []\<rparr>"
  have "wf_sync ?F" using fresh_fence_inv [of True 2] by (simp add: wf_sync_def server_idle_def) (simp add: fresh_fence_def)
  from sync_fence_follows [OF this] show ?thesis by blast
qed

text \<open>A descriptor that cannot be mapped is closed twice: by the implementation that tried to map it and by the server.\<close>

theorem unmapped_fd_closed_twice:
  assumes "xshmfence_map_shm True st_size (\<lambda>_. None) = mapping"
  shows "\<exists>F'. miSyncShmCreateFenceFromFd None mapping fd trig F = (BadValue, F') \<and> closed_fds F' = closed_fds F @ [fd, fd]"
  using assms by (auto simp: xshmfence_map_shm_def miSyncShmCreateFenceFromFd_def os_move_fd_def sync_close_def miSyncInitFence_def
      miSyncShmScreenCreateFence_def miSyncScreenCreateFence_def Let_def)

text \<open>A fence from a descriptor that can be mapped keeps it until it is destroyed, which triggers the fence for those who still wait and
  closes the descriptor once.\<close>

theorem fence_from_fd_closed_once:
  assumes "xshmfence_map_shm True st_size (\<lambda>_. Some f) = mapping" "xshm_inv f" "server_idle f" "miSyncShmCreateFenceFromFd None mapping fd trig F = (st, F1)"
  shows "st = Success \<and> closed_fds F1 = closed_fds F \<and> (\<exists>F2. miSyncShmScreenDestroyFence F1 = Some F2 \<and> closed_fds F2 = closed_fds F @ [fd])"
proof -
  have F1: "st = Success" "sf_fence F1 = Some f" "sf_fd F1 = fd" "closed_fds F1 = closed_fds F"
    using assms(1,4) by (auto simp: xshmfence_map_shm_def miSyncShmCreateFenceFromFd_def os_move_fd_def miSyncInitFence_def
      miSyncShmScreenCreateFence_def miSyncScreenCreateFence_def Let_def)
  from call_trigger [OF assms(2,3)] obtain g where "call_fence 3 Trigger f = Some (0, g)" by blast
  then show ?thesis using F1 by (simp add: miSyncShmScreenDestroyFence_def with_fence_def sync_close_def del: call_fence.simps)
qed

end
