(* ===== verification/Lorie_Cursor.thy ===== *)
theory Lorie_Cursor
  imports Lorie_Prelude
begin

text \<open>
  The cursor and the test image of \<^verbatim>\<open>lorie/InitOutput.c\<close>: conversion of cursor images to the shared pixel array,
  the shared cursor state that the renderer reads, and the squares drawn by \<^verbatim>\<open>-check-drawing\<close>. Reads and
  writes of the arrays are guarded: \<open>None\<close> is an access outside an array.
\<close>

section \<open>Cursor images\<close>

record cursor_bits =
  cb_width :: nat
  cb_height :: nat
  cb_xhot :: u32
  cb_yhot :: u32
  cb_argb :: "u32 list option"
  cb_source :: bytes
  cb_mask :: bytes

record cursor =
  cbits :: cursor_bits
  foreRed :: u16
  foreGreen :: u16
  foreBlue :: u16
  backRed :: u16
  backGreen :: u16
  backBlue :: u16

definition bgra_to_rgba :: "u32 \<Rightarrow> u32" where
  "bgra_to_rgba p = (p AND 0xFF000000) OR drop_bit 16 (p AND 0x00FF0000) OR (p AND 0x0000FF00) OR push_bit 16 (p AND 0x000000FF)"

fun argb_loop :: "u32 list \<Rightarrow> u32 list \<Rightarrow> nat \<Rightarrow> nat \<Rightarrow> u32 list option" where
  "argb_loop argb px i 0 = Some px"
| "argb_loop argb px i (Suc n) =
     Option.bind (rd argb i) (\<lambda>p. Option.bind (wr px i (bgra_to_rgba p)) (\<lambda>px'. argb_loop argb px' (Suc i) n))"

definition cursor_colour :: "u16 \<Rightarrow> u16 \<Rightarrow> u16 \<Rightarrow> u32" where
  "cursor_colour red green blue =
     push_bit 8 (ucast blue AND 0xff00) OR (ucast green AND 0xff00) OR drop_bit 8 (ucast red)"

definition BitmapBytePad :: "nat \<Rightarrow> nat" where
  "BitmapBytePad w = push_bit 2 (drop_bit 5 (w + 31))"

definition bitmap_pixel :: "u32 \<Rightarrow> u32 \<Rightarrow> u8 \<Rightarrow> u8 \<Rightarrow> nat \<Rightarrow> u32" where
  "bitmap_pixel fg bg s m x =
     (let b = push_bit (x mod 8) (1 :: u8); d = (if s AND b \<noteq> 0 then fg else bg)
      in if m AND b \<noteq> 0 then d OR 0xff000000 else 0)"

fun bitmap_row :: "cursor \<Rightarrow> nat \<Rightarrow> nat \<Rightarrow> nat \<Rightarrow> nat \<Rightarrow> u32 list \<Rightarrow> nat \<Rightarrow> u32 list option" where
  "bitmap_row c stride y x 0 px p = Some px"
| "bitmap_row c stride y x (Suc n) px p =
     Option.bind (rd (cb_source (cbits c)) (y * stride + x div 8)) (\<lambda>s.
     Option.bind (rd (cb_mask (cbits c)) (y * stride + x div 8)) (\<lambda>m.
     Option.bind (wr px p (bitmap_pixel (cursor_colour (foreRed c) (foreGreen c) (foreBlue c))
         (cursor_colour (backRed c) (backGreen c) (backBlue c)) s m x)) (\<lambda>px'.
       bitmap_row c stride y (Suc x) n px' (Suc p))))"

fun bitmap_rows :: "cursor \<Rightarrow> nat \<Rightarrow> nat \<Rightarrow> nat \<Rightarrow> u32 list \<Rightarrow> nat \<Rightarrow> u32 list option" where
  "bitmap_rows c stride y 0 px p = Some px"
| "bitmap_rows c stride y (Suc n) px p =
     Option.bind (bitmap_row c stride y 0 (cb_width (cbits c)) px p) (\<lambda>px'.
       bitmap_rows c stride (Suc y) n px' (p + cb_width (cbits c)))"

definition lorieConvertCursor :: "cursor \<Rightarrow> u32 list \<Rightarrow> u32 list option" where
  "lorieConvertCursor c px =
     (case cb_argb (cbits c) of
        Some argb \<Rightarrow> argb_loop argb px 0 (cb_width (cbits c) * cb_height (cbits c))
      | None \<Rightarrow> bitmap_rows c (BitmapBytePad (cb_width (cbits c))) 0 (cb_height (cbits c)) px 0)"

section \<open>The shared cursor\<close>

record shared_cursor =
  sc_x :: u32
  sc_y :: u32
  sc_xhot :: u32
  sc_yhot :: u32
  sc_width :: nat
  sc_height :: nat
  sc_bits :: "u32 list"
  sc_updated :: bool
  sc_moved :: bool

definition lorieMoveCursor :: "int \<Rightarrow> int \<Rightarrow> shared_cursor \<Rightarrow> shared_cursor" where
  "lorieMoveCursor x y s = s\<lparr>sc_x := word_of_int x, sc_y := word_of_int y, sc_moved := True\<rparr>"

text \<open>A cursor that is too big is replaced by the root cursor, but the size published is that of \<open>bits\<close>, which was
  read before.\<close>

definition lorieSetCursor :: "cursor option \<Rightarrow> cursor option \<Rightarrow> int \<Rightarrow> int \<Rightarrow> shared_cursor \<Rightarrow> shared_cursor option" where
  "lorieSetCursor rootCursor pCurs x0 y0 s =
     (let bits = map_option cbits pCurs;
          pCurs' = (case pCurs of
                      Some c \<Rightarrow> if cb_width (cbits c) \<ge> 512 \<or> cb_height (cbits c) \<ge> 512 then rootCursor else pCurs
                    | None \<Rightarrow> None) in
      Option.bind
        (case (pCurs', bits) of
           (Some c, Some b) \<Rightarrow>
             map_option (\<lambda>px. s\<lparr>sc_xhot := cb_xhot b, sc_yhot := cb_yhot b, sc_width := cb_width b, sc_height := cb_height b, sc_bits := px\<rparr>)
               (lorieConvertCursor c (sc_bits s))
         | _ \<Rightarrow> Some (s\<lparr>sc_xhot := 0, sc_yhot := 0, sc_width := 0, sc_height := 0\<rparr>))
        (\<lambda>s'. Some (lorieMoveCursor x0 y0 (s'\<lparr>sc_updated := True\<rparr>))))"

section \<open>The test image\<close>

fun square_column :: "nat \<Rightarrow> nat \<Rightarrow> nat \<Rightarrow> nat \<Rightarrow> nat \<Rightarrow> nat \<Rightarrow> u32 \<Rightarrow> u32 list \<Rightarrow> u32 list option" where
  "square_column x y i stride j 0 color px = Some px"
| "square_column x y i stride j (Suc n) color px =
     Option.bind (wr px ((j + y) * stride + x + i) color) (square_column x y i stride (Suc j) n color)"

fun square_columns :: "nat \<Rightarrow> nat \<Rightarrow> nat \<Rightarrow> nat \<Rightarrow> nat \<Rightarrow> nat \<Rightarrow> u32 \<Rightarrow> u32 list \<Rightarrow> u32 list option" where
  "square_columns x y l stride i 0 color px = Some px"
| "square_columns x y l stride i (Suc n) color px =
     Option.bind (square_column x y i stride 0 l color px) (square_columns x y l stride (Suc i) n color)"

definition drawSquare :: "nat \<Rightarrow> nat \<Rightarrow> nat \<Rightarrow> u32 \<Rightarrow> nat \<Rightarrow> u32 list \<Rightarrow> u32 list option" where
  "drawSquare x y l color stride px = square_columns x y l stride 0 l color px"

definition drawSquares :: "nat \<Rightarrow> nat \<Rightarrow> nat \<Rightarrow> u32 list \<Rightarrow> u32 list option" where
  "drawSquares w h stride px =
     (let l = min w h div 4; x = (w - l) div 2; y = (h - l) div 2 in
      Option.bind (drawSquare (x - l div 3) (y - l div 3) l 0x00FF0000 stride px) (\<lambda>px1.
      Option.bind (drawSquare x y l 0x0000FF00 stride px1) (\<lambda>px2.
        drawSquare (x + l div 3) (y + l div 3) l 0x000000FF stride px2)))"

section \<open>Conversion fills the image and nothing else\<close>

lemma take_Suc_update: "p < length xs \<Longrightarrow> take (Suc p) (xs[p := v]) = take p xs @ [v]"
  by (simp add: take_Suc_conv_app_nth)

lemma wr_in: "i < length xs \<Longrightarrow> wr xs i v = Some (xs[i := v])"
  by (simp add: wr_def)

lemma rd_in: "i < length xs \<Longrightarrow> rd xs i = Some (xs ! i)"
  by (simp add: rd_def)

lemma argb_loop_correct:
  "i + n \<le> length argb \<Longrightarrow> i + n \<le> length px \<Longrightarrow>
   argb_loop argb px i n = Some (take i px @ map bgra_to_rgba (take n (drop i argb)) @ drop (i + n) px)"
proof (induction n arbitrary: i px)
  case (Suc n)
  let ?px = "px[i := bgra_to_rgba (argb ! i)]"
  have "argb_loop argb px i (Suc n) = argb_loop argb ?px (Suc i) n"
    using Suc.prems by (simp add: rd_in wr_in)
  also have "\<dots> = Some (take (Suc i) ?px @ map bgra_to_rgba (take n (drop (Suc i) argb)) @ drop (Suc i + n) ?px)"
    using Suc.IH [of "Suc i" ?px] Suc.prems by simp
  finally show ?case
    using Suc.prems by (simp add: take_Suc_update Cons_nth_drop_Suc [symmetric])
qed simp

definition pixel_at :: "cursor \<Rightarrow> nat \<Rightarrow> nat \<Rightarrow> nat \<Rightarrow> u32" where
  "pixel_at c stride y x = bitmap_pixel (cursor_colour (foreRed c) (foreGreen c) (foreBlue c))
     (cursor_colour (backRed c) (backGreen c) (backBlue c))
     (cb_source (cbits c) ! (y * stride + x div 8)) (cb_mask (cbits c) ! (y * stride + x div 8)) x"

lemma bitmap_row_correct:
  assumes "\<And>k. k < x + n \<Longrightarrow> y * stride + k div 8 < length (cb_source (cbits c))"
    and "\<And>k. k < x + n \<Longrightarrow> y * stride + k div 8 < length (cb_mask (cbits c))"
    and "p + n \<le> length px"
  shows "bitmap_row c stride y x n px p = Some (take p px @ map (pixel_at c stride y) [x..<x + n] @ drop (p + n) px)"
  using assms
proof (induction n arbitrary: x px p)
  case (Suc n)
  let ?px = "px[p := pixel_at c stride y x]"
  have "bitmap_row c stride y x (Suc n) px p = bitmap_row c stride y (Suc x) n ?px (Suc p)"
    using Suc.prems by (simp add: rd_in wr_in pixel_at_def)
  also have "\<dots> = Some (take (Suc p) ?px @ map (pixel_at c stride y) [Suc x..<Suc x + n] @ drop (Suc p + n) ?px)"
    using Suc.IH [of "Suc x" "Suc p" ?px] Suc.prems by simp
  finally show ?case
    using Suc.prems by (simp add: take_Suc_update upt_conv_Cons del: upt_Suc)
qed simp

definition bitmap_image :: "cursor \<Rightarrow> nat \<Rightarrow> nat \<Rightarrow> nat \<Rightarrow> u32 list" where
  "bitmap_image c stride y n = concat (map (\<lambda>y. map (pixel_at c stride y) [0..<cb_width (cbits c)]) [y..<y + n])"

lemma length_bitmap_image [simp]: "length (bitmap_image c stride y n) = n * cb_width (cbits c)"
  by (simp add: bitmap_image_def length_concat comp_def sum_list_triv)

lemma bitmap_image_Suc:
  "bitmap_image c stride y (Suc n) = map (pixel_at c stride y) [0..<cb_width (cbits c)] @ bitmap_image c stride (Suc y) n"
  by (simp add: bitmap_image_def upt_conv_Cons del: upt_Suc)

text \<open>A row of a bitmap has room for its pixels.\<close>

lemma BitmapBytePad_div: "BitmapBytePad w = (w + 31) div 32 * 4"
  by (simp add: BitmapBytePad_def drop_bit_eq_div push_bit_eq_mult)

lemma bitmap_index:
  assumes "k < w" "y < h"
  shows "y * BitmapBytePad w + k div 8 < h * BitmapBytePad w"
proof -
  have "k div 8 < (w + 31) div 32 * 4" using assms(1) by linarith
  then show ?thesis
    using assms(2) unfolding BitmapBytePad_div
    by (metis Suc_leI add.commute less_le_trans mult_Suc mult_le_mono1 nat_add_left_cancel_less)
qed

lemma bitmap_rows_correct:
  assumes "(y + n) * stride = H" "H \<le> length (cb_source (cbits c))" "H \<le> length (cb_mask (cbits c))"
    and "\<And>k. k < cb_width (cbits c) \<Longrightarrow> k div 8 < stride"
    and "p + n * cb_width (cbits c) \<le> length px"
  shows "bitmap_rows c stride y n px p = Some (take p px @ bitmap_image c stride y n @ drop (p + n * cb_width (cbits c)) px)"
  using assms
proof (induction n arbitrary: y px p)
  case 0
  then show ?case by (simp add: bitmap_image_def)
next
  case (Suc n)
  let ?w = "cb_width (cbits c)"
  have idx: "y * stride + k div 8 < H" if "k < ?w" for k
    using Suc.prems(1) Suc.prems(4) [OF that] by (auto simp: algebra_simps)
  let ?px = "take p px @ map (pixel_at c stride y) [0..<?w] @ drop (p + ?w) px"
  have row: "bitmap_row c stride y 0 ?w px p = Some ?px"
    using bitmap_row_correct [of 0 ?w y stride c p px] idx Suc.prems(2,3,5) by fastforce
  have len: "length ?px = length px" using Suc.prems(5) by auto
  have "bitmap_rows c stride (Suc y) n ?px (p + ?w) =
      Some (take (p + ?w) ?px @ bitmap_image c stride (Suc y) n @ drop (p + ?w + n * ?w) ?px)"
    by (rule Suc.IH) (use Suc.prems len in \<open>auto simp: algebra_simps\<close>)
  with row show ?case
    using Suc.prems(5) by (simp add: bitmap_image_Suc min_def ac_simps)
qed

section \<open>Properties\<close>

text \<open>The image of a cursor as the renderer should see it, row by row.\<close>

definition cursor_image :: "cursor \<Rightarrow> u32 list" where
  "cursor_image c = (case cb_argb (cbits c) of
       Some argb \<Rightarrow> map bgra_to_rgba argb
     | None \<Rightarrow> bitmap_image c (BitmapBytePad (cb_width (cbits c))) 0 (cb_height (cbits c)))"

definition wf_cursor :: "cursor \<Rightarrow> bool" where
  "wf_cursor c \<longleftrightarrow> (case cb_argb (cbits c) of
       Some argb \<Rightarrow> length argb = cb_width (cbits c) * cb_height (cbits c)
     | None \<Rightarrow> length (cb_source (cbits c)) = BitmapBytePad (cb_width (cbits c)) * cb_height (cbits c) \<and>
               length (cb_mask (cbits c)) = BitmapBytePad (cb_width (cbits c)) * cb_height (cbits c))"

lemma convert_cursor:
  assumes "wf_cursor c" "cb_width (cbits c) * cb_height (cbits c) \<le> length px"
  shows "lorieConvertCursor c px = Some (cursor_image c @ drop (cb_width (cbits c) * cb_height (cbits c)) px)"
proof (cases "cb_argb (cbits c)")
  case (Some argb)
  then show ?thesis
    using assms argb_loop_correct [of 0 "cb_width (cbits c) * cb_height (cbits c)" argb px]
    by (simp add: lorieConvertCursor_def cursor_image_def wf_cursor_def)
next
  case None
  let ?w = "cb_width (cbits c)" and ?h = "cb_height (cbits c)"
  have w: "k div 8 < BitmapBytePad ?w" if "k < ?w" for k
    using bitmap_index [OF that, of 0 1] by simp
  have "bitmap_rows c (BitmapBytePad ?w) 0 ?h px 0 =
      Some (take 0 px @ bitmap_image c (BitmapBytePad ?w) 0 ?h @ drop (0 + ?h * ?w) px)"
    by (rule bitmap_rows_correct [OF refl]) (use assms None w in \<open>auto simp: wf_cursor_def mult.commute\<close>)
  then show ?thesis
    using None by (simp add: lorieConvertCursor_def cursor_image_def mult.commute)
qed

lemma small_cursor_fits: "w < 512 \<Longrightarrow> h < 512 \<Longrightarrow> w * h \<le> (262144 :: nat)"
  using mult_le_mono [of w 512 h 512] by simp

text \<open>Setting a cursor smaller than 512 by 512 publishes its size, hot spot and position together with its
  image: the first width times height cells of the shared array become the pixels of the cursor,
  with red and blue exchanged for ARGB cursors and coloured by source and mask for bitmaps, every
  access to the image, the bitmaps and the shared array is in bounds, and the rest of the array is kept.\<close>

theorem lorieSetCursor_publishes_image:
  assumes "wf_cursor c" "cb_width (cbits c) < 512" "cb_height (cbits c) < 512" "length (sc_bits s) = 512 * 512"
  shows "\<exists>s'. lorieSetCursor root (Some c) x0 y0 s = Some s' \<and>
     sc_width s' = cb_width (cbits c) \<and> sc_height s' = cb_height (cbits c) \<and>
     sc_xhot s' = cb_xhot (cbits c) \<and> sc_yhot s' = cb_yhot (cbits c) \<and>
     take (sc_width s' * sc_height s') (sc_bits s') = cursor_image c \<and>
     drop (sc_width s' * sc_height s') (sc_bits s') = drop (sc_width s' * sc_height s') (sc_bits s) \<and>
     sc_x s' = word_of_int x0 \<and> sc_y s' = word_of_int y0 \<and> sc_updated s' \<and> sc_moved s'"
proof -
  let ?n = "cb_width (cbits c) * cb_height (cbits c)"
  have n: "?n \<le> length (sc_bits s)" using small_cursor_fits assms by simp
  have l: "length (cursor_image c) = ?n"
    using assms(1) by (auto simp: cursor_image_def wf_cursor_def mult.commute split: option.splits)
  show ?thesis
    using convert_cursor [OF assms(1) n] assms(2,3) l by (simp add: lorieSetCursor_def lorieMoveCursor_def Let_def)
qed

definition dot_cursor :: "nat \<Rightarrow> nat \<Rightarrow> cursor" where
  "dot_cursor w h = \<lparr>cbits = \<lparr>cb_width = w, cb_height = h, cb_xhot = 0, cb_yhot = 0, cb_argb = Some (replicate (w * h) 0x80102030),
     cb_source = [], cb_mask = []\<rparr>, foreRed = 0, foreGreen = 0, foreBlue = 0, backRed = 0, backGreen = 0, backBlue = 0\<rparr>"

lemma dot_cursor_sel [simp]: "cb_width (cbits (dot_cursor w h)) = w" "cb_height (cbits (dot_cursor w h)) = h"
  by (simp_all add: dot_cursor_def)

definition blank_cursor :: shared_cursor where
  "blank_cursor = \<lparr>sc_x = 0, sc_y = 0, sc_xhot = 0, sc_yhot = 0, sc_width = 0, sc_height = 0,
     sc_bits = replicate (512 * 512) 0, sc_updated = False, sc_moved = False\<rparr>"

lemma dot_image: "cursor_image (dot_cursor 2 1) = [0x80302010, 0x80302010]"
proof -
  have "replicate (2 * 1) p = [p, p]" for p :: u32 by (simp add: numeral_2_eq_2)
  moreover have "bgra_to_rgba 0x80102030 = 0x80302010" by (simp add: bgra_to_rgba_def)
  ultimately show ?thesis by (simp add: cursor_image_def dot_cursor_def)
qed

theorem lorieSetCursor_publishes_image_witness:
  "\<exists>s'. lorieSetCursor None (Some (dot_cursor 2 1)) 3 4 blank_cursor = Some s' \<and> sc_width s' = 2 \<and>
     take 2 (sc_bits s') = [0x80302010, 0x80302010]"
proof -
  have "wf_cursor (dot_cursor 2 1)" "cb_width (cbits (dot_cursor 2 1)) < 512" "cb_height (cbits (dot_cursor 2 1)) < 512"
    "length (sc_bits blank_cursor) = 512 * 512"
    by (simp_all add: wf_cursor_def dot_cursor_def blank_cursor_def)
  from lorieSetCursor_publishes_image [OF this, of None 3 4] show ?thesis
    using dot_image by (auto simp: dot_cursor_def)
qed

text \<open>A cursor of 512 by 512 or more is replaced by the root cursor to stay within the shared array, yet
  its own size is published with the image of the root cursor, so that the renderer reads past the
  array: here 600 times 600 pixels are announced for an array of 512 times 512.\<close>

theorem oversized_cursor_publishes_its_size:
  "\<exists>root c s'. lorieSetCursor (Some root) (Some c) 0 0 blank_cursor = Some s' \<and>
     cb_width (cbits root) = 2 \<and> sc_width s' * sc_height s' > length (sc_bits s')"
proof -
  let ?px = "cursor_image (dot_cursor 2 1) @ drop (2 * 1) (sc_bits blank_cursor)"
  have "lorieConvertCursor (dot_cursor 2 1) (sc_bits blank_cursor) = Some ?px"
    using convert_cursor [of "dot_cursor 2 1" "sc_bits blank_cursor"]
    by (simp add: wf_cursor_def dot_cursor_def blank_cursor_def)
  then obtain s' where "lorieSetCursor (Some (dot_cursor 2 1)) (Some (dot_cursor 600 600)) 0 0 blank_cursor = Some s'"
    "sc_width s' = 600" "sc_height s' = 600" "sc_bits s' = ?px"
    by (simp add: lorieSetCursor_def lorieMoveCursor_def Let_def)
  moreover have "length ?px = 262144" unfolding dot_image by (simp add: blank_cursor_def)
  ultimately show ?thesis
    by (intro exI [where x = "dot_cursor 2 1"] exI [where x = "dot_cursor 600 600"] exI [where x = s']) simp
qed

section \<open>The squares stay inside the image\<close>

lemma square_column_in:
  assumes "\<And>k. j \<le> k \<Longrightarrow> k < j + n \<Longrightarrow> (k + y) * stride + x + i < length px"
  shows "\<exists>px'. square_column x y i stride j n color px = Some px' \<and> length px' = length px"
  using assms
proof (induction n arbitrary: j px)
  case (Suc n)
  have "(j + y) * stride + x + i < length px" using Suc.prems [of j] by simp
  then show ?case using Suc.IH [of "Suc j" "px[(j + y) * stride + x + i := color]"] Suc.prems by (auto simp: wr_in)
qed simp

lemma square_columns_in:
  assumes "\<And>k m. i \<le> k \<Longrightarrow> k < i + n \<Longrightarrow> m < l \<Longrightarrow> (m + y) * stride + x + k < length px"
  shows "\<exists>px'. square_columns x y l stride i n color px = Some px' \<and> length px' = length px"
  using assms
proof (induction n arbitrary: i px)
  case (Suc n)
  obtain px' where px': "square_column x y i stride 0 l color px = Some px'" "length px' = length px"
    using square_column_in [of 0 l y stride x i px color] Suc.prems [of i] by auto
  then show ?case using Suc.IH [of "Suc i" px'] Suc.prems by auto
qed simp

lemma drawSquare_in:
  assumes "x + l \<le> stride" "y + l \<le> h" "h * stride \<le> length px"
  shows "\<exists>px'. drawSquare x y l color stride px = Some px' \<and> length px' = length px"
  unfolding drawSquare_def
proof (rule square_columns_in)
  fix k m assume "0 \<le> k" "k < 0 + l" "m < l"
  then have "(m + y) * stride + (x + k) < Suc (m + y) * stride" "Suc (m + y) \<le> h" using assms(1,2) by auto
  then show "(m + y) * stride + x + k < length px"
    using assms(3) mult_le_mono1 [of "Suc (m + y)" h stride] by linarith
qed

text \<open>The test image is drawn inside the root window whatever its size.\<close>

theorem drawSquares_in_bounds:
  assumes "w \<le> stride" "h * stride \<le> length px"
  shows "\<exists>px'. drawSquares w h stride px = Some px' \<and> length px' = length px"
proof -
  define l where "l = min w h div 4"
  define x where "x = (w - l) div 2"
  define y where "y = (h - l) div 2"
  have l4: "4 * l \<le> w" "4 * l \<le> h" by (auto simp: l_def)
  have x: "x + l div 3 + l \<le> stride" "x - l div 3 + l \<le> stride" "x + l \<le> stride"
    using l4 assms(1) by (auto simp: x_def)
  have y: "y + l div 3 + l \<le> h" "y - l div 3 + l \<le> h" "y + l \<le> h"
    using l4 by (auto simp: y_def)
  obtain p1 where 1: "drawSquare (x - l div 3) (y - l div 3) l 0x00FF0000 stride px = Some p1" "length p1 = length px"
    using drawSquare_in [OF x(2) y(2) assms(2)] by blast
  obtain p2 where 2: "drawSquare x y l 0x0000FF00 stride p1 = Some p2" "length p2 = length px"
    using drawSquare_in [OF x(3) y(3), of p1] assms(2) 1(2) by auto
  obtain p3 where "drawSquare (x + l div 3) (y + l div 3) l 0x000000FF stride p2 = Some p3" "length p3 = length px"
    using drawSquare_in [OF x(1) y(1), of p2] assms(2) 2(2) by auto
  then show ?thesis
    using 1 2 unfolding drawSquares_def Let_def l_def [symmetric] x_def [symmetric] y_def [symmetric] by simp
qed

end
