(* ===== verification/Lorie_Mutex.thy ===== *)
theory Lorie_Mutex
  imports Lorie_Prelude
begin

text \<open>
  The mutex of the state shared by the X server and the renderer (\<^verbatim>\<open>lorie_mutex_lock\<close> and
  \<^verbatim>\<open>lorie_mutex_unlock\<close> of \<^verbatim>\<open>lorie/lorie.h\<close>): a recursive process-shared mutex that a process reinitialises when it could not be
  locked in time and the other side is gone. A thread is a pair of process and thread number. The threads
  interleave at the calls of the loop; a process can die at any moment.
\<close>

section \<open>The deadline\<close>

type_synonym timespec = "int \<times> int"

definition deadline :: "timespec \<Rightarrow> timespec" where
  "deadline ts =
     (let ns = snd ts + 33 * 1000000
      in if ns \<ge> 1000000000 then (fst ts + ns div 1000000000, ns mod 1000000000) else (fst ts, ns))"

definition nanoseconds :: "timespec \<Rightarrow> int" where
  "nanoseconds ts = fst ts * 1000000000 + snd ts"

section \<open>The mutex\<close>

type_synonym thread = "int \<times> int"

record shared_mutex =
  holder :: "thread option"
  depth :: nat
  lockingPid :: int

definition fresh_mutex :: "int \<Rightarrow> shared_mutex" where
  "fresh_mutex pid = \<lparr>holder = None, depth = 0, lockingPid = pid\<rparr>"

text \<open>\<^verbatim>\<open>pthread_mutex_timedlock\<close> on a recursive mutex; \<open>None\<close> is \<^verbatim>\<open>ETIMEDOUT\<close>.\<close>

definition timedlock :: "thread \<Rightarrow> shared_mutex \<Rightarrow> shared_mutex option" where
  "timedlock me M =
     (if holder M = None then Some (M\<lparr>holder := Some me, depth := 1\<rparr>)
      else if holder M = Some me then Some (M\<lparr>depth := depth M + 1\<rparr>)
      else None)"

text \<open>One round of the loop. The first component tells whether the function returns.\<close>

definition lock_round :: "thread \<Rightarrow> bool \<Rightarrow> shared_mutex \<Rightarrow> bool \<times> shared_mutex" where
  "lock_round me alive M =
     (case timedlock me M of
        None \<Rightarrow> if lockingPid M = fst me \<or> alive then (False, M) else (False, fresh_mutex (lockingPid M))
      | Some M' \<Rightarrow> (True, M'\<lparr>lockingPid := fst me\<rparr>))"

text \<open>The loop with the answers of \<^verbatim>\<open>lorieConnectionAlive\<close> in the rounds; \<open>None\<close> when it is still waiting after them.\<close>

fun lorie_mutex_lock :: "thread \<Rightarrow> bool list \<Rightarrow> shared_mutex \<Rightarrow> shared_mutex option" where
  "lorie_mutex_lock me [] M = None"
| "lorie_mutex_lock me (alive # as) M =
     (case lock_round me alive M of (True, M') \<Rightarrow> Some M' | (False, M') \<Rightarrow> lorie_mutex_lock me as M')"

definition pthread_mutex_unlock :: "thread \<Rightarrow> shared_mutex \<Rightarrow> shared_mutex" where
  "pthread_mutex_unlock me M =
     (if holder M = Some me
      then if depth M \<le> 1 then M\<lparr>holder := None, depth := 0\<rparr> else M\<lparr>depth := depth M - 1\<rparr>
      else M)"

definition lorie_mutex_unlock :: "thread \<Rightarrow> shared_mutex \<Rightarrow> shared_mutex" where
  "lorie_mutex_unlock me M = pthread_mutex_unlock me (M\<lparr>lockingPid := 0\<rparr>)"

section \<open>Interleavings\<close>

text \<open>How often each thread is inside its critical section. \<open>link_up\<close> is what \<^verbatim>\<open>lorieConnectionAlive\<close> answers.\<close>

record mutex_world =
  mutex :: shared_mutex
  inside :: "thread \<Rightarrow> nat"
  link_up :: bool

inductive mutex_step :: "mutex_world \<Rightarrow> mutex_world \<Rightarrow> bool" where
  enter: "lock_round me (link_up W) (mutex W) = (True, M') \<Longrightarrow>
    mutex_step W (W\<lparr>mutex := M', inside := (inside W)(me := inside W me + 1)\<rparr>)"
| wait: "lock_round me (link_up W) (mutex W) = (False, M') \<Longrightarrow> mutex_step W (W\<lparr>mutex := M'\<rparr>)"
| leave: "0 < inside W me \<Longrightarrow>
    mutex_step W (W\<lparr>mutex := lorie_mutex_unlock me (mutex W), inside := (inside W)(me := inside W me - 1)\<rparr>)"
| die: "mutex_step W (W\<lparr>inside := (\<lambda>t. if fst t = p then 0 else inside W t)\<rparr>)"

text \<open>A run in which the two sides stay connected.\<close>

definition connected_step :: "mutex_world \<Rightarrow> mutex_world \<Rightarrow> bool" where
  "connected_step W W' \<longleftrightarrow> link_up W \<and> mutex_step W W'"

definition mutex_start :: "mutex_world \<Rightarrow> bool" where
  "mutex_start W \<longleftrightarrow> (\<exists>p. mutex W = fresh_mutex p) \<and> inside W = (\<lambda>_. 0) \<and> link_up W"

text \<open>Whoever is inside is the holder, at most as deep as the mutex.\<close>

definition exclusive :: "mutex_world \<Rightarrow> bool" where
  "exclusive W \<longleftrightarrow> (\<forall>t. 0 < inside W t \<longrightarrow> holder (mutex W) = Some t \<and> inside W t \<le> depth (mutex W))"

lemmas mutex_defs = timedlock_def lock_round_def lorie_mutex_unlock_def pthread_mutex_unlock_def fresh_mutex_def

lemma exclusiveD: "exclusive W \<Longrightarrow> 0 < inside W t \<Longrightarrow> holder (mutex W) = Some t \<and> inside W t \<le> depth (mutex W)"
  unfolding exclusive_def by blast

lemma exclusiveI: "(\<And>t. 0 < inside W t \<Longrightarrow> holder (mutex W) = Some t \<and> inside W t \<le> depth (mutex W)) \<Longrightarrow> exclusive W"
  unfolding exclusive_def by blast

lemma exclusive_step:
  assumes "exclusive W" and "connected_step W W'"
  shows "exclusive W'"
proof -
  from assms(2) have up: "link_up W" and st: "mutex_step W W'" by (simp_all add: connected_step_def)
  from st show ?thesis
  proof cases
    case (enter me M')
    show ?thesis
    proof (rule exclusiveI)
      fix t assume t: "0 < inside W' t"
      have "holder (mutex W) = None \<and> M' = (mutex W)\<lparr>holder := Some me, depth := 1, lockingPid := fst me\<rparr>
          \<or> holder (mutex W) = Some me \<and> M' = (mutex W)\<lparr>depth := depth (mutex W) + 1, lockingPid := fst me\<rparr>"
        using enter(2) by (auto simp: mutex_defs split: if_splits option.splits)
      then show "holder (mutex W') = Some t \<and> inside W' t \<le> depth (mutex W')"
        using t exclusiveD [OF assms(1), of t] unfolding enter(1) by (cases "t = me"; cases "inside W t") auto
    qed
  next
    case (wait me M')
    have "M' = mutex W" using wait(2) up by (auto simp: lock_round_def split: option.splits if_splits)
    then show ?thesis using assms(1) wait(1) by simp
  next
    case (leave me)
    show ?thesis
    proof (rule exclusiveI)
      fix t assume t: "0 < inside W' t"
      then show "holder (mutex W') = Some t \<and> inside W' t \<le> depth (mutex W')"
        using exclusiveD [OF assms(1), of t] exclusiveD [OF assms(1) leave(2)] unfolding leave(1)
        by (cases "t = me") (auto simp: mutex_defs)
    qed
  next
    case (die p)
    show ?thesis by (rule exclusiveI) (use exclusiveD [OF assms(1)] in \<open>auto simp: die split: if_splits\<close>)
  qed
qed

interpretation shared_lock: transition_system mutex_start connected_step exclusive
  by unfold_locales (auto simp: mutex_start_def intro: exclusive_step exclusiveI)

section \<open>Properties\<close>

text \<open>
  C22. While the two sides are connected, no two threads are inside the critical section at once, whichever
  way locks, waits, unlocks and deaths of processes interleave.
\<close>

theorem connected_mutual_exclusion:
  assumes "mutex_start W" and "connected_step\<^sup>*\<^sup>* W W'" and "0 < inside W' t" and "0 < inside W' u"
  shows "t = u"
  using shared_lock.reachable_inv [OF assms(1,2)] assms(3,4) exclusiveD by (metis option.inject)

definition sample_mutex_world :: mutex_world where
  "sample_mutex_world = \<lparr>mutex = fresh_mutex 0, inside = (\<lambda>_. 0), link_up = True\<rparr>"

theorem connected_mutual_exclusion_witness:
  "\<exists>W'. connected_step\<^sup>*\<^sup>* sample_mutex_world W' \<and> 0 < inside W' (1, 1) \<and> (1, 1) = ((1, 1) :: thread)"
proof -
  let ?M = "(fresh_mutex 0)\<lparr>holder := Some (1, 1), depth := 1, lockingPid := 1\<rparr>"
  let ?W = "sample_mutex_world\<lparr>mutex := ?M, inside := (inside sample_mutex_world)((1, 1) := inside sample_mutex_world (1, 1) + 1)\<rparr>"
  have "mutex_step sample_mutex_world ?W"
    by (rule mutex_step.enter) (simp add: sample_mutex_world_def mutex_defs)
  then have s: "connected_step\<^sup>*\<^sup>* sample_mutex_world ?W" by (auto simp: connected_step_def sample_mutex_world_def)
  have "mutex_start sample_mutex_world" by (auto simp: mutex_start_def sample_mutex_world_def)
  from connected_mutual_exclusion [OF this s, of "(1, 1)" "(1, 1)"] s show ?thesis by fastforce
qed

text \<open>
  A process whose peer died inside the critical section gets the mutex in two rounds once it knows that
  the connection is gone: the first reinitialises it and the second locks it.
\<close>

theorem dead_holder_recovered:
  assumes "lockingPid M \<noteq> fst me" and "\<not> alive1"
  shows "\<exists>M'. lorie_mutex_lock me [alive1, alive2] M = Some M' \<and> holder M' = Some me \<and> lockingPid M' = fst me"
  using assms by (auto simp: mutex_defs split: option.split)

theorem dead_holder_recovered_witness:
  "\<exists>M'. lorie_mutex_lock (1, 1) [False, False] \<lparr>holder = Some (2, 7), depth = 1, lockingPid = 2\<rparr> = Some M'
    \<and> holder M' = Some (1, 1) \<and> lockingPid M' = fst ((1, 1) :: thread)"
  by (rule dead_holder_recovered) simp_all

text \<open>
  The inner unlock of a nested lock clears \<^verbatim>\<open>lockingPid\<close> although the mutex is still held, so with the connection
  gone another thread of the same process takes the mutex while its holder is inside.
\<close>

theorem nested_unlock_loses_owner:
  assumes "fst me \<noteq> 0" and "you \<noteq> me"
  shows "\<exists>M1 M2. lorie_mutex_lock me [False] (fresh_mutex 0) = Some M1 \<and> lorie_mutex_lock me [False] M1 = Some M2
    \<and> holder (lorie_mutex_unlock me M2) = Some me
    \<and> (fst you \<noteq> 0 \<longrightarrow> (\<exists>M3. lorie_mutex_lock you [False, False] (lorie_mutex_unlock me M2) = Some M3 \<and> holder M3 = Some you))"
  using assms by (auto simp: mutex_defs)

theorem nested_unlock_loses_owner_witness:
  "\<exists>M1 M2 M3. lorie_mutex_lock (5, 1) [False] (fresh_mutex 0) = Some M1 \<and> lorie_mutex_lock (5, 1) [False] M1 = Some M2
    \<and> holder (lorie_mutex_unlock (5, 1) M2) = Some (5, 1)
    \<and> lorie_mutex_lock (5, 2) [False, False] (lorie_mutex_unlock (5, 1) M2) = Some M3 \<and> holder M3 = Some (5, 2)"
  using nested_unlock_loses_owner [of "(5, 1)" "(5, 2)"] by auto

text \<open>The deadline is 33 ms after the time it is computed from, with the nanoseconds in range.\<close>

lemma deadline_correct:
  assumes "0 \<le> snd ts" and "snd ts < 1000000000"
  shows "nanoseconds (deadline ts) = nanoseconds ts + 33000000 \<and> 0 \<le> snd (deadline ts) \<and> snd (deadline ts) < 1000000000"
  using assms by (cases ts) (auto simp: deadline_def nanoseconds_def Let_def minus_div_mult_eq_mod [symmetric])

text \<open>\<^verbatim>\<open>pthread_mutex_timedlock\<close> takes a time of the real-time clock; the deadline is one of the monotonic clock, which counts
  from the start of the device, so it has passed before the wait begins.\<close>

definition wait_time :: "timespec \<Rightarrow> timespec \<Rightarrow> int" where
  "wait_time realtime limit = max 0 (nanoseconds limit - nanoseconds realtime)"

lemma monotonic_deadline_never_waits:
  assumes "0 \<le> snd ts" and "snd ts < 1000000000" and "nanoseconds ts + 33000000 \<le> nanoseconds realtime"
  shows "wait_time realtime (deadline ts) = 0"
  using deadline_correct [OF assms(1,2)] assms(3) by (simp add: wait_time_def)

end
