(* ===== verification/Lorie_Proxy.thy ===== *)
theory Lorie_Proxy
  imports Lorie_Prelude
begin

text \<open>
  The proxy of condition variables in the activity (\<^verbatim>\<open>lorie/renderer.c\<close>): a thread that waits on the condition variable of the shared
  state and passes each signal on to the renderer, and the call with which the renderer makes it wait on another one. When
  that call returns the renderer unmaps the old shared state, so the proxy must not wait in it any more.
\<close>

section \<open>Steps of the two threads\<close>

text \<open>The default condition variable, or the one in the shared state number \<open>n\<close>.\<close>

datatype cond = Def | Shared nat

text \<open>The proxy thread has not taken its mutex yet, waits on a condition variable, or was woken and waits for the mutex.\<close>

datatype proxy_pc = PStart | PWaiting cond | PWoken

text \<open>The renderer is not in the call, waits in it for the proxy, or was woken there.\<close>

datatype listen_pc = LOut | LWaiting | LWoken

record proxy =
  proxy_pc :: proxy_pc
  listen_pc :: listen_pc
  proxy_current :: cond
  proxy_pending :: "cond option"
  relocked :: bool
  state_signals :: nat

definition wake_listener :: "proxy \<Rightarrow> proxy" where
  "wake_listener S = S\<lparr>listen_pc := (if listen_pc S = LWaiting then LWoken else listen_pc S), state_signals := state_signals S + 1\<rparr>"

definition wait_current :: "proxy \<Rightarrow> proxy" where
  "wait_current S = S\<lparr>proxy_pc := PWaiting (proxy_current S)\<rparr>"

text \<open>One round of \<^verbatim>\<open>pthreadCondVarProxyThread\<close> after its wait.\<close>

definition proxy_round :: "proxy \<Rightarrow> proxy" where
  "proxy_round S =
     (let S1 = (case proxy_pending S of None \<Rightarrow> S | Some c \<Rightarrow> S\<lparr>proxy_current := c, proxy_pending := None\<rparr>)
      in wait_current (wake_listener (S1\<lparr>relocked := True\<rparr>)))"

definition signal_cond :: "cond \<Rightarrow> proxy \<Rightarrow> proxy" where
  "signal_cond c S = S\<lparr>proxy_pc := (if proxy_pc S = PWaiting c then PWoken else proxy_pc S)\<rparr>"

text \<open>\<^verbatim>\<open>pthreadCondVarProxyListenOtherCondVar\<close> up to its wait.\<close>

definition listen_other :: "cond option \<Rightarrow> proxy \<Rightarrow> proxy" where
  "listen_other var S =
     (signal_cond (proxy_current S) S)\<lparr>proxy_pending := Some (case var of None \<Rightarrow> Def | Some c \<Rightarrow> c), relocked := False, listen_pc := LWaiting\<rparr>"

definition listen_again :: "proxy \<Rightarrow> proxy" where
  "listen_again S = S\<lparr>listen_pc := (if relocked S then LOut else LWaiting)\<rparr>"

inductive proxy_step :: "proxy \<Rightarrow> proxy \<Rightarrow> bool" where
  thread_starts: "proxy_pc S = PStart \<Longrightarrow> proxy_step S (wait_current S)"
| thread_round: "proxy_pc S = PWoken \<Longrightarrow> proxy_step S (proxy_round S)"
| remote_signal: "proxy_step S (signal_cond c S)"
| spurious_wake: "proxy_pc S = PWaiting c \<Longrightarrow> proxy_step S (S\<lparr>proxy_pc := PWoken\<rparr>)"
| renderer_calls: "listen_pc S = LOut \<Longrightarrow> proxy_step S (listen_other var S)"
| renderer_woken: "listen_pc S = LWaiting \<Longrightarrow> proxy_step S (S\<lparr>listen_pc := LWoken\<rparr>)"
| renderer_checks: "listen_pc S = LWoken \<Longrightarrow> proxy_step S (listen_again S)"

inductive_cases proxy_stepE: "proxy_step S S'"

definition proxy_started :: "proxy \<Rightarrow> bool" where
  "proxy_started S = (S = \<lparr>proxy_pc = PWaiting Def, listen_pc = LOut, proxy_current = Def, proxy_pending = None, relocked = False, state_signals = 0\<rparr>)"

lemmas proxy_defs = wait_current_def proxy_round_def wake_listener_def signal_cond_def listen_other_def listen_again_def

section \<open>The proxy waits where it should\<close>

text \<open>Once the thread waits, it waits on the current condition variable; a renderer in the call has been answered, or the thread is on its
  way to answer it.\<close>

definition proxy_inv :: "proxy \<Rightarrow> bool" where
  "proxy_inv S =
     ((proxy_pc S = PWoken \<or> proxy_pc S = PWaiting (proxy_current S)) \<and>
      (listen_pc S = LOut \<longrightarrow> proxy_pending S = None) \<and>
      (listen_pc S \<noteq> LOut \<longrightarrow> (if relocked S then proxy_pending S = None else proxy_pending S \<noteq> None \<and> proxy_pc S = PWoken)) \<and>
      (listen_pc S = LWaiting \<longrightarrow> \<not> relocked S))"

lemma proxy_inv_step: "proxy_inv S \<Longrightarrow> proxy_step S S' \<Longrightarrow> proxy_inv S'"
  by (erule proxy_stepE) (auto simp: proxy_inv_def proxy_defs Let_def split: option.splits if_splits)

interpretation proxy_system: transition_system proxy_started proxy_step proxy_inv
  by unfold_locales (simp add: proxy_started_def proxy_inv_def, rule proxy_inv_step)

text \<open>Steps inside one call of the renderer: none of them begins another call.\<close>

definition in_call :: "proxy \<Rightarrow> proxy \<Rightarrow> bool" where
  "in_call S S' = (proxy_step S S' \<and> listen_pc S \<noteq> LOut)"

definition asked_for :: "cond \<Rightarrow> proxy \<Rightarrow> bool" where
  "asked_for c S = (proxy_inv S \<and> (if proxy_pending S = None then proxy_current S = c else proxy_pending S = Some c))"

lemma asked_for_step: "asked_for c S \<Longrightarrow> in_call S S' \<Longrightarrow> asked_for c S'"
  unfolding in_call_def asked_for_def
  by (elim conjE, frule (1) proxy_inv_step, erule proxy_stepE) (auto simp: proxy_inv_def proxy_defs Let_def split: option.splits if_splits)

lemma asked_for_run: "in_call\<^sup>*\<^sup>* S S' \<Longrightarrow> asked_for c S \<Longrightarrow> asked_for c S'"
  by (induction rule: rtranclp_induct) (auto intro: asked_for_step)

definition wanted :: "cond option \<Rightarrow> cond" where
  "wanted var = (case var of None \<Rightarrow> Def | Some c \<Rightarrow> c)"

lemma listen_asks: "proxy_inv S \<Longrightarrow> listen_pc S = LOut \<Longrightarrow> asked_for (wanted var) (listen_other var S)"
  using proxy_inv_step [OF _ renderer_calls [of S var]] by (auto simp: asked_for_def listen_other_def wanted_def)

text \<open>
  C31. The renderer may unmap the old shared state: whatever the two threads did before, and however their steps, signals and spurious
  wake-ups interleave during the call that makes the proxy wait on another condition variable, when the call has
  returned the proxy thread waits on that one if it waits at all.
\<close>

theorem proxy_leaves_old_state:
  assumes "proxy_started S0" "proxy_step\<^sup>*\<^sup>* S0 S" "listen_pc S = LOut" "in_call\<^sup>*\<^sup>* (listen_other var S) S'" "listen_pc S' = LOut"
  shows "proxy_current S' = wanted var \<and> (proxy_pc S' = PWoken \<or> proxy_pc S' = PWaiting (wanted var))"
proof -
  have "proxy_inv S" using assms(1,2) by (rule proxy_system.reachable_inv)
  then have "asked_for (wanted var) S'" using asked_for_run [OF assms(4)] listen_asks assms(3) by blast
  then show ?thesis using assms(5) by (auto simp: asked_for_def proxy_inv_def)
qed

text \<open>A renderer that asks for the shared state 7, and a proxy that answers.\<close>

theorem proxy_leaves_old_state_witness:
  "\<exists>S'. in_call\<^sup>*\<^sup>* (listen_other (Some (Shared 7)) \<lparr>proxy_pc = PWaiting Def, listen_pc = LOut, proxy_current = Def, proxy_pending = None, relocked = False, state_signals = 0\<rparr>) S' \<and>
     listen_pc S' = LOut \<and> proxy_current S' = Shared 7"
proof -
  let ?S = "\<lparr>proxy_pc = PWaiting Def, listen_pc = LOut, proxy_current = Def, proxy_pending = None, relocked = False, state_signals = 0\<rparr>"
  let ?S1 = "listen_other (Some (Shared 7)) ?S"
  let ?S2 = "proxy_round ?S1" and ?S3 = "listen_again (proxy_round ?S1)"
  have "in_call ?S1 ?S2" unfolding in_call_def by (rule conjI, rule thread_round) (simp_all add: proxy_defs Let_def)
  moreover have "in_call ?S2 ?S3" unfolding in_call_def by (rule conjI, rule renderer_checks) (simp_all add: proxy_defs Let_def)
  ultimately have r: "in_call\<^sup>*\<^sup>* ?S1 ?S3" by simp
  have l: "listen_pc ?S3 = LOut" by (simp add: proxy_defs Let_def)
  have "proxy_started ?S" "listen_pc ?S = LOut" by (simp_all add: proxy_started_def)
  from proxy_leaves_old_state [OF this(1) rtranclp.rtrancl_refl this(2) r l] r l show ?thesis by (auto simp: wanted_def)
qed

text \<open>
  The call of the renderer does not hang once the proxy thread has started: at every moment of the call, either the proxy
  has answered and the renderer returns with its next step, or the proxy thread is awake and its next round answers, whatever
  signals arrive meanwhile.
\<close>

theorem proxy_call_returns:
  assumes "proxy_started S0" "proxy_step\<^sup>*\<^sup>* S0 S" "listen_pc S \<noteq> LOut"
  shows "if relocked S then listen_pc S = LWoken \<and> proxy_step S (listen_again S) \<and> listen_pc (listen_again S) = LOut
    else proxy_step S (proxy_round S) \<and> relocked (proxy_round S) \<and> listen_pc (listen_again (proxy_round S)) = LOut \<and>
      proxy_step (proxy_round S) (listen_again (proxy_round S))"
proof -
  have i: "proxy_inv S" using assms(1,2) by (rule proxy_system.reachable_inv)
  show ?thesis
  proof (cases "relocked S")
    case True
    then have l: "listen_pc S = LWoken" using i assms(3) by (cases "listen_pc S") (auto simp: proxy_inv_def)
    with True renderer_checks [OF l] show ?thesis by (simp add: listen_again_def)
  next
    case False
    then have p: "proxy_pc S = PWoken" using i assms(3) by (auto simp: proxy_inv_def)
    have l: "listen_pc (proxy_round S) = LWoken"
      using assms(3) by (cases "listen_pc S") (auto simp: proxy_defs Let_def split: option.split)
    have r: "relocked (proxy_round S)" by (simp add: proxy_defs Let_def split: option.split)
    with False thread_round [OF p] renderer_checks [OF l] show ?thesis by (simp add: listen_again_def)
  qed
qed

theorem proxy_call_returns_witness:
  "proxy_step (listen_other None \<lparr>proxy_pc = PWaiting Def, listen_pc = LOut, proxy_current = Def, proxy_pending = None, relocked = False, state_signals = 0\<rparr>)
     (proxy_round (listen_other None \<lparr>proxy_pc = PWaiting Def, listen_pc = LOut, proxy_current = Def, proxy_pending = None, relocked = False, state_signals = 0\<rparr>))"
proof -
  let ?S = "\<lparr>proxy_pc = PWaiting Def, listen_pc = LOut, proxy_current = Def, proxy_pending = None, relocked = False, state_signals = 0\<rparr>"
  have "proxy_started ?S" by (simp add: proxy_started_def)
  moreover have "proxy_step\<^sup>*\<^sup>* ?S (listen_other None ?S)" by (rule r_into_rtranclp, rule renderer_calls) simp
  moreover have "listen_pc (listen_other None ?S) \<noteq> LOut" "\<not> relocked (listen_other None ?S)" by (simp_all add: listen_other_def)
  ultimately show ?thesis using proxy_call_returns [of ?S "listen_other None ?S"] by simp
qed

text \<open>Before the proxy thread has taken its mutex the broadcast of the call reaches nobody: the thread then waits on the default condition
  variable, which nothing signals any more, and the renderer waits for the thread.\<close>

theorem proxy_start_race:
  fixes S :: proxy
  assumes "proxy_pc S = PStart" "listen_pc S = LOut" "proxy_current S = Def"
  shows "proxy_step S (listen_other (Some (Shared n)) S)" "proxy_step (listen_other (Some (Shared n)) S) (wait_current (listen_other (Some (Shared n)) S))"
    "proxy_pc (wait_current (listen_other (Some (Shared n)) S)) = PWaiting Def" "listen_pc (wait_current (listen_other (Some (Shared n)) S)) = LWaiting"
proof -
  show "proxy_step S (listen_other (Some (Shared n)) S)" by (rule renderer_calls [OF assms(2)])
  show "proxy_step (listen_other (Some (Shared n)) S) (wait_current (listen_other (Some (Shared n)) S))"
    by (rule thread_starts) (simp add: listen_other_def signal_cond_def assms)
qed (simp_all add: listen_other_def wait_current_def signal_cond_def assms)

end
