(* ===== verification/Os_Poll.thy ===== *)
theory Os_Poll
  imports Lorie_Prelude
begin

text \<open>
  The set of polled descriptors of the X server (\<^verbatim>\<open>xserver/os/ospoll.c\<close>, the variant on \<^verbatim>\<open>epoll\<close> that the Android build selects). The
  entries are heap objects in an array sorted by descriptor; the kernel keeps pointers to them, so an entry that is removed
  while events are handed out is only freed after the round.
\<close>

section \<open>State\<close>

text \<open>The flags \<^verbatim>\<open>X_NOTIFY_READ\<close>, \<^verbatim>\<open>X_NOTIFY_WRITE\<close> and \<^verbatim>\<open>X_NOTIFY_ERROR\<close>; the events of \<^verbatim>\<open>epoll\<close> that ask for them have the bits 1, 4 and 8, 16.\<close>

definition X_NOTIFY_READ :: u32 where "X_NOTIFY_READ = 1"
definition X_NOTIFY_WRITE :: u32 where "X_NOTIFY_WRITE = 2"
definition X_NOTIFY_ERROR :: u32 where "X_NOTIFY_ERROR = 4"
definition EPOLLIN :: u32 where "EPOLLIN = 1"
definition EPOLLOUT :: u32 where "EPOLLOUT = 4"
definition EPOLLET :: u32 where "EPOLLET = 2 ^ 31"

record ('cb, 'd) ospollfd =
  osfd_fd :: int
  osfd_xevents :: u32
  osfd_edge :: bool
  osfd_callback :: "'cb option"
  osfd_data :: "'d option"

text \<open>\<open>poll_fds\<close> holds the \<^verbatim>\<open>num\<close> used pointers of the array, \<open>poll_size\<close> its capacity, \<open>poll_heap\<close> the allocated entries, \<open>poll_deleted\<close> the list
  of removed ones, and \<open>epoll\<close> the interest list of the kernel: events and entry for each descriptor.\<close>

record ('cb, 'd) ospoll =
  poll_fds :: "nat list"
  poll_size :: nat
  poll_heap :: "nat \<rightharpoonup> ('cb, 'd) ospollfd"
  poll_deleted :: "nat list"
  epoll :: "int \<rightharpoonup> u32 \<times> nat"

text \<open>What the allocator and the kernel answer: the address of a new entry given the ones in use, whether the array can grow, whether the
  kernel takes the descriptor.\<close>

record poll_world =
  new_osfd :: "nat list \<Rightarrow> nat option"
  can_grow :: bool
  can_add :: bool

definition ospoll_create :: "bool \<Rightarrow> ('cb, 'd) ospoll option" where
  "ospoll_create epoll_ok =
     (if epoll_ok then Some \<lparr>poll_fds = [], poll_size = 0, poll_heap = Map.empty, poll_deleted = [], epoll = Map.empty\<rparr> else None)"

section \<open>Operations\<close>

text \<open>The binary search: the position, or \<open>- position - 1\<close> when the descriptor is not there. \<open>None\<close> is an access outside the array or
  to a freed entry, here and below.\<close>

function ospoll_find_loop :: "('cb, 'd) ospoll \<Rightarrow> int \<Rightarrow> int \<Rightarrow> int \<Rightarrow> int option" where
  "ospoll_find_loop S fd lo hi =
     (if lo \<le> hi then
        let m = (lo + hi) div 2
        in Option.bind (rd (poll_fds S) (nat m)) (\<lambda>p. Option.bind (poll_heap S p) (\<lambda>e.
             if osfd_fd e < fd then ospoll_find_loop S fd (m + 1) hi
             else if osfd_fd e > fd then ospoll_find_loop S fd lo (m - 1)
             else Some m))
      else Some (- (lo + 1)))"
  by pat_completeness auto
termination by (relation "measure (\<lambda>(S, fd, lo, hi). nat (hi - lo + 1))") auto

declare ospoll_find_loop.simps [simp del]

definition ospoll_find :: "('cb, 'd) ospoll \<Rightarrow> int \<Rightarrow> int option" where
  "ospoll_find S fd = ospoll_find_loop S fd 0 (int (length (poll_fds S)) - 1)"

definition array_insert :: "nat \<Rightarrow> 'a \<Rightarrow> 'a list \<Rightarrow> 'a list" where
  "array_insert pos v xs = take pos xs @ v # drop pos xs"

definition array_delete :: "nat \<Rightarrow> 'a list \<Rightarrow> 'a list" where
  "array_delete pos xs = take pos xs @ drop (Suc pos) xs"

definition MAXCLIENTS :: nat where "MAXCLIENTS = 2048"

definition grow :: "poll_world \<Rightarrow> ('cb, 'd) ospoll \<Rightarrow> ('cb, 'd) ospoll option" where
  "grow W S =
     (if poll_size S \<le> length (poll_fds S) then
        if can_grow W then Some (S\<lparr>poll_size := (if poll_size S \<noteq> 0 then poll_size S * 2 else MAXCLIENTS * 2)\<rparr>) else None
      else Some S)"

text \<open>The entry at \<open>p\<close> with its callback set.\<close>

definition set_callback :: "bool \<Rightarrow> 'cb \<Rightarrow> 'd option \<Rightarrow> nat \<Rightarrow> ('cb, 'd) ospoll \<Rightarrow> ('cb, 'd) ospoll option" where
  "set_callback edge cb d p S =
     map_option (\<lambda>e. S\<lparr>poll_heap := (poll_heap S)(p \<mapsto> e\<lparr>osfd_edge := edge, osfd_callback := Some cb, osfd_data := d\<rparr>)\<rparr>) (poll_heap S p)"

text \<open>\<^verbatim>\<open>ospoll_add\<close>: a new entry is allocated, the array grows, the kernel is told, then the entry is inserted. When one of them fails
  the entry is freed again; a grown array stays.\<close>

definition ospoll_add :: "poll_world \<Rightarrow> int \<Rightarrow> bool \<Rightarrow> 'cb \<Rightarrow> 'd option \<Rightarrow> ('cb, 'd) ospoll \<Rightarrow> (bool \<times> ('cb, 'd) ospoll) option" where
  "ospoll_add W fd edge cb d S =
     Option.bind (ospoll_find S fd) (\<lambda>pos.
       if pos < 0 then
         (case new_osfd W (poll_fds S @ poll_deleted S) of
            None \<Rightarrow> Some (False, S)
          | Some p \<Rightarrow>
             (case grow W S of
                None \<Rightarrow> Some (False, S)
              | Some S1 \<Rightarrow>
                  if \<not> can_add W \<or> fd \<in> dom (epoll S1) then Some (False, S1)
                  else
                    let e = \<lparr>osfd_fd = fd, osfd_xevents = 0, osfd_edge = edge, osfd_callback = None, osfd_data = None\<rparr>;
                        S2 = S1\<lparr>epoll := (epoll S1)(fd \<mapsto> (if edge then EPOLLET else 0, p)), poll_heap := (poll_heap S1)(p \<mapsto> e),
                                poll_fds := array_insert (nat (- pos - 1)) p (poll_fds S1)\<rparr>
                    in map_option (Pair True) (set_callback edge cb d p S2)))
       else Option.bind (rd (poll_fds S) (nat pos)) (\<lambda>p. map_option (Pair True) (set_callback edge cb d p S)))"

definition ospoll_remove :: "int \<Rightarrow> ('cb, 'd) ospoll \<Rightarrow> ('cb, 'd) ospoll option" where
  "ospoll_remove fd S =
     Option.bind (ospoll_find S fd) (\<lambda>pos.
       if 0 \<le> pos then
         Option.bind (rd (poll_fds S) (nat pos)) (\<lambda>p.
           map_option (\<lambda>e. S\<lparr>epoll := (epoll S)(fd := None), poll_fds := array_delete (nat pos) (poll_fds S),
               poll_heap := (poll_heap S)(p \<mapsto> e\<lparr>osfd_callback := None, osfd_data := None\<rparr>), poll_deleted := p # poll_deleted S\<rparr>)
             (poll_heap S p))
       else Some S)"

text \<open>The kernel ignores a change of a descriptor it does not have.\<close>

definition epoll_events :: "('cb, 'd) ospollfd \<Rightarrow> u32" where
  "epoll_events e =
     (let ev1 = (if osfd_xevents e AND X_NOTIFY_READ \<noteq> 0 then EPOLLIN else 0);
          ev2 = (if osfd_xevents e AND X_NOTIFY_WRITE \<noteq> 0 then ev1 OR EPOLLOUT else ev1)
      in if osfd_edge e then ev2 OR EPOLLET else ev2)"

definition epoll_mod :: "('cb, 'd) ospollfd \<Rightarrow> nat \<Rightarrow> ('cb, 'd) ospoll \<Rightarrow> ('cb, 'd) ospoll" where
  "epoll_mod e p S = (if osfd_fd e \<in> dom (epoll S) then S\<lparr>epoll := (epoll S)(osfd_fd e \<mapsto> (epoll_events e, p))\<rparr> else S)"

definition change_events :: "(u32 \<Rightarrow> u32) \<Rightarrow> int \<Rightarrow> ('cb, 'd) ospoll \<Rightarrow> ('cb, 'd) ospoll option" where
  "change_events f fd S =
     Option.bind (ospoll_find S fd) (\<lambda>pos.
       if 0 \<le> pos then
         Option.bind (rd (poll_fds S) (nat pos)) (\<lambda>p.
           map_option (\<lambda>e. let e' = e\<lparr>osfd_xevents := f (osfd_xevents e)\<rparr>
               in epoll_mod e' p (S\<lparr>poll_heap := (poll_heap S)(p \<mapsto> e')\<rparr>)) (poll_heap S p))
       else Some S)"

definition ospoll_listen :: "int \<Rightarrow> u32 \<Rightarrow> ('cb, 'd) ospoll \<Rightarrow> ('cb, 'd) ospoll option" where
  "ospoll_listen fd xevents = change_events (\<lambda>x. x OR xevents) fd"

definition ospoll_mute :: "int \<Rightarrow> u32 \<Rightarrow> ('cb, 'd) ospoll \<Rightarrow> ('cb, 'd) ospoll option" where
  "ospoll_mute fd xevents = change_events (\<lambda>x. x AND NOT xevents) fd"

definition ospoll_data :: "int \<Rightarrow> ('cb, 'd) ospoll \<Rightarrow> 'd option option" where
  "ospoll_data fd S =
     Option.bind (ospoll_find S fd) (\<lambda>pos.
       if pos < 0 then Some None
       else Option.bind (rd (poll_fds S) (nat pos)) (\<lambda>p. map_option osfd_data (poll_heap S p)))"

text \<open>Freeing an entry twice is an error.\<close>

fun free_all :: "nat list \<Rightarrow> (nat \<rightharpoonup> 'e) \<Rightarrow> (nat \<rightharpoonup> 'e) option" where
  "free_all [] h = Some h"
| "free_all (p # ps) h = (if p \<in> dom h then free_all ps (h(p := None)) else None)"

definition ospoll_clean_deleted :: "('cb, 'd) ospoll \<Rightarrow> ('cb, 'd) ospoll option" where
  "ospoll_clean_deleted S = map_option (\<lambda>h. S\<lparr>poll_heap := h, poll_deleted := []\<rparr>) (free_all (poll_deleted S) (poll_heap S))"

text \<open>\<^verbatim>\<open>ospoll_destroy\<close> asserts that nothing is polled any more; what remains allocated is returned.\<close>

definition ospoll_destroy :: "('cb, 'd) ospoll \<Rightarrow> (nat \<rightharpoonup> ('cb, 'd) ospollfd) option" where
  "ospoll_destroy S = (if poll_fds S = [] then map_option poll_heap (ospoll_clean_deleted S) else None)"

section \<open>Waiting\<close>

text \<open>What a callback does with the set, and what the server does when it closes a descriptor: the kernel forgets it.\<close>

datatype ('cb, 'd) poll_op =
  Add poll_world int bool 'cb "'d option" | Remove int | Listen int u32 | Mute int u32 | Close int

fun do_op :: "('cb, 'd) poll_op \<Rightarrow> ('cb, 'd) ospoll \<Rightarrow> ('cb, 'd) ospoll option" where
  "do_op (Add W fd edge cb d) S = map_option snd (ospoll_add W fd edge cb d S)"
| "do_op (Remove fd) S = ospoll_remove fd S"
| "do_op (Listen fd x) S = ospoll_listen fd x S"
| "do_op (Mute fd x) S = ospoll_mute fd x S"
| "do_op (Close fd) S = Some (S\<lparr>epoll := (epoll S)(fd := None)\<rparr>)"

definition revents_flags :: "u32 \<Rightarrow> u32" where
  "revents_flags r =
     (let x1 = (if r AND EPOLLIN \<noteq> 0 then X_NOTIFY_READ else 0);
          x2 = (if r AND EPOLLOUT \<noteq> 0 then x1 OR X_NOTIFY_WRITE else x1)
      in if r AND NOT (EPOLLIN OR EPOLLOUT) \<noteq> 0 then x2 OR X_NOTIFY_ERROR else x2)"

text \<open>A call of a callback: the function, the descriptor, the flags and the data.\<close>

type_synonym ('cb, 'd) poll_call = "'cb \<times> int \<times> u32 \<times> 'd option"

text \<open>The loop over the events of one \<^verbatim>\<open>epoll_wait\<close>, each an entry and what happened. \<open>act\<close> says what a call does with the set. The
  calls are recorded with the set they were made in.\<close>

fun wait_loop :: "(('cb, 'd) poll_call \<Rightarrow> ('cb, 'd) poll_op list) \<Rightarrow> (nat \<times> u32) list \<Rightarrow> ('cb, 'd) ospoll \<Rightarrow>
    ((('cb, 'd) poll_call \<times> ('cb, 'd) ospoll) list \<times> ('cb, 'd) ospoll) option" where
  "wait_loop act [] S = Some ([], S)"
| "wait_loop act ((p, r) # evs) S =
     Option.bind (poll_heap S p) (\<lambda>e.
       case osfd_callback e of
         None \<Rightarrow> wait_loop act evs S
       | Some cb \<Rightarrow>
           let c = (cb, osfd_fd e, revents_flags r, osfd_data e)
           in Option.bind (run_ops do_op (act c) S) (\<lambda>S'. map_option (apfst ((#) (c, S))) (wait_loop act evs S')))"

definition ospoll_wait :: "(('cb, 'd) poll_call \<Rightarrow> ('cb, 'd) poll_op list) \<Rightarrow> (nat \<times> u32) list \<Rightarrow> ('cb, 'd) ospoll \<Rightarrow>
    ((('cb, 'd) poll_call \<times> ('cb, 'd) ospoll) list \<times> ('cb, 'd) ospoll) option" where
  "ospoll_wait act evs S =
     Option.bind (wait_loop act evs S) (\<lambda>(cs, S'). map_option (Pair cs) (ospoll_clean_deleted S'))"

section \<open>Invariant\<close>

definition keys :: "('cb, 'd) ospoll \<Rightarrow> int list" where
  "keys S = map (\<lambda>p. osfd_fd (the (poll_heap S p))) (poll_fds S)"

text \<open>The array is strictly sorted by descriptor and within its capacity, exactly the entries of the array and of the deleted list are allocated,
  the deleted ones have no callback, and what the kernel holds are entries of the array under their descriptor.\<close>

definition poll_inv :: "('cb, 'd) ospoll \<Rightarrow> bool" where
  "poll_inv S \<longleftrightarrow> sorted_wrt (<) (keys S) \<and> length (poll_fds S) \<le> poll_size S \<and> distinct (poll_fds S @ poll_deleted S) \<and>
     dom (poll_heap S) = set (poll_fds S) \<union> set (poll_deleted S) \<and>
     (\<forall>p\<in>set (poll_deleted S). osfd_callback (the (poll_heap S p)) = None) \<and>
     (\<forall>fd ev p. epoll S fd = Some (ev, p) \<longrightarrow> p \<in> set (poll_fds S) \<and> osfd_fd (the (poll_heap S p)) = fd)"

text \<open>The abstract set: the entry of each polled descriptor.\<close>

definition entries :: "(nat \<rightharpoonup> ('cb, 'd) ospollfd) \<Rightarrow> nat list \<Rightarrow> (int \<times> ('cb, 'd) ospollfd) list" where
  "entries h ps = map (\<lambda>p. (osfd_fd (the (h p)), the (h p))) ps"

definition polled :: "('cb, 'd) ospoll \<Rightarrow> int \<rightharpoonup> ('cb, 'd) ospollfd" where
  "polled S = map_of (entries (poll_heap S) (poll_fds S))"

lemma entries_simps [simp]: "entries h [] = []" "entries h (p # ps) = (osfd_fd (the (h p)), the (h p)) # entries h ps"
    "entries h (ps @ qs) = entries h ps @ entries h qs"
  by (simp_all add: entries_def)

lemma entries_cong: "\<forall>p\<in>set ps. h' p = h p \<Longrightarrow> entries h' ps = entries h ps"
  by (simp add: entries_def)

lemma keys_entries: "keys S = map fst (entries (poll_heap S) (poll_fds S))"
  by (simp add: keys_def entries_def)

definition rank :: "int \<Rightarrow> int list \<Rightarrow> nat" where
  "rank fd ks = length (takeWhile (\<lambda>k. k < fd) ks)"

section \<open>The search\<close>

text \<open>In a strictly sorted list the elements below \<open>fd\<close> come first.\<close>

lemma rank_below: "i < rank fd ks \<Longrightarrow> ks ! i < fd"
  using set_takeWhileD [of "ks ! i" "\<lambda>k. k < fd" ks] takeWhile_nth [of i "\<lambda>k. k < fd" ks] nth_mem [of i "takeWhile (\<lambda>k. k < fd) ks"]
  by (simp add: rank_def)

lemma rank_le: "rank fd ks \<le> length ks"
  unfolding rank_def by (rule length_takeWhile_le)

lemma rank_above:
  assumes "sorted_wrt (<) ks" "rank fd ks \<le> i" "i < length ks"
  shows "fd \<le> ks ! i"
proof -
  have "\<not> ks ! rank fd ks < fd" using nth_length_takeWhile [of "\<lambda>k. k < fd" ks] assms(2,3) by (simp add: rank_def)
  moreover have "ks ! rank fd ks \<le> ks ! i" using assms sorted_wrt_nth_less [OF assms(1), of "rank fd ks" i] by (cases "rank fd ks = i") auto
  ultimately show ?thesis by simp
qed

lemma rank_eqI:
  assumes "n \<le> length ks" "\<And>i. i < n \<Longrightarrow> ks ! i < fd" "n < length ks \<Longrightarrow> fd \<le> ks ! n"
  shows "rank fd ks = n"
proof -
  have "takeWhile (\<lambda>k. k < fd) ks = take n ks"
    using assms by (intro takeWhile_eq_take_P_nth) auto
  then show ?thesis using assms(1) by (simp add: rank_def)
qed

lemma rank_of_member: "sorted_wrt (<) ks \<Longrightarrow> i < length ks \<Longrightarrow> rank (ks ! i) ks = i"
  using sorted_wrt_nth_less by (intro rank_eqI) fastforce+

lemma find_loop_found:
  assumes "sorted_wrt (<) (keys S)" "\<forall>p\<in>set (poll_fds S). p \<in> dom (poll_heap S)"
    and "0 \<le> lo" "hi < int (length (poll_fds S))" "lo \<le> hi + 1"
    and "\<forall>i. int i < lo \<longrightarrow> keys S ! i < fd" "\<forall>i. hi < int i \<longrightarrow> i < length (poll_fds S) \<longrightarrow> fd < keys S ! i"
  shows "ospoll_find_loop S fd lo hi =
    Some (if fd \<in> set (keys S) then int (rank fd (keys S)) else - int (rank fd (keys S)) - 1)"
  using assms
proof (induction S fd lo hi rule: ospoll_find_loop.induct)
  case (1 S fd lo hi)
  let ?ks = "keys S" and ?n = "length (poll_fds S)"
  have len: "length ?ks = ?n" by (simp add: keys_def)
  show ?case
  proof (cases "lo \<le> hi")
    case False
    then have lo: "lo = hi + 1" using "1.prems" by simp
    then have "hi < int (nat lo)" using "1.prems"(3) by simp
    with "1.prems"(7) have a: "nat lo < ?n \<Longrightarrow> fd < ?ks ! nat lo" by blast
    have r: "rank fd ?ks = nat lo"
    proof (rule rank_eqI)
      show "nat lo \<le> length ?ks" using "1.prems"(3,4) lo len by simp
      show "?ks ! i < fd" if "i < nat lo" for i using that "1.prems"(6) by simp
      show "fd \<le> ?ks ! nat lo" if "nat lo < length ?ks" using that a len by simp
    qed
    have "fd \<notin> set ?ks"
    proof
      assume "fd \<in> set ?ks"
      then obtain i where i: "i < ?n" "?ks ! i = fd" by (metis in_set_conv_nth len)
      then show False using "1.prems"(6) [rule_format, of i] "1.prems"(7) [rule_format, of i] lo by (cases "int i < lo") auto
    qed
    then show ?thesis using False r "1.prems"(3) by (simp add: ospoll_find_loop.simps [of S fd lo hi])
  next
    case True
    define m where "m = (lo + hi) div 2"
    have m: "lo \<le> m" "m \<le> hi" using True by (simp_all add: m_def)
    have mn: "nat m < ?n" "0 \<le> m" using m "1.prems"(3,4) by auto
    obtain e where e: "poll_heap S (poll_fds S ! nat m) = Some e" using "1.prems"(2) mn by (meson domD nth_mem)
    have k: "?ks ! nat m = osfd_fd e" using mn e by (simp add: keys_def)
    have f: "ospoll_find_loop S fd lo hi = (if osfd_fd e < fd then ospoll_find_loop S fd (m + 1) hi
        else if osfd_fd e > fd then ospoll_find_loop S fd lo (m - 1) else Some m)"
      using True mn e by (simp add: ospoll_find_loop.simps [of S fd lo hi] Let_def flip: m_def) (simp add: rd_def)
    have rd: "rd (poll_fds S) (nat m) = Some (poll_fds S ! nat m)" using mn by (simp add: rd_def)
    consider "osfd_fd e < fd" | "fd < osfd_fd e" | "osfd_fd e = fd" by linarith
    then show ?thesis
    proof cases
      case 1
      have b: "\<forall>i. int i < m + 1 \<longrightarrow> ?ks ! i < fd"
      proof (intro allI impI)
        fix i assume "int i < m + 1"
        then have "i \<le> nat m" by simp
        then have "?ks ! i \<le> ?ks ! nat m"
          using sorted_wrt_nth_less [OF "1.prems"(1), of i "nat m"] mn len by (cases "i = nat m") auto
        then show "?ks ! i < fd" using k 1 by simp
      qed
      have "ospoll_find_loop S fd (m + 1) hi = Some (if fd \<in> set ?ks then int (rank fd ?ks) else - int (rank fd ?ks) - 1)"
        using "1.IH"(1) [OF True m_def rd e 1 "1.prems"(1,2)] b "1.prems" m by simp
      then show ?thesis using f 1 by simp
    next
      case 2
      have b: "\<forall>i. m - 1 < int i \<longrightarrow> i < ?n \<longrightarrow> fd < ?ks ! i"
      proof (intro allI impI)
        fix i assume "m - 1 < int i" "i < ?n"
        moreover from this have "nat m \<le> i" by linarith
        ultimately have "?ks ! nat m \<le> ?ks ! i"
          using sorted_wrt_nth_less [OF "1.prems"(1), of "nat m" i] mn len by (cases "i = nat m") auto
        then show "fd < ?ks ! i" using k 2 by simp
      qed
      have "ospoll_find_loop S fd lo (m - 1) = Some (if fd \<in> set ?ks then int (rank fd ?ks) else - int (rank fd ?ks) - 1)"
        using "1.IH"(2) [OF True m_def rd e _ 2 "1.prems"(1,2)] 2 b "1.prems" m by simp
      then show ?thesis using f 2 by simp
    next
      case 3
      then have "rank fd ?ks = nat m" using rank_of_member [OF "1.prems"(1), of "nat m"] mn len k by simp
      moreover have "fd \<in> set ?ks" using 3 k mn len by (metis nth_mem)
      ultimately show ?thesis using f 3 mn by simp
    qed
  qed
qed

lemma find_found:
  assumes "poll_inv S"
  shows "ospoll_find S fd = Some (if fd \<in> set (keys S) then int (rank fd (keys S)) else - int (rank fd (keys S)) - 1)"
  unfolding ospoll_find_def using assms by (intro find_loop_found) (auto simp: poll_inv_def)

text \<open>Where a polled descriptor is, and where a new one goes.\<close>

lemma find_present:
  assumes "poll_inv S" "fd \<in> set (keys S)"
  obtains us p vs e where "poll_fds S = us @ p # vs" "ospoll_find S fd = Some (int (length us))" "poll_heap S p = Some e" "osfd_fd e = fd"
proof -
  let ?r = "rank fd (keys S)"
  obtain i where i: "i < length (keys S)" "keys S ! i = fd" using assms(2) by (metis in_set_conv_nth)
  have s: "sorted_wrt (<) (keys S)" using assms(1) by (simp add: poll_inv_def)
  have r: "?r = i" using rank_of_member [OF s i(1)] i(2) by simp
  have n: "i < length (poll_fds S)" using i(1) by (simp add: keys_def)
  then have "poll_fds S ! i \<in> dom (poll_heap S)" using assms(1) nth_mem by (auto simp: poll_inv_def)
  then obtain e where e: "poll_heap S (poll_fds S ! i) = Some e" by auto
  have "osfd_fd e = fd" using i e n by (simp add: keys_def)
  then show thesis
    using that [of "take i (poll_fds S)" "poll_fds S ! i" "drop (Suc i) (poll_fds S)" e] e n find_found [OF assms(1)] assms(2) r
    by (simp add: id_take_nth_drop [OF n, symmetric])
qed

lemma find_absent:
  assumes "poll_inv S" "fd \<notin> set (keys S)"
  obtains us vs where "poll_fds S = us @ vs" "ospoll_find S fd = Some (- int (length us) - 1)"
    and "\<forall>p\<in>set us. osfd_fd (the (poll_heap S p)) < fd" "\<forall>p\<in>set vs. fd < osfd_fd (the (poll_heap S p))"
proof -
  let ?r = "rank fd (keys S)" and ?k = "\<lambda>p. osfd_fd (the (poll_heap S p))"
  have s: "sorted_wrt (<) (keys S)" using assms(1) by (simp add: poll_inv_def)
  have n: "?r \<le> length (poll_fds S)" using rank_le [of fd "keys S"] by (simp add: keys_def)
  have k: "keys S ! i = ?k (poll_fds S ! i)" if "i < length (poll_fds S)" for i using that by (simp add: keys_def)
  have "?k p < fd" if "p \<in> set (take ?r (poll_fds S))" for p
    using that n rank_below [of _ fd "keys S"] by (auto simp: in_set_conv_nth simp flip: k)
  moreover have "fd < ?k p" if "p \<in> set (drop ?r (poll_fds S))" for p
  proof -
    from that obtain i where "i < length (poll_fds S) - ?r" "p = poll_fds S ! (?r + i)" by (auto simp: in_set_conv_nth)
    then have i: "?r + i < length (poll_fds S)" "p = poll_fds S ! (?r + i)" by simp_all
    then have "fd \<le> ?k p" using rank_above [OF s, of fd "?r + i"] k [of "?r + i"] by (simp add: keys_def)
    moreover have "?k p \<in> set (keys S)" using i by (auto simp: keys_def)
    ultimately show ?thesis using assms(2) by (cases "?k p = fd") auto
  qed
  ultimately show thesis using that [of "take ?r (poll_fds S)" "drop ?r (poll_fds S)"] find_found [OF assms(1)] assms(2) n by simp
qed

lemma rd_middle [simp]: "rd (us @ p # vs) (length us) = Some p"
  by (simp add: rd_def)

lemma array_delete_middle [simp]: "array_delete (length us) (us @ p # vs) = us @ vs"
  by (simp add: array_delete_def)

lemma array_insert_middle [simp]: "array_insert (length us) p (us @ vs) = us @ p # vs"
  by (simp add: array_insert_def)

lemma map_of_insert: "k \<notin> fst ` set xs \<Longrightarrow> map_of (xs @ (k, v) # ys) = (map_of (xs @ ys))(k \<mapsto> v)"
  by (induction xs) (auto simp: fun_eq_iff)

lemma map_of_delete: "distinct (map fst (xs @ (k, v) # ys)) \<Longrightarrow> map_of (xs @ ys) = (map_of (xs @ (k, v) # ys))(k := None)"
  using map_of_eq_None_iff [of "xs @ ys" k] map_of_insert [of k xs v ys] by (auto simp: fun_upd_idem)

section \<open>The operations keep the invariant\<close>

text \<open>An entry of the array is replaced by one for the same descriptor.\<close>

lemma update_entry:
  assumes "poll_inv S" "poll_fds S = us @ p # vs" "poll_heap S p = Some e" "osfd_fd e' = osfd_fd e"
  shows "poll_inv (S\<lparr>poll_heap := (poll_heap S)(p \<mapsto> e')\<rparr>)"
    and "polled (S\<lparr>poll_heap := (poll_heap S)(p \<mapsto> e')\<rparr>) = (polled S)(osfd_fd e \<mapsto> e')"
proof -
  let ?S = "S\<lparr>poll_heap := (poll_heap S)(p \<mapsto> e')\<rparr>"
  have d: "distinct (poll_fds S @ poll_deleted S)" using assms(1) by (simp add: poll_inv_def)
  have p: "p \<notin> set us" "p \<notin> set vs" "p \<notin> set (poll_deleted S)" using d assms(2) by auto
  have k: "keys ?S = keys S" using assms p by (auto simp: keys_def)
  have "osfd_fd (the (poll_heap ?S q)) = osfd_fd (the (poll_heap S q))" for q using assms(3,4) by simp
  then show "poll_inv ?S" unfolding poll_inv_def k using assms p by (auto simp: poll_inv_def)
  have "osfd_fd e \<notin> set (map (\<lambda>q. osfd_fd (the (poll_heap S q))) us)"
    using assms(1-3) by (fastforce simp: poll_inv_def keys_def sorted_wrt_append)
  then have "osfd_fd e \<notin> fst ` set (entries (poll_heap S) us)" by (auto simp: entries_def)
  moreover have "entries (poll_heap ?S) us = entries (poll_heap S) us" "entries (poll_heap ?S) vs = entries (poll_heap S) vs"
    using p by (auto intro!: entries_cong)
  ultimately show "polled ?S = (polled S)(osfd_fd e \<mapsto> e')"
    using assms(2-4) by (simp add: polled_def map_of_insert del: map_of_append)
qed

lemma polled_present:
  assumes "poll_inv S" "poll_fds S = us @ p # vs" "poll_heap S p = Some e"
  shows "polled S (osfd_fd e) = Some e"
  using fun_cong [OF update_entry(2) [OF assms refl], of "osfd_fd e"] assms(3) by (simp add: fun_upd_idem)

lemma polled_absent: "polled S fd = None \<longleftrightarrow> fd \<notin> set (keys S)"
  by (auto simp: polled_def keys_entries map_of_eq_None_iff)

lemma set_callback_ok:
  assumes "poll_inv S" "poll_fds S = us @ p # vs" "poll_heap S p = Some e"
  obtains S' where "set_callback edge cb d p S = Some S'" "poll_inv S'"
    and "polled S' = (polled S)(osfd_fd e \<mapsto> e\<lparr>osfd_edge := edge, osfd_callback := Some cb, osfd_data := d\<rparr>)"
proof -
  let ?e = "e\<lparr>osfd_edge := edge, osfd_callback := Some cb, osfd_data := d\<rparr>"
  have "osfd_fd ?e = osfd_fd e" by simp
  from update_entry [OF assms this] show thesis using assms(3) by (intro that) (simp_all add: set_callback_def)
qed

text \<open>A fresh entry is inserted at its place and announced to the kernel.\<close>

lemma insert_entry:
  assumes "poll_inv S" "poll_fds S = us @ vs" "p \<notin> dom (poll_heap S)" "length (poll_fds S) < poll_size S"
    and "\<forall>q\<in>set us. osfd_fd (the (poll_heap S q)) < osfd_fd e" "\<forall>q\<in>set vs. osfd_fd e < osfd_fd (the (poll_heap S q))"
    and S'_def: "S' = S\<lparr>epoll := (epoll S)(osfd_fd e \<mapsto> (ev, p)), poll_heap := (poll_heap S)(p \<mapsto> e), poll_fds := us @ p # vs\<rparr>"
  shows "poll_inv S'" "polled S' = (polled S)(osfd_fd e \<mapsto> e)"
proof -
  let ?k = "\<lambda>h. \<lambda>q. osfd_fd (the (h q))"
  have p: "p \<notin> set us" "p \<notin> set vs" "p \<notin> set (poll_deleted S)" using assms(1-3) by (auto simp: poll_inv_def)
  have h: "poll_heap S' q = poll_heap S q" if "q \<noteq> p" for q using that by (simp add: S'_def)
  have hq: "\<forall>q\<in>set us. poll_heap S' q = poll_heap S q" "\<forall>q\<in>set vs. poll_heap S' q = poll_heap S q" using p h by metis+
  have ks: "map (?k (poll_heap S')) us = map (?k (poll_heap S)) us" "map (?k (poll_heap S')) vs = map (?k (poll_heap S)) vs"
    using hq by simp_all
  have k: "keys S' = map (?k (poll_heap S)) us @ osfd_fd e # map (?k (poll_heap S)) vs"
    using ks by (simp add: keys_def S'_def)
  have ko: "keys S = map (?k (poll_heap S)) us @ map (?k (poll_heap S)) vs" by (simp add: keys_def assms(2))
  have "sorted_wrt (<) (keys S')" using assms(1,5,6) unfolding k by (auto simp: poll_inv_def ko sorted_wrt_append)
  moreover have "\<forall>fd ev q. epoll S' fd = Some (ev, q) \<longrightarrow> q \<in> set (poll_fds S') \<and> osfd_fd (the (poll_heap S' q)) = fd"
  proof (intro allI impI)
    fix fd ev' q assume q: "epoll S' fd = Some (ev', q)"
    show "q \<in> set (poll_fds S') \<and> osfd_fd (the (poll_heap S' q)) = fd"
    proof (cases "fd = osfd_fd e")
      case True then show ?thesis using q by (simp add: S'_def)
    next
      case False
      then have "epoll S fd = Some (ev', q)" using q by (simp add: S'_def)
      then have "q \<in> set (poll_fds S)" "osfd_fd (the (poll_heap S q)) = fd" using assms(1) by (auto simp: poll_inv_def)
      then show ?thesis using p assms(2) h [of q] by (cases "q = p") (auto simp: S'_def)
    qed
  qed
  moreover have "\<forall>q\<in>set (poll_deleted S'). osfd_callback (the (poll_heap S' q)) = None"
    using assms(1) p h by (auto simp: poll_inv_def S'_def)
  ultimately show "poll_inv S'"
    unfolding poll_inv_def using assms(1,2,4) p by (auto simp: poll_inv_def S'_def)
  have "osfd_fd e \<notin> fst ` set (entries (poll_heap S) us)" using assms(5) by (auto simp: entries_def)
  moreover have "entries (poll_heap S') us = entries (poll_heap S) us" "entries (poll_heap S') vs = entries (poll_heap S) vs"
    using hq by (simp_all add: entries_cong)
  moreover have "poll_heap S' p = Some e" "poll_fds S' = us @ p # vs" by (simp_all add: S'_def)
  ultimately show "polled S' = (polled S)(osfd_fd e \<mapsto> e)" by (simp add: polled_def assms(2) map_of_insert del: map_of_append)
qed

lemma remove_entry:
  assumes "poll_inv S" "poll_fds S = us @ p # vs" "poll_heap S p = Some e"
    and S'_def: "S' = S\<lparr>epoll := (epoll S)(osfd_fd e := None), poll_fds := us @ vs,
      poll_heap := (poll_heap S)(p \<mapsto> e\<lparr>osfd_callback := None, osfd_data := None\<rparr>), poll_deleted := p # poll_deleted S\<rparr>"
  shows "poll_inv S'" "polled S' = (polled S)(osfd_fd e := None)"
proof -
  have d: "distinct (poll_fds S @ poll_deleted S)" using assms(1) by (simp add: poll_inv_def)
  have p: "p \<notin> set us" "p \<notin> set vs" "p \<notin> set (poll_deleted S)" using d assms(2) by auto
  have h: "poll_heap S' q = poll_heap S q" if "q \<noteq> p" for q using that by (simp add: S'_def)
  have hq: "\<forall>q\<in>set us. poll_heap S' q = poll_heap S q" "\<forall>q\<in>set vs. poll_heap S' q = poll_heap S q" using p h by metis+
  have es: "entries (poll_heap S') us = entries (poll_heap S) us" "entries (poll_heap S') vs = entries (poll_heap S) vs"
    using hq by (simp_all add: entries_cong)
  have k: "keys S = map fst (entries (poll_heap S) us @ (osfd_fd e, e) # entries (poll_heap S) vs)"
    "keys S' = map fst (entries (poll_heap S) us @ entries (poll_heap S) vs)"
    using assms(2,3) es by (simp_all add: keys_entries) (simp_all add: S'_def)
  have s: "sorted_wrt (<) (keys S)" using assms(1) by (simp add: poll_inv_def)
  then have "sorted_wrt (<) (keys S')" unfolding k by (simp add: sorted_wrt_append)
  moreover have "\<forall>fd ev q. epoll S' fd = Some (ev, q) \<longrightarrow> q \<in> set (poll_fds S') \<and> osfd_fd (the (poll_heap S' q)) = fd"
  proof (intro allI impI)
    fix fd ev q assume "epoll S' fd = Some (ev, q)"
    then have "epoll S fd = Some (ev, q)" "fd \<noteq> osfd_fd e" by (auto simp: S'_def split: if_splits)
    then have "q \<in> set (poll_fds S)" "osfd_fd (the (poll_heap S q)) = fd" "fd \<noteq> osfd_fd e" using assms(1) by (auto simp: poll_inv_def)
    then show "q \<in> set (poll_fds S') \<and> osfd_fd (the (poll_heap S' q)) = fd" using assms(2,3) h by (cases "q = p") (auto simp: S'_def)
  qed
  moreover have "\<forall>q\<in>set (poll_deleted S'). osfd_callback (the (poll_heap S' q)) = None"
    using assms(1) by (auto simp: poll_inv_def S'_def)
  ultimately show "poll_inv S'" unfolding poll_inv_def using assms(1,2) p by (auto simp: poll_inv_def S'_def)
  have "distinct (keys S)" using s by (simp add: strict_sorted_iff)
  then have "distinct (map fst (entries (poll_heap S) us @ (osfd_fd e, e) # entries (poll_heap S) vs))" using k by simp
  from map_of_delete [OF this] es assms(2,3) show "polled S' = (polled S)(osfd_fd e := None)"
    by (simp add: polled_def del: map_of_append) (simp add: S'_def del: map_of_append)
qed

text \<open>The allocator does not hand out an address that is in use.\<close>

definition good_world :: "poll_world \<Rightarrow> bool" where
  "good_world W \<longleftrightarrow> (\<forall>ps p. new_osfd W ps = Some p \<longrightarrow> p \<notin> set ps)"

fun sane :: "('cb, 'd) poll_op \<Rightarrow> bool" where
  "sane (Add W fd edge cb d) = good_world W"
| "sane _ = True"

text \<open>A new or changed entry of \<^verbatim>\<open>ospoll_add\<close>.\<close>

definition entry_for :: "int \<Rightarrow> bool \<Rightarrow> 'cb \<Rightarrow> 'd option \<Rightarrow> ('cb, 'd) ospollfd option \<Rightarrow> ('cb, 'd) ospollfd" where
  "entry_for fd edge cb d old =
     \<lparr>osfd_fd = fd, osfd_xevents = (case old of None \<Rightarrow> 0 | Some e \<Rightarrow> osfd_xevents e), osfd_edge = edge, osfd_callback = Some cb, osfd_data = d\<rparr>"

lemma grow_fits:
  assumes "poll_inv S" "grow W S = Some S1"
  obtains n where "S1 = S\<lparr>poll_size := n\<rparr>" "length (poll_fds S) < n"
proof (cases "poll_size S \<le> length (poll_fds S)")
  case True
  let ?n = "if poll_size S \<noteq> 0 then poll_size S * 2 else MAXCLIENTS * 2"
  have "length (poll_fds S) \<le> poll_size S" using assms(1) by (simp add: poll_inv_def)
  then have "length (poll_fds S) < ?n" using True by (auto simp: MAXCLIENTS_def)
  with True assms(2) show thesis by (intro that [of ?n]) (auto simp: grow_def split: if_splits)
next
  case False
  with assms(2) show thesis by (intro that [of "poll_size S"]) (simp_all add: grow_def)
qed

lemma size_update:
  assumes "poll_inv S" "length (poll_fds S) \<le> n"
  shows "poll_inv (S\<lparr>poll_size := n\<rparr>)" "polled (S\<lparr>poll_size := n\<rparr>) = polled S"
proof -
  have "keys (S\<lparr>poll_size := n\<rparr>) = keys S" by (simp add: keys_def)
  then show "poll_inv (S\<lparr>poll_size := n\<rparr>)" using assms by (auto simp: poll_inv_def)
  show "polled (S\<lparr>poll_size := n\<rparr>) = polled S" by (simp add: polled_def)
qed

lemma add_ok:
  assumes "poll_inv S" "good_world W"
  obtains b S' where "ospoll_add W fd edge cb d S = Some (b, S')" "poll_inv S'" "dom (poll_heap S) \<subseteq> dom (poll_heap S')"
    and "polled S' = (if b then (polled S)(fd \<mapsto> entry_for fd edge cb d (polled S fd)) else polled S)"
proof (cases "fd \<in> set (keys S)")
  case True
  with assms(1) obtain us p vs e where f: "poll_fds S = us @ p # vs" "ospoll_find S fd = Some (int (length us))"
    "poll_heap S p = Some e" "osfd_fd e = fd" by (rule find_present)
  obtain S' where S': "set_callback edge cb d p S = Some S'" "poll_inv S'"
    "polled S' = (polled S)(fd \<mapsto> e\<lparr>osfd_edge := edge, osfd_callback := Some cb, osfd_data := d\<rparr>)"
    using set_callback_ok [OF assms(1) f(1,3)] f(4) by metis
  have "dom (poll_heap S) \<subseteq> dom (poll_heap S')" using S'(1) f(3) by (auto simp: set_callback_def)
  moreover have "polled S fd = Some e" using polled_present [OF assms(1) f(1,3)] f(4) by simp
  moreover have "ospoll_add W fd edge cb d S = Some (True, S')" using f S'(1) by (simp add: ospoll_add_def)
  moreover have "e\<lparr>osfd_edge := edge, osfd_callback := Some cb, osfd_data := d\<rparr> = entry_for fd edge cb d (Some e)"
    using f(4) by (cases e) (simp add: entry_for_def)
  ultimately show thesis using S' f(4) that [of True S'] by simp
next
  case False
  with assms(1) obtain us vs where f: "poll_fds S = us @ vs" "ospoll_find S fd = Some (- int (length us) - 1)"
    "\<forall>p\<in>set us. osfd_fd (the (poll_heap S p)) < fd" "\<forall>p\<in>set vs. fd < osfd_fd (the (poll_heap S p))" by (rule find_absent)
  have neg: "- int (length us) - 1 < 0" "nat (- (- int (length us) - 1) - 1) = length us" by simp_all
  note add = ospoll_add_def f(2) bind_simps neg(2) if_P [OF neg(1)]
  show thesis
  proof (cases "new_osfd W (poll_fds S @ poll_deleted S)")
    case None
    then show thesis using that [of False S] assms(1) by (simp add: add)
  next
    case (Some p)
    then have "p \<notin> set (poll_fds S @ poll_deleted S)" using assms(2) unfolding good_world_def by blast
    then have p: "p \<notin> dom (poll_heap S)" using assms(1) by (auto simp: poll_inv_def)
    show thesis
    proof (cases "grow W S")
      case None
      then show thesis using that [of False S] assms(1) Some by (simp add: add)
    next
      case (Some S1)
      with assms(1) obtain n where n: "S1 = S\<lparr>poll_size := n\<rparr>" "length (poll_fds S) < n" by (rule grow_fits)
      have S1: "poll_inv S1" "polled S1 = polled S" using size_update [OF assms(1), of n] n by simp_all
      show thesis
      proof (cases "\<not> can_add W \<or> fd \<in> dom (epoll S1)")
        case True
        then show thesis using that [of False S1] S1 n \<open>new_osfd W _ = Some p\<close> Some by (simp add: add)
      next
        case fresh: False
        let ?e = "\<lparr>osfd_fd = fd, osfd_xevents = 0, osfd_edge = edge, osfd_callback = None, osfd_data = None\<rparr> :: ('a, 'b) ospollfd"
        let ?ev = "if edge then EPOLLET else 0"
        let ?S2 = "S1\<lparr>epoll := (epoll S1)(osfd_fd ?e \<mapsto> (?ev, p)), poll_heap := (poll_heap S1)(p \<mapsto> ?e), poll_fds := us @ p # vs\<rparr>"
        have "poll_fds S1 = us @ vs" "p \<notin> dom (poll_heap S1)" "length (poll_fds S1) < poll_size S1"
          "\<forall>q\<in>set us. osfd_fd (the (poll_heap S1 q)) < osfd_fd ?e" "\<forall>q\<in>set vs. osfd_fd ?e < osfd_fd (the (poll_heap S1 q))"
          using f p n by simp_all
        note S2 = insert_entry [OF S1(1) this refl, of ?ev]
        obtain S' where S': "set_callback edge cb d p ?S2 = Some S'" "poll_inv S'"
          "polled S' = (polled ?S2)(osfd_fd ?e \<mapsto> ?e\<lparr>osfd_edge := edge, osfd_callback := Some cb, osfd_data := d\<rparr>)"
          by (rule set_callback_ok [OF S2(1), of us p vs ?e edge cb d]) simp_all
        have "ospoll_add W fd edge cb d S = Some (True, S')"
          using S'(1) fresh Some \<open>new_osfd W _ = Some p\<close> n f(1) unfolding add by (simp add: Let_def)
        moreover have "dom (poll_heap S) \<subseteq> dom (poll_heap S')" using S'(1) n by (auto simp: set_callback_def)
        moreover have "polled S fd = None" using False by (simp add: polled_absent)
        ultimately show thesis using that [of True S'] S' S2(2) S1(2) by (simp add: entry_for_def)
      qed
    qed
  qed
qed

text \<open>Where allocator and kernel have room, an addition succeeds: the kernel has no other entry for the descriptor.\<close>

definition generous :: "poll_world \<Rightarrow> bool" where
  "generous W \<longleftrightarrow> good_world W \<and> (\<forall>ps. new_osfd W ps \<noteq> None) \<and> can_grow W \<and> can_add W"

lemma epoll_in_keys: "poll_inv S \<Longrightarrow> fd \<in> dom (epoll S) \<Longrightarrow> fd \<in> set (keys S)"
  by (fastforce simp: poll_inv_def keys_def)

lemma add_generous:
  assumes "poll_inv S" "generous W"
  obtains S' where "ospoll_add W fd edge cb d S = Some (True, S')" "poll_inv S'"
    and "polled S' = (polled S)(fd \<mapsto> entry_for fd edge cb d (polled S fd))"
proof -
  have "good_world W" using assms(2) by (simp add: generous_def)
  with assms(1) obtain b S' where S': "ospoll_add W fd edge cb d S = Some (b, S')" "poll_inv S'"
    "polled S' = (if b then (polled S)(fd \<mapsto> entry_for fd edge cb d (polled S fd)) else polled S)" by (rule add_ok)
  moreover have b
  proof (cases "fd \<in> set (keys S)")
    case True
    then show ?thesis using S'(1) assms(1) by (auto simp: ospoll_add_def find_found Option.bind_eq_Some_conv)
  next
    case False
    then have "fd \<notin> dom (epoll S)" using epoll_in_keys assms(1) by blast
    moreover have "\<exists>S1. grow W S = Some S1 \<and> epoll S1 = epoll S" using assms(2) by (simp add: grow_def generous_def)
    then obtain S1 where "grow W S = Some S1" "epoll S1 = epoll S" by blast
    moreover obtain p where "new_osfd W (poll_fds S @ poll_deleted S) = Some p" using assms(2) by (auto simp: generous_def)
    ultimately show ?thesis using S'(1) assms False by (auto simp: ospoll_add_def find_found generous_def Let_def)
  qed
  ultimately show thesis using that by simp
qed

lemma remove_ok:
  assumes "poll_inv S"
  obtains S' where "ospoll_remove fd S = Some S'" "poll_inv S'" "dom (poll_heap S) \<subseteq> dom (poll_heap S')" "polled S' = (polled S)(fd := None)"
proof (cases "fd \<in> set (keys S)")
  case True
  with assms obtain us p vs e where f: "poll_fds S = us @ p # vs" "ospoll_find S fd = Some (int (length us))"
    "poll_heap S p = Some e" "osfd_fd e = fd" by (rule find_present)
  let ?S = "S\<lparr>epoll := (epoll S)(osfd_fd e := None), poll_fds := us @ vs,
      poll_heap := (poll_heap S)(p \<mapsto> e\<lparr>osfd_callback := None, osfd_data := None\<rparr>), poll_deleted := p # poll_deleted S\<rparr>"
  have "ospoll_remove fd S = Some ?S" using f by (simp add: ospoll_remove_def)
  then show thesis using that [of ?S] remove_entry [OF assms f(1,3) refl] f(4) by auto
next
  case False
  then have "polled S fd = None" by (simp add: polled_absent)
  then have "polled S = (polled S)(fd := None)" by (simp add: fun_upd_idem)
  moreover have "ospoll_remove fd S = Some S" using False assms by (simp add: ospoll_remove_def find_found)
  ultimately show thesis using that assms by blast
qed

lemma epoll_mod_ok:
  assumes "poll_inv S" "p \<in> set (poll_fds S)" "poll_heap S p = Some e"
  shows "poll_inv (epoll_mod e p S)" "polled (epoll_mod e p S) = polled S" "poll_heap (epoll_mod e p S) = poll_heap S"
proof -
  have "keys (epoll_mod e p S) = keys S" "poll_size (epoll_mod e p S) = poll_size S" by (simp_all add: keys_def epoll_mod_def)
  then show "poll_inv (epoll_mod e p S)" using assms by (auto simp: poll_inv_def epoll_mod_def split: if_splits)
qed (simp_all add: epoll_mod_def polled_def)

lemma change_ok:
  assumes "poll_inv S"
  obtains S' where "change_events f fd S = Some S'" "poll_inv S'" "dom (poll_heap S) \<subseteq> dom (poll_heap S')"
    and "polled S' = (polled S)(fd := map_option (\<lambda>e. e\<lparr>osfd_xevents := f (osfd_xevents e)\<rparr>) (polled S fd))"
proof (cases "fd \<in> set (keys S)")
  case True
  with assms obtain us p vs e where i: "poll_fds S = us @ p # vs" "ospoll_find S fd = Some (int (length us))"
    "poll_heap S p = Some e" "osfd_fd e = fd" by (rule find_present)
  let ?e = "e\<lparr>osfd_xevents := f (osfd_xevents e)\<rparr>"
  let ?S = "S\<lparr>poll_heap := (poll_heap S)(p \<mapsto> ?e)\<rparr>"
  have e: "osfd_fd ?e = osfd_fd e" by simp
  note u = update_entry [OF assms i(1,3) e]
  have p: "p \<in> set (poll_fds ?S)" "poll_heap ?S p = Some ?e" using i by simp_all
  have "change_events f fd S = Some (epoll_mod ?e p ?S)" using i by (simp add: change_events_def Let_def)
  then show thesis
  proof (rule that)
    show "poll_inv (epoll_mod ?e p ?S)" by (rule epoll_mod_ok(1) [OF u(1) p])
    show "dom (poll_heap S) \<subseteq> dom (poll_heap (epoll_mod ?e p ?S))" unfolding epoll_mod_ok(3) [OF u(1) p] by auto
    show "polled (epoll_mod ?e p ?S) = (polled S)(fd := map_option (\<lambda>e. e\<lparr>osfd_xevents := f (osfd_xevents e)\<rparr>) (polled S fd))"
      unfolding epoll_mod_ok(2) [OF u(1) p] u(2) using polled_present [OF assms i(1,3)] i(4) by simp
  qed
next
  case False
  then have "polled S fd = None" by (simp add: polled_absent)
  then have "polled S = (polled S)(fd := map_option (\<lambda>e. e\<lparr>osfd_xevents := f (osfd_xevents e)\<rparr>) (polled S fd))" by (simp add: fun_upd_idem)
  moreover have "change_events f fd S = Some S" using False assms by (simp add: change_events_def find_found)
  ultimately show thesis using that [of S] assms by blast
qed

section \<open>Refinement of a map\<close>

text \<open>The operations on the abstract map from descriptors to entries; whether an addition succeeds is decided by the allocator and the kernel.\<close>

fun map_op :: "('cb, 'd) poll_op \<times> bool \<Rightarrow> (int \<rightharpoonup> ('cb, 'd) ospollfd) \<Rightarrow> int \<rightharpoonup> ('cb, 'd) ospollfd" where
  "map_op (Add W fd edge cb d, b) m = (if b then m(fd \<mapsto> entry_for fd edge cb d (m fd)) else m)"
| "map_op (Remove fd, b) m = m(fd := None)"
| "map_op (Listen fd x, b) m = m(fd := map_option (\<lambda>e. e\<lparr>osfd_xevents := osfd_xevents e OR x\<rparr>) (m fd))"
| "map_op (Mute fd x, b) m = m(fd := map_option (\<lambda>e. e\<lparr>osfd_xevents := osfd_xevents e AND NOT x\<rparr>) (m fd))"
| "map_op (Close fd, b) m = m"

fun outcome_ok :: "('cb, 'd) poll_op \<times> bool \<Rightarrow> ('cb, 'd) ospoll \<Rightarrow> bool" where
  "outcome_ok (Add W fd edge cb d, b) S = (good_world W \<and> map_option fst (ospoll_add W fd edge cb d S) = Some b)"
| "outcome_ok (_, b) S = True"

lemma do_op_ok:
  assumes "poll_inv S" "sane op"
  obtains S' where "do_op op S = Some S'" "poll_inv S'" "dom (poll_heap S) \<subseteq> dom (poll_heap S')"
    and "\<And>b. outcome_ok (op, b) S \<Longrightarrow> polled S' = map_op (op, b) (polled S)"
proof (cases op)
  case (Add W fd edge cb d)
  then have "good_world W" using assms(2) by simp
  from assms(1) this obtain b S' where S': "ospoll_add W fd edge cb d S = Some (b, S')" "poll_inv S'" "dom (poll_heap S) \<subseteq> dom (poll_heap S')"
    "polled S' = (if b then (polled S)(fd \<mapsto> entry_for fd edge cb d (polled S fd)) else polled S)" by (rule add_ok)
  show thesis using S' Add by (intro that [of S']) auto
next
  case (Remove fd)
  obtain S' where S': "ospoll_remove fd S = Some S'" "poll_inv S'" "dom (poll_heap S) \<subseteq> dom (poll_heap S')" "polled S' = (polled S)(fd := None)"
    using assms(1) by (rule remove_ok)
  then show thesis using Remove by (intro that [of S']) auto
next
  case (Listen fd x)
  obtain S' where S': "change_events (\<lambda>y. y OR x) fd S = Some S'" "poll_inv S'" "dom (poll_heap S) \<subseteq> dom (poll_heap S')"
    "polled S' = (polled S)(fd := map_option (\<lambda>e. e\<lparr>osfd_xevents := osfd_xevents e OR x\<rparr>) (polled S fd))" using assms(1) by (rule change_ok)
  then show thesis using Listen by (intro that [of S']) (auto simp: ospoll_listen_def)
next
  case (Mute fd x)
  obtain S' where S': "change_events (\<lambda>y. y AND NOT x) fd S = Some S'" "poll_inv S'" "dom (poll_heap S) \<subseteq> dom (poll_heap S')"
    "polled S' = (polled S)(fd := map_option (\<lambda>e. e\<lparr>osfd_xevents := osfd_xevents e AND NOT x\<rparr>) (polled S fd))" using assms(1) by (rule change_ok)
  then show thesis using Mute by (intro that [of S']) (auto simp: ospoll_mute_def)
next
  case (Close fd)
  let ?S = "S\<lparr>epoll := (epoll S)(fd := None)\<rparr>"
  have "keys ?S = keys S" by (simp add: keys_def)
  then have "poll_inv ?S" using assms(1) by (auto simp: poll_inv_def split: if_splits)
  then show thesis using that [of ?S] Close by (simp add: polled_def)
qed

interpretation poll: data_refinement "\<lambda>S m. poll_inv S \<and> polled S = m" outcome_ok "\<lambda>l. do_op (fst l)" map_op
proof
  fix S :: "('a, 'b) ospoll" and m and l :: "('a, 'b) poll_op \<times> bool"
  assume a: "poll_inv S \<and> polled S = m" "outcome_ok l S"
  obtain op b where l: "l = (op, b)" by fastforce
  have "sane op" using a(2) l by (cases op) auto
  with a(1) obtain S' where "do_op op S = Some S'" "poll_inv S'" "\<And>b. outcome_ok (op, b) S \<Longrightarrow> polled S' = map_op (op, b) (polled S)"
    by (auto elim: do_op_ok)
  with a l show "\<exists>S'. do_op (fst l) S = Some S' \<and> poll_inv S' \<and> polled S' = map_op l m" by auto
qed

lemma created_inv: "ospoll_create True = Some S \<Longrightarrow> poll_inv S \<and> polled S = Map.empty"
  by (auto simp: ospoll_create_def poll_inv_def keys_def polled_def)

section \<open>Waiting is safe\<close>

lemma run_sane:
  assumes "poll_inv S" "\<forall>op\<in>set ops. sane op"
  obtains S' where "run_ops do_op ops S = Some S'" "poll_inv S'" "dom (poll_heap S) \<subseteq> dom (poll_heap S')"
  using assms
proof (induction ops arbitrary: S thesis)
  case (Cons op ops)
  obtain S1 where S1: "do_op op S = Some S1" "poll_inv S1" "dom (poll_heap S) \<subseteq> dom (poll_heap S1)"
    using Cons.prems(3) by (auto intro: do_op_ok [OF Cons.prems(2), of op])
  obtain S2 where "run_ops do_op ops S1 = Some S2" "poll_inv S2" "dom (poll_heap S1) \<subseteq> dom (poll_heap S2)"
    using Cons.IH [OF _ S1(2)] Cons.prems(3) by auto
  then show ?case using S1 Cons.prems(1) by auto
qed simp

text \<open>A call that is made for the entry the descriptor has at that moment.\<close>

definition current_call :: "('cb, 'd) poll_call \<Rightarrow> ('cb, 'd) ospoll \<Rightarrow> bool" where
  "current_call c S = (case c of (cb, fd, x, d) \<Rightarrow>
     (case polled S fd of None \<Rightarrow> False | Some e \<Rightarrow> osfd_callback e = Some cb \<and> osfd_data e = d))"

lemma entry_current:
  assumes "poll_inv S" "poll_heap S p = Some e" "osfd_callback e = Some cb"
  shows "current_call (cb, osfd_fd e, x, osfd_data e) S"
proof -
  have "p \<notin> set (poll_deleted S)" using assms by (auto simp: poll_inv_def)
  moreover have "p \<in> dom (poll_heap S)" using assms(2) by auto
  ultimately have "p \<in> set (poll_fds S)" using assms(1) by (simp add: poll_inv_def)
  then obtain us vs where "poll_fds S = us @ p # vs" by (meson split_list)
  then have "polled S (osfd_fd e) = Some e" using polled_present assms(1,2) by blast
  then show ?thesis using assms(3) by (simp add: current_call_def)
qed

lemma wait_loop_ok:
  assumes "poll_inv S" "\<forall>c. \<forall>op\<in>set (act c). sane op" "\<forall>ev\<in>set evs. fst ev \<in> dom (poll_heap S)"
  obtains cs S' where "wait_loop act evs S = Some (cs, S')" "poll_inv S'" "\<forall>(c, T)\<in>set cs. current_call c T"
  using assms
proof (induction evs arbitrary: S thesis)
  case (Cons ev evs)
  obtain p r where ev: "ev = (p, r)" by fastforce
  obtain e where e: "poll_heap S p = Some e" using Cons.prems(4) ev by auto
  show ?case
  proof (cases "osfd_callback e")
    case None
    then show ?thesis using Cons.IH [OF _ Cons.prems(2,3)] Cons.prems(1,4) ev e by auto
  next
    case (Some cb)
    let ?c = "(cb, osfd_fd e, revents_flags r, osfd_data e)"
    obtain S1 where S1: "run_ops do_op (act ?c) S = Some S1" "poll_inv S1" "dom (poll_heap S) \<subseteq> dom (poll_heap S1)"
      by (rule run_sane [OF Cons.prems(2), of "act ?c"]) (use Cons.prems(3) in auto)
    have "\<forall>ev\<in>set evs. fst ev \<in> dom (poll_heap S1)" using Cons.prems(4) S1(3) by (metis list.set_intros(2) subsetD)
    then obtain cs S' where S': "wait_loop act evs S1 = Some (cs, S')" "poll_inv S'" "\<forall>(c, T)\<in>set cs. current_call c T"
      using Cons.IH [OF _ S1(2) Cons.prems(3)] by blast
    have "wait_loop act (ev # evs) S = Some ((?c, S) # cs, S')" using ev e Some S1(1) S'(1) by simp
    then show ?thesis using Cons.prems(1) S' entry_current [OF Cons.prems(2) e Some] by auto
  qed
qed simp

lemma free_all_ok:
  "distinct ps \<Longrightarrow> set ps \<subseteq> dom h \<Longrightarrow> free_all ps h = Some (\<lambda>p. if p \<in> set ps then None else h p)"
proof (induction ps arbitrary: h)
  case (Cons p ps)
  then have "set ps \<subseteq> dom (h(p := None))" by auto
  with Cons show ?case by (auto simp: fun_eq_iff)
qed simp

lemma clean_ok:
  assumes "poll_inv S"
  obtains S' where "ospoll_clean_deleted S = Some S'" "poll_inv S'" "polled S' = polled S" "poll_deleted S' = []"
    and "dom (poll_heap S') = set (poll_fds S)"
proof -
  let ?h = "\<lambda>p. if p \<in> set (poll_deleted S) then None else poll_heap S p"
  let ?S = "S\<lparr>poll_heap := ?h, poll_deleted := []\<rparr>"
  have d: "distinct (poll_fds S @ poll_deleted S)" "dom (poll_heap S) = set (poll_fds S) \<union> set (poll_deleted S)"
    using assms by (simp_all add: poll_inv_def)
  then have c: "ospoll_clean_deleted S = Some ?S" by (simp add: ospoll_clean_deleted_def free_all_ok)
  have h: "\<forall>p\<in>set (poll_fds S). ?h p = poll_heap S p" using d(1) by auto
  have "entries (poll_heap ?S) (poll_fds ?S) = entries (poll_heap S) (poll_fds S)" using h by (simp add: entries_cong)
  then have k: "keys ?S = keys S" "polled ?S = polled S" by (simp_all add: keys_entries polled_def)
  have "dom ?h = dom (poll_heap S) - set (poll_deleted S)" by (auto split: if_splits)
  also have "\<dots> = set (poll_fds S)" using d by auto
  finally have dom: "dom ?h = set (poll_fds S)" .
  have "poll_inv ?S" unfolding poll_inv_def k(1) using assms dom h by (auto simp: poll_inv_def split: if_splits)
  then show thesis using that [OF c] k(2) dom by simp
qed

lemma destroy_frees_all:
  assumes "poll_inv S" "poll_fds S = []"
  shows "ospoll_destroy S = Some Map.empty"
proof -
  obtain S' where "ospoll_clean_deleted S = Some S'" "dom (poll_heap S') = set (poll_fds S)" using assms(1) by (rule clean_ok)
  then show ?thesis using assms(2) by (simp add: ospoll_destroy_def)
qed

section \<open>Properties\<close>

text \<open>
  C14. The set of polled descriptors is a map from descriptors to entries: from an empty set on, through any sequence of additions,
  removals, changes of the awaited events and closed descriptors, and whatever the allocator and the kernel answer, no operation
  reads outside the array or a freed entry, and what each descriptor is polled for and calls is what the map says. The
  binary search and the sorted array are not visible.
\<close>

theorem poll_set_is_map:
  assumes "ospoll_create True = Some S" "run_ok outcome_ok (\<lambda>l. do_op (fst l)) ops S"
  shows "\<exists>S'. run_ops (\<lambda>l. do_op (fst l)) ops S = Some S' \<and> polled S' = fold map_op ops Map.empty \<and>
    (\<forall>fd. ospoll_data fd S' = Some (Option.bind (polled S' fd) osfd_data))"
proof -
  have "poll_inv S \<and> polled S = Map.empty" using assms(1) by (rule created_inv)
  from poll.run_refines [OF this assms(2)] obtain S' where S': "run_ops (\<lambda>l. do_op (fst l)) ops S = Some S'"
    "poll_inv S'" "polled S' = fold map_op ops Map.empty" by auto
  have "ospoll_data fd S' = Some (Option.bind (polled S' fd) osfd_data)" for fd
  proof (cases "fd \<in> set (keys S')")
    case True
    with S'(2) obtain us p vs e where f: "poll_fds S' = us @ p # vs" "ospoll_find S' fd = Some (int (length us))"
      "poll_heap S' p = Some e" "osfd_fd e = fd" by (rule find_present)
    then show ?thesis using polled_present [OF S'(2) f(1,3)] by (simp add: ospoll_data_def)
  next
    case False
    then show ?thesis using S'(2) polled_absent [of S' fd] by (simp add: ospoll_data_def find_found)
  qed
  with S' show ?thesis by blast
qed

text \<open>
  C16. Handing out events never touches a freed entry: whatever the callbacks do with the set while the events of one wait are handed out
  (add, change, remove and close descriptors, their own or others), the round ends, every call goes to the function and data its
  descriptor has at that moment and none to a removed one, and afterwards exactly the entries of the array are allocated.
\<close>

theorem poll_wait_safe:
  assumes "poll_inv S" "\<forall>c. \<forall>op\<in>set (act c). sane op" "\<forall>ev\<in>set evs. \<exists>fd x. epoll S fd = Some (x, fst ev)"
  shows "\<exists>cs S'. ospoll_wait act evs S = Some (cs, S') \<and> poll_inv S' \<and> (\<forall>(c, T)\<in>set cs. current_call c T) \<and>
    dom (poll_heap S') = set (poll_fds S')"
proof -
  have "\<forall>ev\<in>set evs. fst ev \<in> dom (poll_heap S)" using assms(1,3) by (fastforce simp: poll_inv_def)
  from wait_loop_ok [OF assms(1,2) this] obtain cs S1 where S1: "wait_loop act evs S = Some (cs, S1)" "poll_inv S1"
    "\<forall>(c, T)\<in>set cs. current_call c T" by metis
  obtain S' where S': "ospoll_clean_deleted S1 = Some S'" "poll_inv S'" "dom (poll_heap S') = set (poll_fds S1)"
    using S1(2) by (rule clean_ok)
  have "poll_fds S' = poll_fds S1" using S'(1) by (auto simp: ospoll_clean_deleted_def)
  with S1 S' show ?thesis by (auto simp: ospoll_wait_def)
qed

text \<open>Two descriptors are polled, the second one inserted before the first.\<close>

definition sample_world :: poll_world where
  "sample_world = \<lparr>new_osfd = (\<lambda>ps. Some (Suc (sum_list ps))), can_grow = True, can_add = True\<rparr>"

lemma sample_good: "good_world sample_world"
  unfolding good_world_def
proof (intro allI impI)
  fix ps p assume "new_osfd sample_world ps = Some p"
  then have "p = Suc (sum_list ps)" by (simp add: sample_world_def)
  then show "p \<notin> set ps" using member_le_sum_list [of p ps] by auto
qed

definition sample_adds :: "((nat, nat) poll_op \<times> bool) list" where
  "sample_adds = [(Add sample_world 5 False 1 (Some 7), True), (Add sample_world 3 False 2 (Some 8), True)]"

lemma sample_adds_run:
  "run_ops (\<lambda>l. do_op (fst l)) sample_adds (the (ospoll_create True)) =
     Some \<lparr>poll_fds = [2, 1], poll_size = 4096,
       poll_heap = [1 \<mapsto> \<lparr>osfd_fd = 5, osfd_xevents = 0, osfd_edge = False, osfd_callback = Some 1, osfd_data = Some 7\<rparr>,
         2 \<mapsto> \<lparr>osfd_fd = 3, osfd_xevents = 0, osfd_edge = False, osfd_callback = Some 2, osfd_data = Some 8\<rparr>],
       poll_deleted = [], epoll = [5 \<mapsto> (0, 1), 3 \<mapsto> (0, 2)]\<rparr>"
  by (simp add: sample_adds_def sample_world_def ospoll_create_def ospoll_add_def ospoll_find_def ospoll_find_loop.simps grow_def
      set_callback_def array_insert_def MAXCLIENTS_def Let_def rd_def fun_upd_twist numeral_2_eq_2)

theorem poll_set_is_map_witness:
  "\<exists>S'. run_ops (\<lambda>l. do_op (fst l)) sample_adds (the (ospoll_create True)) = Some S' \<and> ospoll_data 3 S' = Some (Some 8)"
proof -
  have c: "ospoll_create True = Some (the (ospoll_create True))" by (simp add: ospoll_create_def)
  have ok: "run_ok outcome_ok (\<lambda>l. do_op (fst l)) sample_adds (the (ospoll_create True))"
    using sample_good
    by (simp add: sample_adds_def) (auto simp: sample_world_def ospoll_create_def ospoll_add_def ospoll_find_def ospoll_find_loop.simps grow_def
      set_callback_def array_insert_def MAXCLIENTS_def Let_def rd_def)
  from poll_set_is_map [OF c ok] show ?thesis
    by (auto simp: sample_adds_def entry_for_def)
qed

text \<open>Both become ready together, and the callback of the first one removes the other.\<close>

theorem poll_wait_safe_witness:
  "\<exists>S cs S'. run_ops (\<lambda>l. do_op (fst l)) sample_adds (the (ospoll_create True)) = Some S \<and>
     ospoll_wait (\<lambda>c. if fst c = 2 then [Remove 5] else []) [(2, 1), (1, 1)] S = Some (cs, S') \<and>
     map fst cs = [(2, 3, 1, Some 8)] \<and> dom (poll_heap S') = {2}"
proof -
  let ?S = "the (run_ops (\<lambda>l. do_op (fst l)) sample_adds (the (ospoll_create True)))"
  let ?act = "\<lambda>c :: (nat, nat) poll_call. if fst c = 2 then [Remove 5] else []"
  have "poll_inv ?S" unfolding sample_adds_run by (auto simp: poll_inv_def keys_def split: if_splits)
  moreover have "\<forall>c. \<forall>op\<in>set (?act c). sane op" by simp
  moreover have "\<forall>ev\<in>set [(2, 1 :: u32), (1, 1)]. \<exists>fd x. epoll ?S fd = Some (x, fst ev)" unfolding sample_adds_run
    by (auto intro: exI [of _ 3] exI [of _ 5])
  ultimately obtain cs S' where w: "ospoll_wait ?act [(2, 1), (1, 1)] ?S = Some (cs, S')" "dom (poll_heap S') = set (poll_fds S')"
    using poll_wait_safe [of ?S ?act "[(2, 1), (1, 1)]"] by auto
  then have "map fst cs = [(2, 3, 1, Some 8)] \<and> poll_fds S' = [2]" unfolding sample_adds_run
    by (auto simp: ospoll_wait_def ospoll_clean_deleted_def ospoll_remove_def ospoll_find_def ospoll_find_loop.simps array_delete_def Let_def
        rd_def revents_flags_def EPOLLIN_def EPOLLOUT_def X_NOTIFY_READ_def X_NOTIFY_WRITE_def X_NOTIFY_ERROR_def)
  with w show ?thesis using sample_adds_run by auto
qed

end
