(* ===== verification/Os_Input_Thread.thy ===== *)
theory Os_Input_Thread
  imports Os_Poll
begin

text \<open>
  The input thread of the X server (\<^verbatim>\<open>xserver/os/inputthread.c\<close>) with the set of polled descriptors of \<^verbatim>\<open>Os_Poll\<close>: the server registers the socket
  of the activity as an input device, the thread polls it and calls \<^verbatim>\<open>handleLorieEvents\<close> of \<^verbatim>\<open>lorie/cmdentrypoint.c\<close>, and that function
  unregisters and closes the socket when it reports an error.
\<close>

section \<open>State\<close>

datatype InputDeviceState = device_state_added | device_state_running | device_state_removed

record 'p InputThreadDevice =
  readInputProc :: 'p
  dev_fd :: int
  dev_state :: InputDeviceState

datatype poll_callback = InputReady | InputThreadPipeNotify

text \<open>The thread is about to look for changes, is in or on its way into the wait, or has these callbacks left to call.\<close>

datatype thread_pc = Checking | Waiting | Calling "(poll_callback, nat) poll_call list"

text \<open>\<open>devs\<close> is the list of devices, \<open>dev_heap\<close> the allocated ones. \<open>hotplug_bytes\<close> are the bytes in the pipe that wakes the thread, \<open>fills\<close> the
  registering calls that have released the lock and not yet written their byte. \<open>registered\<close> records the descriptors for which a device
  was made, \<open>proc_calls\<close> the calls of their procedures, \<open>closed\<close> the descriptors these closed.\<close>

record 'p InputThreadInfo =
  devs :: "nat list"
  dev_heap :: "nat \<rightharpoonup> 'p InputThreadDevice"
  fds :: "(poll_callback, nat) ospoll"
  hotplugPipeRead :: int
  changed :: bool
  it_running :: bool
  hotplug_bytes :: nat
  fills :: nat
  thread_pc :: thread_pc
  registered :: "int list"
  proc_calls :: "('p \<times> int \<times> u32) list"
  closed :: "int list"

section \<open>Registering\<close>

text \<open>The first device of the list with a property; \<open>None\<close> is a freed device in the list.\<close>

fun find_dev :: "('p InputThreadDevice \<Rightarrow> bool) \<Rightarrow> (nat \<rightharpoonup> 'p InputThreadDevice) \<Rightarrow> nat list \<Rightarrow> nat option option" where
  "find_dev P h [] = Some None"
| "find_dev P h (a # as) = Option.bind (h a) (\<lambda>d. if P d then Some (Some a) else find_dev P h as)"

definition update_dev :: "('p InputThreadDevice \<Rightarrow> 'p InputThreadDevice) \<Rightarrow> nat \<Rightarrow> 'p InputThreadInfo \<Rightarrow> 'p InputThreadInfo option" where
  "update_dev f a S = map_option (\<lambda>d. S\<lparr>dev_heap := (dev_heap S)(a \<mapsto> f d)\<rparr>) (dev_heap S a)"

definition mark_changed :: "'p InputThreadInfo \<Rightarrow> 'p InputThreadInfo" where
  "mark_changed S = S\<lparr>changed := True, fills := fills S + 1\<rparr>"

text \<open>\<open>alloc\<close> gives the address of the new device, given the ones in use.\<close>

definition InputThreadRegisterDev :: "(nat list \<Rightarrow> nat option) \<Rightarrow> int \<Rightarrow> 'p \<Rightarrow> 'p InputThreadInfo \<Rightarrow> (int \<times> 'p InputThreadInfo) option" where
  "InputThreadRegisterDev alloc fd proc S =
     Option.bind (find_dev (\<lambda>d. dev_fd d = fd \<and> dev_state d \<noteq> device_state_removed) (dev_heap S) (devs S)) (\<lambda>r.
       case r of
         Some a \<Rightarrow> map_option (\<lambda>S1. (1, mark_changed S1)) (update_dev (\<lambda>d. d\<lparr>readInputProc := proc\<rparr>) a S)
       | None \<Rightarrow>
           (case alloc (devs S) of
              None \<Rightarrow> Some (0, S)
            | Some a \<Rightarrow> Some (1, mark_changed (S\<lparr>dev_heap := (dev_heap S)(a \<mapsto> \<lparr>readInputProc = proc, dev_fd = fd, dev_state = device_state_added\<rparr>),
                devs := devs S @ [a], registered := registered S @ [fd]\<rparr>))))"

definition InputThreadUnregisterDev :: "int \<Rightarrow> 'p InputThreadInfo \<Rightarrow> (int \<times> 'p InputThreadInfo) option" where
  "InputThreadUnregisterDev fd S =
     Option.bind (find_dev (\<lambda>d. dev_fd d = fd) (dev_heap S) (devs S)) (\<lambda>r.
       case r of
         None \<Rightarrow> Some (0, S)
       | Some a \<Rightarrow> map_option (\<lambda>S1. (1, mark_changed S1)) (update_dev (\<lambda>d. d\<lparr>dev_state := device_state_removed\<rparr>) a S))"

text \<open>The byte a registering call writes after it has released the lock.\<close>

definition InputThreadFillPipe :: "'p InputThreadInfo \<Rightarrow> 'p InputThreadInfo" where
  "InputThreadFillPipe S = S\<lparr>fills := fills S - 1, hotplug_bytes := hotplug_bytes S + 1\<rparr>"

section \<open>The thread\<close>

text \<open>The loop over the devices after a change. The result of \<^verbatim>\<open>ospoll_add\<close> is not looked at.\<close>

fun update_loop :: "(int \<Rightarrow> poll_world) \<Rightarrow> nat list \<Rightarrow> 'p InputThreadInfo \<Rightarrow> 'p InputThreadInfo option" where
  "update_loop W [] S = Some S"
| "update_loop W (a # as) S =
     Option.bind (dev_heap S a) (\<lambda>d.
       case dev_state d of
         device_state_added \<Rightarrow>
           Option.bind (ospoll_add (W (dev_fd d)) (dev_fd d) False InputReady (Some a) (fds S)) (\<lambda>(b, P).
             Option.bind (ospoll_listen (dev_fd d) X_NOTIFY_READ P) (\<lambda>P'.
               update_loop W as (S\<lparr>fds := P', dev_heap := (dev_heap S)(a \<mapsto> d\<lparr>dev_state := device_state_running\<rparr>)\<rparr>)))
       | device_state_running \<Rightarrow> update_loop W as S
       | device_state_removed \<Rightarrow>
           Option.bind (ospoll_remove (dev_fd d) (fds S)) (\<lambda>P.
             update_loop W as (S\<lparr>fds := P, devs := remove1 a (devs S), dev_heap := (dev_heap S)(a := None)\<rparr>)))"

text \<open>The part of the thread's loop before the wait.\<close>

definition check_changes :: "(int \<Rightarrow> poll_world) \<Rightarrow> 'p InputThreadInfo \<Rightarrow> 'p InputThreadInfo option" where
  "check_changes W S =
     (if changed S then map_option (\<lambda>S'. S'\<lparr>thread_pc := Waiting\<rparr>) (update_loop W (devs S) (S\<lparr>changed := False\<rparr>))
      else Some (S\<lparr>thread_pc := Waiting\<rparr>))"

text \<open>What a procedure does with the thread: unregister and close descriptors.\<close>

datatype proc_op = Unregister int | CloseFd int

fun do_proc_op :: "proc_op \<Rightarrow> 'p InputThreadInfo \<Rightarrow> 'p InputThreadInfo option" where
  "do_proc_op (Unregister fd) S = map_option (\<lambda>(r, S'). if r = 1 then InputThreadFillPipe S' else S') (InputThreadUnregisterDev fd S)"
| "do_proc_op (CloseFd fd) S = Some (S\<lparr>fds := (fds S)\<lparr>epoll := (epoll (fds S))(fd := None)\<rparr>, closed := closed S @ [fd]\<rparr>)"

text \<open>\<^verbatim>\<open>InputReady\<close>, and \<^verbatim>\<open>InputThreadPipeNotify\<close>, which reads at most the 40 bytes of its array and stops the thread when the pipe was closed.\<close>

definition call_back :: "('p \<Rightarrow> int \<Rightarrow> u32 \<Rightarrow> proc_op list) \<Rightarrow> bool \<Rightarrow> (poll_callback, nat) poll_call \<Rightarrow> 'p InputThreadInfo \<Rightarrow> 'p InputThreadInfo option" where
  "call_back react pipe_closed c S =
     (case c of
        (InputThreadPipeNotify, fd, x, d) \<Rightarrow>
          Some (S\<lparr>hotplug_bytes := hotplug_bytes S - 40, it_running := (it_running S \<and> \<not> (pipe_closed \<and> hotplug_bytes S = 0))\<rparr>)
      | (InputReady, fd, x, d) \<Rightarrow>
          Option.bind d (\<lambda>a. Option.bind (dev_heap S a) (\<lambda>dev.
            if dev_state dev = device_state_running
            then run_ops do_proc_op (react (readInputProc dev) fd x) (S\<lparr>proc_calls := proc_calls S @ [(readInputProc dev, fd, x)]\<rparr>)
            else Some S)))"

text \<open>The wait ends with the events \<open>evs\<close>. The callbacks of this thread do not change the set, so what they are called with is fixed here; they
  are called one by one, and the server thread may register and unregister devices in between.\<close>

definition thread_wakes :: "(nat \<times> u32) list \<Rightarrow> 'p InputThreadInfo \<Rightarrow> 'p InputThreadInfo option" where
  "thread_wakes evs S = map_option (\<lambda>(cs, P). S\<lparr>fds := P, thread_pc := Calling (map fst cs)\<rparr>) (ospoll_wait (\<lambda>c. []) evs (fds S))"

text \<open>The reaction of \<^verbatim>\<open>handleLorieEvents\<close>: on an error the socket is unregistered and closed.\<close>

definition lorie_react :: "'p \<Rightarrow> int \<Rightarrow> u32 \<Rightarrow> proc_op list" where
  "lorie_react p fd ready = (if ready AND X_NOTIFY_ERROR \<noteq> 0 then [Unregister fd, CloseFd fd] else [])"

text \<open>\<^verbatim>\<open>InputThreadPreInit\<close> and the start of \<^verbatim>\<open>InputThreadDoWork\<close>.\<close>

definition InputThreadStart :: "poll_world \<Rightarrow> int \<Rightarrow> 'p InputThreadInfo option" where
  "InputThreadStart W pipe_fd =
     Option.bind (ospoll_create True) (\<lambda>P.
       Option.bind (ospoll_add W pipe_fd False InputThreadPipeNotify None P) (\<lambda>(b, P1).
         map_option (\<lambda>P2. \<lparr>devs = [], dev_heap = Map.empty, fds = P2, hotplugPipeRead = pipe_fd, changed = False, it_running = True,
             hotplug_bytes = 0, fills = 0, thread_pc = Checking, registered = [], proc_calls = [], closed = []\<rparr>)
           (ospoll_listen pipe_fd X_NOTIFY_READ P1)))"

text \<open>The steps of the server thread, which holds the lock while it registers, and of the input thread. The server does not register the pipe of the
  thread, allocators do not hand out an address in use, and there is room for new entries.\<close>

inductive it_step :: "'p InputThreadInfo \<Rightarrow> 'p InputThreadInfo \<Rightarrow> bool" where
  registers: "InputThreadRegisterDev alloc fd p S = Some (r, S') \<Longrightarrow> fd \<noteq> hotplugPipeRead S \<Longrightarrow>
    \<forall>as a. alloc as = Some a \<longrightarrow> a \<notin> set as \<Longrightarrow> it_step S S'"
| unregisters: "InputThreadUnregisterDev fd S = Some (r, S') \<Longrightarrow> it_step S S'"
| fills_pipe: "0 < fills S \<Longrightarrow> it_step S (InputThreadFillPipe S)"
| checks: "thread_pc S = Checking \<Longrightarrow> check_changes W S = Some S' \<Longrightarrow> \<forall>fd. generous (W fd) \<Longrightarrow> it_step S S'"
| wakes: "thread_pc S = Waiting \<Longrightarrow> \<forall>ev\<in>set evs. \<exists>fd x. epoll (fds S) fd = Some (x, fst ev) \<Longrightarrow> thread_wakes evs S = Some S' \<Longrightarrow> it_step S S'"
| calls: "thread_pc S = Calling (c # cs) \<Longrightarrow> call_back lorie_react closing c (S\<lparr>thread_pc := Calling cs\<rparr>) = Some S' \<Longrightarrow> it_step S S'"
| called: "thread_pc S = Calling [] \<Longrightarrow> it_step S (S\<lparr>thread_pc := Checking\<rparr>)"

inductive_cases it_stepE: "it_step S S'"

section \<open>Invariant\<close>

abbreviation dev :: "'p InputThreadInfo \<Rightarrow> nat \<Rightarrow> 'p InputThreadDevice" where
  "dev S a \<equiv> the (dev_heap S a)"

text \<open>Of two devices with one descriptor the earlier is removed and the later does not run.\<close>

definition devs_ok :: "'p InputThreadInfo \<Rightarrow> bool" where
  "devs_ok S \<longleftrightarrow> distinct (devs S) \<and> dom (dev_heap S) = set (devs S) \<and>
     sorted_wrt (\<lambda>a b. dev_fd (dev S a) = dev_fd (dev S b) \<longrightarrow>
       dev_state (dev S a) = device_state_removed \<and> dev_state (dev S b) \<noteq> device_state_running) (devs S) \<and>
     (\<forall>a\<in>set (devs S). dev_fd (dev S a) \<noteq> hotplugPipeRead S)"

text \<open>A polled descriptor is the pipe or that of a device in the list; a running device is polled.\<close>

definition entry_ok :: "'p InputThreadInfo \<Rightarrow> int \<Rightarrow> (poll_callback, nat) ospollfd \<Rightarrow> bool" where
  "entry_ok S fd e \<longleftrightarrow>
     (if fd = hotplugPipeRead S then osfd_callback e = Some InputThreadPipeNotify
      else \<exists>a\<in>set (devs S). osfd_callback e = Some InputReady \<and> osfd_data e = Some a \<and> dev_fd (dev S a) = fd \<and>
        dev_state (dev S a) \<noteq> device_state_added)"

definition polled_ok :: "'p InputThreadInfo \<Rightarrow> bool" where
  "polled_ok S \<longleftrightarrow> poll_inv (fds S) \<and> polled (fds S) (hotplugPipeRead S) \<noteq> None \<and>
     (\<forall>fd e. polled (fds S) fd = Some e \<longrightarrow> entry_ok S fd e) \<and>
     (\<forall>a\<in>set (devs S). dev_state (dev S a) = device_state_running \<longrightarrow> map_option osfd_data (polled (fds S) (dev_fd (dev S a))) = Some (Some a))"

definition call_ok :: "'p InputThreadInfo \<Rightarrow> (poll_callback, nat) poll_call \<Rightarrow> bool" where
  "call_ok S c = (case c of (cb, fd, x, d) \<Rightarrow>
     cb = InputThreadPipeNotify \<or> (\<exists>a\<in>set (devs S). d = Some a \<and> dev_fd (dev S a) = fd))"

definition calls_ok :: "'p InputThreadInfo \<Rightarrow> bool" where
  "calls_ok S = (case thread_pc S of Calling cs \<Rightarrow> list_all (call_ok S) cs | _ \<Rightarrow> True)"

definition wake_ok :: "'p InputThreadInfo \<Rightarrow> bool" where
  "wake_ok S \<longleftrightarrow> (changed S \<and> thread_pc S = Waiting \<longrightarrow> 0 < fills S \<or> 0 < hotplug_bytes S)"

text \<open>Each close of a descriptor uses up a device that was made for it.\<close>

definition live :: "'p InputThreadInfo \<Rightarrow> int \<Rightarrow> nat" where
  "live S fd = length (filter (\<lambda>a. dev_fd (dev S a) = fd \<and> dev_state (dev S a) \<noteq> device_state_removed) (devs S))"

definition closes_ok :: "'p InputThreadInfo \<Rightarrow> bool" where
  "closes_ok S \<longleftrightarrow> (\<forall>fd. count_list (closed S) fd + live S fd \<le> count_list (registered S) fd)"

definition it_inv :: "'p InputThreadInfo \<Rightarrow> bool" where
  "it_inv S \<longleftrightarrow> devs_ok S \<and> polled_ok S \<and> calls_ok S \<and> wake_ok S \<and> closes_ok S"

lemma length_filter_mono: "(\<And>x. x \<in> set xs \<Longrightarrow> Q x \<Longrightarrow> P x) \<Longrightarrow> length (filter Q xs) \<le> length (filter P xs)"
  by (induction xs) (auto simp: le_SucI)

lemma find_dev_found:
  assumes "set as \<subseteq> dom h"
  shows "find_dev P h as = Some (find (\<lambda>a. P (the (h a))) as)"
  using assms by (induction as) auto

section \<open>Registering keeps the invariant\<close>

text \<open>The state of a device changes to removed, or its procedure changes.\<close>

definition dev_weaker :: "'p InputThreadDevice \<Rightarrow> 'p InputThreadDevice \<Rightarrow> bool" where
  "dev_weaker d d' \<longleftrightarrow> dev_fd d' = dev_fd d \<and> (dev_state d' = dev_state d \<or> dev_state d' = device_state_removed)"

lemma weaken_dev:
  assumes "devs_ok S" "dev_heap S a = Some d" "dev_weaker d d'"
    and S': "S' = S\<lparr>dev_heap := (dev_heap S)(a \<mapsto> d')\<rparr>"
  shows "devs_ok S'" "polled_ok S \<Longrightarrow> polled_ok S'" "calls_ok S \<Longrightarrow> calls_ok S'" "live S' fd \<le> live S fd"
proof -
  have f: "dev_fd (dev S' b) = dev_fd (dev S b)" "dev_state (dev S' b) = dev_state (dev S b) \<or> dev_state (dev S' b) = device_state_removed" for b
    using assms(2,3) by (auto simp: S' dev_weaker_def)
  have same: "devs S' = devs S" "hotplugPipeRead S' = hotplugPipeRead S" "fds S' = fds S" "thread_pc S' = thread_pc S" by (simp_all add: S')
  have "sorted_wrt (\<lambda>a b. dev_fd (dev S' a) = dev_fd (dev S' b) \<longrightarrow>
       dev_state (dev S' a) = device_state_removed \<and> dev_state (dev S' b) \<noteq> device_state_running) (devs S)"
  proof (rule sorted_wrt_mono_rel [rotated])
    show "sorted_wrt (\<lambda>a b. dev_fd (dev S a) = dev_fd (dev S b) \<longrightarrow>
       dev_state (dev S a) = device_state_removed \<and> dev_state (dev S b) \<noteq> device_state_running) (devs S)"
      using assms(1) by (simp add: devs_ok_def)
  qed (use f in \<open>metis InputDeviceState.distinct\<close>)
  moreover have "dom (dev_heap S') = dom (dev_heap S)" using assms(2) by (auto simp: S')
  ultimately show "devs_ok S'" using assms(1) f(1) by (simp add: devs_ok_def same)
  show "polled_ok S'" if "polled_ok S"
  proof -
    have "entry_ok S' fd e" if "entry_ok S fd e" for fd e
      using that f unfolding entry_ok_def same by (metis InputDeviceState.distinct(3))
    moreover have "dev_state (dev S a) = device_state_running" if "dev_state (dev S' a) = device_state_running" for a
      using that f(2) [of a] by auto
    ultimately show ?thesis using \<open>polled_ok S\<close> f(1) unfolding polled_ok_def same by metis
  qed
  show "calls_ok S'" if "calls_ok S"
    using that f(1) by (auto simp: calls_ok_def same call_ok_def list_all_iff split: thread_pc.splits)
  show "live S' fd \<le> live S fd" unfolding live_def same
    by (rule length_filter_mono) (use f in \<open>metis InputDeviceState.distinct\<close>)
qed

lemma append_dev:
  assumes "devs_ok S" "a \<notin> set (devs S)" "fd \<noteq> hotplugPipeRead S"
    and "\<forall>b\<in>set (devs S). dev_fd (dev S b) = fd \<longrightarrow> dev_state (dev S b) = device_state_removed"
    and S': "S' = S\<lparr>dev_heap := (dev_heap S)(a \<mapsto> \<lparr>readInputProc = p, dev_fd = fd, dev_state = device_state_added\<rparr>), devs := devs S @ [a],
      registered := registered S @ [fd]\<rparr>"
  shows "devs_ok S'" "polled_ok S \<Longrightarrow> polled_ok S'" "calls_ok S \<Longrightarrow> calls_ok S'" "closes_ok S \<Longrightarrow> closes_ok S'"
proof -
  have old: "dev S' b = dev S b" if "b \<in> set (devs S)" for b using that assms(2) by (auto simp: S')
  have new: "dev S' a = \<lparr>readInputProc = p, dev_fd = fd, dev_state = device_state_added\<rparr>" by (simp add: S')
  have same: "devs S' = devs S @ [a]" "hotplugPipeRead S' = hotplugPipeRead S" "fds S' = fds S" "thread_pc S' = thread_pc S"
    "closed S' = closed S" "registered S' = registered S @ [fd]" by (simp_all add: S')
  have "sorted_wrt (\<lambda>a b. dev_fd (dev S' a) = dev_fd (dev S' b) \<longrightarrow>
       dev_state (dev S' a) = device_state_removed \<and> dev_state (dev S' b) \<noteq> device_state_running) (devs S)"
  proof (rule sorted_wrt_mono_rel [rotated])
    show "sorted_wrt (\<lambda>a b. dev_fd (dev S a) = dev_fd (dev S b) \<longrightarrow>
       dev_state (dev S a) = device_state_removed \<and> dev_state (dev S b) \<noteq> device_state_running) (devs S)"
      using assms(1) by (simp add: devs_ok_def)
  qed (use old in simp)
  then have "sorted_wrt (\<lambda>a b. dev_fd (dev S' a) = dev_fd (dev S' b) \<longrightarrow>
       dev_state (dev S' a) = device_state_removed \<and> dev_state (dev S' b) \<noteq> device_state_running) (devs S')"
    using assms(4) old new by (simp add: same sorted_wrt_append)
  moreover have "dom (dev_heap S') = set (devs S')" using assms(1) by (auto simp: S' devs_ok_def)
  moreover have "\<forall>b\<in>set (devs S'). dev_fd (dev S' b) \<noteq> hotplugPipeRead S'" using assms(1,3) old new by (auto simp: same devs_ok_def)
  ultimately show "devs_ok S'" using assms(1,2) unfolding devs_ok_def by (simp add: same)
  show "polled_ok S'" if "polled_ok S"
  proof -
    have "entry_ok S' fd' e" if "entry_ok S fd' e" for fd' e
      using that old unfolding entry_ok_def same by (metis UnI1 set_append)
    then show ?thesis using \<open>polled_ok S\<close> old new unfolding polled_ok_def same by (auto simp: same)
  qed
  show "calls_ok S'" if "calls_ok S"
    using that old by (fastforce simp: calls_ok_def same call_ok_def list_all_iff split: thread_pc.splits)
  have f: "filter (\<lambda>b. dev_fd (dev S' b) = k \<and> dev_state (dev S' b) \<noteq> device_state_removed) (devs S) =
    filter (\<lambda>b. dev_fd (dev S b) = k \<and> dev_state (dev S b) \<noteq> device_state_removed) (devs S)" for k
    using old by (intro filter_cong) simp_all
  have "live S' k = live S k + (if k = fd then 1 else 0)" for k using f [of k] new by (simp add: live_def same)
  then show "closes_ok S'" if "closes_ok S" using that by (simp add: closes_ok_def same)
qed

text \<open>The parts of the invariant read these fields only.\<close>

lemma same_parts:
  assumes "devs S' = devs S" "dev_heap S' = dev_heap S" "hotplugPipeRead S' = hotplugPipeRead S"
  shows "devs_ok S' = devs_ok S" "call_ok S' c = call_ok S c" "live S' fd = live S fd" "fds S' = fds S \<Longrightarrow> polled_ok S' = polled_ok S"
    "thread_pc S' = thread_pc S \<Longrightarrow> calls_ok S' = calls_ok S" "closed S' = closed S \<Longrightarrow> registered S' = registered S \<Longrightarrow> closes_ok S' = closes_ok S"
proof -
  show c: "call_ok S' c = call_ok S c" for c by (simp add: call_ok_def assms)
  then show "thread_pc S' = thread_pc S \<Longrightarrow> calls_ok S' = calls_ok S" by (simp add: calls_ok_def list_all_iff split: thread_pc.split)
  show l: "live S' fd = live S fd" for fd by (simp add: live_def assms)
  then show "closed S' = closed S \<Longrightarrow> registered S' = registered S \<Longrightarrow> closes_ok S' = closes_ok S" by (simp add: closes_ok_def)
qed (simp_all add: devs_ok_def polled_ok_def entry_ok_def assms)

lemma mark_changed_ok:
  "devs_ok (mark_changed S) = devs_ok S" "polled_ok (mark_changed S) = polled_ok S" "calls_ok (mark_changed S) = calls_ok S"
  "wake_ok (mark_changed S)" "closes_ok (mark_changed S) = closes_ok S" "live (mark_changed S) fd = live S fd"
  by (intro same_parts; simp add: mark_changed_def) (intro same_parts; simp add: mark_changed_def | simp add: mark_changed_def wake_ok_def)+

lemma register_inv:
  assumes "it_inv S" "InputThreadRegisterDev alloc fd p S = Some (r, S')" "fd \<noteq> hotplugPipeRead S" "\<forall>as a. alloc as = Some a \<longrightarrow> a \<notin> set as"
  shows "it_inv S'"
proof -
  note ok = assms(1) [unfolded it_inv_def]
  have dom: "set (devs S) \<subseteq> dom (dev_heap S)" using ok by (simp add: devs_ok_def)
  let ?P = "\<lambda>d :: 'a InputThreadDevice. dev_fd d = fd \<and> dev_state d \<noteq> device_state_removed"
  show ?thesis
  proof (cases "find (\<lambda>a. ?P (dev S a)) (devs S)")
    case None
    then have n: "\<forall>b\<in>set (devs S). dev_fd (dev S b) = fd \<longrightarrow> dev_state (dev S b) = device_state_removed" by (simp add: find_None_iff)
    show ?thesis
    proof (cases "alloc (devs S)")
      case None': None
      then show ?thesis using assms(1,2) None by (simp add: InputThreadRegisterDev_def find_dev_found [OF dom])
    next
      case (Some a)
      let ?S = "S\<lparr>dev_heap := (dev_heap S)(a \<mapsto> \<lparr>readInputProc = p, dev_fd = fd, dev_state = device_state_added\<rparr>), devs := devs S @ [a],
        registered := registered S @ [fd]\<rparr>"
      have S': "S' = mark_changed ?S" using assms(2) None Some by (simp add: InputThreadRegisterDev_def find_dev_found [OF dom])
      have "a \<notin> set (devs S)" using assms(4) Some by blast
      from append_dev [OF _ this assms(3) n refl] ok show ?thesis unfolding S' by (simp add: it_inv_def mark_changed_ok)
    qed
  next
    case (Some a)
    then have a: "a \<in> set (devs S)" using find_Some_in by fastforce
    then obtain d where d: "dev_heap S a = Some d" using dom by blast
    let ?S = "S\<lparr>dev_heap := (dev_heap S)(a \<mapsto> d\<lparr>readInputProc := p\<rparr>)\<rparr>"
    have S': "S' = mark_changed ?S" using assms(2) Some d by (simp add: InputThreadRegisterDev_def find_dev_found [OF dom] update_dev_def)
    have "dev_weaker d (d\<lparr>readInputProc := p\<rparr>)" by (simp add: dev_weaker_def)
    note w = weaken_dev [OF _ d this refl]
    have "closes_ok ?S" using w(4) ok by (fastforce simp: closes_ok_def intro: order_trans [rotated])
    then show ?thesis using w(1-3) ok unfolding S' by (simp add: it_inv_def mark_changed_ok)
  qed
qed

lemma it_inv_same:
  assumes "it_inv S" "devs S' = devs S" "dev_heap S' = dev_heap S" "hotplugPipeRead S' = hotplugPipeRead S" "fds S' = fds S"
    "thread_pc S' = thread_pc S" "closed S' = closed S" "registered S' = registered S" "wake_ok S'"
  shows "it_inv S'"
  using assms by (simp add: it_inv_def same_parts [of S' S])

text \<open>A running device is the first one with its descriptor.\<close>

lemma running_first:
  assumes "devs_ok S" "a \<in> set (devs S)" "dev_state (dev S a) = device_state_running"
  shows "find (\<lambda>b. dev_fd (dev S b) = dev_fd (dev S a)) (devs S) = Some a"
proof -
  obtain us vs where d: "devs S = us @ a # vs" using assms(2) by (meson split_list)
  then have "\<forall>b\<in>set us. dev_fd (dev S b) \<noteq> dev_fd (dev S a)" using assms(1,3) by (auto simp: devs_ok_def sorted_wrt_append)
  then show ?thesis unfolding d by (induction us) auto
qed

lemma unregister_ok:
  assumes "it_inv S"
  obtains r S' where "InputThreadUnregisterDev fd S = Some (r, S')" "it_inv S'" "r = 0 \<and> S' = S \<or> r = 1 \<and> 0 < fills S'"
    and "fds S' = fds S" "thread_pc S' = thread_pc S" "closed S' = closed S" "registered S' = registered S"
    and "\<And>a. a \<in> set (devs S) \<Longrightarrow> dev_state (dev S a) = device_state_running \<Longrightarrow> dev_fd (dev S a) = fd \<Longrightarrow> live S' fd < live S fd"
proof -
  note ok = assms [unfolded it_inv_def]
  have dom: "set (devs S) \<subseteq> dom (dev_heap S)" using ok by (simp add: devs_ok_def)
  show thesis
  proof (cases "find (\<lambda>a. dev_fd (dev S a) = fd) (devs S)")
    case None
    have "False" if "a \<in> set (devs S)" "dev_fd (dev S a) = fd" for a using None that by (simp add: find_None_iff)
    moreover have "InputThreadUnregisterDev fd S = Some (0, S)" using None by (simp add: InputThreadUnregisterDev_def find_dev_found [OF dom])
    ultimately show thesis using that [of 0 S] assms by blast
  next
    case (Some a)
    then have a: "a \<in> set (devs S)" "dev_fd (dev S a) = fd" using find_Some_in by fastforce+
    then obtain d where d: "dev_heap S a = Some d" using dom by blast
    let ?d = "d\<lparr>dev_state := device_state_removed\<rparr>"
    let ?S = "S\<lparr>dev_heap := (dev_heap S)(a \<mapsto> ?d)\<rparr>"
    have S': "InputThreadUnregisterDev fd S = Some (1, mark_changed ?S)"
      using Some d by (simp add: InputThreadUnregisterDev_def find_dev_found [OF dom] update_dev_def)
    have "dev_weaker d ?d" by (simp add: dev_weaker_def)
    note w = weaken_dev [OF _ d this refl]
    have "closes_ok ?S" using w(4) ok by (fastforce simp: closes_ok_def intro: order_trans [rotated])
    then have inv: "it_inv (mark_changed ?S)" using w(1-3) ok by (simp add: it_inv_def mark_changed_ok)
    have "live (mark_changed ?S) fd < live S fd"
      if b: "b \<in> set (devs S)" "dev_state (dev S b) = device_state_running" "dev_fd (dev S b) = fd" for b
    proof -
      have "a = b" using running_first [of S b] b ok Some by simp
      then have s: "dev_state (dev S a) = device_state_running" using b by simp
      obtain us vs where u: "devs S = us @ a # vs" using a(1) by (meson split_list)
      have "distinct (devs S)" using ok by (simp add: devs_ok_def)
      then have "a \<notin> set us" "a \<notin> set vs" using u by auto
      then have "filter (\<lambda>b. dev_fd (dev ?S b) = fd \<and> dev_state (dev ?S b) \<noteq> device_state_removed) xs =
          filter (\<lambda>b. dev_fd (dev S b) = fd \<and> dev_state (dev S b) \<noteq> device_state_removed) xs" if "xs = us \<or> xs = vs" for xs
        using that by (intro filter_cong) auto
      moreover have "dev_state (dev ?S a) = device_state_removed" by simp
      ultimately have "live ?S fd < live S fd" using s a(2) u by (simp add: live_def del: fun_upd_apply)
      then show ?thesis by (simp add: mark_changed_ok)
    qed
    then show thesis using that [OF S' inv] by (simp add: mark_changed_def)
  qed
qed

section \<open>The thread keeps the invariant\<close>

definition all_running :: "nat list \<Rightarrow> 'p InputThreadInfo \<Rightarrow> bool" where
  "all_running ps S \<longleftrightarrow> (\<forall>a\<in>set ps. dev_state (dev S a) = device_state_running)"

text \<open>The device under the loop does not share its descriptor with a device before it, nor with a running one behind it.\<close>

lemma loop_alone:
  assumes "devs_ok S" "devs S = ps @ a # as" "all_running ps S"
  shows "b \<in> set ps \<Longrightarrow> dev_fd (dev S b) \<noteq> dev_fd (dev S a)"
    and "b \<in> set as \<Longrightarrow> dev_fd (dev S b) = dev_fd (dev S a) \<Longrightarrow>
      dev_state (dev S a) = device_state_removed \<and> dev_state (dev S b) \<noteq> device_state_running"
  using assms by (auto simp: devs_ok_def sorted_wrt_append all_running_def)

lemma start_dev:
  assumes "devs_ok S" "polled_ok S" "devs S = ps @ a # as" "all_running ps S" "dev_heap S a = Some d" "dev_state d = device_state_added" "generous W"
  obtains b P P' where "ospoll_add W (dev_fd d) False InputReady (Some a) (fds S) = Some (b, P)"
    and "ospoll_listen (dev_fd d) X_NOTIFY_READ P = Some P'"
    and "let S' = S\<lparr>fds := P', dev_heap := (dev_heap S)(a \<mapsto> d\<lparr>dev_state := device_state_running\<rparr>)\<rparr>
         in devs_ok S' \<and> polled_ok S' \<and> all_running (ps @ [a]) S'"
proof -
  let ?fd = "dev_fd d"
  have inv: "poll_inv (fds S)" using assms(2) by (simp add: polled_ok_def)
  from inv assms(7) obtain P where P: "ospoll_add W ?fd False InputReady (Some a) (fds S) = Some (True, P)" "poll_inv P"
    "polled P = (polled (fds S))(?fd \<mapsto> entry_for ?fd False InputReady (Some a) (polled (fds S) ?fd))" by (rule add_generous)
  obtain P' where P': "change_events (\<lambda>x. x OR X_NOTIFY_READ) ?fd P = Some P'" "poll_inv P'"
    "polled P' = (polled P)(?fd := map_option (\<lambda>e. e\<lparr>osfd_xevents := osfd_xevents e OR X_NOTIFY_READ\<rparr>) (polled P ?fd))"
    using P(2) by (rule change_ok)
  let ?S = "S\<lparr>fds := P', dev_heap := (dev_heap S)(a \<mapsto> d\<lparr>dev_state := device_state_running\<rparr>)\<rparr>"
  have da: "dev S a = d" using assms(5) by simp
  have fd: "dev_fd (dev ?S b) = dev_fd (dev S b)" for b using assms(5) by simp
  have st: "dev_state (dev ?S b) = dev_state (dev S b)" if "b \<noteq> a" for b using that by simp
  have run: "dev_state (dev ?S a) = device_state_running" by simp
  have uniq: "dev_fd (dev S b) \<noteq> ?fd" if "b \<in> set (devs S)" "b \<noteq> a" for b
    using loop_alone [OF assms(1,3,4), of b] that assms(3,6) da by auto
  have H: "?fd \<noteq> hotplugPipeRead S" using assms(1,3) da by (auto simp: devs_ok_def)
  have "devs_ok ?S"
  proof -
    have "sorted_wrt (\<lambda>x y. dev_fd (dev ?S x) = dev_fd (dev ?S y) \<longrightarrow>
       dev_state (dev ?S x) = device_state_removed \<and> dev_state (dev ?S y) \<noteq> device_state_running) (devs S)"
    proof (rule sorted_wrt_mono_rel [rotated])
      show "sorted_wrt (\<lambda>x y. x \<noteq> y \<and> (dev_fd (dev S x) = dev_fd (dev S y) \<longrightarrow>
       dev_state (dev S x) = device_state_removed \<and> dev_state (dev S y) \<noteq> device_state_running)) (devs S)"
        using assms(1) by (simp add: devs_ok_def sorted_wrt_iff_nth_less nth_eq_iff_index_eq)
    qed (use uniq fd st da in metis)
    moreover have "dom (dev_heap ?S) = set (devs S)" using assms(1,3) by (auto simp: devs_ok_def)
    ultimately show ?thesis using assms(1) fd by (auto simp: devs_ok_def)
  qed
  moreover have "polled_ok ?S"
  proof -
    have e: "polled P' k = (if k = ?fd then Some (entry_for ?fd False InputReady (Some a) (polled (fds S) ?fd)
        \<lparr>osfd_xevents := osfd_xevents (entry_for ?fd False InputReady (Some a) (polled (fds S) ?fd)) OR X_NOTIFY_READ\<rparr>) else polled (fds S) k)" for k
      by (simp add: P'(3) P(3))
    have "entry_ok ?S k x" if "polled P' k = Some x" for k x
    proof (cases "k = ?fd")
      case True
      then show ?thesis using that H assms(3) da fd [of a] by (auto simp: e entry_ok_def entry_for_def)
    next
      case False
      then have "entry_ok S k x" using that assms(2) by (simp add: e polled_ok_def)
      then show ?thesis using assms(6) da fd st unfolding entry_ok_def by (auto split: if_splits)
    qed
    moreover have "map_option osfd_data (polled P' (dev_fd (dev S b))) = Some (Some b)"
      if "b \<in> set (devs S)" "dev_state (dev ?S b) = device_state_running" for b
    proof (cases "b = a")
      case True then show ?thesis using da by (simp add: e entry_for_def)
    next
      case False then show ?thesis using that uniq assms(2) by (simp add: e polled_ok_def)
    qed
    ultimately show ?thesis using P'(2) H assms(2) fd by (auto simp: polled_ok_def e)
  qed
  moreover have "all_running (ps @ [a]) ?S" using assms(4) by (auto simp: all_running_def)
  ultimately show thesis using that [OF P(1) P'(1) [folded ospoll_listen_def]] by (simp add: Let_def)
qed

lemma drop_dev:
  assumes "devs_ok S" "polled_ok S" "devs S = ps @ a # as" "all_running ps S" "dev_heap S a = Some d" "dev_state d = device_state_removed"
  obtains P where "ospoll_remove (dev_fd d) (fds S) = Some P"
    and "let S' = S\<lparr>fds := P, devs := ps @ as, dev_heap := (dev_heap S)(a := None)\<rparr> in devs_ok S' \<and> polled_ok S' \<and> all_running ps S'"
proof -
  let ?fd = "dev_fd d"
  have inv: "poll_inv (fds S)" using assms(2) by (simp add: polled_ok_def)
  then obtain P where P: "ospoll_remove ?fd (fds S) = Some P" "poll_inv P" "polled P = (polled (fds S))(?fd := None)" by (rule remove_ok)
  let ?S = "S\<lparr>fds := P, devs := ps @ as, dev_heap := (dev_heap S)(a := None)\<rparr>"
  have da: "dev S a = d" using assms(5) by simp
  have "distinct (devs S)" using assms(1) by (simp add: devs_ok_def)
  then have na: "a \<notin> set ps" "a \<notin> set as" using assms(3) by auto
  then have old: "dev ?S b = dev S b" if "b \<in> set (ps @ as)" for b using that by auto
  have H: "?fd \<noteq> hotplugPipeRead S" using assms(1,3) da by (auto simp: devs_ok_def)
  have "devs_ok ?S"
  proof -
    have "sorted_wrt (\<lambda>x y. dev_fd (dev ?S x) = dev_fd (dev ?S y) \<longrightarrow>
       dev_state (dev ?S x) = device_state_removed \<and> dev_state (dev ?S y) \<noteq> device_state_running) (ps @ as)"
    proof (rule sorted_wrt_mono_rel [rotated])
      show "sorted_wrt (\<lambda>x y. dev_fd (dev S x) = dev_fd (dev S y) \<longrightarrow>
       dev_state (dev S x) = device_state_removed \<and> dev_state (dev S y) \<noteq> device_state_running) (ps @ as)"
        using assms(1,3) by (simp add: devs_ok_def sorted_wrt_append)
    qed (use old in simp)
    moreover have "dom (dev_heap ?S) = set (ps @ as)" using assms(1,3) na by (auto simp: devs_ok_def)
    ultimately show ?thesis using assms(1,3) old by (auto simp: devs_ok_def)
  qed
  moreover have "polled_ok ?S"
  proof -
    have "entry_ok ?S k x" if "polled P k = Some x" for k x
    proof -
      have k: "k \<noteq> ?fd" "polled (fds S) k = Some x" using that P(3) by (auto split: if_splits)
      then have "entry_ok S k x" using assms(2) by (simp add: polled_ok_def)
      then show ?thesis using k(1) assms(3) da old unfolding entry_ok_def by (fastforce split: if_splits)
    qed
    moreover have "map_option osfd_data (polled P (dev_fd (dev S b))) = Some (Some b)"
      if "b \<in> set (ps @ as)" "dev_state (dev S b) = device_state_running" for b
      using that loop_alone [OF assms(1,3,4), of b] assms(2,3) da by (auto simp: P(3) polled_ok_def)
    ultimately show ?thesis using P(2,3) H assms(2) old by (auto simp: polled_ok_def)
  qed
  moreover have "all_running ps ?S" using assms(4) na by (auto simp: all_running_def)
  ultimately show thesis using that [OF P(1)] by (simp add: Let_def)
qed

text \<open>What the loop leaves: the devices that were not removed, all running, with their descriptors and procedures; nothing else changes.\<close>

definition updated :: "'p InputThreadInfo \<Rightarrow> nat list \<Rightarrow> 'p InputThreadInfo \<Rightarrow> bool" where
  "updated S keep S' \<longleftrightarrow> devs_ok S' \<and> polled_ok S' \<and> devs S' = keep \<and> all_running keep S' \<and>
     (\<forall>a\<in>set keep. dev_fd (dev S' a) = dev_fd (dev S a) \<and> readInputProc (dev S' a) = readInputProc (dev S a)) \<and>
     hotplugPipeRead S' = hotplugPipeRead S \<and> changed S' = changed S \<and> fills S' = fills S \<and> hotplug_bytes S' = hotplug_bytes S \<and>
     closed S' = closed S \<and> registered S' = registered S \<and> proc_calls S' = proc_calls S"

lemma update_loop_ok:
  assumes "devs_ok S" "polled_ok S" "devs S = ps @ as" "all_running ps S" "\<forall>fd. generous (W fd)"
  obtains S' where "update_loop W as S = Some S'" "updated S (ps @ filter (\<lambda>a. dev_state (dev S a) \<noteq> device_state_removed) as) S'"
  using assms
proof (induction as arbitrary: S ps thesis)
  case Nil
  then show ?case by (simp add: updated_def)
next
  case (Cons a as)
  note prem = Cons.prems(2-6)
  have dist: "distinct (devs S)" and "a \<in> dom (dev_heap S)" using prem(1,3) by (auto simp: devs_ok_def)
  then obtain d where d: "dev_heap S a = Some d" by blast
  have na: "a \<notin> set ps" "a \<notin> set as" using dist prem(3) by auto
  let ?keep = "\<lambda>S :: 'a InputThreadInfo. filter (\<lambda>a. dev_state (dev S a) \<noteq> device_state_removed)"
  show ?case
  proof (cases "dev_state d")
    case device_state_added
    obtain b P P' where P: "ospoll_add (W (dev_fd d)) (dev_fd d) False InputReady (Some a) (fds S) = Some (b, P)"
      "ospoll_listen (dev_fd d) X_NOTIFY_READ P = Some P'"
      and ok: "let S' = S\<lparr>fds := P', dev_heap := (dev_heap S)(a \<mapsto> d\<lparr>dev_state := device_state_running\<rparr>)\<rparr>
         in devs_ok S' \<and> polled_ok S' \<and> all_running (ps @ [a]) S'"
      by (rule start_dev [OF prem(1-4) d device_state_added spec [OF prem(5)]])
    let ?S = "S\<lparr>fds := P', dev_heap := (dev_heap S)(a \<mapsto> d\<lparr>dev_state := device_state_running\<rparr>)\<rparr>"
    have keep: "?keep ?S as = ?keep S as" using na by (intro filter_cong) auto
    have "devs_ok ?S" "polled_ok ?S" "all_running (ps @ [a]) ?S" "devs ?S = (ps @ [a]) @ as" using ok prem(3) by (simp_all add: Let_def)
    then obtain S' where S': "update_loop W as ?S = Some S'" "updated ?S ((ps @ [a]) @ ?keep ?S as) S'"
      using Cons.IH [OF _ _ _ _ _ prem(5), of ?S "ps @ [a]"] by blast
    have "updated S (ps @ ?keep S (a # as)) S'" using S'(2) d device_state_added unfolding keep updated_def by simp
    moreover have "update_loop W (a # as) S = Some S'" using d device_state_added P S'(1) by simp
    ultimately show ?thesis using Cons.prems(1) by blast
  next
    case device_state_running
    have "all_running (ps @ [a]) S" "devs S = (ps @ [a]) @ as" using prem(3,4) d device_state_running by (simp_all add: all_running_def)
    then obtain S' where "update_loop W as S = Some S'" "updated S ((ps @ [a]) @ ?keep S as) S'"
      using Cons.IH [OF _ prem(1,2) _ _ prem(5), of "ps @ [a]"] by blast
    then show ?thesis using Cons.prems(1) [of S'] d device_state_running by simp
  next
    case device_state_removed
    obtain P where P: "ospoll_remove (dev_fd d) (fds S) = Some P"
      and ok: "let S' = S\<lparr>fds := P, devs := ps @ as, dev_heap := (dev_heap S)(a := None)\<rparr> in devs_ok S' \<and> polled_ok S' \<and> all_running ps S'"
      by (rule drop_dev [OF prem(1-4) d device_state_removed])
    let ?S = "S\<lparr>fds := P, devs := ps @ as, dev_heap := (dev_heap S)(a := None)\<rparr>"
    have keep: "?keep ?S as = ?keep S as" using na by (intro filter_cong) auto
    have "devs_ok ?S" "polled_ok ?S" "all_running ps ?S" "devs ?S = ps @ as" using ok by (simp_all add: Let_def)
    then obtain S' where S': "update_loop W as ?S = Some S'" "updated ?S (ps @ ?keep ?S as) S'"
      using Cons.IH [OF _ _ _ _ _ prem(5), of ?S ps] by blast
    have "remove1 a (devs S) = ps @ as" using prem(3) na by (simp add: remove1_append_mid)
    then have "update_loop W (a # as) S = Some S'" using d device_state_removed P S'(1) by simp
    moreover have "\<forall>b\<in>set (ps @ ?keep S as). b \<noteq> a" using na by auto
    then have "updated S (ps @ ?keep S (a # as)) S'" using S'(2) d device_state_removed unfolding keep updated_def by simp
    ultimately show ?thesis using Cons.prems(1) by blast
  qed
qed

lemma update_all:
  assumes "devs_ok S" "polled_ok S" "\<forall>fd. generous (W fd)"
  obtains T where "update_loop W (devs S) S = Some T" "updated S (filter (\<lambda>a. dev_state (dev S a) \<noteq> device_state_removed) (devs S)) T"
  by (rule update_loop_ok [OF assms(1,2) _ _ assms(3), of "[]" "devs S"]) (simp_all add: all_running_def)

lemma live_updated:
  assumes "updated S (filter (\<lambda>a. dev_state (dev S a) \<noteq> device_state_removed) (devs S)) S'"
  shows "live S' fd = live S fd"
proof -
  let ?keep = "filter (\<lambda>a. dev_state (dev S a) \<noteq> device_state_removed) (devs S)"
  have "filter (\<lambda>a. dev_fd (dev S' a) = fd \<and> dev_state (dev S' a) \<noteq> device_state_removed) ?keep = filter (\<lambda>a. dev_fd (dev S a) = fd) ?keep"
    using assms by (intro filter_cong) (auto simp: updated_def all_running_def)
  then show ?thesis using assms by (simp add: live_def updated_def) (simp add: conj_commute)
qed

lemma check_inv:
  assumes "it_inv S" "check_changes W S = Some S'" "\<forall>fd. generous (W fd)"
  shows "it_inv S'"
proof (cases "changed S")
  case False
  then have "S' = S\<lparr>thread_pc := Waiting\<rparr>" using assms(2) by (simp add: check_changes_def)
  then show ?thesis using assms(1) False by (simp add: it_inv_def same_parts [of "S\<lparr>thread_pc := Waiting\<rparr>" S] calls_ok_def wake_ok_def)
next
  case True
  let ?S = "S\<lparr>changed := False\<rparr>"
  have "devs_ok ?S" "polled_ok ?S" using assms(1) by (simp_all add: it_inv_def same_parts [of ?S S])
  then obtain S1 where S1: "update_loop W (devs S) ?S = Some S1" "updated ?S (filter (\<lambda>a. dev_state (dev ?S a) \<noteq> device_state_removed) (devs ?S)) S1"
    using update_all [OF _ _ assms(3), of ?S] by auto
  then have S': "S' = S1\<lparr>thread_pc := Waiting\<rparr>" using assms(2) True by (simp add: check_changes_def)
  have f: "closed S1 = closed S" "registered S1 = registered S" "\<not> changed S1" using S1(2) by (simp_all add: updated_def)
  have "live S' fd = live S fd" for fd using live_updated [OF S1(2)] by (simp add: S' same_parts [of "S1\<lparr>thread_pc := Waiting\<rparr>" S1] same_parts [of ?S S])
  then have "closes_ok S'" using assms(1) f by (simp add: it_inv_def closes_ok_def S')
  moreover have "devs_ok S'" "polled_ok S'" using S1(2) by (simp_all add: S' updated_def same_parts [of "S1\<lparr>thread_pc := Waiting\<rparr>" S1])
  ultimately show ?thesis using f(3) by (simp add: it_inv_def S' calls_ok_def wake_ok_def)
qed

lemma wakes_ok:
  assumes "it_inv S" "\<forall>ev\<in>set evs. \<exists>fd x. epoll (fds S) fd = Some (x, fst ev)"
  obtains S' where "thread_wakes evs S = Some S'" "it_inv S'"
proof -
  have p: "poll_inv (fds S)" "polled_ok S" using assms(1) by (simp_all add: it_inv_def polled_ok_def)
  have "\<forall>ev\<in>set evs. fst ev \<in> dom (poll_heap (fds S))" using p(1) assms(2) by (fastforce simp: poll_inv_def)
  with p(1) obtain cs where w: "wait_loop (\<lambda>c. []) evs (fds S) = Some (cs, fds S)" "\<forall>(c, T)\<in>set cs. T = fds S \<and> current_call c T"
  proof (induction evs arbitrary: thesis)
    case (Cons ev evs)
    obtain q r where ev: "ev = (q, r)" by fastforce
    obtain e where e: "poll_heap (fds S) q = Some e" using Cons.prems(3) ev by auto
    obtain cs where cs: "wait_loop (\<lambda>c. []) evs (fds S) = Some (cs, fds S)" "\<forall>(c, T)\<in>set cs. T = fds S \<and> current_call c T"
      using Cons.IH Cons.prems(2,3) by auto
    show ?case
    proof (cases "osfd_callback e")
      case None then show ?thesis using Cons.prems(1) cs ev e by simp
    next
      case (Some cb)
      then show ?thesis using Cons.prems(1) [of "((cb, osfd_fd e, revents_flags r, osfd_data e), fds S) # cs"] cs ev e
          entry_current [OF Cons.prems(2) e Some] by simp
    qed
  qed simp
  obtain P where P: "ospoll_clean_deleted (fds S) = Some P" "poll_inv P" "polled P = polled (fds S)" using p(1) by (rule clean_ok)
  let ?S = "S\<lparr>fds := P, thread_pc := Calling (map fst cs)\<rparr>"
  have "call_ok S (fst c)" if c_in: "c \<in> set cs" for c
  proof -
    obtain cb fd x d T where c: "c = ((cb, fd, x, d), T)" by (metis surj_pair)
    then obtain e where e: "polled (fds S) fd = Some e" "osfd_callback e = Some cb" "osfd_data e = d"
      using w(2) c_in by (fastforce simp: current_call_def split: option.splits)
    then have "entry_ok S fd e" using p(2) by (simp add: polled_ok_def)
    then show ?thesis using e c by (auto simp: call_ok_def entry_ok_def split: if_splits)
  qed
  then have "calls_ok ?S" by (auto simp: calls_ok_def list_all_iff same_parts [of ?S S])
  moreover have "entry_ok ?S fd e = entry_ok S fd e" for fd e by (simp add: entry_ok_def)
  then have "polled_ok ?S" using p(2) P(2,3) by (simp add: polled_ok_def)
  moreover have "devs_ok ?S" "closes_ok ?S" "wake_ok ?S" using assms(1) by (simp_all add: it_inv_def same_parts [of ?S S] wake_ok_def)
  ultimately have "it_inv ?S" by (simp add: it_inv_def)
  moreover have "thread_wakes evs S = Some ?S" using w P(1) by (simp add: thread_wakes_def ospoll_wait_def)
  ultimately show thesis using that by blast
qed

lemma close_ok:
  assumes "poll_inv P"
  shows "poll_inv (P\<lparr>epoll := (epoll P)(fd := None)\<rparr>)" "polled (P\<lparr>epoll := (epoll P)(fd := None)\<rparr>) = polled P"
  using do_op_ok [OF assms, of "Close fd"] assms by (auto simp: polled_def poll_inv_def keys_def)

text \<open>The reaction to a broken socket: the running device is the one that is unregistered, so the close uses up its registration.\<close>

lemma broken_socket_ok:
  assumes "it_inv S" "thread_pc S = Calling cs" "a \<in> set (devs S)" "dev_state (dev S a) = device_state_running" "dev_fd (dev S a) = fd"
  obtains S' where "run_ops do_proc_op [Unregister fd, CloseFd fd] S = Some S'" "it_inv S'" "thread_pc S' = Calling cs" "proc_calls S' = proc_calls S"
proof -
  obtain r S1 where S1: "InputThreadUnregisterDev fd S = Some (r, S1)" "it_inv S1" "r = 0 \<and> S1 = S \<or> r = 1 \<and> 0 < fills S1"
    "fds S1 = fds S" "thread_pc S1 = thread_pc S" "closed S1 = closed S" "registered S1 = registered S" "live S1 fd < live S fd"
    using unregister_ok [OF assms(1), of fd] assms(3-5) by metis
  let ?S2 = "if r = 1 then InputThreadFillPipe S1 else S1"
  let ?S3 = "?S2\<lparr>fds := (fds ?S2)\<lparr>epoll := (epoll (fds ?S2))(fd := None)\<rparr>, closed := closed ?S2 @ [fd]\<rparr>"
  have parts: "devs ?S3 = devs S1" "dev_heap ?S3 = dev_heap S1" "hotplugPipeRead ?S3 = hotplugPipeRead S1" "thread_pc ?S3 = thread_pc S1"
    "registered ?S3 = registered S1" "closed ?S3 = closed S1 @ [fd]" "fds ?S3 = (fds S1)\<lparr>epoll := (epoll (fds S1))(fd := None)\<rparr>"
    "proc_calls ?S3 = proc_calls S1"
    by (simp_all add: InputThreadFillPipe_def)
  note same = same_parts [OF parts(1-3)]
  have "polled_ok S1" using S1(2) by (simp add: it_inv_def)
  moreover have "entry_ok ?S3 k e = entry_ok S1 k e" for k e unfolding entry_ok_def parts ..
  ultimately have "polled_ok ?S3" using close_ok [of "fds S1" fd] unfolding polled_ok_def parts by simp
  moreover have "closes_ok ?S3" unfolding closes_ok_def
  proof
    fix k
    have "count_list (closed S1) k + live S k \<le> count_list (registered S1) k" "count_list (closed S1) k + live S1 k \<le> count_list (registered S1) k"
      using assms(1) S1(2,6,7) by (simp_all add: it_inv_def closes_ok_def)
    then show "count_list (closed ?S3) k + live ?S3 k \<le> count_list (registered ?S3) k"
      unfolding same(3) parts using S1(8) by (cases "k = fd") simp_all
  qed
  moreover have pc: "thread_pc ?S3 = Calling cs" using parts(4) S1(5) assms(2) by simp
  moreover have "wake_ok ?S3" unfolding wake_ok_def pc by simp
  ultimately have inv: "it_inv ?S3" using S1(2) same(1,5) parts(4) by (simp add: it_inv_def)
  have "run_ops do_proc_op [Unregister fd, CloseFd fd] S = Some ?S3" using S1(1) by simp
  moreover have "proc_calls S1 = proc_calls S" using S1(1)
    by (auto simp: InputThreadUnregisterDev_def mark_changed_def update_dev_def Option.bind_eq_Some_conv split: option.splits)
  ultimately show thesis using that [of ?S3] inv pc parts(8) by simp
qed

text \<open>A callback of the thread: it returns, and a procedure is only called for a running device with the descriptor of the event.\<close>

lemma call_ok_returns:
  assumes "it_inv S" "thread_pc S = Calling cs" "call_ok S c"
  obtains S' where "call_back lorie_react closing c S = Some S'" "it_inv S'" "thread_pc S' = Calling cs"
    and "proc_calls S' = proc_calls S \<or> (\<exists>a\<in>set (devs S). dev_state (dev S a) = device_state_running \<and>
      proc_calls S' = proc_calls S @ [(readInputProc (dev S a), dev_fd (dev S a), fst (snd (snd c)))])"
proof -
  obtain cb fd x d where c: "c = (cb, fd, x, d)" by (metis surj_pair)
  have pc: "wake_ok T" if "thread_pc T = Calling cs" for T :: "'a InputThreadInfo" using that by (simp add: wake_ok_def)
  show thesis
  proof (cases cb)
    case InputThreadPipeNotify
    let ?S = "S\<lparr>hotplug_bytes := hotplug_bytes S - 40, it_running := (it_running S \<and> \<not> (closing \<and> hotplug_bytes S = 0))\<rparr>"
    have "it_inv ?S" using assms(2) pc [of ?S] by (intro it_inv_same [OF assms(1)]) simp_all
    then show thesis using that [of ?S] c InputThreadPipeNotify assms(2) by (simp add: call_back_def)
  next
    case InputReady
    then obtain a where a: "a \<in> set (devs S)" "d = Some a" "dev_fd (dev S a) = fd" using assms(3) c by (auto simp: call_ok_def)
    then obtain dv where dv: "dev_heap S a = Some dv" using assms(1) by (auto simp: it_inv_def devs_ok_def)
    show thesis
    proof (cases "dev_state dv = device_state_running")
      case False
      then show thesis using that [of S] assms(1,2) c InputReady a dv by (simp add: call_back_def)
    next
      case True
      let ?S = "S\<lparr>proc_calls := proc_calls S @ [(readInputProc dv, fd, x)]\<rparr>"
      have t: "thread_pc ?S = Calling cs" using assms(2) by simp
      then have inv: "it_inv ?S" using pc [of ?S] by (intro it_inv_same [OF assms(1)]) simp_all
      have run: "a \<in> set (devs ?S)" "dev_state (dev ?S a) = device_state_running" "dev_fd (dev ?S a) = fd" using a dv True by simp_all
      obtain S' where S': "run_ops do_proc_op (lorie_react (readInputProc dv) fd x) ?S = Some S'" "it_inv S'" "thread_pc S' = Calling cs"
        "proc_calls S' = proc_calls ?S"
      proof (cases "x AND X_NOTIFY_ERROR = 0")
        case True
        then show thesis using inv t by (intro that [of ?S]) (simp_all add: lorie_react_def)
      next
        case False
        then have "lorie_react (readInputProc dv) fd x = [Unregister fd, CloseFd fd]" by (simp add: lorie_react_def)
        then show thesis using broken_socket_ok [OF inv t run] that by metis
      qed
      have "\<exists>b\<in>set (devs S). dev_state (dev S b) = device_state_running \<and>
          proc_calls S' = proc_calls S @ [(readInputProc (dev S b), dev_fd (dev S b), fst (snd (snd c)))]"
        using a dv True c S'(4) by (intro bexI [of _ a]) simp_all
      moreover have "call_back lorie_react closing c S = Some S'" using c InputReady a dv True S'(1) by (simp add: call_back_def)
      ultimately show thesis using that [of S'] S'(2,3) by blast
    qed
  qed
qed

definition it_started :: "'p InputThreadInfo \<Rightarrow> bool" where
  "it_started S \<longleftrightarrow> (\<exists>W fd. generous W \<and> InputThreadStart W fd = Some S)"

lemma started_inv:
  assumes "generous W" "InputThreadStart W fd = Some S"
  shows "it_inv S"
proof -
  obtain P :: "(poll_callback, nat) ospoll" where P: "ospoll_create True = Some P" "poll_inv P" "polled P = Map.empty"
    using created_inv by (fastforce simp: ospoll_create_def)
  obtain P1 where P1: "ospoll_add W fd False InputThreadPipeNotify None P = Some (True, P1)" "poll_inv P1"
    "polled P1 = (polled P)(fd \<mapsto> entry_for fd False InputThreadPipeNotify None (polled P fd))" using P(2) assms(1) by (rule add_generous)
  obtain P2 where P2: "change_events (\<lambda>x. x OR X_NOTIFY_READ) fd P1 = Some P2" "poll_inv P2"
    "polled P2 = (polled P1)(fd := map_option (\<lambda>e. e\<lparr>osfd_xevents := osfd_xevents e OR X_NOTIFY_READ\<rparr>) (polled P1 fd))"
    using P1(2) by (rule change_ok)
  have S: "S = \<lparr>devs = [], dev_heap = Map.empty, fds = P2, hotplugPipeRead = fd, changed = False, it_running = True,
             hotplug_bytes = 0, fills = 0, thread_pc = Checking, registered = [], proc_calls = [], closed = []\<rparr>"
    using assms(2) P(1) P1(1) P2(1) by (simp add: InputThreadStart_def ospoll_listen_def)
  show ?thesis unfolding it_inv_def
  proof (intro conjI)
    show "polled_ok S" using P2 P1(3) P(3) by (auto simp: S polled_ok_def entry_ok_def entry_for_def split: if_splits)
  qed (simp_all add: S devs_ok_def calls_ok_def wake_ok_def closes_ok_def live_def)
qed

text \<open>Every step keeps the invariant; only the callbacks of the thread call procedures.\<close>

lemma it_step_ok:
  assumes "it_inv S" "it_step S S'"
  shows "it_inv S' \<and> (proc_calls S' = proc_calls S \<or> (\<exists>x. \<exists>a\<in>set (devs S). dev_state (dev S a) = device_state_running \<and>
    proc_calls S' = proc_calls S @ [(readInputProc (dev S a), dev_fd (dev S a), x)]))"
  using assms(2)
proof (cases rule: it_step.cases)
  case (registers alloc fd p r)
  have "proc_calls S' = proc_calls S" using registers(1)
    by (auto simp: InputThreadRegisterDev_def mark_changed_def update_dev_def Option.bind_eq_Some_conv split: option.splits)
  then show ?thesis using register_inv [OF assms(1) registers] by blast
next
  case (unregisters fd r)
  have "proc_calls S' = proc_calls S" using unregisters
    by (auto simp: InputThreadUnregisterDev_def mark_changed_def update_dev_def Option.bind_eq_Some_conv split: option.splits)
  then show ?thesis using unregister_ok [OF assms(1), of fd] unregisters by (metis option.inject prod.inject)
next
  case fills_pipe
  have "it_inv S'" by (rule it_inv_same [OF assms(1)]) (simp_all add: fills_pipe InputThreadFillPipe_def wake_ok_def)
  then show ?thesis by (simp add: fills_pipe InputThreadFillPipe_def)
next
  case (checks W)
  have "devs_ok (S\<lparr>changed := False\<rparr>)" "polled_ok (S\<lparr>changed := False\<rparr>)" using assms(1) by (simp_all add: it_inv_def same_parts [of "S\<lparr>changed := False\<rparr>" S])
  then obtain T where "update_loop W (devs (S\<lparr>changed := False\<rparr>)) (S\<lparr>changed := False\<rparr>) = Some T"
    and "updated (S\<lparr>changed := False\<rparr>) (filter (\<lambda>a. dev_state (dev (S\<lparr>changed := False\<rparr>) a) \<noteq> device_state_removed) (devs (S\<lparr>changed := False\<rparr>))) T"
    using checks(3) by (rule update_all)
  then have "update_loop W (devs S) (S\<lparr>changed := False\<rparr>) = Some T" "proc_calls T = proc_calls S" by (simp_all add: updated_def)
  then have "proc_calls S' = proc_calls S" using checks(2) by (cases "changed S") (auto simp: check_changes_def)
  then show ?thesis using check_inv [OF assms(1) checks(2,3)] by blast
next
  case (wakes evs)
  have "proc_calls S' = proc_calls S" using wakes(3) by (auto simp: thread_wakes_def)
  then show ?thesis using wakes_ok [OF assms(1) wakes(2)] wakes(3) by (metis option.inject)
next
  case (calls c cs closing)
  let ?S = "S\<lparr>thread_pc := Calling cs\<rparr>"
  have c: "list_all (call_ok S) (c # cs)" using assms(1) calls(1) by (simp add: it_inv_def calls_ok_def)
  then have "call_ok ?S c" by (simp add: same_parts [of ?S S])
  moreover have "calls_ok ?S" using c by (simp add: calls_ok_def list_all_iff same_parts [of ?S S])
  then have "it_inv ?S" using assms(1) by (simp add: it_inv_def same_parts [of ?S S] wake_ok_def)
  moreover have "thread_pc ?S = Calling cs" by simp
  ultimately obtain T where "call_back lorie_react closing c ?S = Some T" "it_inv T" "thread_pc T = Calling cs"
    "proc_calls T = proc_calls ?S \<or> (\<exists>a\<in>set (devs ?S). dev_state (dev ?S a) = device_state_running \<and>
      proc_calls T = proc_calls ?S @ [(readInputProc (dev ?S a), dev_fd (dev ?S a), fst (snd (snd c)))])"
    by (metis call_ok_returns [of ?S cs c])
  then show ?thesis using calls(2) by auto
next
  case called
  let ?S = "S\<lparr>thread_pc := Checking\<rparr>"
  have "it_inv ?S" using assms(1) by (simp add: it_inv_def same_parts [of ?S S] calls_ok_def wake_ok_def)
  then show ?thesis using called by simp
qed

interpretation input_threads: transition_system it_started it_step it_inv
proof
  show "it_inv S" if "it_started S" for S :: "'a InputThreadInfo" using that started_inv by (auto simp: it_started_def)
  show "it_inv S'" if "it_inv S" "it_step S S'" for S S' :: "'a InputThreadInfo" using it_step_ok [OF that] by blast
qed

section \<open>Properties\<close>

text \<open>A thread that is told of the socket 5, polls it, and is woken when the socket breaks.\<close>

definition sample_alloc :: "nat list \<Rightarrow> nat option" where
  "sample_alloc as = Some (Suc (sum_list as))"

definition sample_start :: "nat InputThreadInfo" where
  "sample_start = the (InputThreadStart sample_world 9)"

definition sample_registered :: "nat InputThreadInfo" where
  "sample_registered = snd (the (InputThreadRegisterDev sample_alloc 5 7 sample_start))"

definition sample_polling :: "nat InputThreadInfo" where
  "sample_polling = the (check_changes (\<lambda>fd. sample_world) sample_registered)"

definition sample_woken :: "nat InputThreadInfo" where
  "sample_woken = the (thread_wakes [(2, 16)] sample_polling)"

definition sample_called :: "nat InputThreadInfo" where
  "sample_called = the (call_back lorie_react False (InputReady, 5, 4, Some 1) (sample_woken\<lparr>thread_pc := Calling []\<rparr>))"

lemma sample_generous: "generous sample_world"
  using sample_good by (simp add: generous_def sample_world_def)

lemmas sample_eval = sample_world_def ospoll_create_def ospoll_add_def ospoll_find_def ospoll_find_loop.simps grow_def set_callback_def
  array_insert_def MAXCLIENTS_def Let_def rd_def ospoll_listen_def change_events_def epoll_mod_def epoll_events_def
  X_NOTIFY_READ_def X_NOTIFY_WRITE_def X_NOTIFY_ERROR_def EPOLLIN_def EPOLLOUT_def

lemma sample_started: "it_started sample_start"
  unfolding it_started_def sample_start_def using sample_generous
  by (intro exI [of _ sample_world] exI [of _ 9]) (simp add: InputThreadStart_def sample_eval)

lemma sample_start_val: "sample_start = \<lparr>devs = [], dev_heap = Map.empty,
    fds = \<lparr>poll_fds = [1], poll_size = 4096,
      poll_heap = [1 \<mapsto> \<lparr>osfd_fd = 9, osfd_xevents = 1, osfd_edge = False, osfd_callback = Some InputThreadPipeNotify, osfd_data = None\<rparr>],
      poll_deleted = [], epoll = [9 \<mapsto> (1, 1)]\<rparr>,
    hotplugPipeRead = 9, changed = False, it_running = True, hotplug_bytes = 0, fills = 0, thread_pc = Checking,
    registered = [], proc_calls = [], closed = []\<rparr>"
  by (simp add: sample_start_def InputThreadStart_def sample_eval)

lemma sample_registered_val:
  "InputThreadRegisterDev sample_alloc 5 7 sample_start = Some (1, sample_registered)" "changed sample_registered" "thread_pc sample_registered = Checking"
  "devs sample_registered = [1]" "dev_heap sample_registered = [1 \<mapsto> \<lparr>readInputProc = 7, dev_fd = 5, dev_state = device_state_added\<rparr>]"
  "live sample_registered 5 = 1" "fds sample_registered = fds sample_start"
  by (simp_all add: sample_registered_def sample_start_val InputThreadRegisterDev_def mark_changed_def sample_alloc_def live_def)

lemma sample_polling_val:
  "check_changes (\<lambda>fd. sample_world) sample_registered = Some sample_polling" "thread_pc sample_polling = Waiting" "devs sample_polling = [1]"
  "dev_heap sample_polling = [1 \<mapsto> \<lparr>readInputProc = 7, dev_fd = 5, dev_state = device_state_running\<rparr>]"
  "fds sample_polling = \<lparr>poll_fds = [2, 1], poll_size = 4096,
      poll_heap = [1 \<mapsto> \<lparr>osfd_fd = 9, osfd_xevents = 1, osfd_edge = False, osfd_callback = Some InputThreadPipeNotify, osfd_data = None\<rparr>,
        2 \<mapsto> \<lparr>osfd_fd = 5, osfd_xevents = 1, osfd_edge = False, osfd_callback = Some InputReady, osfd_data = Some 1\<rparr>],
      poll_deleted = [], epoll = [9 \<mapsto> (1, 1), 5 \<mapsto> (1, 2)]\<rparr>"
  "registered sample_polling = [5]" "proc_calls sample_polling = []" "closed sample_polling = []"
  by (simp_all add: sample_polling_def sample_registered_def sample_start_val InputThreadRegisterDev_def mark_changed_def sample_alloc_def
      check_changes_def sample_eval numeral_2_eq_2)

lemma sample_woken_val:
  "thread_wakes [(2, 16)] sample_polling = Some sample_woken" "thread_pc sample_woken = Calling [(InputReady, 5, 4, Some 1)]" "devs sample_woken = [1]"
  "dev_heap sample_woken = dev_heap sample_polling" "registered sample_woken = [5]" "proc_calls sample_woken = []" "closed sample_woken = []"
  by (simp_all add: sample_woken_def thread_wakes_def sample_polling_val ospoll_wait_def ospoll_clean_deleted_def sample_eval revents_flags_def)

lemma sample_called_val:
  "call_back lorie_react False (InputReady, 5, 4, Some 1) (sample_woken\<lparr>thread_pc := Calling []\<rparr>) = Some sample_called"
  "proc_calls sample_called = [(7, 5, 4)]" "closed sample_called = [5]" "registered sample_called = [5]"
  by (simp_all add: sample_called_def call_back_def sample_woken_val sample_polling_val lorie_react_def InputThreadUnregisterDev_def update_dev_def
      mark_changed_def InputThreadFillPipe_def sample_eval)

lemma sample_alloc_fresh: "\<forall>as a. sample_alloc as = Some a \<longrightarrow> a \<notin> set as"
proof (intro allI impI)
  fix as a assume "sample_alloc as = Some a"
  then show "a \<notin> set as" using member_le_sum_list [of a as] by (auto simp: sample_alloc_def)
qed

lemma sample_steps: "it_step sample_start sample_registered" "it_step sample_registered sample_polling" "it_step sample_polling sample_woken"
    "it_step sample_woken sample_called"
proof -
  show "it_step sample_start sample_registered"
    by (rule registers [OF sample_registered_val(1) _ sample_alloc_fresh]) (simp add: sample_start_val)
  show "it_step sample_registered sample_polling"
    by (rule checks [OF sample_registered_val(3) sample_polling_val(1)]) (simp add: sample_generous)
  show "it_step sample_polling sample_woken"
    by (rule wakes [OF sample_polling_val(2) _ sample_woken_val(1)]) (auto simp: sample_polling_val intro: exI [of _ 5])
  show "it_step sample_woken sample_called" by (rule calls [OF sample_woken_val(2) sample_called_val(1)])
qed

lemma sample_reach: "it_step\<^sup>*\<^sup>* sample_start sample_registered" "it_step\<^sup>*\<^sup>* sample_start sample_woken" "it_step\<^sup>*\<^sup>* sample_start sample_called"
proof -
  show r: "it_step\<^sup>*\<^sup>* sample_start sample_registered" using sample_steps(1) by (rule r_into_rtranclp)
  show w: "it_step\<^sup>*\<^sup>* sample_start sample_woken" by (rule rtranclp.rtrancl_into_rtrancl [OF rtranclp.rtrancl_into_rtrancl [OF r sample_steps(2)] sample_steps(3)])
  show "it_step\<^sup>*\<^sup>* sample_start sample_called" by (rule rtranclp.rtrancl_into_rtrancl [OF w sample_steps(4)])
qed

text \<open>
  The input thread serves registered devices only: in every interleaving of the server thread, the thread's own loop, its callbacks and the
  sockets that the procedures close, a step calls at most one procedure, and it is that of the one live device
  of the descriptor.
\<close>

theorem input_calls_registered:
  assumes "it_started S0" "it_step\<^sup>*\<^sup>* S0 S" "it_step S S'"
  shows "proc_calls S' = proc_calls S \<or> (\<exists>x. \<exists>a\<in>set (devs S). proc_calls S' = proc_calls S @ [(readInputProc (dev S a), dev_fd (dev S a), x)] \<and>
    (\<forall>b\<in>set (devs S). dev_fd (dev S b) = dev_fd (dev S a) \<longrightarrow> b = a \<or> dev_state (dev S b) = device_state_removed))"
proof -
  have inv: "it_inv S" using assms(1,2) by (rule input_threads.reachable_inv)
  from it_step_ok [OF inv assms(3)] consider "proc_calls S' = proc_calls S"
    | x a where "a \<in> set (devs S)" "dev_state (dev S a) = device_state_running" "proc_calls S' = proc_calls S @ [(readInputProc (dev S a), dev_fd (dev S a), x)]"
    by blast
  then show ?thesis
  proof cases
    case 2
    obtain us vs where d: "devs S = us @ a # vs" using 2(1) by (meson split_list)
    have "b = a \<or> dev_state (dev S b) = device_state_removed" if "b \<in> set (devs S)" "dev_fd (dev S b) = dev_fd (dev S a)" for b
      using inv that 2(2) d by (auto simp: it_inv_def devs_ok_def sorted_wrt_append)
    then show ?thesis using 2 by blast
  qed blast
qed

theorem input_calls_registered_witness: "\<exists>x. proc_calls sample_called = proc_calls sample_woken @ [(7, 5, x)]"
  using input_calls_registered [OF sample_started sample_reach(2) sample_steps(4)]
  by (auto simp: sample_called_val sample_woken_val)

text \<open>
  A connection is closed at most once: whatever the threads do, the handler has closed a descriptor at most as often as a device was made for
  it, although the number of a closed descriptor is given to the next connection and both devices can be in the list.
\<close>

theorem connection_closed_once:
  assumes "it_started S0" "it_step\<^sup>*\<^sup>* S0 S"
  shows "count_list (closed S) fd \<le> count_list (registered S) fd"
proof -
  have "it_inv S" using assms by (rule input_threads.reachable_inv)
  then show ?thesis unfolding it_inv_def closes_ok_def by (meson add_leD1)
qed

theorem connection_closed_once_witness: "count_list (closed sample_called) 5 \<le> 1 \<and> 5 \<in> set (closed sample_called)"
  using connection_closed_once [OF sample_started sample_reach(3), of 5] by (simp add: sample_called_val)

text \<open>
  C15. No registration is lost: while a change of the devices is pending the thread does not sleep, as it is not in its wait or a byte is in
  its pipe or on the way there; and when it looks, its loop returns and leaves polled exactly its pipe and the live devices,
  with the removed ones freed and taken off the list.
\<close>

theorem input_changes_taken:
  assumes "it_started S0" "it_step\<^sup>*\<^sup>* S0 S" "changed S" "\<forall>fd. generous (W fd)"
  shows "(thread_pc S = Waiting \<longrightarrow> 0 < fills S \<or> 0 < hotplug_bytes S) \<and>
    (\<exists>S'. check_changes W S = Some S' \<and> \<not> changed S' \<and> dom (dev_heap S') = set (devs S') \<and>
       devs S' = filter (\<lambda>a. dev_state (dev S a) \<noteq> device_state_removed) (devs S) \<and>
       (\<forall>fd. polled (fds S') fd \<noteq> None \<longleftrightarrow> fd = hotplugPipeRead S \<or> 0 < live S fd))"
proof (rule conjI)
  have inv: "it_inv S" using assms(1,2) by (rule input_threads.reachable_inv)
  then show "thread_pc S = Waiting \<longrightarrow> 0 < fills S \<or> 0 < hotplug_bytes S" using assms(3) by (simp add: it_inv_def wake_ok_def)
  let ?S = "S\<lparr>changed := False\<rparr>"
  have "devs_ok ?S" "polled_ok ?S" using inv by (simp_all add: it_inv_def same_parts [of ?S S])
  then obtain T where T: "update_loop W (devs ?S) ?S = Some T" "updated ?S (filter (\<lambda>a. dev_state (dev ?S a) \<noteq> device_state_removed) (devs ?S)) T"
    using assms(4) by (rule update_all)
  have fd: "dev_fd (dev T a) = dev_fd (dev S a)" if "a \<in> set (devs T)" for a using T(2) that by (simp add: updated_def)
  have "hotplugPipeRead T = hotplugPipeRead S" "polled_ok T" using T(2) by (simp_all add: updated_def)
  then have H: "polled (fds T) (hotplugPipeRead S) \<noteq> None" unfolding polled_ok_def by metis
  have "polled (fds T) k \<noteq> None \<longleftrightarrow> k = hotplugPipeRead S \<or> 0 < live S k" for k
  proof
    assume "polled (fds T) k \<noteq> None"
    then obtain e where "entry_ok T k e" using T(2) by (auto simp: updated_def polled_ok_def)
    then show "k = hotplugPipeRead S \<or> 0 < live S k"
      using T(2) fd by (auto simp: entry_ok_def updated_def live_def filter_empty_conv split: if_splits)
  next
    assume "k = hotplugPipeRead S \<or> 0 < live S k"
    then show "polled (fds T) k \<noteq> None"
    proof
      assume "0 < live S k"
      then obtain a where a: "a \<in> set (devs T)" "dev_fd (dev S a) = k" using T(2) by (auto simp: live_def updated_def filter_empty_conv)
      then have "map_option osfd_data (polled (fds T) (dev_fd (dev T a))) = Some (Some a)" using T(2) by (auto simp: updated_def polled_ok_def all_running_def)
      then show ?thesis using fd a by auto
    qed (use H in simp)
  qed
  moreover have "check_changes W S = Some (T\<lparr>thread_pc := Waiting\<rparr>)" using T(1) assms(3) by (simp add: check_changes_def)
  ultimately show "\<exists>S'. check_changes W S = Some S' \<and> \<not> changed S' \<and> dom (dev_heap S') = set (devs S') \<and>
       devs S' = filter (\<lambda>a. dev_state (dev S a) \<noteq> device_state_removed) (devs S) \<and>
       (\<forall>fd. polled (fds S') fd \<noteq> None \<longleftrightarrow> fd = hotplugPipeRead S \<or> 0 < live S fd)"
    using T(2) by (intro exI [of _ "T\<lparr>thread_pc := Waiting\<rparr>"]) (simp add: updated_def devs_ok_def)
qed

theorem input_changes_taken_witness:
  "\<exists>S'. check_changes (\<lambda>fd. sample_world) sample_registered = Some S' \<and> devs S' = [1] \<and> polled (fds S') 5 \<noteq> None"
proof -
  have "\<forall>fd :: int. generous sample_world" using sample_generous by simp
  from input_changes_taken [OF sample_started sample_reach(1) sample_registered_val(2) this] show ?thesis
    by (auto simp: sample_registered_val)
qed

text \<open>A descriptor that was unregistered and registered again before the thread looked: unregistering it once more finds the device that is
  already removed, and the new one stays.\<close>

theorem unregister_misses_new_device:
  assumes "devs S = [a, b]" "dev_heap S a = Some d" "dev_heap S b = Some d'" "dev_fd d = fd" "dev_fd d' = fd"
    and "dev_state d = device_state_removed" "dev_state d' = device_state_added"
  shows "\<exists>S'. InputThreadUnregisterDev fd S = Some (1, S') \<and> dev_heap S' = dev_heap S"
  using assms by (auto simp: InputThreadUnregisterDev_def update_dev_def mark_changed_def fun_upd_idem)

end
