(* ===== verification/Dix_Work.thy ===== *)
theory Dix_Work
  imports Lorie_Prelude "HOL-Library.Multiset"
begin

text \<open>
  The work queue of the X server (\<^verbatim>\<open>xserver/dix/dixutils.c\<close>): a singly linked list of calls with a pointer to the field in which the last
  node is linked. \<^verbatim>\<open>lorie/cmdentrypoint.c\<close> and \<^verbatim>\<open>lorie/InitOutput.c\<close> queue the work that must be done on the server thread here.
\<close>

section \<open>State and operations\<close>

record 'w work_node =
  node_work :: 'w
  node_next :: "nat option"

text \<open>The fields that can point to a node: the variable \<^verbatim>\<open>workQueue\<close>, or the field \<^verbatim>\<open>next\<close> of a node.\<close>

datatype slot = Head | Next nat

text \<open>\<open>fresh_node\<close> is the address the next allocation returns; freed addresses are not used again, so that every use of one is seen. \<open>work_calls\<close>
  records the functions that were called.\<close>

record 'w work_queue =
  workQueue :: "nat option"
  nodes :: "nat \<rightharpoonup> 'w work_node"
  workQueueLast :: slot
  fresh_node :: nat
  work_calls :: "'w list"

definition empty_queue :: "'w work_queue" where
  "empty_queue = \<lparr>workQueue = None, nodes = Map.empty, workQueueLast = Head, fresh_node = 0, work_calls = []\<rparr>"

text \<open>Reading and writing a field; \<open>None\<close> is an access to a freed node.\<close>

fun load :: "slot \<Rightarrow> 'w work_queue \<Rightarrow> nat option option" where
  "load Head S = Some (workQueue S)"
| "load (Next a) S = map_option node_next (nodes S a)"

fun store :: "slot \<Rightarrow> nat option \<Rightarrow> 'w work_queue \<Rightarrow> 'w work_queue option" where
  "store Head v S = Some (S\<lparr>workQueue := v\<rparr>)"
| "store (Next a) v S = map_option (\<lambda>n. S\<lparr>nodes := (nodes S)(a \<mapsto> n\<lparr>node_next := v\<rparr>)\<rparr>) (nodes S a)"

definition QueueWorkProc :: "bool \<Rightarrow> 'w \<Rightarrow> 'w work_queue \<Rightarrow> (bool \<times> 'w work_queue) option" where
  "QueueWorkProc mem w S =
     (if mem then
        let q = fresh_node S;
            S1 = S\<lparr>fresh_node := Suc q, nodes := (nodes S)(q \<mapsto> \<lparr>node_work = w, node_next = None\<rparr>)\<rparr>
        in map_option (\<lambda>S2. (True, S2\<lparr>workQueueLast := Next q\<rparr>)) (store (workQueueLast S1) (Some q) S1)
      else Some (False, S))"

fun queue_all :: "('w \<times> bool) list \<Rightarrow> 'w work_queue \<Rightarrow> 'w work_queue option" where
  "queue_all [] S = Some S"
| "queue_all ((w, mem) # ws) S = Option.bind (QueueWorkProc mem w S) (\<lambda>(b, S'). queue_all ws S')"

text \<open>What a function does: whether it is done, and the work it queues itself, each with the answer of the allocator.\<close>

type_synonym 'w behaviour = "'w \<Rightarrow> bool \<times> ('w \<times> bool) list"

text \<open>One round of the loop of \<^verbatim>\<open>ProcessWorkQueue\<close> at the field \<open>p\<close>, which points to the node \<open>q\<close>.\<close>

definition work_round :: "'w behaviour \<Rightarrow> slot \<Rightarrow> nat \<Rightarrow> 'w work_queue \<Rightarrow> (slot \<times> 'w work_queue) option" where
  "work_round act p q S =
     Option.bind (nodes S q) (\<lambda>n.
       Option.bind (queue_all (snd (act (node_work n))) (S\<lparr>work_calls := work_calls S @ [node_work n]\<rparr>)) (\<lambda>S1.
         if fst (act (node_work n)) then
           Option.bind (load (Next q) S1) (\<lambda>nx. map_option (\<lambda>S2. (p, S2\<lparr>nodes := (nodes S2)(q := None)\<rparr>)) (store p nx S1))
         else Some (Next q, S1)))"

partial_function (option) work_loop :: "'w behaviour \<Rightarrow> slot \<Rightarrow> 'w work_queue \<Rightarrow> 'w work_queue option" where
  "work_loop act p S =
     Option.bind (load p S) (\<lambda>r.
       case r of
         None \<Rightarrow> Some (S\<lparr>workQueueLast := p\<rparr>)
       | Some q \<Rightarrow> Option.bind (work_round act p q S) (\<lambda>(p', S'). work_loop act p' S'))"

definition ProcessWorkQueue :: "'w behaviour \<Rightarrow> 'w work_queue \<Rightarrow> 'w work_queue option" where
  "ProcessWorkQueue act S = work_loop act Head S"

partial_function (option) clear_loop :: "'w work_queue \<Rightarrow> 'w work_queue option" where
  "clear_loop S =
     (case workQueue S of
        None \<Rightarrow> Some (S\<lparr>workQueueLast := Head\<rparr>)
      | Some q \<Rightarrow> Option.bind (nodes S q) (\<lambda>n. clear_loop (S\<lparr>workQueue := node_next n, nodes := (nodes S)(q := None)\<rparr>)))"

definition ClearWorkQueue :: "'w work_queue \<Rightarrow> 'w work_queue option" where
  "ClearWorkQueue S = clear_loop S"

section \<open>The list in the heap\<close>

text \<open>From the field \<open>p\<close> the nodes are linked one after the other (\<open>seg\<close>), up to the end of the list (\<open>chain\<close>); \<open>end_slot\<close> is the field after them.\<close>

fun seg :: "'w work_queue \<Rightarrow> slot \<Rightarrow> nat list \<Rightarrow> bool" where
  "seg S p [] = True"
| "seg S p (a # as) = (load p S = Some (Some a) \<and> seg S (Next a) as)"

fun end_slot :: "slot \<Rightarrow> nat list \<Rightarrow> slot" where
  "end_slot p [] = p"
| "end_slot p (a # as) = end_slot (Next a) as"

definition chain :: "'w work_queue \<Rightarrow> slot \<Rightarrow> nat list \<Rightarrow> bool" where
  "chain S p as \<longleftrightarrow> seg S p as \<and> load (end_slot p as) S = Some None"

text \<open>The nodes \<open>as\<close> are the queue, and exactly these are allocated.\<close>

definition nodes_ok :: "'w work_queue \<Rightarrow> nat list \<Rightarrow> bool" where
  "nodes_ok S as \<longleftrightarrow> distinct as \<and> dom (nodes S) = set as \<and> (\<forall>a\<in>set as. a < fresh_node S) \<and> chain S Head as"

definition works :: "'w work_queue \<Rightarrow> nat list \<Rightarrow> 'w list" where
  "works S as = map (\<lambda>a. node_work (the (nodes S a))) as"

text \<open>The queue holds the work \<open>ws\<close>.\<close>

definition holds :: "'w work_queue \<Rightarrow> 'w list \<Rightarrow> bool" where
  "holds S ws \<longleftrightarrow> (\<exists>as. nodes_ok S as \<and> workQueueLast S = end_slot Head as \<and> works S as = ws)"

declare load.simps [simp del]

lemma seg_append: "seg S p (as @ bs) \<longleftrightarrow> seg S p as \<and> seg S (end_slot p as) bs"
  by (induction as arbitrary: p) auto

lemma end_append: "end_slot p (as @ bs) = end_slot (end_slot p as) bs"
  by (induction as arbitrary: p) auto

lemma work_chain_append: "chain S p (as @ bs) \<longleftrightarrow> seg S p as \<and> chain S (end_slot p as) bs"
  by (simp add: chain_def seg_append end_append conj_assoc)

lemma end_slot_last: "end_slot p as = (if as = [] then p else Next (last as))"
  by (induction as arbitrary: p) auto

lemma end_slot_in: "end_slot p as = p \<or> (\<exists>a\<in>set as. end_slot p as = Next a)"
  by (auto simp: end_slot_last)

lemma seg_frame:
  "seg S p as \<Longrightarrow> \<forall>x. x \<noteq> end_slot p as \<longrightarrow> x \<in> insert p (Next ` set as) \<longrightarrow> load x S' = load x S \<Longrightarrow> distinct as \<Longrightarrow> p \<notin> Next ` set as \<Longrightarrow> seg S' p as"
proof (induction as arbitrary: p)
  case (Cons a as)
  have "end_slot (Next a) as \<noteq> p" using Cons.prems(4) by (auto simp: end_slot_last split: if_splits)
  then have "load p S' = load p S" using Cons.prems(2) by (metis end_slot.simps(2) insertI1)
  then have "load p S' = Some (Some a)" using Cons.prems(1) by simp
  moreover have "seg S' (Next a) as" using Cons.prems by (intro Cons.IH) auto
  ultimately show ?case by simp
qed simp

lemma chain_frame:
  "chain S p as \<Longrightarrow> \<forall>x\<in>insert p (Next ` set as). load x S' = load x S \<Longrightarrow> chain S' p as"
proof (induction as arbitrary: p)
  case (Cons a as)
  then have "chain S' (Next a) as" by (intro Cons.IH) (auto simp: chain_def)
  then show ?case using Cons.prems by (simp add: chain_def)
qed (simp add: chain_def)

text \<open>A node is linked in at the end, or taken out behind \<open>ks\<close>.\<close>

lemma chain_snoc:
  assumes "chain S Head as" "distinct as" "q \<notin> set as"
    and "load (end_slot Head as) S' = Some (Some q)" "load (Next q) S' = Some None"
    and "\<And>x. x \<noteq> end_slot Head as \<Longrightarrow> x \<noteq> Next q \<Longrightarrow> load x S' = load x S"
  shows "chain S' Head (as @ [q])"
proof -
  have "seg S Head as" using assms(1) by (simp add: chain_def)
  then have "seg S' Head as" using assms(2,3) by (elim seg_frame) (auto intro!: assms(6))
  then show ?thesis using assms(4,5) by (simp add: work_chain_append) (simp add: chain_def)
qed

lemma chain_unlink:
  assumes "chain S Head (ks @ q # ts)" "distinct (ks @ q # ts)"
    and "load (end_slot Head ks) S' = load (Next q) S"
    and "\<And>x. x \<noteq> end_slot Head ks \<Longrightarrow> x \<noteq> Next q \<Longrightarrow> load x S' = load x S"
  shows "chain S' Head (ks @ ts)"
proof -
  let ?e = "end_slot Head ks"
  have c: "seg S Head ks" "chain S (Next q) ts" using assms(1) by (auto simp: work_chain_append) (simp add: chain_def)
  have "seg S' Head ks" using c(1) by (rule seg_frame) (use assms(2) in \<open>auto intro!: assms(4)\<close>)
  moreover have "chain S' ?e ts"
  proof (cases ts)
    case Nil
    then show ?thesis using c(2) assms(3) by (simp add: chain_def)
  next
    case (Cons t ts')
    have e: "?e \<notin> insert (Next t) (Next ` set ts')" using assms(2) Cons end_slot_in [of Head ks] by auto
    have "load (Next q) S = Some (Some t)" "chain S (Next t) ts'" using c(2) Cons by (simp_all add: chain_def)
    moreover have "\<forall>x\<in>insert (Next t) (Next ` set ts'). load x S' = load x S"
    proof
      fix x assume x: "x \<in> insert (Next t) (Next ` set ts')"
      then have "x \<noteq> ?e" using e by blast
      moreover have "x \<noteq> Next q" using x assms(2) Cons by auto
      ultimately show "load x S' = load x S" by (rule assms(4))
    qed
    with calculation(2) have "chain S' (Next t) ts'" by (rule chain_frame)
    ultimately show ?thesis using Cons assms(3) by (simp add: chain_def)
  qed
  ultimately show ?thesis by (simp add: work_chain_append)
qed

section \<open>Queueing\<close>

lemma load_after:
  "load x (S\<lparr>workQueue := v\<rparr>) = (if x = Head then Some v else load x S)"
  "load x (S\<lparr>nodes := (nodes S)(a \<mapsto> n)\<rparr>) = (if x = Next a then Some (node_next n) else load x S)"
  "load x (S\<lparr>nodes := (nodes S)(a := None)\<rparr>) = (if x = Next a then None else load x S)"
  "load x (S\<lparr>workQueueLast := l\<rparr>) = load x S" "load x (S\<lparr>fresh_node := k\<rparr>) = load x S" "load x (S\<lparr>work_calls := cs\<rparr>) = load x S"
  by (cases x; simp add: load.simps)+

lemma store_ok:
  assumes "load p S \<noteq> None"
  obtains S' where "store p v S = Some S'" "\<forall>x. load x S' = (if x = p then Some v else load x S)" "dom (nodes S') = dom (nodes S)"
    "\<forall>a. node_work (the (nodes S' a)) = node_work (the (nodes S a))"
    "fresh_node S' = fresh_node S" "workQueueLast S' = workQueueLast S" "work_calls S' = work_calls S"
proof (cases p)
  case Head
  then show thesis using that [of "S\<lparr>workQueue := v\<rparr>"] by (simp add: load_after)
next
  case (Next a)
  then obtain n where n: "nodes S a = Some n" using assms by (auto simp: load.simps)
  let ?S = "S\<lparr>nodes := (nodes S)(a \<mapsto> n\<lparr>node_next := v\<rparr>)\<rparr>"
  have "dom (nodes ?S) = dom (nodes S)" using n by auto
  then show thesis using that [of ?S] n Next by (simp add: load_after)
qed

text \<open>One call of \<^verbatim>\<open>QueueWorkProc\<close> on a list whose last field is known.\<close>

lemma queue_one:
  assumes "nodes_ok S as" "workQueueLast S = end_slot Head as"
  obtains b S' bs where "QueueWorkProc mem w S = Some (b, S')" "b = mem" "nodes_ok S' (as @ bs)" "workQueueLast S' = end_slot Head (as @ bs)"
    "works S' (as @ bs) = works S as @ (if mem then [w] else [])" "work_calls S' = work_calls S"
proof (cases mem)
  case False
  then show thesis using that [of False S "[]"] assms by (simp add: QueueWorkProc_def)
next
  case True
  let ?q = "fresh_node S" and ?e = "end_slot Head as"
  let ?S1 = "S\<lparr>fresh_node := Suc ?q, nodes := (nodes S)(?q \<mapsto> \<lparr>node_work = w, node_next = None\<rparr>)\<rparr>"
  have q: "?q \<notin> set as" using assms(1) by (auto simp: nodes_ok_def)
  have eq: "?e \<noteq> Next ?q" using q end_slot_in [of Head as] by auto
  have ld: "load x ?S1 = (if x = Next ?q then Some None else load x S)" for x by (cases x) (simp_all add: load.simps)
  have "load ?e ?S1 \<noteq> None" using assms(1) eq by (simp add: ld nodes_ok_def chain_def)
  then obtain S2 where S2: "store ?e (Some ?q) ?S1 = Some S2" "\<forall>x. load x S2 = (if x = ?e then Some (Some ?q) else load x ?S1)"
    "dom (nodes S2) = dom (nodes ?S1)" "\<forall>a. node_work (the (nodes S2 a)) = node_work (the (nodes ?S1 a))"
    "fresh_node S2 = fresh_node ?S1" "workQueueLast S2 = workQueueLast ?S1" "work_calls S2 = work_calls ?S1" by (rule store_ok)
  let ?S = "S2\<lparr>workQueueLast := Next ?q\<rparr>"
  have "chain S Head as" "distinct as" using assms(1) by (simp_all add: nodes_ok_def)
  then have "chain ?S Head (as @ [?q])" by (rule chain_snoc) (use q eq in \<open>simp_all add: load_after S2(2) ld\<close>)
  moreover have "dom (nodes ?S) = insert ?q (set as)" using assms(1) S2(3) by (auto simp: nodes_ok_def)
  ultimately have "nodes_ok ?S (as @ [?q])" using assms(1) q S2(5) by (auto simp: nodes_ok_def)
  moreover have "works ?S (as @ [?q]) = works S as @ [w]" using q by (auto simp: works_def S2(4))
  moreover have "QueueWorkProc mem w S = Some (True, ?S)" using True assms(2) S2(1) by (simp add: QueueWorkProc_def Let_def)
  ultimately show thesis using that [of True ?S "[?q]"] True S2(7) by (simp add: end_append)
qed

lemma queue_all_ok:
  assumes "nodes_ok S as" "workQueueLast S = end_slot Head as"
  obtains S' bs where "queue_all ws S = Some S'" "nodes_ok S' (as @ bs)" "workQueueLast S' = end_slot Head (as @ bs)"
    "works S' (as @ bs) = works S as @ map fst (filter snd ws)" "work_calls S' = work_calls S"
  using assms
proof (induction ws arbitrary: S as thesis)
  case Nil
  then show ?case using Nil.prems(1) [of S "[]"] by simp
next
  case (Cons x ws)
  obtain w mem where x: "x = (w, mem)" by fastforce
  obtain b S1 bs where S1: "QueueWorkProc mem w S = Some (b, S1)" "b = mem" "nodes_ok S1 (as @ bs)" "workQueueLast S1 = end_slot Head (as @ bs)"
    "works S1 (as @ bs) = works S as @ (if mem then [w] else [])" "work_calls S1 = work_calls S"
    using Cons.prems(2,3) by (rule queue_one)
  obtain S2 cs where "queue_all ws S1 = Some S2" "nodes_ok S2 ((as @ bs) @ cs)" "workQueueLast S2 = end_slot Head ((as @ bs) @ cs)"
    "works S2 ((as @ bs) @ cs) = works S1 (as @ bs) @ map fst (filter snd ws)" "work_calls S2 = work_calls S1"
    using Cons.IH [OF _ S1(3,4)] by blast
  then show ?case using Cons.prems(1) [of S2 "bs @ cs"] S1 x by simp
qed

section \<open>Processing\<close>

text \<open>The loop is behind the kept nodes \<open>ks\<close> and has the nodes \<open>ts\<close> to come. As long as there is one, the last field is known.\<close>

definition loop_at :: "'w work_queue \<Rightarrow> slot \<Rightarrow> nat list \<Rightarrow> nat list \<Rightarrow> bool" where
  "loop_at S p ks ts \<longleftrightarrow> nodes_ok S (ks @ ts) \<and> p = end_slot Head ks \<and> (ts \<noteq> [] \<longrightarrow> workQueueLast S = end_slot Head (ks @ ts))"

lemma loop_load:
  assumes "loop_at S p ks ts"
  shows "load p S = Some (case ts of [] \<Rightarrow> None | q # _ \<Rightarrow> Some q)"
proof -
  have "chain S p ts" using assms by (simp add: loop_at_def nodes_ok_def work_chain_append)
  then show ?thesis by (cases ts) (simp_all add: chain_def)
qed

text \<open>The called function may queue more work; a function that is done is unlinked and freed.\<close>

lemma round_ok:
  assumes "loop_at S p ks (q # ts)" and w: "node_work (the (nodes S q)) = w"
  obtains p' S' ks' ts' where "work_round act p q S = Some (p', S')" "loop_at S' p' ks' ts'" "work_calls S' = work_calls S @ [w]"
    "works S' ts' = works S ts @ map fst (filter snd (snd (act w)))" "works S' ks' = works S ks @ (if fst (act w) then [] else [w])"
proof -
  let ?S0 = "S\<lparr>work_calls := work_calls S @ [w]\<rparr>" and ?as = "ks @ q # ts"
  have ok: "nodes_ok S ?as" "p = end_slot Head ks" "workQueueLast S = end_slot Head ?as" using assms(1) by (simp_all add: loop_at_def)
  have "q \<in> dom (nodes S)" using ok(1) by (simp add: nodes_ok_def)
  then obtain n where n: "nodes S q = Some n" "node_work n = w" using w by auto
  have "chain S Head ?as" using ok(1) by (simp add: nodes_ok_def)
  then have "chain ?S0 Head ?as" by (rule chain_frame) (simp add: load_after)
  then have "nodes_ok ?S0 ?as" "workQueueLast ?S0 = end_slot Head ?as" using ok by (simp_all add: nodes_ok_def)
  then obtain S1 bs where S1: "queue_all (snd (act w)) ?S0 = Some S1" "nodes_ok S1 (?as @ bs)" "workQueueLast S1 = end_slot Head (?as @ bs)"
    "works S1 (?as @ bs) = works ?S0 ?as @ map fst (filter snd (snd (act w)))" "work_calls S1 = work_calls ?S0" by (rule queue_all_ok)
  have split: "works S1 ks = works S ks" "node_work (the (nodes S1 q)) = w" "works S1 (ts @ bs) = works S ts @ map fst (filter snd (snd (act w)))"
    using S1(4) w by (simp_all add: works_def)
  show thesis
  proof (cases "fst (act w)")
    case False
    have "work_round act p q S = Some (Next q, S1)" using n S1(1) False by (simp add: work_round_def)
    moreover have "loop_at S1 (Next q) (ks @ [q]) (ts @ bs)" using S1(2,3) by (simp add: loop_at_def end_append)
    ultimately show thesis using that split S1(5) False by (simp add: works_def)
  next
    case True
    have d: "distinct (ks @ q # ts @ bs)" "chain S1 Head (ks @ q # ts @ bs)" "q \<in> dom (nodes S1)" using S1(2) by (auto simp: nodes_ok_def)
    have pq: "p \<noteq> Next q" using ok(2) d(1) end_slot_in [of Head ks] by auto
    obtain nx where nx: "load (Next q) S1 = Some nx" using d(3) by (auto simp: load.simps)
    have "load p S1 \<noteq> None" using d(2) ok(2) by (simp add: work_chain_append) (simp add: chain_def)
    then obtain S2 where S2: "store p nx S1 = Some S2" "\<forall>x. load x S2 = (if x = p then Some nx else load x S1)"
      "dom (nodes S2) = dom (nodes S1)" "\<forall>a. node_work (the (nodes S2 a)) = node_work (the (nodes S1 a))"
      "fresh_node S2 = fresh_node S1" "workQueueLast S2 = workQueueLast S1" "work_calls S2 = work_calls S1" by (rule store_ok)
    let ?S = "S2\<lparr>nodes := (nodes S2)(q := None)\<rparr>"
    have "chain ?S Head (ks @ ts @ bs)"
      using d(2,1) by (rule chain_unlink) (use pq nx ok(2) in \<open>simp_all add: load_after S2(2)\<close>)
    moreover have "dom (nodes ?S) = set (ks @ ts @ bs)" using S1(2) S2(3) d(1) by (auto simp: nodes_ok_def)
    ultimately have "nodes_ok ?S (ks @ ts @ bs)" using S1(2) S2(5) by (auto simp: nodes_ok_def)
    moreover have "end_slot Head (ks @ q # ts @ bs) = end_slot Head (ks @ ts @ bs)" if "ts @ bs \<noteq> []"
      using that by (auto simp: end_slot_last)
    ultimately have "loop_at ?S p ks (ts @ bs)" using ok(2) S2(6) S1(3) by (simp add: loop_at_def)
    moreover have "works ?S xs = works S1 xs" if "q \<notin> set xs" for xs using that by (auto simp: works_def S2(4))
    then have "works ?S (ts @ bs) = works S1 (ts @ bs)" "works ?S ks = works S1 ks" using d(1) by simp_all
    moreover have "work_round act p q S = Some (p, ?S)" using n S1(1) True nx S2(1) by (simp add: work_round_def)
    ultimately show thesis using that split S1(5) S2(7) True by simp
  qed
qed

text \<open>What processing is meant to do: call every function in order, also those queued meanwhile; keep the ones that are not done.\<close>

inductive work_outcome :: "'w behaviour \<Rightarrow> 'w list \<Rightarrow> 'w list \<Rightarrow> 'w list \<Rightarrow> 'w list \<Rightarrow> bool" for act where
  all_called: "work_outcome act kept [] [] kept"
| call_work: "work_outcome act (kept @ (if fst (act w) then [] else [w])) (todo @ map fst (filter snd (snd (act w)))) called left \<Longrightarrow>
    work_outcome act kept (w # todo) (w # called) left"

lemma processed_calls_todo: "work_outcome act kept todo called left \<Longrightarrow> take (length todo) called = todo"
proof (induction rule: work_outcome.induct)
  case (call_work kept w todo called left)
  let ?more = "map fst (filter snd (snd (act w)))"
  have "take (length todo) called = take (length todo) (take (length (todo @ ?more)) called)" by (simp add: min_def)
  also have "\<dots> = take (length todo) (todo @ ?more)" unfolding call_work.IH ..
  finally show ?case by simp
qed simp

lemma processed_keeps: "work_outcome act kept todo called left \<Longrightarrow> left = kept @ filter (\<lambda>w. \<not> fst (act w)) called"
  by (induction rule: work_outcome.induct) auto

text \<open>The queue empties when no function queues work that in turn queues work for ever: some rank goes down from the caller to what it queues.\<close>

definition settles :: "('w \<Rightarrow> nat) \<Rightarrow> 'w behaviour \<Rightarrow> bool" where
  "settles rank act \<longleftrightarrow> (\<forall>w. \<forall>v\<in>set (snd (act w)). rank (fst v) < rank w)"

lemma settles_less:
  assumes "settles rank act"
  shows "(image_mset rank (mset (ws @ map fst (filter snd (snd (act w))))), image_mset rank (mset (w # ws))) \<in> mult less_than"
proof -
  let ?more = "map fst (filter snd (snd (act w)))"
  have "\<forall>k\<in>#image_mset rank (mset ?more). \<exists>j\<in>#{#rank w#}. (k, j) \<in> less_than" using assms by (auto simp: settles_def)
  then have "(image_mset rank (mset ws) + image_mset rank (mset ?more), image_mset rank (mset ws) + {#rank w#}) \<in> mult less_than"
    by (intro one_step_implies_mult) auto
  then show ?thesis by simp
qed

lemma work_loop_ok:
  assumes "settles rank act" "loop_at S p ks ts"
  shows "\<exists>S' called left. work_loop act p S = Some S' \<and> holds S' left \<and> work_calls S' = work_calls S @ called \<and>
    work_outcome act (works S ks) (works S ts) called left"
  using assms(2)
proof (induction "image_mset rank (mset (works S ts))" arbitrary: S p ks ts rule: wf_induct_rule [OF wf_mult [OF wf_less_than]])
  case (1 S ts)
  show ?case
  proof (cases ts)
    case Nil
    let ?S = "S\<lparr>workQueueLast := p\<rparr>"
    have ok: "nodes_ok S ks" "p = end_slot Head ks" using 1(2) Nil by (simp_all add: loop_at_def)
    then have "chain ?S Head ks" using chain_frame [of S Head ks ?S] by (simp add: nodes_ok_def load_after)
    then have "nodes_ok ?S ks" using ok(1) by (simp add: nodes_ok_def)
    then have "holds ?S (works S ks)" using ok(2) by (auto simp: holds_def works_def)
    moreover have "work_loop act p S = Some ?S" using loop_load [OF 1(2)] Nil by (simp add: work_loop.simps)
    moreover have "work_outcome act (works S ks) (works S ts) [] (works S ks)" using Nil all_called [of act] by (simp add: works_def)
    ultimately show ?thesis by (intro exI [of _ ?S] exI [of _ "[]"] exI [of _ "works S ks"]) simp
  next
    case (Cons q ts')
    let ?w = "node_work (the (nodes S q))"
    have "loop_at S p ks (q # ts')" using 1(2) Cons by simp
    then obtain p' S1 ks1 ts1 where r: "work_round act p q S = Some (p', S1)" "loop_at S1 p' ks1 ts1" "work_calls S1 = work_calls S @ [?w]"
      "works S1 ts1 = works S ts' @ map fst (filter snd (snd (act ?w)))" "works S1 ks1 = works S ks @ (if fst (act ?w) then [] else [?w])"
      using refl by (rule round_ok)
    have "works S ts = ?w # works S ts'" using Cons by (simp add: works_def)
    then have "(image_mset rank (mset (works S1 ts1)), image_mset rank (mset (works S ts))) \<in> mult less_than"
      using settles_less [OF assms(1)] r(4) by simp
    from 1(1) [OF this r(2)] obtain S' called left where S': "work_loop act p' S1 = Some S'" "holds S' left" "work_calls S' = work_calls S1 @ called"
      "work_outcome act (works S1 ks1) (works S1 ts1) called left" by blast
    have "work_loop act p S = Some S'" using loop_load [OF 1(2)] Cons r(1) S'(1) by (simp add: work_loop.simps [of act p])
    moreover have "work_outcome act (works S ks) (works S ts) (?w # called) left"
      using S'(4) \<open>works S ts = _\<close> unfolding r(4,5) by (simp add: call_work)
    ultimately show ?thesis using S'(2,3) r(3) by (intro exI [of _ S'] exI [of _ "?w # called"] exI [of _ left]) simp
  qed
qed

lemma empty_queue_holds: "holds empty_queue []"
  by (simp add: holds_def nodes_ok_def works_def empty_queue_def chain_def load.simps)

lemma queue_holds:
  assumes "holds S ws"
  shows "\<exists>S'. QueueWorkProc mem w S = Some (mem, S') \<and> holds S' (ws @ (if mem then [w] else []))"
proof -
  obtain as where as: "nodes_ok S as" "workQueueLast S = end_slot Head as" "works S as = ws" using assms by (auto simp: holds_def)
  from as(1,2) obtain b S' bs where "QueueWorkProc mem w S = Some (b, S')" "b = mem" "nodes_ok S' (as @ bs)" "workQueueLast S' = end_slot Head (as @ bs)"
    "works S' (as @ bs) = works S as @ (if mem then [w] else [])" "work_calls S' = work_calls S" by (rule queue_one)
  then show ?thesis using as(3) by (auto simp: holds_def)
qed

lemma clear_loop_ok: "nodes_ok S as \<Longrightarrow> \<exists>S'. clear_loop S = Some S' \<and> holds S' [] \<and> nodes S' = Map.empty"
proof (induction as arbitrary: S)
  case Nil
  then show ?case by (intro exI [of _ "S\<lparr>workQueueLast := Head\<rparr>"])
      (simp add: clear_loop.simps nodes_ok_def chain_def load.simps holds_def works_def)
next
  case (Cons a as)
  then have "a \<in> dom (nodes S)" by (simp add: nodes_ok_def)
  then obtain n where n: "nodes S a = Some n" by blast
  let ?S = "S\<lparr>workQueue := node_next n, nodes := (nodes S)(a := None)\<rparr>"
  have c: "workQueue S = Some a" "chain S Head ([] @ a # as)" "distinct ([] @ a # as)" using Cons.prems by (auto simp: nodes_ok_def chain_def load.simps)
  have l: "load Head ?S = load (Next a) S" "x \<noteq> Head \<Longrightarrow> x \<noteq> Next a \<Longrightarrow> load x ?S = load x S" for x
    using n by (simp_all add: load.simps, cases x) (simp_all add: load.simps)
  have "chain ?S Head as" using chain_unlink [OF c(2,3), of ?S] l by simp
  then have "nodes_ok ?S as" using Cons.prems by (auto simp: nodes_ok_def)
  then show ?case using Cons.IH [of ?S] c(1) n by (simp add: clear_loop.simps [of S])
qed

section \<open>Properties\<close>

text \<open>
  C23. Work is done in the order it was queued: \<^verbatim>\<open>ProcessWorkQueue\<close> returns, touches no freed node, calls first the queued functions in their order
  and then what these queued themselves, and keeps exactly those that were not done, so long as functions do not queue work for ever.
\<close>

theorem work_processed_in_order:
  assumes "holds S ws" "settles rank act"
  shows "\<exists>S' called. ProcessWorkQueue act S = Some S' \<and> work_calls S' = work_calls S @ called \<and> take (length ws) called = ws \<and>
    holds S' (filter (\<lambda>w. \<not> fst (act w)) called)"
proof -
  obtain as where as: "nodes_ok S as" "workQueueLast S = end_slot Head as" "works S as = ws" using assms(1) by (auto simp: holds_def)
  then have "loop_at S Head [] as" by (simp add: loop_at_def)
  from work_loop_ok [OF assms(2) this] obtain S' called left where S': "work_loop act Head S = Some S'" "holds S' left"
    "work_calls S' = work_calls S @ called" "work_outcome act [] ws called left" using as(3) by (auto simp: works_def)
  from processed_calls_todo [OF S'(4)] processed_keeps [OF S'(4)] S'(1-3) show ?thesis by (auto simp: ProcessWorkQueue_def)
qed

text \<open>Two functions; the first one queues a third, the second one is not done.\<close>

definition sample_act :: "nat behaviour" where
  "sample_act w = (if w = 1 then (True, [(0, True)]) else if w = 2 then (False, []) else (True, []))"

theorem work_processed_in_order_witness:
  "\<exists>S S' called. queue_all [(1, True), (2, True)] empty_queue = Some S \<and> ProcessWorkQueue sample_act S = Some S' \<and>
     work_calls S' = work_calls S @ called \<and> take 2 called = [1, 2]"
proof -
  obtain S1 where S1: "QueueWorkProc True 1 empty_queue = Some (True, S1)" "holds S1 [1 :: nat]" using queue_holds [OF empty_queue_holds, of True "1 :: nat"] by auto
  obtain S where S: "QueueWorkProc True 2 S1 = Some (True, S)" "holds S [1, 2]" using queue_holds [OF S1(2), of True 2] by auto
  have "settles id sample_act" by (simp add: settles_def sample_act_def)
  from work_processed_in_order [OF S(2) this] S1(1) S(1) show ?thesis by (auto simp: numeral_2_eq_2)
qed

text \<open>
  The server thread processes the queue without a lock, while the input thread and the callbacks of Java queue work. When the server has freed the
  last node and not yet set the field after it, a call of \<^verbatim>\<open>QueueWorkProc\<close> writes into the freed node.
\<close>

theorem queueing_writes_freed_node:
  assumes "nodes_ok S [a]" "workQueueLast S = Next a" "act (node_work (the (nodes S a))) = (True, [])"
  shows "\<exists>S'. work_round act Head a S = Some (Head, S') \<and> QueueWorkProc True v S' = None"
proof -
  obtain n where n: "nodes S a = Some n" using assms(1) by (auto simp: nodes_ok_def)
  have "a < fresh_node S" using assms(1) by (simp add: nodes_ok_def)
  then show ?thesis using n assms(2,3) by (simp add: work_round_def QueueWorkProc_def Let_def load.simps)
qed

text \<open>When the server has found the queue empty and work is queued before it sets the field after the last node, the next work queued replaces
  that work, which is then never done.\<close>

theorem queueing_loses_work:
  assumes "holds S []"
  shows "\<exists>S1 S2. QueueWorkProc True v S = Some (True, S1) \<and> QueueWorkProc True u (S1\<lparr>workQueueLast := Head\<rparr>) = Some (True, S2) \<and>
    (\<exists>a. workQueue S2 = Some a \<and> nodes S2 a = Some \<lparr>node_work = u, node_next = None\<rparr>)"
proof -
  have "workQueueLast S = Head" using assms by (auto simp: holds_def works_def)
  then show ?thesis by (simp add: QueueWorkProc_def Let_def)
qed

end
