(* ===== verification/Os_Timers.thy ===== *)
theory Os_Timers
  imports Lorie_Prelude
begin

text \<open>
  The timers of the X server (\<^verbatim>\<open>xserver/os/WaitFor.c\<close>): a list sorted by the time at which a timer expires, in milliseconds of a clock of 32 bits that
  wraps around every 49 days. \<^verbatim>\<open>lorie/InitOutput.c\<close> counts its frames with one.
\<close>

section \<open>State and operations\<close>

record 'c OsTimer =
  expires :: u32
  delta :: u32
  callback :: 'c

text \<open>\<open>timers\<close> is the list of pending timers, \<open>timer_heap\<close> the allocated ones, \<open>clock\<close> what \<^verbatim>\<open>GetTimeInMillis\<close> returns; \<open>fired\<close> records the calls of callbacks
  with the time they were given.\<close>

record 'c timer_state =
  timers :: "nat list"
  timer_heap :: "nat \<rightharpoonup> 'c OsTimer"
  clock :: u32
  fired :: "(nat \<times> u32) list"

text \<open>A callback returns the time after which it is to be called again, or 0, and takes some time itself.\<close>

type_synonym 'c timer_act = "'c \<Rightarrow> u32 \<Rightarrow> u32 \<times> u32"

definition call_timer :: "'c timer_act \<Rightarrow> nat \<Rightarrow> u32 \<Rightarrow> 'c timer_state \<Rightarrow> (u32 \<times> 'c timer_state) option" where
  "call_timer act t now S =
     map_option (\<lambda>r. case act (callback r) now of (newTime, elapsed) \<Rightarrow>
         (newTime, S\<lparr>clock := clock S + elapsed, fired := fired S @ [(t, now)]\<rparr>)) (timer_heap S t)"

text \<open>The place of a timer in the list; the comparison is that of \<^verbatim>\<open>(int) (existing->expires - millis) > 0\<close>.\<close>

fun sort_in :: "(nat \<rightharpoonup> 'c OsTimer) \<Rightarrow> u32 \<Rightarrow> nat \<Rightarrow> nat list \<Rightarrow> nat list option" where
  "sort_in h millis t [] = Some [t]"
| "sort_in h millis t (x # xs) =
     Option.bind (h x) (\<lambda>r. if sint (expires r - millis) > 0 then Some (t # x # xs) else map_option ((#) x) (sort_in h millis t xs))"

text \<open>The second half of \<^verbatim>\<open>TimerSet\<close>: the timer is given its time and sorted into the list.\<close>

definition arm_timer :: "nat \<Rightarrow> bool \<Rightarrow> u32 \<Rightarrow> u32 \<Rightarrow> 'c \<Rightarrow> 'c timer_state \<Rightarrow> (u32 \<times> 'c timer_state) option" where
  "arm_timer t absolute millis now func S =
     (let millis' = (if absolute then millis else millis + now);
          r = \<lparr>expires = millis', delta = (if absolute then millis - now else millis), callback = func\<rparr>;
          h = (timer_heap S)(t \<mapsto> r)
      in map_option (\<lambda>ts. (millis', S\<lparr>timer_heap := h, timers := ts\<rparr>)) (sort_in h millis' t (timers S)))"

text \<open>\<^verbatim>\<open>DoTimer\<close> and the call of \<^verbatim>\<open>TimerSet\<close> in it, which calls \<^verbatim>\<open>DoTimer\<close> again for a time that is already over.\<close>

partial_function (option) DoTimer :: "'c timer_act \<Rightarrow> nat \<Rightarrow> u32 \<Rightarrow> 'c timer_state \<Rightarrow> 'c timer_state option" where
  "DoTimer act t now S =
     Option.bind (call_timer act t now (S\<lparr>timers := remove1 t (timers S)\<rparr>)) (\<lambda>(newTime, S1).
       if newTime = 0 then Some S1
       else Option.bind (timer_heap S1 t) (\<lambda>r.
         Option.bind (arm_timer t False newTime (clock S1) (callback r) S1) (\<lambda>(millis, S2).
           if sint (millis - clock S1) \<le> 0 then DoTimer act t (clock S1) S2 else Some S2)))"

partial_function (option) DoTimers :: "'c timer_act \<Rightarrow> u32 \<Rightarrow> 'c timer_state \<Rightarrow> 'c timer_state option" where
  "DoTimers act now S =
     (case timers S of
        [] \<Rightarrow> Some S
      | t # ts \<Rightarrow> Option.bind (timer_heap S t) (\<lambda>r.
          if sint (expires r - now) > 0 then Some S else Option.bind (DoTimer act t now S) (DoTimers act now)))"

text \<open>\<^verbatim>\<open>TimerSet\<close>: \<open>new\<close> is the address for a new timer when none is given. It returns the timer, or none when there is no memory.\<close>

definition TimerSet :: "'c timer_act \<Rightarrow> nat option \<Rightarrow> nat option \<Rightarrow> bool \<Rightarrow> bool \<Rightarrow> u32 \<Rightarrow> 'c \<Rightarrow> 'c timer_state \<Rightarrow> (nat option \<times> 'c timer_state) option" where
  "TimerSet act new timer force_old absolute millis func S =
     (let now = clock S;
          armed = (\<lambda>t S1.
            if millis = 0 then Some (Some t, S1)
            else Option.bind (arm_timer t absolute millis now func S1) (\<lambda>(millis', S2).
              if sint (millis' - now) \<le> 0 then map_option (Pair (Some t)) (DoTimer act t now S2) else Some (Some t, S2)))
      in case timer of
           None \<Rightarrow>
             (case new of
                None \<Rightarrow> Some (None, S)
              | Some t \<Rightarrow> armed t (S\<lparr>timer_heap := (timer_heap S)(t \<mapsto> \<lparr>expires = 0, delta = 0, callback = func\<rparr>)\<rparr>))
         | Some t \<Rightarrow>
             if t \<in> set (timers S) then
               let S1 = S\<lparr>timers := remove1 t (timers S)\<rparr>
               in if force_old then Option.bind (call_timer act t now S1) (\<lambda>(newTime, S2). armed t S2) else armed t S1
             else armed t S)"

definition TimerForce :: "'c timer_act \<Rightarrow> nat \<Rightarrow> 'c timer_state \<Rightarrow> (bool \<times> 'c timer_state) option" where
  "TimerForce act t S = (if t \<in> set (timers S) then map_option (Pair True) (DoTimer act t (clock S) S) else Some (False, S))"

definition TimerCancel :: "nat option \<Rightarrow> 'c timer_state \<Rightarrow> 'c timer_state" where
  "TimerCancel timer S = (case timer of None \<Rightarrow> S | Some t \<Rightarrow> S\<lparr>timers := remove1 t (timers S)\<rparr>)"

definition TimerFree :: "nat option \<Rightarrow> 'c timer_state \<Rightarrow> 'c timer_state" where
  "TimerFree timer S = (case timer of None \<Rightarrow> S | Some t \<Rightarrow> (TimerCancel timer S)\<lparr>timer_heap := (timer_heap S)(t := None)\<rparr>)"

text \<open>\<^verbatim>\<open>CheckAllTimers\<close>: a timer that is further away than it was ever set runs, and the list is searched again.\<close>

fun rewound :: "(nat \<rightharpoonup> 'c OsTimer) \<Rightarrow> u32 \<Rightarrow> nat list \<Rightarrow> nat option option" where
  "rewound h now [] = Some None"
| "rewound h now (t # ts) = Option.bind (h t) (\<lambda>r. if expires r - now > delta r + 250 then Some (Some t) else rewound h now ts)"

partial_function (option) CheckAllTimers :: "'c timer_act \<Rightarrow> 'c timer_state \<Rightarrow> 'c timer_state option" where
  "CheckAllTimers act S =
     Option.bind (rewound (timer_heap S) (clock S) (timers S)) (\<lambda>r.
       case r of None \<Rightarrow> Some S | Some t \<Rightarrow> Option.bind (DoTimer act t (clock S) S) (CheckAllTimers act))"

text \<open>The time the server may sleep: none is for ever.\<close>

definition check_timers :: "'c timer_act \<Rightarrow> 'c timer_state \<Rightarrow> (u32 option \<times> 'c timer_state) option" where
  "check_timers act S =
     (case timers S of
        [] \<Rightarrow> Some (None, S)
      | t # ts \<Rightarrow> Option.bind (timer_heap S t) (\<lambda>r.
          let now = clock S; timeout = expires r - now
          in if sint timeout \<le> 0 then map_option (Pair (Some 0)) (DoTimers act now S)
             else if timeout < delta r + 250 then Some (Some timeout, S)
             else map_option (Pair (Some 0)) (CheckAllTimers act S)))"

section \<open>Times in a window of the clock\<close>

text \<open>Times are compared by the sign of their difference. That is an order as long as they lie within half the range of the clock, counted from some
  time \<open>base\<close>: then \<open>key\<close>, the distance from it, decides.\<close>

definition key :: "u32 \<Rightarrow> u32 \<Rightarrow> nat" where
  "key base x = unat (x - base)"

lemma key_later:
  assumes "key base a < 2 ^ 31" "key base b < 2 ^ 31"
  shows "sint (a - b) > 0 \<longleftrightarrow> key base b < key base a"
proof -
  have e: "a - b = word_of_int (int (key base a) - int (key base b))" by (simp add: key_def)
  have "sint (a - b) = int (key base a) - int (key base b)"
    unfolding e using assms by (subst signed_of_int) (simp add: signed_take_bit_int_eq_self)
  then show ?thesis by linarith
qed

lemma key_add:
  assumes "key base x + unat d < 2 ^ 32"
  shows "key base (x + d) = key base x + unat d"
proof -
  have "x + d - base = (x - base) + d" by simp
  moreover have "unat ((x - base) + d) = unat (x - base) + unat d" using assms unat_add_lem [of "x - base" d] by (simp add: key_def)
  ultimately show ?thesis unfolding key_def by (simp only:)
qed

text \<open>The time of a timer, and the invariant: the pending timers are allocated, in the window and sorted.\<close>

definition due :: "u32 \<Rightarrow> 'c timer_state \<Rightarrow> nat \<Rightarrow> nat" where
  "due base S t = key base (expires (the (timer_heap S t)))"

lemma due_update [simp]: "due base (S\<lparr>timers := ts\<rparr>) = due base S" "due base (S\<lparr>clock := c\<rparr>) = due base S" "due base (S\<lparr>fired := f\<rparr>) = due base S"
  by (simp_all add: due_def fun_eq_iff)

definition timers_ok :: "u32 \<Rightarrow> 'c timer_state \<Rightarrow> bool" where
  "timers_ok base S \<longleftrightarrow> distinct (timers S) \<and> set (timers S) \<subseteq> dom (timer_heap S) \<and> (\<forall>t\<in>set (timers S). due base S t < 2 ^ 31) \<and>
     sorted (map (due base S) (timers S))"

text \<open>Sorting in puts the timer behind those that are due no later.\<close>

lemma sort_in_place:
  assumes "set ts \<subseteq> dom h" "\<forall>x\<in>set ts. key base (expires (the (h x))) < 2 ^ 31" "key base m < 2 ^ 31"
    and "sorted (map (\<lambda>x. key base (expires (the (h x)))) ts)"
  shows "sort_in h m t ts = Some (filter (\<lambda>x. key base (expires (the (h x))) \<le> key base m) ts @ t #
    filter (\<lambda>x. key base m < key base (expires (the (h x)))) ts)"
  using assms(1,2,4)
proof (induction ts)
  case (Cons x xs)
  obtain r where r: "h x = Some r" using Cons.prems(1) by auto
  have k: "key base (expires r) < 2 ^ 31" using Cons.prems(2) r by simp
  note later = key_later [OF k assms(3)]
  show ?case
  proof (cases "key base m < key base (expires r)")
    case True
    then have "\<forall>y\<in>set xs. key base m < key base (expires (the (h y)))" using Cons.prems(3) r by fastforce
    then have "filter (\<lambda>y. key base (expires (the (h y))) \<le> key base m) xs = []" "filter (\<lambda>y. key base m < key base (expires (the (h y)))) xs = xs"
      by (auto simp: filter_empty_conv not_le)
    then show ?thesis using r True later by simp
  next
    case False
    then show ?thesis using Cons r later by simp
  qed
qed simp

lemma sorted_split: "sorted (map f xs) \<Longrightarrow> filter (\<lambda>x. f x \<le> k) xs @ filter (\<lambda>x. (k :: nat) < f x) xs = xs"
proof (induction xs)
  case (Cons x xs)
  show ?case
  proof (cases "f x \<le> k")
    case False
    then have "\<forall>y\<in>set xs. k < f y" using Cons.prems by auto
    then have "filter (\<lambda>x. f x \<le> k) xs = []" by (auto simp: filter_empty_conv not_le)
    then show ?thesis using False Cons by simp
  qed (use Cons in simp)
qed simp

lemma arm_ok:
  assumes "timers_ok base S" "t \<notin> set (timers S)" "key base (millis + now) < 2 ^ 31"
  obtains S' where "arm_timer t False millis now func S = Some (millis + now, S')" "timers_ok base S'" "set (timers S') = insert t (set (timers S))"
    and "due base S' t = key base (millis + now)" "\<forall>x. x \<noteq> t \<longrightarrow> timer_heap S' x = timer_heap S x" "map_option callback (timer_heap S' t) = Some func"
    and "clock S' = clock S" "fired S' = fired S" "filter (\<lambda>x. x \<noteq> t) (timers S') = timers S"
proof -
  let ?m = "millis + now"
  let ?r = "\<lparr>expires = ?m, delta = millis, callback = func\<rparr>"
  let ?h = "(timer_heap S)(t \<mapsto> ?r)"
  have same: "?h x = timer_heap S x" if "x \<in> set (timers S)" for x using that assms(2) by auto
  let ?lo = "filter (\<lambda>x. due base S x \<le> key base ?m) (timers S)" and ?hi = "filter (\<lambda>x. key base ?m < due base S x) (timers S)"
  let ?S = "S\<lparr>timer_heap := ?h, timers := ?lo @ t # ?hi\<rparr>"
  have ok: "distinct (timers S)" "set (timers S) \<subseteq> dom (timer_heap S)" "\<forall>x\<in>set (timers S). due base S x < 2 ^ 31" "sorted (map (due base S) (timers S))"
    using assms(1) by (simp_all add: timers_ok_def)
  have dh: "key base (expires (the (?h x))) = due base S x" if "x \<in> set (timers S)" for x using same [OF that] by (simp add: due_def)
  have "sort_in ?h ?m t (timers S) = Some (filter (\<lambda>x. key base (expires (the (?h x))) \<le> key base ?m) (timers S) @ t #
      filter (\<lambda>x. key base ?m < key base (expires (the (?h x)))) (timers S))"
  proof (rule sort_in_place [OF _ _ assms(3)])
    show "set (timers S) \<subseteq> dom ?h" using ok(2) by auto
    show "\<forall>x\<in>set (timers S). key base (expires (the (?h x))) < 2 ^ 31" using ok(3) dh by simp
    have "map (\<lambda>x. key base (expires (the (?h x)))) (timers S) = map (due base S) (timers S)" using dh by (intro map_cong) auto
    from ok(4) [folded this] show "sorted (map (\<lambda>x. key base (expires (the (?h x)))) (timers S))" .
  qed
  also have "filter (\<lambda>x. key base (expires (the (?h x))) \<le> key base ?m) (timers S) = ?lo" using dh by (intro filter_cong) auto
  also have "filter (\<lambda>x. key base ?m < key base (expires (the (?h x)))) (timers S) = ?hi" using dh by (intro filter_cong) auto
  finally have arm: "arm_timer t False millis now func S = Some (?m, ?S)" by (simp add: arm_timer_def Let_def del: fun_upd_apply)
  have due': "due base (S\<lparr>timer_heap := ?h\<rparr>) x = (if x = t then key base ?m else due base S x)" for x by (simp add: due_def)
  have "timers_ok base ?S"
  proof -
    have m: "map (due base ?S) (timers ?S) = map (due base S) ?lo @ key base ?m # map (due base S) ?hi" using assms(2) by (auto simp: due')
    have "sorted (map (due base S) ?lo)" "sorted (map (due base S) ?hi)" using ok(4) by (simp_all add: sorted_filter)
    then have "sorted (map (due base S) ?lo @ key base ?m # map (due base S) ?hi)" by (auto simp: sorted_append)
    then have "sorted (map (due base ?S) (timers ?S))" unfolding m .
    then show ?thesis using ok assms(2,3) by (auto simp: timers_ok_def due' distinct_filter)
  qed
  moreover have "filter (\<lambda>x. x \<noteq> t) (timers ?S) = timers S"
  proof -
    have "filter (\<lambda>x. x \<noteq> t) ?lo = ?lo" "filter (\<lambda>x. x \<noteq> t) ?hi = ?hi" unfolding filter_id_conv using assms(2) by auto
    then have "filter (\<lambda>x. x \<noteq> t) (timers ?S) = ?lo @ ?hi" by (simp del: filter_filter)
    also have "\<dots> = timers S" using ok(4) by (rule sorted_split)
    finally show ?thesis .
  qed
  moreover have "set (timers ?S) = insert t (set (timers S))" by auto
  ultimately show thesis using that [OF arm] by (simp add: due')
qed

section \<open>Running the timers\<close>

text \<open>Callbacks take at most \<open>E\<close> milliseconds and ask to be called again after at most \<open>M\<close>.\<close>

definition brisk :: "nat \<Rightarrow> nat \<Rightarrow> 'c timer_act \<Rightarrow> bool" where
  "brisk E M act \<longleftrightarrow> (\<forall>c now. unat (snd (act c now)) \<le> E \<and> unat (fst (act c now)) \<le> M)"

definition again :: "'c timer_act \<Rightarrow> u32 \<Rightarrow> 'c timer_state \<Rightarrow> nat \<Rightarrow> bool" where
  "again act now S t \<longleftrightarrow> fst (act (callback (the (timer_heap S t))) now) \<noteq> 0"

lemma do_timer_ok:
  assumes "timers_ok base S" "timers S = t # ts" "brisk E M act" "key base now \<le> key base (clock S)" "key base (clock S) + E + M < 2 ^ 31"
  obtains S' where "DoTimer act t now S = Some S'" "timers_ok base S'" "fired S' = fired S @ [(t, now)]"
    and "filter (\<lambda>x. x \<noteq> t) (timers S') = ts" "t \<in> set (timers S') \<longleftrightarrow> again act now S t" "t \<in> set (timers S') \<longrightarrow> key base now < due base S' t"
    and "\<forall>x. x \<noteq> t \<longrightarrow> timer_heap S' x = timer_heap S x" "map_option callback (timer_heap S' t) = map_option callback (timer_heap S t)"
    and "key base (clock S) \<le> key base (clock S')" "key base (clock S') \<le> key base (clock S) + E"
proof -
  have ok: "distinct (t # ts)" "t \<in> dom (timer_heap S)" "timers_ok base (S\<lparr>timers := ts\<rparr>)"
    using assms(1,2) by (auto simp: timers_ok_def)
  obtain r where r: "timer_heap S t = Some r" using ok(2) by blast
  obtain nt el where a: "act (callback r) now = (nt, el)" by fastforce
  have b: "unat el \<le> E" "unat nt \<le> M" using assms(3) a unfolding brisk_def by (metis fst_conv snd_conv)+
  let ?S1 = "S\<lparr>timers := ts, clock := clock S + el, fired := fired S @ [(t, now)]\<rparr>"
  have c: "key base (clock S + el) = key base (clock S) + unat el" using assms(5) b by (intro key_add) simp
  have call: "call_timer act t now (S\<lparr>timers := remove1 t (timers S)\<rparr>) = Some (nt, ?S1)" using r a assms(2) by (simp add: call_timer_def)
  have ok1: "timers_ok base ?S1" using ok(3) by (simp add: timers_ok_def)
  show thesis
  proof (cases "nt = 0")
    case True
    then have "DoTimer act t now S = Some ?S1" using call by (simp add: DoTimer.simps)
    moreover have "filter (\<lambda>x. x \<noteq> t) ts = ts" using ok(1) by (auto simp: filter_id_conv)
    ultimately show thesis using that [of ?S1] ok1 c b ok(1) r a True by (auto simp: again_def)
  next
    case False
    have m: "key base (nt + clock ?S1) = key base (clock ?S1) + unat nt"
      using key_add [of base "clock ?S1" nt] c b assms(5) by (simp add: add.commute)
    have lt: "key base (nt + clock ?S1) < 2 ^ 31" using m c b assms(5) by simp
    have "t \<notin> set (timers ?S1)" using ok(1) by simp
    with ok1 obtain S2 where S2: "arm_timer t False nt (clock ?S1) (callback r) ?S1 = Some (nt + clock ?S1, S2)" "timers_ok base S2"
      "set (timers S2) = insert t (set (timers ?S1))" "due base S2 t = key base (nt + clock ?S1)" "\<forall>x. x \<noteq> t \<longrightarrow> timer_heap S2 x = timer_heap ?S1 x"
      "map_option callback (timer_heap S2 t) = Some (callback r)" "clock S2 = clock ?S1" "fired S2 = fired ?S1" "filter (\<lambda>x. x \<noteq> t) (timers S2) = timers ?S1"
      using lt by (rule arm_ok)
    have nz: "0 < unat nt" using False by (simp add: unat_gt_0)
    have "sint (nt + clock ?S1 - clock ?S1) > 0" using key_later [OF lt, of "clock ?S1"] lt m nz by simp
    then have "DoTimer act t now S = Some S2" using call False r S2(1) by (simp add: DoTimer.simps [of act t now])
    then show thesis using that [of S2] S2 c b assms(4) m nz False r a by (auto simp: again_def)
  qed
qed

text \<open>The expired timers are the first ones of the list. Each runs once: a timer that is set again is due after now.\<close>

lemma do_timers_ok:
  assumes "timers_ok base S" "brisk E M act" "key base now \<le> key base (clock S)"
    and "key base (clock S) + length (filter (\<lambda>t. due base S t \<le> key base now) (timers S)) * E + M < 2 ^ 31"
  shows "\<exists>S'. DoTimers act now S = Some S' \<and> timers_ok base S' \<and>
    fired S' = fired S @ map (\<lambda>t. (t, now)) (filter (\<lambda>t. due base S t \<le> key base now) (timers S)) \<and>
    (\<forall>t\<in>set (timers S'). key base now < due base S' t) \<and>
    set (timers S') = {t \<in> set (timers S). due base S t \<le> key base now \<longrightarrow> again act now S t}"
  using assms
proof (induction "length (filter (\<lambda>t. due base S t \<le> key base now) (timers S))" arbitrary: S)
  case 0
  then have n: "\<forall>t\<in>set (timers S). key base now < due base S t" by (auto simp: filter_empty_conv not_le)
  then have e: "filter (\<lambda>t. due base S t \<le> key base now) (timers S) = []" by (auto simp: filter_empty_conv not_le)
  have "DoTimers act now S = Some S"
  proof (cases "timers S")
    case (Cons t ts)
    obtain r where r: "timer_heap S t = Some r" using 0(2) Cons by (auto simp: timers_ok_def)
    have "key base (expires r) < 2 ^ 31" "key base now < key base (expires r)" using 0(2) n Cons r by (auto simp: timers_ok_def due_def)
    then have "sint (expires r - now) > 0" using key_later [of base "expires r" now] by simp
    then show ?thesis using Cons r by (simp add: DoTimers.simps)
  qed (simp add: DoTimers.simps)
  then show ?case using 0(2) n e by auto
next
  case (Suc k)
  then obtain t ts where Cons: "timers S = t # ts" by (cases "timers S") auto
  have ok: "distinct (t # ts)" "\<forall>x\<in>set ts. due base S t \<le> due base S x" using Suc.prems(1) Cons by (auto simp: timers_ok_def)
  have first: "due base S t \<le> key base now"
  proof (rule ccontr)
    assume "\<not> due base S t \<le> key base now"
    then have "filter (\<lambda>t. due base S t \<le> key base now) (timers S) = []" using ok(2) Cons by (fastforce simp: filter_empty_conv)
    then show False using Suc.hyps(2) by simp
  qed
  let ?ex = "filter (\<lambda>t. due base S t \<le> key base now) ts"
  have k: "length ?ex = k" "filter (\<lambda>t. due base S t \<le> key base now) (timers S) = t # ?ex" using Suc.hyps(2) Cons first by simp_all
  have "key base (clock S) + E + M < 2 ^ 31" using Suc.prems(4) k by simp
  from do_timer_ok [OF Suc.prems(1) Cons Suc.prems(2,3) this] obtain S1 where S1: "DoTimer act t now S = Some S1" "timers_ok base S1"
    "fired S1 = fired S @ [(t, now)]" "filter (\<lambda>x. x \<noteq> t) (timers S1) = ts" "t \<in> set (timers S1) \<longleftrightarrow> again act now S t"
    "t \<in> set (timers S1) \<longrightarrow> key base now < due base S1 t" "\<forall>x. x \<noteq> t \<longrightarrow> timer_heap S1 x = timer_heap S x"
    "key base (clock S) \<le> key base (clock S1)" "key base (clock S1) \<le> key base (clock S) + E" by metis
  have same: "due base S1 x = due base S x" "again act now S1 x = again act now S x" if "x \<noteq> t" for x
    using S1(7) that by (simp_all add: due_def again_def)
  have set1: "set (timers S1) = set ts \<union> (if again act now S t then {t} else {})" using S1(4,5) by auto
  have "filter (\<lambda>x. due base S1 x \<le> key base now) (timers S1) = filter (\<lambda>x. due base S1 x \<le> key base now) (filter (\<lambda>x. x \<noteq> t) (timers S1))"
    using S1(6) by (auto intro!: filter_cong)
  also have "\<dots> = ?ex" unfolding S1(4)
  proof (rule filter_cong)
    fix x assume "x \<in> set ts"
    then have "x \<noteq> t" using ok(1) by auto
    then show "(due base S1 x \<le> key base now) = (due base S x \<le> key base now)" using same(1) by simp
  qed simp
  finally have ex: "filter (\<lambda>x. due base S1 x \<le> key base now) (timers S1) = ?ex" .
  have "key base now \<le> key base (clock S1)" "key base (clock S1) + length ?ex * E + M < 2 ^ 31" using S1(8,9) Suc.prems(3,4) k by simp_all
  from Suc.hyps(1) [of S1] this obtain S' where S': "DoTimers act now S1 = Some S'" "timers_ok base S'" "fired S' = fired S1 @ map (\<lambda>t. (t, now)) ?ex"
    "\<forall>t\<in>set (timers S'). key base now < due base S' t" "set (timers S') = {x \<in> set (timers S1). due base S1 x \<le> key base now \<longrightarrow> again act now S1 x}"
    using S1(2) Suc.prems(2) k(1) ex by auto
  obtain r where r: "timer_heap S t = Some r" using Suc.prems(1) Cons by (auto simp: timers_ok_def)
  have "key base (expires r) < 2 ^ 31" "key base now < 2 ^ 31" "key base (expires r) \<le> key base now"
    using Suc.prems first Cons r by (auto simp: timers_ok_def due_def)
  then have "\<not> sint (expires r - now) > 0" using key_later [of base "expires r" now] by simp
  then have "DoTimers act now S = Some S'" using Cons r S1(1) S'(1) by (simp add: DoTimers.simps [of act now S])
  moreover have "set (timers S') = {x \<in> set (timers S). due base S x \<le> key base now \<longrightarrow> again act now S x}"
  proof -
    have "x \<in> set (timers S') \<longleftrightarrow> x \<in> set (timers S) \<and> (due base S x \<le> key base now \<longrightarrow> again act now S x)" for x
      using S'(5) set1 same [of x] first ok(1) Cons S1(5,6) by (cases "x = t") auto
    then show ?thesis by blast
  qed
  ultimately show ?case using S'(2-4) S1(3) k(2) by simp
qed

section \<open>Properties\<close>


text \<open>Two timers around the wrap-around of the clock: the first is over, the second is not; the first one asks to be called after 5 seconds.\<close>

definition sample_timers :: "nat timer_state" where
  "sample_timers = \<lparr>timers = [3, 8], timer_heap = [3 \<mapsto> \<lparr>expires = 0xfffffff0, delta = 5000, callback = 1\<rparr>, 8 \<mapsto> \<lparr>expires = 100, delta = 1000, callback = 2\<rparr>],
     clock = 10, fired = []\<rparr>"


text \<open>
  The server sleeps exactly until the next timer: if no timer is over and the first one is not further away than it was set, \<^verbatim>\<open>check_timers\<close> changes
  nothing and returns the time until the first timer, which is not later than any other; without timers it returns that the server may sleep for ever.
\<close>

theorem sleeps_until_first_timer:
  assumes "timers_ok base S" "timers S = t # ts" "timer_heap S t = Some r" "key base (clock S) < due base S t" "expires r - clock S < delta r + 250"
  shows "check_timers act S = Some (Some (expires r - clock S), S) \<and> unat (expires r - clock S) = due base S t - key base (clock S) \<and>
    (\<forall>x\<in>set (timers S). due base S t \<le> due base S x)"
proof (intro conjI)
  have k: "due base S t = key base (expires r)" "key base (expires r) < 2 ^ 31" using assms(1-3) by (auto simp: timers_ok_def due_def)
  then have "sint (expires r - clock S) > 0" using assms(4) key_later [of base "expires r" "clock S"] by simp
  then show "check_timers act S = Some (Some (expires r - clock S), S)" using assms(2,3,5) by (simp add: check_timers_def Let_def)
  have e: "expires r - clock S = (expires r - base) - (clock S - base)" by simp
  have "clock S - base \<le> expires r - base" using assms(4) k(1) by (simp add: key_def word_le_nat_alt)
  then show "unat (expires r - clock S) = due base S t - key base (clock S)" unfolding e k(1) key_def by (rule unat_sub)
  show "\<forall>x\<in>set (timers S). due base S t \<le> due base S x" using assms(1,2) by (auto simp: timers_ok_def)
qed

theorem sleeps_until_first_timer_witness:
  "check_timers (\<lambda>c now. (0, 0)) (sample_timers\<lparr>timers := [8]\<rparr>) = Some (Some 90, sample_timers\<lparr>timers := [8]\<rparr>)"
proof -
  let ?S = "sample_timers\<lparr>timers := [8]\<rparr>" and ?r = "\<lparr>expires = 100, delta = 1000, callback = 2\<rparr> :: nat OsTimer"
  have "timers_ok 0 ?S" "timers ?S = 8 # []" "timer_heap ?S 8 = Some ?r" "key 0 (clock ?S) < due 0 ?S 8" "expires ?r - clock ?S < delta ?r + 250"
    by (simp_all add: timers_ok_def sample_timers_def due_def key_def)
  from sleeps_until_first_timer [OF this] show ?thesis by (simp add: sample_timers_def)
qed

text \<open>A callback that asks to be called after half the range of the clock or more is called again at once, while \<^verbatim>\<open>TimerSet\<close> is still running.\<close>

theorem long_interval_runs_at_once:
  assumes "timer_heap S t = Some r" "timers S = [t]" "act (callback r) now = (n, 0)" "2 ^ 31 \<le> n"
  shows "\<exists>S'. DoTimer act t now S = DoTimer act t (clock S) S' \<and> timers S' = [t] \<and> fired S' = fired S @ [(t, now)]"
proof -
  have "sint n \<le> 0"
  proof -
    have u: "2 ^ 31 \<le> uint n" "uint n < 2 ^ 32" using assms(4) uint_lt2p [of n] by (simp_all add: word_le_def)
    have e: "n = word_of_int (uint n - 2 ^ 32)" by (simp add: word_of_int_2p_len)
    have "sint n = uint n - 2 ^ 32" using u by (subst e, subst signed_of_int) (simp add: signed_take_bit_int_eq_self)
    then show ?thesis using u by simp
  qed
  moreover have "n \<noteq> 0" using assms(4) by auto
  ultimately have "DoTimer act t now S = DoTimer act t (clock S) (S\<lparr>fired := fired S @ [(t, now)],
      timer_heap := (timer_heap S)(t \<mapsto> \<lparr>expires = n + clock S, delta = n, callback = callback r\<rparr>), timers := [t]\<rparr>)"
    using assms by (simp add: DoTimer.simps [of act t now S] call_timer_def arm_timer_def Let_def)
  then show ?thesis by (intro exI conjI, assumption) simp_all
qed

end
