(* ===== verification/Lorie_Start.thy ===== *)
theory Lorie_Start
  imports Lorie_Prelude "HOL-Library.Sublist"
begin

text \<open>
  The start of the server process (\<^verbatim>\<open>Java_com_xodos_x11_CmdEntryPoint_start\<close> of \<^verbatim>\<open>lorie/cmdentrypoint.c\<close>): the processors it runs on, the choice of
  the preloaded library, of the directory of its sockets, of the fonts and of the keyboard data, from the environment and from the files that
  exist; and the request by which the activity asks a running server for a connection (\<^verbatim>\<open>requestConnection\<close> of \<^verbatim>\<open>activity.c\<close>, answered by
  \<^verbatim>\<open>listenForConnections\<close>). Files are the predicate \<^verbatim>\<open>access(path, F_OK) == 0\<close>; the contents of \<^verbatim>\<open>/proc/self/status\<close> is a string.
\<close>

section \<open>The tracer of the process\<close>

definition newline :: char where
  "newline = CHR 0x0A"

text \<open>\<^verbatim>\<open>fgets\<close> with room for \<open>n\<close> characters before the terminator: a line with its newline, or \<open>n\<close> characters of it.\<close>

fun fgets_chars :: "nat \<Rightarrow> string \<Rightarrow> string \<times> string" where
  "fgets_chars 0 cs = ([], cs)"
| "fgets_chars (Suc n) [] = ([], [])"
| "fgets_chars (Suc n) (c # cs) =
    (if c = newline then ([c], cs) else case fgets_chars n cs of (l, r) \<Rightarrow> (c # l, r))"

lemma fgets_append: "fgets_chars n cs = (l, r) \<Longrightarrow> cs = l @ r"
  by (induction n cs arbitrary: l rule: fgets_chars.induct) (auto split: if_splits prod.splits)

lemma fgets_progress: "fgets_chars n cs = (l, r) \<Longrightarrow> 0 < n \<Longrightarrow> cs \<noteq> [] \<Longrightarrow> length r < length cs"
  by (cases n; cases cs) (auto split: if_splits prod.splits dest!: fgets_append)

text \<open>A decimal number as \<^verbatim>\<open>%d\<close> of \<^verbatim>\<open>sscanf\<close> reads it: white space, a sign, digits. Process ids are far below the limit of \<^verbatim>\<open>int\<close>.\<close>

definition is_space :: "char \<Rightarrow> bool" where
  "is_space c \<longleftrightarrow> c = CHR 0x20 \<or> (CHR 0x09 = c \<or> c = CHR 0x0A \<or> c = CHR 0x0B \<or> c = CHR 0x0C \<or> c = CHR 0x0D)"

definition is_digit :: "char \<Rightarrow> bool" where
  "is_digit c \<longleftrightarrow> 48 \<le> (of_char c :: nat) \<and> (of_char c :: nat) \<le> 57"

definition digits_value :: "string \<Rightarrow> int" where
  "digits_value = foldl (\<lambda>n c. 10 * n + (int (of_char c) - 48)) 0"

definition scan_digits :: "string \<Rightarrow> int option" where
  "scan_digits cs = (case takeWhile is_digit cs of [] \<Rightarrow> None | ds \<Rightarrow> Some (digits_value ds))"

definition scan_int :: "string \<Rightarrow> int option" where
  "scan_int cs = (case dropWhile is_space cs of
      [] \<Rightarrow> None
    | c # r \<Rightarrow> if c = CHR ''-'' then map_option uminus (scan_digits r)
               else if c = CHR ''+'' then scan_digits r
               else scan_digits (c # r))"

text \<open>The loop over the lines; \<open>pid\<close> keeps its 0 when no line or no number is found.\<close>

function tracer_pid :: "string \<Rightarrow> int" where
  "tracer_pid cs = (if cs = [] then 0 else case fgets_chars 255 cs of (line, r) \<Rightarrow>
     if take 10 line = ''TracerPid:'' then (case scan_int (drop 10 line) of Some p \<Rightarrow> p | None \<Rightarrow> 0) else tracer_pid r)"
  by pat_completeness auto

termination
  by (relation "measure length") (auto intro: fgets_progress [OF sym])

declare tracer_pid.simps [simp del]

text \<open>What the process finds around it.\<close>

record start_world =
  file_exists :: "string \<Rightarrow> bool"
  proc_status :: "string option"
  current_dir :: "string option"

definition detectTracer :: "start_world \<Rightarrow> bool" where
  "detectTracer W = (case proc_status W of None \<Rightarrow> True | Some cs \<Rightarrow> tracer_pid cs \<noteq> 0)"

section \<open>Strings and paths\<close>

text \<open>\<^verbatim>\<open>snprintf\<close> into an array of \<open>n\<close> bytes.\<close>

definition snprintf :: "nat \<Rightarrow> string \<Rightarrow> string" where
  "snprintf n s = take (n - 1) s"

text \<open>\<^verbatim>\<open>dirname\<close>: the path without its last component, trailing slashes not counted.\<close>

definition strip_slashes :: "string \<Rightarrow> string" where
  "strip_slashes p = rev (dropWhile (\<lambda>c. c = CHR ''/'') (rev p))"

definition dirname :: "string \<Rightarrow> string" where
  "dirname p = (let q = rev (dropWhile (\<lambda>c. c \<noteq> CHR ''/'') (rev (strip_slashes p))); d = strip_slashes q in
     if p = [] then ''.'' else if strip_slashes p = [] then ''/'' else if q = [] then ''.'' else if d = [] then ''/'' else d)"

text \<open>Its result lives in an array of \<^verbatim>\<open>MAXPATHLEN\<close> bytes; a longer one is the null pointer, which \<^verbatim>\<open>%s\<close> prints as \<^verbatim>\<open>(null)\<close>.\<close>

definition root_dir :: "string \<Rightarrow> string" where
  "root_dir p = (if length (dirname p) < 4096 then dirname p else ''(null)'')"

lemma strip_slashes_ends: "strip_slashes (p @ [c]) = (if c = CHR ''/'' then strip_slashes p else p @ [c])"
  by (simp add: strip_slashes_def)

lemma dirname_component:
  assumes "r \<noteq> []" "last r \<noteq> CHR ''/''" "f \<noteq> []" "CHR ''/'' \<notin> set f"
  shows "dirname (r @ ''/'' @ f) = r"
proof -
  obtain f' c where f: "f = f' @ [c]" using assms(3) by (cases f rule: rev_cases) auto
  obtain r' d where r: "r = r' @ [d]" using assms(1) by (cases r rule: rev_cases) auto
  have s: "strip_slashes (r @ ''/'' @ f) = r @ ''/'' @ f"
    using assms(4) f strip_slashes_ends [of "r @ ''/'' @ f'" c] by auto
  have "dropWhile (\<lambda>c. c \<noteq> CHR ''/'') (rev f @ CHR ''/'' # rev r) = CHR ''/'' # rev r"
    using assms(4) by (subst dropWhile_append2) auto
  then have q: "rev (dropWhile (\<lambda>c. c \<noteq> CHR ''/'') (rev (r @ ''/'' @ f))) = r @ [CHR ''/'']" by simp
  have "strip_slashes (r @ [CHR ''/'']) = r" using assms(2) by (simp add: r strip_slashes_def)
  then show ?thesis unfolding dirname_def Let_def s q using assms(1) by simp
qed

section \<open>Start of the server\<close>

type_synonym environment = "string \<rightharpoonup> string"

datatype start_error = Tmpdir_unset | Xkb_unset | Xkb_unaccessible string

record server_setup =
  server_argv :: "string list"
  xtrans_unix_path :: string
  xtrans_unix_dir :: string
  moved_to :: "string option"
  font_path :: "string option"
  xkb_base :: string

text \<open>The processors of the upper half are added to a mask that is not cleared before.\<close>

definition CPU_SETSIZE :: int where
  "CPU_SETSIZE = 1024"

definition affinity :: "int set \<Rightarrow> int \<Rightarrow> int set" where
  "affinity stack num_cpus = fold (\<lambda>i cpus. if i < CPU_SETSIZE then insert i cpus else cpus) [(if 0 \<le> num_cpus then num_cpus div 2 else - (- num_cpus div 2))..num_cpus - 1] stack"

definition exec_lib :: string where
  "exec_lib = ''/data/data/com.xodos/files/usr/lib/libxodos-exec.so''"

definition choose_preload :: "start_world \<Rightarrow> environment \<Rightarrow> environment" where
  "choose_preload W e = (if file_exists W exec_lib \<and> \<not> detectTracer W \<and> e ''XSTARTUP_LD_PRELOAD'' = None
     then e(''LD_PRELOAD'' \<mapsto> exec_lib) else e)"

definition xodos_tmp :: string where
  "xodos_tmp = ''/data/data/com.xodos/files/usr/tmp''"

definition choose_tmpdir :: "start_world \<Rightarrow> environment \<Rightarrow> environment" where
  "choose_tmpdir W e = (let e1 = (if e ''TMPDIR'' = Some ''/data/local/tmp'' then e(''TMPDIR'' := None) else e) in
     if e1 ''TMPDIR'' \<noteq> None then e1
     else if file_exists W ''/tmp'' then e1(''TMPDIR'' \<mapsto> ''/tmp'')
     else if file_exists W xodos_tmp then e1(''TMPDIR'' \<mapsto> xodos_tmp)
     else e1)"

definition leave_dir :: "start_world \<Rightarrow> string \<Rightarrow> string option" where
  "leave_dir W tmp = (case current_dir W of Some d \<Rightarrow> if length d < 1024 \<and> file_exists W d then None else Some tmp | None \<Rightarrow> Some tmp)"

definition font_dirs :: "string list" where
  "font_dirs = [''/etc/X11/fonts'', ''/usr/share/fonts/X11'', ''/share/fonts'']"

definition font_list :: "string \<Rightarrow> string" where
  "font_list p = p @ ''/misc,'' @ p @ ''/TTF,'' @ p @ ''/OTF,'' @ p @ ''/Type1,'' @ p @ ''/100dpi,'' @ p @ ''/75dpi''"

fun choose_fonts :: "start_world \<Rightarrow> string \<Rightarrow> string list \<Rightarrow> string option" where
  "choose_fonts W root [] = None"
| "choose_fonts W root (p # ps) = (let current = snprintf 1024 (root @ p) in
     if file_exists W current then Some (snprintf 4096 (font_list current)) else choose_fonts W root ps)"

definition xkb_dir :: string where
  "xkb_dir = ''/usr/share/X11/xkb''"

definition xodos_xkb :: string where
  "xodos_xkb = ''/data/data/com.xodos/files/usr/share/X11/xkb''"

definition choose_xkb :: "start_world \<Rightarrow> string \<Rightarrow> environment \<Rightarrow> environment" where
  "choose_xkb W root e = (let current = snprintf 1024 (root @ xkb_dir) in
     if e ''XKB_CONFIG_ROOT'' \<noteq> None then e
     else if file_exists W current then e(''XKB_CONFIG_ROOT'' \<mapsto> current)
     else if file_exists W xkb_dir then e(''XKB_CONFIG_ROOT'' \<mapsto> xkb_dir)
     else if file_exists W xodos_xkb then e(''XKB_CONFIG_ROOT'' \<mapsto> xodos_xkb)
     else e)"

definition start_env :: "start_world \<Rightarrow> environment \<Rightarrow> environment" where
  "start_env W e = choose_tmpdir W (choose_preload W e)"

definition start_server :: "start_world \<Rightarrow> string list \<Rightarrow> environment \<Rightarrow> environment \<times> (start_error + server_setup)" where
  "start_server W args e = (let e1 = start_env W e in
     case e1 ''TMPDIR'' of None \<Rightarrow> (e1, Inl Tmpdir_unset)
     | Some tmp \<Rightarrow> (let e2 = choose_xkb W (root_dir tmp) e1 in
         case e2 ''XKB_CONFIG_ROOT'' of None \<Rightarrow> (e2, Inl Xkb_unset)
         | Some x \<Rightarrow> if \<not> file_exists W x then (e2, Inl (Xkb_unaccessible x))
           else (e2, Inr \<lparr>server_argv = ''Xlorie'' # args, xtrans_unix_path = tmp @ ''/.X11-unix/X'', xtrans_unix_dir = tmp @ ''/.X11-unix/'',
             moved_to = leave_dir W tmp, font_path = choose_fonts W (root_dir tmp) font_dirs, xkb_base = x\<rparr>)))"

section \<open>The tracer is found\<close>

lemma fgets_line: "newline \<notin> set l \<Longrightarrow> length l < n \<Longrightarrow> fgets_chars n (l @ newline # r) = (l @ [newline], r)"
proof (induction l arbitrary: n)
  case Nil
  then show ?case by (cases n) simp_all
next
  case (Cons a l)
  then show ?case by (cases n) auto
qed

definition status_line :: "string \<Rightarrow> bool" where
  "status_line l \<longleftrightarrow> newline \<notin> set l \<and> length l < 255 \<and> take 10 l \<noteq> ''TracerPid:''"

definition of_lines :: "string list \<Rightarrow> string" where
  "of_lines ls = concat (map (\<lambda>l. l @ [newline]) ls)"

lemma tracer_skips: "list_all status_line ls \<Longrightarrow> tracer_pid (of_lines ls @ r) = tracer_pid r"
proof (induction ls)
  case (Cons l ls)
  then have l: "newline \<notin> set l" "length l < 255" "take 10 l \<noteq> ''TracerPid:''" by (auto simp: status_line_def)
  have "take 10 (l @ [newline]) \<noteq> ''TracerPid:''"
  proof
    assume a: "take 10 (l @ [newline]) = ''TracerPid:''"
    show False
    proof (cases "10 \<le> length l")
      case False
      then have "newline \<in> set (take 10 (l @ [newline]))" by simp
      then show False unfolding a by (simp add: newline_def)
    qed (use a l(3) in simp)
  qed
  then have "tracer_pid (l @ newline # of_lines ls @ r) = tracer_pid (of_lines ls @ r)"
    using fgets_line [OF l(1,2)] by (subst tracer_pid.simps) simp
  then show ?case using Cons by (simp add: of_lines_def)
qed (simp add: of_lines_def)

fun decimal :: "nat \<Rightarrow> string" where
  "decimal n = (if n < 10 then [char_of (48 + n)] else decimal (n div 10) @ [char_of (48 + n mod 10)])"

declare decimal.simps [simp del]

lemma digit_char: "d < 10 \<Longrightarrow> is_digit (char_of (48 + d)) \<and> int (of_char (char_of (48 + d) :: char)) = 48 + int d"
proof -
  assume d: "d < 10"
  have n: "(of_char (char_of (48 + d) :: char) :: nat) = 48 + d" using d by (simp only: of_char_of) simp
  show ?thesis unfolding is_digit_def n using d by linarith
qed

lemma decimal_digits: "list_all is_digit (decimal n) \<and> decimal n \<noteq> [] \<and> digits_value (decimal n) = int n"
proof (induction n rule: decimal.induct)
  case (1 n)
  show ?case
  proof (cases "n < 10")
    case True
    then show ?thesis using digit_char [of n] by (simp add: decimal.simps [of n] digits_value_def)
  next
    case False
    have "10 * int (n div 10) + int (n mod 10) = int n" by presburger
    then show ?thesis using False 1 digit_char [of "n mod 10"]
      by (simp only: decimal.simps [of n] digits_value_def) simp
  qed
qed

lemma decimal_length: "n < 10 ^ k \<Longrightarrow> 0 < k \<Longrightarrow> length (decimal n) \<le> k"
proof (induction k arbitrary: n)
  case (Suc k)
  show ?case
  proof (cases "n < 10")
    case False
    then have "n div 10 < 10 ^ k" "0 < k" using Suc.prems by (auto intro!: Nat.gr0I)
    then show ?thesis using Suc.IH [of "n div 10"] False by (subst decimal.simps) simp
  qed (simp add: decimal.simps [of n])
qed simp

lemma scan_decimal: "scan_int (CHR 0x09 # decimal n @ newline # r) = Some (int n)"
proof -
  note d = decimal_digits [of n]
  obtain c cs where c: "decimal n = c # cs" "is_digit c" using d by (cases "decimal n") auto
  have "takeWhile is_digit (decimal n @ newline # r) = decimal n"
    using d by (subst takeWhile_append2) (auto simp: list_all_iff newline_def is_digit_def)
  then have s: "scan_digits (decimal n @ newline # r) = Some (int n)" using d c by (simp add: scan_digits_def)
  have "\<not> is_space c" "c \<noteq> CHR ''-''" "c \<noteq> CHR ''+''" using c(2) by (auto simp: is_digit_def is_space_def)
  then show ?thesis using s c(1) by (simp add: scan_int_def is_space_def)
qed

text \<open>
  The server recognises whether it is traced: in a status file of lines as the kernel writes them, none of which except one starts like
  the line of the tracer, it reads the process id of this line whatever lines stand around it, and it is traced when this id is not 0.
\<close>

theorem detect_tracer_correct:
  assumes "list_all status_line before" and "n < 2 ^ 31"
    and "proc_status W = Some (of_lines before @ of_lines [''TracerPid:'' @ CHR 0x09 # decimal n] @ rest)"
  shows "detectTracer W \<longleftrightarrow> n \<noteq> 0"
proof -
  let ?l = "''TracerPid:'' @ CHR 0x09 # decimal n"
  have "length (decimal n) \<le> 10" using assms(2) by (intro decimal_length) simp_all
  moreover have "newline \<notin> set (decimal n)" using decimal_digits [of n] by (auto simp: list_all_iff newline_def is_digit_def)
  ultimately have "fgets_chars 255 (?l @ newline # rest) = (?l @ [newline], rest)" by (intro fgets_line) (auto simp: newline_def)
  then have "tracer_pid (?l @ newline # rest) = int n"
    using scan_decimal [of n "[]"] by (subst tracer_pid.simps) simp
  then show ?thesis using tracer_skips [OF assms(1)] assms(3) by (simp add: detectTracer_def of_lines_def)
qed

section \<open>What the server starts with\<close>

text \<open>The choices as they are meant: the value given, or the first candidate that exists.\<close>

definition tmp_choice :: "start_world \<Rightarrow> environment \<Rightarrow> string option" where
  "tmp_choice W e = (case e ''TMPDIR'' of
      Some t \<Rightarrow> if t \<noteq> ''/data/local/tmp'' then Some t else find (file_exists W) [''/tmp'', xodos_tmp]
    | None \<Rightarrow> find (file_exists W) [''/tmp'', xodos_tmp])"

definition xkb_choice :: "start_world \<Rightarrow> string \<Rightarrow> environment \<Rightarrow> string option" where
  "xkb_choice W tmp e = (case e ''XKB_CONFIG_ROOT'' of
      Some x \<Rightarrow> Some x
    | None \<Rightarrow> find (file_exists W) [snprintf 1024 (root_dir tmp @ xkb_dir), xkb_dir, xodos_xkb])"

lemma start_env_tmpdir: "start_env W e ''TMPDIR'' = tmp_choice W e"
  by (auto simp: start_env_def choose_tmpdir_def choose_preload_def tmp_choice_def Let_def split: option.split)

lemma start_env_other: "v \<noteq> ''TMPDIR'' \<Longrightarrow> v \<noteq> ''LD_PRELOAD'' \<Longrightarrow> start_env W e v = e v"
  by (simp add: start_env_def choose_tmpdir_def choose_preload_def Let_def)

lemma choose_xkb_root: "choose_xkb W (root_dir t) (start_env W e) ''XKB_CONFIG_ROOT'' = xkb_choice W t e"
  by (auto simp: choose_xkb_def xkb_choice_def start_env_other Let_def split: option.split)

lemma choose_xkb_other: "v \<noteq> ''XKB_CONFIG_ROOT'' \<Longrightarrow> choose_xkb W root e v = e v"
  by (simp add: choose_xkb_def Let_def)

lemma choose_fonts_find:
  "choose_fonts W root ps = map_option (snprintf 4096 \<circ> font_list) (find (file_exists W) (map (\<lambda>p. snprintf 1024 (root @ p)) ps))"
  by (induction ps) (simp_all add: Let_def)


definition container_world :: "start_world" where
  "container_world = \<lparr>file_exists = (\<lambda>p. p \<in> {''/c/tmp'', ''/c/usr/share/X11/xkb'', ''/c/share/fonts'', ''/c''}),
     proc_status = Some (of_lines [''Name:'' @ CHR 0x09 # ''app''] @ of_lines [''TracerPid:'' @ CHR 0x09 # decimal 0] @ []), current_dir = Some ''/c''\<rparr>"


theorem detect_tracer_correct_witness: "\<not> detectTracer container_world"
  using detect_tracer_correct [of "[''Name:'' @ CHR 0x09 # ''app'']" 0 container_world "[]"]
  by (simp add: container_world_def status_line_def newline_def)

text \<open>
  A container is recognised by its directory for temporary files: when this is \<^verbatim>\<open>tmp\<close> in the root \<open>r\<close> of the container and the keyboard
  data is installed there, the server starts with this data, and with the fonts of the container if one of its font directories exists.
\<close>

theorem container_is_used:
  assumes "e ''TMPDIR'' = Some (r @ ''/tmp'')" "r @ ''/tmp'' \<noteq> ''/data/local/tmp''" "e ''XKB_CONFIG_ROOT'' = None"
    and "r \<noteq> []" "last r \<noteq> CHR ''/''" "length r < 600" "file_exists W (r @ xkb_dir)"
  shows "\<exists>s. snd (start_server W args e) = Inr s \<and> xkb_base s = r @ xkb_dir \<and> xtrans_unix_dir s = r @ ''/tmp/.X11-unix/''
    \<and> font_path s = map_option font_list (find (file_exists W) (map (\<lambda>p. r @ p) font_dirs))"
proof -
  have d: "root_dir (r @ ''/tmp'') = r" using dirname_component [OF assms(4,5), of "''tmp''"] assms(6) by (simp add: root_dir_def)
  have t: "tmp_choice W e = Some (r @ ''/tmp'')" using assms(1,2) by (simp add: tmp_choice_def)
  have s: "snprintf 1024 (r @ p) = r @ p" if "length p < 400" for p using that assms(6) by (simp add: snprintf_def)
  have k: "xkb_choice W (r @ ''/tmp'') e = Some (r @ xkb_dir)"
    using assms(3,7) d s [of xkb_dir] by (simp add: xkb_choice_def) (simp add: xkb_dir_def)
  have m: "map (\<lambda>p. snprintf 1024 (r @ p)) font_dirs = map (\<lambda>p. r @ p) font_dirs" using s by (simp add: font_dirs_def)
  have f: "snprintf 4096 (font_list p) = font_list p" if "find (file_exists W) (map (\<lambda>p. r @ p) font_dirs) = Some p" for p
  proof -
    have "p \<in> set (map (\<lambda>p. r @ p) font_dirs)" using that by (metis find_Some_iff nth_mem)
    then have "length p < 620" using assms(6) by (auto simp: font_dirs_def)
    then show ?thesis by (simp add: snprintf_def font_list_def)
  qed
  have "choose_fonts W r font_dirs = map_option font_list (find (file_exists W) (map (\<lambda>p. r @ p) font_dirs))"
    unfolding choose_fonts_find m using f by (cases "find (file_exists W) (map (\<lambda>p. r @ p) font_dirs)") simp_all
  then show ?thesis using start_env_tmpdir [of W e] choose_xkb_root [of W "r @ ''/tmp''" e] assms(7)
    by (simp add: start_server_def Let_def t k d)
qed

theorem container_is_used_witness:
  "\<exists>s. snd (start_server container_world [''-nolock''] [''TMPDIR'' \<mapsto> ''/c/tmp'']) = Inr s \<and> xkb_base s = ''/c/usr/share/X11/xkb'' \<and>
     font_path s = Some (font_list ''/c/share/fonts'')"
proof -
  have "file_exists container_world p \<longleftrightarrow> p \<in> {''/c/tmp'', ''/c/usr/share/X11/xkb'', ''/c/share/fonts'', ''/c''}" for p
    by (simp add: container_world_def)
  then show ?thesis
    using container_is_used [of "[''TMPDIR'' \<mapsto> ''/c/tmp'']" "''/c''" container_world "[''-nolock'']"]
    by (fastforce simp: xkb_dir_def font_dirs_def)
qed

text \<open>The processors of the lower half stay in the mask if they were set in the memory it lies in.\<close>

lemma affinity_members: "affinity G n = G \<union> {i. (if 0 \<le> n then n div 2 else - (- n div 2)) \<le> i \<and> i < n \<and> i < CPU_SETSIZE}"
proof -
  have "fold (\<lambda>i cpus. if i < CPU_SETSIZE then insert i cpus else cpus) is G = G \<union> {i \<in> set is. i < CPU_SETSIZE}" for "is" G
    by (induction "is" arbitrary: G) auto
  then show ?thesis by (auto simp: affinity_def)
qed

theorem affinity_keeps_garbage: "0 < n \<Longrightarrow> n \<le> CPU_SETSIZE \<Longrightarrow> affinity G n = {n div 2..<n} \<longleftrightarrow> G \<subseteq> {n div 2..<n}"
  by (auto simp: affinity_members)

section \<open>The request of a connection\<close>

definition MAGIC :: string where
  "MAGIC = ''0xDEADBEEF'' @ [CHR 0x00]"

datatype connect_outcome = Connected | In_progress | Connect_failed

text \<open>The answers of the system to the activity, in the order of the calls.\<close>

record request_world =
  req_socket :: int
  req_fcntl :: int
  req_connect :: connect_outcome
  req_poll :: int
  req_getsockopt :: int
  req_so_error :: int
  req_write :: int

record request_result =
  req_sent :: bool
  req_written :: string
  req_closed :: "int list"

definition request_end :: "request_world \<Rightarrow> bool \<Rightarrow> string \<Rightarrow> request_result" where
  "request_end R b w = \<lparr>req_sent = b, req_written = w, req_closed = (if 0 \<le> req_socket R then [req_socket R] else [])\<rparr>"

definition requestConnection :: "request_world \<Rightarrow> request_result" where
  "requestConnection R =
    (if req_socket R < 0 then request_end R False []
     else if req_fcntl R < 0 then request_end R False []
     else case req_connect R of
       Connect_failed \<Rightarrow> request_end R False []
     | In_progress \<Rightarrow>
         if req_poll R = 0 then request_end R False []
         else if req_poll R < 0 then request_end R False []
         else if req_getsockopt R < 0 then request_end R False []
         else if req_so_error R \<noteq> 0 then request_end R False []
         else if req_write R < 0 then request_end R False []
         else request_end R True (take (nat (req_write R)) MAGIC)
     | Connected \<Rightarrow> request_end R False [])"

text \<open>One round of the server: \<^verbatim>\<open>accept\<close> fails, or a client comes whose first bytes are read (\<open>None\<close> is an error, no byte the end).\<close>

datatype client_try = Accept_failed | Client int "string option"

record listener =
  broadcasts :: nat
  closed_clients :: "int list"

definition is_request :: "string \<Rightarrow> bool" where
  "is_request bs \<longleftrightarrow> 0 < length bs \<and> take (min (length bs) (length MAGIC)) bs = take (min (length bs) (length MAGIC)) MAGIC"

fun listen_client :: "client_try \<Rightarrow> listener \<Rightarrow> listener" where
  "listen_client Accept_failed L = L"
| "listen_client (Client c r) L = (case r of
      Some bs \<Rightarrow> if is_request (take 512 bs) then L\<lparr>broadcasts := Suc (broadcasts L), closed_clients := closed_clients L @ [c]\<rparr>
                 else L\<lparr>closed_clients := closed_clients L @ [c]\<rparr>
    | None \<Rightarrow> L\<lparr>closed_clients := closed_clients L @ [c]\<rparr>)"

text \<open>The loop has no end; the rounds it makes are a list. If the listener cannot be set up there is no loop, and its socket is closed.\<close>

definition listenForConnections :: "int \<Rightarrow> int \<Rightarrow> int \<Rightarrow> client_try list \<Rightarrow> int list \<times> listener option" where
  "listenForConnections server_fd bind_ret listen_ret tries =
    (if server_fd = 0 then ([], None)
     else if bind_ret < 0 then ([server_fd], None)
     else if listen_ret < 0 then ([server_fd], None)
     else ([], Some (fold listen_client tries \<lparr>broadcasts = 0, closed_clients = []\<rparr>)))"

definition heard :: "client_try \<Rightarrow> bool" where
  "heard t = (case t of Client c (Some bs) \<Rightarrow> is_request (take 512 bs) | _ \<Rightarrow> False)"

definition tried_fds :: "client_try list \<Rightarrow> int list" where
  "tried_fds ts = concat (map (\<lambda>t. case t of Client c r \<Rightarrow> [c] | Accept_failed \<Rightarrow> []) ts)"

lemma listen_clients:
  "fold listen_client ts L = L\<lparr>broadcasts := broadcasts L + length (filter heard ts), closed_clients := closed_clients L @ tried_fds ts\<rparr>"
proof (induction ts arbitrary: L)
  case (Cons t ts)
  show ?case
    by (cases t) (auto simp: Cons heard_def tried_fds_def split: option.split)
qed (simp add: tried_fds_def)

lemma request_prefix: "b \<noteq> [] \<Longrightarrow> prefix b MAGIC \<Longrightarrow> is_request (take 512 b)"
proof -
  assume b: "b \<noteq> []" "prefix b MAGIC"
  then obtain z where z: "MAGIC = b @ z" by (auto simp: prefix_def)
  from arg_cong [OF z, of length] have "length b \<le> 11" by (simp add: MAGIC_def)
  then show ?thesis using b(1) unfolding is_request_def z by simp
qed

text \<open>
  C32. A request of the activity is heard: what it has written when it reports success makes the server broadcast its connection once,
  however few of these bytes arrive in the first read, every other client leaves the number of broadcasts to the requests they make
  themselves, and every client is closed once. Both sides close what they opened.
\<close>

theorem request_is_heard:
  assumes "req_sent (requestConnection R)" and "b \<noteq> []" and "prefix b (req_written (requestConnection R))"
    and "0 < fd" and "0 \<le> bind_ret" and "0 \<le> listen_ret"
  shows "\<exists>L. listenForConnections fd bind_ret listen_ret (us @ Client c (Some b) # vs) = ([], Some L)
    \<and> broadcasts L = Suc (length (filter heard us) + length (filter heard vs))
    \<and> closed_clients L = tried_fds us @ c # tried_fds vs \<and> req_closed (requestConnection R) = [req_socket R]"
proof -
  have R: "requestConnection R = request_end R True (take (nat (req_write R)) MAGIC)" "0 \<le> req_socket R"
    using assms(1) by (auto simp: requestConnection_def request_end_def split: if_splits connect_outcome.splits)
  have "prefix b MAGIC" using assms(3) prefix_order.trans [OF _ take_is_prefix] unfolding R(1) by (simp add: request_end_def)
  then have "is_request (take 512 b)" by (rule request_prefix [OF assms(2)])
  then show ?thesis using assms(4-6) R by (simp add: listenForConnections_def listen_clients tried_fds_def request_end_def heard_def)
qed

definition sample_request :: request_world where
  "sample_request = \<lparr>req_socket = 7, req_fcntl = 0, req_connect = In_progress, req_poll = 1, req_getsockopt = 0, req_so_error = 0, req_write = 11\<rparr>"

theorem request_is_heard_witness:
  "\<exists>L. listenForConnections 3 0 0 [Accept_failed, Client 4 (Some ''GET /''), Client 5 (Some MAGIC)] = ([], Some L) \<and> broadcasts L = 1 \<and> closed_clients L = [4, 5]"
proof -
  have s: "requestConnection sample_request = request_end sample_request True (take 11 MAGIC)"
    by (simp add: requestConnection_def sample_request_def)
  have t: "req_sent (requestConnection sample_request)" "prefix MAGIC (req_written (requestConnection sample_request))"
    unfolding s by (simp_all add: request_end_def MAGIC_def)
  have "MAGIC \<noteq> []" by (simp add: MAGIC_def)
  from request_is_heard [OF t(1) this t(2), of 3 0 0 "[Accept_failed, Client 4 (Some ''GET /'')]" 5 "[]"]
  show ?thesis by (auto simp: heard_def is_request_def tried_fds_def MAGIC_def)
qed

text \<open>A connection that is there at once is closed without a request, and a single byte passes for a request.\<close>

theorem immediate_connection_dropped:
  "req_connect R = Connected \<Longrightarrow> \<not> req_sent (requestConnection R) \<and> req_written (requestConnection R) = []"
  by (simp add: requestConnection_def request_end_def)

theorem one_byte_is_heard: "heard (Client c (Some ''0''))"
  by (simp add: heard_def is_request_def MAGIC_def)

section \<open>The tracer and the shared memory of the kernel\<close>

text \<open>
  \<^verbatim>\<open>lorie/shm/shmem.c\<close> asks once whether the process runs under \<^verbatim>\<open>proot\<close>, in which case the shared memory calls of the kernel may work. The array holds the bytes read
  and, behind them, what was in it before; the search ends at the first 0. The pointer it gives is tested the wrong way round: a match is taken for a failure, and without one the null pointer is scanned
  (\<open>None\<close>).
\<close>

primrec strstr :: "string \<Rightarrow> string \<Rightarrow> string option" where
  "strstr needle [] = (if needle = [] then Some [] else None)"
| "strstr needle (c # cs) = (if take (length needle) (c # cs) = needle then Some (c # cs) else strstr needle cs)"

definition isProot :: "string \<Rightarrow> string option \<Rightarrow> bool option" where
  "isProot stack status = (case status of None \<Rightarrow> Some False
    | Some cs \<Rightarrow> (let got = take 4095 cs; buf = got @ drop (length got) stack in
        case strstr ''TracerPid:'' (takeWhile (\<lambda>c. c \<noteq> CHR 0x00) buf) of Some s \<Rightarrow> Some False | None \<Rightarrow> None))"

definition check_syscall_support :: "string \<Rightarrow> string option \<Rightarrow> bool \<Rightarrow> bool \<Rightarrow> bool option" where
  "check_syscall_support stack status enosys supported = (case isProot stack status of
      None \<Rightarrow> None | Some False \<Rightarrow> Some supported | Some True \<Rightarrow> Some (\<not> enosys \<or> supported))"

text \<open>Whatever the status file holds, the calls of the kernel are not turned on.\<close>

theorem proot_not_detected: "check_syscall_support stack status enosys False \<noteq> Some True"
  by (auto simp: check_syscall_support_def isProot_def Let_def split: option.splits bool.splits)

end
