(* ===== verification/Term_Subprocess.thy ===== *)
theory Term_Subprocess
  imports Lorie_Start
begin

text \<open>
  The processes of the terminal emulator (\<^verbatim>\<open>terminal-emulator/src/main/jni/termux.c\<close>): the pseudo-terminal and the fork of \<^verbatim>\<open>create_subprocess\<close>, what the child
  does until it runs its command, the arrays of strings \<^verbatim>\<open>createSubprocess\<close> makes of the Java arrays, and the exit status of \<^verbatim>\<open>waitFor\<close>. What the system
  and the Java machine answer are records; the descriptors of the child are a map from numbers to open files.
\<close>

section \<open>Flags and sizes of the terminal\<close>

unbundle bit_operations_syntax

definition IUTF8 :: u32 where "IUTF8 = 0x4000"

definition IXON :: u32 where "IXON = 0x400"

definition IXOFF :: u32 where "IXOFF = 0x1000"

definition terminal_iflag :: "u32 \<Rightarrow> u32" where
  "terminal_iflag f = (f OR IUTF8) AND NOT (IXON OR IXOFF)"

definition setPtyUTF8Mode :: "u32 \<Rightarrow> u32" where
  "setPtyUTF8Mode f = (if f AND IUTF8 = 0 then f OR IUTF8 else f)"

record winsize =
  ws_row :: u16
  ws_col :: u16

definition setPtyWindowSize :: "u32 \<Rightarrow> u32 \<Rightarrow> winsize" where
  "setPtyWindowSize rows cols = \<lparr>ws_row = ucast rows, ws_col = ucast cols\<rparr>"

section \<open>The child\<close>

datatype open_file = Ptm | Pts | Fd_dir | Inherited nat

record child =
  child_fds :: "int \<rightharpoonup> open_file"
  child_env :: environment
  child_dir :: "string option"
  child_argv :: "string list option"

datatype child_end = No_terminal | Executes child | Exec_failed child

record child_world =
  pts_fd :: int
  fd_dir :: "int option"
  dir_entries :: "string list"
  chdir_ok :: bool
  exec_ok :: bool

definition atoi :: "string \<Rightarrow> int" where
  "atoi s = (case scan_int s of Some n \<Rightarrow> n | None \<Rightarrow> 0)"

definition dup2 :: "int \<Rightarrow> int \<Rightarrow> (int \<rightharpoonup> open_file) \<Rightarrow> int \<rightharpoonup> open_file" where
  "dup2 old new m = m(new := m old)"

text \<open>The loop over \<^verbatim>\<open>/proc/self/fd\<close>.\<close>

definition close_listed :: "int \<Rightarrow> string list \<Rightarrow> (int \<rightharpoonup> open_file) \<Rightarrow> int \<rightharpoonup> open_file" where
  "close_listed self_dir_fd = fold (\<lambda>name m. if 2 < atoi name \<and> atoi name \<noteq> self_dir_fd then m(atoi name := None) else m)"

definition child_files :: "child_world \<Rightarrow> int \<Rightarrow> (int \<rightharpoonup> open_file) \<Rightarrow> int \<rightharpoonup> open_file" where
  "child_files C ptm m = (let m1 = (m(ptm := None))(pts_fd C \<mapsto> Pts);
     m2 = dup2 (pts_fd C) 2 (dup2 (pts_fd C) 1 (dup2 (pts_fd C) 0 m1)) in
     case fd_dir C of
       None \<Rightarrow> m2
     | Some d \<Rightarrow> (close_listed d (dir_entries C) (m2(d \<mapsto> Fd_dir)))(d := None))"

text \<open>\<^verbatim>\<open>putenv\<close> refuses a string without \<^verbatim>\<open>=\<close>.\<close>

definition putenv :: "string \<Rightarrow> environment \<Rightarrow> environment" where
  "putenv s e = (case dropWhile (\<lambda>c. c \<noteq> CHR ''='') s of
      [] \<Rightarrow> e
    | c # v \<Rightarrow> e(takeWhile (\<lambda>c. c \<noteq> CHR ''='') s \<mapsto> v))"

definition run_child :: "child_world \<Rightarrow> int \<Rightarrow> (int \<rightharpoonup> open_file) \<Rightarrow> string \<Rightarrow> string list option \<Rightarrow> string list option \<Rightarrow> child_end" where
  "run_child C ptm m cwd argv envp =
    (if pts_fd C < 0 then No_terminal
     else (let c = \<lparr>child_fds = child_files C ptm m,
                     child_env = (case envp of None \<Rightarrow> Map.empty | Some es \<Rightarrow> fold putenv es Map.empty),
                     child_dir = (if chdir_ok C then Some cwd else None), child_argv = argv\<rparr> in
           if exec_ok C then Executes c else Exec_failed c))"

section \<open>The parent\<close>

record pty_world =
  ptmx_open :: int
  grantpt_ret :: int
  unlockpt_ret :: int
  ptsname_ret :: int
  ptm_iflag :: u32
  fork_ret :: int

record pty_result =
  returned :: int
  raised :: "string option"
  left_open :: "int list"
  terminal :: "(u32 \<times> winsize) option"
  child_pid :: int

definition throw :: "string \<Rightarrow> int list \<Rightarrow> (u32 \<times> winsize) option \<Rightarrow> pty_result" where
  "throw msg fds t = \<lparr>returned = -1, raised = Some msg, left_open = fds, terminal = t, child_pid = 0\<rparr>"

text \<open>The parent's side of \<^verbatim>\<open>fork\<close>; the child's, where it returns 0, is \<open>run_child\<close>.\<close>

definition create_subprocess :: "pty_world \<Rightarrow> u32 \<Rightarrow> u32 \<Rightarrow> pty_result" where
  "create_subprocess W rows columns = (let ptm = ptmx_open W in
     if ptm < 0 then throw ''Cannot open /dev/ptmx'' [] None
     else if grantpt_ret W \<noteq> 0 \<or> unlockpt_ret W \<noteq> 0 \<or> ptsname_ret W \<noteq> 0
     then throw ''Cannot grantpt()/unlockpt()/ptsname_r() on /dev/ptmx'' [ptm] None
     else (let t = Some (terminal_iflag (ptm_iflag W), setPtyWindowSize rows columns) in
       if fork_ret W < 0 then throw ''Fork failed'' [ptm] t
       else \<lparr>returned = ptm, raised = None, left_open = [ptm], terminal = t, child_pid = fork_ret W\<rparr>))"

section \<open>The arrays of strings\<close>

text \<open>What becomes of a string of the Java array: the machine does not give its characters, they cannot be copied, or they are.\<close>

datatype java_string = No_chars | No_copy | Copied string

text \<open>The cells of the array so far, and whether the end of the Java array was reached.\<close>

fun copy_strings :: "java_string list \<Rightarrow> string option list \<times> bool" where
  "copy_strings [] = ([], True)"
| "copy_strings (No_chars # js) = ([], False)"
| "copy_strings (No_copy # js) = (case copy_strings js of (cs, ok) \<Rightarrow> (None # cs, ok))"
| "copy_strings (Copied s # js) = (case copy_strings js of (cs, ok) \<Rightarrow> (Some s # cs, ok))"

text \<open>The blocks of an array: itself and its strings. The loop that frees them ends at the first null pointer.\<close>

definition blocks_of :: "string option list \<Rightarrow> nat" where
  "blocks_of cs = Suc (length (filter (\<lambda>c. c \<noteq> None) cs))"

definition freed_of :: "string option list \<Rightarrow> nat" where
  "freed_of cs = Suc (length (takeWhile (\<lambda>c. c \<noteq> None) cs))"

definition strings_seen :: "string option list \<Rightarrow> string list" where
  "strings_seen cs = map the (takeWhile (\<lambda>c. c \<noteq> None) cs)"

text \<open>An array, or the blocks that are left when it fails; an empty or missing Java array gives the null pointer.\<close>

definition make_array :: "bool \<Rightarrow> java_string list option \<Rightarrow> nat + string option list option" where
  "make_array malloc_ok js = (case js of
      None \<Rightarrow> Inr None
    | Some [] \<Rightarrow> Inr None
    | Some js \<Rightarrow> if \<not> malloc_ok then Inl 0
        else (case copy_strings js of (cs, ok) \<Rightarrow> if ok then Inr (Some cs) else Inl (blocks_of cs)))"

record jni_world =
  argv_malloc :: bool
  envp_malloc :: bool
  array_critical :: bool

record jni_result =
  jni_returned :: int
  jni_raised :: bool
  jni_fds :: "int list"
  jni_leaked :: nat
  jni_pid :: "int option"
  jni_argv :: "string list option"
  jni_envp :: "string list option"

definition unfreed :: "string option list option \<Rightarrow> nat" where
  "unfreed a = (case a of None \<Rightarrow> 0 | Some cs \<Rightarrow> blocks_of cs - freed_of cs)"

definition live_blocks :: "string option list option \<Rightarrow> nat" where
  "live_blocks a = (case a of None \<Rightarrow> 0 | Some cs \<Rightarrow> blocks_of cs)"

definition jni_throw :: "nat \<Rightarrow> jni_result" where
  "jni_throw n = \<lparr>jni_returned = -1, jni_raised = True, jni_fds = [], jni_leaked = n, jni_pid = None, jni_argv = None, jni_envp = None\<rparr>"

definition createSubprocess :: "jni_world \<Rightarrow> pty_world \<Rightarrow> java_string list option \<Rightarrow> java_string list option \<Rightarrow> u32 \<Rightarrow> u32 \<Rightarrow> jni_result" where
  "createSubprocess J W args envVars rows columns = (case make_array (argv_malloc J) args of
      Inl n \<Rightarrow> jni_throw n
    | Inr argv \<Rightarrow> (case make_array (envp_malloc J) envVars of
        Inl n \<Rightarrow> jni_throw (live_blocks argv + n)
      | Inr envp \<Rightarrow> (let p = create_subprocess W rows columns in
          \<lparr>jni_returned = (if array_critical J then returned p else -1), jni_raised = (raised p \<noteq> None \<or> \<not> array_critical J),
           jni_fds = left_open p, jni_leaked = unfreed argv + unfreed envp,
           jni_pid = (if array_critical J then Some (child_pid p) else None),
           jni_argv = map_option strings_seen argv, jni_envp = map_option strings_seen envp\<rparr>)))"

section \<open>The exit status\<close>

definition WTERMSIG :: "u32 \<Rightarrow> u32" where "WTERMSIG s = s AND 0x7f"

definition WEXITSTATUS :: "u32 \<Rightarrow> u32" where "WEXITSTATUS s = drop_bit 8 (s AND 0xff00)"

definition WIFEXITED :: "u32 \<Rightarrow> bool" where "WIFEXITED s \<longleftrightarrow> WTERMSIG s = 0"

definition WIFSIGNALED :: "u32 \<Rightarrow> bool" where "WIFSIGNALED s \<longleftrightarrow> 2 \<le> WTERMSIG (s + 1)"

definition waitFor :: "u32 \<Rightarrow> int" where
  "waitFor s = (if WIFEXITED s then sint (WEXITSTATUS s) else if WIFSIGNALED s then - sint (WTERMSIG s) else 0)"

text \<open>How the kernel encodes an exit and a signal.\<close>

definition exit_status :: "u32 \<Rightarrow> u32" where
  "exit_status c = push_bit 8 (c AND 0xff)"

definition signal_status :: "u32 \<Rightarrow> bool \<Rightarrow> u32" where
  "signal_status g core = g OR (if core then 0x80 else 0)"

section \<open>What the command starts with\<close>

lemma atoi_decimal: "atoi (decimal n) = int n"
proof -
  note d = decimal_digits [of n]
  obtain c cs where c: "decimal n = c # cs" "is_digit c" using d by (cases "decimal n") auto
  have t: "takeWhile is_digit (decimal n) = decimal n" using d by (simp add: takeWhile_eq_all_conv list_all_iff)
  have s: "scan_digits (decimal n) = Some (int n)" unfolding scan_digits_def t using d c by simp
  have "\<not> is_space c" "c \<noteq> CHR ''-''" "c \<noteq> CHR ''+''" using c(2) by (auto simp: is_digit_def is_space_def)
  then show ?thesis using s c(1) by (simp add: atoi_def scan_int_def)
qed

lemma close_listed_keeps: "fd \<le> 2 \<Longrightarrow> close_listed d names m fd = m fd"
  unfolding close_listed_def by (induction names arbitrary: m) auto

lemma close_listed_None: "m fd = None \<Longrightarrow> close_listed d names m fd = None"
  unfolding close_listed_def by (induction names arbitrary: m) auto

lemma close_listed_closes: "name \<in> set names \<Longrightarrow> 2 < atoi name \<Longrightarrow> atoi name \<noteq> d \<Longrightarrow> close_listed d names m (atoi name) = None"
proof (induction names arbitrary: m)
  case (Cons a names)
  show ?case
  proof (cases "a = name")
    case True
    then show ?thesis using Cons.prems close_listed_None [of "m(atoi a := None)" "atoi a" d names] by (simp add: close_listed_def)
  next
    case False
    then show ?thesis using Cons by (simp add: close_listed_def)
  qed
qed simp

text \<open>
  C35. The command of a terminal session inherits nothing: if the directory of descriptors lists every descriptor the child has open, whatever the application
  had open, the command starts with the terminal as its descriptors 0, 1 and 2 and with no other.
\<close>

theorem child_has_only_terminal:
  assumes "fd_dir C = Some d" and "2 < d" and "0 \<le> pts_fd C" and "pts_fd C \<noteq> d" and "m d = None"
    and "\<forall>fd. m fd \<noteq> None \<or> fd = pts_fd C \<longrightarrow> 0 \<le> fd \<and> decimal (nat fd) \<in> set (dir_entries C)"
  shows "child_files C ptm m = [0 \<mapsto> Pts, 1 \<mapsto> Pts, 2 \<mapsto> Pts]"
proof
  fix fd
  let ?m2 = "dup2 (pts_fd C) 2 (dup2 (pts_fd C) 1 (dup2 (pts_fd C) 0 ((m(ptm := None))(pts_fd C \<mapsto> Pts))))"
  have f: "child_files C ptm m = (close_listed d (dir_entries C) (?m2(d \<mapsto> Fd_dir)))(d := None)"
    using assms(1) by (simp add: child_files_def Let_def)
  have std: "?m2 0 = Some Pts" "?m2 1 = Some Pts" "?m2 2 = Some Pts" by (simp_all add: dup2_def)
  have "child_files C ptm m fd = (if fd = 0 \<or> fd = 1 \<or> fd = 2 then Some Pts else None)"
  proof (cases "fd = 0 \<or> fd = 1 \<or> fd = 2")
    case True
    then show ?thesis using std assms(2) close_listed_keeps [of fd d "dir_entries C"] unfolding f by auto
  next
    case False
    show ?thesis
    proof (cases "m fd \<noteq> None \<or> fd = pts_fd C")
      case True
      then have n: "0 \<le> fd" "decimal (nat fd) \<in> set (dir_entries C)" using assms(6) by blast+
      then have "atoi (decimal (nat fd)) = fd" by (simp add: atoi_decimal)
      then show ?thesis using False n close_listed_closes [OF n(2), of d "?m2(d \<mapsto> Fd_dir)"] unfolding f by (cases "fd = d") auto
    next
      case out: False
      then have "fd \<noteq> d \<Longrightarrow> (?m2(d \<mapsto> Fd_dir)) fd = None" using False by (simp add: dup2_def)
      then show ?thesis using False unfolding f by (cases "fd = d") (simp_all add: close_listed_None)
    qed
  qed
  then show "child_files C ptm m fd = [0 \<mapsto> Pts, 1 \<mapsto> Pts, 2 \<mapsto> Pts] fd" by simp
qed

definition sample_child :: child_world where
  "sample_child = \<lparr>pts_fd = 9, fd_dir = Some 10, dir_entries = [''.'', ''..'', decimal 0, decimal 5, decimal 7, decimal 9, decimal 10], chdir_ok = True, exec_ok = True\<rparr>"

theorem child_has_only_terminal_witness:
  "child_files sample_child 7 [0 \<mapsto> Inherited 1, 5 \<mapsto> Inherited 2, 7 \<mapsto> Ptm] = [0 \<mapsto> Pts, 1 \<mapsto> Pts, 2 \<mapsto> Pts]"
  by (rule child_has_only_terminal [where d = 10]) (auto simp: sample_child_def)

section \<open>Its environment\<close>

definition assignment :: "string \<Rightarrow> (string \<times> string) option" where
  "assignment s = (if CHR ''='' \<in> set s then Some (takeWhile (\<lambda>c. c \<noteq> CHR ''='') s, tl (dropWhile (\<lambda>c. c \<noteq> CHR ''='') s)) else None)"

lemma putenv_assignment: "putenv s e = (case assignment s of None \<Rightarrow> e | Some (k, v) \<Rightarrow> e(k \<mapsto> v))"
proof (cases "dropWhile (\<lambda>c. c \<noteq> CHR ''='') s")
  case Nil
  then have "CHR ''='' \<notin> set s" by (simp add: dropWhile_eq_Nil_conv) blast
  then show ?thesis unfolding putenv_def Nil assignment_def by simp
next
  case (Cons c v)
  then have "CHR ''='' \<in> set s" using dropWhile_eq_Nil_conv [of "\<lambda>c. c \<noteq> CHR ''=''" s] by (metis list.distinct(1))
  then show ?thesis using Cons by (simp add: putenv_def assignment_def)
qed

text \<open>
  The environment of the command is the one given: nothing of the application's own environment remains, and a variable has the value of the
  last of the given strings that assigns it.
\<close>

theorem child_environment_given:
  "run_child C ptm m cwd argv (Some es) \<in> {Executes c, Exec_failed c} \<Longrightarrow> child_env c = map_of (rev (List.map_filter assignment es))"
proof -
  have "fold putenv es e = e ++ map_of (rev (List.map_filter assignment es))" for e
  proof (induction es arbitrary: e)
    case (Cons s es)
    show ?case unfolding fold.simps comp_def Cons by (simp add: putenv_assignment map_filter_simps split: option.split prod.split)
  qed (simp add: map_filter_simps)
  then show "run_child C ptm m cwd argv (Some es) \<in> {Executes c, Exec_failed c} \<Longrightarrow> ?thesis"
    by (auto simp: run_child_def Let_def split: if_splits)
qed

theorem child_environment_given_witness:
  "\<exists>c. run_child sample_child 7 [7 \<mapsto> Ptm] ''/'' None (Some [''A=1'', ''B=2'', ''A=3'', ''C'']) = Executes c \<and>
     child_env c ''A'' = Some ''3'' \<and> child_env c ''C'' = None"
proof -
  obtain c where c: "run_child sample_child 7 [7 \<mapsto> Ptm] ''/'' None (Some [''A=1'', ''B=2'', ''A=3'', ''C'']) = Executes c"
    by (simp add: run_child_def sample_child_def Let_def)
  then have "child_env c = map_of (rev (List.map_filter assignment [''A=1'', ''B=2'', ''A=3'', ''C'']))"
    by (intro child_environment_given [of sample_child 7 "[7 \<mapsto> Ptm]" "''/''" None]) simp
  then show ?thesis using c by (simp add: map_filter_simps assignment_def)
qed

section \<open>Starting and waiting\<close>

lemma all_copied: "copy_strings (map Copied ss) = (map Some ss, True)"
  by (induction ss) simp_all

lemma takeWhile_Some: "takeWhile (\<lambda>c. c \<noteq> None) (map Some ss) = map Some ss"
  by (induction ss) simp_all

lemma all_freed: "blocks_of (map Some ss) = freed_of (map Some ss)"
  unfolding blocks_of_def freed_of_def takeWhile_Some by (simp add: filter_map comp_def)

lemma all_seen: "strings_seen (map Some ss) = ss"
  unfolding strings_seen_def takeWhile_Some by (simp add: comp_def)

lemma make_array_copied: "make_array True (Some (map Copied ss)) = Inr (if ss = [] then None else Some (map Some ss))"
  by (cases ss) (simp_all add: make_array_def all_copied)

text \<open>
  A session is started: if the strings can be copied and the system grants the terminal and the process, the call returns the terminal's descriptor and the process
  id, the command gets the arguments and the environment given, and all memory is freed.
\<close>

theorem session_started:
  assumes "argv_malloc J" "envp_malloc J" "array_critical J"
    and "0 \<le> ptmx_open W" "grantpt_ret W = 0" "unlockpt_ret W = 0" "ptsname_ret W = 0" "0 < fork_ret W"
  shows "let r = createSubprocess J W (Some (map Copied as)) (Some (map Copied es)) rows columns in
      jni_returned r = ptmx_open W \<and> \<not> jni_raised r \<and> jni_fds r = [ptmx_open W] \<and> jni_pid r = Some (fork_ret W) \<and> jni_leaked r = 0
    \<and> jni_argv r = (if as = [] then None else Some as) \<and> jni_envp r = (if es = [] then None else Some es)"
  using assms by (simp add: createSubprocess_def make_array_copied create_subprocess_def Let_def unfreed_def all_freed all_seen)

definition sample_pty :: pty_world where
  "sample_pty = \<lparr>ptmx_open = 7, grantpt_ret = 0, unlockpt_ret = 0, ptsname_ret = 0, ptm_iflag = 0x500, fork_ret = 4711\<rparr>"

theorem session_started_witness:
  "jni_pid (createSubprocess \<lparr>argv_malloc = True, envp_malloc = True, array_critical = True\<rparr> sample_pty (Some (map Copied [''sh''])) (Some (map Copied [])) 24 80) = Some 4711"
  using session_started [of "\<lparr>argv_malloc = True, envp_malloc = True, array_critical = True\<rparr>" sample_pty "[''sh'']" "[]" 24 80]
  by (simp add: sample_pty_def Let_def)

text \<open>
  The terminal of a session takes UTF-8 and no flow control, whatever its flags were, with all other flags kept, and the size asked for, of which only the low 16 bits count.
\<close>

theorem terminal_settings:
  assumes "terminal (create_subprocess W rows columns) = Some (f, z)"
  shows "f AND IUTF8 = IUTF8 \<and> f AND (IXON OR IXOFF) = 0 \<and> f AND NOT (IUTF8 OR IXON OR IXOFF) = ptm_iflag W AND NOT (IUTF8 OR IXON OR IXOFF)
    \<and> unat (ws_row z) = unat rows mod 2 ^ 16 \<and> unat (ws_col z) = unat columns mod 2 ^ 16"
proof -
  have f: "f = terminal_iflag (ptm_iflag W)" and z: "z = setPtyWindowSize rows columns"
    using assms by (auto simp: create_subprocess_def throw_def Let_def split: if_splits)
  have c: "IUTF8 AND (IXON OR IXOFF) = 0" by (simp add: IUTF8_def IXON_def IXOFF_def)
  then have b: "\<not> (bit IUTF8 n \<and> (bit IXON n \<or> bit IXOFF n))" for n by (metis bit_and_iff bit_or_iff bit_0_eq bot_apply bot_bool_def)
  have "f AND IUTF8 = IUTF8" unfolding f terminal_iflag_def by (rule bit_eqI) (use b in \<open>auto simp: bit_simps\<close>)
  moreover have "f AND (IXON OR IXOFF) = 0" unfolding f terminal_iflag_def by (rule bit_eqI) (auto simp: bit_simps)
  moreover have "f AND NOT (IUTF8 OR IXON OR IXOFF) = ptm_iflag W AND NOT (IUTF8 OR IXON OR IXOFF)"
    unfolding f terminal_iflag_def by (rule bit_eqI) (auto simp: bit_simps)
  ultimately show ?thesis unfolding z setPtyWindowSize_def by (simp add: unsigned_ucast_eq take_bit_eq_mod)
qed

theorem terminal_settings_witness:
  "\<exists>f z. terminal (create_subprocess sample_pty 24 80) = Some (f, z) \<and> f AND IUTF8 = IUTF8 \<and> unat (ws_col z) = 80"
  using terminal_settings [of sample_pty 24 80] by (simp add: create_subprocess_def sample_pty_def Let_def)

lemma WTERMSIG_mod: "uint (WTERMSIG s) = uint s mod 128"
proof -
  have "(0x7f :: u32) = mask 7" by (simp add: mask_numeral)
  then have "WTERMSIG s = take_bit 7 s" by (simp only: WTERMSIG_def take_bit_eq_mask)
  then show ?thesis by (simp add: take_bit_eq_mod uint_mod)
qed

lemma sint_small: "uint (w :: u32) < 2 ^ 31 \<Longrightarrow> sint w = uint w"
proof -
  assume "uint w < 2 ^ 31"
  moreover have "- (2 ^ 31) \<le> uint w" by (rule order_trans [of _ 0]) simp_all
  ultimately show ?thesis by (simp only: sint_uint) (simp add: signed_take_bit_int_eq_self)
qed

lemma exit_status_bytes: "WTERMSIG (exit_status c) = 0" "WEXITSTATUS (exit_status c) = c AND 0xff"
proof -
  have m: "(0xff :: u32) = mask 8" "(0x7f :: u32) = mask 7" "(0xff00 :: u32) = push_bit 8 (mask 8)"
    by (simp_all add: mask_numeral push_bit_numeral)
  show "WTERMSIG (exit_status c) = 0" unfolding WTERMSIG_def exit_status_def m by (rule bit_eqI) (auto simp: bit_simps)
  show "WEXITSTATUS (exit_status c) = c AND 0xff" unfolding WEXITSTATUS_def exit_status_def m by (rule bit_eqI) (auto simp: bit_simps)
qed

lemma signal_status_uint:
  assumes "g < 127" shows "uint (signal_status g core) = uint g + (if core then 128 else 0)"
proof (cases core)
  case True
  have g: "uint g < 128" using assms by (simp add: word_less_def)
  then have t: "g = take_bit 7 g" by (simp add: take_bit_eq_mod word_uint_eq_iff uint_mod)
  have "take_bit 7 g AND 0x80 = g AND take_bit 7 0x80" by (simp only: take_bit_eq_mask ac_simps)
  then have "g AND 0x80 = 0" using t by simp
  then have "g OR 0x80 = g + 0x80" using word_plus_and_or [of g "0x80"] by simp
  then show ?thesis using g True by (simp add: signal_status_def uint_plus_if')
qed (simp add: signal_status_def)

text \<open>
  The exit status is reported: a process that leaves with a code is reported with the low byte of the code, and one that a signal ends with the negated number of
  the signal, whether it left a core file or not.
\<close>

theorem wait_reports:
  "waitFor (exit_status c) = uint c mod 256 \<and> (0 < g \<longrightarrow> g < 127 \<longrightarrow> waitFor (signal_status g core) = - uint g)"
proof -
  have e: "uint (c AND 0xff) = uint c mod 256"
  proof -
    have "(0xff :: u32) = mask 8" by (simp add: mask_numeral)
    then have "c AND 0xff = take_bit 8 c" by (simp only: take_bit_eq_mask)
    then show ?thesis by (simp add: take_bit_eq_mod uint_mod)
  qed
  have "uint c mod 256 < 256" by simp
  then have "waitFor (exit_status c) = uint c mod 256"
    using sint_small [of "c AND 0xff"] e by (simp add: waitFor_def WIFEXITED_def exit_status_bytes)
  moreover have "waitFor (signal_status g core) = - uint g" if "0 < g" "g < 127"
  proof -
    let ?s = "signal_status g core"
    have g: "0 < uint g" "uint g < 127" using that by (simp_all add: word_less_def)
    note u = signal_status_uint [OF that(2), of core]
    have t: "uint (WTERMSIG ?s) = uint g" unfolding WTERMSIG_mod u using g by simp
    have "uint (?s + 1) = uint ?s + 1" using u g by (simp add: uint_plus_if')
    then have h: "uint (?s + 1) = uint g + 1 + (if core then 128 else 0)" unfolding u by simp
    have "(uint g + 1) mod 128 = uint g + 1" using g by (intro mod_pos_pos_trivial) simp_all
    then have "uint (WTERMSIG (?s + 1)) = uint g + 1"
      unfolding WTERMSIG_mod h by (cases core) (simp_all only: if_True if_False mod_add_self2 add_0_right)
    then have "WIFSIGNALED ?s" using g by (simp add: WIFSIGNALED_def word_le_def)
    moreover have "\<not> WIFEXITED ?s" using t g by (auto simp: WIFEXITED_def)
    ultimately show ?thesis using t g sint_small [of "WTERMSIG ?s"] by (simp add: waitFor_def)
  qed
  ultimately show ?thesis by simp
qed

theorem wait_reports_witness: "waitFor (signal_status 9 True) = -9 \<and> waitFor (exit_status 259) = 3"
  using wait_reports [of 259 9 True] by simp

text \<open>
  A start that fails after the terminal was opened leaves it open: neither the failure of \<^verbatim>\<open>fork\<close> nor the one of \<^verbatim>\<open>grantpt\<close> closes it, and the
  caller only sees the exception. A string the machine refuses leaves the array and the strings before it.
\<close>

theorem failed_session_leaks_terminal:
  "0 \<le> ptmx_open W \<Longrightarrow> raised (create_subprocess W rows columns) \<noteq> None \<Longrightarrow>
    left_open (create_subprocess W rows columns) = [ptmx_open W] \<and> returned (create_subprocess W rows columns) = -1"
  by (auto simp: create_subprocess_def throw_def Let_def)

theorem refused_string_leaks:
  "createSubprocess J W (Some (map Copied as @ No_chars # js)) es rows columns = jni_throw (if argv_malloc J then Suc (length as) else 0)"
proof -
  have "copy_strings (map Copied as @ No_chars # js) = (map Some as, False)" by (induction as) simp_all
  then show ?thesis by (cases as) (simp_all add: createSubprocess_def make_array_def blocks_of_def filter_map comp_def)
qed

end
