(* ===== verification/Xorg_List.thy ===== *)
theory Xorg_List
  imports Lorie_Prelude
begin

text \<open>
  The intrusive doubly linked list of \<^verbatim>\<open>xserver/include/list.h\<close>, on an explicit store of
  \<^verbatim>\<open>next\<close>/\<^verbatim>\<open>prev\<close> pointers. The registered buffers, the three buffer lists of the renderer,
  the vblank queue and the list of added keysyms are such lists. The refinement to HOL lists
  is proved here once: the other theories work with the abstract lists.
\<close>

section \<open>The pointer store\<close>

type_synonym addr = nat

record links =
  nxt :: "addr \<Rightarrow> addr"
  prv :: "addr \<Rightarrow> addr"

definition xorg_list_init :: "addr \<Rightarrow> links \<Rightarrow> links" where
  "xorg_list_init l L = L\<lparr>nxt := (nxt L)(l := l), prv := (prv L)(l := l)\<rparr>"

text \<open>The four assignments of \<^verbatim>\<open>__xorg_list_add\<close>, in the order of the source.\<close>

definition xorg_list_add_between :: "addr \<Rightarrow> addr \<Rightarrow> addr \<Rightarrow> links \<Rightarrow> links" where
  "xorg_list_add_between entry p n L =
     (let L1 = L\<lparr>prv := (prv L)(n := entry)\<rparr>;
          L2 = L1\<lparr>nxt := (nxt L1)(entry := n)\<rparr>;
          L3 = L2\<lparr>prv := (prv L2)(entry := p)\<rparr>
      in L3\<lparr>nxt := (nxt L3)(p := entry)\<rparr>)"

definition xorg_list_add :: "addr \<Rightarrow> addr \<Rightarrow> links \<Rightarrow> links" where
  "xorg_list_add entry head L = xorg_list_add_between entry head (nxt L head) L"

definition xorg_list_append :: "addr \<Rightarrow> addr \<Rightarrow> links \<Rightarrow> links" where
  "xorg_list_append entry head L = xorg_list_add_between entry (prv L head) head L"

definition xorg_list_del_between :: "addr \<Rightarrow> addr \<Rightarrow> links \<Rightarrow> links" where
  "xorg_list_del_between p n L =
     (let L1 = L\<lparr>prv := (prv L)(n := p)\<rparr> in L1\<lparr>nxt := (nxt L1)(p := n)\<rparr>)"

definition xorg_list_del :: "addr \<Rightarrow> links \<Rightarrow> links" where
  "xorg_list_del entry L =
     xorg_list_init entry (xorg_list_del_between (prv L entry) (nxt L entry) L)"

definition xorg_list_is_empty :: "addr \<Rightarrow> links \<Rightarrow> bool" where
  "xorg_list_is_empty head L \<longleftrightarrow> nxt L head = head"

definition xorg_list_first :: "addr \<Rightarrow> links \<Rightarrow> addr" where
  "xorg_list_first head L = nxt L head"

definition xorg_list_last :: "addr \<Rightarrow> links \<Rightarrow> addr" where
  "xorg_list_last head L = prv L head"

text \<open>The loop of \<^verbatim>\<open>xorg_list_for_each_entry\<close>: the entries met from \<open>pos\<close> until the head
  comes round again. On a store that is not a ring the loop need not end (\<open>None\<close>).\<close>

partial_function (option) xorg_list_for_each :: "links \<Rightarrow> addr \<Rightarrow> addr \<Rightarrow> addr list option" where
  "xorg_list_for_each L head pos =
     (if pos = head then Some []
      else Option.bind (xorg_list_for_each L head (nxt L pos)) (\<lambda>ps. Some (pos # ps)))"

section \<open>Rings\<close>

text \<open>\<open>chain L ps\<close>: consecutive cells of \<open>ps\<close> are linked in both directions. A list with
  head \<open>h\<close> and entries \<open>xs\<close> is the closed chain \<open>h # xs @ [h]\<close> of distinct cells.\<close>

fun chain :: "links \<Rightarrow> addr list \<Rightarrow> bool" where
  "chain L [] = True"
| "chain L [a] = True"
| "chain L (a # b # ps) = (nxt L a = b \<and> prv L b = a \<and> chain L (b # ps))"

definition ring :: "links \<Rightarrow> addr \<Rightarrow> addr list \<Rightarrow> bool" where
  "ring L h xs \<longleftrightarrow> distinct (h # xs) \<and> chain L (h # xs @ [h])"

lemmas xorg_list_defs = xorg_list_init_def xorg_list_add_between_def xorg_list_add_def
  xorg_list_append_def xorg_list_del_between_def xorg_list_del_def

lemma chain_append: "chain L (ps @ a # qs) \<longleftrightarrow> chain L (ps @ [a]) \<and> chain L (a # qs)"
proof (induction ps)
  case (Cons p ps)
  then show ?case by (cases ps) auto
qed simp

lemma chain_cong:
  assumes "\<And>a. a \<in> set (butlast ps) \<Longrightarrow> nxt L' a = nxt L a"
    and "\<And>a. a \<in> set (tl ps) \<Longrightarrow> prv L' a = prv L a"
  shows "chain L' ps = chain L ps"
  using assms
proof (induction ps rule: chain.induct)
  case (3 L a b ps)
  have "chain L' (b # ps) = chain L (b # ps)"
  proof (rule "3.IH")
    show "nxt L' c = nxt L c" if "c \<in> set (butlast (b # ps))" for c
      using that "3.prems"(1) [of c] by simp
    show "prv L' c = prv L c" if "c \<in> set (tl (b # ps))" for c
      using that "3.prems"(2) [of c] by simp
  qed
  then show ?case
    using "3.prems"(1) [of a] "3.prems"(2) [of b] by auto
qed simp_all


text \<open>A store that agrees on the cells of a ring keeps the ring.\<close>

lemma ring_frame:
  assumes "ring L h xs"
    and "\<And>a. a \<in> insert h (set xs) \<Longrightarrow> nxt L' a = nxt L a \<and> prv L' a = prv L a"
  shows "ring L' h xs"
proof -
  have "chain L' (h # xs @ [h]) = chain L (h # xs @ [h])"
    by (rule chain_cong) (use assms(2) in \<open>auto simp: butlast_append dest: in_set_butlastD\<close>)
  then show ?thesis using assms(1) by (simp add: ring_def)
qed

lemma ring_distinct: "ring L h xs \<Longrightarrow> distinct xs \<and> h \<notin> set xs"
  by (simp add: ring_def)

lemma ring_nxt: "ring L h xs \<Longrightarrow> nxt L h = (case xs of [] \<Rightarrow> h | x # _ \<Rightarrow> x)"
  by (cases xs) (auto simp: ring_def)

lemma ring_prv: "ring L h xs \<Longrightarrow> prv L h = (if xs = [] then h else last xs)"
proof (cases xs rule: rev_cases)
  case (snoc ys y)
  assume "ring L h xs"
  with snoc have "chain L ((h # ys) @ y # [h])" by (simp add: ring_def)
  then have "chain L [y, h]" by (metis chain_append)
  with snoc show ?thesis by simp
qed (simp add: ring_def)

lemma ring_neighbours:
  assumes "ring L h (us @ e # vs)"
  shows "prv L e = last (h # us)" and "nxt L e = hd (vs @ [h])"
proof -
  have "chain L ((h # us) @ e # (vs @ [h]))" using assms by (simp add: ring_def)
  then have c: "chain L ((h # us) @ [e])" "chain L (e # (vs @ [h]))"
    using chain_append [of L "h # us" e "vs @ [h]"] by blast+
  show "nxt L e = hd (vs @ [h])" using c(2) by (cases vs) auto
  have "chain L (butlast (h # us) @ last (h # us) # [e])"
    using c(1) by (metis append.assoc append_Cons append_Nil append_butlast_last_id list.distinct(1))
  then have "chain L [last (h # us), e]" by (metis chain_append)
  then show "prv L e = last (h # us)" by simp
qed

lemma ring_init: "ring (xorg_list_init h L) h []"
  by (simp add: ring_def xorg_list_init_def)

lemma ring_is_empty: "ring L h xs \<Longrightarrow> xorg_list_is_empty h L \<longleftrightarrow> xs = []"
  by (cases xs) (auto simp: xorg_list_is_empty_def ring_def)

text \<open>Linking a fresh cell between two neighbours of a ring.\<close>

lemma chain_add_between:
  assumes "chain L (ps @ [p])" and "chain L (n # qs)"
    and "distinct (ps @ [p])" and "distinct (n # qs)"
    and "p \<notin> set (butlast (n # qs))" and "n \<notin> set (tl (ps @ [p]))"
    and "entry \<notin> set (ps @ [p])" and "entry \<notin> set (n # qs)"
  shows "chain (xorg_list_add_between entry p n L) (ps @ p # entry # n # qs)"
proof -
  let ?L = "xorg_list_add_between entry p n L"
  have "chain ?L (ps @ [p]) = chain L (ps @ [p])"
    by (rule chain_cong)
      (use assms(3,6,7) in \<open>auto simp: xorg_list_add_between_def Let_def butlast_append
         tl_append split: if_splits list.splits\<close>)
  moreover have "chain ?L (n # qs) = chain L (n # qs)"
    by (rule chain_cong)
      (use assms(4,5,8) in \<open>auto simp: xorg_list_add_between_def Let_def dest: in_set_butlastD
         split: if_splits\<close>)
  moreover have "nxt ?L p = entry" "prv ?L entry = p" "nxt ?L entry = n" "prv ?L n = entry"
    using assms(7,8) by (auto simp: xorg_list_add_between_def Let_def)
  ultimately show ?thesis
    using assms(1,2) by (simp add: chain_append [of ?L ps p "entry # n # qs"])
qed

lemma ring_add:
  assumes "ring L h xs" and "e \<noteq> h" and "e \<notin> set xs"
  shows "ring (xorg_list_add e h L) h (e # xs)"
proof -
  have c: "chain L (h # xs @ [h])" and d: "distinct (h # xs)"
    using assms(1) by (auto simp: ring_def)
  obtain n qs where nq: "xs @ [h] = n # qs" by (cases xs) auto
  have n: "nxt L h = n" and cn: "chain L (n # qs)"
    using c nq by auto
  have "distinct (xs @ [h]) \<and> h \<notin> set (butlast (xs @ [h])) \<and> e \<notin> set (xs @ [h])"
    using d assms(2,3) by auto
  then have dn: "distinct (n # qs)" and hb: "h \<notin> set (butlast (n # qs))" and en: "e \<notin> set (n # qs)"
    unfolding nq by blast+
  have "chain (xorg_list_add_between e h n L) ([] @ h # e # n # qs)"
    by (rule chain_add_between) (use cn dn hb en assms(2) in auto)
  then show ?thesis
    using d assms(2,3) nq by (simp add: ring_def xorg_list_add_def n)
qed

lemma ring_append:
  assumes "ring L h xs" and "e \<noteq> h" and "e \<notin> set xs"
  shows "ring (xorg_list_append e h L) h (xs @ [e])"
proof -
  have c: "chain L (h # xs @ [h])" and d: "distinct (h # xs)"
    using assms(1) by (auto simp: ring_def)
  obtain ps p where pp: "h # xs = ps @ [p]" by (metis append_butlast_last_id list.distinct(1))
  have p: "prv L h = p"
    using ring_prv [OF assms(1)] pp by (cases xs rule: rev_cases) auto
  have "chain L (ps @ p # [h])" using c pp by (metis append.assoc append_Cons append_Nil)
  then have cp: "chain L (ps @ [p])" by (metis chain_append)
  have "distinct (h # xs) \<and> h \<notin> set (tl (h # xs)) \<and> e \<notin> set (h # xs)"
    using d assms(2,3) by auto
  then have "distinct (ps @ [p])" "h \<notin> set (tl (ps @ [p]))" "e \<notin> set (ps @ [p])"
    unfolding pp by blast+
  then have "chain (xorg_list_add_between e p h L) (ps @ p # e # h # [])"
    by (intro chain_add_between) (use cp assms(2) in simp_all)
  then have "chain (xorg_list_add_between e p h L) ((h # xs) @ [e, h])"
    by (simp add: pp)
  then show ?thesis
    using d assms(2,3) by (simp add: ring_def xorg_list_append_def p)
qed

lemma ring_del_split:
  assumes "ring L h (ys @ e # zs)"
  shows "ring (xorg_list_del e L) h (ys @ zs)"
proof -
  have c: "chain L (h # ys @ e # zs @ [h])" and d: "distinct (h # ys @ e # zs)"
    using assms by (auto simp: ring_def)
  obtain ps p where pp: "h # ys = ps @ [p]" by (metis append_butlast_last_id list.distinct(1))
  obtain n qs where nq: "zs @ [h] = n # qs" by (cases zs) auto
  have "chain L (ps @ p # e # n # qs)" using c pp nq by (metis append.assoc append_Cons append_Nil)
  then have c1: "chain L (ps @ [p])" and c2: "chain L (p # e # n # qs)"
    using chain_append [of L ps p "e # n # qs"] by blast+
  then have p: "prv L e = p" and n: "nxt L e = n" and c3: "chain L (n # qs)" by auto
  let ?L = "xorg_list_del e L"
  have L: "?L = L\<lparr>nxt := (nxt L)(p := n, e := e), prv := (prv L)(n := p, e := e)\<rparr>"
    by (simp add: xorg_list_del_def xorg_list_del_between_def xorg_list_init_def p n Let_def)
  have "distinct (h # ys) \<and> e \<notin> set (h # ys) \<and> distinct (zs @ [h]) \<and> e \<notin> set (zs @ [h])"
    using d by auto
  then have dp: "distinct (ps @ [p])" and ep: "e \<notin> set (ps @ [p])"
    and dn: "distinct (n # qs)" and en: "e \<notin> set (n # qs)"
    unfolding pp nq by blast+
  have "p \<in> set (h # ys)" and "n \<in> set (zs @ [h])" by (simp_all add: pp nq)
  then have "p \<notin> set (butlast (zs @ [h]))" and "n \<notin> set (tl (h # ys))"
    using d by auto
  then have pn: "p \<notin> set (butlast (n # qs))" and nt: "n \<notin> set (tl (ps @ [p]))"
    unfolding pp nq by blast+
  have "chain ?L (ps @ [p]) = chain L (ps @ [p])"
    by (rule chain_cong) (use L dp ep nt in \<open>auto dest: in_set_tlD\<close>)
  moreover have "chain ?L (n # qs) = chain L (n # qs)"
    by (rule chain_cong) (use L dn en pn in \<open>auto dest: in_set_butlastD split: if_splits\<close>)
  moreover have "nxt ?L p = n" "prv ?L n = p"
    using L ep en by auto
  ultimately have "chain ?L (ps @ p # n # qs)"
    using c1 c3 by (simp add: chain_append [of ?L ps p "n # qs"])
  then have "chain ?L ((h # ys) @ zs @ [h])"
    by (simp only: pp nq append.assoc append_Cons append_Nil)
  then show ?thesis using d by (auto simp: ring_def)
qed

lemma ring_del:
  assumes "ring L h xs" and "e \<in> set xs"
  shows "ring (xorg_list_del e L) h (remove1 e xs)"
proof -
  have "distinct xs" using assms(1) by (simp add: ring_def)
  then obtain ys zs where xs: "xs = ys @ e # zs" "e \<notin> set ys"
    using assms(2) by (meson split_list_distinct)
  then show ?thesis
    using ring_del_split assms(1) by (simp add: remove1_append_mid)
qed

text \<open>A deleted cell is a list of its own, so deleting it again changes nothing.\<close>

lemma del_self: "nxt (xorg_list_del e L) e = e" "prv (xorg_list_del e L) e = e"
  by (simp_all add: xorg_list_del_def xorg_list_init_def)

lemma ring_del_idem: "xorg_list_del e (xorg_list_del e L) = xorg_list_del e L"
  by (simp add: xorg_list_del_def xorg_list_del_between_def xorg_list_init_def Let_def)

lemma for_each_chain:
  "chain L (xs @ [h]) \<Longrightarrow> h \<notin> set xs \<Longrightarrow>
   xorg_list_for_each L h (hd (xs @ [h])) = Some xs"
proof (induction xs)
  case Nil
  then show ?case by (simp add: xorg_list_for_each.simps)
next
  case (Cons x xs)
  then have "nxt L x = hd (xs @ [h])" and "chain L (xs @ [h])"
    by (cases xs; simp)+
  with Cons show ?case by (simp add: xorg_list_for_each.simps [of L h x])
qed

lemma for_each_ring:
  assumes "ring L h xs"
  shows "xorg_list_for_each L h (nxt L h) = Some xs"
proof -
  have "chain L (xs @ [h])" and "nxt L h = hd (xs @ [h])" and "h \<notin> set xs"
    using assms by (cases xs; auto simp: ring_def)+
  then show ?thesis by (simp add: for_each_chain)
qed


section \<open>The interface of an intrusive list\<close>

text \<open>
  What the clients rely on: \<open>rep s h xs\<close> says that in store \<open>s\<close> the list with head \<open>h\<close>
  holds the entries \<open>xs\<close>. Heads and entries are cells of one address space; two lists whose
  cells are disjoint do not disturb each other.
\<close>

locale intrusive_list =
  fixes rep :: "'s \<Rightarrow> 'a \<Rightarrow> 'a list \<Rightarrow> bool"
    and add :: "'a \<Rightarrow> 'a \<Rightarrow> 's \<Rightarrow> 's"
    and del :: "'a \<Rightarrow> 's \<Rightarrow> 's"
    and is_empty :: "'a \<Rightarrow> 's \<Rightarrow> bool"
    and first :: "'a \<Rightarrow> 's \<Rightarrow> 'a"
  assumes rep_distinct: "rep s h xs \<Longrightarrow> distinct (h # xs)"
    and rep_add: "rep s h xs \<Longrightarrow> e \<notin> insert h (set xs) \<Longrightarrow> rep (add e h s) h (e # xs)"
    and rep_del: "rep s h xs \<Longrightarrow> e \<in> set xs \<Longrightarrow> rep (del e s) h (remove1 e xs)"
    and rep_detached: "rep (del e s) e []"
    and del_detached: "rep s e [] \<Longrightarrow> del e s = s"
    and add_frame: "rep s h xs \<Longrightarrow> rep s h' ys \<Longrightarrow>
      insert h (set xs) \<inter> insert h' (set ys) = {} \<Longrightarrow> e \<notin> insert h' (set ys) \<Longrightarrow>
      rep (add e h s) h' ys"
    and del_frame: "rep s h xs \<Longrightarrow> e \<in> set xs \<Longrightarrow> rep s h' ys \<Longrightarrow>
      insert h (set xs) \<inter> insert h' (set ys) = {} \<Longrightarrow> rep (del e s) h' ys"
    and rep_is_empty: "rep s h xs \<Longrightarrow> is_empty h s \<longleftrightarrow> xs = []"
    and rep_first: "rep s h (x # xs) \<Longrightarrow> first h s = x"
begin

text \<open>Deleting an entry of one list and adding it to another moves it.\<close>

lemma move:
  assumes "rep s h xs" and "e \<in> set xs" and "rep s h' ys"
    and "insert h (set xs) \<inter> insert h' (set ys) = {}"
  shows "rep (add e h' (del e s)) h (remove1 e xs)"
    and "rep (add e h' (del e s)) h' (e # ys)"
proof -
  have del: "rep (del e s) h (remove1 e xs)" "rep (del e s) h' ys"
    by (rule rep_del [OF assms(1,2)], rule del_frame [OF assms])
  have sub: "set (remove1 e xs) \<subseteq> set xs" by (rule set_remove1_subset)
  show "rep (add e h' (del e s)) h (remove1 e xs)"
    by (rule add_frame [OF del(2,1)]) (use assms(2,4) sub rep_distinct [OF assms(1)] in auto)
  show "rep (add e h' (del e s)) h' (e # ys)"
    using rep_add [OF del(2)] assms by blast
qed

text \<open>A detached cell is added by the same two calls.\<close>

lemma insert_detached:
  assumes "rep s e []" and "rep s h ys" and "e \<notin> insert h (set ys)"
  shows "rep (add e h (del e s)) h (e # ys)"
  using assms by (simp add: del_detached rep_add)

lemma move_frame:
  assumes "rep s h xs" and "e \<in> set xs" and "rep s h' ys" and "rep s k zs"
    and "insert h (set xs) \<inter> insert h' (set ys) = {}"
    and "insert h (set xs) \<inter> insert k (set zs) = {}"
    and "insert h' (set ys) \<inter> insert k (set zs) = {}"
  shows "rep (add e h' (del e s)) k zs"
proof -
  have "rep (del e s) h' ys" and "rep (del e s) k zs"
    by (rule del_frame [OF assms(1-3,5)], rule del_frame [OF assms(1,2,4,6)])
  then show ?thesis
    by (rule add_frame) (use assms(2,6,7) in auto)
qed

text \<open>Removing the first entry leaves the tail.\<close>

lemma del_first:
  assumes "rep s h (x # xs)"
  shows "rep (del (first h s) s) h xs"
  using rep_del [OF assms, of x] rep_first [OF assms] by simp

end

interpretation xl: intrusive_list ring xorg_list_add xorg_list_del xorg_list_is_empty xorg_list_first
proof (unfold_locales, goal_cases)
  case (1 s h xs)
  then show ?case by (simp add: ring_def)
next
  case (2 s h xs e)
  then show ?case by (simp add: ring_add)
next
  case (3 s h xs e)
  then show ?case by (rule ring_del)
next
  case (4 e s)
  show ?case by (simp add: ring_def del_self)
next
  case (5 s e)
  then show ?case
    by (cases s) (auto simp: ring_def xorg_list_del_def xorg_list_del_between_def
        xorg_list_init_def fun_eq_iff)
next
  case (6 s h xs h' ys e)
  have "nxt s h \<in> insert h (set xs)" using ring_nxt [OF 6(1)] by (cases xs) auto
  then show ?case
    by (intro ring_frame [OF 6(2)])
      (use 6(3,4) in \<open>auto simp: xorg_list_add_def xorg_list_add_between_def Let_def\<close>)
next
  case (7 s h xs e h' ys)
  obtain us vs where xs: "xs = us @ e # vs" using 7(2) by (meson split_list)
  have "prv s e \<in> insert h (set xs)" and "nxt s e \<in> insert h (set xs)"
    using ring_neighbours [OF 7(1) [unfolded xs]] xs by (cases vs; auto)+
  then show ?case
    by (intro ring_frame [OF 7(3)])
      (use 7(2,4) in \<open>auto simp: xorg_list_del_def xorg_list_del_between_def xorg_list_init_def Let_def\<close>)
next
  case (8 s h xs)
  then show ?case by (rule ring_is_empty)
next
  case (9 s h x xs)
  then show ?case by (simp add: xorg_list_first_def ring_nxt)
qed

section \<open>Draining a list\<close>

text \<open>The loop \<^verbatim>\<open>while ((x = first(list))) del(x)\<close> of the disconnect handlers.\<close>

partial_function (option) xorg_list_drain :: "addr \<Rightarrow> links \<Rightarrow> (addr list \<times> links) option" where
  "xorg_list_drain h L =
     (if xorg_list_is_empty h L then Some ([], L)
      else Option.bind (xorg_list_drain h (xorg_list_del (xorg_list_first h L) L))
             (\<lambda>(es, L'). Some (xorg_list_first h L # es, L')))"

lemma drain_ring: "ring L h xs \<Longrightarrow> \<exists>L'. xorg_list_drain h L = Some (xs, L') \<and> ring L' h []"
proof (induction xs arbitrary: L)
  case Nil
  then show ?case by (simp add: xorg_list_drain.simps ring_is_empty)
next
  case (Cons x xs)
  have first: "xorg_list_first h L = x" using Cons.prems by (rule xl.rep_first)
  have "ring (xorg_list_del x L) h xs" using xl.del_first [OF Cons.prems] first by simp
  then obtain L' where "xorg_list_drain h (xorg_list_del x L) = Some (xs, L')" "ring L' h []"
    using Cons.IH by blast
  then show ?case
    using ring_is_empty [OF Cons.prems] first by (simp add: xorg_list_drain.simps [of h L])
qed

end
