(* ===== verification/Lorie_Present.thy ===== *)
theory Lorie_Present
  imports Xorg_List
begin

text \<open>
  The Present driver of \<^verbatim>\<open>lorie/InitOutput.c\<close>: the queue of vblank events, kept as an intrusive list of
  heap cells from which entries are deleted and freed while the list is walked, and the frame
  counter. The pointer level refines a plain list of pairs; reading a cell that was freed is \<open>None\<close>.
\<close>

section \<open>The queue on the heap\<close>

record vblank =
  vid :: u64
  vmsc :: u64

record present =
  vlinks :: links
  vcells :: "addr \<Rightarrow> vblank option"
  current_msc :: u64
  notified :: "(u64 \<times> u64) list"
  damage_full :: bool

definition vblank_queue :: addr where "vblank_queue = 1"

definition present_event_notify :: "u64 \<Rightarrow> u64 \<Rightarrow> present \<Rightarrow> present" where
  "present_event_notify i m P = P\<lparr>notified := notified P @ [(i, m)]\<rparr>"

text \<open>\<open>a\<close> is the answer of \<^verbatim>\<open>calloc\<close>. The result is \<^verbatim>\<open>Success\<close> or \<^verbatim>\<open>BadAlloc\<close>.\<close>

definition loriePresentQueueVblank :: "addr \<Rightarrow> u64 \<Rightarrow> u64 \<Rightarrow> present \<Rightarrow> int \<times> present" where
  "loriePresentQueueVblank a event_id m P =
     (if a = 0 then (11, P)
      else (0, P\<lparr>vcells := (vcells P)(a \<mapsto> \<lparr>vid = event_id, vmsc = m\<rparr>), vlinks := xorg_list_add a vblank_queue (vlinks P)\<rparr>))"

definition unlink_free :: "addr \<Rightarrow> present \<Rightarrow> present" where
  "unlink_free a P = P\<lparr>vlinks := xorg_list_del a (vlinks P), vcells := (vcells P)(a := None)\<rparr>"

text \<open>The loops of \<^verbatim>\<open>xorg_list_for_each_entry_safe\<close>: the successor is read before the body runs.\<close>

partial_function (option) abort_loop :: "u64 \<Rightarrow> addr \<Rightarrow> present \<Rightarrow> present option" where
  "abort_loop i pos P =
     (if pos = vblank_queue then Some P
      else Option.bind (vcells P pos) (\<lambda>v.
        let tmp = nxt (vlinks P) pos
        in if vid v = i then Some (unlink_free pos P) else abort_loop i tmp P))"

definition loriePresentAbortVblank :: "u64 \<Rightarrow> present \<Rightarrow> present option" where
  "loriePresentAbortVblank i P = abort_loop i (nxt (vlinks P) vblank_queue) P"

partial_function (option) perform_loop :: "addr \<Rightarrow> present \<Rightarrow> present option" where
  "perform_loop pos P =
     (if pos = vblank_queue then Some P
      else Option.bind (vcells P pos) (\<lambda>v.
        let tmp = nxt (vlinks P) pos
        in perform_loop tmp
             (if vmsc v \<le> current_msc P then unlink_free pos (present_event_notify (vid v) (current_msc P) P) else P)))"

definition loriePerformVblanks :: "present \<Rightarrow> present option" where
  "loriePerformVblanks P = perform_loop (nxt (vlinks P) vblank_queue) P"

text \<open>The first lines of \<^verbatim>\<open>lorieRedraw\<close>: a new frame.\<close>

definition next_frame :: "present \<Rightarrow> present option" where
  "next_frame P = loriePerformVblanks (P\<lparr>current_msc := current_msc P + 1\<rparr>)"

definition loriePresentAfterFlip :: "u64 \<Rightarrow> u64 \<Rightarrow> present \<Rightarrow> present" where
  "loriePresentAfterFlip event_id target_msc P =
     (let m = (if current_msc P + 1 < target_msc then current_msc P + 1 else target_msc)
      in present_event_notify event_id m (P\<lparr>damage_full := True, current_msc := m\<rparr>))"

definition loriePresentUnflip :: "u64 \<Rightarrow> present \<Rightarrow> present" where
  "loriePresentUnflip event_id P = present_event_notify event_id 0 P"

section \<open>The abstract queue\<close>

record aqueue =
  waiting :: "vblank list"
  now :: u64
  told :: "(u64 \<times> u64) list"

fun drop_id :: "u64 \<Rightarrow> vblank list \<Rightarrow> vblank list" where
  "drop_id i [] = []"
| "drop_id i (v # vs) = (if vid v = i then vs else v # drop_id i vs)"

definition due :: "u64 \<Rightarrow> vblank \<Rightarrow> bool" where
  "due m v \<longleftrightarrow> vmsc v \<le> m"

definition tell_due :: "aqueue \<Rightarrow> aqueue" where
  "tell_due A = A\<lparr>waiting := filter (\<lambda>v. \<not> due (now A) v) (waiting A),
     told := told A @ map (\<lambda>v. (vid v, now A)) (filter (due (now A)) (waiting A))\<rparr>"

section \<open>The representation\<close>

text \<open>The list of cells is a ring whose cells hold the waiting events, and no other cell is allocated.\<close>

definition cells_of :: "present \<Rightarrow> addr list \<Rightarrow> vblank list \<Rightarrow> bool" where
  "cells_of P as vs \<longleftrightarrow> ring (vlinks P) vblank_queue as \<and> map (vcells P) as = map Some vs \<and> dom (vcells P) = set as"

definition represents :: "present \<Rightarrow> aqueue \<Rightarrow> bool" where
  "represents P A \<longleftrightarrow> (\<exists>as. cells_of P as (waiting A)) \<and> current_msc P = now A \<and> notified P = told A"

lemma cells_of_nxt: "cells_of P as vs \<Longrightarrow> nxt (vlinks P) vblank_queue = hd (as @ [vblank_queue])"
  by (cases as) (simp_all add: cells_of_def ring_def)

lemma cells_of_next_cell:
  assumes "cells_of P (as @ a # bs) vs"
  shows "nxt (vlinks P) a = hd (bs @ [vblank_queue])" "a \<noteq> vblank_queue"
  using ring_neighbours [of "vlinks P" vblank_queue as a bs] assms
  by (cases bs; auto simp: cells_of_def ring_def)+

lemma cells_of_length: "cells_of P as vs \<Longrightarrow> length as = length vs"
  by (auto simp: cells_of_def dest: map_eq_imp_length_eq)

lemma cells_of_cell:
  assumes "cells_of P (as @ a # bs) (us @ v # vs)" "length as = length us"
  shows "vcells P a = Some v"
  using assms by (simp add: cells_of_def)

lemma cells_of_unlink:
  assumes "cells_of P (as @ a # bs) (us @ v # vs)" "length as = length us"
  shows "cells_of (unlink_free a P) (as @ bs) (us @ vs)"
proof -
  have r: "ring (vlinks P) vblank_queue (as @ a # bs)" and d: "dom (vcells P) = set (as @ a # bs)"
    and m: "map (vcells P) (as @ a # bs) = map Some (us @ v # vs)" using assms(1) by (auto simp: cells_of_def)
  have a: "a \<notin> set as" "a \<notin> set bs" using xl.rep_distinct [OF r] by auto
  have "ring (xorg_list_del a (vlinks P)) vblank_queue (remove1 a (as @ a # bs))"
    by (rule xl.rep_del [OF r]) simp
  moreover have "remove1 a (as @ a # bs) = as @ bs" using a(1) by (rule remove1_append_mid)
  moreover have "map (vcells P) as = map Some us" "map (vcells P) bs = map Some vs"
    using m assms(2) by simp_all
  moreover have "map ((vcells P)(a := None)) as = map (vcells P) as" "map ((vcells P)(a := None)) bs = map (vcells P) bs"
    using a by (auto simp: map_fun_upd)
  ultimately show ?thesis
    using d a by (auto simp: cells_of_def unlink_free_def)
qed

section \<open>The loops\<close>

lemma unlink_free_frame [simp]:
  "current_msc (unlink_free a P) = current_msc P" "notified (unlink_free a P) = notified P"
  "damage_full (unlink_free a P) = damage_full P"
  by (simp_all add: unlink_free_def)

lemma cells_of_cong:
  "vlinks P' = vlinks P \<Longrightarrow> vcells P' = vcells P \<Longrightarrow> cells_of P' as vs = cells_of P as vs"
  by (simp add: cells_of_def)

lemma abort_loop_from:
  assumes "cells_of P (as @ bs) (us @ vs)" "length as = length us" "\<forall>v\<in>set us. vid v \<noteq> i"
  shows "\<exists>P' cs. abort_loop i (hd (bs @ [vblank_queue])) P = Some P' \<and> cells_of P' cs (us @ drop_id i vs) \<and>
     current_msc P' = current_msc P \<and> notified P' = notified P"
  using assms
proof (induction bs arbitrary: as us vs)
  case Nil
  then have "vs = []" using cells_of_length by fastforce
  with Nil show ?case by (subst abort_loop.simps) auto
next
  case (Cons b bs)
  then obtain w ws where vs: "vs = w # ws" using cells_of_length by (cases vs) fastforce+
  note c = Cons.prems(1) [unfolded vs]
  have b: "vcells P b = Some w" "nxt (vlinks P) b = hd (bs @ [vblank_queue])" "b \<noteq> vblank_queue"
    using cells_of_cell [OF c Cons.prems(2)] cells_of_next_cell [OF c] by auto
  show ?case
  proof (cases "vid w = i")
    case True
    then have "abort_loop i b P = Some (unlink_free b P)"
      using b by (subst abort_loop.simps) (simp add: Let_def)
    then show ?thesis
      using cells_of_unlink [OF c Cons.prems(2)] True vs by (intro exI [of _ "unlink_free b P"] exI [of _ "as @ bs"]) simp
  next
    case False
    have "abort_loop i b P = abort_loop i (hd (bs @ [vblank_queue])) P"
      using b False by (subst abort_loop.simps) (simp add: Let_def)
    then show ?thesis
      using Cons.IH [of "as @ [b]" "us @ [w]" ws] c Cons.prems(2,3) False vs by simp
  qed
qed

lemma perform_loop_from:
  assumes "cells_of P (as @ bs) (us @ vs)" "length as = length us"
  shows "\<exists>P' cs. perform_loop (hd (bs @ [vblank_queue])) P = Some P' \<and>
     cells_of P' cs (us @ filter (\<lambda>v. \<not> due (current_msc P) v) vs) \<and> current_msc P' = current_msc P \<and>
     notified P' = notified P @ map (\<lambda>v. (vid v, current_msc P)) (filter (due (current_msc P)) vs)"
  using assms
proof (induction bs arbitrary: P as us vs)
  case Nil
  then have "vs = []" using cells_of_length by fastforce
  with Nil show ?case by (subst perform_loop.simps) auto
next
  case (Cons b bs)
  then obtain w ws where vs: "vs = w # ws" using cells_of_length by (cases vs) fastforce+
  note c = Cons.prems(1) [unfolded vs]
  have b: "vcells P b = Some w" "nxt (vlinks P) b = hd (bs @ [vblank_queue])" "b \<noteq> vblank_queue"
    using cells_of_cell [OF c Cons.prems(2)] cells_of_next_cell [OF c] by auto
  show ?case
  proof (cases "due (current_msc P) w")
    case True
    let ?N = "present_event_notify (vid w) (current_msc P) P"
    have n: "cells_of ?N (as @ b # bs) (us @ w # ws)"
      using c by (simp add: present_event_notify_def cells_of_def)
    have "perform_loop b P = perform_loop (hd (bs @ [vblank_queue])) (unlink_free b ?N)"
      using b True by (subst perform_loop.simps) (simp add: Let_def due_def)
    then show ?thesis
      using Cons.IH [OF cells_of_unlink [OF n Cons.prems(2)] Cons.prems(2)] True vs
      by (simp add: present_event_notify_def)
  next
    case False
    then have "perform_loop b P = perform_loop (hd (bs @ [vblank_queue])) P"
      using b by (subst perform_loop.simps) (simp add: Let_def due_def)
    then show ?thesis
      using Cons.IH [of P "as @ [b]" "us @ [w]" ws] c Cons.prems(2) False vs by simp
  qed
qed

section \<open>Operations and their abstract counterparts\<close>

datatype present_op =
    QueueVblank addr u64 u64
  | AbortVblank u64
  | Redraw
  | PerformVblanks
  | AfterFlip u64 u64
  | Unflip u64

fun present_do :: "present_op \<Rightarrow> present \<Rightarrow> present option" where
  "present_do (QueueVblank a i m) P = Some (snd (loriePresentQueueVblank a i m P))"
| "present_do (AbortVblank i) P = loriePresentAbortVblank i P"
| "present_do Redraw P = next_frame P"
| "present_do PerformVblanks P = loriePerformVblanks P"
| "present_do (AfterFlip i t) P = Some (loriePresentAfterFlip i t P)"
| "present_do (Unflip i) P = Some (loriePresentUnflip i P)"

fun queue_do :: "present_op \<Rightarrow> aqueue \<Rightarrow> aqueue" where
  "queue_do (QueueVblank a i m) A = (if a = 0 then A else A\<lparr>waiting := \<lparr>vid = i, vmsc = m\<rparr> # waiting A\<rparr>)"
| "queue_do (AbortVblank i) A = A\<lparr>waiting := drop_id i (waiting A)\<rparr>"
| "queue_do Redraw A = tell_due (A\<lparr>now := now A + 1\<rparr>)"
| "queue_do PerformVblanks A = tell_due A"
| "queue_do (AfterFlip i t) A =
     (let m = min (now A + 1) t in A\<lparr>now := m, told := told A @ [(i, m)]\<rparr>)"
| "queue_do (Unflip i) A = A\<lparr>told := told A @ [(i, 0)]\<rparr>"

text \<open>What the allocator promises: a block that is not in use.\<close>

fun fresh_block :: "present_op \<Rightarrow> present \<Rightarrow> bool" where
  "fresh_block (QueueVblank a i m) P \<longleftrightarrow> a \<notin> dom (vcells P) \<and> a \<noteq> vblank_queue"
| "fresh_block _ P \<longleftrightarrow> True"

lemma queue_refines:
  assumes "represents P A" "fresh_block (QueueVblank a i m) P"
  shows "represents (snd (loriePresentQueueVblank a i m P)) (queue_do (QueueVblank a i m) A)"
proof (cases "a = 0")
  case True
  then show ?thesis using assms(1) by (simp add: loriePresentQueueVblank_def)
next
  case False
  obtain as where as: "ring (vlinks P) vblank_queue as" "map (vcells P) as = map Some (waiting A)" "dom (vcells P) = set as"
    and r: "current_msc P = now A" "notified P = told A"
    using assms(1) by (auto simp: represents_def cells_of_def)
  have "ring (xorg_list_add a vblank_queue (vlinks P)) vblank_queue (a # as)"
    by (rule xl.rep_add [OF as(1)]) (use assms(2) as(3) in auto)
  then have "cells_of (snd (loriePresentQueueVblank a i m P)) (a # as) (\<lparr>vid = i, vmsc = m\<rparr> # waiting A)"
    using False as(2,3) assms(2) by (auto simp: loriePresentQueueVblank_def cells_of_def map_fun_upd)
  moreover have "current_msc (snd (loriePresentQueueVblank a i m P)) = now A"
    "notified (snd (loriePresentQueueVblank a i m P)) = told A"
    using r by (simp_all add: loriePresentQueueVblank_def)
  ultimately show ?thesis using False unfolding represents_def by auto
qed

lemma abort_refines:
  assumes "represents P A"
  shows "\<exists>P'. loriePresentAbortVblank i P = Some P' \<and> represents P' (queue_do (AbortVblank i) A)"
proof -
  obtain as where c: "cells_of P as (waiting A)" using assms by (auto simp: represents_def)
  show ?thesis
    using abort_loop_from [of P "[]" as "[]" "waiting A" i] c assms
    by (auto simp: loriePresentAbortVblank_def cells_of_nxt [OF c] represents_def)
qed

lemma perform_refines:
  assumes "represents P A"
  shows "\<exists>P'. loriePerformVblanks P = Some P' \<and> represents P' (tell_due A)"
proof -
  obtain as where c: "cells_of P as (waiting A)" using assms by (auto simp: represents_def)
  show ?thesis
    using perform_loop_from [of P "[]" as "[]" "waiting A"] c assms
    by (auto simp: loriePerformVblanks_def cells_of_nxt [OF c] represents_def tell_due_def)
qed

lemma frame_refines:
  assumes "represents P A"
  shows "\<exists>P'. next_frame P = Some P' \<and> represents P' (queue_do Redraw A)"
proof -
  have "represents (P\<lparr>current_msc := current_msc P + 1\<rparr>) (A\<lparr>now := now A + 1\<rparr>)"
    using assms by (auto simp: represents_def cells_of_def)
  then show ?thesis unfolding next_frame_def using perform_refines by simp
qed

lemma flip_refines:
  "represents P A \<Longrightarrow> represents (loriePresentAfterFlip i t P) (queue_do (AfterFlip i t) A)"
  "represents P A \<Longrightarrow> represents (loriePresentUnflip i P) (queue_do (Unflip i) A)"
  by (auto simp: loriePresentAfterFlip_def loriePresentUnflip_def present_event_notify_def represents_def cells_of_def
      Let_def min_def not_less)

interpretation vblanks: data_refinement represents fresh_block present_do queue_do
proof (unfold_locales)
  fix P A l assume r: "represents P A" and f: "fresh_block l P"
  show "\<exists>P'. present_do l P = Some P' \<and> represents P' (queue_do l A)"
  proof (cases l)
    case (QueueVblank a i m)
    then show ?thesis using queue_refines [of P A a i m] r f by simp
  next
    case (AbortVblank i)
    then show ?thesis using abort_refines [OF r] by simp
  next
    case Redraw
    then show ?thesis using frame_refines [OF r] by simp
  next
    case PerformVblanks
    then show ?thesis using perform_refines [OF r] by simp
  next
    case (AfterFlip i t)
    then show ?thesis using flip_refines(1) [OF r, of i t] by simp
  next
    case (Unflip i)
    then show ?thesis using flip_refines(2) [OF r, of i] by simp
  qed
qed

section \<open>Properties\<close>

definition present_start :: present where
  "present_start = \<lparr>vlinks = xorg_list_init vblank_queue \<lparr>nxt = (\<lambda>a. 0), prv = (\<lambda>a. 0)\<rparr>, vcells = (\<lambda>a. None),
     current_msc = 0, notified = [], damage_full = False\<rparr>"

definition queue_start :: aqueue where
  "queue_start = \<lparr>waiting = [], now = 0, told = []\<rparr>"

lemma start_represents: "represents present_start queue_start"
  using ring_init [of vblank_queue]
  by (auto simp: represents_def cells_of_def present_start_def queue_start_def)

text \<open>C17. The vblank queue on the heap refines a plain list. Any sequence of queueing, aborting, frames, resizes
  and flips runs to its end without reading a freed cell, and leaves a linked ring whose cells hold
  exactly the events the abstract queue has waiting, with no cell leaked; the frame counter and the
  notifications sent are the abstract ones.\<close>

theorem vblank_queue_refines_list:
  assumes "run_ok fresh_block present_do ops present_start"
  shows "\<exists>P as. run_ops present_do ops present_start = Some P \<and>
     ring (vlinks P) vblank_queue as \<and> dom (vcells P) = set as \<and>
     map (vcells P) as = map Some (waiting (fold queue_do ops queue_start)) \<and>
     current_msc P = now (fold queue_do ops queue_start) \<and> notified P = told (fold queue_do ops queue_start)"
  using vblanks.run_refines [OF start_represents assms] unfolding represents_def cells_of_def by blast

theorem vblank_queue_refines_list_witness:
  "\<exists>P. run_ops present_do [QueueVblank 8 100 1, QueueVblank 9 200 5, Redraw, AbortVblank 200] present_start = Some P \<and>
     dom (vcells P) = {} \<and> notified P = [(100, 1)]"
proof -
  let ?ops = "[QueueVblank 8 100 1, QueueVblank 9 200 5, Redraw, AbortVblank 200]"
  have "run_ok fresh_block present_do ?ops present_start"
    by (auto simp: present_start_def loriePresentQueueVblank_def vblank_queue_def split: option.split)
  from vblank_queue_refines_list [OF this] show ?thesis
    by (auto simp: queue_start_def tell_due_def due_def word_le_nat_alt)
qed

text \<open>A frame notifies every waiting event whose counter has been reached, each once, with the new counter and in
  the order of the queue, and keeps the others.\<close>

theorem frame_notifies_due_events:
  assumes "represents P A"
  shows "\<exists>P'. next_frame P = Some P' \<and> current_msc P' = current_msc P + 1 \<and>
     notified P' = notified P @ map (\<lambda>v. (vid v, current_msc P + 1)) (filter (due (current_msc P + 1)) (waiting A)) \<and>
     represents P' (A\<lparr>waiting := filter (\<lambda>v. \<not> due (current_msc P + 1) v) (waiting A), now := now A + 1, told := notified P'\<rparr>)"
proof -
  obtain P' where P: "next_frame P = Some P'" "represents P' (queue_do Redraw A)"
    using frame_refines [OF assms] by blast
  moreover have "now A = current_msc P" "told A = notified P" using assms by (auto simp: represents_def)
  ultimately show ?thesis
    by (auto simp: represents_def tell_due_def)
qed

theorem frame_notifies_due_events_witness:
  "\<exists>P'. next_frame (snd (loriePresentQueueVblank 8 100 1 present_start)) = Some P' \<and> notified P' = [(100, 1)]"
proof -
  let ?P = "snd (loriePresentQueueVblank 8 100 1 present_start)"
  have "represents ?P (queue_do (QueueVblank 8 100 1) queue_start)"
    by (rule queue_refines [OF start_represents]) (simp add: present_start_def vblank_queue_def)
  moreover have "current_msc ?P = 0" "notified ?P = []"
    by (simp_all add: loriePresentQueueVblank_def present_start_def)
  ultimately show ?thesis
    using frame_notifies_due_events [of ?P "queue_do (QueueVblank 8 100 1) queue_start"]
    by (auto simp: queue_start_def due_def)
qed

text \<open>The counter is not monotone: a flip whose target lies in the past sets it back, so that an event that was
  due in the next frame may have to wait again.\<close>

lemma flip_sets_counter_back:
  "t < current_msc P \<Longrightarrow> current_msc P + 1 \<noteq> 0 \<Longrightarrow> current_msc (loriePresentAfterFlip i t P) = t"
proof -
  assume t: "t < current_msc P" and o: "current_msc P + 1 \<noteq> 0"
  have "current_msc P < current_msc P + 1" using o unatSuc [of "current_msc P"] by (simp add: word_less_nat_alt add.commute)
  with t have "\<not> current_msc P + 1 < t" by (metis less_asym less_trans)
  then show ?thesis by (simp add: loriePresentAfterFlip_def present_event_notify_def Let_def)
qed

end
