(* ===== verification/Lorie_Buffer.thy ===== *)
theory Lorie_Buffer
  imports Xorg_List
begin

text \<open>
  The reference counted, shareable pixel buffers of \<^verbatim>\<open>lorie/buffer.c\<close> and \<^verbatim>\<open>lorie/buffer.h\<close>.
  The state holds the buffer objects by address, the pixels by address of their memory, and a
  ledger of what the process owns: file descriptors, mappings, heap blocks, references on
  hardware buffers, textures and images. What the system calls answer is a record, one per
  call of the modelled function.
\<close>

section \<open>Data\<close>

definition LORIEBUFFER_REGULAR :: u8 where "LORIEBUFFER_REGULAR = 1"
definition LORIEBUFFER_FD :: u8 where "LORIEBUFFER_FD = 2"
definition LORIEBUFFER_AHARDWAREBUFFER :: u8 where "LORIEBUFFER_AHARDWAREBUFFER = 3"

definition AHARDWAREBUFFER_FORMAT_R8G8B8X8_UNORM :: u8 where "AHARDWAREBUFFER_FORMAT_R8G8B8X8_UNORM = 2"
definition AHARDWAREBUFFER_FORMAT_B8G8R8A8_UNORM :: u8 where "AHARDWAREBUFFER_FORMAT_B8G8R8A8_UNORM = 5"

lemmas buffer_consts = LORIEBUFFER_REGULAR_def LORIEBUFFER_FD_def LORIEBUFFER_AHARDWAREBUFFER_def
  AHARDWAREBUFFER_FORMAT_R8G8B8X8_UNORM_def AHARDWAREBUFFER_FORMAT_B8G8R8A8_UNORM_def

text \<open>Pointers are addresses; 0 is \<^verbatim>\<open>NULL\<close>.\<close>

record LorieBuffer_Desc =
  width :: int
  height :: int
  stride :: int
  format :: u8
  btype :: u8
  bid :: u64
  hwbuf :: addr
  data :: addr

record LorieBuffer =
  refcount :: u16
  desc :: LorieBuffer_Desc
  locked :: bool
  lockedData :: addr
  bfd :: int
  bsize :: u64
  boffset :: int
  tex_id :: u32
  image :: addr

record ahb_desc =
  ahb_width :: int
  ahb_height :: int
  ahb_stride :: int
  ahb_format :: u8

record sys =
  page_size :: u64
  ASharedMemory_create :: int
  memfd_create :: int
  open_ashmem :: int
  ioctl_set_name :: int
  ioctl_set_size :: int
  dup_ret :: int
  mmap_ret :: addr
  mmap_pixels :: "u32 list"
  calloc_data :: addr
  calloc_buffer :: addr
  ahb_allocate_err :: int
  ahb_allocate_ret :: addr
  ahb_describe :: "addr \<Rightarrow> ahb_desc"
  ahb_lock_ret :: int
  ahb_lock_data :: addr
  ahb_unlock_ret :: int
  glGenTextures_ret :: u32
  eglCreateImage_ret :: addr

definition MAP_FAILED :: addr where
  "MAP_FAILED = 2 ^ 64 - 1"

text \<open>The ledger and the objects.\<close>

record ledger =
  fds :: "int list"
  mappings :: "(addr \<times> u64) list"
  heap :: "addr list"
  ahb_refs :: "addr list"

record bstate =
  own :: ledger
  objs :: "addr \<Rightarrow> LorieBuffer option"
  pixels :: "addr \<Rightarrow> u32 list"
  link :: links
  next_id :: u64
  egl_display :: bool
  egl_context :: bool
  textures :: "u32 list"
  images :: "addr list"

definition close_fd :: "int \<Rightarrow> ledger \<Rightarrow> ledger" where
  "close_fd fd W = W\<lparr>fds := remove1 fd (fds W)\<rparr>"

definition munmap :: "addr \<Rightarrow> u64 \<Rightarrow> ledger \<Rightarrow> ledger" where
  "munmap a sz W = W\<lparr>mappings := remove1 (a, sz) (mappings W)\<rparr>"

definition free_block :: "addr \<Rightarrow> ledger \<Rightarrow> ledger" where
  "free_block a W = (if a = 0 then W else W\<lparr>heap := remove1 a (heap W)\<rparr>)"

definition AHardwareBuffer_release :: "addr \<Rightarrow> ledger \<Rightarrow> ledger" where
  "AHardwareBuffer_release a W = W\<lparr>ahb_refs := remove1 a (ahb_refs W)\<rparr>"

definition gain_fd :: "int \<Rightarrow> ledger \<Rightarrow> ledger" where
  "gain_fd fd W = (if fd < 0 then W else W\<lparr>fds := fd # fds W\<rparr>)"

definition gain_block :: "addr \<Rightarrow> ledger \<Rightarrow> ledger" where
  "gain_block a W = (if a = 0 then W else W\<lparr>heap := a # heap W\<rparr>)"

definition gain_mapping :: "addr \<Rightarrow> u64 \<Rightarrow> ledger \<Rightarrow> ledger" where
  "gain_mapping a sz W = (if a = 0 \<or> a = MAP_FAILED then W else W\<lparr>mappings := (a, sz) # mappings W\<rparr>)"

definition gain_ahb :: "addr \<Rightarrow> ledger \<Rightarrow> ledger" where
  "gain_ahb a W = W\<lparr>ahb_refs := a # ahb_refs W\<rparr>"

lemmas ledger_defs = close_fd_def munmap_def free_block_def AHardwareBuffer_release_def
  gain_fd_def gain_block_def gain_mapping_def gain_ahb_def

section \<open>Sizes\<close>

definition alignToPage :: "sys \<Rightarrow> u64 \<Rightarrow> u64" where
  "alignToPage Y sz = (sz + page_size Y - 1) AND NOT (page_size Y - 1)"

text \<open>\<^verbatim>\<open>stride * height * sizeof(uint32_t)\<close>: an \<^verbatim>\<open>int\<close> product converted to \<^verbatim>\<open>size_t\<close>.\<close>

definition pixel_bytes :: "int \<Rightarrow> int \<Rightarrow> u64" where
  "pixel_bytes s h = word_of_int (s * h) * 4"

section \<open>Creating a shared memory region\<close>

definition LorieBuffer_createRegion :: "sys \<Rightarrow> ledger \<Rightarrow> int \<times> ledger" where
  "LorieBuffer_createRegion Y W =
     (let fd = ASharedMemory_create Y; W1 = gain_fd fd W in
      if fd \<noteq> 0 then (fd, W1)
      else
        let fd = memfd_create Y; W2 = gain_fd fd W1 in
        if fd \<noteq> 0 then (fd, W2)
        else
          let fd = open_ashmem Y; W3 = gain_fd fd W2 in
          if fd < 0 then (fd, W3)
          else if ioctl_set_name Y < 0 then (ioctl_set_name Y, close_fd fd W3)
          else if ioctl_set_size Y < 0 then (ioctl_set_size Y, close_fd fd W3)
          else (fd, W3))"

section \<open>Allocation\<close>

definition acceptable :: "int \<Rightarrow> int \<Rightarrow> u8 \<Rightarrow> bool" where
  "acceptable w h f \<longleftrightarrow> (f = AHARDWAREBUFFER_FORMAT_B8G8R8A8_UNORM \<or> f = AHARDWAREBUFFER_FORMAT_R8G8B8X8_UNORM)
     \<and> 0 < w \<and> 0 < h"

definition new_buffer :: "LorieBuffer_Desc \<Rightarrow> int \<Rightarrow> u64 \<Rightarrow> int \<Rightarrow> LorieBuffer" where
  "new_buffer d fd sz off = \<lparr>refcount = 1, desc = d, locked = False, lockedData = 0, bfd = fd,
     bsize = sz, boffset = off, tex_id = 0, image = 0\<rparr>"

definition store_buffer :: "addr \<Rightarrow> LorieBuffer \<Rightarrow> bstate \<Rightarrow> bstate" where
  "store_buffer a b S = S\<lparr>own := gain_block a (own S), objs := (objs S)(a \<mapsto> b),
     link := xorg_list_init a (link S)\<rparr>"

definition allocate ::
  "sys \<Rightarrow> int \<Rightarrow> int \<Rightarrow> int \<Rightarrow> u8 \<Rightarrow> u8 \<Rightarrow> addr \<Rightarrow> int \<Rightarrow> u64 \<Rightarrow> int \<Rightarrow> bool \<Rightarrow> bstate \<Rightarrow> addr option \<times> bstate" where
  "allocate Y w s h f ty buf fd sz off takeFd S =
     (let fd' = (if takeFd then fd else if fd < 0 then - 1 else dup_ret Y);
          W = (if takeFd then own S else gain_fd fd' (own S));
          S1 = S\<lparr>own := W, next_id := next_id S + 1\<rparr>;
          d = \<lparr>width = w, height = h, stride = s, format = f, btype = ty, bid = next_id S, hwbuf = buf, data = 0\<rparr>;
          c = calloc_buffer Y in
      if ty \<noteq> LORIEBUFFER_AHARDWAREBUFFER \<and> \<not> acceptable w h f then (None, S1)
      else if ty = LORIEBUFFER_REGULAR then
        (let a = calloc_data Y; W1 = gain_block a W in
         if a = 0 then (None, S1)
         else if c = 0 then (None, S1\<lparr>own := free_block a W1\<rparr>)
         else (Some c, store_buffer c (new_buffer (d\<lparr>data := a\<rparr>) fd' sz off)
                (S1\<lparr>own := W1, pixels := (pixels S1)(a := replicate (unat (pixel_bytes s h) div 4) 0)\<rparr>)))
      else if ty = LORIEBUFFER_FD then
        (if fd' < 0 then (None, S1)
         else
           let a = mmap_ret Y; W1 = gain_mapping a sz W in
           if a = 0 \<or> a = MAP_FAILED then (None, S1\<lparr>own := close_fd fd' W\<rparr>)
           else if c = 0 then (None, S1\<lparr>own := close_fd fd' (munmap a sz W1)\<rparr>)
           else (Some c, store_buffer c (new_buffer (d\<lparr>data := a\<rparr>) fd' sz off)
                  (S1\<lparr>own := W1, pixels := (pixels S1)(a := mmap_pixels Y)\<rparr>)))
      else if ty = LORIEBUFFER_AHARDWAREBUFFER then
        (if buf = 0 then (None, S1)
         else
           let ad = ahb_describe Y buf;
               d1 = d\<lparr>width := ahb_width ad, height := ahb_height ad, stride := ahb_stride ad, format := ahb_format ad\<rparr> in
           if c = 0 then (None, S1\<lparr>own := AHardwareBuffer_release buf W\<rparr>)
           else (Some c, store_buffer c (new_buffer d1 fd' sz off) S1))
      else (None, S1))"

definition LorieBuffer_allocate :: "sys \<Rightarrow> int \<Rightarrow> int \<Rightarrow> u8 \<Rightarrow> u8 \<Rightarrow> bstate \<Rightarrow> addr option \<times> bstate" where
  "LorieBuffer_allocate Y w h f ty S =
     (if ty = LORIEBUFFER_FD then
        (let sz = alignToPage Y (pixel_bytes w h) in
         case LorieBuffer_createRegion Y (own S) of (fd, W) \<Rightarrow>
           if fd < 0 then (None, S\<lparr>own := W\<rparr>)
           else allocate Y w w h f ty 0 fd sz 0 True (S\<lparr>own := W\<rparr>))
      else if ty = LORIEBUFFER_AHARDWAREBUFFER then
        (if ahb_allocate_err Y = 0
         then allocate Y w w h f ty (ahb_allocate_ret Y) (- 1) 0 0 True
                (S\<lparr>own := gain_ahb (ahb_allocate_ret Y) (own S)\<rparr>)
         else allocate Y w w h f ty 0 (- 1) 0 0 True S)
      else allocate Y w w h f ty 0 (- 1) 0 0 True S)"

definition LorieBuffer_wrapFileDescriptor ::
  "sys \<Rightarrow> int \<Rightarrow> int \<Rightarrow> int \<Rightarrow> u8 \<Rightarrow> int \<Rightarrow> int \<Rightarrow> bstate \<Rightarrow> addr option \<times> bstate" where
  "LorieBuffer_wrapFileDescriptor Y w s h f fd off S =
     allocate Y w s h f LORIEBUFFER_FD 0 fd (pixel_bytes s h) off False S"

definition LorieBuffer_wrapAHardwareBuffer :: "sys \<Rightarrow> addr \<Rightarrow> bstate \<Rightarrow> addr option \<times> bstate" where
  "LorieBuffer_wrapAHardwareBuffer Y buf S = allocate Y 0 0 0 0 LORIEBUFFER_AHARDWAREBUFFER buf (- 1) 0 0 False S"

section \<open>Conversion\<close>

text \<open>\<^verbatim>\<open>pixman_blt\<close> at 32 bits per pixel between two memories: row by row, pixel by pixel. A pixel
  outside a memory is an invalid access.\<close>

fun blt_row :: "u32 list \<Rightarrow> nat \<Rightarrow> u32 list \<Rightarrow> nat \<Rightarrow> nat \<Rightarrow> u32 list option" where
  "blt_row src si dst di 0 = Some dst"
| "blt_row src si dst di (Suc n) =
     Option.bind (rd src si) (\<lambda>v. Option.bind (wr dst di v) (\<lambda>dst'. blt_row src (Suc si) dst' (Suc di) n))"

fun blt_rows :: "u32 list \<Rightarrow> nat \<Rightarrow> nat \<Rightarrow> u32 list \<Rightarrow> nat \<Rightarrow> nat \<Rightarrow> nat \<Rightarrow> nat \<Rightarrow> u32 list option" where
  "blt_rows src sstride si dst dstride di w 0 = Some dst"
| "blt_rows src sstride si dst dstride di w (Suc h) =
     Option.bind (blt_row src si dst di w) (\<lambda>dst'.
       blt_rows src sstride (si + sstride) dst' dstride (di + dstride) w h)"

definition pixman_blt :: "u32 list \<Rightarrow> u32 list \<Rightarrow> nat \<Rightarrow> nat \<Rightarrow> nat \<Rightarrow> nat \<Rightarrow> u32 list option" where
  "pixman_blt src dst sstride dstride w h = blt_rows src sstride 0 dst dstride 0 w h"

definition convertible :: "LorieBuffer \<Rightarrow> u8 \<Rightarrow> u8 \<Rightarrow> bool" where
  "convertible b ty f \<longleftrightarrow> btype (desc b) = LORIEBUFFER_REGULAR
     \<and> (ty = LORIEBUFFER_FD \<or> ty = LORIEBUFFER_AHARDWAREBUFFER)
     \<and> (f = AHARDWAREBUFFER_FORMAT_R8G8B8X8_UNORM \<or> f = AHARDWAREBUFFER_FORMAT_B8G8R8A8_UNORM)"

text \<open>\<open>None\<close> when the copy leaves one of the memories or the pointer is dangling.\<close>

definition LorieBuffer_convert :: "sys \<Rightarrow> addr \<Rightarrow> u8 \<Rightarrow> u8 \<Rightarrow> bstate \<Rightarrow> bstate option" where
  "LorieBuffer_convert Y p ty f S =
     (if p = 0 then Some S else Option.bind (objs S p) (\<lambda>b.
        if \<not> convertible b ty f then Some S
        else if ty = LORIEBUFFER_FD then
          (let sz = alignToPage Y (pixel_bytes (stride (desc b)) (height (desc b))) in
           case LorieBuffer_createRegion Y (own S) of (fd, W) \<Rightarrow>
             if fd < 0 then Some (S\<lparr>own := W\<rparr>)
             else
               let a = mmap_ret Y in
               if a = 0 \<or> a = MAP_FAILED then Some (S\<lparr>own := close_fd fd W\<rparr>)
               else
                 Option.bind (pixman_blt (pixels S (data (desc b))) (replicate (unat sz div 4) 0)
                     (nat (stride (desc b))) (nat (stride (desc b))) (nat (width (desc b))) (nat (height (desc b))))
                   (\<lambda>px. Some (S\<lparr>own := free_block (data (desc b)) (gain_mapping a sz W),
                      pixels := (pixels S)(a := px),
                      objs := (objs S)(p \<mapsto> b\<lparr>desc := (desc b)\<lparr>btype := ty, format := f, data := a\<rparr>,
                        bfd := fd, bsize := sz, boffset := 0, locked := False, lockedData := 0\<rparr>)\<rparr>)))
        else
          (if ahb_allocate_err Y \<noteq> 0 then Some S
           else
             let h = ahb_allocate_ret Y; ad = ahb_describe Y h;
                 b' = b\<lparr>desc := (desc b)\<lparr>btype := ty, format := f, stride := ahb_stride ad, hwbuf := h, data := 0\<rparr>,
                        locked := False, lockedData := 0\<rparr>;
                 finish = (\<lambda>S1. S1\<lparr>own := free_block (data (desc b)) (gain_ahb h (own S1)), objs := (objs S1)(p \<mapsto> b')\<rparr>) in
             if ahb_lock_ret Y = 0 then
               Option.bind (pixman_blt (pixels S (data (desc b))) (pixels S (ahb_lock_data Y))
                   (nat (stride (desc b))) (nat (ahb_stride ad)) (nat (width (desc b))) (nat (height (desc b))))
                 (\<lambda>px. Some (finish (S\<lparr>pixels := (pixels S)(ahb_lock_data Y := px)\<rparr>)))
             else Some (finish S))))"

section \<open>References\<close>

definition LorieBuffer_acquire :: "addr \<Rightarrow> bstate \<Rightarrow> bstate option" where
  "LorieBuffer_acquire p S =
     (if p = 0 then Some S
      else Option.bind (objs S p) (\<lambda>b. Some (S\<lparr>objs := (objs S)(p \<mapsto> b\<lparr>refcount := refcount b + 1\<rparr>)\<rparr>)))"

definition LorieBuffer_free :: "addr \<Rightarrow> bstate \<Rightarrow> bstate option" where
  "LorieBuffer_free p S =
     (if p = 0 then Some S
      else Option.bind (objs S p) (\<lambda>b.
        let W = own S;
            W1 = (if btype (desc b) = LORIEBUFFER_REGULAR then free_block (data (desc b)) W
                  else if btype (desc b) = LORIEBUFFER_FD then close_fd (bfd b) (munmap (data (desc b)) (bsize b) W)
                  else if btype (desc b) = LORIEBUFFER_AHARDWAREBUFFER then AHardwareBuffer_release (hwbuf (desc b)) W
                  else W)
        in Some (S\<lparr>link := xorg_list_del p (link S),
              textures := (if egl_context S then remove1 (tex_id b) (textures S) else textures S),
              images := (if egl_display S \<and> image b \<noteq> 0 then remove1 (image b) (images S) else images S),
              own := free_block p W1, objs := (objs S)(p := None)\<rparr>)))"

text \<open>The counter is compared before the subtraction.\<close>

definition LorieBuffer_release :: "addr \<Rightarrow> bstate \<Rightarrow> bstate option" where
  "LorieBuffer_release p S =
     (if p = 0 then Some S
      else Option.bind (objs S p) (\<lambda>b.
        let S1 = S\<lparr>objs := (objs S)(p \<mapsto> b\<lparr>refcount := refcount b - 1\<rparr>)\<rparr> in
        if refcount b = 1 then LorieBuffer_free p S1 else Some S1))"

definition no_desc :: LorieBuffer_Desc where
  "no_desc = \<lparr>width = 0, height = 0, stride = 0, format = 0, btype = 0, bid = 0, hwbuf = 0, data = 0\<rparr>"

definition LorieBuffer_description :: "addr \<Rightarrow> bstate \<Rightarrow> LorieBuffer_Desc option" where
  "LorieBuffer_description p S = (if p = 0 then Some no_desc else map_option desc (objs S p))"

definition LorieBuffer_getWidth :: "addr \<Rightarrow> bstate \<Rightarrow> int option" where
  "LorieBuffer_getWidth p S = map_option width (LorieBuffer_description p S)"

definition LorieBuffer_getHeight :: "addr \<Rightarrow> bstate \<Rightarrow> int option" where
  "LorieBuffer_getHeight p S = map_option height (LorieBuffer_description p S)"

definition LorieBuffer_isRgba :: "addr \<Rightarrow> bstate \<Rightarrow> bool option" where
  "LorieBuffer_isRgba p S = map_option (\<lambda>d. format d \<noteq> AHARDWAREBUFFER_FORMAT_B8G8R8A8_UNORM) (LorieBuffer_description p S)"

section \<open>CPU access\<close>

definition ENODEV :: int where "ENODEV = 19"
definition EEXIST :: int where "EEXIST = 17"
definition ENOENT :: int where "ENOENT = 2"

text \<open>The result is the return value, the pointer stored through \<^verbatim>\<open>out\<close> and the new state.\<close>

definition LorieBuffer_lock :: "sys \<Rightarrow> LorieBuffer option \<Rightarrow> int \<times> addr option \<times> LorieBuffer option" where
  "LorieBuffer_lock Y buf =
     (case buf of
        None \<Rightarrow> (ENODEV, None, None)
      | Some b \<Rightarrow>
          if locked b then (EEXIST, Some (lockedData b), Some b)
          else if btype (desc b) = LORIEBUFFER_REGULAR \<or> btype (desc b) = LORIEBUFFER_FD
            then (0, Some (data (desc b)), Some (b\<lparr>lockedData := data (desc b), locked := True\<rparr>))
          else if btype (desc b) = LORIEBUFFER_AHARDWAREBUFFER then
            (let p = (if ahb_lock_ret Y = 0 then ahb_lock_data Y else lockedData b)
             in (ahb_lock_ret Y, Some p, Some (b\<lparr>lockedData := p, locked := True\<rparr>)))
          else (0, Some (lockedData b), Some (b\<lparr>locked := True\<rparr>)))"

definition LorieBuffer_unlock :: "sys \<Rightarrow> LorieBuffer option \<Rightarrow> int \<times> LorieBuffer option" where
  "LorieBuffer_unlock Y buf =
     (case buf of
        None \<Rightarrow> (ENODEV, None)
      | Some b \<Rightarrow>
          if \<not> locked b then (ENOENT, Some b)
          else (if btype (desc b) = LORIEBUFFER_AHARDWAREBUFFER then ahb_unlock_ret Y else 0,
                Some (b\<lparr>lockedData := 0, locked := False\<rparr>)))"

section \<open>Passing buffers between processes\<close>

datatype sock_msg = BufferBytes LorieBuffer | FdMessage int | AhbMessage addr

definition LorieBuffer_sendHandleToUnixSocket :: "LorieBuffer option \<Rightarrow> int \<Rightarrow> sock_msg list" where
  "LorieBuffer_sendHandleToUnixSocket buf socketFd =
     (case buf of
        None \<Rightarrow> []
      | Some b \<Rightarrow>
          if socketFd < 0 then []
          else BufferBytes b #
            (if btype (desc b) = LORIEBUFFER_FD then [FdMessage (bfd b)]
             else if btype (desc b) = LORIEBUFFER_AHARDWAREBUFFER then [AhbMessage (hwbuf (desc b))]
             else []))"

text \<open>What the receiving side gets from the kernel: the bytes of the struct (\<open>None\<close> when the read
  failed), a descriptor of its own for the one that was sent (or \<open>-1\<close>), and a hardware buffer.\<close>

record recv_sys = sys +
  read_struct :: "LorieBuffer option"
  ancil_recv_fd :: int
  ahb_recv :: addr

definition recv_init :: LorieBuffer where
  "recv_init = \<lparr>refcount = 1, desc = no_desc, locked = False, lockedData = 0, bfd = - 1, bsize = 0,
     boffset = 0, tex_id = 0, image = 0\<rparr>"

definition LorieBuffer_recvHandleFromUnixSocket ::
  "recv_sys \<Rightarrow> int \<Rightarrow> bool \<Rightarrow> bstate \<Rightarrow> addr option \<times> bstate" where
  "LorieBuffer_recvHandleFromUnixSocket Y socketFd wantOut S =
     (if socketFd < 0 then (None, S)
      else
        let b = (case read_struct Y of None \<Rightarrow> recv_init | Some b \<Rightarrow> b)\<lparr>image := 0\<rparr>;
            finish = (\<lambda>b S1.
              let c = (if wantOut then calloc_buffer Y else 0) in
              if c = 0 then
                (None, S1\<lparr>own := (if hwbuf (desc b) \<noteq> 0 then AHardwareBuffer_release (hwbuf (desc b)) else id)
                               ((if 0 \<le> bfd b then close_fd (bfd b) else id) (own S1))\<rparr>)
              else (Some c, store_buffer c b S1))
        in if btype (desc b) = LORIEBUFFER_FD then
             (let fd = ancil_recv_fd Y; W = gain_fd fd (own S);
                  sz = pixel_bytes (stride (desc b)) (height (desc b)); a = mmap_ret Y in
              if fd = - 1 then (None, S\<lparr>own := W\<rparr>)
              else if a = 0 \<or> a = MAP_FAILED then (None, S\<lparr>own := close_fd fd W\<rparr>)
              else finish (b\<lparr>bfd := fd, desc := (desc b)\<lparr>data := a\<rparr>\<rparr>) 
                (S\<lparr>own := gain_mapping a sz W, pixels := (pixels S)(a := mmap_pixels Y)\<rparr>))
           else if btype (desc b) = LORIEBUFFER_AHARDWAREBUFFER then
             finish (b\<lparr>desc := (desc b)\<lparr>hwbuf := ahb_recv Y\<rparr>\<rparr>) (S\<lparr>own := gain_ahb (ahb_recv Y) (own S)\<rparr>)
           else finish b S)"

section \<open>Textures\<close>

definition LorieBuffer_attachToGL :: "sys \<Rightarrow> addr \<Rightarrow> bstate \<Rightarrow> bstate option" where
  "LorieBuffer_attachToGL Y p S =
     (if \<not> egl_display S \<or> p = 0 then Some S
      else Option.bind (objs S p) (\<lambda>b.
        let create = image b = 0 \<and> hwbuf (desc b) \<noteq> 0;
            im = (if create then eglCreateImage_ret Y else image b)
        in Some (S\<lparr>objs := (objs S)(p \<mapsto> b\<lparr>image := im, tex_id := glGenTextures_ret Y\<rparr>),
              images := (if create \<and> im \<noteq> 0 then im # images S else images S),
              textures := glGenTextures_ret Y # textures S\<rparr>)))"

datatype gl_upload = BindTexture u32 | TexSubImage int int bool addr

definition LorieBuffer_bindTexture :: "addr \<Rightarrow> bstate \<Rightarrow> gl_upload list option" where
  "LorieBuffer_bindTexture p S =
     (if p = 0 then Some []
      else Option.bind (objs S p) (\<lambda>b. Some (BindTexture (tex_id b) #
        (if btype (desc b) = LORIEBUFFER_FD
         then [TexSubImage (stride (desc b)) (height (desc b))
                 (format (desc b) = AHARDWAREBUFFER_FORMAT_B8G8R8A8_UNORM) (data (desc b))]
         else []))))"

section \<open>Lists of buffers\<close>

definition LorieBuffer_addToList :: "addr \<Rightarrow> addr \<Rightarrow> links \<Rightarrow> links" where
  "LorieBuffer_addToList p list L =
     (if p \<noteq> 0 \<and> list \<noteq> 0 then xorg_list_add p list (xorg_list_del p L) else L)"

definition LorieBuffer_removeFromList :: "addr \<Rightarrow> links \<Rightarrow> links" where
  "LorieBuffer_removeFromList p L = (if p \<noteq> 0 then xorg_list_del p L else L)"

definition LorieBufferList_first :: "addr \<Rightarrow> links \<Rightarrow> addr option" where
  "LorieBufferList_first list L = (if xorg_list_is_empty list L then None else Some (xorg_list_first list L))"

definition LorieBufferList_findById :: "addr \<Rightarrow> u64 \<Rightarrow> bstate \<Rightarrow> addr option option" where
  "LorieBufferList_findById list i S =
     Option.bind (xorg_list_for_each (link S) list (nxt (link S) list)) (\<lambda>ps.
       Some (find (\<lambda>p. map_option (bid \<circ> desc) (objs S p) = Some i) ps))"

section \<open>Lemmas: ownership\<close>

lemma ledger_undo [simp]:
  "0 \<le> fd \<Longrightarrow> close_fd fd (gain_fd fd W) = W"
  "fd < 0 \<Longrightarrow> gain_fd fd W = W"
  "a \<noteq> 0 \<Longrightarrow> a \<noteq> MAP_FAILED \<Longrightarrow> munmap a sz (gain_mapping a sz W) = W"
  "a \<noteq> 0 \<Longrightarrow> free_block a (gain_block a W) = W"
  "AHardwareBuffer_release a (gain_ahb a W) = W"
  by (simp_all add: ledger_defs)

lemma ledger_commute [simp]:
  "close_fd fd (munmap a sz (gain_block c W)) = gain_block c (close_fd fd (munmap a sz W))"
  "AHardwareBuffer_release b (gain_block c W) = gain_block c (AHardwareBuffer_release b W)"
  "munmap a sz (gain_mapping a sz (gain_fd fd W)) = (if a = 0 \<or> a = MAP_FAILED then munmap a sz (gain_fd fd W) else gain_fd fd W)"
  by (simp_all add: ledger_defs)

lemma free_two_blocks: "a \<noteq> 0 \<Longrightarrow> c \<noteq> 0 \<Longrightarrow> free_block c (free_block a (gain_block c (gain_block a W))) = W"
  by (simp add: ledger_defs)

lemma region_ledger:
  assumes "LorieBuffer_createRegion Y W = (fd, W')" and "ASharedMemory_create Y \<noteq> 0"
  shows "W' = gain_fd fd W"
  using assms by (auto simp: LorieBuffer_createRegion_def Let_def)

text \<open>What a fresh buffer owns is exactly what freeing it gives back.\<close>

lemma release_fresh:
  assumes "objs S p = Some b" and "refcount b = 1" and "p \<noteq> 0"
  shows "LorieBuffer_release p S = LorieBuffer_free p (S\<lparr>objs := (objs S)(p \<mapsto> b\<lparr>refcount := 0\<rparr>)\<rparr>)"
  using assms by (simp add: LorieBuffer_release_def)

lemma allocate_balanced:
  assumes "allocate Y w s h f ty buf fd sz off takeFd S = (Some p, S')"
    and "takeFd \<Longrightarrow> ty = LORIEBUFFER_FD \<Longrightarrow> own S = gain_fd fd W"
    and "takeFd \<Longrightarrow> ty = LORIEBUFFER_AHARDWAREBUFFER \<Longrightarrow> own S = gain_ahb buf W"
    and "takeFd \<Longrightarrow> ty = LORIEBUFFER_REGULAR \<Longrightarrow> own S = W" and "takeFd"
  shows "\<exists>T. LorieBuffer_release p S' = Some T \<and> own T = W \<and> objs T p = None"
  using assms
  by (auto simp: allocate_def Let_def LorieBuffer_release_def LorieBuffer_free_def store_buffer_def new_buffer_def
      buffer_consts free_two_blocks split: if_splits)

fun iterate :: "nat \<Rightarrow> ('s \<Rightarrow> 's option) \<Rightarrow> 's \<Rightarrow> 's option" where
  "iterate 0 f s = Some s"
| "iterate (Suc n) f s = Option.bind (f s) (iterate n f)"

lemma iterate_Suc_end: "iterate (Suc n) f s = Option.bind (iterate n f s) f"
proof (induction n arbitrary: s)
  case 0
  show ?case by (cases "f s") simp_all
next
  case (Suc n)
  show ?case by (cases "f s") (simp_all add: Suc [simplified])
qed

lemma iterate_acquire:
  assumes "objs S p = Some b" and "p \<noteq> 0"
  shows "iterate n (LorieBuffer_acquire p) S =
    Some (S\<lparr>objs := (objs S)(p \<mapsto> b\<lparr>refcount := refcount b + word_of_nat n\<rparr>)\<rparr>)"
  using assms
proof (induction n arbitrary: S b)
  case 0
  then show ?case by (simp add: map_upd_triv)
next
  case (Suc n)
  let ?b = "b\<lparr>refcount := refcount b + 1\<rparr>" let ?S = "S\<lparr>objs := (objs S)(p \<mapsto> ?b)\<rparr>"
  have "LorieBuffer_acquire p S = Some ?S" using Suc.prems by (simp add: LorieBuffer_acquire_def)
  moreover have "iterate n (LorieBuffer_acquire p) ?S =
      Some (?S\<lparr>objs := (objs ?S)(p \<mapsto> ?b\<lparr>refcount := refcount ?b + word_of_nat n\<rparr>)\<rparr>)"
    using Suc.prems(2) by (intro Suc.IH) simp_all
  ultimately show ?case by (simp add: ac_simps fun_upd_def cong: if_cong)
qed

lemma iterate_release:
  assumes "objs S p = Some b" and "p \<noteq> 0" and "n < unat (refcount b)"
  shows "iterate n (LorieBuffer_release p) S =
    Some (S\<lparr>objs := (objs S)(p \<mapsto> b\<lparr>refcount := refcount b - word_of_nat n\<rparr>)\<rparr>)"
  using assms
proof (induction n arbitrary: S b)
  case 0
  then show ?case by (simp add: map_upd_triv)
next
  case (Suc n)
  let ?b = "b\<lparr>refcount := refcount b - 1\<rparr>"
  have "n < unat (refcount ?b)" "refcount b \<noteq> 1"
    using Suc.prems(3) unat_pred [of "unat (refcount b) - 1" "refcount b"] by auto
  let ?S = "S\<lparr>objs := (objs S)(p \<mapsto> ?b)\<rparr>"
  have "LorieBuffer_release p S = Some ?S"
    using Suc.prems \<open>refcount b \<noteq> 1\<close> by (simp add: LorieBuffer_release_def Let_def)
  moreover have "iterate n (LorieBuffer_release p) ?S =
      Some (?S\<lparr>objs := (objs ?S)(p \<mapsto> ?b\<lparr>refcount := refcount ?b - word_of_nat n\<rparr>)\<rparr>)"
    using Suc.prems(2) \<open>n < unat (refcount ?b)\<close> by (intro Suc.IH) simp_all
  ultimately show ?case by (simp add: diff_diff_eq fun_upd_def cong: if_cong)
qed

section \<open>The contract of a lockable object\<close>

text \<open>
  \<open>wf\<close> are the objects the contract speaks of, \<open>lock\<close> and \<open>unlock\<close> return a status and the
  new object. Locking and unlocking in any order only switches between two objects.
\<close>

locale lockable =
  fixes wf :: "'b \<Rightarrow> bool"
    and is_locked :: "'b \<Rightarrow> bool"
    and lock :: "'b \<Rightarrow> int \<times> 'b"
    and unlock :: "'b \<Rightarrow> int \<times> 'b"
    and busy :: int
    and unheld :: int
  assumes lock_busy: "is_locked b \<Longrightarrow> lock b = (busy, b)"
    and unlock_unheld: "\<not> is_locked b \<Longrightarrow> unlock b = (unheld, b)"
    and lock_sets: "is_locked (snd (lock b))"
    and unlock_clears: "\<not> is_locked (snd (unlock b))"
    and unlock_lock: "wf b \<Longrightarrow> \<not> is_locked b \<Longrightarrow> snd (unlock (snd (lock b))) = b"
begin

lemma two_states:
  assumes "wf b" and "\<not> is_locked b"
  shows "fold (\<lambda>op b. snd (if op then lock b else unlock b)) ops b = (if ops \<noteq> [] \<and> last ops then snd (lock b) else b)"
proof (induction ops rule: rev_induct)
  case (snoc x ops)
  let ?c = "snd (lock b)"
  have c: "snd (lock ?c) = ?c" using lock_busy [OF lock_sets [of b]] by simp
  have u: "snd (unlock b) = b" using unlock_unheld [OF assms(2)] by simp
  show ?case using snoc c u unlock_lock [OF assms] by (cases x) (auto)
qed simp

end

definition buf_lock :: "sys \<Rightarrow> LorieBuffer \<Rightarrow> int \<times> LorieBuffer" where
  "buf_lock Y b = (case LorieBuffer_lock Y (Some b) of (r, _, Some b') \<Rightarrow> (r, b') | (r, _, None) \<Rightarrow> (r, b))"

definition buf_unlock :: "sys \<Rightarrow> LorieBuffer \<Rightarrow> int \<times> LorieBuffer" where
  "buf_unlock Y b = (case LorieBuffer_unlock Y (Some b) of (r, Some b') \<Rightarrow> (r, b') | (r, None) \<Rightarrow> (r, b))"

definition unlocked_clean :: "LorieBuffer \<Rightarrow> bool" where
  "unlocked_clean b \<longleftrightarrow> (\<not> locked b \<longrightarrow> lockedData b = 0)"

interpretation buf: lockable unlocked_clean locked "buf_lock Y" "buf_unlock Y" EEXIST ENOENT for Y
  by unfold_locales
    (auto simp: buf_lock_def buf_unlock_def LorieBuffer_lock_def LorieBuffer_unlock_def unlocked_clean_def Let_def)

section \<open>Copying pixels\<close>

lemma blt_row_total:
  assumes "si + n \<le> length src" and "di + n \<le> length dst"
  shows "\<exists>dst'. blt_row src si dst di n = Some dst' \<and> length dst' = length dst
    \<and> (\<forall>i<length dst. dst' ! i = (if di \<le> i \<and> i < di + n then src ! (si + (i - di)) else dst ! i))"
  using assms
proof (induction n arbitrary: si di dst)
  case (Suc n)
  let ?d = "dst[di := src ! si]"
  obtain dst' where d: "blt_row src (Suc si) ?d (Suc di) n = Some dst'" "length dst' = length ?d"
    "\<forall>i<length ?d. dst' ! i = (if Suc di \<le> i \<and> i < Suc di + n then src ! (Suc si + (i - Suc di)) else ?d ! i)"
    using Suc.IH [of "Suc si" "Suc di" ?d] Suc.prems by auto
  have "dst' ! i = (if di \<le> i \<and> i < di + Suc n then src ! (si + (i - di)) else dst ! i)" if "i < length dst" for i
    using d(3) that by (cases "i = di") (auto simp: Suc_diff_Suc)
  then show ?case using d Suc.prems by (simp add: rd_def wr_def)
qed auto

lemma blt_rows_total:
  assumes "w \<le> ss" and "w \<le> ds" and "si + ss * h \<le> length src" and "di + ds * h \<le> length dst"
  shows "\<exists>dst'. blt_rows src ss si dst ds di w h = Some dst' \<and> length dst' = length dst
    \<and> (\<forall>i<di. dst' ! i = dst ! i)
    \<and> (\<forall>y<h. \<forall>x<w. dst' ! (di + ds * y + x) = src ! (si + ss * y + x))"
  using assms(3,4)
proof (induction h arbitrary: si di dst)
  case (Suc h)
  obtain d1 where d1: "blt_row src si dst di w = Some d1" "length d1 = length dst"
    "\<forall>i<length dst. d1 ! i = (if di \<le> i \<and> i < di + w then src ! (si + (i - di)) else dst ! i)"
    using blt_row_total [of si w src di dst] Suc.prems assms by auto
  obtain d2 where d2: "blt_rows src ss (si + ss) d1 ds (di + ds) w h = Some d2" "length d2 = length d1"
    "\<forall>i<di + ds. d2 ! i = d1 ! i"
    "\<forall>y<h. \<forall>x<w. d2 ! (di + ds + ds * y + x) = src ! (si + ss + ss * y + x)"
    using Suc.IH [of "si + ss" "di + ds" d1] Suc.prems d1(2) by auto
  have "d2 ! (di + ds * y + x) = src ! (si + ss * y + x)" if "y < Suc h" "x < w" for y x
  proof (cases y)
    case 0
    have "di + x < length dst" using that Suc.prems(2) assms(2) by simp
    then show ?thesis using 0 that d2(3) d1(3) assms(2) by simp
  next
    case (Suc y')
    have "y' < h" using Suc that by simp
    with d2(4) that(2) have "d2 ! (di + ds + ds * y' + x) = src ! (si + ss + ss * y' + x)" by blast
    then show ?thesis using Suc by (simp add: ac_simps)
  qed
  moreover have "d2 ! i = dst ! i" if "i < di" for i
    using that d2(3) d1(3) Suc.prems(2) by simp
  ultimately show ?case using d1 d2 by simp
qed simp

lemma pixman_blt_total:
  assumes "w \<le> ss" and "w \<le> ds" and "ss * h \<le> length src" and "ds * h \<le> length dst"
  shows "\<exists>dst'. pixman_blt src dst ss ds w h = Some dst' \<and> length dst' = length dst
    \<and> (\<forall>y<h. \<forall>x<w. dst' ! (ds * y + x) = src ! (ss * y + x))"
  using blt_rows_total [OF assms(1,2), of 0 h src 0 dst] assms(3,4) by (auto simp: pixman_blt_def)

lemma find_in_ring:
  assumes "ring (link S) list ps"
  shows "LorieBufferList_findById list i S = Some (find (\<lambda>p. map_option (bid \<circ> desc) (objs S p) = Some i) ps)"
  using for_each_ring [OF assms] by (simp add: LorieBufferList_findById_def)

section \<open>A sample state\<close>

definition sample_sys :: sys where
  "sample_sys = \<lparr>page_size = 4096, ASharedMemory_create = 7, memfd_create = 0, open_ashmem = 0, ioctl_set_name = 0,
     ioctl_set_size = 0, dup_ret = 8, mmap_ret = 4096, mmap_pixels = [], calloc_data = 32, calloc_buffer = 64,
     ahb_allocate_err = 0, ahb_allocate_ret = 96, ahb_describe = (\<lambda>_. \<lparr>ahb_width = 1, ahb_height = 1,
     ahb_stride = 1, ahb_format = 5\<rparr>), ahb_lock_ret = 0, ahb_lock_data = 128, ahb_unlock_ret = 0,
     glGenTextures_ret = 1, eglCreateImage_ret = 160\<rparr>"

definition sample_ledger :: ledger where
  "sample_ledger = \<lparr>fds = [0, 1, 2], mappings = [], heap = [], ahb_refs = []\<rparr>"

definition sample_bstate :: bstate where
  "sample_bstate = \<lparr>own = sample_ledger, objs = (\<lambda>_. None), pixels = (\<lambda>_. []), link = \<lparr>nxt = id, prv = id\<rparr>,
     next_id = 0, egl_display = False, egl_context = False, textures = [], images = []\<rparr>"

definition sample_buffer :: LorieBuffer where
  "sample_buffer = new_buffer \<lparr>width = 2, height = 1, stride = 2, format = 5, btype = 1, bid = 3, hwbuf = 0, data = 32\<rparr> (- 1) 0 0"

definition sample_shared :: bstate where
  "sample_shared = sample_bstate\<lparr>objs := [64 \<mapsto> sample_buffer], pixels := (\<lambda>_. [])(32 := [7, 9])\<rparr>"

lemmas sample_buffer_simps = sample_sys_def sample_ledger_def sample_bstate_def sample_buffer_def sample_shared_def
  new_buffer_def

lemma allocate_then_release:
  assumes "LorieBuffer_allocate Y w h f ty S = (Some p, S')" and "ASharedMemory_create Y \<noteq> 0"
  shows "\<exists>T. LorieBuffer_release p S' = Some T \<and> own T = own S \<and> objs T p = None"
proof (cases "ty = LORIEBUFFER_FD")
  case True
  obtain fd W where r: "LorieBuffer_createRegion Y (own S) = (fd, W)" by fastforce
  with True assms have "allocate Y w w h f ty 0 fd (alignToPage Y (pixel_bytes w h)) 0 True (S\<lparr>own := W\<rparr>) = (Some p, S')"
    by (auto simp: LorieBuffer_allocate_def Let_def split: if_splits)
  then show ?thesis
    by (rule allocate_balanced) (use True region_ledger [OF r assms(2)] in \<open>simp_all add: buffer_consts\<close>)
next
  case False
  show ?thesis
  proof (cases "ty = LORIEBUFFER_AHARDWAREBUFFER \<and> ahb_allocate_err Y = 0")
    case True
    with False assms have "allocate Y w w h f ty (ahb_allocate_ret Y) (- 1) 0 0 True
        (S\<lparr>own := gain_ahb (ahb_allocate_ret Y) (own S)\<rparr>) = (Some p, S')"
      by (simp add: LorieBuffer_allocate_def)
    then show ?thesis by (rule allocate_balanced) (use True False in \<open>simp_all add: buffer_consts\<close>)
  next
    case na: False
    with False assms(1) have a: "allocate Y w w h f ty 0 (- 1) 0 0 True S = (Some p, S')"
      by (auto simp: LorieBuffer_allocate_def split: if_splits)
    then have "ty \<noteq> LORIEBUFFER_AHARDWAREBUFFER" by (auto simp: allocate_def Let_def buffer_consts split: if_splits)
    with a False show ?thesis by (intro allocate_balanced [OF a]) simp_all
  qed
qed

section \<open>Properties\<close>

text \<open>
  Allocating a buffer of any type and releasing its only reference gives back every file
  descriptor, mapping, heap block and hardware buffer reference, whatever the system calls
  answered, and the object is gone.
\<close>

theorem buffer_alloc_release_balanced:
  assumes "LorieBuffer_allocate Y w h f ty S = (Some p, S')" and "ASharedMemory_create Y \<noteq> 0"
  shows "\<exists>T. LorieBuffer_release p S' = Some T \<and> own T = own S \<and> objs T p = None"
  using assms by (rule allocate_then_release)

theorem buffer_alloc_release_balanced_witness:
  "\<exists>T. LorieBuffer_release 64 (snd (LorieBuffer_allocate sample_sys 2 1 5 LORIEBUFFER_FD sample_bstate)) = Some T
    \<and> own T = own sample_bstate \<and> objs T 64 = None"
  by (rule buffer_alloc_release_balanced [where Y = sample_sys and w = 2 and h = 1 and f = 5 and ty = LORIEBUFFER_FD])
    (simp_all add: LorieBuffer_allocate_def allocate_def LorieBuffer_createRegion_def Let_def acceptable_def
      buffer_consts MAP_FAILED_def sample_buffer_simps)

text \<open>
  C40. An allocation that fails owns nothing: every path that returns \<^verbatim>\<open>NULL\<close> after the request
  was found acceptable has undone what it acquired.
\<close>

theorem buffer_alloc_failure_clean:
  assumes "LorieBuffer_allocate Y w h f ty S = (None, S')" and "ASharedMemory_create Y \<noteq> 0"
    and "ty = LORIEBUFFER_FD \<longrightarrow> acceptable w h f" and "ahb_allocate_err Y = 0 \<longrightarrow> ahb_allocate_ret Y \<noteq> 0"
  shows "own S' = own S"
proof -
  obtain fd W where r: "LorieBuffer_createRegion Y (own S) = (fd, W)" by fastforce
  then have W: "W = gain_fd fd (own S)" using assms(2) by (rule region_ledger)
  show ?thesis
    using assms r W
    by (auto simp: LorieBuffer_allocate_def allocate_def Let_def buffer_consts split: if_splits)
qed

theorem buffer_alloc_failure_clean_witness:
  "own (snd (LorieBuffer_allocate (sample_sys\<lparr>calloc_buffer := 0\<rparr>) 2 1 5 LORIEBUFFER_FD sample_bstate)) = own sample_bstate"
  by (rule buffer_alloc_failure_clean [where Y = "sample_sys\<lparr>calloc_buffer := 0\<rparr>" and w = 2 and h = 1 and f = 5 and ty = LORIEBUFFER_FD])
    (simp_all add: LorieBuffer_allocate_def allocate_def LorieBuffer_createRegion_def Let_def acceptable_def
      buffer_consts MAP_FAILED_def sample_buffer_simps)

text \<open>
  A shared memory buffer of a format the allocator refuses keeps the descriptor of the
  region created for it: nothing closes it.
\<close>

theorem buffer_alloc_rejected_leaks:
  assumes "ASharedMemory_create Y > 0" and "\<not> acceptable w h f"
  shows "fst (LorieBuffer_allocate Y w h f LORIEBUFFER_FD S) = None
    \<and> fds (own (snd (LorieBuffer_allocate Y w h f LORIEBUFFER_FD S))) = ASharedMemory_create Y # fds (own S)"
  using assms
  by (auto simp: LorieBuffer_allocate_def allocate_def LorieBuffer_createRegion_def Let_def buffer_consts gain_fd_def)

theorem buffer_alloc_rejected_leaks_witness:
  "fst (LorieBuffer_allocate sample_sys 2 1 9 LORIEBUFFER_FD sample_bstate) = None
    \<and> fds (own (snd (LorieBuffer_allocate sample_sys 2 1 9 LORIEBUFFER_FD sample_bstate))) =
      ASharedMemory_create sample_sys # fds (own sample_bstate)"
  by (rule buffer_alloc_rejected_leaks) (simp_all add: acceptable_def buffer_consts sample_buffer_simps)

text \<open>
  A buffer with one reference survives any number of acquisitions followed by as many
  releases, unchanged, is alive after each of them, and the next release frees it. The 16-bit
  counter bounds the number of acquisitions.
\<close>

theorem refcount_frees_last:
  assumes "objs S p = Some b" and "p \<noteq> 0" and "refcount b = 1" and "n < 65535"
  shows "Option.bind (iterate n (LorieBuffer_acquire p) S) (iterate n (LorieBuffer_release p)) = Some S
    \<and> (\<forall>k\<le>n. \<exists>T. Option.bind (iterate n (LorieBuffer_acquire p) S) (iterate k (LorieBuffer_release p)) = Some T \<and> objs T p \<noteq> None)
    \<and> (\<exists>T. Option.bind (iterate n (LorieBuffer_acquire p) S) (iterate (Suc n) (LorieBuffer_release p)) = Some T \<and> objs T p = None)"
proof -
  let ?b = "b\<lparr>refcount := 1 + word_of_nat n\<rparr>" let ?S = "S\<lparr>objs := (objs S)(p \<mapsto> ?b)\<rparr>"
  have acq: "iterate n (LorieBuffer_acquire p) S = Some ?S" using iterate_acquire [OF assms(1,2)] assms(3) by simp
  have cnt: "unat (refcount ?b) = Suc n"
  proof -
    have "refcount ?b = word_of_nat (Suc n)" by simp
    then show ?thesis using assms(4) by (simp only: unsigned_of_nat) (simp add: take_bit_nat_eq_self)
  qed
  have rel: "iterate k (LorieBuffer_release p) ?S =
      Some (?S\<lparr>objs := (objs ?S)(p \<mapsto> ?b\<lparr>refcount := refcount ?b - word_of_nat k\<rparr>)\<rparr>)" if "k \<le> n" for k
    using assms(2) cnt that by (intro iterate_release) simp_all
  have same: "S\<lparr>objs := (objs S)(p \<mapsto> b\<lparr>refcount := 1\<rparr>)\<rparr> = S" using assms(1,3) by (simp add: map_upd_triv)
  have undone: "iterate n (LorieBuffer_release p) ?S = Some S" using rel [of n] same by simp
  have "\<exists>T. LorieBuffer_release p S = Some T \<and> objs T p = None"
    using assms(1-3) by (simp add: LorieBuffer_release_def LorieBuffer_free_def Let_def)
  then show ?thesis using acq rel undone by (auto simp: iterate_Suc_end simp del: iterate.simps)
qed

theorem refcount_frees_last_witness:
  "Option.bind (iterate 2 (LorieBuffer_acquire 64) sample_shared) (iterate 2 (LorieBuffer_release 64)) = Some sample_shared
    \<and> (\<exists>T. Option.bind (iterate 2 (LorieBuffer_acquire 64) sample_shared) (iterate (Suc 2) (LorieBuffer_release 64)) = Some T
         \<and> objs T 64 = None)"
  using refcount_frees_last [of sample_shared 64 sample_buffer 2] by (simp add: sample_buffer_simps)



text \<open>
  Any sequence of lock and unlock calls leaves the buffer either as it was or as one lock
  leaves it: a second lock answers \<^verbatim>\<open>EEXIST\<close> and a second unlock \<^verbatim>\<open>ENOENT\<close>, with no effect.
\<close>

theorem buffer_lock_two_states:
  assumes "lockedData b = 0" and "\<not> locked b"
  shows "fold (\<lambda>op b. snd (if op then buf_lock Y b else buf_unlock Y b)) ops b =
    (if ops \<noteq> [] \<and> last ops then snd (buf_lock Y b) else b)"
  using assms by (intro buf.two_states) (simp_all add: unlocked_clean_def)

theorem buffer_lock_two_states_witness:
  "fold (\<lambda>op b. snd (if op then buf_lock sample_sys b else buf_unlock sample_sys b)) [True, True, False, False, True] sample_buffer =
    (if [True, True, False, False, True] \<noteq> [] \<and> last [True, True, False, False, True]
     then snd (buf_lock sample_sys sample_buffer) else sample_buffer)"
  by (rule buffer_lock_two_states) (simp_all add: sample_buffer_simps)

text \<open>
  \<^verbatim>\<open>alignToPage\<close> returns the least multiple of the page size that is not below its argument.
\<close>

theorem alignToPage_correct:
  assumes "page_size Y = 2 ^ k" and "k < 64" and "unat sz + 2 ^ k \<le> 2 ^ 64"
  shows "2 ^ k dvd unat (alignToPage Y sz) \<and> unat sz \<le> unat (alignToPage Y sz)
    \<and> unat (alignToPage Y sz) < unat sz + 2 ^ k"
proof -
  have m: "page_size Y - 1 = mask k" using assms(1) by (simp add: mask_eq_exp_minus_1)
  have um: "unat (mask k :: u64) = 2 ^ k - 1"
  proof -
    have "unat (word_of_nat (mask k) :: u64) = take_bit LENGTH(64) (mask k)" by (simp only: unsigned_of_nat) simp
    then have "unat (mask k :: u64) = mask k" using assms(2) by (simp only: of_nat_mask_eq) simp
    also have "\<dots> = 2 ^ k - 1" by (rule mask_eq_exp_minus_1)
    finally show ?thesis .
  qed
  have pos: "(0 :: nat) < 2 ^ k" by simp
  then have lt: "unat sz + unat (mask k :: u64) < 2 ^ LENGTH(64)" using um assms(3) by (simp add: less_le_trans)
  let ?n = "unat sz + (2 ^ k - 1)"
  have "unat (sz + mask k) = ?n" using unat_add_lem [THEN iffD1, OF lt] um by simp
  then have "unat (alignToPage Y sz) = ?n div 2 ^ k * 2 ^ k"
    using m by (simp add: alignToPage_def unat_and_not_mask flip: add_diff_eq)
  moreover have "?n div 2 ^ k * 2 ^ k + ?n mod 2 ^ k = ?n" by (rule div_mult_mod_eq)
  moreover have "?n mod 2 ^ k < 2 ^ k" by simp
  ultimately show ?thesis using pos by (intro conjI) (simp, linarith+)
qed

theorem alignToPage_correct_witness:
  "2 ^ 12 dvd unat (alignToPage sample_sys 5000) \<and> unat (5000 :: u64) \<le> unat (alignToPage sample_sys 5000)
    \<and> unat (alignToPage sample_sys 5000) < unat (5000 :: u64) + 2 ^ 12"
  by (rule alignToPage_correct) (simp_all add: sample_sys_def)

text \<open>
  On a well-formed list \<^verbatim>\<open>LorieBufferList_findById\<close> ends and returns the first buffer with the
  given id, and \<^verbatim>\<open>LorieBufferList_first\<close> the first buffer.
\<close>

theorem find_by_id_correct:
  assumes "ring (link S) list ps"
  shows "LorieBufferList_findById list i S = Some (find (\<lambda>p. map_option (bid \<circ> desc) (objs S p) = Some i) ps)
    \<and> LorieBufferList_first list (link S) = (case ps of [] \<Rightarrow> None | p # _ \<Rightarrow> Some p)"
  using find_in_ring [OF assms] xl.rep_is_empty [OF assms] assms
  by (cases ps) (auto simp: LorieBufferList_first_def xl.rep_first)

theorem find_by_id_correct_witness:
  "LorieBufferList_findById 64 3 sample_shared =
      Some (find (\<lambda>p. map_option (bid \<circ> desc) (objs sample_shared p) = Some 3) [])
    \<and> LorieBufferList_first 64 (link sample_shared) = (case [] of [] \<Rightarrow> None | p # _ \<Rightarrow> Some p)"
  by (rule find_by_id_correct) (simp add: ring_def sample_buffer_simps)

text \<open>
  \<^verbatim>\<open>LorieBuffer_addToList\<close> moves a buffer from the list it is in to the front of another and
  leaves a third list alone, so a buffer is never in two lists.
\<close>

theorem add_to_list_moves:
  assumes "ring L h xs" and "p \<in> set xs" and "ring L h' ys" and "ring L k zs" and "p \<noteq> 0" and "h' \<noteq> 0"
    and "insert h (set xs) \<inter> insert h' (set ys) = {}" and "insert h (set xs) \<inter> insert k (set zs) = {}"
    and "insert h' (set ys) \<inter> insert k (set zs) = {}"
  shows "ring (LorieBuffer_addToList p h' L) h (remove1 p xs) \<and> ring (LorieBuffer_addToList p h' L) h' (p # ys)
    \<and> ring (LorieBuffer_addToList p h' L) k zs"
  using xl.move [OF assms(1-3,7)] xl.move_frame [OF assms(1-4,7-9)] assms(5,6)
  by (simp add: LorieBuffer_addToList_def)

theorem add_to_list_moves_witness:
  "ring (LorieBuffer_addToList 5 2 (xorg_list_add 5 1 \<lparr>nxt = id, prv = id\<rparr>)) 1 (remove1 5 [5])
    \<and> ring (LorieBuffer_addToList 5 2 (xorg_list_add 5 1 \<lparr>nxt = id, prv = id\<rparr>)) 2 (5 # [])
    \<and> ring (LorieBuffer_addToList 5 2 (xorg_list_add 5 1 \<lparr>nxt = id, prv = id\<rparr>)) 3 []"
  by (rule add_to_list_moves) (simp_all add: ring_def xorg_list_defs)

section \<open>Further facts\<close>

theorem region_error_no_fallback:
  assumes "ASharedMemory_create Y < 0"
  shows "LorieBuffer_createRegion Y W = (ASharedMemory_create Y, W)"
  using assms by (simp add: LorieBuffer_createRegion_def Let_def)

theorem wrap_fd_balanced:
  assumes "acceptable w h f" and "LorieBuffer_wrapFileDescriptor Y w s h f fd off S = (r, S')"
  shows "case r of None \<Rightarrow> own S' = own S
    | Some p \<Rightarrow> \<exists>T. LorieBuffer_release p S' = Some T \<and> own T = own S \<and> objs T p = None"
  using assms
  by (auto simp: LorieBuffer_wrapFileDescriptor_def allocate_def Let_def LorieBuffer_release_def LorieBuffer_free_def
      store_buffer_def new_buffer_def buffer_consts split: if_splits)

theorem received_buffer_keeps_sender_state:
  assumes "socketFd \<ge> 0" and "read_struct Y = Some b" and "btype (desc b) = LORIEBUFFER_REGULAR" and "calloc_buffer Y \<noteq> 0"
  shows "\<exists>S'. LorieBuffer_recvHandleFromUnixSocket Y socketFd True S = (Some (calloc_buffer Y), S')
    \<and> map_option refcount (objs S' (calloc_buffer Y)) = Some (refcount b)
    \<and> map_option lockedData (objs S' (calloc_buffer Y)) = Some (lockedData b)"
  using assms by (simp add: LorieBuffer_recvHandleFromUnixSocket_def Let_def store_buffer_def buffer_consts)

theorem shared_fd_buffer_received:
  assumes "LorieBuffer_sendHandleToUnixSocket (Some b) sfd = BufferBytes b # rest" and "btype (desc b) = LORIEBUFFER_FD"
    and "socketFd \<ge> 0" and "read_struct Y = Some b" and "ancil_recv_fd Y \<ge> 0"
    and "mmap_ret Y \<noteq> 0" and "mmap_ret Y \<noteq> MAP_FAILED" and "calloc_buffer Y \<noteq> 0"
  shows "rest = [FdMessage (bfd b)] \<and> (\<exists>S' c. LorieBuffer_recvHandleFromUnixSocket Y socketFd True S = (Some (calloc_buffer Y), S')
    \<and> objs S' (calloc_buffer Y) = Some c \<and> (desc c)\<lparr>data := data (desc b)\<rparr> = desc b \<and> bfd c = ancil_recv_fd Y
    \<and> data (desc c) = mmap_ret Y \<and> ring (link S') (calloc_buffer Y) [])"
  using assms
  by (auto simp: LorieBuffer_recvHandleFromUnixSocket_def LorieBuffer_sendHandleToUnixSocket_def Let_def store_buffer_def
      ring_init buffer_consts split: if_splits)

theorem discarded_fd_buffer_leaks_mapping:
  assumes "socketFd \<ge> 0" and "read_struct Y = Some b" and "btype (desc b) = LORIEBUFFER_FD" and "hwbuf (desc b) = 0"
    and "ancil_recv_fd Y \<ge> 0" and "mmap_ret Y \<noteq> 0" and "mmap_ret Y \<noteq> MAP_FAILED"
  shows "\<exists>S'. LorieBuffer_recvHandleFromUnixSocket Y socketFd False S = (None, S')
    \<and> own S' = (own S)\<lparr>mappings := (mmap_ret Y, pixel_bytes (stride (desc b)) (height (desc b))) # mappings (own S)\<rparr>"
  using assms by (simp add: LorieBuffer_recvHandleFromUnixSocket_def Let_def ledger_defs)

end
