(* ===== verification/Lorie_Pixmap.thy ===== *)
theory Lorie_Pixmap
  imports Lorie_Buffer Lorie_Wire
begin

text \<open>
  Pixmaps of the EXA driver in \<^verbatim>\<open>lorie/InitOutput.c\<close>: each pixmap has a private record with the buffer that holds
  its pixels. Creating, destroying and importing pixmaps, the access bracket around drawing, the
  change of the root pixmap and the flip of a pixmap to the screen, on the buffers of
  \<^verbatim>\<open>Lorie_Buffer\<close> with their ledger of resources.
\<close>

section \<open>State\<close>

record LoriePixmapPriv =
  pbuffer :: addr
  flipped :: bool
  wasLocked :: bool
  imported :: bool
  plocked :: addr
  pmem :: addr

definition zero_priv :: LoriePixmapPriv where
  "zero_priv = \<lparr>pbuffer = 0, flipped = False, wasLocked = False, imported = False, plocked = 0, pmem = 0\<rparr>"

text \<open>\<open>screen_mutex\<close> counts how often the server holds the recursive mutex of the shared state.\<close>

record pixstate =
  bufs :: bstate
  registered :: "u64 list"
  sent :: bytes
  screen_mutex :: nat

record root_info =
  root_width :: int
  root_height :: int
  legacyDrawing :: bool
  root_flip :: bool

definition with_bufs :: "bstate \<Rightarrow> pixstate \<Rightarrow> pixstate" where
  "with_bufs B S = S\<lparr>bufs := B\<rparr>"

text \<open>\<^verbatim>\<open>LorieBuffer_lock\<close> and \<^verbatim>\<open>LorieBuffer_unlock\<close> on a buffer in memory.\<close>

definition object :: "addr \<Rightarrow> bstate \<Rightarrow> LorieBuffer option" where
  "object p B = (if p = 0 then None else objs B p)"

definition lock_object :: "sys \<Rightarrow> addr \<Rightarrow> bstate \<Rightarrow> int \<times> addr option \<times> bstate" where
  "lock_object Y p B = (case LorieBuffer_lock Y (object p B) of
       (r, out, None) \<Rightarrow> (r, out, B)
     | (r, out, Some b) \<Rightarrow> (r, out, B\<lparr>objs := (objs B)(p \<mapsto> b)\<rparr>))"

definition unlock_object :: "sys \<Rightarrow> addr \<Rightarrow> bstate \<Rightarrow> int \<times> bstate" where
  "unlock_object Y p B = (case LorieBuffer_unlock Y (object p B) of
       (r, None) \<Rightarrow> (r, B)
     | (r, Some b) \<Rightarrow> (r, B\<lparr>objs := (objs B)(p \<mapsto> b)\<rparr>))"

definition out_ptr :: "addr option \<Rightarrow> addr \<Rightarrow> addr" where
  "out_ptr out old = (case out of None \<Rightarrow> old | Some a \<Rightarrow> a)"

section \<open>Creating and destroying\<close>

definition buffer_type :: "root_info \<Rightarrow> bool \<Rightarrow> u8" where
  "buffer_type R backed =
     (if \<not> backed then LORIEBUFFER_REGULAR
      else if legacyDrawing R then LORIEBUFFER_FD else LORIEBUFFER_AHARDWAREBUFFER)"

definition buffer_format :: "root_info \<Rightarrow> u8" where
  "buffer_format R = (if root_flip R then AHARDWAREBUFFER_FORMAT_R8G8B8X8_UNORM else AHARDWAREBUFFER_FORMAT_B8G8R8A8_UNORM)"

text \<open>\<open>a\<close> is the answer of \<^verbatim>\<open>calloc\<close> for the private record. The result is the record with its pitch, or \<open>None\<close>.\<close>

definition lorieCreatePixmap ::
  "sys \<Rightarrow> root_info \<Rightarrow> addr \<Rightarrow> int \<Rightarrow> int \<Rightarrow> bool \<Rightarrow> bstate \<Rightarrow> (LoriePixmapPriv \<times> int) option \<times> bstate" where
  "lorieCreatePixmap Y R a w h backed B =
     (if a = 0 then (None, B)
      else
        let B1 = B\<lparr>own := gain_block a (own B)\<rparr> in
        if w = 0 \<or> h = 0 then (Some (zero_priv, 0), B1)
        else
          case LorieBuffer_allocate Y w h (buffer_format R) (buffer_type R backed) B1 of
            (None, B2) \<Rightarrow> (None, B2\<lparr>own := free_block a (own B2)\<rparr>)
          | (Some p, B2) \<Rightarrow>
              let pitch = (case LorieBuffer_description p B2 of None \<Rightarrow> 0 | Some d \<Rightarrow> stride d * 4) in
              case lock_object Y p B2 of (r, out, B3) \<Rightarrow>
                (Some (zero_priv\<lparr>pbuffer := p, plocked := out_ptr out 0\<rparr>, pitch), B3))"

definition lorieExaDestroyPixmap ::
  "sys \<Rightarrow> bool \<Rightarrow> addr \<Rightarrow> LoriePixmapPriv \<Rightarrow> pixstate \<Rightarrow> pixstate option" where
  "lorieExaDestroyPixmap Y conn a priv S =
     Option.bind
       (if pbuffer priv \<noteq> 0 then
          let B1 = (if plocked priv \<noteq> 0 then snd (unlock_object Y (pbuffer priv) (bufs S)) else bufs S) in
          Option.bind (LorieBuffer_description (pbuffer priv) B1) (\<lambda>d.
            case lorieUnregisterBuffer conn (bid d) (registered S) of (msg, reg) \<Rightarrow>
              Option.bind (LorieBuffer_release (pbuffer priv) B1) (\<lambda>B2.
                Some (S\<lparr>bufs := B2, registered := reg, sent := sent S @ msg\<rparr>)))
        else Some S)
       (\<lambda>S'. Some (S'\<lparr>bufs := (bufs S')\<lparr>own := free_block a (own (bufs S'))\<rparr>\<rparr>))"

section \<open>The access bracket\<close>

text \<open>\<open>dest\<close>: the access is for drawing and the pixmap is the screen pixmap. The result of \<^verbatim>\<open>PrepareAccess\<close> is the
  pointer to draw through, or \<open>None\<close> for \<^verbatim>\<open>FALSE\<close>.\<close>

definition loriePrepareAccess ::
  "sys \<Rightarrow> bool \<Rightarrow> LoriePixmapPriv \<Rightarrow> pixstate \<Rightarrow> addr option \<times> LoriePixmapPriv \<times> pixstate" where
  "loriePrepareAccess Y dest priv S =
     (let S1 = (if dest then S\<lparr>screen_mutex := screen_mutex S + 1\<rparr> else S) in
      if plocked priv = 0 \<and> pmem priv = 0 then
        case lock_object Y (pbuffer priv) (bufs S1) of (err, out, B) \<Rightarrow>
          let priv' = priv\<lparr>plocked := out_ptr out (plocked priv)\<rparr>; S2 = S1\<lparr>bufs := B\<rparr> in
          if err \<noteq> 0 then (None, priv', S2)
          else
            let priv'' = priv'\<lparr>wasLocked := False\<rparr>
            in (Some (if plocked priv'' \<noteq> 0 then plocked priv'' else pmem priv''), priv'', S2)
      else
        let priv' = priv\<lparr>wasLocked := True\<rparr>
        in (Some (if plocked priv' \<noteq> 0 then plocked priv' else pmem priv'), priv', S1))"

definition lorieFinishAccess :: "sys \<Rightarrow> bool \<Rightarrow> LoriePixmapPriv \<Rightarrow> pixstate \<Rightarrow> LoriePixmapPriv \<times> pixstate" where
  "lorieFinishAccess Y dest priv S =
     (let S1 = (if dest then S\<lparr>screen_mutex := screen_mutex S - 1\<rparr> else S) in
      if \<not> wasLocked priv then
        (priv\<lparr>plocked := 0, wasLocked := False\<rparr>, S1\<lparr>bufs := snd (unlock_object Y (pbuffer priv) (bufs S1))\<rparr>)
      else (priv, S1))"

definition lorieModifyPixmapHeader :: "addr \<Rightarrow> LoriePixmapPriv \<Rightarrow> LoriePixmapPriv" where
  "lorieModifyPixmapHeader ptr priv = (if ptr \<noteq> 0 then priv\<lparr>pmem := ptr\<rparr> else priv)"

section \<open>The pixmap of the root window\<close>

definition unlock_old :: "sys \<Rightarrow> LoriePixmapPriv \<Rightarrow> bstate \<Rightarrow> LoriePixmapPriv \<times> bstate" where
  "unlock_old Y old B =
     (if pbuffer old \<noteq> 0 \<and> plocked old \<noteq> 0
      then (old\<lparr>plocked := 0, wasLocked := False\<rparr>, snd (unlock_object Y (pbuffer old) B))
      else (old, B))"

definition lock_new :: "sys \<Rightarrow> LoriePixmapPriv \<Rightarrow> bstate \<Rightarrow> LoriePixmapPriv \<times> bstate" where
  "lock_new Y new B =
     (if pbuffer new \<noteq> 0 \<and> plocked new = 0
      then case lock_object Y (pbuffer new) B of (r, out, B') \<Rightarrow> (new\<lparr>plocked := out_ptr out 0, wasLocked := False\<rparr>, B')
      else (new, B))"

text \<open>Setting another pixmap on the root window.\<close>

definition lorieSetWindowPixmap ::
  "sys \<Rightarrow> LoriePixmapPriv \<Rightarrow> LoriePixmapPriv \<Rightarrow> bstate \<Rightarrow> LoriePixmapPriv \<times> LoriePixmapPriv \<times> bstate" where
  "lorieSetWindowPixmap Y old new B =
     (case unlock_old Y old B of (old', B1) \<Rightarrow> case lock_new Y new B1 of (new', B2) \<Rightarrow> (old', new', B2))"

section \<open>Flips\<close>

text \<open>\<open>None\<close> is an access to a buffer that does not exist. An ordinary buffer is converted before the flip.\<close>

definition flip_convert :: "sys \<Rightarrow> root_info \<Rightarrow> LoriePixmapPriv \<Rightarrow> pixstate \<Rightarrow> (LoriePixmapPriv \<times> pixstate) option" where
  "flip_convert Y R priv S =
     Option.bind (LorieBuffer_convert Y (pbuffer priv) (buffer_type R True) (buffer_format R) (bufs S)) (\<lambda>B1.
     Option.bind (LorieBuffer_description (pbuffer priv) B1) (\<lambda>d1.
       if btype d1 \<noteq> LORIEBUFFER_REGULAR
       then case lock_object Y (pbuffer priv) B1 of (r, out, B2) \<Rightarrow>
              Some (priv\<lparr>plocked := out_ptr out (plocked priv)\<rparr>, S\<lparr>bufs := B2\<rparr>)
       else Some (priv, S\<lparr>bufs := B1\<rparr>)))"

definition flip_register :: "bool \<Rightarrow> bytes \<Rightarrow> LoriePixmapPriv \<Rightarrow> pixstate \<Rightarrow> (bool \<times> LoriePixmapPriv \<times> pixstate) option" where
  "flip_register conn handle priv S =
     Option.bind (LorieBuffer_description (pbuffer priv) (bufs S)) (\<lambda>d.
       if btype d \<noteq> LORIEBUFFER_FD \<and> btype d \<noteq> LORIEBUFFER_AHARDWAREBUFFER then Some (False, priv, S)
       else case lorieRegisterBuffer conn (bid d) handle (registered S) of (msg, reg) \<Rightarrow>
         Some (True, priv, S\<lparr>registered := reg, sent := sent S @ msg\<rparr>))"

definition loriePresentFlip ::
  "sys \<Rightarrow> root_info \<Rightarrow> bool \<Rightarrow> bytes \<Rightarrow> bool \<Rightarrow> int \<Rightarrow> int \<Rightarrow> LoriePixmapPriv \<Rightarrow> pixstate \<Rightarrow> (bool \<times> LoriePixmapPriv \<times> pixstate) option" where
  "loriePresentFlip Y R conn handle forceFlip pw ph priv S =
     (if pbuffer priv = 0 \<or> pmem priv \<noteq> 0 \<or> root_width R \<noteq> pw \<or> root_width R \<noteq> ph then Some (False, priv, S)
      else Option.bind (LorieBuffer_description (pbuffer priv) (bufs S)) (\<lambda>d.
        if btype d = LORIEBUFFER_FD \<and> imported priv \<and> \<not> forceFlip then Some (False, priv, S)
        else Option.bind (if btype d = LORIEBUFFER_REGULAR then flip_convert Y R priv S else Some (priv, S)) (\<lambda>(priv1, S1). flip_register conn handle priv1 S1)))"

section \<open>Imported pixmaps\<close>

definition RAW_MMAPPABLE_FD :: u64 where "RAW_MMAPPABLE_FD = 1274"
definition AHARDWAREBUFFER_SOCKET_FD :: u64 where "AHARDWAREBUFFER_SOCKET_FD = 1255"
definition AHARDWAREBUFFER_FLIPPED_SOCKET_FD :: u64 where "AHARDWAREBUFFER_FLIPPED_SOCKET_FD = 1256"
definition DRM_FORMAT_MOD_INVALID :: u64 where "DRM_FORMAT_MOD_INVALID = 0x00ffffffffffffff"

record import_world =
  fd_is_socket :: "bool option"
  write_ok :: bool
  received_ahb :: "addr option"

text \<open>The hardware buffer received from the client, with the reference it brings; \<open>None\<close> after a failed test.\<close>

definition receive_ahb :: "import_world \<Rightarrow> bstate \<Rightarrow> addr option \<times> bstate" where
  "receive_ahb I B =
     (if fd_is_socket I \<noteq> Some True \<or> \<not> write_ok I then (None, B)
      else case received_ahb I of
        None \<Rightarrow> (None, B)
      | Some b \<Rightarrow> if b = 0 then (None, B) else (Some b, B\<lparr>own := gain_ahb b (own B)\<rparr>))"

definition importable_format :: "u8 \<Rightarrow> bool" where
  "importable_format f \<longleftrightarrow> f = AHARDWAREBUFFER_FORMAT_R8G8B8X8_UNORM \<or> f = 1 \<or> f = AHARDWAREBUFFER_FORMAT_B8G8R8A8_UNORM"

definition destroy_import :: "sys \<Rightarrow> bool \<Rightarrow> addr \<Rightarrow> LoriePixmapPriv \<Rightarrow> pixstate \<Rightarrow> pixstate" where
  "destroy_import Y conn a priv S =
     (case lorieExaDestroyPixmap Y conn a priv S of None \<Rightarrow> S | Some S' \<Rightarrow> S')"

definition loriePixmapFromFds ::
  "sys \<Rightarrow> root_info \<Rightarrow> import_world \<Rightarrow> bool \<Rightarrow> addr \<Rightarrow> nat \<Rightarrow> int \<Rightarrow> int \<Rightarrow> int \<Rightarrow> int \<Rightarrow> int \<Rightarrow> u64 \<Rightarrow> pixstate \<Rightarrow>
     LoriePixmapPriv option \<times> pixstate" where
  "loriePixmapFromFds Y R I conn a num_fds fd w h stride0 offset0 modifier S =
     (if num_fds > 1 then (None, S)
      else if modifier \<noteq> RAW_MMAPPABLE_FD \<and> modifier \<noteq> AHARDWAREBUFFER_SOCKET_FD \<and>
              modifier \<noteq> AHARDWAREBUFFER_FLIPPED_SOCKET_FD \<and> modifier \<noteq> DRM_FORMAT_MOD_INVALID then (None, S)
      else case lorieCreatePixmap Y R a 0 0 False (bufs S) of
        (None, B) \<Rightarrow> (None, S\<lparr>bufs := B\<rparr>)
      | (Some (priv0, _), B) \<Rightarrow>
          let priv = priv0\<lparr>imported := True\<rparr>; S1 = S\<lparr>bufs := B\<rparr> in
          if modifier = DRM_FORMAT_MOD_INVALID \<or> modifier = RAW_MMAPPABLE_FD then
            case LorieBuffer_wrapFileDescriptor Y w (stride0 div 4) h AHARDWAREBUFFER_FORMAT_B8G8R8A8_UNORM fd offset0 (bufs S1) of
              (None, B1) \<Rightarrow> (None, destroy_import Y conn a priv (S1\<lparr>bufs := B1\<rparr>))
            | (Some p, B1) \<Rightarrow> (Some (priv\<lparr>pbuffer := p\<rparr>), S1\<lparr>bufs := B1\<rparr>)
          else
            let priv = priv\<lparr>flipped := (modifier = AHARDWAREBUFFER_FLIPPED_SOCKET_FD)\<rparr> in
            case receive_ahb I (bufs S1) of
              (None, B1) \<Rightarrow> (None, destroy_import Y conn a priv (S1\<lparr>bufs := B1\<rparr>))
            | (Some b, B1) \<Rightarrow>
                if \<not> importable_format (ahb_format (ahb_describe Y b))
                then (None, destroy_import Y conn a priv (S1\<lparr>bufs := B1\<rparr>))
                else case LorieBuffer_wrapAHardwareBuffer Y b B1 of
                  (None, B2) \<Rightarrow> (None, destroy_import Y conn a priv (S1\<lparr>bufs := B2\<rparr>))
                | (Some p, B2) \<Rightarrow> (Some (priv\<lparr>pbuffer := p\<rparr>), S1\<lparr>bufs := B2\<rparr>))"

section \<open>Lemmas: locks do not touch ownership\<close>

lemma lock_object_shape:
  assumes "object p B = Some b"
  shows "\<exists>r out x y. lock_object Y p B = (r, out, B\<lparr>objs := (objs B)(p \<mapsto> b\<lparr>lockedData := y, locked := x\<rparr>)\<rparr>)"
proof -
  have "\<exists>r out x y. LorieBuffer_lock Y (Some b) = (r, out, Some (b\<lparr>lockedData := y, locked := x\<rparr>))"
    by (cases b) (auto simp: LorieBuffer_lock_def Let_def)
  then show ?thesis using assms by (auto simp: lock_object_def) blast
qed

lemma unlock_object_shape:
  assumes "object p B = Some b"
  shows "\<exists>r x y. unlock_object Y p B = (r, B\<lparr>objs := (objs B)(p \<mapsto> b\<lparr>lockedData := y, locked := x\<rparr>)\<rparr>)"
proof -
  have "\<exists>r x y. LorieBuffer_unlock Y (Some b) = (r, Some (b\<lparr>lockedData := y, locked := x\<rparr>))"
    by (cases b) (auto simp: LorieBuffer_unlock_def)
  then show ?thesis using assms by (auto simp: unlock_object_def) blast
qed

lemma release_ignores_lock:
  assumes "refcount b = 1" and "p \<noteq> 0" and "objs B p = Some b"
  shows "LorieBuffer_release p (B\<lparr>objs := (objs B)(p \<mapsto> b\<lparr>lockedData := y, locked := x\<rparr>)\<rparr>) = LorieBuffer_release p B"
  using assms by (simp add: LorieBuffer_release_def LorieBuffer_free_def Let_def)

lemma flip_convert_same: "flip_convert Y R priv S = Some (priv', S') \<Longrightarrow> pbuffer priv' = pbuffer priv"
  by (auto simp: flip_convert_def bind_eq_Some_conv split: if_splits prod.splits)

lemma flip_register_ok:
  assumes "flip_register conn handle priv S = Some (True, priv', S')"
  shows "\<exists>d. LorieBuffer_description (pbuffer priv) (bufs S') = Some d \<and> priv' = priv
    \<and> (btype d = LORIEBUFFER_FD \<or> btype d = LORIEBUFFER_AHARDWAREBUFFER) \<and> (conn \<longrightarrow> bid d \<in> set (registered S'))"
  using assms
  by (auto simp: flip_register_def bind_eq_Some_conv case_prod_beta lorieRegisterBuffer_def split: if_splits)

lemma lock_then_unlock:
  assumes "\<not> locked b" and "lockedData b = 0"
  shows "\<exists>r out c. LorieBuffer_lock Y (Some b) = (r, out, Some c) \<and> locked c \<and> c\<lparr>lockedData := 0, locked := False\<rparr> = b"
  using assms by (cases b) (auto simp: LorieBuffer_lock_def Let_def)

lemma object_live [simp]: "p \<noteq> 0 \<Longrightarrow> object p B = objs B p"
  by (simp add: object_def)

text \<open>The last reference of a live buffer is released the same way whether or not the pixmap has it locked.\<close>

lemma destroy_live:
  assumes "pbuffer priv \<noteq> 0" and "objs (bufs S) (pbuffer priv) = Some b" and "refcount b = 1"
    and "LorieBuffer_release (pbuffer priv) (bufs S) = Some B"
  shows "\<exists>T. lorieExaDestroyPixmap Y conn a priv S = Some T
    \<and> bufs T = B\<lparr>own := free_block a (own B)\<rparr> \<and> screen_mutex T = screen_mutex S
    \<and> registered T = snd (lorieUnregisterBuffer conn (bid (desc b)) (registered S))"
proof (cases "plocked priv = 0")
  case True
  then show ?thesis using assms by (simp add: lorieExaDestroyPixmap_def LorieBuffer_description_def split: prod.split)
next
  case False
  obtain r x y where u: "unlock_object Y (pbuffer priv) (bufs S) =
      (r, (bufs S)\<lparr>objs := (objs (bufs S))(pbuffer priv \<mapsto> b\<lparr>lockedData := y, locked := x\<rparr>)\<rparr>)"
    using unlock_object_shape [of "pbuffer priv" "bufs S" b Y] assms(1,2) by auto
  show ?thesis using assms False release_ignores_lock [OF assms(3,1,2), where x = x and y = y]
    by (simp add: lorieExaDestroyPixmap_def u LorieBuffer_description_def split: prod.split)
qed

lemma destroy_empty:
  "pbuffer priv = 0 \<Longrightarrow>
    lorieExaDestroyPixmap Y conn a priv S = Some (S\<lparr>bufs := (bufs S)\<lparr>own := free_block a (own (bufs S))\<rparr>\<rparr>)"
  by (simp add: lorieExaDestroyPixmap_def)

lemma created_buffer_live:
  assumes "LorieBuffer_allocate Y w h f ty B = (Some p, B')"
  shows "p \<noteq> 0 \<and> (\<exists>b. objs B' p = Some b \<and> refcount b = 1 \<and> \<not> locked b \<and> lockedData b = 0)"
  using assms
  by (auto simp: LorieBuffer_allocate_def allocate_def Let_def store_buffer_def new_buffer_def split: if_splits prod.splits)

section \<open>Properties\<close>

definition sample_pixstate :: pixstate where
  "sample_pixstate = \<lparr>bufs = sample_bstate, registered = [], sent = [], screen_mutex = 0\<rparr>"

definition sample_root :: root_info where
  "sample_root = \<lparr>root_width = 1280, root_height = 720, legacyDrawing = True, root_flip = False\<rparr>"

lemmas sample_pixmap_simps = sample_pixstate_def sample_root_def sample_buffer_simps

text \<open>
  C24. Creating a pixmap and destroying it leaves the process with the descriptors, mappings, heap
  blocks and hardware buffer references it had before, for every kind of buffer behind the pixmap,
  and with the screen mutex as it was.
\<close>

theorem pixmap_create_destroy_balanced:
  assumes "lorieCreatePixmap Y R a w h backed (bufs S) = (Some (priv, pitch), B)" and "ASharedMemory_create Y \<noteq> 0"
  shows "\<exists>T. lorieExaDestroyPixmap Y conn a priv (S\<lparr>bufs := B\<rparr>) = Some T \<and> own (bufs T) = own (bufs S)
    \<and> (pbuffer priv \<noteq> 0 \<longrightarrow> objs (bufs T) (pbuffer priv) = None) \<and> screen_mutex T = screen_mutex S"
proof -
  let ?B1 = "(bufs S)\<lparr>own := gain_block a (own (bufs S))\<rparr>"
  have a: "a \<noteq> 0" using assms(1) by (intro notI) (simp add: lorieCreatePixmap_def)
  show ?thesis
  proof (cases "w = 0 \<or> h = 0")
    case True
    then have "priv = zero_priv" "B = ?B1" using assms(1) a by (auto simp: lorieCreatePixmap_def)
    then show ?thesis using a by (simp add: destroy_empty zero_priv_def)
  next
    case False
    then obtain p B2 where al: "LorieBuffer_allocate Y w h (buffer_format R) (buffer_type R backed) ?B1 = (Some p, B2)"
      and l: "pbuffer priv = p" "B = snd (snd (lock_object Y p B2))"
      using assms(1) a by (auto simp: lorieCreatePixmap_def zero_priv_def split: prod.splits option.splits)
    obtain b where b: "p \<noteq> 0" "objs B2 p = Some b" "refcount b = 1" using created_buffer_live [OF al] by blast
    obtain x y where B: "B = B2\<lparr>objs := (objs B2)(p \<mapsto> b\<lparr>lockedData := y, locked := x\<rparr>)\<rparr>"
      using lock_object_shape [of p B2 b Y] b l(2) by auto
    obtain T where T: "LorieBuffer_release p B2 = Some T" "own T = own ?B1" "objs T p = None"
      using allocate_then_release [OF al assms(2)] by blast
    have rel: "LorieBuffer_release p B = Some T" using release_ignores_lock [OF b(3,1,2)] T(1) by (simp add: B)
    show ?thesis
      using destroy_live [of priv "S\<lparr>bufs := B\<rparr>" "b\<lparr>lockedData := y, locked := x\<rparr>" T Y conn a] b l(1) rel T(2,3) a
      by (auto simp: B)
  qed
qed

theorem pixmap_create_destroy_balanced_witness:
  "\<exists>T. lorieExaDestroyPixmap sample_sys True 8 (fst (the (fst (lorieCreatePixmap sample_sys sample_root 8 2 1 True (bufs sample_pixstate)))))
      (sample_pixstate\<lparr>bufs := snd (lorieCreatePixmap sample_sys sample_root 8 2 1 True (bufs sample_pixstate))\<rparr>) = Some T
    \<and> own (bufs T) = own (bufs sample_pixstate) \<and> screen_mutex T = screen_mutex sample_pixstate"
proof -
  have "fst (lorieCreatePixmap sample_sys sample_root 8 2 1 True (bufs sample_pixstate)) \<noteq> None"
    by (simp add: lorieCreatePixmap_def buffer_type_def buffer_format_def LorieBuffer_allocate_def allocate_def
        LorieBuffer_createRegion_def Let_def acceptable_def buffer_consts MAP_FAILED_def sample_pixmap_simps split: prod.split)
  then obtain priv pitch B where c: "lorieCreatePixmap sample_sys sample_root 8 2 1 True (bufs sample_pixstate) = (Some (priv, pitch), B)"
    by (metis prod.collapse option.collapse)
  have "ASharedMemory_create sample_sys \<noteq> 0" by (simp add: sample_pixmap_simps)
  then show ?thesis using pixmap_create_destroy_balanced [OF c, where conn = True] by (auto simp: c)
qed

text \<open>
  The access bracket: after \<^verbatim>\<open>PrepareAccess\<close> answered \<^verbatim>\<open>TRUE\<close>, \<^verbatim>\<open>FinishAccess\<close> restores the
  buffers, their locks and the screen mutex; the private record of the pixmap differs at most in \<^verbatim>\<open>wasLocked\<close>.
\<close>

theorem access_bracket_restores:
  assumes "loriePrepareAccess Y dest priv S = (Some q, priv', S')"
    and "plocked priv = 0 \<and> pmem priv = 0 \<longrightarrow>
      (\<exists>b. object (pbuffer priv) (bufs S) = Some b \<and> \<not> locked b \<and> lockedData b = 0)"
  shows "snd (lorieFinishAccess Y dest priv' S') = S
    \<and> (fst (lorieFinishAccess Y dest priv' S'))\<lparr>wasLocked := wasLocked priv\<rparr> = priv"
proof (cases "plocked priv = 0 \<and> pmem priv = 0")
  case False
  then show ?thesis using assms(1)
    by (auto simp: loriePrepareAccess_def lorieFinishAccess_def Let_def split: if_splits)
next
  case True
  then obtain b where b: "object (pbuffer priv) (bufs S) = Some b" "\<not> locked b" "lockedData b = 0" using assms(2) by blast
  then have nz: "pbuffer priv \<noteq> 0" "objs (bufs S) (pbuffer priv) = Some b" by (auto simp: object_def split: if_splits)
  obtain r out c where l: "LorieBuffer_lock Y (Some b) = (r, out, Some c)" "locked c" "c\<lparr>lockedData := 0, locked := False\<rparr> = b"
    using lock_then_unlock [OF b(2,3)] by blast
  have back_to: "(objs (bufs S))(pbuffer priv \<mapsto> b) = objs (bufs S)" using nz(2) by (rule map_upd_triv)
  show ?thesis using assms(1) True nz l back_to
    by (auto simp: loriePrepareAccess_def lorieFinishAccess_def lock_object_def unlock_object_def
        LorieBuffer_unlock_def Let_def split: if_splits)
qed

definition sample_priv :: LoriePixmapPriv where
  "sample_priv = zero_priv\<lparr>pbuffer := 64\<rparr>"

definition sample_drawn :: pixstate where
  "sample_drawn = sample_pixstate\<lparr>bufs := sample_shared\<rparr>"

lemmas sample_priv_simps = sample_priv_def sample_drawn_def zero_priv_def sample_pixmap_simps

theorem access_bracket_restores_witness:
  "fst (loriePrepareAccess sample_sys True sample_priv sample_drawn) = Some 32
    \<and> (\<exists>q priv' S'. loriePrepareAccess sample_sys True sample_priv sample_drawn = (Some q, priv', S')
        \<and> snd (lorieFinishAccess sample_sys True priv' S') = sample_drawn)"
proof -
  have f: "fst (loriePrepareAccess sample_sys True sample_priv sample_drawn) = Some 32"
    by (simp add: loriePrepareAccess_def lock_object_def LorieBuffer_lock_def out_ptr_def buffer_consts Let_def sample_priv_simps)
  then obtain priv' S' where p: "loriePrepareAccess sample_sys True sample_priv sample_drawn = (Some 32, priv', S')"
    by (metis prod.collapse)
  have "\<exists>b. object (pbuffer sample_priv) (bufs sample_drawn) = Some b \<and> \<not> locked b \<and> lockedData b = 0"
    by (simp add: sample_priv_simps)
  then show ?thesis using access_bracket_restores [OF p] f p by blast
qed

text \<open>
  When the lock of the buffer behind the screen pixmap fails, \<^verbatim>\<open>PrepareAccess\<close> answers \<^verbatim>\<open>FALSE\<close> and
  keeps the mutex of the shared state, which no later call gives back.
\<close>

theorem failed_access_keeps_mutex:
  assumes "plocked priv = 0" and "pmem priv = 0" and "fst (lock_object Y (pbuffer priv) (bufs S)) \<noteq> 0"
  shows "fst (loriePrepareAccess Y True priv S) = None
    \<and> screen_mutex (snd (snd (loriePrepareAccess Y True priv S))) = screen_mutex S + 1"
  using assms by (auto simp: loriePrepareAccess_def Let_def split: prod.split)

theorem failed_access_keeps_mutex_witness:
  "fst (loriePrepareAccess sample_sys True zero_priv sample_pixstate) = None
    \<and> screen_mutex (snd (snd (loriePrepareAccess sample_sys True zero_priv sample_pixstate))) = screen_mutex sample_pixstate + 1"
  by (rule failed_access_keeps_mutex) (simp_all add: zero_priv_def lock_object_def object_def LorieBuffer_lock_def ENODEV_def)

text \<open>
  On a screen whose width differs from its height no pixmap is ever flipped, the ones that cover
  the whole screen included: the width of the root is compared with the height of the pixmap.
\<close>

theorem flip_needs_square_screen:
  assumes "root_width R \<noteq> root_height R"
  shows "loriePresentFlip Y R conn handle force (root_width R) (root_height R) priv S = Some (False, priv, S)"
  using assms by (simp add: loriePresentFlip_def)

theorem flip_needs_square_screen_witness:
  "loriePresentFlip sample_sys sample_root True [] True (root_width sample_root) (root_height sample_root) sample_priv sample_drawn
    = Some (False, sample_priv, sample_drawn)"
  by (rule flip_needs_square_screen) (simp add: sample_root_def)

text \<open>
  A flip that is accepted has the pixmap's buffer registered with the activity, and the buffer is
  of a kind that can be passed to another process.
\<close>

theorem accepted_flip_is_shareable:
  assumes "loriePresentFlip Y R conn handle force pw ph priv S = Some (True, priv', S')"
  shows "\<exists>d. LorieBuffer_description (pbuffer priv') (bufs S') = Some d
    \<and> (btype d = LORIEBUFFER_FD \<or> btype d = LORIEBUFFER_AHARDWAREBUFFER)
    \<and> (conn \<longrightarrow> bid d \<in> set (registered S')) \<and> pbuffer priv' = pbuffer priv \<and> pbuffer priv \<noteq> 0"
proof -
  from assms have nz: "pbuffer priv \<noteq> 0" by (auto simp: loriePresentFlip_def split: if_splits)
  from assms obtain priv1 S1 where 1: "pbuffer priv1 = pbuffer priv" "flip_register conn handle priv1 S1 = Some (True, priv', S')"
    by (auto simp: loriePresentFlip_def bind_eq_Some_conv dest!: flip_convert_same split: if_splits)
  show ?thesis using flip_register_ok [OF 1(2)] nz 1(1) by auto
qed

theorem accepted_flip_is_shareable_witness:
  "\<exists>priv' S'. loriePresentFlip sample_sys (sample_root\<lparr>root_height := 1280\<rparr>) True [] False 1280 1280 sample_priv
      (sample_drawn\<lparr>bufs := sample_shared\<lparr>objs := [64 \<mapsto> sample_buffer\<lparr>desc := (desc sample_buffer)\<lparr>btype := LORIEBUFFER_FD\<rparr>\<rparr>]\<rparr>\<rparr>)
      = Some (True, priv', S')
    \<and> (\<exists>d. LorieBuffer_description (pbuffer priv') (bufs S') = Some d \<and> bid d \<in> set (registered S'))"
proof -
  let ?S = "sample_drawn\<lparr>bufs := sample_shared\<lparr>objs := [64 \<mapsto> sample_buffer\<lparr>desc := (desc sample_buffer)\<lparr>btype := LORIEBUFFER_FD\<rparr>\<rparr>]\<rparr>\<rparr>"
  let ?f = "loriePresentFlip sample_sys (sample_root\<lparr>root_height := 1280\<rparr>) True [] False 1280 1280 sample_priv ?S"
  obtain priv' S' where f: "?f = Some (True, priv', S')"
    by (simp add: loriePresentFlip_def flip_register_def LorieBuffer_description_def lorieRegisterBuffer_def buffer_consts sample_priv_simps)
  show ?thesis using f accepted_flip_is_shareable [OF f] by blast
qed

lemma set_window_pixmap_lock:
  assumes "object (pbuffer new) B = Some b" and "plocked new = 0"
  shows "\<exists>c. objs (snd (lock_new Y new B)) (pbuffer new) = Some c \<and> locked c
    \<and> (\<forall>p. p \<noteq> pbuffer new \<longrightarrow> objs (snd (lock_new Y new B)) p = objs B p)"
proof -
  have nz: "pbuffer new \<noteq> 0" "objs B (pbuffer new) = Some b" using assms(1) by (auto simp: object_def split: if_splits)
  have "\<exists>r out c. LorieBuffer_lock Y (Some b) = (r, out, Some c) \<and> locked c"
    by (auto simp: LorieBuffer_lock_def Let_def)
  then show ?thesis using nz assms(2) by (auto simp: lock_new_def lock_object_def)
qed

text \<open>
  When another pixmap becomes the pixmap of the root window, the buffer of the old one is left
  unlocked and unusable through its stale pointer, and the buffer of the new one locked.
\<close>

theorem root_pixmap_lock_moves:
  assumes "pbuffer old \<noteq> pbuffer new" and "plocked new = 0" and "plocked old \<noteq> 0"
    and "object (pbuffer old) B = Some bo" and "object (pbuffer new) B = Some bn"
    and "lorieSetWindowPixmap Y old new B = (old', new', B')"
  shows "plocked old' = 0 \<and> (\<exists>c. objs B' (pbuffer old) = Some c \<and> \<not> locked c)
    \<and> (\<exists>c. objs B' (pbuffer new) = Some c \<and> locked c)"
proof -
  have nz: "pbuffer old \<noteq> 0" "objs B (pbuffer old) = Some bo" "pbuffer new \<noteq> 0" "objs B (pbuffer new) = Some bn"
    using assms(4,5) by (auto simp: object_def split: if_splits)
  have u: "plocked (fst (unlock_old Y old B)) = 0" "objs (snd (unlock_old Y old B)) (pbuffer new) = Some bn"
    "\<exists>c. objs (snd (unlock_old Y old B)) (pbuffer old) = Some c \<and> \<not> locked c"
    using nz assms(1,3) by (auto simp: unlock_old_def unlock_object_def LorieBuffer_unlock_def)
  then have "object (pbuffer new) (snd (unlock_old Y old B)) = Some bn" using nz by simp
  from set_window_pixmap_lock [OF this assms(2), of Y] u assms(1,6)
  show ?thesis by (auto simp: lorieSetWindowPixmap_def case_prod_beta)
qed

theorem root_pixmap_lock_moves_witness:
  "\<exists>old' new' B'. lorieSetWindowPixmap sample_sys (zero_priv\<lparr>pbuffer := 64, plocked := 32\<rparr>) (zero_priv\<lparr>pbuffer := 65\<rparr>)
      (sample_shared\<lparr>objs := [64 \<mapsto> sample_buffer\<lparr>locked := True\<rparr>, 65 \<mapsto> sample_buffer]\<rparr>) = (old', new', B') \<and> plocked old' = 0"
proof -
  let ?B = "sample_shared\<lparr>objs := [64 \<mapsto> sample_buffer\<lparr>locked := True\<rparr>, 65 \<mapsto> sample_buffer]\<rparr>"
  obtain old' new' B' where l: "lorieSetWindowPixmap sample_sys (zero_priv\<lparr>pbuffer := 64, plocked := 32\<rparr>) (zero_priv\<lparr>pbuffer := 65\<rparr>) ?B = (old', new', B')"
    using prod_cases3 by blast
  show ?thesis
    using root_pixmap_lock_moves [OF _ _ _ _ _ l, of "sample_buffer\<lparr>locked := True\<rparr>" sample_buffer] l by (simp add: zero_priv_def)
qed

text \<open>
  Importing a file descriptor through DRI3 either fails and leaves nothing behind, or returns a
  pixmap whose destruction gives back all that the import acquired.
\<close>

theorem fd_import_balanced:
  assumes "loriePixmapFromFds Y R I conn a n fd w h st off m S = (r, S')"
    and "m = RAW_MMAPPABLE_FD \<or> m = DRM_FORMAT_MOD_INVALID" and "0 < w" and "0 < h"
  shows "case r of None \<Rightarrow> own (bufs S') = own (bufs S)
    | Some priv \<Rightarrow> \<exists>T. lorieExaDestroyPixmap Y conn a priv S' = Some T \<and> own (bufs T) = own (bufs S)"
proof -
  let ?B = "(bufs S)\<lparr>own := gain_block a (own (bufs S))\<rparr>"
  let ?wrap = "LorieBuffer_wrapFileDescriptor Y w (st div 4) h AHARDWAREBUFFER_FORMAT_B8G8R8A8_UNORM fd off ?B"
  have acc: "acceptable w h AHARDWAREBUFFER_FORMAT_B8G8R8A8_UNORM" using assms(3,4) by (simp add: acceptable_def)
  show ?thesis
  proof (cases "n > 1 \<or> a = 0")
    case True
    then have "loriePixmapFromFds Y R I conn a n fd w h st off m S = (None, S)"
      using assms(2) by (auto simp: loriePixmapFromFds_def lorieCreatePixmap_def)
    then show ?thesis using assms(1) by auto
  next
    case False
    then have go: "loriePixmapFromFds Y R I conn a n fd w h st off m S = (case ?wrap of
        (None, B1) \<Rightarrow> (None, destroy_import Y conn a (zero_priv\<lparr>imported := True\<rparr>) (S\<lparr>bufs := B1\<rparr>))
      | (Some p, B1) \<Rightarrow> (Some (zero_priv\<lparr>imported := True, pbuffer := p\<rparr>), S\<lparr>bufs := B1\<rparr>))"
      using assms(2) by (auto simp: loriePixmapFromFds_def lorieCreatePixmap_def zero_priv_def Let_def split: prod.split option.split)
    obtain q B1 where w: "?wrap = (q, B1)" by fastforce
    note bal = wrap_fd_balanced [OF acc w]
    show ?thesis
    proof (cases q)
      case None
      then show ?thesis using assms(1) go w bal False
        by (auto simp: destroy_import_def destroy_empty zero_priv_def)
    next
      case (Some p)
      obtain b where b: "p \<noteq> 0" "objs B1 p = Some b" "refcount b = 1"
        using w Some by (auto simp: LorieBuffer_wrapFileDescriptor_def allocate_def Let_def store_buffer_def new_buffer_def buffer_consts split: if_splits)
      obtain T where T: "LorieBuffer_release p B1 = Some T" "own T = gain_block a (own (bufs S))" using bal Some by auto
      have r: "r = Some (zero_priv\<lparr>imported := True, pbuffer := p\<rparr>)" "S' = S\<lparr>bufs := B1\<rparr>" using assms(1) go w Some by auto
      show ?thesis
        using destroy_live [of "zero_priv\<lparr>imported := True, pbuffer := p\<rparr>" "S\<lparr>bufs := B1\<rparr>" b T Y conn a] b T r False by auto
    qed
  qed
qed

definition sample_import :: import_world where
  "sample_import = \<lparr>fd_is_socket = Some True, write_ok = True, received_ahb = Some 96\<rparr>"

theorem fd_import_balanced_witness:
  "\<exists>priv S' T. loriePixmapFromFds sample_sys sample_root sample_import True 8 1 5 2 1 8 0 RAW_MMAPPABLE_FD sample_pixstate = (Some priv, S')
    \<and> lorieExaDestroyPixmap sample_sys True 8 priv S' = Some T \<and> own (bufs T) = own (bufs sample_pixstate)"
proof -
  let ?i = "loriePixmapFromFds sample_sys sample_root sample_import True 8 1 5 2 1 8 0 RAW_MMAPPABLE_FD sample_pixstate"
  have "fst ?i \<noteq> None"
    by (simp add: loriePixmapFromFds_def lorieCreatePixmap_def LorieBuffer_wrapFileDescriptor_def allocate_def acceptable_def
        MAP_FAILED_def buffer_consts Let_def sample_pixmap_simps)
  then obtain priv S' where i: "?i = (Some priv, S')" by (metis prod.collapse option.collapse)
  show ?thesis using fd_import_balanced [OF i] i by auto
qed

text \<open>
  A hardware buffer received from a client is dropped without being released when its format is
  not accepted: the import fails and the process keeps the reference.
\<close>

theorem rejected_import_leaks_reference:
  assumes "m = AHARDWAREBUFFER_SOCKET_FD \<or> m = AHARDWAREBUFFER_FLIPPED_SOCKET_FD" and "n \<le> 1" and "a \<noteq> 0"
    and "fd_is_socket I = Some True" and "write_ok I" and "received_ahb I = Some b" and "b \<noteq> 0"
    and "\<not> importable_format (ahb_format (ahb_describe Y b))"
  shows "fst (loriePixmapFromFds Y R I conn a n fd w h st off m S) = None
    \<and> ahb_refs (own (bufs (snd (loriePixmapFromFds Y R I conn a n fd w h st off m S)))) = b # ahb_refs (own (bufs S))"
  using assms
  by (auto simp: loriePixmapFromFds_def lorieCreatePixmap_def receive_ahb_def zero_priv_def destroy_import_def destroy_empty
      Let_def AHARDWAREBUFFER_SOCKET_FD_def AHARDWAREBUFFER_FLIPPED_SOCKET_FD_def RAW_MMAPPABLE_FD_def
      DRM_FORMAT_MOD_INVALID_def ledger_defs)

definition sample_yuv :: sys where
  "sample_yuv = sample_sys\<lparr>ahb_describe := (\<lambda>_. \<lparr>ahb_width = 1, ahb_height = 1, ahb_stride = 1, ahb_format = 35\<rparr>)\<rparr>"

theorem rejected_import_leaks_reference_witness:
  "fst (loriePixmapFromFds sample_yuv sample_root sample_import True 8 1 5 2 1 8 0 AHARDWAREBUFFER_SOCKET_FD sample_pixstate) = None
    \<and> ahb_refs (own (bufs (snd (loriePixmapFromFds sample_yuv sample_root sample_import True 8 1 5 2 1 8 0
        AHARDWAREBUFFER_SOCKET_FD sample_pixstate)))) = 96 # ahb_refs (own (bufs sample_pixstate))"
  by (rule rejected_import_leaks_reference) (simp_all add: sample_import_def sample_yuv_def importable_format_def buffer_consts)

end
