(* ===== verification/Lorie_Renderer.thy ===== *)
theory Lorie_Renderer
  imports "HOL-Library.Multiset" Lorie_Buffer
begin

text \<open>
  The renderer of the activity (\<^verbatim>\<open>lorie/renderer.c\<close>): the three lists of buffers that the socket thread and the
  renderer thread share, the output window, the shared state of the X server and one pass of the
  renderer thread. Sections under a lock are atomic; a loop over a list that leaves the list or does
  not end is \<open>None\<close>. What EGL answers is a record.
\<close>

section \<open>State\<close>

text \<open>The flags of \<^verbatim>\<open>lorie_shared_server_state\<close>.\<close>

record shared =
  rootWindowTextureID :: u64
  drawRequested :: bool
  surfaceAvailable :: bool
  waitForNextFrame :: bool
  renderedFrames :: int
  cursor_updated :: bool
  cursor_moved :: bool

definition addedBuffers :: addr where "addedBuffers = 1"
definition buffers :: addr where "buffers = 2"
definition removedBuffers :: addr where "removedBuffers = 3"

lemmas list_heads = addedBuffers_def buffers_def removedBuffers_def

text \<open>\<open>mapped\<close> and \<open>win_refs\<close> are the mappings and window references held; \<open>drawn\<close> lists the buffers that were drawn.\<close>

record renderer =
  rb :: bstate
  shm :: "addr \<Rightarrow> shared"
  mapped :: "addr list"
  state :: addr
  pendingState :: addr
  stateChanged :: bool
  windowChanged :: bool
  win :: addr
  pendingWin :: addr
  sfc :: addr
  win_refs :: "addr list"
  waitingForBuffers :: bool
  lastRequestedBufferId :: u64
  drawn :: "u64 list"

record egl_env =
  defaultWin :: addr
  defaultSfc :: addr
  makeCurrent_default :: bool
  destroySurface_ok :: bool
  win_width :: "addr \<Rightarrow> int"
  win_height :: "addr \<Rightarrow> int"
  createSurface :: addr
  makeCurrent_new :: bool
  gl_sys :: sys

definition set_shared :: "(shared \<Rightarrow> shared) \<Rightarrow> renderer \<Rightarrow> renderer" where
  "set_shared f R = (if state R = 0 then R else R\<lparr>shm := (shm R)(state R := f (shm R (state R)))\<rparr>)"

section \<open>Calls of the activity\<close>

text \<open>Both setters wait until the renderer thread has taken the change.\<close>

definition rendererSetSharedState :: "addr \<Rightarrow> renderer \<Rightarrow> renderer" where
  "rendererSetSharedState newState R =
     R\<lparr>pendingState := newState, stateChanged := True, mapped := (if newState = 0 then mapped R else newState # mapped R)\<rparr>"

definition rendererSetWindow :: "addr \<Rightarrow> renderer \<Rightarrow> renderer" where
  "rendererSetWindow newWin R =
     (let R1 = (if newWin = 0 then R else R\<lparr>win_refs := newWin # win_refs R\<rparr>) in
      if newWin \<noteq> 0 \<and> pendingWin R = newWin then R1\<lparr>win_refs := remove1 newWin (win_refs R1)\<rparr>
      else R1\<lparr>win_refs := (if pendingWin R \<noteq> 0 then remove1 (pendingWin R) (win_refs R1) else win_refs R1),
             pendingWin := newWin, windowChanged := True\<rparr>)"

definition rendererAddBuffer :: "addr \<Rightarrow> bstate \<Rightarrow> bstate" where
  "rendererAddBuffer buf B = B\<lparr>link := LorieBuffer_addToList buf addedBuffers (link B)\<rparr>"

definition to_removed :: "addr \<Rightarrow> bstate \<Rightarrow> bstate" where
  "to_removed buf B = B\<lparr>link := LorieBuffer_addToList buf removedBuffers (LorieBuffer_removeFromList buf (link B))\<rparr>"

definition rendererRemoveBuffer :: "u64 \<Rightarrow> bstate \<Rightarrow> bstate option" where
  "rendererRemoveBuffer i B =
     Option.bind (LorieBufferList_findById addedBuffers i B) (\<lambda>f. case f of
       Some buf \<Rightarrow> LorieBuffer_release buf B
     | None \<Rightarrow> Option.bind (LorieBufferList_findById buffers i B) (\<lambda>g. case g of
         Some buf \<Rightarrow> Some (to_removed buf B)
       | None \<Rightarrow> Some B))"

partial_function (option) release_loop :: "addr \<Rightarrow> bstate \<Rightarrow> bstate option" where
  "release_loop h B = (case LorieBufferList_first h (link B) of
       None \<Rightarrow> Some B
     | Some buf \<Rightarrow> Option.bind (LorieBuffer_release buf B) (release_loop h))"

partial_function (option) unlist_loop :: "bstate \<Rightarrow> bstate option" where
  "unlist_loop B = (case LorieBufferList_first buffers (link B) of
       None \<Rightarrow> Some B
     | Some buf \<Rightarrow> unlist_loop (to_removed buf B))"

definition rendererRemoveAllBuffers :: "bstate \<Rightarrow> bstate option" where
  "rendererRemoveAllBuffers B = Option.bind (release_loop addedBuffers B) unlist_loop"

section \<open>The output window\<close>

text \<open>\<open>None\<close>: EGL refused and the function returned early.\<close>

definition release_surface :: "egl_env \<Rightarrow> addr \<Rightarrow> addr option" where
  "release_surface G s =
     (if s \<noteq> 0 \<and> s \<noteq> defaultSfc G
      then if \<not> makeCurrent_default G \<or> \<not> destroySurface_ok G then None else Some (defaultSfc G)
      else Some s)"

definition release_win :: "egl_env \<Rightarrow> addr \<Rightarrow> addr list \<Rightarrow> addr \<times> addr list" where
  "release_win G w refs = (if w \<noteq> 0 \<and> w \<noteq> defaultWin G then (defaultWin G, remove1 w refs) else (w, refs))"

definition releaseWinAndSurface :: "egl_env \<Rightarrow> renderer \<Rightarrow> renderer" where
  "releaseWinAndSurface G R =
     (case release_surface G (sfc R) of
        None \<Rightarrow> R
      | Some s \<Rightarrow> case release_win G (win R) (win_refs R) of (w, refs) \<Rightarrow> R\<lparr>sfc := s, win := w, win_refs := refs\<rparr>)"

definition take_window :: "egl_env \<Rightarrow> renderer \<Rightarrow> renderer" where
  "take_window G R =
     (let w = (if pendingWin R \<noteq> 0 then win_width G (pendingWin R) else 0);
          h = (if pendingWin R \<noteq> 0 then win_height G (pendingWin R) else 0);
          R1 = releaseWinAndSurface G R;
          R2 = (if pendingWin R1 \<noteq> 0 \<and> (w \<le> 0 \<or> h \<le> 0)
                then case release_win G (pendingWin R1) (win_refs R1) of (pw, refs) \<Rightarrow> R1\<lparr>pendingWin := pw, win_refs := refs\<rparr>
                else R1)
      in R2\<lparr>win := pendingWin R2, pendingWin := 0, windowChanged := False\<rparr>)"

definition use_window :: "egl_env \<Rightarrow> renderer \<Rightarrow> renderer" where
  "use_window G R =
     (if win R = 0 then set_shared (\<lambda>s. s\<lparr>surfaceAvailable := False\<rparr>) (R\<lparr>win := defaultWin G\<rparr>)
      else
        let R' = R\<lparr>sfc := createSurface G\<rparr> in
        if createSurface G = 0 then R'
        else if \<not> makeCurrent_new G then set_shared (\<lambda>s. s\<lparr>surfaceAvailable := False\<rparr>) R'
        else
          let on = win R' \<noteq> defaultWin G
          in set_shared (\<lambda>s. s\<lparr>surfaceAvailable := on, drawRequested := on, cursor_updated := on\<rparr>) R')"

definition rendererRefreshContext :: "egl_env \<Rightarrow> renderer \<Rightarrow> renderer" where
  "rendererRefreshContext G R = use_window G (take_window G R)"

section \<open>Drawing\<close>

definition rendererRedrawLocked :: "renderer \<Rightarrow> renderer option" where
  "rendererRedrawLocked R =
     (let i = rootWindowTextureID (shm R (state R)) in
      Option.bind (LorieBufferList_findById buffers i (rb R)) (\<lambda>f.
      Option.bind (case f of Some buf \<Rightarrow> Some f | None \<Rightarrow> LorieBufferList_findById removedBuffers i (rb R)) (\<lambda>g.
        case g of
          None \<Rightarrow> Some (R\<lparr>waitingForBuffers := True\<rparr>)
        | Some buf \<Rightarrow>
            Some (set_shared (\<lambda>s. s\<lparr>drawRequested := False, cursor_updated := False, cursor_moved := False,
                waitForNextFrame := True, renderedFrames := renderedFrames s + 1\<rparr>) (R\<lparr>drawn := drawn R @ [i]\<rparr>)))))"

definition changes_wanted :: "shared \<Rightarrow> bool" where
  "changes_wanted s \<longleftrightarrow> drawRequested s \<or> cursor_moved s \<or> cursor_updated s"

definition rendererShouldWait :: "renderer \<Rightarrow> bool \<times> renderer" where
  "rendererShouldWait R =
     (let buffersChanged = \<not> xorg_list_is_empty addedBuffers (link (rb R)) \<or> \<not> xorg_list_is_empty removedBuffers (link (rb R)) in
      if stateChanged R \<or> windowChanged R \<or> buffersChanged then (False, R)
      else
        let s = shm R (state R);
            R1 = (if state R \<noteq> 0
                  then R\<lparr>waitingForBuffers := (if lastRequestedBufferId R \<noteq> rootWindowTextureID s then False else waitingForBuffers R),
                         lastRequestedBufferId := rootWindowTextureID s\<rparr>
                  else R)
        in if state R = 0 \<or> \<not> surfaceAvailable s \<or> waitForNextFrame s \<or> waitingForBuffers R1 then (True, R1)
           else (\<not> changes_wanted s, R1))"

section \<open>One pass of the renderer thread\<close>

definition take_state :: "egl_env \<Rightarrow> renderer \<Rightarrow> renderer" where
  "take_state G R =
     (if \<not> stateChanged R then R
      else
        let old = (if state R \<noteq> 0 \<and> pendingState R \<noteq> state R then state R else 0);
            R1 = R\<lparr>state := pendingState R, pendingState := 0, stateChanged := False, waitingForBuffers := False\<rparr>;
            R2 = set_shared (\<lambda>s. s\<lparr>surfaceAvailable := win R1 \<noteq> defaultWin G\<rparr>) R1
        in R2\<lparr>mapped := (if old \<noteq> 0 then remove1 old (mapped R2) else mapped R2)\<rparr>)"

partial_function (option) attach_loop :: "sys \<Rightarrow> bstate \<Rightarrow> bstate option" where
  "attach_loop Y B = (case LorieBufferList_first addedBuffers (link B) of
       None \<Rightarrow> Some B
     | Some buf \<Rightarrow> Option.bind (LorieBuffer_attachToGL Y buf B)
         (\<lambda>B1. attach_loop Y (B1\<lparr>link := LorieBuffer_addToList buf buffers (link B1)\<rparr>)))"

definition attach_pending :: "egl_env \<Rightarrow> renderer \<Rightarrow> renderer option" where
  "attach_pending G R =
     Option.bind (attach_loop (gl_sys G) (rb R)) (\<lambda>B.
       Some (R\<lparr>rb := B, waitingForBuffers := (if xorg_list_is_empty addedBuffers (link (rb R)) then waitingForBuffers R else False)\<rparr>))"

definition redraw_if_needed :: "renderer \<Rightarrow> renderer option" where
  "redraw_if_needed R =
     (let s = shm R (state R) in
      if state R \<noteq> 0 \<and> surfaceAvailable s \<and> \<not> waitForNextFrame s \<and> changes_wanted s then rendererRedrawLocked R else Some R)"

definition release_removed :: "renderer \<Rightarrow> renderer option" where
  "release_removed R = Option.bind (release_loop removedBuffers (rb R)) (\<lambda>B. Some (R\<lparr>rb := B\<rparr>))"

definition rendererThread_pass :: "egl_env \<Rightarrow> renderer \<Rightarrow> renderer option" where
  "rendererThread_pass G R =
     (let R1 = take_state G R; R2 = (if windowChanged R1 then rendererRefreshContext G R1 else R1) in
      Option.bind (attach_pending G R2) (\<lambda>R3. Option.bind (redraw_if_needed R3) release_removed))"

section \<open>The abstract lists\<close>

text \<open>What the three lists stand for: the buffers that wait for a texture, the ones that have one and the ones to
  be released.\<close>

record abufs =
  added :: "addr list"
  attached :: "addr list"
  removed :: "addr list"
  ident :: "addr \<Rightarrow> u64"

datatype buf_op = Receive addr LorieBuffer | Remove u64 | RemoveAll | Attach sys | ReleaseRemoved

definition buf_do :: "buf_op \<Rightarrow> bstate \<Rightarrow> bstate option" where
  "buf_do l B = (case l of
       Receive p b \<Rightarrow> Some (rendererAddBuffer p (store_buffer p b B))
     | Remove i \<Rightarrow> rendererRemoveBuffer i B
     | RemoveAll \<Rightarrow> rendererRemoveAllBuffers B
     | Attach Y \<Rightarrow> attach_loop Y B
     | ReleaseRemoved \<Rightarrow> release_loop removedBuffers B)"

definition abs_remove :: "u64 \<Rightarrow> abufs \<Rightarrow> abufs" where
  "abs_remove i A = (case find (\<lambda>p. ident A p = i) (added A) of
       Some p \<Rightarrow> A\<lparr>added := remove1 p (added A)\<rparr>
     | None \<Rightarrow> (case find (\<lambda>p. ident A p = i) (attached A) of
         Some p \<Rightarrow> A\<lparr>attached := remove1 p (attached A), removed := p # removed A\<rparr>
       | None \<Rightarrow> A))"

definition abs_do :: "buf_op \<Rightarrow> abufs \<Rightarrow> abufs" where
  "abs_do l A = (case l of
       Receive p b \<Rightarrow> A\<lparr>added := p # added A, ident := (ident A)(p := bid (desc b))\<rparr>
     | Remove i \<Rightarrow> abs_remove i A
     | RemoveAll \<Rightarrow> A\<lparr>added := [], attached := [], removed := rev (attached A) @ removed A\<rparr>
     | Attach Y \<Rightarrow> A\<lparr>added := [], attached := rev (added A) @ attached A\<rparr>
     | ReleaseRemoved \<Rightarrow> A\<lparr>removed := []\<rparr>)"

text \<open>A buffer that arrives is a new object with one reference.\<close>

definition buf_ok :: "buf_op \<Rightarrow> bstate \<Rightarrow> bool" where
  "buf_ok l B = (case l of
       Receive p b \<Rightarrow> p \<notin> {0, addedBuffers, buffers, removedBuffers} \<and> objs B p = None \<and> refcount b = 1
     | _ \<Rightarrow> True)"

definition three :: "links \<Rightarrow> addr list \<Rightarrow> addr list \<Rightarrow> addr list \<Rightarrow> bool" where
  "three L as bs rs \<longleftrightarrow> ring L addedBuffers as \<and> ring L buffers bs \<and> ring L removedBuffers rs
     \<and> distinct (as @ bs @ rs) \<and> set (as @ bs @ rs) \<inter> {addedBuffers, buffers, removedBuffers} = {}"

definition entry :: "bstate \<Rightarrow> (addr \<Rightarrow> u64) \<Rightarrow> addr \<Rightarrow> bool" where
  "entry B ids p \<longleftrightarrow> p \<noteq> 0 \<and> (\<exists>b. objs B p = Some b \<and> bid (desc b) = ids p \<and> refcount b = 1)"

text \<open>The lists are rings without common cells, and the live objects are exactly the ones listed.\<close>

definition holds_bufs :: "bstate \<Rightarrow> abufs \<Rightarrow> bool" where
  "holds_bufs B A \<longleftrightarrow> three (link B) (added A) (attached A) (removed A)
     \<and> (\<forall>p\<in>set (added A @ attached A @ removed A). entry B (ident A) p)
     \<and> dom (objs B) = set (added A @ attached A @ removed A)"

section \<open>Lemmas: three rings\<close>

lemma heads_distinct [simp]:
  "addedBuffers \<noteq> buffers" "buffers \<noteq> addedBuffers" "addedBuffers \<noteq> removedBuffers" "removedBuffers \<noteq> addedBuffers"
  "buffers \<noteq> removedBuffers" "removedBuffers \<noteq> buffers"
  "0 < addedBuffers" "0 < buffers" "0 < removedBuffers"
  by (simp_all add: list_heads)

lemma three_init:
  assumes "three L as bs rs" and "p \<notin> set (as @ bs @ rs) \<union> {addedBuffers, buffers, removedBuffers}"
  shows "three (xorg_list_init p L) as bs rs"
proof -
  have keep: "ring (xorg_list_init p L) h xs" if "ring L h xs" "p \<notin> insert h (set xs)" for h xs
    using that by (intro ring_frame [OF that(1)]) (auto simp: xorg_list_init_def)
  show ?thesis using assms keep unfolding three_def by auto
qed

lemma three_add_new:
  assumes "three L as bs rs" and "p \<notin> set (as @ bs @ rs) \<union> {0, addedBuffers, buffers, removedBuffers}"
  shows "three (LorieBuffer_addToList p addedBuffers (xorg_list_init p L)) (p # as) bs rs"
proof -
  let ?L = "xorg_list_init p L"
  have t: "three ?L as bs rs" using three_init assms by blast
  have p: "ring ?L p []" by (rule ring_init)
  have "LorieBuffer_addToList p addedBuffers ?L = xorg_list_add p addedBuffers ?L"
    using assms(2) p by (simp add: LorieBuffer_addToList_def xl.del_detached)
  moreover have "ring (xorg_list_add p addedBuffers ?L) addedBuffers (p # as)"
    using t assms(2) by (intro xl.rep_add) (auto simp: three_def)
  moreover have "ring (xorg_list_add p addedBuffers ?L) buffers bs"
    using t assms(2) by (intro xl.add_frame [of ?L addedBuffers as]) (auto simp: three_def)
  moreover have "ring (xorg_list_add p addedBuffers ?L) removedBuffers rs"
    using t assms(2) by (intro xl.add_frame [of ?L addedBuffers as]) (auto simp: three_def)
  ultimately show ?thesis using t assms(2) by (auto simp: three_def)
qed

lemma three_del_added:
  assumes "three L as bs rs" and "p \<in> set as"
  shows "three (xorg_list_del p L) (remove1 p as) bs rs"
proof -
  have "ring (xorg_list_del p L) addedBuffers (remove1 p as)" using assms by (intro xl.rep_del) (auto simp: three_def)
  moreover have "ring (xorg_list_del p L) buffers bs"
    using assms by (intro xl.del_frame [of L addedBuffers as]) (auto simp: three_def)
  moreover have "ring (xorg_list_del p L) removedBuffers rs"
    using assms by (intro xl.del_frame [of L addedBuffers as]) (auto simp: three_def)
  ultimately show ?thesis using assms by (auto simp: three_def distinct_remove1 dest: notin_set_remove1)
qed

lemma three_del_removed:
  assumes "three L as bs rs" and "p \<in> set rs"
  shows "three (xorg_list_del p L) as bs (remove1 p rs)"
proof -
  have "ring (xorg_list_del p L) removedBuffers (remove1 p rs)" using assms by (intro xl.rep_del) (auto simp: three_def)
  moreover have "ring (xorg_list_del p L) buffers bs"
    using assms by (intro xl.del_frame [of L removedBuffers rs]) (auto simp: three_def)
  moreover have "ring (xorg_list_del p L) addedBuffers as"
    using assms by (intro xl.del_frame [of L removedBuffers rs]) (auto simp: three_def)
  ultimately show ?thesis using assms by (auto simp: three_def distinct_remove1 dest: notin_set_remove1)
qed

lemma three_attach:
  assumes "three L (p # as) bs rs" and "p \<noteq> 0"
  shows "three (LorieBuffer_addToList p buffers L) as (p # bs) rs"
proof -
  let ?L = "xorg_list_add p buffers (xorg_list_del p L)"
  have "ring ?L addedBuffers (remove1 p (p # as))" "ring ?L buffers (p # bs)"
    using assms by (intro xl.move [of L addedBuffers "p # as" p buffers bs]; auto simp: three_def)+
  moreover have "ring ?L removedBuffers rs"
    using assms by (intro xl.move_frame [of L addedBuffers "p # as" p buffers bs]) (auto simp: three_def)
  ultimately show ?thesis using assms by (auto simp: three_def LorieBuffer_addToList_def)
qed

lemma three_unlist:
  assumes "three L as bs rs" and "p \<in> set bs" and "p \<noteq> 0"
  shows "three (LorieBuffer_addToList p removedBuffers (LorieBuffer_removeFromList p L)) as (remove1 p bs) (p # rs)"
proof -
  let ?L = "xorg_list_add p removedBuffers (xorg_list_del p L)"
  have e: "LorieBuffer_addToList p removedBuffers (LorieBuffer_removeFromList p L) = ?L"
    using assms(3) by (simp add: LorieBuffer_addToList_def LorieBuffer_removeFromList_def ring_del_idem)
  have "ring ?L buffers (remove1 p bs)" "ring ?L removedBuffers (p # rs)"
    using assms by (intro xl.move [of L buffers bs p removedBuffers rs]; auto simp: three_def)+
  moreover have "ring ?L addedBuffers as"
    using assms by (intro xl.move_frame [of L buffers bs p removedBuffers rs]) (auto simp: three_def)
  ultimately show ?thesis using assms unfolding e by (auto simp: three_def distinct_remove1 dest: notin_set_remove1)
qed

section \<open>Lemmas: the operations on the lists\<close>

lemma release_entry:
  assumes "entry B ids p"
  shows "\<exists>B'. LorieBuffer_release p B = Some B' \<and> link B' = xorg_list_del p (link B) \<and> objs B' = (objs B)(p := None)"
  using assms by (auto simp: entry_def LorieBuffer_release_def LorieBuffer_free_def Let_def)

lemma release_listed:
  assumes "holds_bufs B A" and "p \<in> set (added A @ attached A @ removed A)"
  shows "\<exists>B'. LorieBuffer_release p B = Some B' \<and> link B' = xorg_list_del p (link B)
    \<and> (\<forall>q\<in>set (added A @ attached A @ removed A) - {p}. entry B' (ident A) q)
    \<and> dom (objs B') = set (added A @ attached A @ removed A) - {p}"
proof -
  obtain B' where "LorieBuffer_release p B = Some B'" "link B' = xorg_list_del p (link B)" "objs B' = (objs B)(p := None)"
    using release_entry [of B "ident A" p] assms by (auto simp: holds_bufs_def)
  then show ?thesis using assms(1) by (intro exI [of _ B']) (simp add: holds_bufs_def entry_def)
qed

lemma first_in_ring: "ring L h xs \<Longrightarrow> LorieBufferList_first h L = (case xs of [] \<Rightarrow> None | p # _ \<Rightarrow> Some p)"
  by (cases xs) (simp_all add: LorieBufferList_first_def xl.rep_is_empty xl.rep_first)

lemma first_of_three:
  assumes "three L as bs rs"
  shows "LorieBufferList_first addedBuffers L = (case as of [] \<Rightarrow> None | p # _ \<Rightarrow> Some p)"
    and "LorieBufferList_first buffers L = (case bs of [] \<Rightarrow> None | p # _ \<Rightarrow> Some p)"
    and "LorieBufferList_first removedBuffers L = (case rs of [] \<Rightarrow> None | p # _ \<Rightarrow> Some p)"
  using assms by (simp_all add: three_def first_in_ring)

lemma release_added:
  assumes "holds_bufs B A" and "p \<in> set (added A)"
  shows "\<exists>B'. LorieBuffer_release p B = Some B' \<and> holds_bufs B' (A\<lparr>added := remove1 p (added A)\<rparr>)"
proof -
  have t: "three (link B) (added A) (attached A) (removed A)" using assms(1) by (simp add: holds_bufs_def)
  then have s: "set (remove1 p (added A) @ attached A @ removed A) = set (added A @ attached A @ removed A) - {p}"
    using assms(2) by (auto simp: three_def)
  show ?thesis
    using release_listed [of B A p] assms three_del_added [OF t assms(2)] s by (auto simp: holds_bufs_def)
qed

lemma release_removed_entry:
  assumes "holds_bufs B A" and "p \<in> set (removed A)"
  shows "\<exists>B'. LorieBuffer_release p B = Some B' \<and> holds_bufs B' (A\<lparr>removed := remove1 p (removed A)\<rparr>)"
proof -
  have t: "three (link B) (added A) (attached A) (removed A)" using assms(1) by (simp add: holds_bufs_def)
  then have s: "set (added A @ attached A @ remove1 p (removed A)) = set (added A @ attached A @ removed A) - {p}"
    using assms(2) by (auto simp: three_def)
  show ?thesis
    using release_listed [of B A p] assms three_del_removed [OF t assms(2)] s by (auto simp: holds_bufs_def)
qed

lemma unlist_entry:
  assumes "holds_bufs B A" and "p \<in> set (attached A)"
  shows "holds_bufs (to_removed p B) (A\<lparr>attached := remove1 p (attached A), removed := p # removed A\<rparr>)"
proof -
  have d: "distinct (attached A)" and nz: "p \<noteq> 0" using assms by (auto simp: holds_bufs_def three_def entry_def)
  then show ?thesis
    using assms three_unlist [of "link B" "added A" "attached A" "removed A" p]
    by (auto simp: holds_bufs_def to_removed_def entry_def set_remove1_eq)
qed

lemma release_loop_added:
  "holds_bufs B A \<Longrightarrow> \<exists>B'. release_loop addedBuffers B = Some B' \<and> holds_bufs B' (A\<lparr>added := []\<rparr>)"
proof (induction "added A" arbitrary: A B)
  case Nil
  then have "A\<lparr>added := []\<rparr> = A" by simp
  then show ?case using Nil first_of_three(1) [of "link B" "added A" "attached A" "removed A"]
    by (subst release_loop.simps) (simp add: holds_bufs_def)
next
  case (Cons p ps)
  obtain B1 where B1: "LorieBuffer_release p B = Some B1" "holds_bufs B1 (A\<lparr>added := ps\<rparr>)"
    using release_added [OF Cons.prems, of p] Cons.hyps(2) [symmetric] by auto
  from Cons.hyps(1) [OF _ B1(2)] obtain B' where "release_loop addedBuffers B1 = Some B'" "holds_bufs B' (A\<lparr>added := []\<rparr>)"
    by auto
  moreover have "LorieBufferList_first addedBuffers (link B) = Some p"
    using first_of_three(1) [of "link B" "added A" "attached A" "removed A"] Cons.prems Cons.hyps(2) [symmetric]
    by (simp add: holds_bufs_def)
  ultimately show ?case using B1(1) by (subst release_loop.simps) simp
qed

lemma release_loop_removed:
  "holds_bufs B A \<Longrightarrow> \<exists>B'. release_loop removedBuffers B = Some B' \<and> holds_bufs B' (A\<lparr>removed := []\<rparr>)"
proof (induction "removed A" arbitrary: A B)
  case Nil
  then have "A\<lparr>removed := []\<rparr> = A" by simp
  then show ?case using Nil first_of_three(3) [of "link B" "added A" "attached A" "removed A"]
    by (subst release_loop.simps) (simp add: holds_bufs_def)
next
  case (Cons p ps)
  obtain B1 where B1: "LorieBuffer_release p B = Some B1" "holds_bufs B1 (A\<lparr>removed := ps\<rparr>)"
    using release_removed_entry [OF Cons.prems, of p] Cons.hyps(2) [symmetric] by auto
  from Cons.hyps(1) [OF _ B1(2)] obtain B' where "release_loop removedBuffers B1 = Some B'" "holds_bufs B' (A\<lparr>removed := []\<rparr>)"
    by auto
  moreover have "LorieBufferList_first removedBuffers (link B) = Some p"
    using first_of_three(3) [of "link B" "added A" "attached A" "removed A"] Cons.prems Cons.hyps(2) [symmetric]
    by (simp add: holds_bufs_def)
  ultimately show ?case using B1(1) by (subst release_loop.simps) simp
qed

lemma unlist_loop_all:
  "holds_bufs B A \<Longrightarrow> \<exists>B'. unlist_loop B = Some B' \<and> holds_bufs B' (A\<lparr>attached := [], removed := rev (attached A) @ removed A\<rparr>)"
proof (induction "attached A" arbitrary: A B)
  case Nil
  then have "A\<lparr>attached := [], removed := rev (attached A) @ removed A\<rparr> = A" by simp
  then show ?case using Nil first_of_three(2) [of "link B" "added A" "attached A" "removed A"]
    by (subst unlist_loop.simps) (simp add: holds_bufs_def)
next
  case (Cons p ps)
  have B1: "holds_bufs (to_removed p B) (A\<lparr>attached := ps, removed := p # removed A\<rparr>)"
    using unlist_entry [OF Cons.prems, of p] Cons.hyps(2) [symmetric] by simp
  from Cons.hyps(1) [OF _ B1] obtain B' where "unlist_loop (to_removed p B) = Some B'"
    "holds_bufs B' (A\<lparr>attached := [], removed := rev ps @ p # removed A\<rparr>)" by auto
  moreover have "LorieBufferList_first buffers (link B) = Some p"
    using first_of_three(2) [of "link B" "added A" "attached A" "removed A"] Cons.prems Cons.hyps(2) [symmetric]
    by (simp add: holds_bufs_def)
  ultimately show ?case using Cons.hyps(2) [symmetric] by (subst unlist_loop.simps) simp
qed

lemma attach_entry:
  assumes "holds_bufs B A" and "added A = p # ps"
  shows "\<exists>B1. LorieBuffer_attachToGL Y p B = Some B1
    \<and> holds_bufs (B1\<lparr>link := LorieBuffer_addToList p buffers (link B1)\<rparr>) (A\<lparr>added := ps, attached := p # attached A\<rparr>)"
proof -
  have t: "three (link B) (p # ps) (attached A) (removed A)" and e: "entry B (ident A) p"
    using assms by (simp_all add: holds_bufs_def)
  then obtain b where b: "p \<noteq> 0" "objs B p = Some b" "bid (desc b) = ident A p" "refcount b = 1" by (auto simp: entry_def)
  obtain b' B1 where B1: "LorieBuffer_attachToGL Y p B = Some B1" "link B1 = link B" "objs B1 = (objs B)(p \<mapsto> b')"
    "desc b' = desc b" "refcount b' = refcount b"
  proof (cases "egl_display B")
    case False
    then show thesis using that [of B b] b by (simp add: LorieBuffer_attachToGL_def map_upd_triv)
  next
    case True
    then show thesis using that b by (simp add: LorieBuffer_attachToGL_def Let_def)
  qed
  have "holds_bufs (B1\<lparr>link := LorieBuffer_addToList p buffers (link B1)\<rparr>) (A\<lparr>added := ps, attached := p # attached A\<rparr>)"
    using three_attach [OF t b(1)] assms b B1(2-) by (auto simp: holds_bufs_def entry_def)
  with B1(1) show ?thesis by blast
qed

lemma attach_loop_all:
  "holds_bufs B A \<Longrightarrow> \<exists>B'. attach_loop Y B = Some B' \<and> holds_bufs B' (A\<lparr>added := [], attached := rev (added A) @ attached A\<rparr>)"
proof (induction "added A" arbitrary: A B)
  case Nil
  then have "A\<lparr>added := [], attached := rev (added A) @ attached A\<rparr> = A" by simp
  then show ?case using Nil first_of_three(1) [of "link B" "added A" "attached A" "removed A"]
    by (subst attach_loop.simps) (simp add: holds_bufs_def)
next
  case (Cons p ps)
  obtain B1 where B1: "LorieBuffer_attachToGL Y p B = Some B1"
    "holds_bufs (B1\<lparr>link := LorieBuffer_addToList p buffers (link B1)\<rparr>) (A\<lparr>added := ps, attached := p # attached A\<rparr>)"
    using attach_entry [OF Cons.prems, of p ps Y] Cons.hyps(2) by auto
  from Cons.hyps(1) [OF _ B1(2)]
  obtain B' where "attach_loop Y (B1\<lparr>link := LorieBuffer_addToList p buffers (link B1)\<rparr>) = Some B'"
    "holds_bufs B' (A\<lparr>added := [], attached := rev ps @ p # attached A\<rparr>)" by auto
  moreover have "LorieBufferList_first addedBuffers (link B) = Some p"
    using first_of_three(1) [of "link B" "added A" "attached A" "removed A"] Cons.prems Cons.hyps(2) [symmetric]
    by (simp add: holds_bufs_def)
  ultimately show ?case using B1(1) Cons.hyps(2) [symmetric] by (subst attach_loop.simps) simp
qed

lemma find_entry:
  assumes "ring (link B) h ps" and "\<forall>p\<in>set ps. entry B ids p"
  shows "LorieBufferList_findById h i B = Some (find (\<lambda>p. ids p = i) ps)"
proof -
  have "find (\<lambda>p. map_option (bid \<circ> desc) (objs B p) = Some i) ps = find (\<lambda>p. ids p = i) ps"
    using assms(2) by (intro find_cong) (auto simp: entry_def)
  then show ?thesis using find_in_ring [OF assms(1)] by simp
qed

lemma find_listed:
  assumes "holds_bufs B A"
  shows "LorieBufferList_findById addedBuffers i B = Some (find (\<lambda>p. ident A p = i) (added A))"
    and "LorieBufferList_findById buffers i B = Some (find (\<lambda>p. ident A p = i) (attached A))"
    and "LorieBufferList_findById removedBuffers i B = Some (find (\<lambda>p. ident A p = i) (removed A))"
  using assms by (auto simp: holds_bufs_def three_def intro!: find_entry)

lemma remove_refines:
  assumes "holds_bufs B A"
  shows "\<exists>B'. rendererRemoveBuffer i B = Some B' \<and> holds_bufs B' (abs_remove i A)"
proof (cases "find (\<lambda>p. ident A p = i) (added A)")
  case (Some p)
  then show ?thesis using release_added [OF assms, of p] find_Some_in [OF Some]
    by (auto simp: rendererRemoveBuffer_def find_listed [OF assms] abs_remove_def)
next
  case None
  show ?thesis
  proof (cases "find (\<lambda>p. ident A p = i) (attached A)")
    case (Some p)
    then show ?thesis using unlist_entry [OF assms, of p] find_Some_in [OF Some] None
      by (auto simp: rendererRemoveBuffer_def find_listed [OF assms] abs_remove_def)
  qed (use None assms in \<open>simp add: rendererRemoveBuffer_def find_listed [OF assms] abs_remove_def\<close>)
qed

lemma receive_refines:
  assumes "holds_bufs B A" and "p \<notin> {0, addedBuffers, buffers, removedBuffers}" and "objs B p = None" and "refcount b = 1"
  shows "holds_bufs (rendererAddBuffer p (store_buffer p b B)) (A\<lparr>added := p # added A, ident := (ident A)(p := bid (desc b))\<rparr>)"
proof -
  have d: "dom (objs B) = set (added A @ attached A @ removed A)" using assms(1) by (simp add: holds_bufs_def)
  then have p: "p \<notin> set (added A @ attached A @ removed A)" using assms(3) by blast
  have t: "three (link B) (added A) (attached A) (removed A)" using assms(1) by (simp add: holds_bufs_def)
  have "three (LorieBuffer_addToList p addedBuffers (xorg_list_init p (link B))) (p # added A) (attached A) (removed A)"
    using three_add_new [OF t, of p] p assms(2) by simp
  moreover have "entry (rendererAddBuffer p (store_buffer p b B)) ((ident A)(p := bid (desc b))) q"
    if "q \<in> set (p # added A @ attached A @ removed A)" for q
    using that assms p by (auto simp: holds_bufs_def entry_def rendererAddBuffer_def store_buffer_def)
  ultimately show ?thesis using d by (auto simp: holds_bufs_def rendererAddBuffer_def store_buffer_def)
qed

interpretation renderer_lists: data_refinement holds_bufs buf_ok buf_do abs_do
proof
  fix B A l assume r: "holds_bufs B A" and ok: "buf_ok l B"
  show "\<exists>B'. buf_do l B = Some B' \<and> holds_bufs B' (abs_do l A)"
  proof (cases l)
    case (Receive p b)
    then show ?thesis using receive_refines [OF r, of p b] ok by (simp add: buf_do_def abs_do_def buf_ok_def)
  next
    case (Remove i)
    then show ?thesis using remove_refines [OF r] by (simp add: buf_do_def abs_do_def)
  next
    case RemoveAll
    obtain B1 where B1: "release_loop addedBuffers B = Some B1" "holds_bufs B1 (A\<lparr>added := []\<rparr>)"
      using release_loop_added [OF r] by blast
    then show ?thesis using unlist_loop_all [OF B1(2)] RemoveAll by (simp add: buf_do_def abs_do_def rendererRemoveAllBuffers_def)
  next
    case (Attach Y)
    then show ?thesis using attach_loop_all [OF r] by (simp add: buf_do_def abs_do_def)
  next
    case ReleaseRemoved
    then show ?thesis using release_loop_removed [OF r] by (simp add: buf_do_def abs_do_def)
  qed
qed

section \<open>Properties\<close>

text \<open>The lists as \<^verbatim>\<open>rendererInitThread\<close> leaves them.\<close>

definition empty_lists :: "bstate \<Rightarrow> bool" where
  "empty_lists B \<longleftrightarrow> three (link B) [] [] [] \<and> objs B = Map.empty"

definition no_bufs :: abufs where
  "no_bufs = \<lparr>added = [], attached = [], removed = [], ident = (\<lambda>_. 0)\<rparr>"

lemma empty_holds: "empty_lists B \<Longrightarrow> holds_bufs B no_bufs"
  by (simp add: empty_lists_def holds_bufs_def no_bufs_def)

text \<open>
  C4. However the socket thread's calls and the sections of the renderer thread interleave, the three lists
  behave as three plain lists: every call returns, no buffer is in two lists, and the buffers that
  exist are exactly those in the lists, so none is leaked, used after it was freed or freed twice.
\<close>

theorem renderer_lists_refine:
  assumes "empty_lists B" and "run_ok buf_ok buf_do ops B"
  shows "\<exists>B'. run_ops buf_do ops B = Some B' \<and> holds_bufs B' (fold abs_do ops no_bufs)"
  using renderer_lists.run_refines [OF empty_holds [OF assms(1)] assms(2)] .

lemma run_ok_without_receive:
  "list_all (\<lambda>l. case l of Receive _ _ \<Rightarrow> False | _ \<Rightarrow> True) ls \<Longrightarrow> run_ok buf_ok buf_do ls B"
  by (induction ls arbitrary: B) (auto simp: buf_ok_def split: buf_op.splits option.split)

theorem renderer_lists_refine_witness:
  "\<exists>B'. run_ops buf_do [Receive 64 sample_buffer, Attach sample_sys, Remove 3, ReleaseRemoved] sample_bstate = Some B'
    \<and> dom (objs B') = {}"
proof -
  let ?ops = "[Receive 64 sample_buffer, Attach sample_sys, Remove 3, ReleaseRemoved]"
  have e: "empty_lists sample_bstate" by (simp add: empty_lists_def three_def ring_def sample_bstate_def)
  have "run_ok buf_ok buf_do [Attach sample_sys, Remove 3, ReleaseRemoved] B" for B by (rule run_ok_without_receive) simp
  then have "run_ok buf_ok buf_do ?ops sample_bstate"
    by (subst run_ok.simps) (simp add: buf_ok_def buf_do_def list_heads sample_buffer_simps del: run_ok.simps)
  from renderer_lists_refine [OF e this] obtain B' where "run_ops buf_do ?ops sample_bstate = Some B'"
    "holds_bufs B' (fold abs_do ?ops no_bufs)" by blast
  moreover have "fold abs_do ?ops no_bufs = no_bufs\<lparr>ident := (\<lambda>_. 0)(64 := 3)\<rparr>"
    by (simp add: abs_do_def abs_remove_def no_bufs_def sample_buffer_simps)
  ultimately show ?thesis by (simp add: holds_bufs_def no_bufs_def del: run_ops.simps)
qed

section \<open>The renderer thread goes to sleep\<close>

lemma set_shared_frame [simp]:
  "rb (set_shared f R) = rb R" "state (set_shared f R) = state R" "stateChanged (set_shared f R) = stateChanged R"
  "windowChanged (set_shared f R) = windowChanged R" "waitingForBuffers (set_shared f R) = waitingForBuffers R"
  "lastRequestedBufferId (set_shared f R) = lastRequestedBufferId R" "win (set_shared f R) = win R"
  "pendingWin (set_shared f R) = pendingWin R" "sfc (set_shared f R) = sfc R" "win_refs (set_shared f R) = win_refs R"
  "mapped (set_shared f R) = mapped R" "pendingState (set_shared f R) = pendingState R" "drawn (set_shared f R) = drawn R"
  by (simp_all add: set_shared_def)

lemma set_shared_own [simp]: "state R \<noteq> 0 \<Longrightarrow> shm (set_shared f R) (state R) = f (shm R (state R))"
  by (simp add: set_shared_def)

lemma take_state_frame:
  "rb (take_state G R) = rb R" "\<not> stateChanged (take_state G R)" "windowChanged (take_state G R) = windowChanged R"
  "lastRequestedBufferId (take_state G R) = lastRequestedBufferId R"
  by (simp_all add: take_state_def Let_def)

lemma release_win_frame:
  "rb (releaseWinAndSurface G R) = rb R" "stateChanged (releaseWinAndSurface G R) = stateChanged R"
  "lastRequestedBufferId (releaseWinAndSurface G R) = lastRequestedBufferId R"
  "state (releaseWinAndSurface G R) = state R" "shm (releaseWinAndSurface G R) = shm R"
  "pendingWin (releaseWinAndSurface G R) = pendingWin R"
  by (simp_all add: releaseWinAndSurface_def split: option.split prod.split)

lemma use_window_frame [simp]:
  "rb (use_window G R) = rb R" "stateChanged (use_window G R) = stateChanged R" "state (use_window G R) = state R"
  "windowChanged (use_window G R) = windowChanged R" "lastRequestedBufferId (use_window G R) = lastRequestedBufferId R"
  "pendingWin (use_window G R) = pendingWin R" "win_refs (use_window G R) = win_refs R"
  "win (use_window G R) = (if win R = 0 then defaultWin G else win R)"
  by (simp_all add: use_window_def Let_def)

lemma take_window_frame [simp]:
  "rb (take_window G R) = rb R" "stateChanged (take_window G R) = stateChanged R" "state (take_window G R) = state R"
  "\<not> windowChanged (take_window G R)" "lastRequestedBufferId (take_window G R) = lastRequestedBufferId R"
  "shm (take_window G R) = shm R" "pendingWin (take_window G R) = 0"
  by (simp_all add: take_window_def Let_def release_win_frame split: prod.split)

lemma refresh_frame:
  "rb (rendererRefreshContext G R) = rb R" "stateChanged (rendererRefreshContext G R) = stateChanged R"
  "\<not> windowChanged (rendererRefreshContext G R)" "lastRequestedBufferId (rendererRefreshContext G R) = lastRequestedBufferId R"
  by (simp_all add: rendererRefreshContext_def)

text \<open>Nothing is left that the thread could do now.\<close>

definition settled :: "renderer \<Rightarrow> bool" where
  "settled R \<longleftrightarrow> (let s = shm R (state R) in state R = 0 \<or> \<not> surfaceAvailable s \<or> waitForNextFrame s
     \<or> waitingForBuffers R \<or> \<not> changes_wanted s)"

lemma redraw_settles:
  assumes "holds_bufs (rb R) A"
  shows "\<exists>R'. redraw_if_needed R = Some R' \<and> settled R' \<and> rb R' = rb R \<and> stateChanged R' = stateChanged R
    \<and> windowChanged R' = windowChanged R \<and> lastRequestedBufferId R' = lastRequestedBufferId R \<and> state R' = state R
    \<and> rootWindowTextureID (shm R' (state R)) = rootWindowTextureID (shm R (state R))"
proof (cases "state R \<noteq> 0 \<and> surfaceAvailable (shm R (state R)) \<and> \<not> waitForNextFrame (shm R (state R)) \<and> changes_wanted (shm R (state R))")
  case False
  then have "redraw_if_needed R = Some R" by (auto simp: redraw_if_needed_def Let_def)
  moreover have "settled R" using False by (auto simp: settled_def Let_def)
  ultimately show ?thesis by simp
next
  case True
  let ?i = "rootWindowTextureID (shm R (state R))"
  have g: "rendererRedrawLocked R = Some (R\<lparr>waitingForBuffers := True\<rparr>) \<or>
      rendererRedrawLocked R = Some (set_shared (\<lambda>s. s\<lparr>drawRequested := False, cursor_updated := False, cursor_moved := False,
        waitForNextFrame := True, renderedFrames := renderedFrames s + 1\<rparr>) (R\<lparr>drawn := drawn R @ [?i]\<rparr>))"
    by (cases "find (\<lambda>p. ident A p = ?i) (attached A)")
      (auto simp: rendererRedrawLocked_def Let_def find_listed [OF assms] split: option.split)
  have "redraw_if_needed R = rendererRedrawLocked R" using True by (simp add: redraw_if_needed_def Let_def)
  then show ?thesis using g True by (auto simp: settled_def Let_def set_shared_def)
qed

lemma pass_settles:
  assumes "holds_bufs (rb R) A"
  shows "\<exists>R' A'. rendererThread_pass G R = Some R' \<and> holds_bufs (rb R') A' \<and> added A' = [] \<and> removed A' = [] \<and> settled R'
    \<and> \<not> stateChanged R' \<and> \<not> windowChanged R' \<and> lastRequestedBufferId R' = lastRequestedBufferId R
    \<and> (\<not> stateChanged R \<and> \<not> windowChanged R \<longrightarrow> state R' = state R
         \<and> rootWindowTextureID (shm R' (state R')) = rootWindowTextureID (shm R (state R)))"
proof -
  define R2 where "R2 = (if windowChanged (take_state G R) then rendererRefreshContext G (take_state G R) else take_state G R)"
  have f2: "rb R2 = rb R" "\<not> stateChanged R2" "\<not> windowChanged R2" "lastRequestedBufferId R2 = lastRequestedBufferId R"
    by (simp_all add: R2_def take_state_frame refresh_frame)
  have same: "R2 = R" if "\<not> stateChanged R" "\<not> windowChanged R" using that by (simp add: R2_def take_state_def)
  let ?A = "A\<lparr>added := [], attached := rev (added A) @ attached A\<rparr>"
  obtain B3 where B3: "attach_loop (gl_sys G) (rb R2) = Some B3" "holds_bufs B3 ?A"
    using attach_loop_all [of "rb R2" A "gl_sys G"] assms f2(1) by auto
  define R3 where "R3 = R2\<lparr>rb := B3, waitingForBuffers := (if xorg_list_is_empty addedBuffers (link (rb R2)) then waitingForBuffers R2 else False)\<rparr>"
  have R3: "attach_pending G R2 = Some R3" using B3(1) by (simp add: attach_pending_def R3_def)
  obtain R4 where R4: "redraw_if_needed R3 = Some R4" "settled R4" "rb R4 = B3" "\<not> stateChanged R4" "\<not> windowChanged R4"
    "lastRequestedBufferId R4 = lastRequestedBufferId R" "state R4 = state R2"
    "rootWindowTextureID (shm R4 (state R2)) = rootWindowTextureID (shm R2 (state R2))"
    using redraw_settles [of R3 ?A] B3(2) f2 by (auto simp: R3_def)
  obtain B5 where B5: "release_loop removedBuffers B3 = Some B5" "holds_bufs B5 (?A\<lparr>removed := []\<rparr>)"
    using release_loop_removed [OF B3(2)] by blast
  have "rendererThread_pass G R = Some (R4\<lparr>rb := B5\<rparr>)"
    using R3 R4(1,3) B5(1) by (simp add: rendererThread_pass_def R2_def [symmetric] Let_def release_removed_def)
  then show ?thesis using B5(2) R4 same
    by (intro exI [of _ "R4\<lparr>rb := B5\<rparr>"] exI [of _ "?A\<lparr>removed := []\<rparr>"]) (auto simp: settled_def Let_def)
qed

lemma settled_waits:
  assumes "holds_bufs (rb R) A" and "added A = []" and "removed A = []" and "settled R" and "\<not> stateChanged R" and "\<not> windowChanged R"
  shows "fst (rendererShouldWait R) \<or> lastRequestedBufferId R \<noteq> rootWindowTextureID (shm R (state R))"
    and "rb (snd (rendererShouldWait R)) = rb R" and "\<not> stateChanged (snd (rendererShouldWait R))"
    and "\<not> windowChanged (snd (rendererShouldWait R))" and "shm (snd (rendererShouldWait R)) = shm R"
    and "state (snd (rendererShouldWait R)) = state R"
    and "state R \<noteq> 0 \<longrightarrow> lastRequestedBufferId (snd (rendererShouldWait R)) = rootWindowTextureID (shm R (state R))"
    and "state R = 0 \<longrightarrow> fst (rendererShouldWait R)"
proof -
  have "xorg_list_is_empty addedBuffers (link (rb R))" "xorg_list_is_empty removedBuffers (link (rb R))"
    using assms(1-3) by (auto simp: holds_bufs_def three_def ring_is_empty)
  note d = rendererShouldWait_def this assms(5,6)
  show "fst (rendererShouldWait R) \<or> lastRequestedBufferId R \<noteq> rootWindowTextureID (shm R (state R))"
    using assms(4) by (auto simp: d settled_def Let_def)
  show "rb (snd (rendererShouldWait R)) = rb R" "\<not> stateChanged (snd (rendererShouldWait R))"
    "\<not> windowChanged (snd (rendererShouldWait R))" "shm (snd (rendererShouldWait R)) = shm R"
    "state (snd (rendererShouldWait R)) = state R"
    "state R \<noteq> 0 \<longrightarrow> lastRequestedBufferId (snd (rendererShouldWait R)) = rootWindowTextureID (shm R (state R))"
    "state R = 0 \<longrightarrow> fst (rendererShouldWait R)"
    by (simp_all add: d Let_def)
qed


definition sample_egl :: egl_env where
  "sample_egl = \<lparr>defaultWin = 10, defaultSfc = 11, makeCurrent_default = True, destroySurface_ok = True,
     win_width = (\<lambda>_. 100), win_height = (\<lambda>_. 50), createSurface = 12, makeCurrent_new = True, gl_sys = sample_sys\<rparr>"

definition sample_shared_state :: shared where
  "sample_shared_state = \<lparr>rootWindowTextureID = 3, drawRequested = True, surfaceAvailable = True, waitForNextFrame = False,
     renderedFrames = 0, cursor_updated = False, cursor_moved = False\<rparr>"

definition sample_renderer :: renderer where
  "sample_renderer = \<lparr>rb = sample_bstate, shm = (\<lambda>_. sample_shared_state), mapped = [20], state = 20, pendingState = 0, stateChanged = False,
     windowChanged = False, win = 10, pendingWin = 0, sfc = 11, win_refs = [], waitingForBuffers = False,
     lastRequestedBufferId = 0, drawn = []\<rparr>"


section \<open>Windows and shared states\<close>

text \<open>The references held are the one of the current window, if it is not the default one, and the one of the
  window that waits to be taken.\<close>

definition win_owned :: "addr \<Rightarrow> renderer \<Rightarrow> bool" where
  "win_owned dw R \<longleftrightarrow> mset (win_refs R) =
     (if win R = 0 \<or> win R = dw then {#} else {#win R#}) + (if pendingWin R = 0 then {#} else {#pendingWin R#})"

inductive window_step :: "addr \<Rightarrow> renderer \<Rightarrow> renderer \<Rightarrow> bool" for dw where
  set_window: "newWin \<noteq> dw \<Longrightarrow> window_step dw R (rendererSetWindow newWin R)"
| refresh: "defaultWin G = dw \<Longrightarrow> pendingWin R \<noteq> dw \<Longrightarrow> release_surface G (sfc R) \<noteq> None \<Longrightarrow>
    window_step dw R (rendererRefreshContext G R)"

lemmas keep_mset = mset_single_iff mset_single_iff_right mset_zero_iff mset_zero_iff_right

lemma set_window_owned: "win_owned dw R \<Longrightarrow> win_owned dw (rendererSetWindow newWin R)"
  by (auto simp: win_owned_def rendererSetWindow_def Let_def simp del: keep_mset)

lemma take_window_owned:
  assumes "release_surface G (sfc R) \<noteq> None" and "pendingWin R \<noteq> defaultWin G" and "win_owned (defaultWin G) R"
  shows "mset (win_refs (take_window G R)) = (if win (take_window G R) \<in> {0, defaultWin G} then {#} else {#win (take_window G R)#})"
proof -
  obtain s where s: "release_surface G (sfc R) = Some s" using assms(1) by blast
  define w refs where "w = fst (release_win G (win R) (win_refs R))" and "refs = snd (release_win G (win R) (win_refs R))"
  have r: "releaseWinAndSurface G R = R\<lparr>sfc := s, win := w, win_refs := refs\<rparr>"
    by (simp add: releaseWinAndSurface_def s w_def refs_def case_prod_beta)
  have refs: "mset refs = (if pendingWin R = 0 then {#} else {#pendingWin R#})"
    using assms(3) by (auto simp: refs_def release_win_def win_owned_def simp del: keep_mset)
  show ?thesis using assms(2) refs by (auto simp: take_window_def r release_win_def Let_def simp del: keep_mset)
qed

lemma refresh_owned:
  assumes "win_owned (defaultWin G) R" and "pendingWin R \<noteq> defaultWin G" and "release_surface G (sfc R) \<noteq> None"
  shows "win_owned (defaultWin G) (rendererRefreshContext G R)"
  using take_window_owned [OF assms(3,2,1)] by (auto simp: win_owned_def rendererRefreshContext_def simp del: keep_mset)

definition no_window :: "addr \<Rightarrow> renderer \<Rightarrow> bool" where
  "no_window dw R \<longleftrightarrow> win R = dw \<and> pendingWin R = 0 \<and> win_refs R = []"

interpretation windows: transition_system "no_window dw" "window_step dw" "win_owned dw" for dw
proof
  show "no_window dw R \<Longrightarrow> win_owned dw R" for R by (simp add: no_window_def win_owned_def)
  show "win_owned dw R'" if "win_owned dw R" and "window_step dw R R'" for R R'
    using that(2,1) by cases (auto intro: set_window_owned refresh_owned)
qed

text \<open>
  As long as EGL lets the old surface go, every window the activity hands over is referenced exactly
  while it is the current or the waiting one: no reference is lost and none is dropped twice.
\<close>

theorem window_references_balanced:
  assumes "no_window dw R" and "(window_step dw)\<^sup>*\<^sup>* R R'"
  shows "mset (win_refs R') =
    (if win R' = 0 \<or> win R' = dw then {#} else {#win R'#}) + (if pendingWin R' = 0 then {#} else {#pendingWin R'#})"
  using windows.reachable_inv [OF assms] by (simp add: win_owned_def)

theorem window_references_balanced_witness:
  "mset (win_refs (rendererRefreshContext sample_egl (rendererSetWindow 30 sample_renderer))) = {#30#}"
proof -
  have n: "no_window 10 sample_renderer" by (simp add: no_window_def sample_renderer_def)
  have "window_step 10 sample_renderer (rendererSetWindow 30 sample_renderer)" by (rule window_step.set_window) simp
  moreover have "window_step 10 (rendererSetWindow 30 sample_renderer) (rendererRefreshContext sample_egl (rendererSetWindow 30 sample_renderer))"
    by (rule window_step.refresh)
      (simp_all add: sample_egl_def rendererSetWindow_def sample_renderer_def release_surface_def)
  ultimately have "(window_step 10)\<^sup>*\<^sup>* sample_renderer (rendererRefreshContext sample_egl (rendererSetWindow 30 sample_renderer))" by simp
  from window_references_balanced [OF n this] show ?thesis
    by (simp add: rendererRefreshContext_def take_window_def rendererSetWindow_def releaseWinAndSurface_def release_surface_def release_win_def
        sample_egl_def sample_renderer_def Let_def)
qed

text \<open>When EGL refuses, the reference of the old window stays although the window is forgotten.\<close>

lemma refused_surface_leaks_window:
  assumes "release_surface G (sfc R) = None" and "pendingWin R = 0"
  shows "win_refs (rendererRefreshContext G R) = win_refs R \<and> win (rendererRefreshContext G R) = defaultWin G"
  using assms by (simp add: rendererRefreshContext_def take_window_def releaseWinAndSurface_def Let_def)

text \<open>
  After a change of window for which a surface could be created, the X server sees an available surface
  exactly when the window is a real one and is current, and a redraw is requested then.
\<close>

theorem surface_flag_follows_window:
  assumes "createSurface G \<noteq> 0" and "state R \<noteq> 0"
  shows "let R' = rendererRefreshContext G R; s = shm R' (state R') in
    surfaceAvailable s = (win R' \<noteq> defaultWin G \<and> makeCurrent_new G) \<and> (surfaceAvailable s \<longrightarrow> drawRequested s)"
proof -
  have "state (take_window G R) \<noteq> 0" using assms(2) by simp
  then show ?thesis using assms(1) unfolding rendererRefreshContext_def
    by (auto simp: use_window_def Let_def set_shared_def)
qed

theorem surface_flag_follows_window_witness:
  "let R' = rendererRefreshContext sample_egl (rendererSetWindow 30 sample_renderer); s = shm R' (state R') in
    surfaceAvailable s = (win R' \<noteq> defaultWin sample_egl \<and> makeCurrent_new sample_egl)"
  using surface_flag_follows_window [of sample_egl "rendererSetWindow 30 sample_renderer"]
  by (simp add: sample_egl_def rendererSetWindow_def sample_renderer_def Let_def)

text \<open>When the surface cannot be created the flag keeps its old value, so the X server goes on requesting frames.\<close>

lemma failed_surface_keeps_flag:
  assumes "createSurface G = 0" and "pendingWin R \<noteq> 0" and "0 < defaultWin G"
  shows "shm (rendererRefreshContext G R) = shm R \<and> sfc (rendererRefreshContext G R) = 0"
proof -
  have "win (take_window G R) \<noteq> 0" using assms(2,3) by (auto simp: take_window_def release_win_frame release_win_def Let_def)
  then show ?thesis using assms(1) by (simp add: rendererRefreshContext_def use_window_def Let_def)
qed

text \<open>A shared state that is replaced is unmapped, and only then.\<close>

lemma taken_state_unmaps_old:
  assumes "state R \<noteq> 0" and "new \<noteq> state R" and "mapped R = [state R]"
  shows "mapped (take_state G (rendererSetSharedState new R)) = (if new = 0 then [] else [new])"
  using assms by (simp add: take_state_def rendererSetSharedState_def Let_def)

section \<open>Testing the hardware\<close>

text \<open>\<^verbatim>\<open>rendererTestCapabilities\<close>: the answers of the calls in order, the resulting flags and whether the test buffer is
  released.\<close>

record gl_test =
  no_display :: bool
  test_alloc_ok :: bool
  test_lock_ok :: bool
  client_buffer_ok :: bool
  image_ok :: bool
  image_bad_parameter :: bool
  config_ok :: bool
  context_ok :: bool
  current_ok :: bool
  pixel :: u32

record gl_caps =
  legacy_drawing :: bool
  flip :: bool
  buffer_held :: bool

definition rendererTestCapabilities :: "gl_test \<Rightarrow> gl_caps \<Rightarrow> gl_caps" where
  "rendererTestCapabilities T C =
     (if no_display T then C
      else if \<not> test_alloc_ok T then C\<lparr>legacy_drawing := True\<rparr>
      else if \<not> test_lock_ok T then C\<lparr>legacy_drawing := True\<rparr>
      else if \<not> client_buffer_ok T then C\<lparr>legacy_drawing := True\<rparr>
      else if \<not> image_ok T then
        (if image_bad_parameter T then C\<lparr>flip := True\<rparr> else C\<lparr>legacy_drawing := True\<rparr>)
      else if \<not> config_ok T \<or> \<not> context_ok T \<or> \<not> current_ok T then C\<lparr>buffer_held := True\<rparr>
      else if pixel T = 0xAABBCCDD then C\<lparr>flip := True\<rparr>
      else if pixel T \<noteq> 0xAADDCCBB then C\<lparr>legacy_drawing := True\<rparr>
      else C)"

text \<open>With a working display, hardware buffers in native order are kept exactly when the test ran to its end
  and read the pixel back with red and blue exchanged; the test that stops half way keeps its buffer.\<close>

lemma capabilities_default_kept:
  assumes "\<not> no_display T" and "\<not> legacy_drawing C" and "\<not> flip C" and "\<not> buffer_held C"
  shows "rendererTestCapabilities T C = C \<longleftrightarrow>
    test_alloc_ok T \<and> test_lock_ok T \<and> client_buffer_ok T \<and> image_ok T \<and> config_ok T \<and> context_ok T \<and> current_ok T \<and> pixel T = 0xAADDCCBB"
  using assms by (cases C) (auto simp: rendererTestCapabilities_def)

end
