(* ===== verification/Lorie_Screen.thy ===== *)
theory Lorie_Screen
  imports Lorie_Present Lorie_Pixmap Lorie_Renderer
begin

text \<open>
  The screen of \<^verbatim>\<open>lorie/InitOutput.c\<close>: the frame callback, resizing, the configuration sent by the activity and the
  command line. The frame callback and the renderer meet in the flags of the shared state.
\<close>

section \<open>State\<close>

text \<open>Windows with the pixmap they draw into, named by the address of its private record.\<close>

datatype wtree = Window (wpix: addr) (wkids: "wtree list")

text \<open>\<open>conn\<close>: there is a connection; \<open>alive\<close>: what \<^verbatim>\<open>lorieConnectionAlive\<close> answers. \<open>damage_full\<close> of the Present state says that the damage region of the screen pixmap is not empty.\<close>

record screen =
  pres :: present
  pix :: pixstate
  root_priv :: "LoriePixmapPriv option"
  priv_addr :: addr
  sinfo :: root_info
  wins :: wtree
  sh :: shared
  conn :: bool
  alive :: bool
  signals :: nat

datatype screen_error = BadAccess | FatalError int

section \<open>The frame callback\<close>

text \<open>Unlocking and locking the buffer makes its content visible to the texture.\<close>

definition refresh_lock :: "sys \<Rightarrow> LoriePixmapPriv \<Rightarrow> bstate \<Rightarrow> screen_error + (LoriePixmapPriv \<times> bstate)" where
  "refresh_lock Y priv B =
     (if plocked priv = 0 then Inr (priv, B)
      else case lock_object Y (pbuffer priv) (snd (unlock_object Y (pbuffer priv) B)) of (status, out, B') \<Rightarrow>
        if status \<noteq> 0 then Inl (FatalError status) else Inr (priv\<lparr>plocked := out_ptr out (plocked priv)\<rparr>, B'))"

definition publish_damage :: "sys \<Rightarrow> LoriePixmapPriv \<Rightarrow> screen \<Rightarrow> screen_error + screen" where
  "publish_damage Y priv S =
     (if damage_full (pres S) \<and> pbuffer priv \<noteq> 0 then
        case refresh_lock Y priv (bufs (pix S)) of
          Inl e \<Rightarrow> Inl e
        | Inr (priv', B) \<Rightarrow> Inr (S\<lparr>root_priv := Some priv', pix := (pix S)\<lparr>bufs := B\<rparr>,
              pres := (pres S)\<lparr>damage_full := False\<rparr>, sh := (sh S)\<lparr>drawRequested := True\<rparr>\<rparr>)
      else Inr S)"

definition signal_renderer :: "LoriePixmapPriv \<Rightarrow> screen \<Rightarrow> screen_error + screen" where
  "signal_renderer priv S =
     (if changes_wanted (sh S) then
        case LorieBuffer_description (pbuffer priv) (bufs (pix S)) of
          None \<Rightarrow> Inl BadAccess
        | Some d \<Rightarrow> Inr (S\<lparr>sh := (sh S)\<lparr>rootWindowTextureID := bid d\<rparr>, signals := signals S + 1\<rparr>)
      else Inr S)"

definition lorieRedraw :: "sys \<Rightarrow> screen \<Rightarrow> screen_error + screen" where
  "lorieRedraw Y S =
     (case next_frame (pres S) of
        None \<Rightarrow> Inl BadAccess
      | Some P \<Rightarrow>
          let S1 = S\<lparr>pres := P, sh := (sh S)\<lparr>waitForNextFrame := False\<rparr>\<rparr> in
          if \<not> alive S1 \<or> \<not> surfaceAvailable (sh S1) then Inr S1
          else case root_priv S1 of
            None \<Rightarrow> Inr S1
          | Some priv \<Rightarrow> (case publish_damage Y priv S1 of Inl e \<Rightarrow> Inl e | Inr S2 \<Rightarrow> signal_renderer priv S2))"

text \<open>A new connection of the activity.\<close>

definition lorieActivityConnected :: "bytes \<Rightarrow> screen \<Rightarrow> screen option" where
  "lorieActivityConnected handle S =
     (let S1 = S\<lparr>sh := (sh S)\<lparr>drawRequested := True, cursor_updated := True\<rparr>,
                pix := (pix S)\<lparr>sent := sent (pix S) @ lorieSendSharedServerState (conn S)\<rparr>\<rparr> in
      case root_priv S1 of
        None \<Rightarrow> Some S1
      | Some priv \<Rightarrow> Option.bind (LorieBuffer_description (pbuffer priv) (bufs (pix S1))) (\<lambda>d.
          if pbuffer priv = 0 then Some S1
          else case lorieRegisterBuffer (conn S1) (bid d) handle (registered (pix S1)) of (msg, reg) \<Rightarrow>
            Some (S1\<lparr>pix := (pix S1)\<lparr>registered := reg, sent := sent (pix S1) @ msg\<rparr>\<rparr>)))"

definition lorieFramecounter :: "shared \<Rightarrow> shared \<times> int option" where
  "lorieFramecounter s = (s\<lparr>renderedFrames := 0\<rparr>, if renderedFrames s \<noteq> 0 then Some (renderedFrames s) else None)"

section \<open>Resizing\<close>

text \<open>\<^verbatim>\<open>TraverseTree\<close> with \<^verbatim>\<open>lorieSetPixmapVisitWindow\<close>: windows that share the old pixmap get the new one, and only below them is
  the walk continued.\<close>

primrec lorieSetPixmapVisitWindow :: "addr \<Rightarrow> addr \<Rightarrow> wtree \<Rightarrow> wtree" where
  "lorieSetPixmapVisitWindow old new (Window p ks) =
     (if p = old then Window new (map (lorieSetPixmapVisitWindow old new) ks) else Window p ks)"

text \<open>\<open>a\<close> is the answer of \<^verbatim>\<open>calloc\<close> for the new private record. \<open>None\<close> is a crash: the pixmap that could not be created is
  used, or a buffer that does not exist is.\<close>

definition lorieRRScreenSetSize :: "sys \<Rightarrow> addr \<Rightarrow> bytes \<Rightarrow> int \<Rightarrow> int \<Rightarrow> screen \<Rightarrow> screen option" where
  "lorieRRScreenSetSize Y a handle w h S =
     Option.bind (loriePerformVblanks (pres S)) (\<lambda>P.
       let info = (sinfo S)\<lparr>root_width := w, root_height := h\<rparr> in
       case lorieCreatePixmap Y info a w h True (bufs (pix S)) of
         (None, B) \<Rightarrow> None
       | (Some (new, pitch), B) \<Rightarrow>
           Option.bind
             (case root_priv S of
                None \<Rightarrow> Some (new, (pix S)\<lparr>bufs := B\<rparr>, wins S)
              | Some old \<Rightarrow> (case lorieSetWindowPixmap Y old new B of (old', new', B1) \<Rightarrow>
                  Option.bind (lorieExaDestroyPixmap Y (conn S) (priv_addr S) old' ((pix S)\<lparr>bufs := B1\<rparr>)) (\<lambda>X.
                    Some (new', X, lorieSetPixmapVisitWindow (priv_addr S) a (wins S)))))
             (\<lambda>(new', X, ws).
               Option.bind (LorieBuffer_description (pbuffer new') (bufs X)) (\<lambda>d.
                 case (if pbuffer new' = 0 then ([], registered X) else lorieRegisterBuffer (conn S) (bid d) handle (registered X)) of (msg, reg) \<Rightarrow>
                   Some (S\<lparr>pres := P\<lparr>damage_full := root_priv S \<noteq> None\<rparr>, sinfo := info, root_priv := Some new', priv_addr := a,
                      wins := ws, pix := X\<lparr>registered := reg, sent := sent X @ msg\<rparr>, sh := (sh S)\<lparr>cursor_moved := True\<rparr>\<rparr>))))"

section \<open>The configuration sent by the activity\<close>

record output_config =
  root_name :: bytes
  output_name :: bytes
  framerate :: nat
  vblank_interval :: nat
  mode_size :: "int \<times> int"
  millimetres :: "int \<times> int"

text \<open>\<^verbatim>\<open>strncpy\<close> into an array, with the zero padding of the C function.\<close>

definition strncpy :: "bytes \<Rightarrow> bytes \<Rightarrow> nat \<Rightarrow> bytes" where
  "strncpy dst src n = take n (c_string src @ replicate n 0) @ drop n dst"

definition set_names :: "bytes \<Rightarrow> nat \<Rightarrow> output_config \<Rightarrow> output_config" where
  "set_names name name_size C =
     (let n = (if name_size < 1024 then name_size else 1024); cleared = replicate 1024 0
      in C\<lparr>root_name := strncpy cleared name n, output_name := (strncpy cleared name n)[1023 := 0]\<rparr>)"

text \<open>The mode libxcvt generates and the conversion to millimetres are arguments. The last component of the result is
  the size to which the screen is to be set.\<close>

definition lorieConfigureNotify ::
  "(int \<Rightarrow> int \<Rightarrow> nat \<Rightarrow> int \<times> int) \<Rightarrow> (int \<Rightarrow> int) \<Rightarrow> bool \<Rightarrow> int \<Rightarrow> int \<Rightarrow> nat \<Rightarrow> nat \<Rightarrow> bytes option \<Rightarrow> int \<times> int \<Rightarrow> output_config \<Rightarrow>
     output_config \<times> (int \<times> int) option" where
  "lorieConfigureNotify lorieCvt mm output w h rate name_size name current C =
     (let rate' = (if rate \<noteq> 0 then rate else 30);
          C1 = (case name of Some nm \<Rightarrow> if output then set_names nm name_size C else C | None \<Rightarrow> C) in
      if output \<and> w \<noteq> 0 \<and> h \<noteq> 0 \<and> (fst current \<noteq> w \<or> snd current \<noteq> h \<or> framerate C1 \<noteq> rate') then
        let m = lorieCvt w h rate'
        in (C1\<lparr>mode_size := m, millimetres := (mm (fst m), mm (fst m)), framerate := rate', vblank_interval := 1000000 div rate'\<rparr>, Some m)
      else (C1, None))"

section \<open>The command line\<close>

record server_args =
  xstartup :: "string option"
  arg_legacy :: bool
  arg_flip :: bool
  arg_dri3 :: bool
  arg_sysvshm :: bool
  no_listen :: bool
  squares_queued :: nat

definition missing_argument :: int where "missing_argument = 1"

text \<open>The argument at the head of the rest of the command line: how many arguments were consumed.\<close>

definition ddxProcessArgument :: "string list \<Rightarrow> server_args \<Rightarrow> screen_error + (nat \<times> server_args)" where
  "ddxProcessArgument argv A =
     (case argv of
        [] \<Rightarrow> Inr (0, A)
      | arg # rest \<Rightarrow>
          if arg = ''-xstartup'' then
            (case rest of [] \<Rightarrow> Inl (FatalError missing_argument) | c # _ \<Rightarrow> Inr (2, A\<lparr>xstartup := Some c\<rparr>))
          else if arg = ''-legacy-drawing'' then Inr (1, A\<lparr>arg_legacy := True\<rparr>)
          else if arg = ''-force-bgra'' then Inr (1, A\<lparr>arg_flip := True\<rparr>)
          else if arg = ''-disable-dri3'' then Inr (1, A\<lparr>arg_dri3 := False\<rparr>)
          else if arg = ''-force-sysvshm'' then Inr (1, A\<lparr>arg_sysvshm := True\<rparr>)
          else if arg = ''-check-drawing'' then Inr (1, A\<lparr>no_listen := True, squares_queued := squares_queued A + 1\<rparr>)
          else Inr (0, A))"

text \<open>What is started once the server is ready: the command line beats the environment, and an empty command
  on the command line starts nothing.\<close>

definition ddxReady :: "string option \<Rightarrow> server_args \<Rightarrow> string option" where
  "ddxReady env A =
     (if no_listen A then None
      else case xstartup A of
        Some c \<Rightarrow> if c = [] then None else Some c
      | None \<Rightarrow> (case env of Some c \<Rightarrow> if c = [] then None else Some c | None \<Rightarrow> None))"

section \<open>Server and renderer together\<close>

text \<open>\<open>content\<close> counts the changes of what the root window shows, \<open>shown\<close> is the count at the last time the renderer drew
  the buffer of the root window. The flags of the shared state live in the memory of the renderer.\<close>

record world =
  scr :: screen
  ren :: renderer
  content :: nat
  shown :: nat

definition flags :: "world \<Rightarrow> shared" where
  "flags W = shm (ren W) (state (ren W))"

definition root_id :: "screen \<Rightarrow> u64 option" where
  "root_id S = Option.bind (root_priv S) (\<lambda>priv. map_option bid (LorieBuffer_description (pbuffer priv) (bufs (pix S))))"

inductive frame_step :: "world \<Rightarrow> world \<Rightarrow> bool" where
  draw: "frame_step W (W\<lparr>scr := (scr W)\<lparr>pres := (pres (scr W))\<lparr>damage_full := True\<rparr>\<rparr>, content := content W + 1\<rparr>)"
| flip: "frame_step W (W\<lparr>scr := (scr W)\<lparr>root_priv := Some priv, pres := loriePresentAfterFlip i m (pres (scr W))\<rparr>, content := content W + 1\<rparr>)"
| frame: "lorieRedraw Y ((scr W)\<lparr>sh := flags W\<rparr>) = Inr S \<Longrightarrow>
    frame_step W (W\<lparr>scr := S, ren := set_shared (\<lambda>_. sh S) (ren W)\<rparr>)"
| render: "redraw_if_needed (ren W) = Some R \<Longrightarrow>
    frame_step W (W\<lparr>ren := R, shown := (if drawn R \<noteq> drawn (ren W) \<and> root_id (scr W) = Some (last (drawn R)) then content W else shown W)\<rparr>)"
| window: "frame_step W (W\<lparr>ren := rendererRefreshContext G (ren W)\<rparr>)"

text \<open>A change that is not shown is either still damage, or it is requested from the renderer under the right
  buffer, or there is no surface to show it on.\<close>

definition change_pending :: "world \<Rightarrow> bool" where
  "change_pending W \<longleftrightarrow> state (ren W) \<noteq> 0 \<and> (shown W \<noteq> content W \<longrightarrow> damage_full (pres (scr W)) \<or>
     root_id (scr W) = Some (rootWindowTextureID (flags W)) \<and> (drawRequested (flags W) \<or> \<not> surfaceAvailable (flags W)))"

definition frame_start :: "world \<Rightarrow> bool" where
  "frame_start W \<longleftrightarrow> state (ren W) \<noteq> 0 \<and> shown W = content W"

section \<open>Lemmas: frames\<close>

lemma description_after_lock:
  "LorieBuffer_description q (snd (snd (lock_object Y p B))) = LorieBuffer_description q B"
proof (cases "object p B")
  case None
  then show ?thesis by (simp add: lock_object_def LorieBuffer_lock_def)
next
  case (Some b)
  then have b: "objs B p = Some b" by (simp add: object_def split: if_splits)
  obtain r out x y where "lock_object Y p B = (r, out, B\<lparr>objs := (objs B)(p \<mapsto> b\<lparr>lockedData := y, locked := x\<rparr>)\<rparr>)"
    using lock_object_shape [OF Some] by blast
  then show ?thesis using b by (simp add: LorieBuffer_description_def)
qed

lemma description_after_unlock:
  "LorieBuffer_description q (snd (unlock_object Y p B)) = LorieBuffer_description q B"
proof (cases "object p B")
  case None
  then show ?thesis by (simp add: unlock_object_def LorieBuffer_unlock_def)
next
  case (Some b)
  then have b: "objs B p = Some b" by (simp add: object_def split: if_splits)
  obtain r x y where "unlock_object Y p B = (r, B\<lparr>objs := (objs B)(p \<mapsto> b\<lparr>lockedData := y, locked := x\<rparr>)\<rparr>)"
    using unlock_object_shape [OF Some] by blast
  then show ?thesis using b by (simp add: LorieBuffer_description_def)
qed

lemma refresh_lock_keeps:
  assumes "refresh_lock Y priv B = Inr (priv', B')"
  shows "pbuffer priv' = pbuffer priv \<and> LorieBuffer_description q B' = LorieBuffer_description q B"
proof (cases "plocked priv = 0")
  case False
  let ?l = "lock_object Y (pbuffer priv) (snd (unlock_object Y (pbuffer priv) B))"
  have "priv' = priv\<lparr>plocked := out_ptr (fst (snd ?l)) (plocked priv)\<rparr>" "B' = snd (snd ?l)"
    using assms False by (auto simp: refresh_lock_def case_prod_beta split: if_splits)
  then show ?thesis by (simp add: description_after_lock description_after_unlock)
qed (use assms in \<open>simp add: refresh_lock_def\<close>)

lemma perform_loop_damage:
  assumes "perform_loop pos P = Some P'"
  shows "damage_full P' = damage_full P"
proof -
  from _ assms have "(\<lambda>(pos, P) P'. damage_full P' = damage_full P) (pos, P) P'"
  proof (rule perform_loop.raw_induct, goal_cases)
    case (1 f pos P y)
    show ?case
    proof (cases "pos = vblank_queue")
      case True
      then show ?thesis using 1(2) by simp
    next
      case False
      then obtain v where v: "vcells P pos = Some v" using 1(2) by (cases "vcells P pos") simp_all
      let ?Q = "if vmsc v \<le> current_msc P then unlink_free pos (present_event_notify (vid v) (current_msc P) P) else P"
      have "f (nxt (vlinks P) pos) ?Q = Some y" using 1(2) False v by (simp add: Let_def split del: if_split)
      from 1(1) [OF this] show ?thesis by (simp add: unlink_free_def present_event_notify_def split: if_splits)
    qed
  qed
  then show ?thesis by simp
qed

lemma next_frame_damage: "next_frame P = Some P' \<Longrightarrow> damage_full P' = damage_full P"
  by (auto simp: next_frame_def loriePerformVblanks_def dest: perform_loop_damage)

text \<open>What one step of the frame callback does with the damage: it keeps it, or it turns it into a request.\<close>

lemma publish_damage_cases:
  assumes "publish_damage Y priv S = Inr S'"
  obtains (kept) "S' = S" "damage_full (pres S) \<longrightarrow> pbuffer priv = 0"
  | (published) priv' B where "pbuffer priv' = pbuffer priv" "\<And>q. LorieBuffer_description q B = LorieBuffer_description q (bufs (pix S))"
      "S' = S\<lparr>root_priv := Some priv', pix := (pix S)\<lparr>bufs := B\<rparr>, pres := (pres S)\<lparr>damage_full := False\<rparr>,
        sh := (sh S)\<lparr>drawRequested := True\<rparr>\<rparr>"
proof (cases "damage_full (pres S) \<and> pbuffer priv \<noteq> 0")
  case False
  with assms show thesis by (intro kept) (auto simp: publish_damage_def)
next
  case True
  with assms obtain priv' B where r: "refresh_lock Y priv (bufs (pix S)) = Inr (priv', B)" and S': "S' = S\<lparr>root_priv := Some priv',
      pix := (pix S)\<lparr>bufs := B\<rparr>, pres := (pres S)\<lparr>damage_full := False\<rparr>, sh := (sh S)\<lparr>drawRequested := True\<rparr>\<rparr>"
    by (auto simp: publish_damage_def split: sum.splits)
  show thesis using refresh_lock_keeps [OF r] S' by (intro published [of priv' B]) simp_all
qed

text \<open>The outcomes of the frame callback, as the renderer sees them.\<close>

definition redraw_effect :: "screen \<Rightarrow> screen \<Rightarrow> bool" where
  "redraw_effect S S' \<longleftrightarrow> root_id S' = root_id S \<and> surfaceAvailable (sh S') = surfaceAvailable (sh S) \<and> \<not> waitForNextFrame (sh S')
     \<and> (damage_full (pres S') = damage_full (pres S) \<and> drawRequested (sh S') = drawRequested (sh S) \<and>
          (rootWindowTextureID (sh S') = rootWindowTextureID (sh S) \<or> root_id S = Some (rootWindowTextureID (sh S')))
        \<or> \<not> damage_full (pres S') \<and> drawRequested (sh S') \<and> root_id S = Some (rootWindowTextureID (sh S')))"

lemma signal_effect:
  assumes "signal_renderer priv S = Inr S'" and "root_priv S = Some priv'" and "pbuffer priv' = pbuffer priv"
  shows "root_id S' = root_id S" "surfaceAvailable (sh S') = surfaceAvailable (sh S)" "waitForNextFrame (sh S') = waitForNextFrame (sh S)"
    "damage_full (pres S') = damage_full (pres S)" "drawRequested (sh S') = drawRequested (sh S)"
    "if changes_wanted (sh S) then root_id S = Some (rootWindowTextureID (sh S')) else sh S' = sh S"
  using assms by (auto simp: signal_renderer_def root_id_def split: if_splits option.splits)

lemma lorieRedraw_effect:
  assumes "lorieRedraw Y S = Inr S'"
  shows "redraw_effect S S'"
proof -
  obtain P where P: "next_frame (pres S) = Some P" using assms by (auto simp: lorieRedraw_def split: option.splits)
  define S1 where "S1 = S\<lparr>pres := P, sh := (sh S)\<lparr>waitForNextFrame := False\<rparr>\<rparr>"
  have S1: "root_id S1 = root_id S" "damage_full (pres S1) = damage_full (pres S)" "sh S1 = (sh S)\<lparr>waitForNextFrame := False\<rparr>"
    using next_frame_damage [OF P] by (simp_all add: S1_def root_id_def)
  show ?thesis
  proof (cases "S' = S1")
    case True
    then show ?thesis using S1 by (simp add: redraw_effect_def)
  next
    case False
    then obtain priv S2 where priv: "root_priv S1 = Some priv" and p: "publish_damage Y priv S1 = Inr S2"
      and g: "signal_renderer priv S2 = Inr S'"
      using assms P by (auto simp: lorieRedraw_def S1_def [symmetric] Let_def split: if_splits option.splits sum.splits)
    from p show ?thesis
    proof (cases rule: publish_damage_cases)
      case kept
      then show ?thesis using signal_effect [OF g, of priv] priv S1 by (auto simp: redraw_effect_def split: if_splits)
    next
      case (published priv' B)
      have "root_id S2 = root_id S1" using published priv by (simp add: root_id_def)
      moreover have "changes_wanted (sh S2)" "root_priv S2 = Some priv'" "\<not> damage_full (pres S2)" "drawRequested (sh S2)"
        "surfaceAvailable (sh S2) = surfaceAvailable (sh S)" "\<not> waitForNextFrame (sh S2)"
        using published(3) S1(3) by (simp_all add: changes_wanted_def)
      ultimately show ?thesis using signal_effect [OF g, of priv'] published(1) S1 by (auto simp: redraw_effect_def)
    qed
  qed
qed

text \<open>The outcomes of a redraw and of a change of window, as the server sees them.\<close>

lemma redraw_if_needed_effect:
  assumes "redraw_if_needed R = Some R'"
  shows "state R' = state R" and "drawn R' = drawn R \<and> shm R' = shm R
    \<or> drawn R' = drawn R @ [rootWindowTextureID (shm R (state R))] \<and> rootWindowTextureID (shm R' (state R)) = rootWindowTextureID (shm R (state R))"
proof -
  have "state R' = state R \<and> (drawn R' = drawn R \<and> shm R' = shm R
    \<or> drawn R' = drawn R @ [rootWindowTextureID (shm R (state R))] \<and> rootWindowTextureID (shm R' (state R)) = rootWindowTextureID (shm R (state R)))"
    using assms
    by (auto simp: redraw_if_needed_def rendererRedrawLocked_def Let_def bind_eq_Some_conv set_shared_def split: if_splits option.splits)
  then show "state R' = state R" and "drawn R' = drawn R \<and> shm R' = shm R
    \<or> drawn R' = drawn R @ [rootWindowTextureID (shm R (state R))] \<and> rootWindowTextureID (shm R' (state R)) = rootWindowTextureID (shm R (state R))"
    by simp_all
qed

lemma refresh_context_effect:
  assumes "state R \<noteq> 0"
  shows "let R' = rendererRefreshContext G R; s = shm R (state R); s' = shm R' (state R) in state R' = state R
    \<and> rootWindowTextureID s' = rootWindowTextureID s \<and> (s' = s \<or> \<not> surfaceAvailable s' \<or> drawRequested s')"
proof -
  have "state (take_window G R) \<noteq> 0" using assms by simp
  then show ?thesis unfolding rendererRefreshContext_def by (auto simp: use_window_def Let_def set_shared_def)
qed

section \<open>No change of the screen is lost\<close>

lemma change_pending_step:
  assumes "change_pending W" and "frame_step W W'"
  shows "change_pending W'"
  using assms(2)
proof cases
  case draw
  then show ?thesis using assms(1) by (simp add: change_pending_def)
next
  case (flip priv i m)
  then show ?thesis using assms(1)
    by (simp add: change_pending_def loriePresentAfterFlip_def present_event_notify_def Let_def)
next
  case (frame Y S)
  have st: "state (ren W) \<noteq> 0" using assms(1) by (simp add: change_pending_def)
  have "root_id ((scr W)\<lparr>sh := flags W\<rparr>) = root_id (scr W)" by (simp add: root_id_def)
  moreover have "flags W' = sh S" using st by (simp add: frame(1) flags_def)
  ultimately show ?thesis
    using lorieRedraw_effect [OF frame(2)] assms(1) st by (auto simp: change_pending_def redraw_effect_def frame(1))
next
  case (render R)
  note e = redraw_if_needed_effect [OF render(2)]
  from e(2) show ?thesis
  proof
    assume "drawn R = drawn (ren W) \<and> shm R = shm (ren W)"
    then show ?thesis using assms(1) e(1) by (simp add: change_pending_def flags_def render(1))
  next
    assume d: "drawn R = drawn (ren W) @ [rootWindowTextureID (shm (ren W) (state (ren W)))] \<and>
      rootWindowTextureID (shm R (state (ren W))) = rootWindowTextureID (shm (ren W) (state (ren W)))"
    then show ?thesis using assms(1) e(1) by (auto simp: change_pending_def flags_def render(1))
  qed
next
  case (window G)
  have st: "state (ren W) \<noteq> 0" using assms(1) by (simp add: change_pending_def)
  show ?thesis
    using refresh_context_effect [OF st, of G] assms(1) by (auto simp: change_pending_def flags_def window Let_def)
qed

lemma change_pending_start: "frame_start W \<Longrightarrow> change_pending W"
  by (simp add: frame_start_def change_pending_def)

interpretation frames: transition_system frame_start frame_step change_pending
  by unfold_locales (rule change_pending_start, assumption, rule change_pending_step)


definition sample_screen :: screen where
  "sample_screen = \<lparr>pres = present_start, pix = sample_drawn, root_priv = Some sample_priv, priv_addr = 8, sinfo = sample_root,
     wins = Window 8 [], sh = sample_shared_state, conn = True, alive = True, signals = 0\<rparr>"

definition sample_world :: world where
  "sample_world = \<lparr>scr = sample_screen, ren = sample_renderer, content = 0, shown = 0\<rparr>"


text \<open>
  C9. A change reaches the screen: with the activity connected, a surface and the buffer of the root window in the
  renderer's lists, one frame callback followed by one redraw draws that buffer, clears the
  requests and holds the renderer until the next frame.
\<close>

theorem frame_reaches_screen:
  assumes "lorieRedraw Y S = Inr S'" and "damage_full (pres S)" and "alive S" and "surfaceAvailable (sh S)"
    and "root_priv S = Some priv" and "pbuffer priv \<noteq> 0" and "holds_bufs (rb R) A" and "state R \<noteq> 0" and "shm R (state R) = sh S'"
    and "\<exists>p\<in>set (attached A @ removed A). root_id S = Some (ident A p)"
  shows "\<not> damage_full (pres S') \<and> signals S' = signals S + 1 \<and> (\<exists>R' i. redraw_if_needed R = Some R' \<and> root_id S = Some i \<and> drawn R' = drawn R @ [i]
    \<and> \<not> changes_wanted (shm R' (state R')) \<and> waitForNextFrame (shm R' (state R')))"
proof -
  obtain P where P: "next_frame (pres S) = Some P" using assms(1) by (auto simp: lorieRedraw_def split: option.splits)
  define S1 where "S1 = S\<lparr>pres := P, sh := (sh S)\<lparr>waitForNextFrame := False\<rparr>\<rparr>"
  have d: "damage_full (pres S1)" using next_frame_damage [OF P] assms(2) by (simp add: S1_def)
  obtain S2 where p: "publish_damage Y priv S1 = Inr S2" and g: "signal_renderer priv S2 = Inr S'"
    using assms(1,3-5) P by (auto simp: lorieRedraw_def S1_def Let_def split: if_splits option.splits sum.splits)
  from p have S2: "\<not> damage_full (pres S2)" "drawRequested (sh S2)" "signals S2 = signals S"
    using d assms(6) by (cases rule: publish_damage_cases; simp add: S1_def)+
  have S': "\<not> damage_full (pres S')" "drawRequested (sh S')" "signals S' = signals S + 1"
    using g S2 by (auto simp: signal_renderer_def changes_wanted_def split: option.splits)
  have e: "redraw_effect S S'" using assms(1) by (rule lorieRedraw_effect)
  then have i: "root_id S = Some (rootWindowTextureID (sh S'))" and w: "surfaceAvailable (sh S')" "\<not> waitForNextFrame (sh S')"
    using S' assms(2,4) by (auto simp: redraw_effect_def)
  let ?i = "rootWindowTextureID (shm R (state R))"
  have "find (\<lambda>p. ident A p = ?i) (attached A) \<noteq> None \<or> find (\<lambda>p. ident A p = ?i) (removed A) \<noteq> None"
    using assms(9,10) i by (auto simp: find_None_iff)
  then have "rendererRedrawLocked R = Some (set_shared (\<lambda>s. s\<lparr>drawRequested := False, cursor_updated := False, cursor_moved := False,
        waitForNextFrame := True, renderedFrames := renderedFrames s + 1\<rparr>) (R\<lparr>drawn := drawn R @ [?i]\<rparr>))"
    by (auto simp: rendererRedrawLocked_def Let_def find_listed [OF assms(7)] split: option.split)
  moreover have "redraw_if_needed R = rendererRedrawLocked R"
    using assms(8,9) S' w by (simp add: redraw_if_needed_def changes_wanted_def Let_def)
  ultimately show ?thesis
    using S' i assms(8,9) by (auto simp: set_shared_def changes_wanted_def)
qed

lemma sample_frame: "\<exists>P. next_frame (present_start\<lparr>damage_full := True\<rparr>) = Some P"
  by (simp add: next_frame_def loriePerformVblanks_def perform_loop.simps present_start_def xorg_list_init_def)

theorem frame_reaches_screen_witness:
  "\<exists>S' R R' i. lorieRedraw sample_sys (sample_screen\<lparr>pres := present_start\<lparr>damage_full := True\<rparr>\<rparr>) = Inr S'
    \<and> redraw_if_needed R = Some R' \<and> drawn R' = drawn R @ [i] \<and> waitForNextFrame (shm R' (state R'))"
proof -
  let ?S = "sample_screen\<lparr>pres := present_start\<lparr>damage_full := True\<rparr>\<rparr>" let ?ops = "[Receive 64 sample_buffer, Attach sample_sys]"
  obtain P where P: "next_frame (present_start\<lparr>damage_full := True\<rparr>) = Some P" using sample_frame by blast
  have dP: "damage_full P" using next_frame_damage [OF P] by simp
  obtain S' where S': "lorieRedraw sample_sys ?S = Inr S'"
    using P dP by (simp add: lorieRedraw_def publish_damage_def refresh_lock_def signal_renderer_def changes_wanted_def Let_def
        LorieBuffer_description_def sample_screen_def sample_shared_state_def sample_priv_simps)
  have "empty_lists sample_bstate" by (simp add: empty_lists_def three_def ring_def sample_bstate_def)
  moreover have "run_ok buf_ok buf_do [Attach sample_sys] B" for B by (rule run_ok_without_receive) simp
  then have "run_ok buf_ok buf_do ?ops sample_bstate"
    by (subst run_ok.simps) (simp add: buf_ok_def buf_do_def list_heads sample_buffer_simps del: run_ok.simps)
  ultimately obtain B where B: "holds_bufs B (fold abs_do ?ops no_bufs)"
    using renderer_lists.run_refines [OF empty_holds] by blast
  have A: "fold abs_do ?ops no_bufs = no_bufs\<lparr>attached := [64], ident := (\<lambda>_. 0)(64 := 3)\<rparr>"
    by (simp add: abs_do_def no_bufs_def sample_buffer_simps)
  have id: "root_id ?S = Some 3" by (simp add: root_id_def LorieBuffer_description_def sample_screen_def sample_priv_simps)
  let ?R = "sample_renderer\<lparr>rb := B, shm := (\<lambda>_. sh S')\<rparr>"
  have sel: "root_priv ?S = Some sample_priv" "pbuffer sample_priv \<noteq> 0" "alive ?S" "surfaceAvailable (sh ?S)" "state ?R \<noteq> 0"
    by (simp_all add: sample_screen_def sample_shared_state_def sample_priv_def zero_priv_def sample_renderer_def)
  have "\<exists>R' i. redraw_if_needed ?R = Some R' \<and> root_id ?S = Some i \<and> drawn R' = drawn ?R @ [i]
      \<and> \<not> changes_wanted (shm R' (state R')) \<and> waitForNextFrame (shm R' (state R'))"
    using frame_reaches_screen [OF S' _ sel(3,4,1,2), of ?R "no_bufs\<lparr>attached := [64], ident := (\<lambda>_. 0)(64 := 3)\<rparr>"]
      B [unfolded A] sel(5) id by simp
  then show ?thesis using S' by blast
qed

section \<open>Resizing\<close>

text \<open>Locks leave what a buffer is and how often it is referenced alone.\<close>

definition same_buffers :: "bstate \<Rightarrow> bstate \<Rightarrow> bool" where
  "same_buffers B B' \<longleftrightarrow> (\<forall>p. map_option (\<lambda>b. (desc b, refcount b)) (objs B' p) = map_option (\<lambda>b. (desc b, refcount b)) (objs B p))"

lemma same_buffers_refl [simp]: "same_buffers B B"
  by (simp add: same_buffers_def)

lemma same_buffers_trans: "same_buffers A B \<Longrightarrow> same_buffers B C \<Longrightarrow> same_buffers A C"
  by (simp add: same_buffers_def)

lemma same_buffers_upd: "objs B p = Some b \<Longrightarrow> same_buffers B (B\<lparr>objs := (objs B)(p \<mapsto> b\<lparr>lockedData := y, locked := x\<rparr>)\<rparr>)"
  by (simp add: same_buffers_def)

lemma lock_same: "same_buffers B (snd (snd (lock_object Y p B)))"
proof (cases "object p B")
  case (Some b)
  then show ?thesis using lock_object_shape [OF Some, of Y] same_buffers_upd [of B p b] by (auto simp: object_def split: if_splits)
qed (simp add: lock_object_def LorieBuffer_lock_def)

lemma unlock_same: "same_buffers B (snd (unlock_object Y p B))"
proof (cases "object p B")
  case (Some b)
  then show ?thesis using unlock_object_shape [OF Some, of Y] same_buffers_upd [of B p b] by (auto simp: object_def split: if_splits)
qed (simp add: unlock_object_def LorieBuffer_unlock_def)

lemma set_window_pixmap_same:
  assumes "lorieSetWindowPixmap Y old new B = (old', new', B')"
  shows "same_buffers B B' \<and> pbuffer old' = pbuffer old \<and> pbuffer new' = pbuffer new"
proof -
  let ?U = "unlock_old Y old B" let ?N = "lock_new Y new (snd ?U)"
  have e: "old' = fst ?U" "new' = fst ?N" "B' = snd ?N" using assms by (auto simp: lorieSetWindowPixmap_def case_prod_beta)
  have u: "same_buffers B (snd ?U)" "pbuffer (fst ?U) = pbuffer old" by (simp_all add: unlock_old_def unlock_same)
  have "same_buffers (snd ?U) (snd ?N)" "pbuffer (fst ?N) = pbuffer new"
    using lock_same [of "snd ?U" Y "pbuffer new"] by (simp_all add: lock_new_def case_prod_beta)
  with u show ?thesis unfolding e using same_buffers_trans by blast
qed

lemma allocated_object:
  assumes "LorieBuffer_allocate Y w h f ty B = (Some p, B')"
  shows "p = calloc_buffer Y \<and> (\<exists>b. objs B' = (objs B)(p \<mapsto> b) \<and> bid (desc b) = next_id B)"
  using assms
  by (auto simp: LorieBuffer_allocate_def allocate_def Let_def store_buffer_def new_buffer_def split: if_splits prod.splits)

lemma created_pixmap:
  assumes "lorieCreatePixmap Y R a w h backed B = (Some (new, pitch), B')" and "w \<noteq> 0" and "h \<noteq> 0"
  shows "pbuffer new = calloc_buffer Y \<and> calloc_buffer Y \<noteq> 0 \<and> (\<exists>b. bid (desc b) = next_id B \<and> (\<forall>q.
    map_option (\<lambda>b. (desc b, refcount b)) (objs B' q) = map_option (\<lambda>b. (desc b, refcount b)) (((objs B)(calloc_buffer Y \<mapsto> b)) q)))"
proof -
  have a: "a \<noteq> 0" using assms(1) by (intro notI) (simp add: lorieCreatePixmap_def)
  let ?B = "B\<lparr>own := gain_block a (own B)\<rparr>"
  obtain p B2 where al: "LorieBuffer_allocate Y w h (buffer_format R) (buffer_type R backed) ?B = (Some p, B2)"
    and l: "pbuffer new = p" "B' = snd (snd (lock_object Y p B2))"
    using assms a by (auto simp: lorieCreatePixmap_def zero_priv_def split: prod.splits option.splits)
  show ?thesis
    using allocated_object [OF al] created_buffer_live [OF al] lock_same [of B2 Y p] l by (auto simp: same_buffers_def)
qed

lemma release_last:
  assumes "p \<noteq> 0" and "objs B p = Some b" and "refcount b = 1"
  shows "\<exists>B'. LorieBuffer_release p B = Some B' \<and> objs B' = (objs B)(p := None)"
  using assms by (simp add: LorieBuffer_release_def LorieBuffer_free_def Let_def)

text \<open>
  A resize replaces the buffer of the root window everywhere: the new one is allocated at the new size, locked in
  for the screen and registered with the activity, the old one is unregistered and freed.
\<close>

theorem resize_replaces_root_buffer:
  assumes "lorieRRScreenSetSize Y a handle w h S = Some S'" and "w \<noteq> 0" and "h \<noteq> 0" and "conn S"
    and "root_priv S = Some old" and "pbuffer old \<noteq> 0" and "objs (bufs (pix S)) (pbuffer old) = Some bo" and "refcount bo = 1"
    and "calloc_buffer Y \<noteq> pbuffer old" and "next_id (bufs (pix S)) \<noteq> bid (desc bo)" and "distinct (registered (pix S))"
  shows "root_width (sinfo S') = w \<and> root_height (sinfo S') = h \<and> root_id S' = Some (next_id (bufs (pix S)))
    \<and> next_id (bufs (pix S)) \<in> set (registered (pix S')) \<and> bid (desc bo) \<notin> set (registered (pix S'))
    \<and> objs (bufs (pix S')) (pbuffer old) = None"
proof -
  let ?info = "(sinfo S)\<lparr>root_width := w, root_height := h\<rparr>" let ?n = "next_id (bufs (pix S))"
  obtain P where P: "loriePerformVblanks (pres S) = Some P" using assms(1) by (auto simp: lorieRRScreenSetSize_def bind_eq_Some_conv)
  obtain q B where c0: "lorieCreatePixmap Y ?info a w h True (bufs (pix S)) = (q, B)" by fastforce
  have "q \<noteq> None" using assms(1) c0 P by (intro notI) (simp add: lorieRRScreenSetSize_def Let_def)
  then obtain new pitch where c: "lorieCreatePixmap Y ?info a w h True (bufs (pix S)) = (Some (new, pitch), B)" using c0 by auto
  obtain old' new' B1 where sw: "lorieSetWindowPixmap Y old new B = (old', new', B1)" using prod_cases3 by blast
  note sb = set_window_pixmap_same [OF sw]
  obtain b where b: "bid (desc b) = ?n" and B: "\<And>q. map_option (\<lambda>b. (desc b, refcount b)) (objs B1 q) =
      map_option (\<lambda>b. (desc b, refcount b)) (((objs (bufs (pix S)))(calloc_buffer Y \<mapsto> b)) q)"
    and new: "pbuffer new = calloc_buffer Y" "calloc_buffer Y \<noteq> 0"
    using created_pixmap [OF c assms(2,3)] sb by (auto simp: same_buffers_def)
  obtain bo' where bo': "objs B1 (pbuffer old) = Some bo'" "desc bo' = desc bo" "refcount bo' = 1"
    using B [of "pbuffer old"] assms(7-9) by auto
  obtain bn where bn: "objs B1 (calloc_buffer Y) = Some bn" "desc bn = desc b" using B [of "calloc_buffer Y"] by auto
  obtain B2 where B2: "LorieBuffer_release (pbuffer old) B1 = Some B2" "objs B2 = (objs B1)(pbuffer old := None)"
    using release_last [OF assms(6) bo'(1,3)] by blast
  obtain X where X: "lorieExaDestroyPixmap Y True (priv_addr S) old' ((pix S)\<lparr>bufs := B1\<rparr>) = Some X"
    "objs (bufs X) = (objs B1)(pbuffer old := None)"
    "registered X = snd (lorieUnregisterBuffer True (bid (desc bo)) (registered (pix S)))"
    using destroy_live [of old' "(pix S)\<lparr>bufs := B1\<rparr>" bo' B2 Y True "priv_addr S"] sb assms(6) bo' B2 by auto
  have live: "objs (bufs X) (calloc_buffer Y) = Some bn" using X(2) bn(1) assms(9) by simp
  have gone: "bid (desc bo) \<notin> set (registered X)" using X(3) assms(11) by (auto simp: lorieUnregisterBuffer_def)
  define r where "r = lorieRegisterBuffer True ?n handle (registered X)"
  have reg: "?n \<in> set (snd r)" "bid (desc bo) \<notin> set (snd r)" using gone assms(10) by (auto simp: r_def lorieRegisterBuffer_def)
  have desc: "LorieBuffer_description (pbuffer new') (bufs X) = Some (desc bn)" "pbuffer new' \<noteq> 0" "bid (desc bn) = ?n"
    using sb new live bn(2) b by (simp_all add: LorieBuffer_description_def)
  have "S' = S\<lparr>pres := P\<lparr>damage_full := True\<rparr>, sinfo := ?info, root_priv := Some new', priv_addr := a,
      wins := lorieSetPixmapVisitWindow (priv_addr S) a (wins S), pix := X\<lparr>registered := snd r, sent := sent X @ fst r\<rparr>,
      sh := (sh S)\<lparr>cursor_moved := True\<rparr>\<rparr>"
    using assms(1,4,5) P c sw X(1) desc
    by (simp add: lorieRRScreenSetSize_def Let_def r_def case_prod_beta)
  then show ?thesis using reg desc X(2) by (simp add: root_id_def)
qed

definition sample_grow :: sys where
  "sample_grow = sample_sys\<lparr>calloc_buffer := 65\<rparr>"

lemma sample_resize: "lorieRRScreenSetSize sample_grow 9 [] 4 2 sample_screen \<noteq> None"
  by (simp add: lorieRRScreenSetSize_def loriePerformVblanks_def perform_loop.simps present_start_def xorg_list_init_def
      lorieCreatePixmap_def buffer_type_def buffer_format_def LorieBuffer_allocate_def LorieBuffer_createRegion_def allocate_def
      acceptable_def store_buffer_def LorieBuffer_description_def lock_object_def LorieBuffer_lock_def out_ptr_def
      lorieSetWindowPixmap_def unlock_old_def lock_new_def lorieExaDestroyPixmap_def LorieBuffer_release_def LorieBuffer_free_def
      lorieUnregisterBuffer_def lorieRegisterBuffer_def MAP_FAILED_def buffer_consts Let_def
      sample_screen_def sample_grow_def sample_priv_simps)

theorem resize_replaces_root_buffer_witness:
  "\<exists>S'. lorieRRScreenSetSize sample_grow 9 [] 4 2 sample_screen = Some S' \<and> root_width (sinfo S') = 4
    \<and> root_id S' = Some (next_id (bufs (pix sample_screen))) \<and> objs (bufs (pix S')) 64 = None"
proof -
  obtain S' where r: "lorieRRScreenSetSize sample_grow 9 [] 4 2 sample_screen = Some S'" using sample_resize by blast
  have "conn sample_screen" "root_priv sample_screen = Some sample_priv" "pbuffer sample_priv = 64"
    "objs (bufs (pix sample_screen)) 64 = Some sample_buffer" "refcount sample_buffer = 1" "calloc_buffer sample_grow \<noteq> 64"
    "next_id (bufs (pix sample_screen)) \<noteq> bid (desc sample_buffer)" "registered (pix sample_screen) = []"
    by (simp_all add: sample_screen_def sample_grow_def sample_priv_simps)
  then show ?thesis using resize_replaces_root_buffer [OF r, of sample_priv sample_buffer] r by simp
qed

text \<open>\<^verbatim>\<open>lorieRRScreenSetSize\<close> uses the new pixmap without testing whether it could be created.\<close>

lemma resize_without_memory_crashes: "lorieRRScreenSetSize Y 0 handle w h S = None"
  by (cases "loriePerformVblanks (pres S)") (simp_all add: lorieRRScreenSetSize_def lorieCreatePixmap_def Let_def)

section \<open>The windows of the root pixmap\<close>

primrec pixmaps :: "wtree \<Rightarrow> addr set" where
  "pixmaps (Window p ks) = insert p (\<Union>(set (map pixmaps ks)))"

text \<open>Windows that draw into a pixmap hang together: below a window with another pixmap none uses it.\<close>

primrec shares_from_top :: "addr \<Rightarrow> wtree \<Rightarrow> bool" where
  "shares_from_top p (Window q ks) =
     (if q = p then list_all id (map (shares_from_top p) ks) else p \<notin> pixmaps (Window q ks))"

text \<open>
  After a resize no window draws into the old root pixmap any more, and windows with a pixmap of their own keep it.
\<close>

theorem visit_replaces_pixmap:
  assumes "shares_from_top old t" and "new \<noteq> old"
  shows "old \<notin> pixmaps (lorieSetPixmapVisitWindow old new t)
    \<and> pixmaps (lorieSetPixmapVisitWindow old new t) - {new} = pixmaps t - {old, new}"
  using assms
proof (induction t)
  case (Window q ks)
  show ?case
  proof (cases "q = old")
    case True
    then have k: "shares_from_top old k" if "k \<in> set ks" for k using Window.prems(1) that by (auto simp: list_all_iff)
    have IH: "old \<notin> pixmaps (lorieSetPixmapVisitWindow old new k)"
      "x \<in> pixmaps (lorieSetPixmapVisitWindow old new k) \<longleftrightarrow> x \<in> pixmaps k \<and> x \<noteq> old" if "k \<in> set ks" "x \<noteq> new" for k x
      using Window.IH [OF that(1) k [OF that(1)] Window.prems(2)] that(2) by blast+
    have "old \<notin> pixmaps (lorieSetPixmapVisitWindow old new k)" if "k \<in> set ks" for k
      using IH(1) [OF that, of old] Window.prems(2) by blast
    moreover have "x \<in> pixmaps (lorieSetPixmapVisitWindow old new (Window q ks)) - {new} \<longleftrightarrow> x \<in> pixmaps (Window q ks) - {old, new}" for x
      using IH(2) [of _ x] True Window.prems(2) by (cases "x = new") auto
    then have "pixmaps (lorieSetPixmapVisitWindow old new (Window q ks)) - {new} = pixmaps (Window q ks) - {old, new}" by (rule set_eqI)
    ultimately show ?thesis using True Window.prems(2) by simp
  qed (use Window.prems in auto)
qed

theorem visit_replaces_pixmap_witness:
  "8 \<notin> pixmaps (lorieSetPixmapVisitWindow 8 9 (Window 8 [Window 8 [], Window 5 [Window 5 []]]))"
  using visit_replaces_pixmap [of 8 "Window 8 [Window 8 [], Window 5 [Window 5 []]]" 9] by simp

section \<open>The configuration\<close>

text \<open>The rate is a positive 16-bit number and the interval belongs to it, so the division is defined and the
  interval is not zero.\<close>

definition rate_ok :: "output_config \<Rightarrow> bool" where
  "rate_ok C \<longleftrightarrow> 0 < framerate C \<and> framerate C < 2 ^ 16 \<and> vblank_interval C = 1000000 div framerate C
     \<and> length (root_name C) = 1024 \<and> length (output_name C) = 1024"

lemma length_strncpy: "n \<le> length dst \<Longrightarrow> length (strncpy dst src n) = length dst"
  by (simp add: strncpy_def)

text \<open>
  C34. The configuration stays well formed under every message of the activity: the frame rate is never 0, the
  interval between frames is the one of the rate and positive, and the names fill their arrays.
\<close>

theorem configure_keeps_wellformed:
  assumes "rate_ok C" and "rate < 2 ^ 16" and "lorieConfigureNotify lorieCvt mm output w h rate ns name current C = (C', r)"
  shows "rate_ok C' \<and> 0 < vblank_interval C'"
proof -
  define C1 where "C1 = (case name of Some nm \<Rightarrow> if output then set_names nm ns C else C | None \<Rightarrow> C)"
  have 1: "rate_ok C1" using assms(1) by (auto simp: C1_def rate_ok_def set_names_def Let_def length_strncpy split: option.split)
  let ?m = "lorieCvt w h (if rate \<noteq> 0 then rate else 30)"
  have "C' = C1 \<or> C' = C1\<lparr>mode_size := ?m, millimetres := (mm (fst ?m), mm (fst ?m)), framerate := (if rate \<noteq> 0 then rate else 30),
      vblank_interval := 1000000 div (if rate \<noteq> 0 then rate else 30)\<rparr>"
    using assms(3) by (auto simp: lorieConfigureNotify_def C1_def [symmetric] Let_def split: if_splits)
  then have "rate_ok C'" using 1 assms(2) by (auto simp: rate_ok_def)
  then show ?thesis by (simp add: rate_ok_def div_greater_zero_iff)
qed

definition sample_config :: output_config where
  "sample_config = \<lparr>root_name = replicate 1024 0, output_name = replicate 1024 0, framerate = 30, vblank_interval = 33333,
     mode_size = (1280, 1024), millimetres = (0, 0)\<rparr>"

theorem configure_keeps_wellformed_witness:
  "rate_ok (fst (lorieConfigureNotify (\<lambda>w h r. (w, h)) id True 800 600 0 3 (Some [65, 66, 67]) (1280, 1024) sample_config))"
proof -
  have "rate_ok sample_config" by (simp add: rate_ok_def sample_config_def)
  from configure_keeps_wellformed [OF this _ prod.collapse [symmetric], of 0] show ?thesis by simp
qed

text \<open>The name of the output is the one sent, up to 1023 bytes, and always terminated.\<close>

lemma output_name_stored:
  assumes "0 \<notin> set name" and "length name = ns" and "ns < 1024"
  shows "c_string (output_name (set_names name ns C)) = name \<and> c_string (root_name (set_names name ns C)) = name"
proof -
  obtain k where k: "1024 - ns = Suc k" using assms(3) by (cases "1024 - ns") simp_all
  have n: "strncpy (replicate 1024 0) name ns = name @ 0 # replicate k 0"
  proof -
    have "c_string name = name" using assms(1) by (auto simp: c_string_def takeWhile_eq_all_conv)
    then show ?thesis using assms(2) k by (simp add: strncpy_def)
  qed
  have len: "length (name @ 0 # replicate k (0 :: u8)) = 1024" using k assms(2,3) by simp
  have "(name @ 0 # replicate k (0 :: u8)) ! 1023 = 0" using k assms(2,3) by (auto simp: nth_append nth_Cons')
  then have "(name @ 0 # replicate k (0 :: u8))[1023 := 0] = name @ 0 # replicate k 0" by (metis list_update_id)
  then show ?thesis using n c_string_terminated [OF assms(1)] by (simp add: set_names_def Let_def assms(3))
qed

end
