(* ===== verification/Spec2Isabelle.thy ===== *)
theory Spec2Isabelle
  imports Lorie_Clipboard Lorie_Shmem Lorie_Events Lorie_Type Lorie_Touch Dix_Points Mi_Sync Lorie_Cursor Lorie_Mutex Lorie_Proxy Os_Input_Thread Dix_Work Os_Timers Term_Subprocess Lorie_Screen
begin

text \<open>
  Verification of the native core of the XoDos X11 server: the C code under
  \<^verbatim>\<open>src/termux-x11/src/main/cpp/lorie\<close>, which turns the X.Org server into an Android program.

  \<^bold>\<open>The program.\<close> Two processes run it. The X server process holds the DDX driver (\<^verbatim>\<open>InitOutput.c\<close>, \<^verbatim>\<open>InitInput.c\<close>), the
  keyboard code (\<^verbatim>\<open>InputXKB.c\<close>), the clipboard bridge (\<^verbatim>\<open>clipboard.c\<close>) and the server end of the connection
  (\<^verbatim>\<open>cmdentrypoint.c\<close>). The activity process holds the other end (\<^verbatim>\<open>activity.c\<close>) and the renderer (\<^verbatim>\<open>renderer.c\<close>). They
  exchange fixed-size events over a socket, pass pixel buffers (\<^verbatim>\<open>buffer.c\<close>) as descriptors, and share one block of
  memory with the flags of the frame protocol, the cursor and a mutex (\<^verbatim>\<open>lorie.h\<close>). X clients additionally use the
  System V shared memory of \<^verbatim>\<open>shm/shmem.c\<close>. The terminal emulator of the same application starts the sessions in which X clients run
  (\<^verbatim>\<open>terminal-emulator/src/main/jni/termux.c\<close>).

  \<^bold>\<open>The theories\<close>, in the order of their imports:

  \<^item> \<^verbatim>\<open>Lorie_Prelude\<close>: types of machine integers and byte memories, guarded reads and writes (\<open>rd\<close>, \<open>wr\<close>: \<open>None\<close> is an access outside
    the array), C strings, bit facts, and the contracts \<open>transition_system\<close>, \<open>data_refinement\<close> and \<open>fixed_codec\<close>.
  \<^item> \<^verbatim>\<open>Xorg_List\<close>: the intrusive lists of \<^verbatim>\<open>include/list.h\<close> as a store of next and previous pointers, the predicate \<open>ring\<close> and the
    contract \<open>intrusive_list\<close>, interpreted as \<open>xl\<close>.
  \<^item> \<^verbatim>\<open>Lorie_Text\<close>: the text conversions of \<^verbatim>\<open>clipboard.c\<close>. They compute the UTF-8 and Latin-1 conversions and stay in their arrays.
  \<^item> \<^verbatim>\<open>Dix_Selection\<close> and \<^verbatim>\<open>Lorie_Clipboard\<close>: selections and properties of the X server and the clipboard bridge on top of them. Every
    conversion request is answered or queued, the queue is emptied when text arrives, and the invariant holds in
    every reachable state.
  \<^item> \<^verbatim>\<open>Lorie_Buffer\<close>: pixel buffers with a ledger of descriptors, mappings, heap blocks and hardware buffer references.
    Allocation and release balance, conversion keeps the pixels, the last reference frees.
  \<^item> \<^verbatim>\<open>Lorie_Shmem\<close>: \<^verbatim>\<open>shmget\<close>, \<^verbatim>\<open>shmat\<close>, \<^verbatim>\<open>shmdt\<close>, \<^verbatim>\<open>shmctl\<close> with the table of segments and its invariant.
  \<^item> \<^verbatim>\<open>Lorie_Keymap\<close> and \<^verbatim>\<open>Lorie_Keyboard\<close>: key lookup in an XKB keymap and the typing of a keysym with fake modifiers, keycodes
    added for unknown keysyms and the record of pressed keys.
  \<^item> \<^verbatim>\<open>Keysym_Ucs\<close>: the conversion between Unicode and keysyms of \<^verbatim>\<open>xserver/hw/xquartz/keysym2ucs.c\<close> with its table.
  \<^item> \<^verbatim>\<open>Lorie_Wire\<close>: the layout of the events (interpretation \<open>wire\<close> of \<open>fixed_codec\<close>), the senders and the read loops of both sides.
  \<^item> \<^verbatim>\<open>Lorie_Type\<close>: the text sender of the activity with its multibyte decoder. A text is sent as the events of its characters.
  \<^item> \<^verbatim>\<open>Lorie_Input\<close>: the dispatch of the events in the server, touch, stylus, mouse and the devices.
  \<^item> \<^verbatim>\<open>Dix_Valuators\<close> and \<^verbatim>\<open>Lorie_Masks\<close>: the valuator masks of the X server, as maps from axes to values, and the calls the dispatch makes on them.
  \<^item> \<^verbatim>\<open>Dix_Device\<close> and \<^verbatim>\<open>Dix_Hierarchy\<close>: the classes a device registers with the X server and the lists of devices that are on and
    off, with the contract \<open>slave_driver\<close> between the server and the procedure of a device.
  \<^item> \<^verbatim>\<open>Lorie_Device\<close>: the device procedures of \<^verbatim>\<open>InitInput.c\<close> (interpretation \<open>lorie\<close> of \<open>slave_driver\<close>) and the stylus devices that come
    and go. No device leaks, and the set of devices of \<^verbatim>\<open>Lorie_Input\<close> is an abstraction of the lists.
  \<^item> \<^verbatim>\<open>Lorie_Axes\<close>: the axes and buttons the devices declare, and that touches stay inside them.
  \<^item> \<^verbatim>\<open>Dix_Touch\<close>, \<^verbatim>\<open>Lorie_Touch\<close> and \<^verbatim>\<open>Dix_Points\<close>: the touches of a device between driver and clients. The table of touches is a refinement of a map from
    the driver's numbers, and the listeners and the history of a touch stay in their arrays.
  \<^item> \<^verbatim>\<open>Mi_Queue\<close> and \<^verbatim>\<open>Mi_Process\<close>: the event queue of \<^verbatim>\<open>mi/mieq.c\<close>, a ring that grows, as a refinement of a list (\<open>ring_queue\<close>), and the
    loop that hands each event to its device and to the master of the device.
  \<^item> \<^verbatim>\<open>Lorie_Events\<close>: devices and queue together. No master and no queued event refers to a freed device.
  \<^item> \<^verbatim>\<open>Lorie_Present\<close>: the vblank queue on the heap as a refinement of a list of events (\<open>vblanks\<close>).
  \<^item> \<^verbatim>\<open>Lorie_Cursor\<close>: cursor images and the test squares.
  \<^item> \<^verbatim>\<open>Lorie_Pixmap\<close>: the pixmaps of the EXA driver, flips and DRI3 imports, on \<^verbatim>\<open>Lorie_Buffer\<close> and \<^verbatim>\<open>Lorie_Wire\<close>.
  \<^item> \<^verbatim>\<open>Lorie_Mutex\<close>: the shared mutex with its recovery from a dead peer, as a transition system over threads.
  \<^item> \<^verbatim>\<open>Lorie_Proxy\<close>: the thread that passes the signals of a shared condition variable on to the renderer. It has left the old state before
    that is unmapped.
  \<^item> \<^verbatim>\<open>Xshm_Fence\<close> and \<^verbatim>\<open>Mi_Sync\<close>: the fences in shared memory (futex and pthread variants) and the fence objects of the server over them. A trigger wakes every waiter.
  \<^item> \<^verbatim>\<open>Lorie_Renderer\<close>: the buffer lists of the renderer as a refinement of three plain lists (\<open>renderer_lists\<close>), the output window
    (\<open>windows\<close>) and the passes of the renderer thread.
  \<^item> \<^verbatim>\<open>Lorie_Screen\<close>: frame callback, resizing, configuration and command line; server and renderer together as a transition
    system over the shared flags (\<open>frames\<close>): no change of the screen is lost and a change reaches the screen.
  \<^item> \<^verbatim>\<open>Os_Poll\<close> and \<^verbatim>\<open>Os_Input_Thread\<close>: the descriptors the server waits for, as a refinement of a map (\<open>poll\<close>), and the thread that reads the input devices, as a
    transition system (\<open>input_threads\<close>). Callbacks are called for registered descriptors only, and every change of the set is taken over.
  \<^item> \<^verbatim>\<open>Dix_Work\<close> and \<^verbatim>\<open>Os_Timers\<close>: the work queue and the timers of the server loop. Work is done once and in order, timers run when they expire, also
    across the wrap-around of the clock.
  \<^item> \<^verbatim>\<open>Lorie_Start\<close>: the start of the server process from its environment and its files, and the request by which the activity asks for a connection.
  \<^item> \<^verbatim>\<open>Term_Subprocess\<close>: the processes of the terminal emulator. A command starts with its terminal and nothing else of the application.
  \<^item> This theory: the path of a character from the socket, and of a text from the activity, to the keyboard, through \<^verbatim>\<open>Lorie_Type\<close>, \<^verbatim>\<open>Lorie_Wire\<close>,
    \<^verbatim>\<open>Lorie_Input\<close>, \<^verbatim>\<open>Keysym_Ucs\<close> and \<^verbatim>\<open>Lorie_Keyboard\<close>.

  \<^bold>\<open>How the code is read.\<close> A struct is a record, an enumeration a datatype, an integer whose width matters a word. A function
  that changes state returns the new state; an access outside an object, a use of a dangling pointer and a loop
  that does not end are \<open>None\<close>, errors the code reports are values. Objects on the heap are maps from addresses. What
  system calls, EGL, the allocator and the Java side answer are records, so a theorem about all records covers
  every failure. Code under a lock is one step; threads and processes interleave between steps.

  \<^bold>\<open>Loops.\<close> No fuel is used. Loops over arrays are structural or have a measure. Loops over linked lists, the loops of the work queue and the timers and the loop that
  waits for a key of shared memory can run for ever on a broken structure and are partial functions into \<open>option\<close>;
  on well-formed structures they are proved to return. The lock loop and the loop that hears connection requests take
  the list of the answers they get, one per round.

  \<^bold>\<open>Arithmetic.\<close> Coordinates of pointer events are rationals: the rounding of \<^verbatim>\<open>float\<close> is not modelled. Pixels, keysyms,
  counters, identifiers and sizes are words of the width of the code, sizes in products included. The indices of the event
  queue are naturals below the number of its buckets; the one subtraction that wraps around is done in 32 bits.

  \<^bold>\<open>Not modelled.\<close> The vendored X server and libraries beyond what is named above; shaders, the drawn quads and the set-up of EGL;
  the registration of visuals, GLX configurations and callbacks with the X server; device properties, sprites as images and the switching off of
  master devices; calls of the Java machine and descriptor passing; the OpenXR front end \<^verbatim>\<open>xrio\<close>. They consist of calls into the system, the Java
  machine or a graphics library, or, for \<^verbatim>\<open>xrio\<close>, of floating-point geometry whose rounding decides its results.
\<close>

section \<open>From a character to the keyboard\<close>

lemma unicode_message: "handleLorieEvents_loop (encode (EVENT_UNICODE c)) = ([(EVENT_UNICODE c, [])], [])"
proof -
  have "fits server_payload (EVENT_UNICODE c, [])" by (simp add: fits_def server_payload_def valid_event_def)
  from read_loop_message [OF this, of "[]"] show ?thesis
    by (simp add: handleLorieEvents_loop_def on_wire_def sizeof_event_def)
qed

lemma keysym_of_code_means:
  assumes "sorted_copy (reverse_tab E)" and "0 < c" and "c < 2 ^ 24"
  shows "keysym_of_code E c \<noteq> NoSymbol \<and> keysym2ucs (uint (keysym_of_code E c)) = uint c"
proof -
  have u: "0 < uint c" "uint c < 2 ^ 24" using assms(2,3) by (simp_all add: word_less_def)
  note r = ucs2keysym_range [OF assms(1) u]
  then have k: "uint (keysym_of_code E c) = ucs2keysym (reverse_tab E) (uint c)"
    by (simp only: keysym_of_code_def unsigned_of_int) (simp add: take_bit_int_eq_self)
  then have "keysym_of_code E c \<noteq> NoSymbol" using r by (auto simp: NoSymbol_def)
  then show ?thesis using keysym_found_means [OF assms(1) less_imp_le [OF u(1)] u(2)] k by simp
qed



section \<open>From a text to the keyboard\<close>

text \<open>The callback is called again as long as bytes are waiting.\<close>

function serve :: "input_env \<Rightarrow> bytes \<Rightarrow> input \<Rightarrow> input" where
  "serve E bs S = (if bs = [] then S else case handleLorieEvents E False bs S of (S', rest) \<Rightarrow> serve E rest S')"
  by pat_completeness auto

termination
proof (relation "measure (\<lambda>(E, bs, S). length bs)")
  fix E :: input_env and bs rest :: bytes and S S' :: input
  assume "bs \<noteq> []" "(S', rest) = handleLorieEvents E False bs S"
  then show "((E, rest, S'), E, bs, S) \<in> measure (\<lambda>(E, bs, S). length bs)"
    using read_loop_shorter [of bs server_payload] by (auto simp: handleLorieEvents_def handleLorieEvents_loop_def split: prod.splits)
qed simp

declare serve.simps [simp del]

text \<open>Events that type characters only change the keyboard, so the valuators the callback clears in between do not matter.\<close>

definition typed :: "input_env \<Rightarrow> nat list \<Rightarrow> kbd \<Rightarrow> kbd" where
  "typed E ns = fold (\<lambda>n. type_unicode E (word_of_nat n)) ns"

lemma dispatch_char: "dispatch E (EVENT_UNICODE c, bs) S = S\<lparr>keyboard := type_unicode E c (keyboard S)\<rparr>"
  by (simp add: dispatch_def)

lemma dispatch_chars: "keyboard (fold (dispatch E) (map (\<lambda>e. (e, [])) (char_events ns)) S) = typed E ns (keyboard S)"
  by (induction ns arbitrary: S) (simp_all add: char_events_def typed_def dispatch_char)

lemma serve_keyboard:
  "poll_loop server_payload bs = map (\<lambda>e. (e, [])) (char_events ns) \<Longrightarrow> keyboard (serve E bs S) = typed E ns (keyboard S)"
proof (induction E bs S arbitrary: ns rule: serve.induct)
  case (1 E bs S)
  show ?case
  proof (cases "bs = []")
    case True
    then show ?thesis using 1(2) by (simp add: serve.simps poll_loop.simps [of _ "[]"] typed_def char_events_def)
  next
    case False
    obtain ms rest where r: "read_loop server_payload bs = (ms, rest)" by fastforce
    have h: "handleLorieEvents E False bs S = (fold (dispatch E) ms (S\<lparr>vmask := Map.empty\<rparr>), rest)"
      by (simp add: handleLorieEvents_def handleLorieEvents_loop_def r)
    have "ms @ poll_loop server_payload rest = map (\<lambda>e. (e, [])) (char_events ns)"
      using 1(2) False by (subst (asm) poll_loop.simps) (simp add: r)
    then obtain as bs' where "char_events ns = as @ bs'" "ms = map (\<lambda>e. (e, [])) as" "poll_loop server_payload rest = map (\<lambda>e. (e, [])) bs'"
      by (auto simp: append_eq_map_conv)
    moreover from this(1) obtain n1 n2 where n: "ns = n1 @ n2" "as = char_events n1" "bs' = char_events n2"
      by (auto simp: char_events_def map_eq_append_conv)
    ultimately have m: "ms = map (\<lambda>e. (e, [])) (char_events n1)" and p: "poll_loop server_payload rest = map (\<lambda>e. (e, [])) (char_events n2)"
      by simp_all
    have "keyboard (serve E rest (fold (dispatch E) ms (S\<lparr>vmask := Map.empty\<rparr>))) = typed E n2 (keyboard (fold (dispatch E) ms (S\<lparr>vmask := Map.empty\<rparr>)))"
      by (rule 1(1) [OF False h [symmetric] p])
    also have "\<dots> = typed E ns (keyboard S)" unfolding m dispatch_chars by (simp add: typed_def n)
    finally show ?thesis using False h by (simp add: serve.simps [of E bs])
  qed
qed

text \<open>
  C2. A text typed in the activity reaches the keyboard: for every non-empty sequence of characters the sender stays inside its array,
  and when the server has read all it wrote, its keyboard is what typing these characters in their order makes of it: for
  each the press and then the release of a keysym that means this character.
\<close>

theorem text_is_typed:
  assumes "sorted_copy (reverse_tab E)" and "\<forall>n\<in>set ns. wide_char n \<and> 0 < n" and "ns \<noteq> []"
  shows "\<exists>out. sendTextEvent True (Some (utf8_encode ns)) = Some (out, 0)
    \<and> keyboard (serve E out S) = fold (\<lambda>n K. let ks = keysym_of_code E (word_of_nat n)
        in lorieKeysymKeyboardEvent (kbd_world E) ks False (lorieKeysymKeyboardEvent (kbd_world E) ks True K)) ns (keyboard S)
    \<and> (\<forall>n\<in>set ns. keysym2ucs (uint (keysym_of_code E (word_of_nat n))) = int n)"
proof (intro exI conjI ballI)
  show "sendTextEvent True (Some (utf8_encode ns)) = Some (sent_chars ns, 0)" by (rule sendTextEvent_chars [OF assms(2,3)])
  show "keyboard (serve E (sent_chars ns) S) = fold (\<lambda>n K. let ks = keysym_of_code E (word_of_nat n)
        in lorieKeysymKeyboardEvent (kbd_world E) ks False (lorieKeysymKeyboardEvent (kbd_world E) ks True K)) ns (keyboard S)"
    unfolding serve_keyboard [OF sent_chars_received] typed_def type_unicode_def ..
  fix n assume "n \<in> set ns"
  then have n: "n < 0x110000" "0 < n" using assms(2) by (auto simp: wide_char_def code_point_def)
  then have u: "unat (word_of_nat n :: u32) = n" by (intro unat_of_short) simp
  have "0 < (word_of_nat n :: u32)" "(word_of_nat n :: u32) < 2 ^ 24"
    using n by (simp_all add: word_less_nat_alt u del: unsigned_of_nat)
  then have "keysym2ucs (uint (keysym_of_code E (word_of_nat n))) = uint (word_of_nat n :: u32)" using keysym_of_code_means [OF assms(1)] by blast
  also have "\<dots> = int n" by (simp only: uint_nat u)
  finally show "keysym2ucs (uint (keysym_of_code E (word_of_nat n))) = int n" .
qed

theorem text_is_typed_witness:
  "\<exists>out. sendTextEvent True (Some [0x61, 0xe2, 0x82, 0xac]) = Some (out, 0) \<and>
     (let E = sample_env\<lparr>reverse_tab := sort_key snd keysymtab\<rparr>
      in keyboard (serve E out sample_input) = type_unicode E 0x20ac (type_unicode E 0x61 (keyboard sample_input)))"
proof -
  let ?E = "sample_env\<lparr>reverse_tab := sort_key snd keysymtab\<rparr>"
  have c: "\<forall>n\<in>set [0x61, 0x20ac]. wide_char n \<and> 0 < n" by (simp add: wide_char_def code_point_def)
  have t: "utf8_encode [0x61, 0x20ac] = [0x61, 0xe2, 0x82, 0xac]" by (simp add: utf8_encode_def utf8_enc_def)
  have r: "reverse_tab (sample_env\<lparr>reverse_tab := t\<rparr>) = t" for t by simp
  have E: "sorted_copy (reverse_tab ?E)" unfolding r by (rule sorted_copy_exists)
  from text_is_typed [OF E c, of sample_input] show ?thesis
    unfolding t type_unicode_def Let_def by (simp only: fold_Cons fold_Nil comp_apply id_apply of_nat_numeral list.distinct not_False_eq_True simp_thms) blast
qed

end
